(* ===== verification/Prelude.thy ===== *)
theory Prelude
  imports Main "HOL-Library.Sublist"
begin

text \<open>
  Shared vocabulary of the development: the exceptions the Python code raises, results that
  are either an exception or a value, the few Python string and list primitives the modelled
  modules use (from the language's library, so modelled here once), and the rule collections
  the component theories extend.
\<close>

section \<open>Rule collections\<close>

named_theorems frame_simps \<open>fields an operation leaves alone\<close>
named_theorems wf_intros \<open>well-formedness is kept\<close>

section \<open>Exceptions and results\<close>

text \<open>
  The exception classes that reach a handler of the modelled code, with the payload the
  handlers look at. \<open>SystemExit\<close> carries the exit code; \<open>OSErr\<close> stands for Python's
  \<open>EnvironmentError\<close> family (errno, message, file name).
\<close>

datatype py_exc =
    SystemExit int
  | ExplicitExit "nat option" int  \<comment> \<open>the node and the exit status\<close>
  | UserError string
  | StopError string
  | InternalError string
  | OSErr int string "string option"
  | KeyError string
  | IndexError
  | TypeError
  | ValueError
  | AttributeError
  | AssertionError
  | NotImplementedError
  | OtherError string string  \<comment> \<open>class name and text\<close>

text \<open>The class \<open>EnvironmentError\<close>, the base of \<open>OSError\<close> and \<open>IOError\<close>.\<close>

definition is_os_error :: "py_exc \<Rightarrow> bool" where
  "is_os_error x \<longleftrightarrow> (case x of OSErr _ _ _ \<Rightarrow> True | _ \<Rightarrow> False)"

type_synonym 'a res = "py_exc + 'a"

fun res_bind :: "'e + 'a \<Rightarrow> ('a \<Rightarrow> 'e + 'b) \<Rightarrow> 'e + 'b" where
  "res_bind (Inl e) f = Inl e"
| "res_bind (Inr x) f = f x"

lemma res_bind_Inr [simp]: "res_bind r Inr = r"
  by (cases r) auto

lemma res_bind_assoc: "res_bind (res_bind r f) g = res_bind r (\<lambda>x. res_bind (f x) g)"
  by (cases r) auto

lemma res_bind_eq_Inr: "res_bind r f = Inr y \<longleftrightarrow> (\<exists>x. r = Inr x \<and> f x = Inr y)"
  by (cases r) auto

text \<open>
  Results of code that may not return: \<open>None\<close> when it does not, else an exception or a value.
  \<open>obs_bind\<close> goes on with the value.
\<close>

definition obs_bind :: "'a res option \<Rightarrow> ('a \<Rightarrow> 'b res option) \<Rightarrow> 'b res option" where
  "obs_bind x f = Option.bind x (\<lambda>r. case r of Inl e \<Rightarrow> Some (Inl e) | Inr a \<Rightarrow> f a)"

lemma obs_bind_simps [simp]:
  "obs_bind None f = None" "obs_bind (Some (Inl e)) f = Some (Inl e)" "obs_bind (Some (Inr a)) f = f a"
  by (simp_all add: obs_bind_def)

lemma obs_bind_assoc: "obs_bind (obs_bind x f) g = obs_bind x (\<lambda>a. obs_bind (f a) g)"
  by (cases x; cases "the x") (auto simp: obs_bind_def)

lemma obs_bind_Some: "obs_bind x f = Some r \<longleftrightarrow>
    (\<exists>e. x = Some (Inl e) \<and> r = Inl e) \<or> (\<exists>a. x = Some (Inr a) \<and> f a = Some r)"
  by (cases x; cases "the x") (auto simp: obs_bind_def)

lemma obs_bind_cong: "x = y \<Longrightarrow> (\<And>a. y = Some (Inr a) \<Longrightarrow> f a = g a) \<Longrightarrow> obs_bind x f = obs_bind y g"
  by (cases y; cases "the y") (auto simp: obs_bind_def)

lemma obs_bind_map: "obs_bind (map_option (\<lambda>r. res_bind r (\<lambda>x. Inr (f x))) y) g = obs_bind y (\<lambda>x. g (f x))"
  by (cases y; cases "the y") (auto simp: obs_bind_def)

section \<open>Python list primitives\<close>

text \<open>\<open>xs[i]\<close> with negative indices counting from the end and \<open>IndexError\<close> out of range.\<close>

definition py_index :: "nat \<Rightarrow> int \<Rightarrow> nat option" where
  "py_index len i =
     (if i \<ge> 0 then (if nat i < len then Some (nat i) else None)
      else if nat (- i) \<le> len then Some (len - nat (- i)) else None)"

definition py_get :: "'a list \<Rightarrow> int \<Rightarrow> 'a res" where
  "py_get xs i = (case py_index (length xs) i of Some k \<Rightarrow> Inr (xs ! k) | None \<Rightarrow> Inl IndexError)"

text \<open>\<open>xs[i:j]\<close> for \<open>0 \<le> i\<close> and \<open>0 \<le> j\<close>.\<close>

definition py_slice :: "'a list \<Rightarrow> nat \<Rightarrow> nat \<Rightarrow> 'a list" where
  "py_slice xs i j = drop i (take j xs)"

text \<open>The position of the first element that satisfies \<open>P\<close>, as in \<open>xs.index(x)\<close>.\<close>

fun find_index :: "('a \<Rightarrow> bool) \<Rightarrow> 'a list \<Rightarrow> nat option" where
  "find_index P [] = None"
| "find_index P (x # xs) = (if P x then Some 0 else map_option Suc (find_index P xs))"

text \<open>\<open>xs.pop()\<close>: the last element and the rest, \<open>None\<close> where Python raises \<open>IndexError\<close>.\<close>

definition py_pop :: "'a list \<Rightarrow> ('a \<times> 'a list) option" where
  "py_pop xs = (if xs = [] then None else Some (last xs, butlast xs))"

lemma py_pop_Nil [simp]: "py_pop [] = None"
  by (simp add: py_pop_def)

lemma py_pop_snoc [simp]: "py_pop (xs @ [x]) = Some (x, xs)"
  by (simp add: py_pop_def)

lemma py_pop_None [simp]: "py_pop xs = None \<longleftrightarrow> xs = []"
  by (simp add: py_pop_def)

lemma py_pop_Some [simp]: "py_pop xs = Some (x, ys) \<longleftrightarrow> xs = ys @ [x]"
  by (auto simp: py_pop_def)

text \<open>
  A Python set that the code iterates over is a list without repetitions, in insertion
  order; \<open>set_add\<close> is \<open>s.add(x)\<close>, \<open>set_union\<close> is \<open>s | t\<close>, \<open>set_minus\<close> is \<open>s - t\<close>.
\<close>

definition set_add :: "'a \<Rightarrow> 'a list \<Rightarrow> 'a list" where
  "set_add x xs = (if x \<in> set xs then xs else xs @ [x])"

definition set_union :: "'a list \<Rightarrow> 'a list \<Rightarrow> 'a list" where
  "set_union xs ys = fold set_add ys xs"

definition set_minus :: "'a list \<Rightarrow> 'a list \<Rightarrow> 'a list" where
  "set_minus xs ys = filter (\<lambda>x. x \<notin> set ys) xs"

lemma set_set_add [simp]: "set (set_add x xs) = insert x (set xs)"
  by (auto simp: set_add_def)

lemma distinct_set_add [simp]: "distinct (set_add x xs) = distinct xs"
  by (auto simp: set_add_def)

lemma set_add_neq_Nil [simp]: "set_add x xs \<noteq> []"
  by (auto simp: set_add_def)

lemma length_set_add_le: "length (set_add x xs) \<le> Suc (length xs)"
  by (simp add: set_add_def)

lemma set_fold_set_add [simp]: "set (fold set_add ys xs) = set xs \<union> set ys"
  by (induction ys arbitrary: xs) auto

lemma set_set_union [simp]: "set (set_union xs ys) = set xs \<union> set ys"
  by (simp add: set_union_def)

lemma distinct_set_union [simp]: "distinct (set_union xs ys) = distinct xs"
  unfolding set_union_def by (induction ys arbitrary: xs) auto

lemma length_set_union_le: "length (set_union xs ys) \<le> length xs + length ys"
  unfolding set_union_def
proof (induction ys arbitrary: xs)
  case (Cons y ys)
  have "length (fold set_add ys (set_add y xs)) \<le> length (set_add y xs) + length ys"
    by (rule Cons.IH)
  with length_set_add_le [of y xs] show ?case by simp
qed simp

lemma set_set_minus [simp]: "set (set_minus xs ys) = set xs - set ys"
  by (auto simp: set_minus_def)

lemma distinct_set_minus [simp]: "distinct xs \<Longrightarrow> distinct (set_minus xs ys)"
  by (simp add: set_minus_def)

section \<open>Python string primitives\<close>

text \<open>\<open>string.rfind(s, c)\<close> for a one-character needle: the last index, or \<open>-1\<close>.\<close>

fun rfind_from :: "int \<Rightarrow> int \<Rightarrow> char \<Rightarrow> string \<Rightarrow> int" where
  "rfind_from i r c [] = r"
| "rfind_from i r c (x # xs) = rfind_from (i + 1) (if x = c then i else r) c xs"

definition rfind :: "string \<Rightarrow> char \<Rightarrow> int" where
  "rfind s c = rfind_from 0 (-1) c s"

text \<open>\<open>string.split(s, sep)\<close> for a separator that is not empty.\<close>

function split_acc :: "string \<Rightarrow> string \<Rightarrow> string \<Rightarrow> string list" where
  "split_acc sep acc s =
     (if s = [] \<or> sep = [] then [rev acc @ s]
      else if prefix sep s then rev acc # split_acc sep [] (drop (length sep) s)
      else split_acc sep (hd s # acc) (tl s))"
  by pat_completeness auto
termination
  by (relation "measure (\<lambda>(sep, acc, s). length s)") auto

declare split_acc.simps [simp del]

definition py_split :: "string \<Rightarrow> string \<Rightarrow> string list" where
  "py_split sep s = split_acc sep [] s"

text \<open>\<open>string.split(s)\<close>: runs of white space separate, empty fields are dropped.\<close>

definition is_ws :: "char \<Rightarrow> bool" where
  "is_ws c \<longleftrightarrow> c \<in> set [CHR '' '', CHR 0x09, CHR 0x0A, CHR 0x0D, CHR 0x0B, CHR 0x0C]"

fun split_ws_acc :: "string \<Rightarrow> string \<Rightarrow> string list" where
  "split_ws_acc acc [] = (if acc = [] then [] else [rev acc])"
| "split_ws_acc acc (c # cs) =
     (if is_ws c then (if acc = [] then split_ws_acc [] cs else rev acc # split_ws_acc [] cs)
      else split_ws_acc (c # acc) cs)"

definition split_ws :: "string \<Rightarrow> string list" where
  "split_ws s = split_ws_acc [] s"

text \<open>\<open>str(n)\<close> and \<open>"%s" % n\<close> for an integer.\<close>

fun show_nat :: "nat \<Rightarrow> string" where
  "show_nat n = (if n < 10 then [char_of (48 + n)] else show_nat (n div 10) @ [char_of (48 + n mod 10)])"

declare show_nat.simps [simp del]

definition show_int :: "int \<Rightarrow> string" where
  "show_int i = (if i < 0 then CHR ''-'' # show_nat (nat (- i)) else show_nat (nat i))"

text \<open>\<open>string.join(xs, sep)\<close>.\<close>

fun py_join :: "string \<Rightarrow> string list \<Rightarrow> string" where
  "py_join sep [] = []"
| "py_join sep [x] = x"
| "py_join sep (x # y # xs) = x @ sep @ py_join sep (y # xs)"

lemma py_join_Cons: "xs \<noteq> [] \<Longrightarrow> py_join sep (x # xs) = x @ sep @ py_join sep xs"
  by (cases xs) auto

lemma split_acc_neq_Nil [simp]: "split_acc sep acc s \<noteq> []"
  by (induction sep acc s rule: split_acc.induct) (subst split_acc.simps, simp)

lemma py_split_neq_Nil [simp]: "py_split sep s \<noteq> []"
  by (simp add: py_split_def)

text \<open>Joining the fields of a split with the same separator gives the string back.\<close>

lemma py_join_split_acc: "py_join sep (split_acc sep acc s) = rev acc @ s"
proof (induction sep acc s rule: split_acc.induct)
  case (1 sep acc s)
  consider "s = [] \<or> sep = []" | "s \<noteq> []" "sep \<noteq> []" "prefix sep s"
    | "s \<noteq> []" "sep \<noteq> []" "\<not> prefix sep s"
    by blast
  then show ?case
  proof cases
    case 1
    then show ?thesis by (subst split_acc.simps) simp
  next
    case 2
    then obtain r where "s = sep @ r" by (auto simp: prefix_def)
    with 2 "1.IH"(1) show ?thesis
      by (simp add: split_acc.simps [of sep acc "sep @ r"] py_join_Cons)
  next
    case 3
    with "1.IH"(2) show ?thesis
      by (simp add: split_acc.simps [of sep acc s])
  qed
qed

lemma py_join_split: "py_join sep (py_split sep s) = s"
  by (simp add: py_split_def py_join_split_acc)

lemma split_acc_no_sep: "d \<notin> set s \<Longrightarrow> split_acc [d] acc s = [rev acc @ s]"
proof (induction s arbitrary: acc)
  case (Cons c s)
  then have "\<not> prefix [d] (c # s)" by auto
  with Cons.IH [of "c # acc"] Cons.prems show ?case by (simp add: split_acc.simps [of "[d]" acc "c # s"])
qed (simp add: split_acc.simps)

lemma py_split_no_sep: "d \<notin> set s \<Longrightarrow> py_split [d] s = [s]"
  by (simp add: py_split_def split_acc_no_sep)

text \<open>A white-space split never returns an empty field or a field with white space in it.\<close>

lemma split_ws_acc_fields:
  "list_all (Not \<circ> is_ws) acc \<Longrightarrow> list_all (\<lambda>f. f \<noteq> [] \<and> list_all (Not \<circ> is_ws) f) (split_ws_acc acc s)"
  by (induction acc s rule: split_ws_acc.induct) (simp_all add: list_all_rev)

lemma split_ws_fields: "f \<in> set (split_ws s) \<Longrightarrow> f \<noteq> [] \<and> (\<forall>c \<in> set f. \<not> is_ws c)"
  using split_ws_acc_fields [of "[]" s] by (auto simp: split_ws_def list_all_iff)

section \<open>Letter case\<close>

text \<open>\<open>lower\<close> and \<open>upper\<close> of strings, on ASCII letters.\<close>

definition lower_char :: "char \<Rightarrow> char" where
  "lower_char c = (let n = of_char c :: nat in if 65 \<le> n \<and> n \<le> 90 then char_of (n + 32) else c)"

definition upper_char :: "char \<Rightarrow> char" where
  "upper_char c = (let n = of_char c :: nat in if 97 \<le> n \<and> n \<le> 122 then char_of (n - 32) else c)"

definition py_lower :: "string \<Rightarrow> string" where
  "py_lower s = map lower_char s"

definition py_upper :: "string \<Rightarrow> string" where
  "py_upper s = map upper_char s"

end
