(* ===== verification/Errors.thy ===== *)
theory Errors
  imports Prelude
begin

text \<open>
  \<open>SCons/Errors.py\<close>: the \<open>BuildError\<close> exception with its attributes and
  \<open>convert_to_BuildError\<close>, which turns a return code, a message or any exception into one.
  A node or an executor is named by its number in the heap of theory \<open>Node\<close>.
\<close>

type_synonym nid = nat
type_synonym eid = nat

text \<open>
  \<open>be_node\<close> is the \<open>node\<close> attribute: \<open>None\<close>, one node, or (from \<open>Executor.do_execute\<close>) the
  list of a batch's targets. \<open>be_exc_info\<close> keeps the exception of the \<open>exc_info\<close> triple.
\<close>

record build_error =
  errstr :: string
  status :: int
  exitstatus :: int
  filename :: "string option"
  be_exc_info :: "py_exc option"
  be_node :: "nid list option"
  be_executor :: "eid option"
  be_action :: "nat option"

text \<open>\<open>BuildError.__init__\<close> with every argument at its default.\<close>

definition BuildError_init :: build_error where
  "BuildError_init = \<lparr>errstr = ''Unknown error'', status = 2, exitstatus = 2, filename = None,
     be_exc_info = None, be_node = None, be_executor = None, be_action = None\<rparr>"

definition BuildError_str :: "build_error \<Rightarrow> string" where
  "BuildError_str e = (case filename e of
       Some f \<Rightarrow> if f \<noteq> [] then f @ '': '' @ errstr e else errstr e
     | None \<Rightarrow> errstr e)"

datatype exc = BuildErr build_error | Exc py_exc

text \<open>The class name and the text Python prints for an exception.\<close>

fun exc_class :: "py_exc \<Rightarrow> string" where
  "exc_class (SystemExit c) = ''SystemExit''"
| "exc_class (ExplicitExit n s) = ''ExplicitExit''"
| "exc_class (UserError m) = ''UserError''"
| "exc_class (StopError m) = ''StopError''"
| "exc_class (InternalError m) = ''InternalError''"
| "exc_class (OSErr n m f) = ''EnvironmentError''"
| "exc_class (KeyError k) = ''KeyError''"
| "exc_class IndexError = ''IndexError''"
| "exc_class TypeError = ''TypeError''"
| "exc_class ValueError = ''ValueError''"
| "exc_class AttributeError = ''AttributeError''"
| "exc_class AssertionError = ''AssertionError''"
| "exc_class NotImplementedError = ''NotImplementedError''"
| "exc_class (OtherError c m) = c"

fun exc_text :: "py_exc \<Rightarrow> string" where
  "exc_text (SystemExit c) = show_int c"
| "exc_text (UserError m) = m"
| "exc_text (StopError m) = m"
| "exc_text (InternalError m) = m"
| "exc_text (OSErr n m f) = m"
| "exc_text (KeyError k) = k"
| "exc_text (OtherError c m) = m"
| "exc_text _ = []"

text \<open>What the first argument of \<open>convert_to_BuildError\<close> can be.\<close>

datatype conv_arg = CExc exc | CString string | CInt int

text \<open>The branches in the source's order; \<open>exc_info\<close> is the optional second argument.\<close>

definition convert_to_BuildError :: "conv_arg \<Rightarrow> py_exc option \<Rightarrow> build_error" where
  "convert_to_BuildError st exc_info =
     (let info = (case exc_info of Some i \<Rightarrow> Some i
                  | None \<Rightarrow> (case st of CExc (Exc e) \<Rightarrow> Some e | _ \<Rightarrow> None))
      in case st of
        CExc (BuildErr b) \<Rightarrow> b\<lparr>exitstatus := 2\<rparr>
      | CExc (Exc (ExplicitExit n s)) \<Rightarrow>
          BuildError_init\<lparr>errstr := ''Explicit exit, status '' @ show_int s,
            status := s, exitstatus := s, be_exc_info := info\<rparr>
      | CExc (Exc (StopError m)) \<Rightarrow>
          BuildError_init\<lparr>errstr := m, status := 2, exitstatus := 2, be_exc_info := info\<rparr>
      | CExc (Exc (UserError m)) \<Rightarrow>
          BuildError_init\<lparr>errstr := m, status := 2, exitstatus := 2, be_exc_info := info\<rparr>
      | CExc (Exc (OSErr errno strerror fname)) \<Rightarrow>
          BuildError_init\<lparr>errstr := strerror, status := errno, exitstatus := 2,
            filename := fname, be_exc_info := info\<rparr>
      | CExc (Exc e) \<Rightarrow>
          BuildError_init\<lparr>errstr := exc_class e @ '' : '' @ exc_text e, status := 2,
            exitstatus := 2, be_exc_info := info\<rparr>
      | CString m \<Rightarrow> BuildError_init\<lparr>errstr := m, status := 2, exitstatus := 2\<rparr>
      | CInt s \<Rightarrow> BuildError_init\<lparr>errstr := ''Error '' @ show_int s, status := s, exitstatus := 2\<rparr>)"

text \<open>
  Whatever is converted, \<open>scons\<close> exits with 2, unless the build asked for an explicit exit, whose
  status is then kept; a build error is passed on unchanged but for its exit status; and converting
  twice loses the status of an explicit exit.
\<close>

lemma convert_to_BuildError_status:
  "exitstatus (convert_to_BuildError st i) = (case st of CExc (Exc (ExplicitExit n s)) \<Rightarrow> s | _ \<Rightarrow> 2) \<and>
   convert_to_BuildError (CExc (BuildErr b)) i = b\<lparr>exitstatus := 2\<rparr> \<and>
   exitstatus (convert_to_BuildError (CExc (BuildErr (convert_to_BuildError st i))) j) = 2"
  by (auto simp: convert_to_BuildError_def Let_def BuildError_init_def
      split: conv_arg.splits exc.splits py_exc.splits)

end
