(* ===== verification/Util.thy ===== *)
theory Util
  imports Prelude
begin

text \<open>
  \<open>SCons/Util.py\<close>, the list and dictionary helpers: duplicate removal (\<open>unique\<close>, \<open>uniquer\<close>,
  \<open>uniquer_hashables\<close>), the lazily uniquified \<open>UniqueList\<close> the executors return, the
  insertion-ordered \<open>OrderedDict\<close> and the suffix \<open>Selector\<close> built on it, \<open>flatten\<close>, and the
  logical-line reader.
\<close>

section \<open>Removing duplicates\<close>

text \<open>
  \<open>uniquer\<close>: the loop carries the dictionary \<open>seen\<close> (only its keys matter) and the result
  list; \<open>uniquer_hashables\<close> is the same loop without \<open>idfun\<close>.
\<close>

fun uniquer_loop :: "('a \<Rightarrow> 'b) \<Rightarrow> 'b list \<Rightarrow> 'a list \<Rightarrow> 'a list \<Rightarrow> 'a list" where
  "uniquer_loop idfun seen result [] = result"
| "uniquer_loop idfun seen result (item # seq) =
     (let marker = idfun item
      in if marker \<in> set seen then uniquer_loop idfun seen result seq
         else uniquer_loop idfun (marker # seen) (result @ [item]) seq)"

definition uniquer :: "'a list \<Rightarrow> ('a \<Rightarrow> 'b) \<Rightarrow> 'a list" where
  "uniquer seq idfun = uniquer_loop idfun [] [] seq"

fun uniquer_hashables_loop :: "'a list \<Rightarrow> 'a list \<Rightarrow> 'a list \<Rightarrow> 'a list" where
  "uniquer_hashables_loop seen result [] = result"
| "uniquer_hashables_loop seen result (item # seq) =
     (if item \<notin> set seen then uniquer_hashables_loop (item # seen) (result @ [item]) seq
      else uniquer_hashables_loop seen result seq)"

definition uniquer_hashables :: "'a list \<Rightarrow> 'a list" where
  "uniquer_hashables seq = uniquer_hashables_loop [] [] seq"

lemma uniquer_hashables_loop_eq:
  "set seen = set result \<Longrightarrow> uniquer_hashables_loop seen result seq = fold set_add seq result"
  by (induction seq arbitrary: seen result) (auto simp: set_add_def)

lemma uniquer_hashables_eq: "uniquer_hashables seq = fold set_add seq []"
  by (simp add: uniquer_hashables_def uniquer_hashables_loop_eq)

lemma uniquer_hashables_snoc: "uniquer_hashables (xs @ [x]) = set_add x (uniquer_hashables xs)"
  by (simp add: uniquer_hashables_eq)

lemma set_uniquer_hashables [simp]: "set (uniquer_hashables seq) = set seq"
  by (simp add: uniquer_hashables_eq)

lemma distinct_uniquer_hashables [simp]: "distinct (uniquer_hashables seq)"
  by (induction seq rule: rev_induct) (simp_all add: uniquer_hashables_snoc uniquer_hashables_eq [of "[]"])

lemma uniquer_hashables_id: "distinct seq \<Longrightarrow> uniquer_hashables seq = seq"
proof (induction seq rule: rev_induct)
  case (snoc x xs)
  then show ?case by (simp add: uniquer_hashables_snoc) (simp add: set_add_def)
qed (simp add: uniquer_hashables_eq)

lemma uniquer_hashables_remdups: "uniquer_hashables seq = rev (remdups (rev seq))"
  by (induction seq rule: rev_induct) (auto simp: uniquer_hashables_snoc set_add_def uniquer_hashables_eq [of "[]"])

lemma uniquer_loop_map:
  "map f (uniquer_loop f seen result seq) = uniquer_hashables_loop seen (map f result) (map f seq)"
  by (induction f seen result seq rule: uniquer_loop.induct) (auto simp: Let_def)

text \<open>
  The sort branch of \<open>unique\<close>: the list \<open>t\<close> is sorted in place, then compacted in place by a
  loop over an index; \<open>lasti\<close> is the length of the compacted front.
\<close>

function unique_compact :: "'a list \<Rightarrow> 'a \<Rightarrow> nat \<Rightarrow> nat \<Rightarrow> nat \<Rightarrow> 'a list" where
  "unique_compact t prev lasti i n =
     (if i < n then
        (if t ! i \<noteq> prev then unique_compact (t[lasti := t ! i]) (t ! i) (lasti + 1) (i + 1) n
         else unique_compact t prev lasti (i + 1) n)
      else take lasti t)"
  by pat_completeness auto
termination
  by (relation "measure (\<lambda>(t, prev, lasti, i, n). n - i)") auto

declare unique_compact.simps [simp del]

definition unique_sorted :: "'a::linorder list \<Rightarrow> 'a list" where
  "unique_sorted s = (let t = sort s in unique_compact t (t ! 0) 1 1 (length t))"

fun unique_brute :: "'a list \<Rightarrow> 'a list \<Rightarrow> 'a list" where
  "unique_brute u [] = u"
| "unique_brute u (x # s) = (if x \<notin> set u then unique_brute (u @ [x]) s else unique_brute u s)"

text \<open>
  \<open>unique\<close>: elements that hash go through a dictionary (its key order is Python's; here the
  insertion order), else a sort, else brute force. \<open>hashable\<close> and \<open>sortable\<close> say whether
  hashing, respectively sorting, raises \<open>TypeError\<close>.
\<close>

definition unique :: "bool \<Rightarrow> bool \<Rightarrow> 'a::linorder list \<Rightarrow> 'a list" where
  "unique hashable sortable s =
     (if s = [] then []
      else if hashable then fold set_add s []
      else if sortable then unique_sorted s
      else unique_brute [] s)"

lemma unique_brute_eq: "unique_brute u s = fold set_add s u"
  by (induction s arbitrary: u) (auto simp: set_add_def)

lemma drop_nth_Cons: "i < length t \<Longrightarrow> drop i t = t ! i # drop (Suc i) t"
  by (rule Cons_nth_drop_Suc [symmetric])

lemma unique_compact_correct:
  assumes "n = length t" and "0 < lasti" and "lasti \<le> i" and "i \<le> n"
    and "t ! (lasti - 1) = x"
  shows "unique_compact t x lasti i n = take (lasti - 1) t @ remdups_adj (x # drop i t)"
  using assms
proof (induction t x lasti i n rule: unique_compact.induct)
  case (1 t x lasti i n)
  have front: "take lasti t = take (lasti - 1) t @ [x]"
    using "1.prems" by (metis Suc_diff_1 less_le_trans diff_less order_less_le_trans take_Suc_conv_app_nth zero_less_one)
  consider "n \<le> i" | "i < n" "t ! i = x" | "i < n" "t ! i \<noteq> x" by linarith
  then show ?case
  proof cases
    case 1
    with "1.prems" front show ?thesis
      by (subst unique_compact.simps) simp
  next
    case 2
    with "1.IH"(2) "1.prems" show ?thesis
      by (simp add: unique_compact.simps [of t x lasti i "length t"] drop_nth_Cons)
  next
    case 3
    let ?t = "t[lasti := t ! i]"
    have "unique_compact ?t (t ! i) (lasti + 1) (i + 1) n
        = take (lasti + 1 - 1) ?t @ remdups_adj (t ! i # drop (i + 1) ?t)"
      using 3 "1.prems" by (intro "1.IH"(1)) auto
    moreover have "take lasti ?t = take lasti t" and "drop (i + 1) ?t = drop (i + 1) t"
      using "1.prems" by auto
    ultimately show ?thesis
      using 3 "1.prems" front
      by (simp add: unique_compact.simps [of t x lasti i "length t"] drop_nth_Cons)
  qed
qed

lemma unique_sorted_eq:
  assumes "s \<noteq> []" shows "unique_sorted s = remdups_adj (sort s)"
proof -
  from assms have len: "0 < length (sort s)" by simp
  have "unique_sorted s = take 0 (sort s) @ remdups_adj (sort s ! 0 # drop 1 (sort s))"
    unfolding unique_sorted_def Let_def using len
    by (subst unique_compact_correct) (auto simp: Suc_le_eq)
  also have "sort s ! 0 # drop 1 (sort s) = sort s"
    using len by (metis One_nat_def drop_0 drop_nth_Cons)
  finally show ?thesis by simp
qed

lemma distinct_remdups_adj_sorted: "sorted (xs :: 'a::linorder list) \<Longrightarrow> distinct (remdups_adj xs)"
  by (induction xs rule: remdups_adj.induct) (auto simp: antisym split: if_splits)

section \<open>UniqueList\<close>

record 'a unique_list =
  ul_data :: "'a list"
  ul_unique :: bool

definition UniqueList_init :: "'a list \<Rightarrow> 'a unique_list" where
  "UniqueList_init seq = \<lparr>ul_data = seq, ul_unique = True\<rparr>"

definition make_unique :: "'a unique_list \<Rightarrow> 'a unique_list" where
  "make_unique u = (if \<not> ul_unique u then \<lparr>ul_data = uniquer_hashables (ul_data u), ul_unique = True\<rparr> else u)"

definition ul_append :: "'a unique_list \<Rightarrow> 'a \<Rightarrow> 'a unique_list" where
  "ul_append u x = \<lparr>ul_data = ul_data u @ [x], ul_unique = False\<rparr>"

definition ul_extend :: "'a unique_list \<Rightarrow> 'a list \<Rightarrow> 'a unique_list" where
  "ul_extend u xs = \<lparr>ul_data = ul_data u @ xs, ul_unique = False\<rparr>"

definition ul_setitem :: "'a unique_list \<Rightarrow> int \<Rightarrow> 'a \<Rightarrow> 'a unique_list res" where
  "ul_setitem u i x = (case py_index (length (ul_data u)) i of
       Some k \<Rightarrow> Inr \<lparr>ul_data = (ul_data u)[k := x], ul_unique = False\<rparr>
     | None \<Rightarrow> Inl IndexError)"

text \<open>\<open>UserList.__setslice__\<close> cuts negative bounds off at 0.\<close>

definition ul_setslice :: "'a unique_list \<Rightarrow> int \<Rightarrow> int \<Rightarrow> 'a list \<Rightarrow> 'a unique_list" where
  "ul_setslice u i j other =
     \<lparr>ul_data = take (nat i) (ul_data u) @ other @ drop (max (nat i) (nat j)) (ul_data u), ul_unique = False\<rparr>"

definition ul_radd :: "'a unique_list \<Rightarrow> 'a list \<Rightarrow> 'a unique_list" where
  "ul_radd u xs = \<lparr>ul_data = xs @ ul_data u, ul_unique = False\<rparr>"

definition ul_iadd :: "'a unique_list \<Rightarrow> 'a list \<Rightarrow> 'a unique_list" where
  "ul_iadd u xs = \<lparr>ul_data = ul_data u @ xs, ul_unique = False\<rparr>"

text \<open>\<open>__mul__\<close>, \<open>__rmul__\<close> and \<open>__imul__\<close>: a negative factor gives the empty list.\<close>

definition ul_mul :: "'a unique_list \<Rightarrow> int \<Rightarrow> 'a unique_list" where
  "ul_mul u n = \<lparr>ul_data = concat (replicate (nat n) (ul_data u)), ul_unique = False\<rparr>"

text \<open>\<open>insert\<close> lacks the parameter for the item: every call raises \<open>TypeError\<close>, and nothing changes.\<close>

definition ul_insert :: "'a unique_list \<Rightarrow> int \<Rightarrow> 'a unique_list res" where
  "ul_insert u i = Inl TypeError"

definition ul_add :: "'a unique_list \<Rightarrow> 'a list \<Rightarrow> 'a unique_list" where
  "ul_add u xs = \<lparr>ul_data = ul_data u @ xs, ul_unique = False\<rparr>"

definition ul_reverse :: "'a unique_list \<Rightarrow> 'a unique_list" where
  "ul_reverse u = (let u' = make_unique u in u'\<lparr>ul_data := rev (ul_data u')\<rparr>)"

text \<open>Every reader uniquifies first: \<open>__len__\<close>, \<open>__getitem__\<close>, iteration, \<open>count\<close>, \<open>index\<close>.\<close>

definition ul_items :: "'a unique_list \<Rightarrow> 'a list" where
  "ul_items u = ul_data (make_unique u)"

definition ul_len :: "'a unique_list \<Rightarrow> nat" where
  "ul_len u = length (ul_items u)"

definition ul_getitem :: "'a unique_list \<Rightarrow> int \<Rightarrow> 'a res" where
  "ul_getitem u i = py_get (ul_items u) i"

definition ul_count :: "'a unique_list \<Rightarrow> 'a \<Rightarrow> nat" where
  "ul_count u x = count_list (ul_items u) x"

definition ul_index :: "'a unique_list \<Rightarrow> 'a \<Rightarrow> nat res" where
  "ul_index u x = (case find_index ((=) x) (ul_items u) of Some i \<Rightarrow> Inr i | None \<Rightarrow> Inl ValueError)"

definition ul_getslice :: "'a unique_list \<Rightarrow> int \<Rightarrow> int \<Rightarrow> 'a list" where
  "ul_getslice u i j = py_slice (ul_items u) (nat i) (nat j)"

definition ul_sort :: "'a::linorder unique_list \<Rightarrow> 'a unique_list" where
  "ul_sort u = (let u' = make_unique u in u'\<lparr>ul_data := sort (ul_data u')\<rparr>)"

text \<open>The comparisons, on the lists without repetitions; lists are compared element by element.\<close>

fun list_less :: "'a::linorder list \<Rightarrow> 'a list \<Rightarrow> bool" where
  "list_less xs [] = False"
| "list_less [] (y # ys) = True"
| "list_less (x # xs) (y # ys) = (if x = y then list_less xs ys else x < y)"

definition ul_eq :: "'a unique_list \<Rightarrow> 'a list \<Rightarrow> bool" where
  "ul_eq u other \<longleftrightarrow> ul_items u = other"

definition ul_ne :: "'a unique_list \<Rightarrow> 'a list \<Rightarrow> bool" where
  "ul_ne u other \<longleftrightarrow> ul_items u \<noteq> other"

definition ul_lt :: "'a::linorder unique_list \<Rightarrow> 'a list \<Rightarrow> bool" where
  "ul_lt u other \<longleftrightarrow> list_less (ul_items u) other"

definition ul_le :: "'a::linorder unique_list \<Rightarrow> 'a list \<Rightarrow> bool" where
  "ul_le u other \<longleftrightarrow> \<not> list_less other (ul_items u)"

definition ul_gt :: "'a::linorder unique_list \<Rightarrow> 'a list \<Rightarrow> bool" where
  "ul_gt u other \<longleftrightarrow> list_less other (ul_items u)"

definition ul_ge :: "'a::linorder unique_list \<Rightarrow> 'a list \<Rightarrow> bool" where
  "ul_ge u other \<longleftrightarrow> \<not> list_less (ul_items u) other"

definition ul_cmp :: "'a::linorder unique_list \<Rightarrow> 'a list \<Rightarrow> int" where
  "ul_cmp u other = (if list_less (ul_items u) other then -1 else if ul_items u = other then 0 else 1)"

text \<open>The flag is honest: a list marked unique has no repetition.\<close>

definition ul_wf :: "'a unique_list \<Rightarrow> bool" where
  "ul_wf u \<longleftrightarrow> (ul_unique u \<longrightarrow> distinct (ul_data u))"

lemma ul_wf_empty [wf_intros]: "ul_wf (UniqueList_init [])"
  by (simp add: ul_wf_def UniqueList_init_def)

lemma ul_wf_ops [wf_intros]:
  "ul_wf (ul_append u x)" "ul_wf (ul_extend u xs)" "ul_wf (ul_add u xs)"
  "ul_wf u \<Longrightarrow> ul_wf (make_unique u)" "ul_wf u \<Longrightarrow> ul_wf (ul_reverse u)"
  "ul_setitem u i x = Inr u' \<Longrightarrow> ul_wf u'"
  by (auto simp: ul_wf_def ul_append_def ul_extend_def ul_add_def make_unique_def
      ul_reverse_def ul_setitem_def Let_def split: if_splits option.splits)

lemma ul_wf_more [wf_intros]:
  "ul_wf (ul_iadd u xs)" "ul_wf (ul_radd u xs)" "ul_wf (ul_mul u n)" "ul_wf (ul_setslice u i j xs)"
  by (simp_all add: ul_wf_def ul_iadd_def ul_radd_def ul_mul_def ul_setslice_def)

lemma set_ul_items [simp]: "set (ul_items u) = set (ul_data u)"
  by (simp add: ul_items_def make_unique_def)

lemma distinct_ul_items: "ul_wf u \<Longrightarrow> distinct (ul_items u)"
  by (simp add: ul_items_def make_unique_def ul_wf_def)

lemma ul_items_eq: "ul_wf u \<Longrightarrow> ul_items u = uniquer_hashables (ul_data u)"
  by (simp add: ul_items_def make_unique_def ul_wf_def uniquer_hashables_id)

lemma set_ul_data_extend [simp]: "set (ul_data (ul_extend u xs)) = set (ul_data u) \<union> set xs"
  by (simp add: ul_extend_def)

lemma ul_data_init [simp]: "ul_data (UniqueList_init xs) = xs"
  by (simp add: UniqueList_init_def)

section \<open>Dictionaries that keep an order\<close>

text \<open>
  What the code expects of a dictionary object: a lookup after a store, a deletion, and a key
  list that has every key once. \<open>OrderedDict\<close> provides it; the clients (\<open>update\<close>, \<open>copy\<close>) are
  proved against the interface.
\<close>

locale ordered_dict =
  fixes empty :: "'d"
    and setitem :: "'k \<Rightarrow> 'v \<Rightarrow> 'd \<Rightarrow> 'd"
    and lookup :: "'d \<Rightarrow> 'k \<Rightarrow> 'v option"
    and keys :: "'d \<Rightarrow> 'k list"
    and invar :: "'d \<Rightarrow> bool"
  assumes invar_empty: "invar empty"
    and lookup_empty: "lookup empty = Map.empty"
    and invar_setitem: "invar d \<Longrightarrow> invar (setitem k v d)"
    and lookup_setitem: "invar d \<Longrightarrow> lookup (setitem k v d) = (lookup d)(k \<mapsto> v)"
    and keys_empty: "keys empty = []"
    and keys_setitem: "invar d \<Longrightarrow> keys (setitem k v d) = set_add k (keys d)"
begin

text \<open>Storing the pairs of a list one by one, as \<open>update\<close> does.\<close>

lemma fold_setitem:
  assumes "invar d"
  shows "invar (fold (\<lambda>(k, v). setitem k v) kvs d)"
    and "lookup (fold (\<lambda>(k, v). setitem k v) kvs d) = lookup d ++ map_of (rev kvs)"
    and "keys (fold (\<lambda>(k, v). setitem k v) kvs d) = fold set_add (map fst kvs) (keys d)"
  using assms
proof (induction kvs arbitrary: d)
  case Nil
  { case 1 then show ?case by simp }
  { case 2 then show ?case by simp }
  { case 3 then show ?case by simp }
next
  case (Cons kv kvs)
  obtain k v where kv: "kv = (k, v)" by fastforce
  { case 1 then show ?case using Cons.IH(1) [of "setitem k v d"] by (simp add: kv invar_setitem) }
  { case 2
    have "(lookup d)(k \<mapsto> v) ++ map_of (rev kvs) = lookup d ++ map_of (rev kvs @ [(k, v)])"
      by (rule ext) (simp add: map_add_def map_of_append split: option.split)
    moreover have "lookup (fold (\<lambda>(k, v). setitem k v) kvs (setitem k v d))
        = (lookup d)(k \<mapsto> v) ++ map_of (rev kvs)"
      using Cons.IH(2) [of "setitem k v d"] 2 by (simp only: invar_setitem lookup_setitem)
    ultimately show ?case by (simp add: kv del: map_of_append) }
  { case 3 then show ?case using Cons.IH(3) [of "setitem k v d"]
      by (simp add: kv invar_setitem keys_setitem) }
qed

end

record ('k, 'v) odict =
  od_data :: "'k \<rightharpoonup> 'v"
  od_keys :: "'k list"

definition OrderedDict_init :: "('k, 'v) odict" where
  "OrderedDict_init = \<lparr>od_data = Map.empty, od_keys = []\<rparr>"

definition od_setitem :: "'k \<Rightarrow> 'v \<Rightarrow> ('k, 'v) odict \<Rightarrow> ('k, 'v) odict" where
  "od_setitem k v d = \<lparr>od_data = (od_data d)(k \<mapsto> v),
     od_keys = (if k \<notin> set (od_keys d) then od_keys d @ [k] else od_keys d)\<rparr>"

text \<open>\<open>UserDict.__delitem__\<close> raises \<open>KeyError\<close>, \<open>list.remove\<close> drops the first occurrence.\<close>

definition od_delitem :: "'k \<Rightarrow> ('k, 'v) odict \<Rightarrow> ('k, 'v) odict res" where
  "od_delitem k d = (if od_data d k = None then Inl (KeyError [])
     else if k \<notin> set (od_keys d) then Inl ValueError
     else Inr \<lparr>od_data = (od_data d)(k := None), od_keys = remove1 k (od_keys d)\<rparr>)"

definition od_clear :: "('k, 'v) odict \<Rightarrow> ('k, 'v) odict" where
  "od_clear d = \<lparr>od_data = Map.empty, od_keys = []\<rparr>"

definition od_keys_copy :: "('k, 'v) odict \<Rightarrow> 'k list" where
  "od_keys_copy d = od_keys d"

definition od_values :: "('k, 'v) odict \<Rightarrow> 'v option list" where
  "od_values d = map (od_data d) (od_keys d)"

definition od_items :: "('k, 'v) odict \<Rightarrow> ('k \<times> 'v option) list" where
  "od_items d = zip (od_keys d) (od_values d)"

definition od_update :: "('k \<times> 'v) list \<Rightarrow> ('k, 'v) odict \<Rightarrow> ('k, 'v) odict" where
  "od_update items d = fold (\<lambda>(k, v). od_setitem k v) items d"

text \<open>\<open>copy\<close>: a new dictionary updated with the items of this one.\<close>

definition od_copy :: "('k, 'v) odict \<Rightarrow> ('k, 'v) odict" where
  "od_copy d = od_update (map (\<lambda>(k, v). (k, the v)) (od_items d)) OrderedDict_init"

definition od_popitem :: "('k, 'v) odict \<Rightarrow> (('k \<times> 'v) \<times> ('k, 'v) odict) res" where
  "od_popitem d = (case py_get (od_keys d) (-1) of
       Inl _ \<Rightarrow> Inl (KeyError ''dictionary is empty'')
     | Inr key \<Rightarrow> (case od_data d key of
           None \<Rightarrow> Inl (KeyError [])
         | Some val \<Rightarrow> (case od_delitem key d of Inl e \<Rightarrow> Inl e | Inr d' \<Rightarrow> Inr ((key, val), d'))))"

text \<open>\<open>setdefault\<close> stores a missing key; it returns nothing.\<close>

definition od_setdefault :: "'k \<Rightarrow> 'v \<Rightarrow> ('k, 'v) odict \<Rightarrow> ('k, 'v) odict" where
  "od_setdefault k v d = (case od_data d k of
       Some _ \<Rightarrow> (if k \<notin> set (od_keys d) then d\<lparr>od_keys := od_keys d @ [k]\<rparr> else d)
     | None \<Rightarrow> od_setitem k v d)"

definition od_wf :: "('k, 'v) odict \<Rightarrow> bool" where
  "od_wf d \<longleftrightarrow> distinct (od_keys d) \<and> set (od_keys d) = dom (od_data d)"

interpretation od: ordered_dict OrderedDict_init od_setitem od_data od_keys od_wf
  by unfold_locales (auto simp: OrderedDict_init_def od_setitem_def od_wf_def set_add_def)

lemma od_wf_delitem [wf_intros]: "od_wf d \<Longrightarrow> od_delitem k d = Inr d' \<Longrightarrow> od_wf d'"
  by (auto simp: od_wf_def od_delitem_def split: if_splits)

lemma od_wf_setdefault [wf_intros]: "od_wf d \<Longrightarrow> od_wf (od_setdefault k v d)"
  by (auto simp: od_setdefault_def od_setitem_def od_wf_def split: option.split)

lemma od_delitem_wf:
  "od_wf d \<Longrightarrow> od_delitem k d = (if k \<in> dom (od_data d)
     then Inr \<lparr>od_data = (od_data d)(k := None), od_keys = remove1 k (od_keys d)\<rparr> else Inl (KeyError []))"
  by (auto simp: od_delitem_def od_wf_def)

lemma od_items_wf: "map (\<lambda>(k, v). (k, the v)) (od_items d) = map (\<lambda>k. (k, the (od_data d k))) (od_keys d)"
  by (simp add: od_items_def od_values_def zip_map2 map_zip_map2 zip_same_conv_map)

section \<open>Selector\<close>

text \<open>
  \<open>Selector.__call__\<close>. Keys are suffixes or \<open>None\<close>; \<open>subst\<close> is \<open>env.subst\<close>, and \<open>suf\<close> the
  suffix of the first source (\<open>None\<close> when there is none). The loop builds \<open>s_dict\<close> and raises
  when two keys expand to the same suffix.
\<close>

fun selector_subst :: "(string \<Rightarrow> string) \<Rightarrow> (string option \<times> 'v) list \<Rightarrow>
    (string \<rightharpoonup> string \<times> 'v) \<Rightarrow> (string \<rightharpoonup> string \<times> 'v) res" where
  "selector_subst subst [] s_dict = Inr s_dict"
| "selector_subst subst ((None, v) # kvs) s_dict = selector_subst subst kvs s_dict"
| "selector_subst subst ((Some k, v) # kvs) s_dict =
     (let s_k = subst k
      in if s_dict s_k \<noteq> None then Inl (KeyError s_k)
         else selector_subst subst kvs (s_dict(s_k \<mapsto> (k, v))))"

definition Selector_call :: "(string \<Rightarrow> string) \<Rightarrow> (string option, 'v) odict \<Rightarrow>
    string option \<Rightarrow> string option \<Rightarrow> 'v option res" where
  "Selector_call subst d suf ext =
     (let ext' = (case ext of Some e \<Rightarrow> e | None \<Rightarrow> (case suf of Some e \<Rightarrow> e | None \<Rightarrow> []))
      in case od_data d (Some ext') of
           Some v \<Rightarrow> Inr (Some v)
         | None \<Rightarrow> (case selector_subst subst (map (\<lambda>(k, v). (k, the v)) (od_items d)) Map.empty of
               Inl e \<Rightarrow> Inl e
             | Inr s_dict \<Rightarrow> (case s_dict ext' of
                   Some (k, v) \<Rightarrow> Inr (Some v)
                 | None \<Rightarrow> Inr (od_data d None))))"

lemma selector_subst_result:
  "selector_subst subst kvs m = Inr m' \<Longrightarrow> m' x = Some (k, v) \<Longrightarrow>
     m x = Some (k, v) \<or> (subst k = x \<and> (Some k, v) \<in> set kvs)"
  by (induction subst kvs m rule: selector_subst.induct)
    (auto simp: Let_def split: if_splits)

lemma selector_subst_Some_key:
  "selector_subst subst ((Some k, v) # kvs) m = Inr m' \<longleftrightarrow>
     m (subst k) = None \<and> selector_subst subst kvs (m(subst k \<mapsto> (k, v))) = Inr m'"
  by (cases "m (subst k)") (simp_all add: Let_def)

lemma selector_subst_mono:
  "selector_subst subst kvs m = Inr m' \<Longrightarrow> m x = Some y \<Longrightarrow> m' x = Some y"
proof (induction kvs arbitrary: m)
  case (Cons kv kvs)
  obtain k v where kv: "kv = (k, v)" by fastforce
  show ?case
  proof (cases k)
    case (Some k')
    with Cons.prems have "selector_subst subst kvs (m(subst k' \<mapsto> (k', v))) = Inr m'"
      and "(m(subst k' \<mapsto> (k', v))) x = Some y"
      unfolding kv Some selector_subst_Some_key by auto
    then show ?thesis by (rule Cons.IH)
  qed (use Cons kv in simp)
qed simp

lemma selector_subst_complete:
  "selector_subst subst kvs m = Inr m' \<Longrightarrow> (Some k, v) \<in> set kvs \<Longrightarrow> m' (subst k) = Some (k, v)"
proof (induction kvs arbitrary: m)
  case (Cons kv kvs)
  obtain k' v' where kv: "kv = (k', v')" by fastforce
  show ?case
  proof (cases k')
    case (Some k'')
    with Cons.prems(1) have rest: "selector_subst subst kvs (m(subst k'' \<mapsto> (k'', v'))) = Inr m'"
      unfolding kv Some selector_subst_Some_key by simp
    from Cons.prems(2) kv Some consider "k = k''" "v = v'" | "(Some k, v) \<in> set kvs" by auto
    then show ?thesis
    proof cases
      case 1
      with selector_subst_mono [OF rest, of "subst k"] show ?thesis by simp
    next
      case 2
      with rest show ?thesis by (rule Cons.IH)
    qed
  qed (use Cons kv in auto)
qed simp

section \<open>flatten\<close>

text \<open>A Python value that is a scalar (strings are scalars) or a sequence of values.\<close>

datatype 'a pyseq = Scalar 'a | Sequence "'a pyseq list"

fun do_flatten :: "'a pyseq list \<Rightarrow> 'a list \<Rightarrow> 'a list" where
  "do_flatten [] result = result"
| "do_flatten (Scalar a # sequence) result = do_flatten sequence (result @ [a])"
| "do_flatten (Sequence items # sequence) result = do_flatten sequence (do_flatten items result)"

fun flatten_sequence :: "'a pyseq list \<Rightarrow> 'a list \<Rightarrow> 'a list" where
  "flatten_sequence [] result = result"
| "flatten_sequence (Scalar a # sequence) result = flatten_sequence sequence (result @ [a])"
| "flatten_sequence (Sequence items # sequence) result = flatten_sequence sequence (do_flatten items result)"

fun flatten :: "'a pyseq \<Rightarrow> 'a list" where
  "flatten (Scalar a) = [a]"
| "flatten (Sequence items) = flatten_sequence items []"

text \<open>The reference: the scalars of the tree from left to right.\<close>

fun leaves :: "'a pyseq \<Rightarrow> 'a list" where
  "leaves (Scalar a) = [a]"
| "leaves (Sequence items) = concat (map leaves items)"

lemma do_flatten_leaves: "do_flatten items result = result @ concat (map leaves items)"
  by (induction items result rule: do_flatten.induct) auto

lemma flatten_sequence_leaves: "flatten_sequence items result = result @ concat (map leaves items)"
  by (induction items result rule: flatten_sequence.induct) (auto simp: do_flatten_leaves)

section \<open>LogicalLines\<close>

text \<open>
  A file object is the list of the lines it has left, each with its newline; \<open>readline\<close> on it
  returns the empty string at the end. The loop of \<open>LogicalLines.readline\<close> joins lines that
  end in a backslash and a newline.
\<close>

definition ends_continued :: "string \<Rightarrow> bool" where
  "ends_continued line \<longleftrightarrow> drop (length line - 2) line = [CHR 0x5C, CHR 0x0A]"

fun ll_readline :: "string list \<Rightarrow> string \<times> string list" where
  "ll_readline [] = ([], [])"
| "ll_readline (line # f) =
     (if ends_continued line
      then (let (r, f') = ll_readline f in (take (length line - 2) line @ r, f'))
      else (line, f))"

lemma ll_readline_shorter: "length (snd (ll_readline f)) \<le> length f - 1"
  by (induction f rule: ll_readline.induct) (auto split: prod.split)

function ll_readlines :: "string list \<Rightarrow> string list" where
  "ll_readlines f = (let (line, f') = ll_readline f
     in if line = [] \<or> f = [] then [] else line # ll_readlines f')"
  by pat_completeness auto
termination
proof (relation "measure length")
  fix f :: "string list" and x line f'
  assume x: "x = ll_readline f" and p: "(line, f') = x" and ne: "\<not> (line = [] \<or> f = [])"
  from x p ll_readline_shorter [of f] have "length f' \<le> length f - 1" by (metis snd_conv)
  with ne show "(f', f) \<in> measure length" by (cases f) auto
qed simp

declare ll_readlines.simps [simp del]

text \<open>A physical line without its continuation mark.\<close>

definition unmark :: "string \<Rightarrow> string" where
  "unmark line = (if ends_continued line then take (length line - 2) line else line)"

lemma ll_readline_concat:
  "concat (map unmark f) = fst (ll_readline f) @ concat (map unmark (snd (ll_readline f)))"
  by (induction f rule: ll_readline.induct) (auto simp: unmark_def split: prod.splits)

lemma ll_readline_empty:
  "[] \<notin> set f \<Longrightarrow> fst (ll_readline f) = [] \<Longrightarrow> snd (ll_readline f) = []"
  by (induction f rule: ll_readline.induct) (auto split: prod.splits if_splits)

lemma ll_readline_rest: "set (snd (ll_readline f)) \<subseteq> set f"
  by (induction f rule: ll_readline.induct) (auto split: prod.splits)

section \<open>Properties\<close>

lemma count_list_distinct: "distinct xs \<Longrightarrow> count_list xs x = (if x \<in> set xs then 1 else 0)"
  by (induction xs) auto

text \<open>
  The sort-based branch of \<open>unique\<close>, which sorts and then compacts the list in place with two
  indices, returns for every nonempty list the sorted list without repetitions of its elements;
  the brute-force branch returns the elements in the order of their first occurrence.
\<close>

lemma unique_branches:
  assumes "s \<noteq> []"
  shows "unique False True s = remdups_adj (sort s) \<and> sorted (unique False True s) \<and>
    distinct (unique False True s) \<and> set (unique False True s) = set s \<and>
    unique False False s = rev (remdups (rev s))"
  using assms unique_sorted_eq [OF assms] uniquer_hashables_remdups [of s]
  by (simp add: unique_def unique_brute_eq uniquer_hashables_eq distinct_remdups_adj_sorted)

text \<open>
  A \<open>UniqueList\<close> built from the empty list behaves as a list without repetitions: appending adds
  an element at the end unless it is there, extending does so for each element, reading never
  shows an element twice, and the flag stays honest under every mutation. A list given to the
  constructor is not made unique: its repetitions stay until the next mutation.
\<close>

lemma UniqueList_behaviour:
  assumes "ul_wf u"
  shows "distinct (ul_items u) \<and> ul_items (ul_append u x) = set_add x (ul_items u) \<and>
    ul_items (ul_extend u xs) = fold set_add xs (ul_items u) \<and> ul_items (ul_reverse u) = rev (ul_items u) \<and>
    (x \<in> set (ul_items u) \<longrightarrow> ul_count u x = 1) \<and>
    list_all ul_wf [ul_append u x, ul_extend u xs, ul_iadd u xs, ul_radd u xs, ul_mul u n, ul_setslice u i j xs, ul_reverse u,
      make_unique u] \<and>
    ul_items (UniqueList_init [x, x]) = [x, x] \<and> ul_items (ul_extend (UniqueList_init [x, x]) []) = [x]"
proof -
  have d: "distinct (ul_items u)" by (rule distinct_ul_items [OF assms])
  have e: "ul_items (ul_extend u xs) = fold set_add xs (ul_items u)" for xs
    by (simp add: ul_items_eq [OF assms] ul_items_eq [OF ul_wf_ops(2)]) (simp add: ul_extend_def uniquer_hashables_eq)
  have "ul_items (ul_append u x) = ul_items (ul_extend u [x])" by (simp add: ul_append_def ul_extend_def)
  moreover have "ul_items (ul_reverse u) = rev (ul_items u)"
    by (auto simp: ul_items_def ul_reverse_def make_unique_def Let_def)
  moreover have "x \<in> set (ul_items u) \<longrightarrow> ul_count u x = 1"
    using count_list_distinct [OF d, of x] by (simp add: ul_count_def)
  moreover have "list_all ul_wf [ul_append u x, ul_extend u xs, ul_iadd u xs, ul_radd u xs, ul_mul u n, ul_setslice u i j xs,
      ul_reverse u, make_unique u]"
    by (simp add: ul_wf_ops ul_wf_more assms)
  moreover have "ul_items (UniqueList_init [x, x]) = [x, x]" "ul_items (ul_extend (UniqueList_init [x, x]) []) = [x]"
    by (simp_all add: UniqueList_init_def ul_items_def ul_extend_def make_unique_def uniquer_hashables_eq set_add_def)
  ultimately show ?thesis using d e by simp
qed

text \<open>
  C40: An \<open>OrderedDict\<close> is a dictionary with the keys in the order of their first insertion: after
  \<open>update\<close> with a list of pairs, the last value given for a key is found, the other keys keep their
  values, new keys follow the old ones, and well-formedness is kept; \<open>copy\<close> gives an equal
  dictionary, and \<open>popitem\<close> takes the key inserted last.
\<close>

theorem OrderedDict_refines_map:
  assumes "od_wf d"
  shows "od_wf (od_update kvs d) \<and> od_data (od_update kvs d) = od_data d ++ map_of (rev kvs) \<and>
    od_keys (od_update kvs d) = fold set_add (map fst kvs) (od_keys d) \<and> od_copy d = d \<and>
    (od_keys d \<noteq> [] \<longrightarrow> od_popitem d = Inr ((last (od_keys d), the (od_data d (last (od_keys d)))),
       \<lparr>od_data = (od_data d)(last (od_keys d) := None), od_keys = butlast (od_keys d)\<rparr>))"
proof -
  let ?kvs = "map (\<lambda>k. (k, the (od_data d k))) (od_keys d)"
  have k: "distinct (od_keys d)" "set (od_keys d) = dom (od_data d)" using assms by (auto simp: od_wf_def)
  have c: "od_copy d = fold (\<lambda>(k, v). od_setitem k v) ?kvs OrderedDict_init"
    by (simp add: od_copy_def od_update_def od_items_wf)
  have "od_data (od_copy d) x = od_data d x" for x
  proof -
    have "map_of (rev ?kvs) = map_of ?kvs" using k(1) by (intro map_of_inject_set [THEN iffD2]) (simp_all add: rev_map [symmetric] comp_def)
    then have "map_of (rev ?kvs) x = map_of ?kvs x" by simp
    also have "\<dots> = od_data d x" using k(2) by (auto simp: map_of_map_keys)
    finally show ?thesis unfolding c by (simp add: od.fold_setitem(2) [OF od.invar_empty] od.lookup_empty)
  qed
  moreover have "od_keys (od_copy d) = od_keys d"
    unfolding c od.fold_setitem(3) [OF od.invar_empty] od.keys_empty
    using uniquer_hashables_id [OF k(1)] by (simp add: comp_def uniquer_hashables_eq)
  ultimately have copy: "od_copy d = d" by (simp add: fun_eq_iff)
  have pop: "od_popitem d = Inr ((last (od_keys d), the (od_data d (last (od_keys d)))),
       \<lparr>od_data = (od_data d)(last (od_keys d) := None), od_keys = butlast (od_keys d)\<rparr>)" if ne: "od_keys d \<noteq> []"
  proof -
    obtain ks l where ks: "od_keys d = ks @ [l]" using ne by (metis rev_exhaust)
    then have "l \<in> dom (od_data d)" using k(2) by auto
    then obtain v where "od_data d l = Some v" by auto
    moreover have "remove1 l (ks @ [l]) = ks" using k(1) ks by (simp add: remove1_append)
    ultimately show ?thesis
      by (simp add: od_popitem_def py_get_def py_index_def ks od_delitem_def nth_append)
  qed
  show ?thesis using od.fold_setitem [OF assms, of kvs] copy pop by (simp add: od_update_def)
qed

theorem OrderedDict_refines_map_witness:
  "od_keys (od_update [(1, ''a''), (2, ''b''), (1, ''c'')] (OrderedDict_init :: (nat, string) odict)) = [1, 2] \<and>
   od_data (od_update [(1, ''a''), (2, ''b''), (1, ''c'')] (OrderedDict_init :: (nat, string) odict)) 1 = Some ''c''"
  using OrderedDict_refines_map [OF od.invar_empty, of "[(1 :: nat, ''a''), (2, ''b''), (1, ''c'')]"]
  by (simp add: OrderedDict_init_def set_add_def)

text \<open>
  \<open>flatten\<close>, with its three mutually dependent loops, returns the scalars of the nested sequence
  from left to right, whatever the nesting.
\<close>

lemma flatten_correct: "flatten v = leaves v"
  by (cases v) (simp_all add: flatten_sequence_leaves)

text \<open>
  Reading logical lines loses nothing: for a file whose lines are not empty strings, the logical
  lines concatenated are the physical lines concatenated, without the backslash-newline pairs that
  continue a line.
\<close>

lemma LogicalLines_roundtrip:
  assumes "[] \<notin> set f"
  shows "concat (ll_readlines f) = concat (map unmark f)"
  using assms
proof (induction f rule: ll_readlines.induct)
  case (1 f)
  obtain line f' where r: "ll_readline f = (line, f')" by fastforce
  have ne: "[] \<notin> set f'" using ll_readline_rest [of f] r "1.prems" by auto
  show ?case
  proof (cases "line = [] \<or> f = []")
    case True
    then have "line = []" using r by auto
    with ll_readline_empty [OF "1.prems"] ll_readline_concat [of f] r show ?thesis
      by (simp add: ll_readlines.simps [of f])
  next
    case False
    with "1.IH" [OF r [symmetric] refl False ne] ll_readline_concat [of f] r show ?thesis
      by (simp add: ll_readlines.simps [of f])
  qed
qed

end
