(* ===== verification/Node.thy ===== *)
theory Node
  imports Errors Util
begin

text \<open>
  \<open>SCons/Node/__init__.py\<close>: the base class of everything the engine can build. Nodes refer
  to each other and to executors, and the taskmaster mutates them in place, so nodes and
  executors live in an explicit heap: a node is named by its index. The heap is an extensible
  record; the taskmaster's own state extends it in theory \<open>Taskmaster\<close>.
\<close>

section \<open>Node states\<close>

text \<open>The constants of the source, ordered by their numbers (lines 69 to 74).\<close>

datatype node_state = no_state | pending | executing | up_to_date | executed | failed

fun state_value :: "node_state \<Rightarrow> nat" where
  "state_value no_state = 0"
| "state_value pending = 1"
| "state_value executing = 2"
| "state_value up_to_date = 3"
| "state_value executed = 4"
| "state_value failed = 5"

lemma state_value_inject [simp]: "state_value a = state_value b \<longleftrightarrow> a = b"
  by (cases a; cases b) auto

instantiation node_state :: linorder
begin

definition less_eq_node_state :: "node_state \<Rightarrow> node_state \<Rightarrow> bool" where
  "less_eq_node_state a b \<longleftrightarrow> state_value a \<le> state_value b"

definition less_node_state :: "node_state \<Rightarrow> node_state \<Rightarrow> bool" where
  "less_node_state a b \<longleftrightarrow> state_value a < state_value b"

instance
  by standard (auto simp: less_eq_node_state_def less_node_state_def)

end

lemmas state_order_defs = less_eq_node_state_def less_node_state_def

definition StateString :: "node_state \<Rightarrow> string" where
  "StateString s = (case s of no_state \<Rightarrow> ''no_state'' | pending \<Rightarrow> ''pending''
     | executing \<Rightarrow> ''executing'' | up_to_date \<Rightarrow> ''up_to_date''
     | executed \<Rightarrow> ''executed'' | failed \<Rightarrow> ''failed'')"

text \<open>The states after which a node is not touched again, and those a parent waits for.\<close>

abbreviation finished :: "node_state \<Rightarrow> bool" where
  "finished s \<equiv> executing < s"

lemma finished_iff: "finished s \<longleftrightarrow> s \<in> {up_to_date, executed, failed}"
  by (cases s) (auto simp: state_order_defs)

lemma gt_pending_iff: "pending < s \<longleftrightarrow> s \<in> {executing, up_to_date, executed, failed}"
  by (cases s) (auto simp: state_order_defs)

lemma not_finished_iff: "s \<le> executing \<longleftrightarrow> s \<in> {no_state, pending, executing}"
  by (cases s) (auto simp: state_order_defs)

lemmas state_iffs = finished_iff gt_pending_iff not_finished_iff

section \<open>Data\<close>

type_synonym scanner = nat

text \<open>
  An action as the executor sees it: its identity, the \<open>targets\<close> string of
  \<open>Action.get_targets\<close>.
\<close>

record action =
  a_id :: nat
  a_targets :: string

record builder =
  b_action :: action
  b_target_scanner :: "scanner option"
  b_source_scanner :: "scanner option"

text \<open>
  The build information (\<open>BuildInfoBase\<close> and \<open>get_binfo\<close>). The signature lists hold
  references to the \<open>ninfo\<close> objects of nodes, so they are lists of nodes here.
\<close>

record build_info =
  bsources :: "nid list"
  bsourcesigs :: "nid list"
  bdepends :: "nid list"
  bdependsigs :: "nid list"
  bimplicit :: "nid list"
  bimplicitsigs :: "nid list"
  bactsig :: "string option"

text \<open>
  \<open>Node.__init__\<close>. \<open>memo_children\<close> is the \<open>children_get\<close> entry of \<open>_memo\<close>; \<open>ninfo\<close> is the
  signature dictionary of the \<open>NodeInfoBase\<close> object; a \<open>None\<close> builder, executor or binfo is a
  missing attribute. The \<open>*_set\<close> twins are sets.
\<close>

record node =
  sources :: "nid list"
  sources_set :: "nid set"
  specific_sources :: bool
  depends :: "nid list"
  depends_set :: "nid set"
  ignore :: "nid list"
  ignore_set :: "nid set"
  prerequisites :: "nid unique_list"
  implicit :: "nid list option"
  implicit_set :: "nid set"
  waiting_parents :: "nid list"
  waiting_s_e :: "nid list"
  ref_count :: int
  wkids :: "nid list option"
  state :: node_state
  precious :: bool
  noclean :: bool
  nocache :: bool
  always_build :: bool
  side_effect :: bool
  side_effects :: "nid list"
  linked :: bool
  node_builder :: "builder option"
  node_executor :: "eid option"
  binfo :: "build_info option"
  ninfo :: "string \<rightharpoonup> string"
  memo_children :: "nid list option"

definition Node_init :: node where
  "Node_init = \<lparr>sources = [], sources_set = {}, specific_sources = False, depends = [],
     depends_set = {}, ignore = [], ignore_set = {}, prerequisites = UniqueList_init [], implicit = None,
     implicit_set = {}, waiting_parents = [], waiting_s_e = [], ref_count = 0, wkids = None,
     state = no_state, precious = False, noclean = False, nocache = False,
     always_build = False, side_effect = False, side_effects = [], linked = False,
     node_builder = None, node_executor = None, binfo = None, ninfo = Map.empty,
     memo_children = None\<rparr>"

text \<open>
  \<open>Executor\<close> and \<open>Executor.Null\<close> (told apart by \<open>is_null\<close>). A batch pairs targets with
  sources. \<open>changes\<close> are the four lists \<open>_get_changes\<close> caches (changed sources and targets,
  unchanged sources and targets); the two \<open>memo\<close> fields are entries of \<open>_memo\<close>.
\<close>

record executor =
  is_null :: bool
  action_list :: "action list"
  pre_actions :: "action list"
  post_actions :: "action list"
  batches :: "(nid list \<times> nid list) list"
  nullified :: bool
  changes :: "(nid list \<times> nid list \<times> nid list \<times> nid list) option"
  memo_contents :: "string option"
  memo_unignored :: "((nid \<times> nid list) \<times> nid list) list"

record heap =
  nodes :: "node list"
  execs :: "executor list"

section \<open>The heap\<close>

definition node_at :: "'a heap_scheme \<Rightarrow> nid \<Rightarrow> node" where
  "node_at h n = (if n < length (nodes h) then nodes h ! n else Node_init)"

definition upd_node :: "nid \<Rightarrow> (node \<Rightarrow> node) \<Rightarrow> 'a heap_scheme \<Rightarrow> 'a heap_scheme" where
  "upd_node n f h = h\<lparr>nodes := (nodes h)[n := f (node_at h n)]\<rparr>"

definition upd_exec :: "eid \<Rightarrow> (executor \<Rightarrow> executor) \<Rightarrow> 'a heap_scheme \<Rightarrow> 'a heap_scheme" where
  "upd_exec e f h =
     (if e < length (execs h) then h\<lparr>execs := (execs h)[e := f (execs h ! e)]\<rparr> else h)"

definition valid :: "'a heap_scheme \<Rightarrow> nid \<Rightarrow> bool" where
  "valid h n \<longleftrightarrow> n < length (nodes h)"

lemma nodes_upd_node: "nodes (upd_node n f h) = (nodes h)[n := f (node_at h n)]"
  by (simp add: upd_node_def)

lemma length_nodes_upd_node [simp]: "length (nodes (upd_node n f h)) = length (nodes h)"
  by (simp add: upd_node_def)

lemma execs_upd_node [simp]: "execs (upd_node n f h) = execs h"
  by (simp add: upd_node_def)

lemma nodes_upd_exec [simp]: "nodes (upd_exec e f h) = nodes h"
  by (simp add: upd_exec_def)

lemma length_execs_upd_exec [simp]: "length (execs (upd_exec e f h)) = length (execs h)"
  by (simp add: upd_exec_def)

lemma node_at_upd_exec [simp]: "node_at (upd_exec e f h) n = node_at h n"
  by (simp add: node_at_def)

lemma node_at_upd_node:
  "node_at (upd_node n f h) m = (if m = n \<and> valid h n then f (node_at h n) else node_at h m)"
  by (auto simp: node_at_def upd_node_def valid_def)

lemma node_at_upd_same [simp]: "valid h n \<Longrightarrow> node_at (upd_node n f h) n = f (node_at h n)"
  by (simp add: node_at_upd_node)

lemma node_at_upd_other [simp]: "m \<noteq> n \<Longrightarrow> node_at (upd_node n f h) m = node_at h m"
  by (simp add: node_at_upd_node)

lemma valid_upd_node [simp]: "valid (upd_node n f h) m = valid h m"
  by (simp add: valid_def)

lemma valid_upd_exec [simp]: "valid (upd_exec e f h) m = valid h m"
  by (simp add: valid_def)

lemma node_at_invalid: "\<not> valid h n \<Longrightarrow> node_at h n = Node_init"
  by (simp add: node_at_def valid_def)

text \<open>A field that an update function keeps is kept on the whole heap.\<close>

lemma upd_node_keeps:
  "(\<And>x. p (f x) = p x) \<Longrightarrow> p (node_at (upd_node n f h) m) = p (node_at h m)"
  by (simp add: node_at_upd_node)

section \<open>Methods that read or write one node\<close>

abbreviation get_state :: "'a heap_scheme \<Rightarrow> nid \<Rightarrow> node_state" where
  "get_state h n \<equiv> state (node_at h n)"

definition set_state :: "nid \<Rightarrow> node_state \<Rightarrow> 'a heap_scheme \<Rightarrow> 'a heap_scheme" where
  "set_state n s = upd_node n (state_update (\<lambda>_. s))"

definition has_builder :: "'a heap_scheme \<Rightarrow> nid \<Rightarrow> bool" where
  "has_builder h n \<longleftrightarrow> node_builder (node_at h n) \<noteq> None"

definition is_derived :: "'a heap_scheme \<Rightarrow> nid \<Rightarrow> bool" where
  "is_derived h n \<longleftrightarrow> has_builder h n \<or> side_effect (node_at h n)"

definition builder_set :: "nid \<Rightarrow> builder option \<Rightarrow> 'a heap_scheme \<Rightarrow> 'a heap_scheme" where
  "builder_set n b = upd_node n (\<lambda>x. x\<lparr>node_builder := b, node_executor := None\<rparr>)"

definition reset_executor :: "nid \<Rightarrow> 'a heap_scheme \<Rightarrow> 'a heap_scheme" where
  "reset_executor n = upd_node n (node_executor_update (\<lambda>_. None))"

text \<open>\<open>Executor.cleanup\<close> (a null executor keeps no memo) and \<open>Node.executor_cleanup\<close>.\<close>

definition executor_cleanup_at :: "eid \<Rightarrow> 'a heap_scheme \<Rightarrow> 'a heap_scheme" where
  "executor_cleanup_at e = upd_exec e (\<lambda>x. if is_null x then x
     else x\<lparr>memo_contents := None, memo_unignored := []\<rparr>)"

definition executor_cleanup :: "nid \<Rightarrow> 'a heap_scheme \<Rightarrow> 'a heap_scheme" where
  "executor_cleanup n h = (case node_executor (node_at h n) of
       None \<Rightarrow> h
     | Some e \<Rightarrow> executor_cleanup_at e h)"

definition clear_memoized_values :: "nid \<Rightarrow> 'a heap_scheme \<Rightarrow> 'a heap_scheme" where
  "clear_memoized_values n = upd_node n (memo_children_update (\<lambda>_. None))"

definition children_reset :: "nid \<Rightarrow> 'a heap_scheme \<Rightarrow> 'a heap_scheme" where
  "children_reset n h = executor_cleanup n (clear_memoized_values n h)"

definition del_binfo :: "nid \<Rightarrow> 'a heap_scheme \<Rightarrow> 'a heap_scheme" where
  "del_binfo n = upd_node n (binfo_update (\<lambda>_. None))"

text \<open>\<open>clear\<close>: the new \<open>ninfo\<close> object is empty.\<close>

definition clear :: "nid \<Rightarrow> 'a heap_scheme \<Rightarrow> 'a heap_scheme" where
  "clear n h = executor_cleanup n (upd_node n (ninfo_update (\<lambda>_. Map.empty))
     (clear_memoized_values n (del_binfo n h)))"

definition set_precious :: "nid \<Rightarrow> bool \<Rightarrow> 'a heap_scheme \<Rightarrow> 'a heap_scheme" where
  "set_precious n b = upd_node n (precious_update (\<lambda>_. b))"

definition set_noclean :: "nid \<Rightarrow> bool \<Rightarrow> 'a heap_scheme \<Rightarrow> 'a heap_scheme" where
  "set_noclean n b = upd_node n (noclean_update (\<lambda>_. b))"

definition set_nocache :: "nid \<Rightarrow> bool \<Rightarrow> 'a heap_scheme \<Rightarrow> 'a heap_scheme" where
  "set_nocache n b = upd_node n (nocache_update (\<lambda>_. b))"

definition set_always_build :: "nid \<Rightarrow> bool \<Rightarrow> 'a heap_scheme \<Rightarrow> 'a heap_scheme" where
  "set_always_build n b = upd_node n (always_build_update (\<lambda>_. b))"

definition add_to_waiting_s_e :: "nid \<Rightarrow> nid \<Rightarrow> 'a heap_scheme \<Rightarrow> 'a heap_scheme" where
  "add_to_waiting_s_e n p = upd_node n (\<lambda>x. x\<lparr>waiting_s_e := set_add p (waiting_s_e x)\<rparr>)"

text \<open>Returns 1 if the parent is new, 0 if not, with the new heap.\<close>

definition add_to_waiting_parents :: "nid \<Rightarrow> nid \<Rightarrow> 'a heap_scheme \<Rightarrow> int \<times> 'a heap_scheme" where
  "add_to_waiting_parents n p h =
     (if p \<in> set (waiting_parents (node_at h n)) then (0, h)
      else (1, upd_node n (\<lambda>x. x\<lparr>waiting_parents := waiting_parents x @ [p]\<rparr>) h))"

definition node_postprocess :: "nid \<Rightarrow> 'a heap_scheme \<Rightarrow> 'a heap_scheme" where
  "node_postprocess n h = upd_node n (waiting_parents_update (\<lambda>_. [])) (executor_cleanup n h)"

definition add_wkid :: "nid \<Rightarrow> nid \<Rightarrow> 'a heap_scheme \<Rightarrow> 'a heap_scheme" where
  "add_wkid n k = upd_node n (\<lambda>x. x\<lparr>wkids := map_option (\<lambda>ws. ws @ [k]) (wkids x)\<rparr>)"

section \<open>Adding children\<close>

text \<open>
  \<open>_add_child\<close>: the loop over \<open>child\<close> on the pair of a list and its set, and whether
  anything was added.
\<close>

fun add_child :: "nid list \<Rightarrow> nid list \<times> nid set \<Rightarrow> (nid list \<times> nid set) \<times> bool" where
  "add_child [] cs = (cs, False)"
| "add_child (c # child) (coll, st) =
     (if c \<notin> st then (fst (add_child child (coll @ [c], insert c st)), True)
      else add_child child (coll, st))"

definition add_dependency :: "nid \<Rightarrow> nid list \<Rightarrow> 'a heap_scheme \<Rightarrow> 'a heap_scheme" where
  "add_dependency n ds h =
     (let x = node_at h n; ((l, s), added) = add_child ds (depends x, depends_set x);
          h' = upd_node n (\<lambda>x. x\<lparr>depends := l, depends_set := s\<rparr>) h
      in if added then children_reset n h' else h')"

definition add_ignore :: "nid \<Rightarrow> nid list \<Rightarrow> 'a heap_scheme \<Rightarrow> 'a heap_scheme" where
  "add_ignore n ds h =
     (let x = node_at h n; ((l, s), added) = add_child ds (ignore x, ignore_set x);
          h' = upd_node n (\<lambda>x. x\<lparr>ignore := l, ignore_set := s\<rparr>) h
      in if added then children_reset n h' else h')"

definition add_source :: "nid \<Rightarrow> nid list \<Rightarrow> 'a heap_scheme \<Rightarrow> 'a heap_scheme" where
  "add_source n ds h =
     (if specific_sources (node_at h n) then h
      else let x = node_at h n; ((l, s), added) = add_child ds (sources x, sources_set x);
          h' = upd_node n (\<lambda>x. x\<lparr>sources := l, sources_set := s\<rparr>) h
      in if added then children_reset n h' else h')"

definition set_specific_source :: "nid \<Rightarrow> nid list \<Rightarrow> 'a heap_scheme \<Rightarrow> 'a heap_scheme" where
  "set_specific_source n ds h = upd_node n (specific_sources_update (\<lambda>_. True)) (add_source n ds h)"

definition add_prerequisite :: "nid \<Rightarrow> nid list \<Rightarrow> 'a heap_scheme \<Rightarrow> 'a heap_scheme" where
  "add_prerequisite n ds h =
     children_reset n (upd_node n (\<lambda>x. x\<lparr>prerequisites := ul_extend (prerequisites x) ds\<rparr>) h)"

text \<open>\<open>add_to_implicit\<close>: the first call creates the list and resets the memo.\<close>

definition add_to_implicit :: "nid \<Rightarrow> nid list \<Rightarrow> 'a heap_scheme \<Rightarrow> 'a heap_scheme" where
  "add_to_implicit n ds h =
     (let h1 = (if implicit (node_at h n) = None
                then children_reset n (upd_node n (\<lambda>x. x\<lparr>implicit := Some [], implicit_set := {}\<rparr>) h)
                else h);
          x = node_at h1 n;
          ((l, s), added) = add_child ds (the (implicit x), implicit_set x);
          h2 = upd_node n (\<lambda>x. x\<lparr>implicit := Some l, implicit_set := s\<rparr>) h1
      in if added then children_reset n h2 else h2)"

section \<open>The children lists\<close>

definition implicit_list :: "node \<Rightarrow> nid list" where
  "implicit_list x = (case implicit x of None \<Rightarrow> [] | Some l \<Rightarrow> l)"

text \<open>\<open>all_children\<close> after the scan, and the list \<open>_children_get\<close> computes when it has no memo.\<close>

definition all_children_list :: "node \<Rightarrow> nid list" where
  "all_children_list x = sources x @ depends x @ implicit_list x"

definition children_list :: "node \<Rightarrow> nid list" where
  "children_list x =
     (if ignore_set x \<noteq> {} then filter (\<lambda>i. i \<notin> ignore_set x) (all_children_list x)
      else all_children_list x)"

definition children_get :: "nid \<Rightarrow> 'a heap_scheme \<Rightarrow> 'a heap_scheme \<times> nid list" where
  "children_get n h = (case memo_children (node_at h n) of
       Some l \<Rightarrow> (h, l)
     | None \<Rightarrow> (let l = children_list (node_at h n)
                in (upd_node n (memo_children_update (\<lambda>_. Some l)) h, l)))"

section \<open>Virtual methods and library objects\<close>

text \<open>
  The methods that subclasses of \<open>Node\<close> override, and the scanner, action and environment
  objects a node or an executor calls, are arguments of the model. Within one build the
  taskmaster asks each of them at most once per node and phase, so a function of the node is
  enough. A call that can raise returns a result.
  \<^item> \<open>rexists\<close>, \<open>found_includes\<close> (\<open>get_found_includes\<close>), \<open>is_up_to_date\<close>, \<open>make_ready_hook\<close>,
    \<open>alter_targets\<close>, \<open>retrieve_from_cache\<close>, \<open>stored_implicit\<close>, \<open>stored_info\<close>, \<open>changed_since\<close>
    (\<open>changed_since_last_build\<close> of a child for a target, with the previous signature),
    \<open>node_name\<close> (\<open>str\<close>), \<open>node_repr\<close>, \<open>rfile\<close>, \<open>ninfo_of\<close> (what \<open>ninfo.update\<close> stores);
  \<^item> \<open>scanner_select\<close>, \<open>recurse_nodes\<close>, \<open>env_scanner\<close>: scanner objects;
  \<^item> \<open>action_call\<close>, \<open>action_implicit_deps\<close>, \<open>action_contents\<close>: action objects;
  \<^item> \<open>implicit_cache\<close>, \<open>implicit_deps_unchanged\<close>, \<open>implicit_deps_changed\<close>: the module's flags.
\<close>

datatype act_status = ActOk | ActStatus int | ActBuildError build_error

record hooks =
  rexists :: "nid \<Rightarrow> bool"
  found_includes :: "nid \<Rightarrow> scanner \<Rightarrow> nid list res"
  is_up_to_date :: "nid \<Rightarrow> bool res"
  make_ready_hook :: "nid \<Rightarrow> unit res"
  alter_targets :: "nid \<Rightarrow> nid list \<times> string option"
  retrieve_from_cache :: "nid \<Rightarrow> bool res"
  stored_implicit :: "nid \<Rightarrow> nid list option"
  stored_info :: "nid \<Rightarrow> build_info option"
  changed_since :: "nid \<Rightarrow> nid \<Rightarrow> nid option \<Rightarrow> bool"
  node_name :: "nid \<Rightarrow> string"
  node_repr :: "nid \<Rightarrow> string"
  rfile :: "nid \<Rightarrow> nid"
  ninfo_of :: "nid \<Rightarrow> (string \<rightharpoonup> string)"
  scanner_select :: "scanner \<Rightarrow> nid \<Rightarrow> scanner option"
  recurse_nodes :: "scanner \<Rightarrow> nid list \<Rightarrow> nid list"
  env_scanner :: "nid \<Rightarrow> scanner option"
  action_call :: "action \<Rightarrow> act_status"
  action_implicit_deps :: "action \<Rightarrow> nid list \<Rightarrow> nid list \<Rightarrow> nid list"
  action_contents :: "action \<Rightarrow> nid list \<Rightarrow> nid list \<Rightarrow> string"
  md5 :: "string \<Rightarrow> string"
  implicit_cache :: bool
  implicit_deps_unchanged :: bool
  implicit_deps_changed :: bool

text \<open>
  What the base class itself does: every node exists, has no includes, is never up to date,
  has no alternate targets, is in no cache and has nothing stored. Actions succeed here.
\<close>

definition base_hooks :: hooks where
  "base_hooks = \<lparr>rexists = (\<lambda>n. True), found_includes = (\<lambda>n s. Inr []),
     is_up_to_date = (\<lambda>n. Inr False), make_ready_hook = (\<lambda>n. Inr ()),
     alter_targets = (\<lambda>n. ([], None)), retrieve_from_cache = (\<lambda>n. Inr False),
     stored_implicit = (\<lambda>n. None), stored_info = (\<lambda>n. None), changed_since = (\<lambda>c t p. True),
     node_name = show_nat, node_repr = show_nat, rfile = id, ninfo_of = (\<lambda>n. Map.empty), scanner_select = (\<lambda>s n. Some s),
     recurse_nodes = (\<lambda>s ns. ns), env_scanner = (\<lambda>n. None), action_call = (\<lambda>a. ActOk),
     action_implicit_deps = (\<lambda>a t s. []), action_contents = (\<lambda>a t s. []), md5 = id,
     implicit_cache = False, implicit_deps_unchanged = False, implicit_deps_changed = False\<rparr>"

definition missing :: "hooks \<Rightarrow> 'a heap_scheme \<Rightarrow> nid \<Rightarrow> bool" where
  "missing H h n \<longleftrightarrow> \<not> is_derived h n \<and> \<not> linked (node_at h n) \<and> \<not> rexists H n"

text \<open>\<open>disambiguate\<close>: the node itself, in the base class and in every subclass.\<close>

definition disambiguate :: "nid \<Rightarrow> nid" where
  "disambiguate n = n"

text \<open>\<open>built\<close> and \<open>visited\<close> (\<open>store_info\<close> does nothing in the base class).\<close>

definition built :: "hooks \<Rightarrow> nid \<Rightarrow> 'a heap_scheme \<Rightarrow> 'a heap_scheme" where
  "built H n h =
     (let h1 = fold (\<lambda>p. upd_node p (implicit_update (\<lambda>_. None))) (waiting_parents (node_at h n)) h
      in upd_node n (ninfo_update (\<lambda>_. ninfo_of H n)) (clear n h1))"

definition visited :: "hooks \<Rightarrow> nid \<Rightarrow> 'a heap_scheme \<Rightarrow> 'a heap_scheme" where
  "visited H n h = (if binfo (node_at h n) = None then h
     else upd_node n (ninfo_update (\<lambda>_. ninfo_of H n)) h)"

text \<open>
  \<open>get_implicit_deps\<close>: the work list \<open>nodes\<close>, the \<open>seen\<close> dictionary and the result \<open>deps\<close>. A
  reference is to an object in the heap, hence the \<open>valid\<close> test on what a scanner returns.
\<close>

function implicit_deps_loop ::
    "hooks \<Rightarrow> 'a heap_scheme \<Rightarrow> scanner \<Rightarrow> nid list \<Rightarrow> nid list \<Rightarrow> nid list \<Rightarrow> nid list res" where
  "implicit_deps_loop H h sc [] seen deps = Inr deps"
| "implicit_deps_loop H h sc (n # ns) seen deps =
     (case found_includes H n sc of
        Inl e \<Rightarrow> Inl e
      | Inr inc \<Rightarrow>
          (let d = filter (\<lambda>x. x \<notin> set seen \<and> valid h x) inc
           in if d \<noteq> [] then implicit_deps_loop H h sc (ns @ recurse_nodes H sc d) (d @ seen) (deps @ d)
              else implicit_deps_loop H h sc ns seen deps))"
  by pat_completeness auto
termination
proof (relation "measures [\<lambda>(H, h, sc, ns, seen, deps). card ({n. valid h n} - set seen),
    \<lambda>(H, h, sc, ns, seen, deps). length ns]", goal_cases)
  case (2 H h sc n ns seen deps inc d)
  from 2(3) have x: "hd d \<in> set d" by (rule hd_in_set)
  have "finite {n. valid h n}" by (simp add: valid_def)
  moreover have "{n. valid h n} - set (d @ seen) \<subset> {n. valid h n} - set seen"
    using x 2(2) by auto
  ultimately have "card ({n. valid h n} - set (d @ seen)) < card ({n. valid h n} - set seen)"
    by (intro psubset_card_mono) auto
  then show ?case by simp
qed auto

definition get_implicit_deps :: "hooks \<Rightarrow> 'a heap_scheme \<Rightarrow> nid \<Rightarrow> scanner option \<Rightarrow> nid list res" where
  "get_implicit_deps H h n sc = (case sc of
       None \<Rightarrow> Inr []
     | Some s \<Rightarrow> implicit_deps_loop H h s [n] [n] [])"

end
