(* ===== verification/Executor.thy ===== *)
theory Executor
  imports Node
begin

text \<open>
  \<open>SCons/Executor.py\<close> and the methods of \<open>Node\<close> that go through an executor (scanning,
  children, build information, the up-to-date check, building). An executor is named by its
  index in \<open>execs\<close>; several targets may share one. A method that can raise returns the heap as
  it is at that point together with the result.
\<close>

section \<open>Finding and creating executors\<close>

definition Executor_init :: "action list \<Rightarrow> nid list \<Rightarrow> nid list \<Rightarrow> executor" where
  "Executor_init acts tgts srcs = \<lparr>is_null = False, action_list = acts, pre_actions = [],
     post_actions = [], batches = (if tgts \<noteq> [] \<or> srcs \<noteq> [] then [(tgts, srcs)] else []),
     nullified = False, changes = None, memo_contents = None, memo_unignored = []\<rparr>"

definition Null_init :: "nid list \<Rightarrow> executor" where
  "Null_init tgts = \<lparr>is_null = True, action_list = [], pre_actions = [], post_actions = [],
     batches = [(tgts, [])], nullified = False, changes = None, memo_contents = None,
     memo_unignored = []\<rparr>"

definition exec_at :: "'a heap_scheme \<Rightarrow> eid \<Rightarrow> executor" where
  "exec_at h e = (if e < length (execs h) then execs h ! e else Null_init [])"

text \<open>
  \<open>set_action_list\<close>: a list is kept, anything else that is false is an error, else it is
  wrapped in a list.
\<close>

datatype action_arg = ActionList "action list" | ActionOne action | ActionNone

definition set_action_list :: "action_arg \<Rightarrow> action list res" where
  "set_action_list a = (case a of
       ActionList l \<Rightarrow> Inr l
     | ActionOne x \<Rightarrow> Inr [x]
     | ActionNone \<Rightarrow> Inl (UserError ''Executor must have an action.''))"

text \<open>\<open>Node.get_executor\<close> with \<open>create=1\<close>.\<close>

definition get_executor :: "nid \<Rightarrow> 'a heap_scheme \<Rightarrow> 'a heap_scheme \<times> eid" where
  "get_executor n h = (case node_executor (node_at h n) of
       Some e \<Rightarrow> (h, e)
     | None \<Rightarrow>
         (let x = node_at h n; e = length (execs h);
              ex = (case node_builder x of
                      None \<Rightarrow> Null_init [n]
                    | Some b \<Rightarrow> Executor_init [b_action b] [n] (sources x))
          in (upd_node n (node_executor_update (\<lambda>_. Some e)) (h\<lparr>execs := execs h @ [ex]\<rparr>), e)))"

section \<open>Targets, sources and actions\<close>

definition get_all_targets :: "'a heap_scheme \<Rightarrow> eid \<Rightarrow> nid list" where
  "get_all_targets h e = (let x = exec_at h e in
     if is_null x then (case batches x of [] \<Rightarrow> [] | b # _ \<Rightarrow> fst b)
     else concat (map fst (batches x)))"

text \<open>A null executor answers with the sources of its one target.\<close>

definition get_all_sources :: "'a heap_scheme \<Rightarrow> eid \<Rightarrow> nid list" where
  "get_all_sources h e = (let x = exec_at h e in
     if is_null x then (case get_all_targets h e of [] \<Rightarrow> [] | t # _ \<Rightarrow> sources (node_at h t))
     else concat (map snd (batches x)))"

definition get_action_list :: "executor \<Rightarrow> action list" where
  "get_action_list x = (if is_null x then [] else pre_actions x @ action_list x @ post_actions x)"

text \<open>
  \<open>_get_changes\<close>: the batches whose first target is up
  to date and the others.
\<close>

fun get_changes :: "hooks \<Rightarrow> (nid list \<times> nid list) list \<Rightarrow>
    nid list \<times> nid list \<times> nid list \<times> nid list \<Rightarrow> (nid list \<times> nid list \<times> nid list \<times> nid list) res" where
  "get_changes H [] acc = Inr acc"
| "get_changes H (([], srcs) # bs) acc = Inl IndexError"
| "get_changes H ((t # ts, srcs) # bs) (cs, ct, us, ut) =
     (case is_up_to_date H t of
        Inl e \<Rightarrow> Inl e
      | Inr True \<Rightarrow> get_changes H bs (cs, ct, us @ map (rfile H) srcs, ut @ t # ts)
      | Inr False \<Rightarrow> get_changes H bs (cs @ map (rfile H) srcs, ct @ t # ts, us, ut))"

text \<open>\<open>_get_changed_targets\<close> and its three siblings share the cached quadruple.\<close>

definition cached_changes :: "hooks \<Rightarrow> eid \<Rightarrow> 'a heap_scheme \<Rightarrow>
    'a heap_scheme \<times> (nid list \<times> nid list \<times> nid list \<times> nid list) res" where
  "cached_changes H e h = (case changes (exec_at h e) of
       Some c \<Rightarrow> (h, Inr c)
     | None \<Rightarrow> (case get_changes H (batches (exec_at h e)) ([], [], [], []) of
           Inl x \<Rightarrow> (h, Inl x)
         | Inr c \<Rightarrow> (upd_exec e (changes_update (\<lambda>_. Some c)) h, Inr c)))"

text \<open>
  \<open>get_action_targets\<close>: the \<open>targets\<close> string of the first action, without its dollar sign,
  is a key of \<open>get_lvars\<close>. \<open>TARGET\<close> and \<open>SOURCE\<close> are not lists, and any other key is missing.
\<close>

definition strip_dollar :: "string \<Rightarrow> string res" where
  "strip_dollar s = (case s of [] \<Rightarrow> Inl IndexError | c # cs \<Rightarrow> Inr (if c = CHR ''$'' then cs else s))"

definition get_lvar :: "hooks \<Rightarrow> eid \<Rightarrow> string \<Rightarrow> 'a heap_scheme \<Rightarrow> 'a heap_scheme \<times> nid list res" where
  "get_lvar H e k h =
     (if k = ''TARGETS'' then (h, Inr (get_all_targets h e))
      else if k = ''SOURCES'' then (h, Inr (map (rfile H) (get_all_sources h e)))
      else if k \<in> {''CHANGED_SOURCES'', ''CHANGED_TARGETS'', ''UNCHANGED_SOURCES'', ''UNCHANGED_TARGETS''}
      then (let (h', r) = cached_changes H e h
            in (h', case r of Inl x \<Rightarrow> Inl x | Inr (cs, ct, us, ut) \<Rightarrow>
                 Inr (if k = ''CHANGED_SOURCES'' then cs else if k = ''CHANGED_TARGETS'' then ct
                      else if k = ''UNCHANGED_SOURCES'' then us else ut)))
      else if k \<in> {''TARGET'', ''SOURCE''} then (h, Inl AttributeError)
      else (h, Inl (KeyError k)))"

definition get_action_targets :: "hooks \<Rightarrow> eid \<Rightarrow> 'a heap_scheme \<Rightarrow> 'a heap_scheme \<times> nid list res" where
  "get_action_targets H e h = (let x = exec_at h e in
     if is_null x then (h, Inr [])
     else case action_list x of
       [] \<Rightarrow> (h, Inr [])
     | a # _ \<Rightarrow> (case strip_dollar (a_targets a) of
           Inl err \<Rightarrow> (h, Inl err)
         | Inr k \<Rightarrow> get_lvar H e k h))"

definition get_all_prerequisites :: "'a heap_scheme \<Rightarrow> eid \<Rightarrow> nid list" where
  "get_all_prerequisites h e =
     (if is_null (exec_at h e) then []
      else ul_items (fold (\<lambda>t u. ul_extend u (ul_items (prerequisites (node_at h t))))
        (get_all_targets h e) (UniqueList_init [])))"

definition get_action_side_effects :: "hooks \<Rightarrow> eid \<Rightarrow> 'a heap_scheme \<Rightarrow> 'a heap_scheme \<times> nid list res" where
  "get_action_side_effects H e h =
     (if is_null (exec_at h e) then (h, Inr [])
      else let (h', r) = get_action_targets H e h
           in (h', case r of Inl x \<Rightarrow> Inl x
               | Inr ts \<Rightarrow> Inr (ul_items (fold (\<lambda>t u. ul_extend u (side_effects (node_at h' t)))
                   ts (UniqueList_init [])))))"

section \<open>Scanning\<close>

text \<open>
  \<open>Executor.scan\<close>: the dependencies of every node of the list (with the given scanner, or the
  one its environment has for it), then those of the actions; all of them are added to every
  target.
\<close>

fun scan_deps :: "hooks \<Rightarrow> 'a heap_scheme \<Rightarrow> scanner option \<Rightarrow> nid list \<Rightarrow> nid list \<Rightarrow> nid list res" where
  "scan_deps H h sc [] deps = Inr deps"
| "scan_deps H h sc (n # ns) deps =
     (case (case sc of Some s \<Rightarrow> scanner_select H s n
            | None \<Rightarrow> Option.bind (env_scanner H n) (\<lambda>s. scanner_select H s n)) of
        None \<Rightarrow> scan_deps H h sc ns deps
      | Some s \<Rightarrow> (case get_implicit_deps H h n (Some s) of
            Inl e \<Rightarrow> Inl e
          | Inr d \<Rightarrow> scan_deps H h sc ns (deps @ d)))"

definition exec_implicit_deps :: "hooks \<Rightarrow> 'a heap_scheme \<Rightarrow> eid \<Rightarrow> nid list" where
  "exec_implicit_deps H h e =
     concat (map (\<lambda>a. filter (valid h) (action_implicit_deps H a (get_all_targets h e) (get_all_sources h e)))
       (get_action_list (exec_at h e)))"

definition exec_scan :: "hooks \<Rightarrow> eid \<Rightarrow> scanner option \<Rightarrow> nid list \<Rightarrow> 'a heap_scheme \<Rightarrow>
    'a heap_scheme \<times> unit res" where
  "exec_scan H e sc node_list h = (case scan_deps H h sc node_list [] of
       Inl x \<Rightarrow> (h, Inl x)
     | Inr deps \<Rightarrow> (fold (\<lambda>t. add_to_implicit t (deps @ exec_implicit_deps H h e)) (get_all_targets h e) h, Inr ()))"

definition scan_targets :: "hooks \<Rightarrow> eid \<Rightarrow> scanner option \<Rightarrow> 'a heap_scheme \<Rightarrow> 'a heap_scheme \<times> unit res" where
  "scan_targets H e sc h = exec_scan H e sc (get_all_targets h e) h"

definition scan_sources :: "hooks \<Rightarrow> eid \<Rightarrow> scanner option \<Rightarrow> 'a heap_scheme \<Rightarrow> 'a heap_scheme \<times> unit res" where
  "scan_sources H e sc h = (case batches (exec_at h e) of
       [] \<Rightarrow> (h, Inl IndexError)
     | (ts, ss) # _ \<Rightarrow> (if ss \<noteq> [] then exec_scan H e sc (get_all_sources h e) h else (h, Inr ())))"

text \<open>\<open>Node.scan\<close>; the last part, with a null executor having no such methods.\<close>

definition scan_executor :: "hooks \<Rightarrow> builder \<Rightarrow> eid \<Rightarrow> 'a heap_scheme \<Rightarrow> 'a heap_scheme \<times> unit res" where
  "scan_executor H b e h =
     (if is_null (exec_at h e) then (h, Inl AttributeError)
      else case scan_sources H e (b_source_scanner b) h of
          (h1, Inl x) \<Rightarrow> (h1, Inl x)
        | (h1, Inr _) \<Rightarrow> (case b_target_scanner b of
              None \<Rightarrow> (h1, Inr ())
            | Some s \<Rightarrow> scan_targets H e (Some s) h1))"

text \<open>The part of \<open>Node.scan\<close> under \<open>--implicit-cache\<close>, once stored dependencies \<open>imp\<close> are known.\<close>

definition clear_implicit :: "nid \<Rightarrow> 'a heap_scheme \<Rightarrow> 'a heap_scheme" where
  "clear_implicit n = upd_node n (\<lambda>x. x\<lparr>implicit := Some [], implicit_set := {}\<rparr>)"

definition scan_stored :: "hooks \<Rightarrow> nid \<Rightarrow> builder \<Rightarrow> eid \<Rightarrow> nid list \<Rightarrow> 'a heap_scheme \<Rightarrow> 'a heap_scheme \<times> unit res" where
  "scan_stored H n b e imp h =
     (let h1 = fold (\<lambda>t. add_to_implicit t (filter (valid h) imp)) (get_all_targets h e) h
      in if implicit_deps_unchanged H then (h1, Inr ())
         else case is_up_to_date H n of
             Inl x \<Rightarrow> (h1, Inl x)
           | Inr up \<Rightarrow> (if up then (h1, Inr ()) else scan_executor H b e (clear_implicit n h1)))"

definition scan :: "hooks \<Rightarrow> nid \<Rightarrow> 'a heap_scheme \<Rightarrow> 'a heap_scheme \<times> unit res" where
  "scan H n h =
     (if implicit (node_at h n) \<noteq> None then (h, Inr ())
      else let h1 = children_reset n (clear_implicit n h)
        in case node_builder (node_at h1 n) of
          None \<Rightarrow> (h1, Inr ())
        | Some b \<Rightarrow>
          (let (h2, e) = get_executor n h1
           in case (if implicit_cache H \<and> \<not> implicit_deps_changed H then stored_implicit H n else None) of
               None \<Rightarrow> scan_executor H b e h2
             | Some imp \<Rightarrow> scan_stored H n b e imp h2))"

text \<open>\<open>Node.children\<close> with \<open>scan=1\<close>, and \<open>Executor.get_all_children\<close>.\<close>

definition children :: "hooks \<Rightarrow> nid \<Rightarrow> 'a heap_scheme \<Rightarrow> 'a heap_scheme \<times> nid list res" where
  "children H n h = (case scan H n h of
       (h1, Inl x) \<Rightarrow> (h1, Inl x)
     | (h1, Inr _) \<Rightarrow> (let (h2, l) = children_get n h1 in (h2, Inr l)))"

fun children_of_all :: "hooks \<Rightarrow> nid list \<Rightarrow> nid unique_list \<Rightarrow> 'a heap_scheme \<Rightarrow>
    'a heap_scheme \<times> nid unique_list res" where
  "children_of_all H [] u h = (h, Inr u)"
| "children_of_all H (t # ts) u h = (case children H t h of
       (h1, Inl x) \<Rightarrow> (h1, Inl x)
     | (h1, Inr l) \<Rightarrow> children_of_all H ts (ul_extend u l) h1)"

definition get_all_children :: "hooks \<Rightarrow> eid \<Rightarrow> 'a heap_scheme \<Rightarrow> 'a heap_scheme \<times> nid list res" where
  "get_all_children H e h =
     (if is_null (exec_at h e) then (h, Inr (get_all_sources h e))
      else case children_of_all H (get_all_targets h e) (UniqueList_init []) h of
          (h1, Inl x) \<Rightarrow> (h1, Inl x)
        | (h1, Inr u) \<Rightarrow> (h1, Inr (ul_items u)))"

section \<open>Signatures and build information\<close>

definition get_contents :: "hooks \<Rightarrow> eid \<Rightarrow> 'a heap_scheme \<Rightarrow> 'a heap_scheme \<times> string" where
  "get_contents H e h = (let x = exec_at h e in
     if is_null x then (h, [])
     else case memo_contents x of
       Some c \<Rightarrow> (h, c)
     | None \<Rightarrow>
         (let c = concat (map (\<lambda>a. action_contents H a (get_all_targets h e) (get_all_sources h e))
                    (get_action_list x))
          in (upd_exec e (memo_contents_update (\<lambda>_. Some c)) h, c)))"

text \<open>
  \<open>get_unignored_sources\<close> for a node: the sources of the first batch the node is a target of,
  without the ignored ones; memoized under the node and the ignore list.
\<close>

fun batch_sources :: "nid \<Rightarrow> (nid list \<times> nid list) list \<Rightarrow> nid list" where
  "batch_sources n [] = []"
| "batch_sources n ((ts, ss) # bs) = (if n \<in> set ts then ss else batch_sources n bs)"

definition get_unignored_sources :: "eid \<Rightarrow> nid \<Rightarrow> nid list \<Rightarrow> 'a heap_scheme \<Rightarrow> 'a heap_scheme \<times> nid list" where
  "get_unignored_sources e n ign h = (let x = exec_at h e in
     if is_null x then (h, [])
     else case map_of (memo_unignored x) (n, ign) of
       Some l \<Rightarrow> (h, l)
     | None \<Rightarrow>
         (let l = batch_sources n (batches x);
              l' = (if ign \<noteq> [] then filter (\<lambda>s. s \<notin> set ign) l else l)
          in (upd_exec e (\<lambda>x. x\<lparr>memo_unignored := ((n, ign), l') # memo_unignored x\<rparr>) h, l')))"

text \<open>
  \<open>get_binfo\<close>: the action signature of a node with a builder, the sources (its own if they are
  specific, else the executor's) without the ignored ones, and the dependencies.
\<close>

definition binfo_actsig :: "hooks \<Rightarrow> nid \<Rightarrow> eid \<Rightarrow> 'a heap_scheme \<Rightarrow> 'a heap_scheme \<times> string option" where
  "binfo_actsig H n e h = (if has_builder h n
     then (let (h', c) = get_contents H e h in (h', Some (md5 H c))) else (h, None))"

definition binfo_sources :: "nid \<Rightarrow> eid \<Rightarrow> 'a heap_scheme \<Rightarrow> 'a heap_scheme \<times> nid list" where
  "binfo_sources n e h = (let x = node_at h n in
     if specific_sources x then (h, filter (\<lambda>s. s \<notin> ignore_set x) (sources x))
     else get_unignored_sources e n (ignore x) h)"

definition make_binfo :: "node \<Rightarrow> nid list \<Rightarrow> string option \<Rightarrow> build_info" where
  "make_binfo x srcs sig =
     (let bs = uniquer_hashables srcs; ok = (\<lambda>i. i \<notin> ignore_set x)
      in \<lparr>bsources = bs, bsourcesigs = bs,
          bdepends = depends x, bdependsigs = filter ok (depends x),
          bimplicit = implicit_list x, bimplicitsigs = filter ok (implicit_list x), bactsig = sig\<rparr>)"

definition get_binfo :: "hooks \<Rightarrow> nid \<Rightarrow> 'a heap_scheme \<Rightarrow> 'a heap_scheme \<times> build_info" where
  "get_binfo H n h = (case binfo (node_at h n) of
       Some b \<Rightarrow> (h, b)
     | None \<Rightarrow>
        (let (h1, e) = get_executor n h;
             (h2, sig) = binfo_actsig H n e h1;
             (h3, srcs) = binfo_sources n e h2;
             b = make_binfo (node_at h3 n) srcs sig
         in (upd_node n (binfo_update (\<lambda>_. Some b)) h3, b)))"

text \<open>
  \<open>children_are_up_to_date\<close>: the loop keeps the largest state among the children (a state
  that is \<open>no_state\<close> does not count); false under \<open>AlwaysBuild\<close>.
\<close>

fun max_child_state :: "node_state \<Rightarrow> node_state list \<Rightarrow> node_state" where
  "max_child_state acc [] = acc"
| "max_child_state acc (s # ss) =
     max_child_state (if s \<noteq> no_state \<and> (acc = no_state \<or> acc < s) then s else acc) ss"

definition children_are_up_to_date :: "hooks \<Rightarrow> nid \<Rightarrow> 'a heap_scheme \<Rightarrow> 'a heap_scheme \<times> bool" where
  "children_are_up_to_date H n h =
     (let (h1, b) = get_binfo H n h
      in if always_build (node_at h1 n) then (h1, False)
         else let (h2, kids) = children_get n h1;
                  s = max_child_state no_state (map (get_state h2) kids)
              in (h2, s = no_state \<or> s = node_state.up_to_date))"

text \<open>
  \<open>changed\<close> against the stored build information of \<open>node\<close>. Every child is asked; the old
  signatures are padded with \<open>None\<close> to the new length (a negative count pads nothing), and
  the pairing stops at the shorter list.
\<close>

definition changed :: "hooks \<Rightarrow> nid \<Rightarrow> nid \<Rightarrow> 'a heap_scheme \<Rightarrow> 'a heap_scheme \<times> bool res" where
  "changed H n node h = (case stored_info H node of
       None \<Rightarrow> (h, Inl AttributeError)
     | Some bi \<Rightarrow> (case children H n h of
           (h1, Inl x) \<Rightarrow> (h1, Inl x)
         | (h1, Inr kids) \<Rightarrow>
            (let old = map Some (bsourcesigs bi @ bdependsigs bi @ bimplicitsigs bi);
                 padded = old @ replicate (length kids - length old) None;
                 res1 = (length kids \<noteq> length old);
                 res2 = (\<exists>(c, ni) \<in> set (zip kids padded). changed_since H c n ni);
                 (h2, e) = get_executor n h1;
                 (h3, c) = get_contents H e h2;
                 res3 = (node_builder (node_at h3 n) \<noteq> None \<and> bactsig bi \<noteq> Some (md5 H c))
             in (h3, Inr (res1 \<or> res2 \<or> res3)))))"

section \<open>Preparing and running\<close>

fun first_missing :: "hooks \<Rightarrow> 'a heap_scheme \<Rightarrow> nid list \<Rightarrow> nid option" where
  "first_missing H h [] = None"
| "first_missing H h (n # ns) = (if missing H h n then Some n else first_missing H h ns)"

definition not_found_msg :: "hooks \<Rightarrow> string \<Rightarrow> nid \<Rightarrow> nid \<Rightarrow> string" where
  "not_found_msg H what s t = what @ '' `'' @ node_name H s @ [CHR 0x27] @ '' not found, needed by target `''
     @ node_name H t @ [CHR 0x27, CHR ''.'']"

definition exec_prepare :: "hooks \<Rightarrow> eid \<Rightarrow> 'a heap_scheme \<Rightarrow> unit res" where
  "exec_prepare H e h = (let x = exec_at h e in
     if is_null x then Inr ()
     else case first_missing H h (get_all_sources h e) of
       None \<Rightarrow> Inr ()
     | Some s \<Rightarrow> (case batches x of
           (t # ts, ss) # _ \<Rightarrow> Inl (StopError (not_found_msg H ''Source'' s t))
         | _ \<Rightarrow> Inl IndexError))"

definition node_prepare :: "hooks \<Rightarrow> nid \<Rightarrow> 'a heap_scheme \<Rightarrow> 'a heap_scheme \<times> unit res" where
  "node_prepare H n h = (case first_missing H h (depends (node_at h n)) of
       Some d \<Rightarrow> (h, Inl (StopError (not_found_msg H ''Explicit dependency'' d n)))
     | None \<Rightarrow> (case first_missing H h (implicit_list (node_at h n)) of
           Some i \<Rightarrow> (h, Inl (StopError (not_found_msg H ''Implicit dependency'' i n)))
         | None \<Rightarrow> (let (h1, b) = get_binfo H n h
                    in (upd_node n (binfo_update (\<lambda>_. Some b)) h1, Inr ()))))"

text \<open>\<open>do_execute\<close>: the actions in order until one fails; the result is the exception.\<close>

fun run_actions :: "hooks \<Rightarrow> eid \<Rightarrow> nid list \<Rightarrow> action list \<Rightarrow> exc option" where
  "run_actions H e tgts [] = None"
| "run_actions H e tgts (a # as) = (case action_call H a of
       ActBuildError b \<Rightarrow> Some (BuildErr (b\<lparr>be_executor := Some e\<rparr>))
     | ActStatus s \<Rightarrow> (if s \<noteq> 0
           then Some (BuildErr (BuildError_init\<lparr>errstr := ''Error '' @ show_int s, be_node := Some tgts,
                  be_executor := Some e, be_action := Some (a_id a)\<rparr>))
           else run_actions H e tgts as)
     | ActOk \<Rightarrow> run_actions H e tgts as)"

definition do_execute :: "hooks \<Rightarrow> eid \<Rightarrow> 'a heap_scheme \<Rightarrow> exc option" where
  "do_execute H e h = (let x = exec_at h e in
     if is_null x \<or> nullified x then None
     else run_actions H e (case batches x of [] \<Rightarrow> [] | b # _ \<Rightarrow> fst b) (get_action_list x))"

text \<open>\<open>Node.build\<close>: a build error gets this node as its node.\<close>

definition build :: "hooks \<Rightarrow> nid \<Rightarrow> 'a heap_scheme \<Rightarrow> 'a heap_scheme \<times> exc option" where
  "build H n h = (let (h1, e) = get_executor n h
     in (h1, case do_execute H e h1 of
           Some (BuildErr b) \<Rightarrow> Some (BuildErr (b\<lparr>be_node := Some [n]\<rparr>))
         | r \<Rightarrow> r))"

section \<open>Changing an executor\<close>

definition add_sources :: "eid \<Rightarrow> nid list \<Rightarrow> 'a heap_scheme \<Rightarrow> 'a heap_scheme res" where
  "add_sources e srcs h = (case batches (exec_at h e) of
       [(ts, ss)] \<Rightarrow> Inr (upd_exec e (batches_update (\<lambda>_. [(ts, ss @ filter (\<lambda>x. x \<notin> set ss) srcs)])) h)
     | _ \<Rightarrow> Inl AssertionError)"

definition add_batch :: "eid \<Rightarrow> nid list \<Rightarrow> nid list \<Rightarrow> 'a heap_scheme \<Rightarrow> 'a heap_scheme" where
  "add_batch e ts ss = upd_exec e (\<lambda>x. x\<lparr>batches := batches x @ [(ts, ss)]\<rparr>)"

definition nullify :: "eid \<Rightarrow> 'a heap_scheme \<Rightarrow> 'a heap_scheme" where
  "nullify e h = upd_exec e (nullified_update (\<lambda>_. True)) (executor_cleanup_at e h)"

text \<open>\<open>Null._morph\<close>: a null executor becomes a real one with its batches and no action.\<close>

definition morph :: "executor \<Rightarrow> executor" where
  "morph x = (if is_null x then (Executor_init [] [] [])\<lparr>batches := batches x\<rparr> else x)"

definition add_pre_action :: "eid \<Rightarrow> action \<Rightarrow> 'a heap_scheme \<Rightarrow> 'a heap_scheme" where
  "add_pre_action e a = upd_exec e (\<lambda>x. (morph x)\<lparr>pre_actions := pre_actions (morph x) @ [a]\<rparr>)"

definition add_post_action :: "eid \<Rightarrow> action \<Rightarrow> 'a heap_scheme \<Rightarrow> 'a heap_scheme" where
  "add_post_action e a = upd_exec e (\<lambda>x. (morph x)\<lparr>post_actions := post_actions (morph x) @ [a]\<rparr>)"

end
