(* ===== verification/Taskmaster.thy ===== *)
theory Taskmaster
  imports Executor
begin

text \<open>
  \<open>SCons/Taskmaster.py\<close>: the walk over the dependency graph that decides which node is
  evaluated next, and the tasks that carry a node through its evaluation. The taskmaster's
  state extends the heap of nodes and executors. Definitions first, in the order of the
  source; the lemmas are in theories \<open>Graph_Frame\<close> to \<open>Build\<close>.
\<close>

section \<open>State\<close>

text \<open>
  \<open>stopped\<close> tells whether \<open>next_candidate\<close> has been rebound to \<open>no_next_candidate\<close>. The sets
  \<open>pending_children\<close> and the nodes' \<open>waiting_parents\<close> are lists without repetitions. \<open>order\<close> is
  the constructor's argument (the identity by default).
\<close>

record taskmaster = heap +
  original_top :: "nid list"
  top_targets_left :: "nid list"
  candidates :: "nid list"
  order :: "nid list \<Rightarrow> nid list"
  message :: "string option"
  stopped :: bool
  pending_children :: "nid list"
  current_top :: "nid option"
  ready_exc :: "exc option"

definition Taskmaster_init :: "nid list \<Rightarrow> (nid list \<Rightarrow> nid list) \<Rightarrow> heap \<Rightarrow> taskmaster" where
  "Taskmaster_init targets ord h = \<lparr>nodes = nodes h, execs = execs h, original_top = targets,
     top_targets_left = rev targets, candidates = [], order = ord, message = None,
     stopped = False, pending_children = [], current_top = None, ready_exc = None\<rparr>"

datatype tasker = BaseTask | AlwaysTask | OutOfDateTask

record task =
  t_targets :: "nid list"
  t_top :: bool
  t_node :: nid
  t_exception :: "exc option"
  t_out_of_date :: "nid list"

definition Task_init :: "nid list \<Rightarrow> bool \<Rightarrow> nid \<Rightarrow> task" where
  "Task_init targets is_top n = \<lparr>t_targets = targets, t_top = is_top, t_node = n,
     t_exception = None, t_out_of_date = []\<rparr>"

section \<open>Nodes that will not be built\<close>

definition dec_ref :: "nid \<Rightarrow> 'a heap_scheme \<Rightarrow> 'a heap_scheme" where
  "dec_ref p = upd_node p (\<lambda>x. x\<lparr>ref_count := ref_count x - 1\<rparr>)"

definition take_parents :: "nid \<Rightarrow> 'a heap_scheme \<Rightarrow> 'a heap_scheme" where
  "take_parents n h =
     fold dec_ref (waiting_parents (node_at h n)) (upd_node n (waiting_parents_update (\<lambda>_. [])) h)"

text \<open>
  The loop of \<open>will_not_build\<close>. \<open>mark\<close> is \<open>node_func\<close>: nothing by default, or \<open>set_state\<close> to a
  given state. The parents of a visited node are taken off it, lose one reference and are
  visited in turn.
\<close>

definition mark_node :: "node_state option \<Rightarrow> nid \<Rightarrow> 'a heap_scheme \<Rightarrow> 'a heap_scheme" where
  "mark_node mark n h = (case mark of None \<Rightarrow> h | Some s \<Rightarrow> set_state n s h)"

definition waiting_total :: "'a heap_scheme \<Rightarrow> nat" where
  "waiting_total h = sum_list (map (\<lambda>x. length (waiting_parents x)) (nodes h))"

lemma upd_node_waiting_total:
  "(\<And>x. waiting_parents (f x) = waiting_parents x) \<Longrightarrow> waiting_total (upd_node n f h) = waiting_total h"
  unfolding waiting_total_def nodes_upd_node
  by (rule arg_cong [where f = sum_list]) (auto intro!: nth_equalityI simp: nth_list_update node_at_def)

lemma waiting_parents_mark_node [simp]:
  "waiting_parents (node_at (mark_node m n h) k) = waiting_parents (node_at h k)"
  by (simp add: mark_node_def set_state_def upd_node_keeps split: option.split)

lemma waiting_total_mark_node [simp]: "waiting_total (mark_node m n h) = waiting_total h"
  by (simp add: mark_node_def set_state_def upd_node_waiting_total split: option.split)

lemma waiting_total_fold_dec_ref [simp]: "waiting_total (fold dec_ref ps h) = waiting_total h"
  by (induction ps arbitrary: h) (simp_all add: dec_ref_def upd_node_waiting_total)

lemma waiting_total_take_parents:
  "waiting_total (take_parents n h) + length (waiting_parents (node_at h n)) = waiting_total h"
proof (cases "n < length (nodes h)")
  case True
  have "nodes h = take n (nodes h) @ nodes h ! n # drop (Suc n) (nodes h)"
    using True by (rule id_take_nth_drop)
  then have "waiting_total h = sum_list (map (\<lambda>x. length (waiting_parents x)) (take n (nodes h)))
      + length (waiting_parents (nodes h ! n))
      + sum_list (map (\<lambda>x. length (waiting_parents x)) (drop (Suc n) (nodes h)))"
    unfolding waiting_total_def by (metis (no_types, lifting) add.assoc list.simps(9) map_append sum_list.Cons sum_list_append)
  moreover have "waiting_total (upd_node n (waiting_parents_update (\<lambda>_. [])) h)
      = sum_list (map (\<lambda>x. length (waiting_parents x)) (take n (nodes h)))
      + sum_list (map (\<lambda>x. length (waiting_parents x)) (drop (Suc n) (nodes h)))"
    using True by (simp add: waiting_total_def nodes_upd_node upd_conv_take_nth_drop)
  ultimately show ?thesis
    using True by (simp add: take_parents_def node_at_def)
next
  case False
  then show ?thesis
    by (simp add: take_parents_def node_at_def Node_init_def waiting_total_def nodes_upd_node list_update_beyond)
qed

function will_not_build_loop :: "node_state option \<Rightarrow> nid list \<Rightarrow> nid list \<Rightarrow> 'a heap_scheme \<Rightarrow>
    nid list \<times> 'a heap_scheme" where
  "will_not_build_loop mark [] pc h = (pc, h)"
| "will_not_build_loop mark (n # to_visit) pc h =
     (let h1 = mark_node mark n h; parents = waiting_parents (node_at h1 n)
      in will_not_build_loop mark (set_union to_visit parents) (set_minus pc parents) (take_parents n h1))"
  by pat_completeness auto
termination
proof (relation "measure (\<lambda>(m, tv, pc, h). length tv + waiting_total h)", goal_cases)
  case (2 mark n tv pc h h1 parents)
  have "waiting_total (take_parents n h1) + length parents = waiting_total h1"
    unfolding 2(2) by (rule waiting_total_take_parents)
  moreover have "length (set_union tv parents) \<le> length tv + length parents"
    by (rule length_set_union_le)
  ultimately show ?case using 2(1) by simp
qed simp

definition will_not_build :: "nid list \<Rightarrow> node_state option \<Rightarrow> taskmaster \<Rightarrow> taskmaster" where
  "will_not_build ns mark s =
     (let to_visit = fold set_add ns [];
          (pc, s') = will_not_build_loop mark to_visit (set_minus (pending_children s) to_visit) s
      in s'\<lparr>pending_children := pc\<rparr>)"

section \<open>The next candidate\<close>

definition find_next_candidate :: "hooks \<Rightarrow> taskmaster \<Rightarrow> taskmaster \<times> nid option" where
  "find_next_candidate H s = (case py_pop (candidates s) of
       Some (n, cs) \<Rightarrow> (s\<lparr>candidates := cs\<rparr>, Some n)
     | None \<Rightarrow> (case py_pop (top_targets_left s) of
           None \<Rightarrow> (s, None)
         | Some (n, ts) \<Rightarrow>
             (let s1 = s\<lparr>top_targets_left := ts, current_top := Some n\<rparr>;
                  (alt, msg) = alter_targets H n
              in if alt \<noteq> []
                 then (case py_pop (candidates s1 @ [n] @ order s1 alt) of
                         Some (m, cs) \<Rightarrow> (s1\<lparr>message := msg, candidates := cs\<rparr>, Some m)
                       | None \<Rightarrow> (s1, None))
                 else (s1, Some n))))"

text \<open>
  \<open>no_next_candidate\<close>: one pass empties the list, since \<open>will_not_build\<close> adds no candidates.
\<close>

definition no_next_candidate :: "taskmaster \<Rightarrow> taskmaster \<times> nid option" where
  "no_next_candidate s =
     (if candidates s = [] then s else will_not_build (candidates s) None (s\<lparr>candidates := []\<rparr>), None)"

definition next_candidate :: "hooks \<Rightarrow> taskmaster \<Rightarrow> taskmaster \<times> nid option" where
  "next_candidate H s = (if stopped s then no_next_candidate s else find_next_candidate H s)"

definition stop :: "taskmaster \<Rightarrow> taskmaster" where
  "stop s = s\<lparr>stopped := True\<rparr>"

section \<open>The next ready node\<close>

text \<open>The parent waits for each child that is not ready; its count grows by the new entries.\<close>

fun wait_for :: "nid \<Rightarrow> nid list \<Rightarrow> 'a heap_scheme \<Rightarrow> 'a heap_scheme" where
  "wait_for n [] h = h"
| "wait_for n (c # cs) h =
     (let (k, h1) = add_to_waiting_parents c n h
      in wait_for n cs (upd_node n (\<lambda>x. x\<lparr>ref_count := ref_count x + k\<rparr>) h1))"

fun set_states :: "nid list \<Rightarrow> node_state \<Rightarrow> 'a heap_scheme \<Rightarrow> 'a heap_scheme" where
  "set_states [] st h = h"
| "set_states (n # ns) st h = set_states ns st (set_state n st h)"

text \<open>
  One round of the loop for a node: go on with the next candidate, return the node, or let an
  exception escape.
\<close>

datatype round = Continue taskmaster | Found nid taskmaster | Escape exc taskmaster

text \<open>The last part of the round, once every child is ready.\<close>

definition check_side_effects :: "hooks \<Rightarrow> nid \<Rightarrow> eid \<Rightarrow> taskmaster \<Rightarrow> round" where
  "check_side_effects H n e s = (case get_action_side_effects H e s of
       (s1, Inl x) \<Rightarrow> Escape (Exc x) s1
     | (s1, Inr ses) \<Rightarrow>
        (let busy = filter (\<lambda>se. get_state s1 se = executing) ses;
             s2 = fold (\<lambda>se. add_to_waiting_s_e se n) busy s1
         in if busy \<noteq> [] then Continue s2 else Found n s2))"

text \<open>The round after the children are known.\<close>

definition sort_children :: "hooks \<Rightarrow> nid \<Rightarrow> eid \<Rightarrow> nid list \<Rightarrow> taskmaster \<Rightarrow> round" where
  "sort_children H n e all s =
     (let not_visited = filter (\<lambda>c. get_state s c = no_state) all;
          pend = fold set_add (filter (\<lambda>c. get_state s c = pending) all) [];
          not_ready = filter (\<lambda>c. get_state s c \<le> executing) all;
          any_failed = (\<exists>c \<in> set all. get_state s c = failed);
          s1 = s\<lparr>candidates := candidates s @ order s (rev not_visited)\<rparr>
      in if any_failed
         then (case get_action_targets H e s1 of
                 (s2, Inl x) \<Rightarrow> Escape (Exc x) s2
               | (s2, Inr ts) \<Rightarrow> Continue (set_states ts failed s2))
         else if not_ready \<noteq> []
         then (let s2 = wait_for n not_ready s1
               in Continue (s2\<lparr>pending_children := set_union (pending_children s2) pend\<rparr>))
         else check_side_effects H n e s1)"

definition consider_node :: "hooks \<Rightarrow> nid \<Rightarrow> taskmaster \<Rightarrow> round" where
  "consider_node H n s =
     (if pending < get_state s n then Continue s
      else let s1 = (if get_state s n = no_state then set_state n pending s else s);
               (s2, e) = get_executor n s1
           in case get_all_children H e s2 of
                (s3, Inl x) \<Rightarrow> Found n (s3\<lparr>ready_exc := Some (Exc (case x of
                     SystemExit c \<Rightarrow> ExplicitExit (Some n) c | _ \<Rightarrow> x))\<rparr>)
              | (s3, Inr kids) \<Rightarrow> sort_children H n e (get_all_prerequisites s3 e @ kids) s3)"

text \<open>The loop \<open>while 1\<close>; \<open>None\<close> is a loop that does not end.\<close>

partial_function (option) find_ready_loop :: "hooks \<Rightarrow> taskmaster \<Rightarrow> (taskmaster \<times> (exc + nid option)) option" where
  "find_ready_loop H s = (case next_candidate H s of
       (s1, None) \<Rightarrow> Some (s1, Inr None)
     | (s1, Some n) \<Rightarrow> (case consider_node H (disambiguate n) s1 of
           Continue s2 \<Rightarrow> find_ready_loop H s2
         | Found m s2 \<Rightarrow> Some (s2, Inr (Some m))
         | Escape x s2 \<Rightarrow> Some (s2, Inl x)))"

definition find_next_ready_node :: "hooks \<Rightarrow> taskmaster \<Rightarrow> (taskmaster \<times> (exc + nid option)) option" where
  "find_next_ready_node H s = find_ready_loop H (s\<lparr>ready_exc := None\<rparr>)"

section \<open>Tasks\<close>

text \<open>The first loop of \<open>make_ready_current\<close>: the targets that are out of date.\<close>

fun out_of_date_targets :: "hooks \<Rightarrow> taskmaster \<Rightarrow> nid list \<Rightarrow> nid list \<times> exc option" where
  "out_of_date_targets H s [] = ([], None)"
| "out_of_date_targets H s (t # ts) =
     (case (case make_ready_hook H (disambiguate t) of
              Inl x \<Rightarrow> Inl x
            | Inr _ \<Rightarrow> (if \<not> has_builder s t then Inr True
                 else if always_build (node_at s t) then Inr False
                 else is_up_to_date H t)) of
        Inl (OSErr n m f) \<Rightarrow> ([], Some (BuildErr (BuildError_init\<lparr>be_node := Some [t], errstr := m, filename := f\<rparr>)))
      | Inl x \<Rightarrow> ([], Some (Exc x))
      | Inr up \<Rightarrow> (let (l, r) = out_of_date_targets H s ts in (if up then l else t # l, r)))"

definition mark_executing :: "nid \<Rightarrow> taskmaster \<Rightarrow> taskmaster" where
  "mark_executing t s = set_states (side_effects (node_at s t)) executing (set_state t executing s)"

text \<open>A \<open>make_ready\<close> returns the task with its \<open>out_of_date\<close> list and what it raises.\<close>

definition make_ready_current :: "hooks \<Rightarrow> task \<Rightarrow> taskmaster \<Rightarrow> taskmaster \<times> task \<times> exc option" where
  "make_ready_current H t s = (let (l, r) = out_of_date_targets H s (t_targets t);
        t' = t\<lparr>t_out_of_date := l\<rparr>
      in if r \<noteq> None then (s, t', r)
         else if l \<noteq> [] then (fold mark_executing (t_targets t) s, t', None)
         else (fold (\<lambda>n s. set_state n node_state.up_to_date (visited H n s)) (t_targets t) s, t', None))"

definition make_ready_all :: "hooks \<Rightarrow> task \<Rightarrow> taskmaster \<Rightarrow> taskmaster \<times> task \<times> exc option" where
  "make_ready_all H t s = (fold mark_executing (t_targets t) s, t\<lparr>t_out_of_date := t_targets t\<rparr>, None)"

definition exception_set :: "exc \<Rightarrow> task \<Rightarrow> task" where
  "exception_set x t = t\<lparr>t_exception := Some x\<rparr>"

definition exc_clear :: "task \<Rightarrow> task" where
  "exc_clear t = t\<lparr>t_exception := None\<rparr>"

text \<open>
  \<open>next_task\<close>; \<open>mk\<close> is the task class's \<open>make_ready\<close> (\<open>make_ready_current\<close> by default). What it
  raises is kept in the task and raised by \<open>prepare\<close>.
\<close>

definition next_task :: "hooks \<Rightarrow> (hooks \<Rightarrow> task \<Rightarrow> taskmaster \<Rightarrow> taskmaster \<times> task \<times> exc option) \<Rightarrow>
    taskmaster \<Rightarrow> (taskmaster \<times> (exc + task option)) option" where
  "next_task H mk s = (case find_next_ready_node H s of
       None \<Rightarrow> None
     | Some (s1, Inl x) \<Rightarrow> Some (s1, Inl x)
     | Some (s1, Inr None) \<Rightarrow> Some (s1, Inr None)
     | Some (s1, Inr (Some n)) \<Rightarrow>
        (let (s2, e) = get_executor n s1;
             (s3, t, r) = mk H (Task_init (get_all_targets s2 e) (n \<in> set (original_top s2)) n) s2;
             t' = (case (case r of Some x \<Rightarrow> Some x | None \<Rightarrow> ready_exc s3) of
                     None \<Rightarrow> t | Some x \<Rightarrow> exception_set x t)
         in Some (s3\<lparr>ready_exc := None\<rparr>, Inr (Some t'))))"

text \<open>\<open>prepare\<close> of the targets the action builds and of their side effects.\<close>

fun prepare_nodes :: "hooks \<Rightarrow> nid list \<Rightarrow> taskmaster \<Rightarrow> taskmaster \<times> unit res" where
  "prepare_nodes H [] s = (s, Inr ())"
| "prepare_nodes H (n # ns) s = (case node_prepare H n s of
       (s1, Inl x) \<Rightarrow> (s1, Inl x)
     | (s1, Inr _) \<Rightarrow> prepare_nodes H ns s1)"

fun prepare_targets :: "hooks \<Rightarrow> nid list \<Rightarrow> taskmaster \<Rightarrow> taskmaster \<times> unit res" where
  "prepare_targets H [] s = (s, Inr ())"
| "prepare_targets H (t # ts) s = (case prepare_nodes H (t # side_effects (node_at s t)) s of
       (s1, Inl x) \<Rightarrow> (s1, Inl x)
     | (s1, Inr _) \<Rightarrow> prepare_targets H ts s1)"

definition prepare :: "hooks \<Rightarrow> task \<Rightarrow> taskmaster \<Rightarrow> taskmaster \<times> exc option" where
  "prepare H t s = (case t_exception t of
       Some x \<Rightarrow> (s, Some x)
     | None \<Rightarrow> (let s1 = s\<lparr>message := None\<rparr> in case t_targets t of
           [] \<Rightarrow> (s1, Some (Exc IndexError))
         | t0 # _ \<Rightarrow>
            (let (s2, e) = get_executor t0 s1 in case exec_prepare H e s2 of
                Inl x \<Rightarrow> (s2, Some (Exc x))
              | Inr _ \<Rightarrow> (case get_action_targets H e s2 of
                    (s3, Inl x) \<Rightarrow> (s3, Some (Exc x))
                  | (s3, Inr ts) \<Rightarrow> (case prepare_targets H ts s3 of
                        (s4, Inl x) \<Rightarrow> (s4, Some (Exc x))
                      | (s4, Inr _) \<Rightarrow> (s4, None))))))"

definition needs_execute :: "tasker \<Rightarrow> task \<Rightarrow> taskmaster \<Rightarrow> bool" where
  "needs_execute k t s = (case k of
       OutOfDateTask \<Rightarrow> (case t_targets t of [] \<Rightarrow> False | t0 # _ \<Rightarrow> get_state s t0 = executing)
     | _ \<Rightarrow> True)"

text \<open>\<open>execute\<close>: targets from the cache until one is not there, then the build.\<close>

fun from_cache :: "hooks \<Rightarrow> nid list \<Rightarrow> taskmaster \<Rightarrow> taskmaster \<times> bool res" where
  "from_cache H [] s = (s, Inr True)"
| "from_cache H (t # ts) s = (case retrieve_from_cache H t of
       Inl x \<Rightarrow> (s, Inl x)
     | Inr True \<Rightarrow> from_cache H ts (built H t (set_state t executed s))
     | Inr False \<Rightarrow> (s, Inr False))"

text \<open>The handlers of \<open>execute\<close>.\<close>

definition execute_handler :: "nid \<Rightarrow> exc \<Rightarrow> exc" where
  "execute_handler t0 x = (case x of
       Exc (SystemExit c) \<Rightarrow> Exc (ExplicitExit (Some t0) c)
     | Exc (UserError m) \<Rightarrow> Exc (UserError m)
     | BuildErr b \<Rightarrow> BuildErr b
     | Exc y \<Rightarrow> BuildErr ((convert_to_BuildError (CExc (Exc y)) None)
         \<lparr>be_node := Some [t0], be_exc_info := Some y\<rparr>))"

definition execute :: "hooks \<Rightarrow> task \<Rightarrow> taskmaster \<Rightarrow> taskmaster \<times> exc option" where
  "execute H t s = (case from_cache H (t_targets t) s of
       (s1, Inl x) \<Rightarrow> (s1, Some (execute_handler (hd (t_targets t)) (Exc x)))
     | (s1, Inr True) \<Rightarrow> (s1, None)
     | (s1, Inr False) \<Rightarrow>
        (let (s2, r) = build H (hd (t_targets t)) s1
         in (s2, map_option (execute_handler (hd (t_targets t))) r)))"

fun executed_without_callbacks :: "nid list \<Rightarrow> taskmaster \<Rightarrow> taskmaster" where
  "executed_without_callbacks [] s = s"
| "executed_without_callbacks (t # ts) s = executed_without_callbacks ts
     (if get_state s t = executing
      then set_state t executed (set_states (side_effects (node_at s t)) no_state s) else s)"

text \<open>\<open>push_to_cache\<close> does nothing to the nodes.\<close>

fun executed_with_callbacks :: "hooks \<Rightarrow> nid list \<Rightarrow> taskmaster \<Rightarrow> taskmaster" where
  "executed_with_callbacks H [] s = s"
| "executed_with_callbacks H (t # ts) s = executed_with_callbacks H ts
     (visited H t (if get_state s t = executing
        then built H t (set_state t executed (set_states (side_effects (node_at s t)) no_state s)) else s))"

definition fail_stop :: "task \<Rightarrow> taskmaster \<Rightarrow> taskmaster \<times> task" where
  "fail_stop t s = (let s1 = stop (will_not_build (t_targets t) (Some failed) s)
     in (s1, t\<lparr>t_targets := (case current_top s1 of Some n \<Rightarrow> [n] | None \<Rightarrow> []), t_top := True\<rparr>))"

definition fail_continue :: "task \<Rightarrow> taskmaster \<Rightarrow> taskmaster \<times> task" where
  "fail_continue t s = (will_not_build (t_targets t) (Some failed) s, t)"

section \<open>Postprocessing\<close>

text \<open>The dictionary \<open>parents\<close> counts, per parent, the targets it was waiting for.\<close>

fun count_up :: "nid \<Rightarrow> (nid \<times> int) list \<Rightarrow> (nid \<times> int) list" where
  "count_up p [] = [(p, 1)]"
| "count_up p ((q, k) # ps) = (if p = q then (q, k + 1) # ps else (q, k) # count_up p ps)"

definition postprocess_target :: "nid \<Rightarrow> (nid \<times> int) list \<times> taskmaster \<Rightarrow> (nid \<times> int) list \<times> taskmaster" where
  "postprocess_target t ps_s = (let (ps, s) = ps_s; wp = waiting_parents (node_at s t) in
     (fold count_up wp ps,
      if wp \<noteq> [] then s\<lparr>pending_children := filter (\<lambda>x. x \<noteq> t) (pending_children s)\<rparr> else s))"

definition postprocess_side_effect :: "nid \<Rightarrow> (nid \<times> int) list \<times> taskmaster \<Rightarrow> (nid \<times> int) list \<times> taskmaster" where
  "postprocess_side_effect e ps_s = (let (ps, s) = ps_s;
       (ps1, s1) = (if get_state s e = executing
                    then (fold count_up (waiting_parents (node_at s e)) ps, set_state e no_state s) else (ps, s))
     in (ps1, s1\<lparr>candidates := candidates s1 @
           filter (\<lambda>p. ref_count (node_at s1 p) = 0) (waiting_s_e (node_at s1 e))\<rparr>))"

definition postprocess_parent :: "nid \<times> int \<Rightarrow> taskmaster \<Rightarrow> taskmaster" where
  "postprocess_parent pk s = (let (p, k) = pk;
       s1 = upd_node p (\<lambda>x. x\<lparr>ref_count := ref_count x - k\<rparr>) s
     in if ref_count (node_at s1 p) = 0 then s1\<lparr>candidates := candidates s1 @ [p]\<rparr> else s1)"

definition postprocess :: "task \<Rightarrow> taskmaster \<Rightarrow> taskmaster" where
  "postprocess t s =
     (let targets = fold set_add (t_targets t) [];
          (ps1, s1) = fold postprocess_target targets ([], s);
          (ps2, s2) = fold (\<lambda>t ps_s. fold postprocess_side_effect (side_effects (node_at (snd ps_s) t)) ps_s)
             targets (ps1, s1);
          s3 = fold postprocess_parent ps2 s2
      in fold node_postprocess targets s3)"

section \<open>Cycles\<close>

text \<open>
  \<open>find_cycle\<close>: \<open>find_cycle_kids\<close> is the loop over the waiting parents of the last node of the
  stack; the test \<open>stack[-1] in visited\<close> of the recursive call is in the loop.
\<close>

function find_cycle_kids :: "'a heap_scheme \<Rightarrow> nid list \<Rightarrow> nid list \<Rightarrow> nid list \<Rightarrow> nid list option \<times> nid list" where
  "find_cycle_kids h stack vis [] = (None, vis)"
| "find_cycle_kids h stack vis (p # ps) =
     (if hd stack = p then (Some (stack @ [p]), vis)
      else if p \<in> set vis then find_cycle_kids h stack vis ps
      else case find_cycle_kids h (stack @ [p]) (p # vis) (waiting_parents (node_at h p)) of
             (Some r, v) \<Rightarrow> (Some r, v)
           | (None, v) \<Rightarrow> find_cycle_kids h stack v ps)"
  by pat_completeness auto

termination
proof -
  have mono: "set vis \<subseteq> set (snd (find_cycle_kids h stack vis ps))" if "find_cycle_kids_dom (h, stack, vis, ps)"
    for h :: "'a heap_scheme" and stack vis ps
    using that
  proof (induction rule: find_cycle_kids.pinduct)
    case (1 h stack vis)
    then show ?case by (simp add: find_cycle_kids.psimps)
  next
    case (2 h stack vis p ps)
    obtain r v where rv: "find_cycle_kids h (stack @ [p]) (p # vis) (waiting_parents (node_at h p)) = (r, v)"
      by fastforce
    show ?case
    proof (cases "hd stack = p \<or> p \<in> set vis")
      case True
      with 2 show ?thesis by (auto simp: find_cycle_kids.psimps)
    next
      case False
      with "2.IH"(2) rv have sub: "set vis \<subseteq> set v" by simp
      show ?thesis
      proof (cases r)
        case None
        with "2.IH"(3) [OF _ _ rv [symmetric] None] False
        have "set v \<subseteq> set (snd (find_cycle_kids h stack v ps))" by simp
        with sub have "set vis \<subseteq> set (snd (find_cycle_kids h stack v ps))" by (rule subset_trans)
        with False rv None 2(1) show ?thesis by (simp add: find_cycle_kids.psimps)
      next
        case (Some c)
        with False rv 2(1) sub show ?thesis by (simp add: find_cycle_kids.psimps)
      qed
    qed
  qed
  show ?thesis
  proof (relation "measures [\<lambda>(h, st, vis, ps). card ({n. valid h n} - set vis), \<lambda>(h, st, vis, ps). length ps]",
      goal_cases)
    case (3 h stack vis p ps)
    have fin: "finite {n. valid h n}" by (simp add: valid_def)
    show ?case
    proof (cases "valid h p")
      case True
      with 3 have "{n. valid h n} - set (p # vis) \<subset> {n. valid h n} - set vis" by auto
      with fin have "card ({n. valid h n} - set (p # vis)) < card ({n. valid h n} - set vis)"
        by (intro psubset_card_mono) auto
      then show ?thesis by simp
    next
      case False
      then have "{n. valid h n} - set (p # vis) = {n. valid h n} - set vis" by auto
      with False show ?thesis by (simp add: node_at_invalid Node_init_def)
    qed
  next
    case (4 h stack vis p ps x v)
    have "set (p # vis) \<subseteq> set (snd (find_cycle_kids h (stack @ [p]) (p # vis) (waiting_parents (node_at h p))))"
      using 4(5) by (rule mono)
    moreover have "v = snd (find_cycle_kids h (stack @ [p]) (p # vis) (waiting_parents (node_at h p)))"
      using 4(3) by (metis snd_conv)
    ultimately have "{n. valid h n} - set v \<subseteq> {n. valid h n} - set vis" by auto
    then have "card ({n. valid h n} - set v) \<le> card ({n. valid h n} - set vis)"
      by (rule card_mono [rotated]) (simp add: valid_def)
    then show ?case by (simp add: le_less)
  qed auto
qed

definition find_cycle :: "'a heap_scheme \<Rightarrow> nid \<Rightarrow> nid list option" where
  "find_cycle h n = fst (find_cycle_kids h [n] [n] (waiting_parents (node_at h n)))"

text \<open>\<open>cleanup\<close>: the exception it raises, if any.\<close>

definition cycle_line :: "hooks \<Rightarrow> taskmaster \<Rightarrow> nid \<Rightarrow> string" where
  "cycle_line H s n = (case find_cycle s n of
       Some c \<Rightarrow> ''  '' @ py_join '' -> '' (map (node_name H) c) @ [CHR 0x0A]
     | None \<Rightarrow> ''  Internal Error: no cycle found for node '' @ node_name H n @ '' ('' @ node_repr H n
         @ '') in state '' @ StateString (get_state s n) @ [CHR 0x0A])"

definition cleanup :: "hooks \<Rightarrow> taskmaster \<Rightarrow> exc option" where
  "cleanup H s =
     (if pending_children s = [] then None
      else if filter (\<lambda>n. find_cycle s n \<noteq> None \<or> get_state s n \<noteq> executed) (pending_children s) = [] then None
      else Some (Exc (UserError (''Found dependency cycle(s):'' @ [CHR 0x0A] @
             concat (map (cycle_line H s) (pending_children s))))))"

end
