(* ===== verification/Graph_Frame.thy ===== *)
theory Graph_Frame
  imports Taskmaster
begin

text \<open>
  What scanning, build information, executors and preparation leave alone. The taskmaster
  relies on five fields of a node (its state, the parents waiting for it, its reference count,
  the nodes waiting for it as a side effect, its side effects) and on its own fields, a walker
  on the kids a node has left to walk; the methods of theories \<open>Node\<close> and \<open>Executor\<close> it calls change none of them.
\<close>

definition task_view :: "node \<Rightarrow> node_state \<times> nid list \<times> int \<times> nid list \<times> nid list \<times> nid list option" where
  "task_view x = (state x, waiting_parents x, ref_count x, waiting_s_e x, side_effects x, wkids x)"

definition same_tasks :: "'a heap_scheme \<Rightarrow> 'a heap_scheme \<Rightarrow> bool" where
  "same_tasks h h' \<longleftrightarrow> heap.more h' = heap.more h \<and> length (nodes h') = length (nodes h) \<and>
     (\<forall>n. task_view (node_at h' n) = task_view (node_at h n))"

lemma same_tasks_refl [simp]: "same_tasks h h"
  by (simp add: same_tasks_def)

lemma same_tasks_trans: "same_tasks h h' \<Longrightarrow> same_tasks h' h'' \<Longrightarrow> same_tasks h h''"
  by (simp add: same_tasks_def)

lemma same_tasks_upd_node:
  "(\<And>x. task_view (f x) = task_view x) \<Longrightarrow> same_tasks h (upd_node n f h)"
  by (simp add: same_tasks_def upd_node_keeps) (simp add: upd_node_def)

lemma same_tasks_upd_exec: "same_tasks h (upd_exec e f h)"
  by (simp add: same_tasks_def) (simp add: upd_exec_def)

lemma same_tasks_execs: "same_tasks h (h\<lparr>execs := es\<rparr>)"
  by (simp add: same_tasks_def node_at_def)

lemma same_tasks_fold:
  "(\<And>x h. same_tasks h (f x h)) \<Longrightarrow> same_tasks h (fold f xs h)"
  by (induction xs arbitrary: h) (auto intro: same_tasks_trans)

text \<open>Unfolding an operation leaves compositions of updates that keep the view.\<close>

lemmas same_tasks_simps = same_tasks_upd_node same_tasks_upd_exec same_tasks_execs task_view_def

lemma same_tasks_view:
  assumes "same_tasks h h'"
  shows "length (nodes h') = length (nodes h)" "valid h' n = valid h n"
    "state (node_at h' n) = state (node_at h n)"
    "waiting_parents (node_at h' n) = waiting_parents (node_at h n)"
    "ref_count (node_at h' n) = ref_count (node_at h n)"
    "waiting_s_e (node_at h' n) = waiting_s_e (node_at h n)"
    "side_effects (node_at h' n) = side_effects (node_at h n)"
    "wkids (node_at h' n) = wkids (node_at h n)"
  using assms by (auto simp: same_tasks_def task_view_def valid_def)

text \<open>The taskmaster's own fields are the extension part of the record.\<close>

lemma more_eq_fields:
  assumes "heap.more s = heap.more (s' :: taskmaster)"
  shows "candidates s = candidates s'" "top_targets_left s = top_targets_left s'"
    "original_top s = original_top s'" "stopped s = stopped s'" "order s = order s'"
    "pending_children s = pending_children s'" "ready_exc s = ready_exc s'"
    "current_top s = current_top s'" "message s = message s'"
  using assms by (cases s; cases s'; simp)+

lemma same_tasks_more: "same_tasks s s' \<Longrightarrow> heap.more s' = heap.more s"
  by (simp add: same_tasks_def)

lemmas same_tasks_fields = same_tasks_more [THEN more_eq_fields(1)] same_tasks_more [THEN more_eq_fields(2)]
  same_tasks_more [THEN more_eq_fields(3)] same_tasks_more [THEN more_eq_fields(4)]
  same_tasks_more [THEN more_eq_fields(5)] same_tasks_more [THEN more_eq_fields(6)]
  same_tasks_more [THEN more_eq_fields(7)] same_tasks_more [THEN more_eq_fields(8)]

lemma same_tasks_executor_cleanup: "same_tasks h (executor_cleanup n h)"
  by (simp add: executor_cleanup_def executor_cleanup_at_def same_tasks_upd_exec split: option.split)

lemma same_tasks_children_reset: "same_tasks h (children_reset n h)"
  unfolding children_reset_def clear_memoized_values_def
  by (rule same_tasks_trans [OF same_tasks_upd_node same_tasks_executor_cleanup]) (simp add: task_view_def)

lemma same_tasks_add_to_implicit: "same_tasks h (add_to_implicit n ds h)"
proof -
  have *: "same_tasks h (children_reset n (upd_node n (\<lambda>x. x\<lparr>implicit := Some l, implicit_set := s\<rparr>) h))"
    for h :: "'a heap_scheme" and l s
    by (rule same_tasks_trans [OF same_tasks_upd_node same_tasks_children_reset]) (simp add: task_view_def)
  have **: "same_tasks h (upd_node n (\<lambda>x. x\<lparr>implicit := Some l, implicit_set := s\<rparr>) h)"
    for h :: "'a heap_scheme" and l s
    by (rule same_tasks_upd_node) (simp add: task_view_def)
  show ?thesis
    unfolding add_to_implicit_def Let_def
    by (auto split: prod.splits intro: same_tasks_trans [OF * *] same_tasks_trans [OF * **] * **)
qed

lemma same_tasks_get_executor: "same_tasks h (fst (get_executor n h))"
  by (auto simp: get_executor_def Let_def same_tasks_simps split: option.split
      intro!: same_tasks_trans [OF same_tasks_execs same_tasks_upd_node])

lemma same_tasks_exec_scan: "same_tasks h (fst (exec_scan H e sc ns h))"
  by (auto simp: exec_scan_def split: sum.split intro: same_tasks_fold same_tasks_add_to_implicit)

lemma same_tasks_scan_executor: "same_tasks h (fst (scan_executor H b e h))"
proof -
  have s: "same_tasks h (fst (scan_sources H e sc h))" for sc
    by (auto simp: scan_sources_def same_tasks_exec_scan split: list.split)
  have t: "same_tasks h (fst (scan_targets H e sc h))" for sc and h :: "'a heap_scheme"
    by (simp add: scan_targets_def same_tasks_exec_scan)
  show ?thesis
    using s [of "b_source_scanner b"]
    by (auto simp: scan_executor_def split: prod.splits sum.splits option.splits
        intro: same_tasks_trans [OF _ t])
qed

lemma same_tasks_clear_implicit: "same_tasks h (clear_implicit n h)"
  unfolding clear_implicit_def by (rule same_tasks_upd_node) (simp add: task_view_def)

lemma same_tasks_scan_stored: "same_tasks h (fst (scan_stored H n b e imp h))"
proof -
  let ?h = "fold (\<lambda>t. add_to_implicit t (filter (valid h) imp)) (get_all_targets h e) h"
  have f: "same_tasks h ?h" by (intro same_tasks_fold same_tasks_add_to_implicit)
  have "same_tasks h (fst (scan_executor H b e (clear_implicit n ?h)))"
    by (rule same_tasks_trans [OF same_tasks_trans [OF f same_tasks_clear_implicit] same_tasks_scan_executor])
  with f show ?thesis
    by (simp add: scan_stored_def Let_def split: sum.split)
qed

lemma same_tasks_scan: "same_tasks h (fst (scan H n h))"
proof -
  let ?h1 = "children_reset n (clear_implicit n h)"
  have r: "same_tasks h ?h1"
    by (rule same_tasks_trans [OF same_tasks_clear_implicit same_tasks_children_reset])
  obtain h2 e where he: "get_executor n ?h1 = (h2, e)" by fastforce
  have "same_tasks h h2"
    using same_tasks_trans [OF r same_tasks_get_executor, of n] by (simp add: he)
  then have "same_tasks h (fst (scan_executor H b e h2))"
    and "same_tasks h (fst (scan_stored H n b e imp h2))" for b imp
    by (blast intro: same_tasks_trans same_tasks_scan_executor same_tasks_scan_stored)+
  with r he show ?thesis by (simp add: scan_def Let_def split: option.split)
qed

lemma same_tasks_children_get: "same_tasks h (fst (children_get n h))"
  by (auto simp: children_get_def Let_def same_tasks_simps split: option.split)

lemma same_tasks_children: "same_tasks h (fst (children H n h))"
proof -
  obtain h1 r where s: "scan H n h = (h1, r)" by fastforce
  have "same_tasks h h1" using same_tasks_scan [of h H n] by (simp add: s)
  then have "same_tasks h (fst (children_get n h1))"
    by (rule same_tasks_trans [OF _ same_tasks_children_get])
  with \<open>same_tasks h h1\<close> show ?thesis
    by (auto simp: children_def s split: sum.split prod.split)
qed

lemma same_tasks_children_of_all: "same_tasks h (fst (children_of_all H ts u h))"
proof (induction H ts u h rule: children_of_all.induct)
  case (2 H t ts u h)
  obtain h1 r where c: "children H t h = (h1, r)" by fastforce
  have "same_tasks h h1" using same_tasks_children [of h H t] by (simp add: c)
  with c "2.IH" show ?case by (cases r) (auto intro: same_tasks_trans)
qed simp

lemma same_tasks_get_all_children: "same_tasks h (fst (get_all_children H e h))"
proof -
  obtain h1 r where c: "children_of_all H (get_all_targets h e) (UniqueList_init []) h = (h1, r)"
    by fastforce
  have "same_tasks h h1" using same_tasks_children_of_all by (metis c fst_conv)
  with c show ?thesis by (simp add: get_all_children_def split: sum.split)
qed

lemma same_tasks_cached_changes: "same_tasks h (fst (cached_changes H e h))"
  by (auto simp: cached_changes_def same_tasks_upd_exec split: option.split sum.split)

lemma same_tasks_get_lvar: "same_tasks h (fst (get_lvar H e k h))"
proof -
  obtain h' r where "cached_changes H e h = (h', r)" by fastforce
  with same_tasks_cached_changes [of h H e] show ?thesis by (simp add: get_lvar_def)
qed

lemma same_tasks_get_action_targets: "same_tasks h (fst (get_action_targets H e h))"
  by (simp add: get_action_targets_def Let_def same_tasks_get_lvar split: list.split sum.split)

lemma same_tasks_get_action_side_effects: "same_tasks h (fst (get_action_side_effects H e h))"
  using same_tasks_get_action_targets [of h H e]
  by (auto simp: get_action_side_effects_def split: prod.splits)

lemma same_tasks_get_contents: "same_tasks h (fst (get_contents H e h))"
  by (simp add: get_contents_def Let_def same_tasks_upd_exec split: option.split)

lemma same_tasks_get_unignored_sources: "same_tasks h (fst (get_unignored_sources e n ign h))"
  by (simp add: get_unignored_sources_def Let_def same_tasks_upd_exec split: option.split)

lemma same_tasks_get_binfo: "same_tasks h (fst (get_binfo H n h))"
proof (cases "binfo (node_at h n)")
  case None
  obtain h1 e where e: "get_executor n h = (h1, e)" by fastforce
  obtain h2 sig where c: "binfo_actsig H n e h1 = (h2, sig)" by fastforce
  obtain h3 srcs where u: "binfo_sources n e h2 = (h3, srcs)" by fastforce
  have 1: "same_tasks h h1" using same_tasks_get_executor [of h n] by (simp add: e)
  have 2: "same_tasks h1 h2" using same_tasks_get_contents [of h1 H e] c
    by (auto simp: binfo_actsig_def split: if_splits prod.splits)
  have 3: "same_tasks h2 h3" using same_tasks_get_unignored_sources [of h2 e n "ignore (node_at h2 n)"] u
    by (auto simp: binfo_sources_def Let_def split: if_splits)
  have 4: "same_tasks h3 (upd_node n (binfo_update (\<lambda>_. b)) h3)" for b
    by (rule same_tasks_upd_node) (simp add: task_view_def)
  from same_tasks_trans [OF same_tasks_trans [OF 1 2] same_tasks_trans [OF 3 4]]
  show ?thesis by (simp add: get_binfo_def None e c u Let_def)
qed (simp add: get_binfo_def)

lemma same_tasks_node_prepare: "same_tasks h (fst (node_prepare H n h))"
proof -
  obtain h1 b where b: "get_binfo H n h = (h1, b)" by fastforce
  have "same_tasks h h1" using same_tasks_get_binfo [of h H n] by (simp add: b)
  then have "same_tasks h (upd_node n (binfo_update (\<lambda>_. Some b)) h1)"
    by (rule same_tasks_trans [OF _ same_tasks_upd_node]) (simp add: task_view_def)
  with b show ?thesis by (simp add: node_prepare_def split: option.split)
qed

lemma same_tasks_prepare_nodes: "same_tasks s (fst (prepare_nodes H ns s))"
proof (induction H ns s rule: prepare_nodes.induct)
  case (2 H n ns s)
  obtain s1 r where p: "node_prepare H n s = (s1, r)" by fastforce
  have "same_tasks s s1" using same_tasks_node_prepare [of s H n] by (simp add: p)
  with p "2.IH" show ?case by (cases r) (auto intro: same_tasks_trans)
qed simp

lemma same_tasks_prepare_targets: "same_tasks s (fst (prepare_targets H ts s))"
proof (induction H ts s rule: prepare_targets.induct)
  case (2 H t ts s)
  obtain s1 r where p: "prepare_nodes H (t # side_effects (node_at s t)) s = (s1, r)" by fastforce
  have "same_tasks s s1" using same_tasks_prepare_nodes by (metis p fst_conv)
  with p "2.IH" show ?case
    by (cases r) (auto simp del: prepare_nodes.simps intro: same_tasks_trans)
qed simp

lemma same_tasks_build: "same_tasks h (fst (build H n h))"
  using same_tasks_get_executor [of h n] by (cases "get_executor n h") (simp add: build_def)

lemma same_tasks_clear: "same_tasks h (clear n h)"
  unfolding clear_def clear_memoized_values_def del_binfo_def
  by (intro same_tasks_trans [OF _ same_tasks_executor_cleanup]
      same_tasks_trans [OF _ same_tasks_upd_node] same_tasks_upd_node) (simp_all add: task_view_def)

lemma same_tasks_built: "same_tasks h (built H n h)"
  unfolding built_def Let_def
  by (intro same_tasks_trans [OF _ same_tasks_upd_node] same_tasks_trans [OF _ same_tasks_clear]
      same_tasks_fold same_tasks_upd_node) (simp_all add: task_view_def)

lemma same_tasks_visited: "same_tasks h (visited H n h)"
  by (auto simp: visited_def same_tasks_simps)

lemmas same_tasks_ops = same_tasks_get_executor same_tasks_get_all_children same_tasks_get_action_targets
  same_tasks_get_action_side_effects same_tasks_prepare_targets same_tasks_build same_tasks_built
  same_tasks_visited

end
