(* ===== verification/Deps.thy ===== *)
theory Deps
  imports Graph_Frame
begin

text \<open>
  The dependency graph seen by the walk. \<open>deps_in R H h\<close>: every edge the engine can follow from
  a node (its sources, explicit and implicit dependencies, prerequisites and memoized children,
  and what scanning its executor may find) lies in the relation \<open>R\<close>. With \<open>R\<close> all pairs into
  the heap this says that the heap has no dangling reference; with \<open>R\<close> acyclic it says that the
  dependency graph is. Scanning and executors keep it.
\<close>

definition node_deps :: "node \<Rightarrow> nid set" where
  "node_deps x = set (sources x) \<union> set (depends x) \<union> set (implicit_list x)
     \<union> set (ul_items (prerequisites x)) \<union> (case memo_children x of None \<Rightarrow> {} | Some l \<Rightarrow> set l)"

text \<open>The dependencies given in the build description (not those found by scanning) that count.\<close>

definition explicit_deps :: "node \<Rightarrow> nid list" where
  "explicit_deps x = filter (\<lambda>i. i \<notin> ignore_set x) (sources x @ depends x)"

definition memo_ok :: "node \<Rightarrow> bool" where
  "memo_ok x \<longleftrightarrow> (\<forall>l. memo_children x = Some l \<longrightarrow> set (explicit_deps x) \<subseteq> set l)"

definition ex_targets :: "executor \<Rightarrow> nid list" where
  "ex_targets x = concat (map fst (batches x))"

definition ex_sources :: "executor \<Rightarrow> nid list" where
  "ex_sources x = concat (map snd (batches x))"

text \<open>What scanning the nodes of an executor, its actions and the stored information may find.\<close>

definition found_ex :: "hooks \<Rightarrow> 'a heap_scheme \<Rightarrow> executor \<Rightarrow> nid set" where
  "found_ex H h x = {d. valid h d \<and>
     ((\<exists>n \<in> set (ex_sources x) \<union> set (ex_targets x). \<exists>s l. get_implicit_deps H h n (Some s) = Inr l \<and> d \<in> set l)
      \<or> (\<exists>a \<in> set (get_action_list x). d \<in> set (action_implicit_deps H a (ex_targets x) (ex_sources x)))
      \<or> (\<exists>n l. (n \<in> set (ex_targets x)) \<and> stored_implicit H n = Some l \<and> d \<in> set l))}"

text \<open>
  A relation that says something of the targets of an executor says it of an executor with one
  target; executors with several targets are covered by relations that relate them to every node.
\<close>

definition targets_ok :: "(nid \<times> nid) set \<Rightarrow> 'a heap_scheme \<Rightarrow> executor \<Rightarrow> bool" where
  "targets_ok R h x \<longleftrightarrow> (\<exists>t. ex_targets x = [t]) \<or> (\<forall>t \<in> set (ex_targets x). \<forall>m. valid h m \<longrightarrow> (t, m) \<in> R)"

definition deps_in :: "(nid \<times> nid) set \<Rightarrow> hooks \<Rightarrow> 'a heap_scheme \<Rightarrow> bool" where
  "deps_in R H h \<longleftrightarrow> (\<forall>n. node_deps (node_at h n) \<subseteq> R `` {n} \<and> memo_ok (node_at h n))
     \<and> (\<forall>x \<in> set (execs h). targets_ok R h x \<and> (\<not> is_null x \<longrightarrow> (\<forall>t \<in> set (ex_targets x). found_ex H h x \<subseteq> R `` {t})))
     \<and> (\<forall>n b. node_executor (node_at h n) = None \<longrightarrow> node_builder (node_at h n) = Some b \<longrightarrow>
          found_ex H h (Executor_init [b_action b] [n] (sources (node_at h n))) \<subseteq> R `` {n})"

text \<open>
  The executor a node has is one of the heap, has the node among its targets, and is a real one
  if the node has a builder.
\<close>

definition execs_ok :: "'a heap_scheme \<Rightarrow> bool" where
  "execs_ok h \<longleftrightarrow> (\<forall>n e. node_executor (node_at h n) = Some e \<longrightarrow>
     e < length (execs h) \<and> n \<in> set (get_all_targets h e)
     \<and> (node_builder (node_at h n) \<noteq> None \<longrightarrow> \<not> is_null (exec_at h e)))"

definition graph_inv :: "(nid \<times> nid) set \<Rightarrow> hooks \<Rightarrow> 'a heap_scheme \<Rightarrow> bool" where
  "graph_inv R H h \<longleftrightarrow> deps_in R H h \<and> execs_ok h"

section \<open>Lookups\<close>

lemma node_deps_Node_init [simp]: "node_deps Node_init = {}"
  by (simp add: node_deps_def Node_init_def implicit_list_def UniqueList_init_def ul_items_def make_unique_def
      uniquer_hashables_def)

lemma implicit_deps_loop_cong:
  fixes h :: "'a heap_scheme" and h' :: "'b heap_scheme"
  assumes "length (nodes h') = length (nodes h)"
  shows "implicit_deps_loop H h' sc ns seen deps = implicit_deps_loop H h sc ns seen deps"
  using assms
proof (induction H h sc ns seen deps rule: implicit_deps_loop.induct)
  case (2 H h sc n ns seen deps)
  have v: "valid h' = valid h" using "2.prems" by (simp add: valid_def fun_eq_iff)
  show ?case
  proof (cases "found_includes H n sc")
    case (Inr inc)
    with "2.IH" [OF Inr refl] "2.prems" v show ?thesis by (simp add: Let_def)
  qed simp
qed simp

lemma found_ex_cong:
  fixes h :: "'a heap_scheme" and h' :: "'b heap_scheme"
  assumes "length (nodes h') = length (nodes h)"
  shows "found_ex H h' x = found_ex H h x"
proof -
  have "get_implicit_deps H h' n sc = get_implicit_deps H h n sc" for n sc
    using implicit_deps_loop_cong [OF assms] by (simp add: get_implicit_deps_def del: implicit_deps_loop.simps split: option.split)
  with assms show ?thesis by (simp add: found_ex_def valid_def)
qed

lemma implicit_deps_loop_valid:
  "implicit_deps_loop H h sc ns seen deps = Inr l \<Longrightarrow> \<forall>d \<in> set deps. valid h d \<Longrightarrow> \<forall>d \<in> set l. valid h d"
proof (induction H h sc ns seen deps rule: implicit_deps_loop.induct)
  case (2 H h sc n ns seen deps)
  obtain inc where i: "found_includes H n sc = Inr inc"
    using "2.prems"(1) by (cases "found_includes H n sc") auto
  let ?d = "filter (\<lambda>x. x \<notin> set seen \<and> valid h x) inc"
  show ?case
  proof (cases "?d = []")
    case True
    then have "implicit_deps_loop H h sc ns seen deps = Inr l"
      using "2.prems"(1) i by (simp add: Let_def)
    with "2.IH"(2) [OF i refl] True "2.prems"(2) show ?thesis by blast
  next
    case False
    then have "implicit_deps_loop H h sc (ns @ recurse_nodes H sc ?d) (?d @ seen) (deps @ ?d) = Inr l"
      using "2.prems"(1) i by (simp add: Let_def)
    moreover have "\<forall>d \<in> set (deps @ ?d). valid h d" using "2.prems"(2) by auto
    ultimately show ?thesis using "2.IH"(1) [OF i refl False] by blast
  qed
qed simp

lemma get_implicit_deps_valid: "get_implicit_deps H h n sc = Inr l \<Longrightarrow> d \<in> set l \<Longrightarrow> valid h d"
  by (cases sc) (auto simp: get_implicit_deps_def simp del: implicit_deps_loop.simps dest!: implicit_deps_loop_valid)

text \<open>Every heap without dangling references satisfies \<open>deps_in\<close> for the relation of all edges into it.\<close>

lemma deps_in_valid:
  "deps_in (UNIV \<times> {m. valid h m}) H h \<longleftrightarrow> (\<forall>n. memo_ok (node_at h n) \<and> (\<forall>m \<in> node_deps (node_at h n). valid h m))"
  by (auto simp: deps_in_def found_ex_def targets_ok_def)

lemma get_all_targets_ex: "set (get_all_targets h e) \<subseteq> set (ex_targets (exec_at h e))"
  by (cases "batches (exec_at h e)") (auto simp: get_all_targets_def ex_targets_def Let_def)

lemma get_all_targets_real: "\<not> is_null (exec_at h e) \<Longrightarrow> get_all_targets h e = ex_targets (exec_at h e)"
  by (simp add: get_all_targets_def ex_targets_def Let_def)

lemma get_all_sources_real: "\<not> is_null (exec_at h e) \<Longrightarrow> get_all_sources h e = ex_sources (exec_at h e)"
  by (simp add: get_all_sources_def ex_sources_def Let_def)

lemma real_exec_in: "\<not> is_null (exec_at h e) \<Longrightarrow> exec_at h e \<in> set (execs h)"
  by (auto simp: exec_at_def Null_init_def split: if_splits)

lemma deps_inD:
  assumes "deps_in R H h"
  shows "d \<in> node_deps (node_at h n) \<Longrightarrow> (n, d) \<in> R"
    and "\<not> is_null (exec_at h e) \<Longrightarrow> t \<in> set (get_all_targets h e) \<Longrightarrow> d \<in> found_ex H h (exec_at h e) \<Longrightarrow> (t, d) \<in> R"
proof -
  show "d \<in> node_deps (node_at h n) \<Longrightarrow> (n, d) \<in> R" using assms by (auto simp: deps_in_def)
  assume e: "\<not> is_null (exec_at h e)" and t: "t \<in> set (get_all_targets h e)" and d: "d \<in> found_ex H h (exec_at h e)"
  from e have "exec_at h e \<in> set (execs h)" by (rule real_exec_in)
  moreover have "t \<in> set (ex_targets (exec_at h e))" using t get_all_targets_ex by blast
  ultimately have "found_ex H h (exec_at h e) \<subseteq> R `` {t}"
    using assms e unfolding deps_in_def by blast
  with d show "(t, d) \<in> R" by blast
qed

section \<open>Updates that keep the graph\<close>

text \<open>
  The part of an executor that fixes the graph. The memos may change. \<open>graph_le\<close>: no node gains
  a dependency and nodes and executors keep what scanning starts from.
\<close>

definition ex_core :: "executor \<Rightarrow> bool \<times> action list \<times> (nid list \<times> nid list) list" where
  "ex_core x = (is_null x, get_action_list x, batches x)"

definition node_core :: "node \<Rightarrow> eid option \<times> builder option \<times> nid list \<times> nid list" where
  "node_core x = (node_executor x, node_builder x, sources x, explicit_deps x)"

definition memo_le :: "node \<Rightarrow> node \<Rightarrow> bool" where
  "memo_le x' x \<longleftrightarrow> memo_children x' = None \<or> memo_children x' = memo_children x"

definition graph_le :: "'a heap_scheme \<Rightarrow> 'b heap_scheme \<Rightarrow> bool" where
  "graph_le h' h \<longleftrightarrow> length (nodes h') = length (nodes h)
     \<and> (\<forall>n. node_deps (node_at h' n) \<subseteq> node_deps (node_at h n) \<and> node_core (node_at h' n) = node_core (node_at h n)
          \<and> memo_le (node_at h' n) (node_at h n))
     \<and> map ex_core (execs h') = map ex_core (execs h)"

lemma memo_le_refl [simp]: "memo_le x x"
  by (simp add: memo_le_def)

lemma memo_ok_le: "memo_le x' x \<Longrightarrow> node_core x' = node_core x \<Longrightarrow> memo_ok x \<Longrightarrow> memo_ok x'"
  by (auto simp: memo_ok_def memo_le_def node_core_def)

lemma found_ex_core: "ex_core x = ex_core y \<Longrightarrow> found_ex H h x = found_ex H h y"
  by (simp add: found_ex_def ex_core_def ex_targets_def ex_sources_def)

lemma graph_le_refl [simp]: "graph_le h h"
  by (simp add: graph_le_def memo_le_def)

lemma graph_le_trans: "graph_le h'' h' \<Longrightarrow> graph_le h' h \<Longrightarrow> graph_le h'' h"
  unfolding graph_le_def memo_le_def by (metis (no_types, lifting) order_trans)

lemma deps_in_graph_le:
  assumes "graph_le h' h" "deps_in R H h"
  shows "deps_in R H h'"
proof -
  have l: "length (nodes h') = length (nodes h)" and c: "map ex_core (execs h') = map ex_core (execs h)"
    and n: "\<And>n. node_deps (node_at h' n) \<subseteq> node_deps (node_at h n)"
    and k: "\<And>n. node_core (node_at h' n) = node_core (node_at h n)"
    and ml: "\<And>n. memo_le (node_at h' n) (node_at h n)"
    using assms(1) by (auto simp: graph_le_def)
  have v: "valid h' m = valid h m" for m using l by (simp add: valid_def)
  have "\<exists>y \<in> set (execs h). is_null y = is_null x \<and> ex_targets y = ex_targets x \<and> found_ex H h' x = found_ex H h y"
    if x: "x \<in> set (execs h')" for x
  proof -
    have "ex_core x \<in> set (map ex_core (execs h'))" using x by simp
    then obtain y where y: "y \<in> set (execs h)" "ex_core y = ex_core x" unfolding c by auto
    from y(2) found_ex_core [OF y(2), of H h] found_ex_cong [OF l, of H x]
    have "is_null y = is_null x \<and> ex_targets y = ex_targets x \<and> found_ex H h' x = found_ex H h y"
      by (simp add: ex_core_def ex_targets_def)
    with y(1) show ?thesis by blast
  qed
  then have x: "\<forall>x \<in> set (execs h'). targets_ok R h' x \<and>
      (\<not> is_null x \<longrightarrow> (\<forall>t \<in> set (ex_targets x). found_ex H h' x \<subseteq> R `` {t}))"
    using assms(2) unfolding deps_in_def targets_ok_def v by metis
  have "node_executor (node_at h' n) = node_executor (node_at h n)" "node_builder (node_at h' n) = node_builder (node_at h n)"
    "sources (node_at h' n) = sources (node_at h n)" for n
    using k [of n] by (simp_all add: node_core_def)
  moreover have "\<forall>n. node_deps (node_at h' n) \<subseteq> R `` {n} \<and> memo_ok (node_at h' n)"
    using assms(2) n memo_ok_le [OF ml k] unfolding deps_in_def by blast
  ultimately show ?thesis
    using x assms(2) unfolding deps_in_def found_ex_cong [OF l] by simp
qed

lemma graph_le_upd_node:
  "(\<And>x. node_deps (f x) \<subseteq> node_deps x) \<Longrightarrow> (\<And>x. node_core (f x) = node_core x) \<Longrightarrow> (\<And>x. memo_le (f x) x) \<Longrightarrow>
     graph_le (upd_node n f h) h"
  by (auto simp: graph_le_def node_at_upd_node memo_le_def)

lemma graph_le_upd_exec: "(\<And>x. ex_core (f x) = ex_core x) \<Longrightarrow> graph_le (upd_exec e f h) h"
  by (simp add: graph_le_def upd_exec_def map_update node_at_def list_update_same_conv memo_le_def)

lemma graph_le_fold: "(\<And>x h. x \<in> set xs \<Longrightarrow> graph_le (f x h) h) \<Longrightarrow> graph_le (fold f xs h) h"
proof (induction xs arbitrary: h)
  case (Cons x xs)
  from Cons.IH [of "f x h"] Cons.prems have "graph_le (fold f xs (f x h)) (f x h)" by simp
  with Cons.prems [of x h] show ?case by (auto intro: graph_le_trans)
qed simp

lemmas graph_le_simps = node_deps_def node_core_def ex_core_def get_action_list_def explicit_deps_def memo_le_def

section \<open>What the engine does to the graph\<close>

lemma graph_le_children_reset: "graph_le (children_reset n h) h"
proof -
  have "graph_le (clear_memoized_values n h) h"
    unfolding clear_memoized_values_def by (rule graph_le_upd_node) (auto simp: graph_le_simps implicit_list_def)
  moreover have "graph_le (executor_cleanup n h') h'" for h' :: "'a heap_scheme"
    by (auto simp: executor_cleanup_def executor_cleanup_at_def graph_le_simps intro!: graph_le_upd_exec split: option.split)
  ultimately show ?thesis unfolding children_reset_def by (metis graph_le_trans)
qed

lemma graph_le_clear_implicit: "graph_le (clear_implicit n h) h"
  unfolding clear_implicit_def by (rule graph_le_upd_node) (auto simp: graph_le_simps implicit_list_def)

lemma set_add_child: "set (fst (fst (add_child ds cs))) \<subseteq> set (fst cs) \<union> set ds"
  by (induction ds cs rule: add_child.induct) (auto split: if_splits)

text \<open>Adding found dependencies \<open>ds\<close> to a node.\<close>

lemma deps_in_node: "deps_in R H h \<Longrightarrow> node_deps (node_at h n) \<subseteq> R `` {n}"
  and deps_in_memo: "deps_in R H h \<Longrightarrow> memo_ok (node_at h n)"
  by (simp_all add: deps_in_def)

lemma deps_in_set_implicit:
  assumes "deps_in R H h" "set l \<subseteq> R `` {n}"
  shows "deps_in R H (upd_node n (\<lambda>x. x\<lparr>implicit := Some l, implicit_set := s\<rparr>) h)"
proof -
  let ?h = "upd_node n (\<lambda>x. x\<lparr>implicit := Some l, implicit_set := s\<rparr>) h"
  have "found_ex H ?h x = found_ex H h x" for x by (rule found_ex_cong) simp
  moreover have "node_executor (node_at ?h m) = node_executor (node_at h m)"
    "node_builder (node_at ?h m) = node_builder (node_at h m)" "sources (node_at ?h m) = sources (node_at h m)" for m
    by (simp_all add: node_at_upd_node)
  moreover have "node_deps (node_at ?h m) \<subseteq> R `` {m}" for m
  proof -
    have "node_deps (node_at ?h m) \<subseteq> node_deps (node_at h m) \<union> (if m = n then set l else {})"
      by (auto simp: node_at_upd_node node_deps_def implicit_list_def)
    moreover have "node_deps (node_at h m) \<subseteq> R `` {m}" by (rule deps_in_node [OF assms(1)])
    ultimately show ?thesis using assms(2) by (auto split: if_splits)
  qed
  moreover have "memo_ok (node_at ?h m)" for m
    using deps_in_memo [OF assms(1), of m] by (auto simp: node_at_upd_node memo_ok_def explicit_deps_def)
  ultimately show ?thesis using assms(1) by (simp add: deps_in_def targets_ok_def)
qed

lemma deps_in_children_reset: "deps_in R H h \<Longrightarrow> deps_in R H (children_reset n h)"
  by (rule deps_in_graph_le [OF graph_le_children_reset])

lemma deps_in_clear_implicit: "deps_in R H h \<Longrightarrow> deps_in R H (clear_implicit n h)"
  by (rule deps_in_graph_le [OF graph_le_clear_implicit])

lemma deps_in_add_to_implicit:
  assumes "deps_in R H h" "set ds \<subseteq> R `` {n}"
  shows "deps_in R H (add_to_implicit n ds h)"
proof -
  let ?h1 = "if implicit (node_at h n) = None
    then children_reset n (upd_node n (\<lambda>x. x\<lparr>implicit := Some [], implicit_set := {}\<rparr>) h) else h"
  have 1: "deps_in R H ?h1" using assms(1) by (simp add: deps_in_children_reset deps_in_set_implicit)
  obtain l s a where c: "add_child ds (the (implicit (node_at ?h1 n)), implicit_set (node_at ?h1 n)) = ((l, s), a)"
    by (metis surj_pair)
  show ?thesis
  proof (cases "valid h n")
    case True
    then have "implicit (node_at ?h1 n) \<noteq> None"
      by (auto simp: children_reset_def clear_memoized_values_def executor_cleanup_def executor_cleanup_at_def
          node_at_upd_node split: option.splits)
    then have "set (the (implicit (node_at ?h1 n))) \<subseteq> node_deps (node_at ?h1 n)"
      by (auto simp: node_deps_def implicit_list_def)
    with deps_in_node [OF 1, of n] have "set (the (implicit (node_at ?h1 n))) \<subseteq> R `` {n}" by (rule order_trans [rotated])
    with assms(2) set_add_child [of ds "(the (implicit (node_at ?h1 n)), implicit_set (node_at ?h1 n))"] c
    have "set l \<subseteq> R `` {n}" by auto
    with 1 have "deps_in R H (upd_node n (\<lambda>x. x\<lparr>implicit := Some l, implicit_set := s\<rparr>) ?h1)"
      by (rule deps_in_set_implicit)
    with c show ?thesis
      unfolding add_to_implicit_def Let_def by (simp add: deps_in_children_reset)
  next
    case False
    then have "upd_node n f h' = h'" if "length (nodes h') = length (nodes h)" for f and h' :: "'a heap_scheme"
      using that by (simp add: upd_node_def valid_def list_update_beyond)
    moreover have "length (nodes ?h1) = length (nodes h)"
      by (simp add: same_tasks_view(1) [OF same_tasks_children_reset])
    ultimately have "upd_node n f ?h1 = ?h1" for f by (simp only:)
    with 1 c show ?thesis
      unfolding add_to_implicit_def Let_def by (simp add: deps_in_children_reset)
  qed
qed

lemma node_at_execs [simp]: "node_at (h\<lparr>execs := es\<rparr>) m = node_at h m" "valid (h\<lparr>execs := es\<rparr>) m = valid h m"
  by (simp_all add: node_at_def valid_def)

lemma length_nodes_get_executor [simp]: "length (nodes (fst (get_executor n h))) = length (nodes h)"
  by (rule same_tasks_view(1) [OF same_tasks_get_executor])

lemma deps_in_get_executor:
  assumes "deps_in R H h"
  shows "deps_in R H (fst (get_executor n h))"
proof (cases "node_executor (node_at h n)")
  case None
  let ?x = "node_at h n"
  let ?ex = "case node_builder ?x of None \<Rightarrow> Null_init [n] | Some b \<Rightarrow> Executor_init [b_action b] [n] (sources ?x)"
  let ?h = "fst (get_executor n h)"
  have h: "?h = upd_node n (node_executor_update (\<lambda>_. Some (length (execs h)))) (h\<lparr>execs := execs h @ [?ex]\<rparr>)"
    using None by (simp add: get_executor_def Let_def)
  have f: "found_ex H ?h x = found_ex H h x" for x by (rule found_ex_cong) simp
  have d: "node_deps (node_at ?h m) = node_deps (node_at h m)"
    "node_builder (node_at ?h m) = node_builder (node_at h m)" "sources (node_at ?h m) = sources (node_at h m)"
    "memo_ok (node_at ?h m) = memo_ok (node_at h m)" for m
    by (simp_all add: h node_at_upd_node node_deps_def implicit_list_def memo_ok_def explicit_deps_def)
  have e: "node_executor (node_at ?h m) = None \<Longrightarrow> node_executor (node_at h m) = None" for m
    by (simp add: h node_at_upd_node split: if_splits)
  have new: "found_ex H h ?ex \<subseteq> R `` {t}" if "\<not> is_null ?ex" "t \<in> set (ex_targets ?ex)" for t
  proof -
    from that(1) obtain b where b: "node_builder ?x = Some b" by (auto simp: Null_init_def split: option.splits)
    with that(2) have "t = n" by (simp add: ex_targets_def Executor_init_def)
    with b None assms show ?thesis by (simp add: deps_in_def)
  qed
  have v: "valid ?h m = valid h m" for m by (simp add: h)
  have "targets_ok R h ?ex"
    by (auto simp: targets_ok_def ex_targets_def Executor_init_def Null_init_def split: option.split)
  then have "targets_ok R ?h x" if "x \<in> set (execs ?h)" for x
    using that assms by (auto simp: h deps_in_def targets_ok_def)
  moreover have "found_ex H ?h x \<subseteq> R `` {t}" if "x \<in> set (execs ?h)" "\<not> is_null x" "t \<in> set (ex_targets x)" for x t
  proof -
    from that(1) consider "x = ?ex" | "x \<in> set (execs h)" by (auto simp: h)
    then show ?thesis
    proof cases
      case 1
      with new that show ?thesis unfolding f by blast
    next
      case 2
      with assms that show ?thesis unfolding f deps_in_def by blast
    qed
  qed
  moreover have "\<forall>m b. node_executor (node_at ?h m) = None \<longrightarrow> node_builder (node_at ?h m) = Some b \<longrightarrow>
      found_ex H ?h (Executor_init [b_action b] [m] (sources (node_at ?h m))) \<subseteq> R `` {m}"
    using assms e unfolding f d deps_in_def by blast
  ultimately show ?thesis using deps_in_node [OF assms] deps_in_memo [OF assms] unfolding deps_in_def d by blast
qed (use assms in \<open>simp add: get_executor_def\<close>)

lemma deps_in_fold:
  "(\<And>x h. x \<in> set xs \<Longrightarrow> deps_in R H h \<Longrightarrow> deps_in R H (f x h)) \<Longrightarrow> deps_in R H h \<Longrightarrow> deps_in R H (fold f xs h)"
  by (induction xs arbitrary: h) simp_all

lemma scan_deps_found:
  "scan_deps H h sc ns deps = Inr l \<Longrightarrow> d \<in> set l \<Longrightarrow>
     d \<in> set deps \<or> (\<exists>n \<in> set ns. \<exists>s k. get_implicit_deps H h n (Some s) = Inr k \<and> d \<in> set k)"
proof (induction H h sc ns deps rule: scan_deps.induct)
  case (2 H h sc n ns deps)
  let ?s = "case sc of Some s \<Rightarrow> scanner_select H s n | None \<Rightarrow> Option.bind (env_scanner H n) (\<lambda>s. scanner_select H s n)"
  show ?case
  proof (cases ?s)
    case None
    with "2.IH"(1) [OF None] "2.prems" show ?thesis by auto
  next
    case (Some s)
    with "2.prems"(1) obtain k where k: "get_implicit_deps H h n (Some s) = Inr k"
      by (cases "get_implicit_deps H h n (Some s)") auto
    with "2.IH"(2) [OF Some k] "2.prems" Some show ?thesis by auto
  qed
qed simp

lemma deps_in_exec_scan:
  assumes "deps_in R H h" "\<not> is_null (exec_at h e)"
    "set ns \<subseteq> set (ex_sources (exec_at h e)) \<union> set (ex_targets (exec_at h e))"
  shows "deps_in R H (fst (exec_scan H e sc ns h))"
proof (cases "scan_deps H h sc ns []")
  case (Inr deps)
  let ?found = "deps @ exec_implicit_deps H h e"
  have "set ?found \<subseteq> found_ex H h (exec_at h e)"
    using scan_deps_found [OF Inr] assms(3) get_implicit_deps_valid [of H h]
    by (fastforce simp: found_ex_def exec_implicit_deps_def get_all_targets_real [OF assms(2)] get_all_sources_real [OF assms(2)])
  with assms have "set ?found \<subseteq> R `` {t}" if "t \<in> set (get_all_targets h e)" for t
    using that deps_inD(2) [OF assms(1,2) that] by blast
  with Inr assms(1) show ?thesis
    by (simp add: exec_scan_def) (rule deps_in_fold, rule deps_in_add_to_implicit, simp_all)
qed (use assms in \<open>simp add: exec_scan_def\<close>)

lemma exec_at_core:
  "map ex_core (execs h') = map ex_core (execs h) \<Longrightarrow> ex_core (exec_at h' e) = ex_core (exec_at h e)"
  by (metis exec_at_def length_map nth_map)

text \<open>Scanning keeps the cores of the executors.\<close>

definition same_execs :: "'a heap_scheme \<Rightarrow> 'a heap_scheme \<Rightarrow> bool" where
  "same_execs h h' \<longleftrightarrow> map ex_core (execs h') = map ex_core (execs h)
     \<and> (\<forall>n. node_core (node_at h' n) = node_core (node_at h n)
          \<and> prerequisites (node_at h' n) = prerequisites (node_at h n))"

lemma same_execs_refl [simp]: "same_execs h h"
  by (simp add: same_execs_def)

lemma same_execs_trans: "same_execs h h' \<Longrightarrow> same_execs h' h'' \<Longrightarrow> same_execs h h''"
  by (simp add: same_execs_def)

lemma same_execs_upd_node:
  "(\<And>x. node_core (f x) = node_core x \<and> prerequisites (f x) = prerequisites x) \<Longrightarrow> same_execs h (upd_node n f h)"
  by (auto simp: same_execs_def node_at_upd_node)

lemma same_execs_upd_exec: "(\<And>x. ex_core (f x) = ex_core x) \<Longrightarrow> same_execs h (upd_exec e f h)"
  by (simp add: same_execs_def upd_exec_def map_update node_at_def list_update_same_conv)

lemma same_execs_fold: "(\<And>x h. same_execs h (f x h)) \<Longrightarrow> same_execs h (fold f xs h)"
  by (induction xs arbitrary: h) (auto intro: same_execs_trans)

lemma same_execs_targets: "same_execs h h' \<Longrightarrow> get_all_targets h' e = get_all_targets h e"
  and same_execs_null: "same_execs h h' \<Longrightarrow> is_null (exec_at h' e) = is_null (exec_at h e)"
  and same_execs_prerequisites: "same_execs h h' \<Longrightarrow> get_all_prerequisites h' e = get_all_prerequisites h e"
  and same_execs_batches: "same_execs h h' \<Longrightarrow> batches (exec_at h' e) = batches (exec_at h e)"
proof -
  assume s: "same_execs h h'"
  then have c: "ex_core (exec_at h' e) = ex_core (exec_at h e)"
    unfolding same_execs_def by (intro exec_at_core) simp
  then show t: "get_all_targets h' e = get_all_targets h e" and "is_null (exec_at h' e) = is_null (exec_at h e)"
    and "batches (exec_at h' e) = batches (exec_at h e)"
    by (simp_all add: ex_core_def get_all_targets_def Let_def)
  with s show "get_all_prerequisites h' e = get_all_prerequisites h e"
    by (simp add: get_all_prerequisites_def same_execs_def)
qed

lemma same_execs_executor_cleanup: "same_execs h (executor_cleanup n h)"
  by (auto simp: executor_cleanup_def executor_cleanup_at_def graph_le_simps intro!: same_execs_upd_exec split: option.split)

lemma same_execs_children_reset: "same_execs h (children_reset n h)"
  unfolding children_reset_def clear_memoized_values_def
  by (rule same_execs_trans [OF same_execs_upd_node same_execs_executor_cleanup]) (simp add: node_core_def explicit_deps_def)

lemma same_execs_add_to_implicit: "same_execs h (add_to_implicit n ds h)"
proof -
  have 1: "same_execs h (upd_node n (\<lambda>x. x\<lparr>implicit := Some l, implicit_set := s\<rparr>) h)" for l s and h :: "'a heap_scheme"
    by (rule same_execs_upd_node) (simp add: node_core_def explicit_deps_def)
  have 2: "same_execs h (children_reset n (upd_node n (\<lambda>x. x\<lparr>implicit := Some l, implicit_set := s\<rparr>) h))"
    for l s and h :: "'a heap_scheme"
    by (rule same_execs_trans [OF 1 same_execs_children_reset])
  show ?thesis
    unfolding add_to_implicit_def Let_def
    by (auto split: prod.splits intro: same_execs_trans [OF 2 1] same_execs_trans [OF 2 2] 1 2)
qed

lemma same_execs_exec_scan: "same_execs h (fst (exec_scan H e sc ns h))"
  by (auto simp: exec_scan_def split: sum.split intro!: same_execs_fold same_execs_add_to_implicit)

lemma deps_in_scan_executor:
  assumes "deps_in R H h"
  shows "deps_in R H (fst (scan_executor H b e h))" and "same_execs h (fst (scan_executor H b e h))"
proof -
  have s: "deps_in R H (fst (scan_sources H e sc h)) \<and> same_execs h (fst (scan_sources H e sc h))"
    if "\<not> is_null (exec_at h e)" for sc
    using assms that
    by (auto simp: scan_sources_def get_all_sources_real split: list.split intro!: deps_in_exec_scan same_execs_exec_scan)
  have t: "deps_in R H (fst (scan_targets H e sc h)) \<and> same_execs h (fst (scan_targets H e sc h))"
    if "\<not> is_null (exec_at h e)" "deps_in R H h" for sc and h :: "'a heap_scheme"
    using that by (auto simp: scan_targets_def get_all_targets_real intro!: deps_in_exec_scan same_execs_exec_scan)
  obtain h1 r where h1: "scan_sources H e (b_source_scanner b) h = (h1, r)" by fastforce
  have "deps_in R H (fst (scan_executor H b e h)) \<and> same_execs h (fst (scan_executor H b e h))"
  proof (cases "is_null (exec_at h e)")
    case False
    with s [of "b_source_scanner b"] h1 have 1: "deps_in R H h1" "same_execs h h1" by auto
    with False have n: "\<not> is_null (exec_at h1 e)" by (simp add: same_execs_null)
    with 1 t [OF n] False h1 show ?thesis
      by (auto simp: scan_executor_def split: sum.splits option.splits intro: same_execs_trans)
  qed (use assms in \<open>simp add: scan_executor_def\<close>)
  then show "deps_in R H (fst (scan_executor H b e h))" "same_execs h (fst (scan_executor H b e h))" by auto
qed

lemma deps_in_scan_stored:
  assumes "deps_in R H h" "n \<in> set (get_all_targets h e)" "stored_implicit H n = Some imp"
    "\<not> is_null (exec_at h e)"
  shows "deps_in R H (fst (scan_stored H n b e imp h))" and "same_execs h (fst (scan_stored H n b e imp h))"
proof -
  let ?h1 = "fold (\<lambda>t. add_to_implicit t (filter (valid h) imp)) (get_all_targets h e) h"
  have "set (filter (valid h) imp) \<subseteq> found_ex H h (exec_at h e)"
    using assms(2,3) get_all_targets_ex [of h e] by (auto simp: found_ex_def)
  then have "set (filter (valid h) imp) \<subseteq> R `` {t}" if "t \<in> set (get_all_targets h e)" for t
    using deps_inD(2) [OF assms(1,4) that] by blast
  with assms(1) have 1: "deps_in R H ?h1"
    by (intro deps_in_fold deps_in_add_to_implicit) simp_all
  have 2: "same_execs h ?h1" by (intro same_execs_fold same_execs_add_to_implicit)
  from 1 have 3: "deps_in R H (clear_implicit n ?h1)" by (rule deps_in_clear_implicit)
  have 4: "same_execs h (clear_implicit n ?h1)"
    by (rule same_execs_trans [OF 2]) (simp add: clear_implicit_def same_execs_upd_node node_core_def explicit_deps_def)
  show "deps_in R H (fst (scan_stored H n b e imp h))"
    using 1 deps_in_scan_executor(1) [OF 3] by (simp add: scan_stored_def Let_def split: sum.split)
  show "same_execs h (fst (scan_stored H n b e imp h))"
    using 2 same_execs_trans [OF 4 deps_in_scan_executor(2) [OF 3]]
    by (simp add: scan_stored_def Let_def split: sum.split)
qed

section \<open>Scanning a node\<close>

text \<open>New executors may appear; those that exist keep their core.\<close>

definition execs_grow :: "'a heap_scheme \<Rightarrow> 'a heap_scheme \<Rightarrow> bool" where
  "execs_grow h h' \<longleftrightarrow> length (execs h) \<le> length (execs h')
     \<and> (\<forall>e < length (execs h). ex_core (exec_at h' e) = ex_core (exec_at h e))
     \<and> (\<forall>n. node_builder (node_at h' n) = node_builder (node_at h n) \<and> sources (node_at h' n) = sources (node_at h n)
          \<and> prerequisites (node_at h' n) = prerequisites (node_at h n)
          \<and> explicit_deps (node_at h' n) = explicit_deps (node_at h n)
          \<and> (\<forall>e. node_executor (node_at h n) = Some e \<longrightarrow> node_executor (node_at h' n) = Some e)
          \<and> (\<forall>e. node_executor (node_at h' n) = Some e \<longrightarrow> node_executor (node_at h n) = Some e
               \<or> e < length (execs h') \<and> get_all_targets h' e = [n]))"

lemma execs_grow_refl [simp]: "execs_grow h h"
  by (simp add: execs_grow_def)

lemma get_all_targets_core:
  "ex_core (exec_at h' e) = ex_core (exec_at h e) \<Longrightarrow> get_all_targets h' e = get_all_targets h e"
  by (simp add: ex_core_def get_all_targets_def Let_def)

lemma execs_grow_trans:
  assumes 1: "execs_grow h h'" and 2: "execs_grow h' h''" shows "execs_grow h h''"
proof -
  have l: "length (execs h) \<le> length (execs h')" "length (execs h') \<le> length (execs h'')"
    using 1 2 by (simp_all add: execs_grow_def)
  have "node_executor (node_at h n) = Some e \<or> e < length (execs h'') \<and> get_all_targets h'' e = [n]"
    if "node_executor (node_at h'' n) = Some e" for n e
  proof -
    from 2 that consider "node_executor (node_at h' n) = Some e" | "e < length (execs h'') \<and> get_all_targets h'' e = [n]"
      unfolding execs_grow_def by blast
    then show ?thesis
    proof cases
      case 1
      with \<open>execs_grow h h'\<close> consider "node_executor (node_at h n) = Some e"
        | "e < length (execs h')" "get_all_targets h' e = [n]"
        unfolding execs_grow_def by blast
      then show ?thesis
      proof cases
        case 2
        then have "get_all_targets h'' e = [n]"
          using get_all_targets_core [of h'' e h'] \<open>execs_grow h' h''\<close> by (simp add: execs_grow_def)
        with 2(1) l show ?thesis by simp
      qed simp
    qed simp
  qed
  with 1 2 l show ?thesis by (auto simp: execs_grow_def)
qed

lemma execs_grow_same: "same_execs h h' \<Longrightarrow> execs_grow h h'"
proof -
  assume s: "same_execs h h'"
  then have "ex_core (exec_at h' e) = ex_core (exec_at h e)" for e
    unfolding same_execs_def by (intro exec_at_core) simp
  moreover have "length (execs h') = length (execs h)"
    using s by (metis length_map same_execs_def)
  ultimately show ?thesis using s by (simp add: execs_grow_def same_execs_def node_core_def)
qed

lemma execs_grow_keeps:
  assumes "execs_grow h h'" "e < length (execs h)"
  shows "get_all_targets h' e = get_all_targets h e" and "is_null (exec_at h' e) = is_null (exec_at h e)"
    and "get_all_prerequisites h' e = get_all_prerequisites h e" and "get_all_sources h' e = get_all_sources h e"
proof -
  have c: "is_null (exec_at h' e) = is_null (exec_at h e)" "batches (exec_at h' e) = batches (exec_at h e)"
    using assms by (simp_all add: execs_grow_def ex_core_def)
  from c show t: "get_all_targets h' e = get_all_targets h e" by (simp add: get_all_targets_def Let_def)
  from c show "is_null (exec_at h' e) = is_null (exec_at h e)" by simp
  from c t assms(1) show "get_all_prerequisites h' e = get_all_prerequisites h e"
    and "get_all_sources h' e = get_all_sources h e"
    by (simp_all add: get_all_prerequisites_def get_all_sources_def execs_grow_def Let_def split: list.split)
qed

lemma execs_ok_same: "same_execs h h' \<Longrightarrow> execs_ok h \<Longrightarrow> execs_ok h'"
proof -
  assume s: "same_execs h h'" and ok: "execs_ok h"
  have "length (execs h') = length (execs h)" using s by (metis length_map same_execs_def)
  moreover have "node_executor (node_at h' n) = node_executor (node_at h n)"
    "node_builder (node_at h' n) = node_builder (node_at h n)" for n
    using s by (simp_all add: same_execs_def node_core_def)
  ultimately show ?thesis using ok by (simp add: execs_ok_def same_execs_targets [OF s] same_execs_null [OF s])
qed

lemma execs_grow_get_executor: "execs_grow h (fst (get_executor n h))"
proof (cases "node_executor (node_at h n)")
  case None
  then show ?thesis
    by (auto simp: get_executor_def Let_def execs_grow_def node_at_upd_node exec_at_def nth_append explicit_deps_def
        get_all_targets_def Executor_init_def Null_init_def split: option.split)
qed (simp add: get_executor_def)

lemma snd_get_executor:
  assumes "execs_ok h" "valid h n"
  shows "node_executor (node_at (fst (get_executor n h)) n) = Some (snd (get_executor n h))"
  using assms by (simp add: get_executor_def Let_def node_at_upd_node valid_def split: option.split)

lemma execs_ok_get_executor:
  assumes "execs_ok h"
  shows "execs_ok (fst (get_executor n h))"
proof (cases "node_executor (node_at h n)")
  case None
  let ?h = "fst (get_executor n h)"
  have g: "execs_grow h ?h" by (rule execs_grow_get_executor)
  show ?thesis
    unfolding execs_ok_def
  proof (intro allI impI)
    fix m e
    assume me: "node_executor (node_at ?h m) = Some e"
    show "e < length (execs ?h) \<and> m \<in> set (get_all_targets ?h e) \<and>
        (node_builder (node_at ?h m) \<noteq> None \<longrightarrow> \<not> is_null (exec_at ?h e))"
    proof (cases "node_executor (node_at h m) = Some e")
      case True
      with assms have "e < length (execs h)" "m \<in> set (get_all_targets h e)"
        "node_builder (node_at h m) \<noteq> None \<longrightarrow> \<not> is_null (exec_at h e)" by (auto simp: execs_ok_def)
      then show ?thesis
        using g execs_grow_keeps(1,2) [OF g] by (auto simp: execs_grow_def)
    next
      case False
      with me None have "m = n" "e = length (execs h)"
        by (auto simp: get_executor_def Let_def node_at_upd_node split: if_splits)
      with None show ?thesis
        by (auto simp: get_executor_def Let_def get_all_targets_def exec_at_def node_at_upd_node
            Executor_init_def Null_init_def split: option.split)
    qed
  qed
qed (use assms in \<open>simp add: get_executor_def\<close>)

lemma graph_inv_same: "graph_inv R H h \<Longrightarrow> deps_in R H h' \<Longrightarrow> same_execs h h' \<Longrightarrow> graph_inv R H h'"
  by (auto simp: graph_inv_def intro: execs_ok_same)

lemma graph_inv_get_executor: "graph_inv R H h \<Longrightarrow> graph_inv R H (fst (get_executor n h))"
  by (simp add: graph_inv_def deps_in_get_executor execs_ok_get_executor)

lemma get_executor_ok:
  assumes "execs_ok h" "valid h n" "get_executor n h = (h', e)"
  shows "e < length (execs h')" "n \<in> set (get_all_targets h' e)"
    "node_builder (node_at h n) \<noteq> None \<Longrightarrow> \<not> is_null (exec_at h' e)"
proof -
  have "node_executor (node_at h' n) = Some e" using snd_get_executor [OF assms(1,2)] assms(3) by simp
  moreover have "execs_ok h'" using execs_ok_get_executor [OF assms(1), of n] assms(3) by simp
  moreover have "node_builder (node_at h' n) = node_builder (node_at h n)"
    using execs_grow_get_executor [of h n] assms(3) by (simp add: execs_grow_def)
  ultimately show "e < length (execs h')" "n \<in> set (get_all_targets h' e)"
    "node_builder (node_at h n) \<noteq> None \<Longrightarrow> \<not> is_null (exec_at h' e)" by (auto simp: execs_ok_def)
qed

lemma graph_inv_scan:
  assumes "graph_inv R H h"
  shows "graph_inv R H (fst (scan H n h)) \<and> execs_grow h (fst (scan H n h))"
proof (cases "implicit (node_at h n)")
  case None
  let ?h1 = "children_reset n (clear_implicit n h)"
  have s1: "same_execs h ?h1"
    by (rule same_execs_trans [OF _ same_execs_children_reset])
      (simp add: clear_implicit_def same_execs_upd_node node_core_def explicit_deps_def)
  have g1: "graph_inv R H ?h1"
    using assms by (intro graph_inv_same [OF assms _ s1] deps_in_children_reset deps_in_clear_implicit)
      (simp add: graph_inv_def)
  show ?thesis
  proof (cases "node_builder (node_at ?h1 n)")
    case None
    with g1 s1 \<open>implicit (node_at h n) = None\<close> show ?thesis by (simp add: scan_def Let_def execs_grow_same)
  next
    case (Some b)
    obtain h2 e where h2: "get_executor n ?h1 = (h2, e)" by fastforce
    have v: "valid ?h1 n"
    proof (rule ccontr)
      assume "\<not> valid ?h1 n"
      with Some show False by (simp add: node_at_invalid Node_init_def)
    qed
    have g2: "graph_inv R H h2" using graph_inv_get_executor [OF g1, of n] h2 by simp
    have grow: "execs_grow h h2"
      using execs_grow_trans [OF execs_grow_same [OF s1] execs_grow_get_executor, of n] h2 by simp
    have ok: "n \<in> set (get_all_targets h2 e)" "\<not> is_null (exec_at h2 e)"
      using get_executor_ok [OF _ v h2] g1 Some by (auto simp: graph_inv_def)
    have d2: "deps_in R H h2" using g2 by (simp add: graph_inv_def)
    have *: "graph_inv R H h' \<and> execs_grow h h'" if "deps_in R H h'" "same_execs h2 h'" for h'
      using that graph_inv_same [OF g2] execs_grow_trans [OF grow execs_grow_same] by blast
    have exe: "graph_inv R H (fst (scan_executor H b e h2)) \<and> execs_grow h (fst (scan_executor H b e h2))"
      by (rule *) (rule deps_in_scan_executor [OF d2])+
    have sto: "graph_inv R H (fst (scan_stored H n b e imp h2)) \<and> execs_grow h (fst (scan_stored H n b e imp h2))"
      if "stored_implicit H n = Some imp" for imp
      by (rule *) (rule deps_in_scan_stored [OF d2 ok(1) that ok(2)])+
    from exe sto \<open>implicit (node_at h n) = None\<close> Some h2 show ?thesis
      by (auto simp: scan_def Let_def split: option.splits)
  qed
qed (use assms in \<open>simp add: scan_def\<close>)

lemma children_list_deps: "set (children_list x) \<subseteq> node_deps x" "set (explicit_deps x) \<subseteq> set (children_list x)"
  by (auto simp: children_list_def all_children_list_def node_deps_def explicit_deps_def)

lemma graph_inv_children_get:
  assumes "graph_inv R H h" "children_get n h = (h', l)"
  shows "graph_inv R H h'" "execs_grow h h'" "set l \<subseteq> R `` {n}" "set (explicit_deps (node_at h n)) \<subseteq> set l"
proof -
  have d: "deps_in R H h" using assms(1) by (simp add: graph_inv_def)
  have "graph_inv R H h' \<and> execs_grow h h' \<and> set l \<subseteq> R `` {n} \<and> set (explicit_deps (node_at h n)) \<subseteq> set l"
  proof (cases "memo_children (node_at h n)")
    case None
    then have l: "l = children_list (node_at h n)" and h': "h' = upd_node n (memo_children_update (\<lambda>_. Some l)) h"
      using assms(2) by (auto simp: children_get_def Let_def)
    have e: "same_execs h h'" unfolding h' by (rule same_execs_upd_node) (simp add: node_core_def explicit_deps_def)
    have f: "found_ex H h' x = found_ex H h x" for x by (rule found_ex_cong) (simp add: h')
    have ex: "execs h' = execs h" by (simp add: h')
    have "node_deps (node_at h' m) \<subseteq> node_deps (node_at h m)" for m
      using children_list_deps(1) [of "node_at h n"] None l by (auto simp: h' node_at_upd_node node_deps_def implicit_list_def)
    moreover have "memo_ok (node_at h' m)" for m
      using children_list_deps(2) [of "node_at h n"] deps_in_memo [OF d, of m] l
      by (auto simp: h' node_at_upd_node memo_ok_def explicit_deps_def)
    moreover have "node_executor (node_at h' m) = node_executor (node_at h m)"
      "node_builder (node_at h' m) = node_builder (node_at h m)" "sources (node_at h' m) = sources (node_at h m)" for m
      by (simp_all add: h' node_at_upd_node)
    moreover have "targets_ok R h' x = targets_ok R h x" for x by (simp add: targets_ok_def h')
    ultimately have "deps_in R H h'"
      using d deps_in_node [OF d] unfolding deps_in_def f ex by (simp add: order_trans) (meson order_trans)
    then have "graph_inv R H h'" using assms(1) e by (auto intro: graph_inv_same)
    with e deps_in_node [OF d, of n] children_list_deps [of "node_at h n"] l show ?thesis
      by (auto simp: execs_grow_same)
  next
    case (Some k)
    then have "set k \<subseteq> node_deps (node_at h n)" by (auto simp: node_deps_def)
    with assms Some deps_in_node [OF d, of n] deps_in_memo [OF d, of n] show ?thesis
      by (auto simp: children_get_def memo_ok_def)
  qed
  then show "graph_inv R H h'" "execs_grow h h'" "set l \<subseteq> R `` {n}" "set (explicit_deps (node_at h n)) \<subseteq> set l" by auto
qed

lemma graph_inv_children:
  assumes "graph_inv R H h" "children H n h = (h', r)"
  shows "graph_inv R H h' \<and> execs_grow h h' \<and>
    (\<forall>l. r = Inr l \<longrightarrow> set l \<subseteq> R `` {n} \<and> set (explicit_deps (node_at h n)) \<subseteq> set l)"
proof -
  obtain h1 r1 where s: "scan H n h = (h1, r1)" by fastforce
  have 1: "graph_inv R H h1" "execs_grow h h1" using graph_inv_scan [OF assms(1), of n] s by auto
  have x: "explicit_deps (node_at h1 n) = explicit_deps (node_at h n)" using 1(2) by (simp add: execs_grow_def)
  obtain h2 l where c: "children_get n h1 = (h2, l)" by fastforce
  note 2 = graph_inv_children_get [OF 1(1) c, unfolded x]
  show ?thesis
    using assms(2) 1 2 execs_grow_trans [OF 1(2) 2(2)] s c by (auto simp: children_def split: sum.splits)
qed

lemma graph_inv_children_of_all:
  "graph_inv R H h \<Longrightarrow> children_of_all H ts u h = (h', r) \<Longrightarrow> graph_inv R H h' \<and> execs_grow h h' \<and>
     (\<forall>v. r = Inr v \<longrightarrow> set (ul_items v) \<subseteq> set (ul_items u) \<union> R `` set ts \<and> set (ul_items u) \<subseteq> set (ul_items v)
        \<and> (\<forall>t \<in> set ts. set (explicit_deps (node_at h t)) \<subseteq> set (ul_items v)))"
proof (induction H ts u h arbitrary: h' r rule: children_of_all.induct)
  case (2 H t ts u h)
  obtain h1 r1 where c: "children H t h = (h1, r1)" by fastforce
  note 1 = graph_inv_children [OF "2.prems"(1) c]
  show ?case
  proof (cases r1)
    case (Inl x)
    with 1 "2.prems"(2) c show ?thesis by auto
  next
    case (Inr l)
    have "children_of_all H ts (ul_extend u l) h1 = (h', r)" using "2.prems"(2) c Inr by simp
    note ih = "2.IH" [OF c [symmetric] Inr _ this]
    have g: "graph_inv R H h'" "execs_grow h h'" using ih 1 by (auto intro: execs_grow_trans)
    have x: "explicit_deps (node_at h1 m) = explicit_deps (node_at h m)" for m
      using 1 by (simp add: execs_grow_def)
    have l: "set l \<subseteq> R `` {t}" "set (explicit_deps (node_at h t)) \<subseteq> set l" using 1 Inr by auto
    have "set (ul_items v) \<subseteq> set (ul_items u) \<union> R `` set (t # ts)" "set (ul_items u) \<subseteq> set (ul_items v)"
      "\<forall>t \<in> set (t # ts). set (explicit_deps (node_at h t)) \<subseteq> set (ul_items v)" if "r = Inr v" for v
      using ih 1 that l Image_Un [of R "{t}" "set ts"] by (auto simp: x)
    with g show ?thesis by blast
  qed
qed simp

text \<open>The explicit dependencies of an executor: a null executor only answers with the sources.\<close>

definition exec_explicit_deps :: "'a heap_scheme \<Rightarrow> eid \<Rightarrow> nid list" where
  "exec_explicit_deps h e =
     (if is_null (exec_at h e) then get_all_sources h e
      else concat (map (\<lambda>t. explicit_deps (node_at h t)) (get_all_targets h e)))"

lemma execs_grow_explicit:
  "execs_grow h h' \<Longrightarrow> e < length (execs h) \<Longrightarrow> exec_explicit_deps h' e = exec_explicit_deps h e"
  using execs_grow_keeps [of h h' e] by (simp add: exec_explicit_deps_def execs_grow_def)

lemma graph_inv_get_all_children:
  assumes "graph_inv R H h" "get_all_children H e h = (h', r)"
  shows "graph_inv R H h' \<and> execs_grow h h' \<and>
    (\<forall>l. r = Inr l \<longrightarrow> set l \<subseteq> R `` set (get_all_targets h e) \<and> set (exec_explicit_deps h e) \<subseteq> set l)"
proof (cases "is_null (exec_at h e)")
  case True
  have "set (sources (node_at h t)) \<subseteq> R `` {t}" for t
    using deps_in_node [of R H h t] assms(1) by (auto simp: graph_inv_def node_deps_def)
  then have "set (get_all_sources h e) \<subseteq> R `` set (get_all_targets h e)"
    using True by (cases "get_all_targets h e") (force simp: get_all_sources_def Let_def)+
  with True assms show ?thesis by (auto simp: get_all_children_def exec_explicit_deps_def)
next
  case False
  obtain h1 r1 where c: "children_of_all H (get_all_targets h e) (UniqueList_init []) h = (h1, r1)" by fastforce
  from graph_inv_children_of_all [OF assms(1) c] False assms(2) c show ?thesis
    by (fastforce simp: get_all_children_def UniqueList_init_def exec_explicit_deps_def split: sum.splits)
qed

lemma get_all_prerequisites_in:
  assumes "graph_inv R H h"
  shows "set (get_all_prerequisites h e) \<subseteq> R `` set (get_all_targets h e)"
proof -
  have "set (ul_items (prerequisites (node_at h t))) \<subseteq> R `` {t}" for t
    using deps_in_node [of R H h t] assms by (auto simp: graph_inv_def node_deps_def)
  then have "set (ul_data (fold (\<lambda>t u. ul_extend u (ul_items (prerequisites (node_at h t)))) ts u))
      \<subseteq> set (ul_data u) \<union> R `` set ts" for ts u
    by (induction ts arbitrary: u) fastforce+
  from this [of "get_all_targets h e" "UniqueList_init []"] show ?thesis
    by (simp add: get_all_prerequisites_def UniqueList_init_def)
qed

text \<open>A relation without cycles determines what the children of an executor are.\<close>

lemma single_target:
  assumes "graph_inv R H h" "e < length (execs h)" "n \<in> set (get_all_targets h e)" "valid h n" "(n, n) \<notin> R"
  shows "get_all_targets h e = [n]"
proof -
  have x: "exec_at h e \<in> set (execs h)" using assms(2) by (simp add: exec_at_def)
  have n: "n \<in> set (ex_targets (exec_at h e))" using assms(3) get_all_targets_ex by blast
  from assms(1) x have "targets_ok R h (exec_at h e)" unfolding graph_inv_def deps_in_def by blast
  with n assms(4,5) have t: "ex_targets (exec_at h e) = [n]" unfolding targets_ok_def by auto
  show ?thesis
  proof (cases "is_null (exec_at h e)")
    case True
    with assms(3) t show ?thesis
      by (cases "batches (exec_at h e)")
        (auto simp: get_all_targets_def ex_targets_def Let_def append_eq_Cons_conv concat_eq_Nil_conv)
  qed (use t in \<open>simp add: get_all_targets_real\<close>)
qed

section \<open>The other operations of the walk\<close>

text \<open>An operation that keeps nodes' dependencies and cores and the executors.\<close>

definition same_graph :: "'a heap_scheme \<Rightarrow> 'a heap_scheme \<Rightarrow> bool" where
  "same_graph h h' \<longleftrightarrow> graph_le h' h \<and> same_execs h h'"

lemma graph_inv_same_graph: "same_graph h h' \<Longrightarrow> graph_inv R H h \<Longrightarrow> graph_inv R H h'"
  by (auto simp: same_graph_def graph_inv_def intro: deps_in_graph_le execs_ok_same)

lemma same_graph_refl [simp]: "same_graph h h"
  by (simp add: same_graph_def)

lemma same_graph_trans: "same_graph h h' \<Longrightarrow> same_graph h' h'' \<Longrightarrow> same_graph h h''"
  by (auto simp: same_graph_def intro: graph_le_trans same_execs_trans)

lemma same_graph_upd_node:
  "(\<And>x. node_deps (f x) \<subseteq> node_deps x) \<Longrightarrow> (\<And>x. memo_le (f x) x) \<Longrightarrow> (\<And>x. node_core (f x) = node_core x \<and> prerequisites (f x) = prerequisites x) \<Longrightarrow>
     same_graph h (upd_node n f h)"
  by (simp add: same_graph_def graph_le_upd_node same_execs_upd_node)

lemma same_graph_upd_exec: "(\<And>x. ex_core (f x) = ex_core x) \<Longrightarrow> same_graph h (upd_exec e f h)"
  by (simp add: same_graph_def graph_le_upd_exec same_execs_upd_exec)

lemma same_graph_fold: "(\<And>x h. same_graph h (f x h)) \<Longrightarrow> same_graph h (fold f xs h)"
  by (induction xs arbitrary: h) (auto intro: same_graph_trans)

lemmas same_graph_simps = explicit_deps_def memo_le_def same_graph_upd_node same_graph_upd_exec node_deps_def node_core_def ex_core_def
  get_action_list_def implicit_list_def

lemma same_graph_set_state: "same_graph h (set_state n st h)"
  by (simp add: set_state_def same_graph_simps)

lemma same_graph_set_states: "same_graph h (set_states ns st h)"
  by (induction ns st h rule: set_states.induct) (auto intro: same_graph_trans same_graph_set_state)

lemma same_graph_wait_for: "same_graph h (wait_for n cs h)"
proof (induction n cs h rule: wait_for.induct)
  case (2 n c cs h)
  obtain k h1 where a: "add_to_waiting_parents c n h = (k, h1)" by fastforce
  have "same_graph h h1" using a by (auto simp: add_to_waiting_parents_def same_graph_simps split: if_splits)
  moreover have "same_graph h1 (upd_node n (\<lambda>x. x\<lparr>ref_count := ref_count x + k\<rparr>) h1)" by (simp add: same_graph_simps)
  ultimately show ?case using "2.IH" [OF a [symmetric]] a by (auto intro: same_graph_trans)
qed simp

lemma same_graph_add_to_waiting_s_e: "same_graph h (add_to_waiting_s_e n p h)"
  by (simp add: add_to_waiting_s_e_def same_graph_simps)

lemma same_graph_cached_changes: "same_graph h (fst (cached_changes H e h))"
  by (auto simp: cached_changes_def same_graph_simps split: option.split sum.split)

lemma same_graph_get_action_targets: "same_graph h (fst (get_action_targets H e h))"
proof -
  obtain h' r where c: "cached_changes H e h = (h', r)" by fastforce
  with same_graph_cached_changes [of h H e] have "same_graph h (fst (get_lvar H e k h))" for k
    by (simp add: get_lvar_def)
  then show ?thesis by (simp add: get_action_targets_def Let_def split: list.split sum.split)
qed

lemma same_graph_get_action_side_effects: "same_graph h (fst (get_action_side_effects H e h))"
  using same_graph_get_action_targets [of h H e]
  by (cases "get_action_targets H e h") (simp add: get_action_side_effects_def)

end
