(* ===== verification/Walker.thy ===== *)
theory Walker
  imports Deps
begin

text \<open>
  The depth-first walker of \<open>SCons/Node/__init__.py\<close> (class \<open>Walker\<close>) and its client, the
  clearing of nodes between two builds in \<open>SCons/Script/Interactive.py\<close> (\<open>do_build\<close>). A walker
  keeps its stack and history itself and the kids it has still to visit in the \<open>wkids\<close> field of
  the nodes, on the heap; the functions it is given read and change the same heap. The interface
  between a walker and its client is the locale \<open>walk_client\<close>.
\<close>

section \<open>The walker\<close>

text \<open>
  The function arguments of \<open>Walker.__init__\<close>; \<open>kids_func\<close> may raise (scanning does).
\<close>

record 'h walk_funcs =
  kids_func :: "nid \<Rightarrow> nid option \<Rightarrow> 'h \<Rightarrow> 'h \<times> nid list res"
  cycle_func :: "nid \<Rightarrow> nid list \<Rightarrow> 'h \<Rightarrow> 'h"
  eval_func :: "nid \<Rightarrow> nid option \<Rightarrow> 'h \<Rightarrow> 'h"

definition get_children :: "hooks \<Rightarrow> nid \<Rightarrow> nid option \<Rightarrow> 'a heap_scheme \<Rightarrow> 'a heap_scheme \<times> nid list res" where
  "get_children H n p h = children H n h"

definition ignore_cycle :: "nid \<Rightarrow> nid list \<Rightarrow> 'h \<Rightarrow> 'h" where
  "ignore_cycle n st h = h"

definition do_nothing :: "nid \<Rightarrow> nid option \<Rightarrow> 'h \<Rightarrow> 'h" where
  "do_nothing n p h = h"

definition default_walk :: "hooks \<Rightarrow> 'a heap_scheme walk_funcs" where
  "default_walk H = \<lparr>kids_func = get_children H, cycle_func = ignore_cycle, eval_func = do_nothing\<rparr>"

text \<open>The stack is kept with its top (\<open>self.stack[-1]\<close>) first; \<open>history\<close> is the set of its keys.\<close>

record walker =
  walk_stack :: "nid list"
  history :: "nid set"

definition set_wkids :: "nid \<Rightarrow> nid list option \<Rightarrow> 'a heap_scheme \<Rightarrow> 'a heap_scheme" where
  "set_wkids n v = upd_node n (wkids_update (\<lambda>_. v))"

definition Walker_init :: "'a heap_scheme walk_funcs \<Rightarrow> nid \<Rightarrow> 'a heap_scheme \<Rightarrow> 'a heap_scheme \<times> walker res" where
  "Walker_init F n h = (case kids_func F n None h of
       (h1, Inl x) \<Rightarrow> (h1, Inl x)
     | (h1, Inr l) \<Rightarrow> (set_wkids n (Some l) h1, Inr \<lparr>walk_stack = [n], history = {n}\<rparr>))"

text \<open>The end of an iteration of \<open>next\<close>: the top of the stack has no kids left.\<close>

definition walker_pop :: "'a heap_scheme walk_funcs \<Rightarrow> nid \<Rightarrow> nid list \<Rightarrow> walker \<Rightarrow> 'a heap_scheme \<Rightarrow>
    walker \<times> 'a heap_scheme \<times> nid option res" where
  "walker_pop F n rest w h =
     (if n \<in> history w
      then (w\<lparr>walk_stack := rest, history := history w - {n}\<rparr>,
            eval_func F n (case rest of [] \<Rightarrow> None | p # _ \<Rightarrow> Some p) h, Inr (Some n))
      else (w\<lparr>walk_stack := rest\<rparr>, h, Inl (KeyError [])))"

partial_function (option) walker_next :: "'a heap_scheme walk_funcs \<Rightarrow> walker \<Rightarrow> 'a heap_scheme \<Rightarrow>
    (walker \<times> 'a heap_scheme \<times> nid option res) option" where
  "walker_next F w h = (case walk_stack w of
       [] \<Rightarrow> Some (w, h, Inr None)
     | n # rest \<Rightarrow> (case wkids (node_at h n) of
           Some (k # ks) \<Rightarrow>
             (let h1 = set_wkids n (if ks = [] then None else Some ks) h
              in if k \<in> history w then walker_next F w (cycle_func F k (rev (walk_stack w)) h1)
                 else (case kids_func F k (Some n) h1 of
                     (h2, Inl x) \<Rightarrow> Some (w, h2, Inl x)
                   | (h2, Inr l) \<Rightarrow>
                       walker_next F (w\<lparr>walk_stack := k # walk_stack w, history := insert k (history w)\<rparr>)
                         (set_wkids k (Some l) h2)))
         | _ \<Rightarrow> Some (walker_pop F n rest w h)))"

definition is_done :: "walker \<Rightarrow> bool" where
  "is_done w \<longleftrightarrow> walk_stack w = []"

text \<open>
  The loop of every client, \<open>n = walker.next(); while n: n = walker.next()\<close>: the nodes returned,
  in order, and the exception that ended it.
\<close>

partial_function (option) walk_rest :: "'a heap_scheme walk_funcs \<Rightarrow> walker \<Rightarrow> 'a heap_scheme \<Rightarrow>
    (nid list \<times> walker \<times> 'a heap_scheme \<times> py_exc option) option" where
  "walk_rest F w h = (case walker_next F w h of
       None \<Rightarrow> None
     | Some (w1, h1, Inl x) \<Rightarrow> Some ([], w1, h1, Some x)
     | Some (w1, h1, Inr None) \<Rightarrow> Some ([], w1, h1, None)
     | Some (w1, h1, Inr (Some n)) \<Rightarrow> Option.bind (walk_rest F w1 h1) (\<lambda>(ns, y). Some (n # ns, y)))"

definition walk :: "'a heap_scheme walk_funcs \<Rightarrow> nid \<Rightarrow> 'a heap_scheme \<Rightarrow>
    (nid list \<times> 'a heap_scheme \<times> py_exc option) option" where
  "walk F n h = (case Walker_init F n h of
       (h1, Inl x) \<Rightarrow> Some ([], h1, Some x)
     | (h1, Inr w) \<Rightarrow> map_option (\<lambda>(ns, w', h', x). (ns, h', x)) (walk_rest F w h1))"

section \<open>Single steps\<close>

lemma node_at_set_wkids [simp]:
  "wkids (node_at (set_wkids n v h) m) = (if m = n \<and> valid h n then v else wkids (node_at h m))"
  by (auto simp: set_wkids_def node_at_upd_node)

lemma valid_set_wkids [simp]: "valid (set_wkids n v h) m = valid h m"
  by (simp add: set_wkids_def)

lemma walk_rest_next_eq: "walker_next F w h = walker_next F w' h' \<Longrightarrow> walk_rest F w h = walk_rest F w' h'"
  by (subst (1 2) walk_rest.simps) simp

lemma walk_rest_raise: "walker_next F w h = Some (w', h', Inl x) \<Longrightarrow> walk_rest F w h = Some ([], w', h', Some x)"
  by (subst walk_rest.simps) simp

definition walk_prepend :: "nid list \<Rightarrow> (nid list \<times> 'b) option \<Rightarrow> (nid list \<times> 'b) option" where
  "walk_prepend out = map_option (\<lambda>(ns, y). (out @ ns, y))"

lemma walk_prepend_simps [simp]:
  "walk_prepend [] r = r" "walk_prepend xs (walk_prepend ys r) = walk_prepend (xs @ ys) r"
  "walk_prepend xs (Some (ns, y)) = Some (xs @ ns, y)"
  by (cases r; auto simp: walk_prepend_def)+

lemma walk_rest_return:
  "walker_next F w h = Some (w', h', Inr (Some n)) \<Longrightarrow> walk_rest F w h = walk_prepend [n] (walk_rest F w' h')"
  by (subst walk_rest.simps) (cases "walk_rest F w' h'"; auto simp: walk_prepend_def)

text \<open>The kids of a node that are still to be walked; the source tests only the truth of \<open>wkids\<close>.\<close>

definition kids_left :: "'a heap_scheme \<Rightarrow> nid \<Rightarrow> nid list" where
  "kids_left h n = (case wkids (node_at h n) of None \<Rightarrow> [] | Some l \<Rightarrow> l)"

lemma kids_left_set_wkids [simp]:
  "kids_left (set_wkids n v h) m = (if m = n \<and> valid h n then (case v of None \<Rightarrow> [] | Some l \<Rightarrow> l) else kids_left h m)"
  by (simp add: kids_left_def)

lemma walker_next_pop:
  "walk_stack w = n # rest \<Longrightarrow> kids_left h n = [] \<Longrightarrow> walker_next F w h = Some (walker_pop F n rest w h)"
  by (subst walker_next.simps) (auto simp: kids_left_def split: option.splits)

definition pop_kid :: "nid \<Rightarrow> 'a heap_scheme \<Rightarrow> 'a heap_scheme" where
  "pop_kid n h = set_wkids n (if tl (kids_left h n) = [] then None else Some (tl (kids_left h n))) h"

lemma pop_kid_simps [simp]:
  "valid h n \<Longrightarrow> kids_left (pop_kid n h) n = tl (kids_left h n)" "valid (pop_kid n h) m = valid h m"
  "m \<noteq> n \<Longrightarrow> wkids (node_at (pop_kid n h) m) = wkids (node_at h m)"
  by (simp_all add: pop_kid_def)

lemma kids_left_cong: "wkids (node_at h' n) = wkids (node_at h n) \<Longrightarrow> kids_left h' n = kids_left h n"
  by (simp add: kids_left_def)

lemma walker_next_kid:
  assumes "walk_stack w = n # rest" "kids_left h n = k # ks"
  shows "k \<in> history w \<Longrightarrow> walker_next F w h = walker_next F w (cycle_func F k (rev (n # rest)) (pop_kid n h))"
    and "k \<notin> history w \<Longrightarrow> kids_func F k (Some n) (pop_kid n h) = (h2, Inl x) \<Longrightarrow> walker_next F w h = Some (w, h2, Inl x)"
    and "k \<notin> history w \<Longrightarrow> kids_func F k (Some n) (pop_kid n h) = (h2, Inr l) \<Longrightarrow>
      walker_next F w h = walker_next F (w\<lparr>walk_stack := k # n # rest, history := insert k (history w)\<rparr>) (set_wkids k (Some l) h2)"
proof -
  from assms(2) have k: "wkids (node_at h n) = Some (k # ks)" by (simp add: kids_left_def split: option.splits)
  have p: "set_wkids n (if ks = [] then None else Some ks) h = pop_kid n h" using assms(2) by (simp add: pop_kid_def)
  from k assms show "k \<in> history w \<Longrightarrow> walker_next F w h = walker_next F w (cycle_func F k (rev (n # rest)) (pop_kid n h))"
    by (subst walker_next.simps) (simp add: p Let_def)
  from k assms show "k \<notin> history w \<Longrightarrow> kids_func F k (Some n) (pop_kid n h) = (h2, Inl x) \<Longrightarrow> walker_next F w h = Some (w, h2, Inl x)"
    by (subst walker_next.simps) (simp add: p Let_def)
  from k assms show "k \<notin> history w \<Longrightarrow> kids_func F k (Some n) (pop_kid n h) = (h2, Inr l) \<Longrightarrow>
      walker_next F w h = walker_next F (w\<lparr>walk_stack := k # n # rest, history := insert k (history w)\<rparr>) (set_wkids k (Some l) h2)"
    by (subst walker_next.simps) (simp add: p Let_def)
qed

text \<open>A walker with the given stack, top first.\<close>

definition on_stack :: "walker \<Rightarrow> nid list \<Rightarrow> 'a heap_scheme \<Rightarrow> bool" where
  "on_stack w anc h \<longleftrightarrow> walk_stack w = anc \<and> history w = set anc \<and> distinct anc \<and> (\<forall>a \<in> set anc. valid h a)"

section \<open>The interface between a walker and its client\<close>

text \<open>
  \<open>E\<close> are the edges that must be followed, \<open>R\<close> those that may be; \<open>skip\<close> are the nodes the client
  has decided not to descend into (and \<open>X\<close> those it may add without having walked them), \<open>marks\<close>
  what \<open>eval_func\<close> records. None of the functions touches the kids left to walk.
\<close>

locale walk_client =
  fixes F :: "'a heap_scheme walk_funcs" and inv :: "'a heap_scheme \<Rightarrow> bool" and N :: nat
    and R :: "(nid \<times> nid) set" and E :: "(nid \<times> nid) set" and X :: "nid set"
    and skip :: "'a heap_scheme \<Rightarrow> nid set" and marks :: "'a heap_scheme \<Rightarrow> nid set"
  assumes inv_nodes: "inv h \<Longrightarrow> length (nodes h) = N"
    and R_nodes: "(a, b) \<in> R \<Longrightarrow> b < N"
    and wkids_inv: "inv h \<Longrightarrow> inv (set_wkids n v h)"
    and wkids_skip: "inv h \<Longrightarrow> skip (set_wkids n v h) = skip h" "inv h \<Longrightarrow> marks (set_wkids n v h) = marks h"
    and kids_inv: "inv h \<Longrightarrow> kids_func F n p h = (h', r) \<Longrightarrow> inv h'"
    and kids_skip: "inv h \<Longrightarrow> kids_func F n p h = (h', r) \<Longrightarrow> skip h' = skip h \<and> marks h' = marks h"
    and kids_wkids: "inv h \<Longrightarrow> kids_func F n p h = (h', r) \<Longrightarrow> wkids (node_at h' m) = wkids (node_at h m)"
    and kids_list: "inv h \<Longrightarrow> kids_func F n p h = (h', Inr l) \<Longrightarrow> set l \<subseteq> R `` {n} \<and> E `` {n} \<subseteq> set l \<union> skip h"
    and cycle_inv: "inv h \<Longrightarrow> inv (cycle_func F n st h)"
    and cycle_skip: "inv h \<Longrightarrow> skip (cycle_func F n st h) = skip h" "inv h \<Longrightarrow> marks (cycle_func F n st h) = marks h"
    and cycle_wkids: "inv h \<Longrightarrow> wkids (node_at (cycle_func F n st h) m) = wkids (node_at h m)"
    and eval_inv: "inv h \<Longrightarrow> inv (eval_func F n p h)"
    and eval_skip: "inv h \<Longrightarrow> skip (eval_func F n p h) \<subseteq> insert n (skip h) \<union> X" "inv h \<Longrightarrow> skip h \<subseteq> skip (eval_func F n p h)"
    and eval_marks: "inv h \<Longrightarrow> insert n (marks h) \<subseteq> marks (eval_func F n p h)"
    and eval_wkids: "inv h \<Longrightarrow> wkids (node_at (eval_func F n p h) m) = wkids (node_at h m)"
begin

text \<open>
  The nodes \<open>out\<close> returned while the heap goes from \<open>h\<close> to \<open>h'\<close>, below the stack \<open>anc\<close>: every
  followed edge leads to a node skipped, returned or on the stack, and a node is returned after
  the nodes it depends on unless one of these depends on it.
\<close>

definition covers :: "nid list \<Rightarrow> nid set \<Rightarrow> nid list \<Rightarrow> bool" where
  "covers anc S out \<longleftrightarrow> (\<forall>m \<in> set out. E `` {m} \<subseteq> S \<union> set out \<union> set anc)"

definition ordered :: "nid set \<Rightarrow> nid list \<Rightarrow> bool" where
  "ordered S out \<longleftrightarrow> (\<forall>xs m ys c. out = xs @ m # ys \<longrightarrow> (m, c) \<in> E \<longrightarrow> c \<in> S \<union> set xs \<or> (c, m) \<in> R\<^sup>*)"

definition visited_level :: "nid list \<Rightarrow> 'a heap_scheme \<Rightarrow> nid list \<Rightarrow> 'a heap_scheme \<Rightarrow> bool" where
  "visited_level anc h out h' \<longleftrightarrow> inv h' \<and> skip h' \<subseteq> skip h \<union> set out \<union> X \<and> marks h \<union> set out \<subseteq> marks h'
     \<and> skip h \<subseteq> skip h' \<and> covers anc (skip h') out \<and> ordered (skip h \<union> X) out \<and> set out \<subseteq> R\<^sup>* `` {hd anc}"

lemma visited_level_empty: "inv h \<Longrightarrow> skip h = skip h0 \<Longrightarrow> marks h = marks h0 \<Longrightarrow> visited_level anc h0 [] h"
  by (simp add: visited_level_def covers_def ordered_def)

lemma ordered_append:
  assumes "ordered S xs" "ordered T ys" "T \<subseteq> S \<union> set xs"
  shows "ordered S (xs @ ys)"
  unfolding ordered_def
proof (intro allI impI)
  fix us m vs c assume "xs @ ys = us @ m # vs" and mc: "(m, c) \<in> E"
  then consider us' where "xs = us @ m # us'" | us' where "us = xs @ us'" "ys = us' @ m # vs"
    by (auto simp: append_eq_append_conv2 append_eq_Cons_conv)
  then show "c \<in> S \<union> set us \<or> (c, m) \<in> R\<^sup>*"
  proof cases
    case 1
    with assms(1) mc show ?thesis by (auto simp: ordered_def)
  next
    case 2
    with assms(2) mc have "c \<in> T \<union> set us' \<or> (c, m) \<in> R\<^sup>*" by (auto simp: ordered_def)
    with assms(3) 2(1) show ?thesis by auto
  qed
qed

lemma ordered_snoc:
  assumes "ordered S xs" "E `` {k} \<subseteq> S \<union> set xs \<union> {d. (d, k) \<in> R\<^sup>*}"
  shows "ordered S (xs @ [k])"
  by (rule ordered_append [OF assms(1), where T = "S \<union> set xs"])
    (use assms(2) in \<open>auto simp: ordered_def Cons_eq_append_conv\<close>)

text \<open>The walk below a kid, the kid itself, and the walk of the remaining kids.\<close>

lemma visited_level_kid:
  assumes 1: "visited_level (k # anc) h1 out1 h2" and 2: "visited_level anc (eval_func F k p h2) out2 h3"
    and inv: "inv h1" and skip: "skip h1 = skip h" "marks h1 = marks h" and anc: "anc \<noteq> []"
    and edge: "(hd anc, k) \<in> R" "\<forall>a \<in> set anc. (a, hd anc) \<in> R\<^sup>*"
    and kids: "set l \<subseteq> set out1 \<union> set (k # anc)" "E `` {k} \<subseteq> set l \<union> skip h"
  shows "visited_level anc h (out1 @ k # out2) h3"
proof -
  have i2: "inv h2" using 1 by (simp add: visited_level_def)
  have s2: "skip (eval_func F k p h2) \<subseteq> skip h \<union> set (out1 @ [k]) \<union> X"
    using eval_skip(1) [OF i2, of k p] 1 skip by (auto simp: visited_level_def)
  have m2: "marks h \<union> set (out1 @ [k]) \<subseteq> marks (eval_func F k p h2)"
    using eval_marks [OF i2, of k p] 1 skip by (auto simp: visited_level_def)
  have s3: "skip h \<subseteq> skip h2" "skip h2 \<subseteq> skip h3"
    using 1 2 skip eval_skip(2) [OF i2, of k p] by (auto simp: visited_level_def)
  have c: "covers anc (skip h3) (out1 @ k # out2)"
    using 1 2 s3 kids unfolding visited_level_def covers_def by auto blast+
  have "ordered (skip h \<union> X) (out1 @ [k])"
  proof (rule ordered_snoc)
    show "ordered (skip h \<union> X) out1" using 1 skip by (simp add: visited_level_def)
    have "(a, k) \<in> R\<^sup>*" if "a \<in> set (k # anc)" for a
      using that edge by (auto intro: rtrancl_into_rtrancl)
    with kids show "E `` {k} \<subseteq> skip h \<union> X \<union> set out1 \<union> {d. (d, k) \<in> R\<^sup>*}" by blast
  qed
  then have o: "ordered (skip h \<union> X) ((out1 @ [k]) @ out2)"
    by (rule ordered_append [where T = "skip (eval_func F k p h2) \<union> X"]) (use 2 s2 in \<open>auto simp: visited_level_def\<close>)
  have "set out1 \<subseteq> R\<^sup>* `` {hd anc}"
    using 1 edge(1) by (auto simp: visited_level_def intro: converse_rtrancl_into_rtrancl)
  with 2 edge(1) have "set (out1 @ k # out2) \<subseteq> R\<^sup>* `` {hd anc}" by (auto simp: visited_level_def)
  with c o 2 s2 s3 m2 show ?thesis by (auto simp: visited_level_def)
qed

lemma visited_level_cycle:
  "visited_level anc h1 out h' \<Longrightarrow> skip h1 = skip h \<Longrightarrow> marks h1 = marks h \<Longrightarrow> visited_level anc h out h'"
  by (simp add: visited_level_def)

definition level_result :: "nid list \<Rightarrow> walker \<Rightarrow> 'a heap_scheme \<Rightarrow> nid list \<Rightarrow> bool" where
  "level_result anc w h ks \<longleftrightarrow> (\<exists>out w' h' x. walk_rest F w h = Some (out, w', h', Some x)) \<or>
     (\<exists>out h'. walk_rest F w h = walk_prepend out (walk_rest F w h') \<and> visited_level anc h out h' \<and> set ks \<subseteq> set out \<union> set anc
        \<and> kids_left h' (hd anc) = [] \<and> (\<forall>a \<in> set (tl anc). wkids (node_at h' a) = wkids (node_at h a)))"

lemma level_result_raise: "walk_rest F w h = Some (out, w', h', Some x) \<Longrightarrow> level_result anc w h ks"
  by (auto simp: level_result_def)

lemma level_resultI:
  "walk_rest F w h = walk_prepend out (walk_rest F w h') \<Longrightarrow> visited_level anc h out h' \<Longrightarrow> set ks \<subseteq> set out \<union> set anc \<Longrightarrow>
     kids_left h' (hd anc) = [] \<Longrightarrow> (\<And>a. a \<in> set (tl anc) \<Longrightarrow> wkids (node_at h' a) = wkids (node_at h a)) \<Longrightarrow>
     level_result anc w h ks"
  unfolding level_result_def by (intro disjI2 exI [of _ out] exI [of _ h']) blast

lemma level_resultE:
  assumes "level_result anc w h ks"
  obtains (raise) out w' h' x where "walk_rest F w h = Some (out, w', h', Some x)"
  | (level) out h' where "walk_rest F w h = walk_prepend out (walk_rest F w h')" "visited_level anc h out h'"
      "set ks \<subseteq> set out \<union> set anc" "kids_left h' (hd anc) = []"
      "\<forall>a \<in> set (tl anc). wkids (node_at h' a) = wkids (node_at h a)"
  using assms by (auto simp: level_result_def)

lemma inv_valid: "inv h \<Longrightarrow> valid h m \<longleftrightarrow> m < N"
  by (simp add: valid_def inv_nodes)

lemma on_stack_inv: "on_stack w anc h \<Longrightarrow> inv h \<Longrightarrow> inv h' \<Longrightarrow> on_stack w anc h'"
  by (simp add: on_stack_def inv_valid)

lemma pop_kid_inv:
  assumes "inv h"
  shows "inv (pop_kid n h)" "skip (pop_kid n h) = skip h" "marks (pop_kid n h) = marks h"
  using wkids_inv [OF assms] wkids_skip [OF assms] by (simp_all add: pop_kid_def)

text \<open>A kid that is on the stack already.\<close>

lemma level_cycle:
  assumes w: "on_stack w (n # rest) h" and inv: "inv h" and ks: "kids_left h n = k # ks" and k: "k \<in> set (n # rest)"
    and IH: "\<And>h. on_stack w (n # rest) h \<Longrightarrow> inv h \<Longrightarrow> kids_left h n = ks \<Longrightarrow> level_result (n # rest) w h ks"
  shows "level_result (n # rest) w h (k # ks)"
proof -
  let ?h2 = "cycle_func F k (rev (n # rest)) (pop_kid n h)"
  note i1 = pop_kid_inv [OF inv, of n]
  note i2 = cycle_inv [OF i1(1)] and s2 = cycle_skip [OF i1(1)] and w2 = cycle_wkids [OF i1(1)]
  have v: "valid h n" using w by (simp add: on_stack_def)
  have "kids_left ?h2 n = ks" using ks v by (simp add: kids_left_cong [OF w2])
  note res = IH [OF on_stack_inv [OF w inv i2] i2 this]
  have eq: "walk_rest F w h = walk_rest F w ?h2"
    using w k by (intro walk_rest_next_eq walker_next_kid(1) [OF _ ks]) (auto simp: on_stack_def)
  have sk: "skip ?h2 = skip h" "marks ?h2 = marks h" using s2 i1 by auto
  have wk: "wkids (node_at ?h2 a) = wkids (node_at h a)" if "a \<in> set rest" for a
  proof -
    have "a \<noteq> n" using that w by (auto simp: on_stack_def)
    with w2 show ?thesis by simp
  qed
  from res show ?thesis
  proof (cases rule: level_resultE)
    case (raise out w' h' x)
    with eq show ?thesis by (simp add: level_result_raise)
  next
    case (level out h')
    show ?thesis
      by (rule level_resultI [OF _ visited_level_cycle [OF level(2) sk]]) (use level eq k wk in auto)
  qed
qed

text \<open>A kid that is walked first, with everything below it.\<close>

lemma level_push:
  assumes w: "on_stack w (n # rest) h" and inv: "inv h" and ks: "kids_left h n = k # ks" and k: "k \<notin> set (n # rest)"
    and R: "(n, k) \<in> R" "\<forall>a \<in> set (n # rest). (a, n) \<in> R\<^sup>*"
    and below: "\<And>w h l. on_stack w (k # n # rest) h \<Longrightarrow> inv h \<Longrightarrow> kids_left h k = l \<Longrightarrow> set l \<subseteq> R `` {k} \<Longrightarrow> level_result (k # n # rest) w h l"
    and IH: "\<And>h. on_stack w (n # rest) h \<Longrightarrow> inv h \<Longrightarrow> kids_left h n = ks \<Longrightarrow> level_result (n # rest) w h ks"
  shows "level_result (n # rest) w h (k # ks)"
proof -
  have v: "valid h n" and st: "walk_stack w = n # rest" "history w = set (n # rest)" "distinct (n # rest)"
    using w by (auto simp: on_stack_def)
  note i1 = pop_kid_inv [OF inv, of n]
  obtain h2 r where c: "kids_func F k (Some n) (pop_kid n h) = (h2, r)" by fastforce
  note i2 = kids_inv [OF i1(1) c] and s2 = kids_skip [OF i1(1) c] and w2 = kids_wkids [OF i1(1) c]
  show ?thesis
  proof (cases r)
    case (Inl x)
    with walk_rest_raise [OF walker_next_kid(2) [OF st(1) ks _ c [unfolded Inl]]] k st show ?thesis
      by (auto simp: level_result_def)
  next
    case (Inr l)
    let ?w1 = "w\<lparr>walk_stack := k # n # rest, history := insert k (history w)\<rparr>" and ?h3 = "set_wkids k (Some l) h2"
    from kids_list [OF i1(1) c [unfolded Inr]] i1(2) have l: "set l \<subseteq> R `` {k}" "E `` {k} \<subseteq> set l \<union> skip h" by auto
    note i3 = wkids_inv [OF i2, of k "Some l"]
    have vk: "valid h2 k" using R_nodes [OF R(1)] i2 by (simp add: inv_valid)
    have eq: "walk_rest F w h = walk_rest F ?w1 ?h3"
      by (rule walk_rest_next_eq [OF walker_next_kid(3) [OF st(1) ks _ c [unfolded Inr]]]) (use k st in auto)
    have w1: "on_stack ?w1 (k # n # rest) ?h3"
      using w k R_nodes [OF R(1)] by (auto simp: on_stack_def inv_valid [OF i2] inv_valid [OF inv])
    have "kids_left ?h3 k = l" using vk by simp
    from below [OF w1 i3 this l(1)] show ?thesis
    proof (cases rule: level_resultE)
      case (raise out w' h' x)
      with eq show ?thesis by (simp add: level_result_raise)
    next
      case (level out1 h4)
      note r1 = level(1) and v1 = level(2) and l1 = level(3) and e1 = level(4) and k1 = level(5)
      let ?h5 = "eval_func F k (Some n) h4"
      have i4: "inv h4" using v1 by (simp add: visited_level_def)
      note i5 = eval_inv [OF i4, of k "Some n"]
      have w5: "wkids (node_at ?h5 a) = wkids (node_at (pop_kid n h) a)" if "a \<in> set (n # rest)" for a
        using that k k1 by (auto simp: eval_wkids [OF i4] w2)
      have "walker_pop F k (n # rest) ?w1 h4 = (w, ?h5, Inr (Some k))"
        using st k by (simp add: walker_pop_def)
      then have "walker_next F ?w1 h4 = Some (w, ?h5, Inr (Some k))" using e1 by (subst walker_next_pop) auto
      from walk_rest_return [OF this] r1 eq
      have r5: "walk_rest F w h = walk_prepend (out1 @ [k]) (walk_rest F w ?h5)" by simp
      have "kids_left ?h5 n = ks" using ks v by (simp add: kids_left_cong [OF w5])
      from IH [OF on_stack_inv [OF w inv i5] i5 this] show ?thesis
      proof (cases rule: level_resultE)
        case (raise out w' h' x)
        with r5 show ?thesis by (simp add: level_result_raise)
      next
        case (level out2 h6)
        note r6 = level(1) and v6 = level(2) and l6 = level(3) and e6 = level(4) and k6 = level(5)
        have "skip ?h3 = skip h" "marks ?h3 = marks h" using s2 i1 wkids_skip [OF i2] by auto
        from visited_level_kid [OF v1 v6 i3 this _ _ _ l1 l(2)] R
        have v7: "visited_level (n # rest) h (out1 @ k # out2) h6" by simp
        have r7: "walk_rest F w h = walk_prepend (out1 @ k # out2) (walk_rest F w h6)" using r5 r6 by simp
        have k7: "wkids (node_at h6 a) = wkids (node_at h a)" if "a \<in> set rest" for a
        proof -
          have "a \<noteq> n" using that st(3) by auto
          with k6 that w5 [of a] show ?thesis by simp
        qed
        from l6 e6 k7 show ?thesis by (intro level_resultI [OF r7 v7]) auto
      qed
    qed
  qed
qed

lemma walk_level:
  assumes "on_stack w (n # rest) h" "inv h" "kids_left h n = ks" "set ks \<subseteq> R `` {n}" "\<forall>a \<in> set (n # rest). (a, n) \<in> R\<^sup>*"
  shows "level_result (n # rest) w h ks"
  using assms
proof (induction "card ({..<N} - set (n # rest))" arbitrary: n rest w h ks rule: less_induct)
  case less
  note below = less.hyps
  from less.prems show ?case
  proof (induction ks arbitrary: h)
    case Nil
    then show ?case unfolding level_result_def
      by (intro disjI2 exI [of _ "[]"] exI [of _ h]) (simp add: visited_level_empty)
  next
    case (Cons k ks)
    have R: "(n, k) \<in> R" "set ks \<subseteq> R `` {n}" using Cons.prems(4) by auto
    have IH: "level_result (n # rest) w h' ks" if "on_stack w (n # rest) h'" "inv h'" "kids_left h' n = ks" for h'
      using Cons.IH [OF that R(2) Cons.prems(5)] .
    show ?case
    proof (cases "k \<in> set (n # rest)")
      case True
      from level_cycle [OF Cons.prems(1,2,3) True IH] show ?thesis .
    next
      case False
      have "card ({..<N} - set (k # n # rest)) < card ({..<N} - set (n # rest))"
        using False R_nodes [OF R(1)] by (intro psubset_card_mono) auto
      moreover have "\<forall>a \<in> set (k # n # rest). (a, k) \<in> R\<^sup>*"
        using Cons.prems(5) R(1) by (auto intro: rtrancl_into_rtrancl)
      ultimately have "level_result (k # n # rest) w' h' l"
        if "on_stack w' (k # n # rest) h'" "inv h'" "kids_left h' k = l" "set l \<subseteq> R `` {k}" for w' h' l
        using below that by blast
      from level_push [OF Cons.prems(1,2,3) False R(1) Cons.prems(5) this IH] show ?thesis .
    qed
  qed
qed

lemma walk_complete:
  assumes inv: "inv h" and n: "n < N"
  shows "\<exists>out h' x. walk F n h = Some (out, h', x) \<and> (x = None \<longrightarrow> inv h' \<and> skip h' \<subseteq> skip h \<union> set out \<union> X \<and>
    marks h \<union> set out \<subseteq> marks h' \<and> (\<exists>below. out = below @ [n]) \<and> set out \<subseteq> R\<^sup>* `` {n} \<and> ordered (skip h \<union> X) out \<and>
    skip h \<subseteq> skip h' \<and> covers [] (skip h') out)"
proof -
  obtain h1 r where c: "kids_func F n None h = (h1, r)" by fastforce
  show ?thesis
  proof (cases r)
    case (Inl x)
    with c show ?thesis by (simp add: walk_def Walker_init_def)
  next
    case (Inr l)
    let ?w = "\<lparr>walk_stack = [n], history = {n}\<rparr>" and ?h2 = "set_wkids n (Some l) h1"
    have W: "walk F n h = map_option (\<lambda>(ns, w', h', x). (ns, h', x)) (walk_rest F ?w ?h2)"
      using c Inr by (simp add: walk_def Walker_init_def)
    note i1 = kids_inv [OF inv c]
    note i2 = wkids_inv [OF i1, of n "Some l"]
    have s2: "skip ?h2 = skip h" "marks ?h2 = marks h" using kids_skip [OF inv c] wkids_skip [OF i1] by auto
    note l = kids_list [OF inv c [unfolded Inr]]
    have v: "valid h1 n" using n i1 by (simp add: inv_valid)
    then have "level_result [n] ?w ?h2 l"
      by (intro walk_level) (use i2 l in \<open>auto simp: on_stack_def\<close>)
    then show ?thesis
    proof (cases rule: level_resultE)
      case (raise out w' h' x)
      then show ?thesis by (simp add: W)
    next
      case (level out h')
      let ?h3 = "eval_func F n None h'" and ?e = "\<lparr>walk_stack = [], history = {}\<rparr>"
      have i: "inv h'" using level(2) by (simp add: visited_level_def)
      have "walker_next F ?w h' = Some (?e, ?h3, Inr (Some n))"
        using level(4) by (subst walker_next_pop [of _ n "[]"]) (auto simp: walker_pop_def)
      moreover have "walk_rest F ?e ?h3 = Some ([], ?e, ?h3, None)"
        by (subst walk_rest.simps) (subst walker_next.simps, simp)
      ultimately have r: "walk F n h = Some (out @ [n], ?h3, None)"
        by (simp add: W level(1) walk_rest_return)
      have sk: "skip h \<subseteq> skip ?h3" "skip h' \<subseteq> skip ?h3" "skip ?h3 \<subseteq> skip h \<union> set (out @ [n]) \<union> X" "marks h \<union> set (out @ [n]) \<subseteq> marks ?h3"
        using eval_skip [OF i, where n = n and p = None] eval_marks [OF i, of n None] level(2) s2 by (auto simp: visited_level_def)
      note sk
      moreover have "ordered (skip h \<union> X) (out @ [n])"
        by (rule ordered_snoc) (use level(2,3) l s2 in \<open>auto simp: visited_level_def\<close>)
      moreover have "set (out @ [n]) \<subseteq> R\<^sup>* `` {n}" using level(2) by (auto simp: visited_level_def)
      moreover from sk(1,2) have "covers [] (skip ?h3) (out @ [n])"
        using level(2,3) l unfolding covers_def visited_level_def by auto blast+
      ultimately show ?thesis using r eval_inv [OF i] by blast
    qed
  qed
qed

end

section \<open>Walking the children of a node\<close>

text \<open>
  The walk with the default functions. Every edge lies in \<open>R\<close> and in the heap of \<open>N\<close> nodes; \<open>E\<close> are
  the sources and dependencies that are not ignored.
\<close>

definition into_heap :: "nat \<Rightarrow> (nid \<times> nid) set \<Rightarrow> (nid \<times> nid) set" where
  "into_heap N R = R \<inter> UNIV \<times> {..<N}"

definition walkable :: "hooks \<Rightarrow> nat \<Rightarrow> (nid \<times> nid) set \<Rightarrow> (nid \<times> nid) set \<Rightarrow> 'a heap_scheme \<Rightarrow> bool" where
  "walkable H N R E h \<longleftrightarrow> graph_inv (into_heap N R) H h \<and> length (nodes h) = N \<and>
     (\<forall>n. set (explicit_deps (node_at h n)) = E `` {n})"

lemma walkable_same_graph: "walkable H N R E h \<Longrightarrow> same_graph h h' \<Longrightarrow> walkable H N R E h'"
  by (auto simp: walkable_def graph_inv_same_graph) (auto simp: same_graph_def graph_le_def node_core_def)

lemma walkable_set_wkids: "walkable H N R E h \<Longrightarrow> walkable H N R E (set_wkids n v h)"
  by (erule walkable_same_graph)
    (auto simp: set_wkids_def memo_le_def node_core_def explicit_deps_def node_deps_def implicit_list_def intro!: same_graph_upd_node)

lemma walkable_children:
  assumes "walkable H N R E h" "children H n h = (h', r)"
  shows "walkable H N R E h'" "wkids (node_at h' m) = wkids (node_at h m)" "heap.more h' = heap.more h"
    "r = Inr l \<Longrightarrow> set l \<subseteq> into_heap N R `` {n} \<and> E `` {n} \<subseteq> set l"
proof -
  note st = same_tasks_children [of h H n, unfolded assms(2) fst_conv]
  note gi = graph_inv_children [OF _ assms(2), of "into_heap N R"]
  have e: "explicit_deps (node_at h' m) = explicit_deps (node_at h m)" for m
    using gi assms(1) by (simp add: walkable_def execs_grow_def)
  have g: "graph_inv (into_heap N R) H h'" using gi assms(1) unfolding walkable_def by blast
  show "walkable H N R E h'"
    using assms(1) e same_tasks_view(1) [OF st] unfolding walkable_def by (simp only: g simp_thms)
  show "wkids (node_at h' m) = wkids (node_at h m)" "heap.more h' = heap.more h"
    using same_tasks_view(8) [OF st] st by (simp_all add: same_tasks_def)
  show "set l \<subseteq> into_heap N R `` {n} \<and> E `` {n} \<subseteq> set l" if "r = Inr l"
    using gi assms(1) that by (simp add: walkable_def)
qed

lemma default_walk_sel [simp]:
  "kids_func (default_walk H) n p h = children H n h" "cycle_func (default_walk H) n st h = h" "eval_func (default_walk H) n p h = h"
  by (simp_all add: default_walk_def get_children_def ignore_cycle_def do_nothing_def)

interpretation dw: walk_client "default_walk H" "walkable H N R E" N "into_heap N R" E "{}" "\<lambda>_. {}" "\<lambda>_. UNIV"
  for H N R E
proof unfold_locales
  fix h n p h' l
  assume "walkable H N R E h" "kids_func (default_walk H) n p h = (h', Inr l)"
  with walkable_children(4) [of H N R E h n h' "Inr l" l] show "set l \<subseteq> into_heap N R `` {n} \<and> E `` {n} \<subseteq> set l \<union> {}" by simp
next
  show "length (nodes h) = N" if "walkable H N R E h" for h :: "'a heap_scheme" using that by (simp add: walkable_def)
qed (auto simp: walkable_set_wkids into_heap_def dest: walkable_children(1,2))

end
