(* ===== verification/Waiting.thy ===== *)
theory Waiting
  imports Graph_Frame
begin

text \<open>
  The waiting relation and the reference counts. A parent \<open>p\<close> waits for \<open>c\<close> when \<open>p\<close> is in
  \<open>c.waiting_parents\<close>. The reference count of a node is the number of nodes it waits for; every
  operation of the taskmaster on these fields keeps it so. \<open>will_not_build\<close> marks exactly the
  given nodes and everything that waits for them, directly or through others, and
  \<open>find_cycle\<close> finds a cycle of the waiting relation exactly when there is one.
\<close>

abbreviation wp :: "'a heap_scheme \<Rightarrow> nid \<Rightarrow> nid list" where
  "wp h n \<equiv> waiting_parents (node_at h n)"

abbreviation rc :: "'a heap_scheme \<Rightarrow> nid \<Rightarrow> int" where
  "rc h n \<equiv> ref_count (node_at h n)"

definition waiters :: "'a heap_scheme \<Rightarrow> nid \<Rightarrow> nid set" where
  "waiters h p = {c. p \<in> set (wp h c)}"

definition ref_inv :: "'a heap_scheme \<Rightarrow> bool" where
  "ref_inv h \<longleftrightarrow> (\<forall>n. distinct (wp h n)) \<and> (\<forall>p. valid h p \<longrightarrow> rc h p = int (card (waiters h p)))"

lemma wp_invalid: "\<not> valid h n \<Longrightarrow> wp h n = []"
  by (simp add: node_at_invalid Node_init_def)

lemma finite_waiters [simp]: "finite (waiters h p)"
proof (rule finite_subset)
  show "waiters h p \<subseteq> {n. valid h n}"
    by (auto simp: waiters_def) (metis empty_iff empty_set wp_invalid)
qed (simp add: valid_def)

lemma ref_inv_init: "(\<And>n. wp h n = []) \<Longrightarrow> (\<And>n. rc h n = 0) \<Longrightarrow> ref_inv h"
  by (simp add: ref_inv_def waiters_def)

lemma ref_inv_cong:
  assumes "\<And>n. valid h' n = valid h n" "\<And>n. wp h' n = wp h n" "\<And>n. rc h' n = rc h n"
  shows "ref_inv h' = ref_inv h"
  using assms by (simp add: ref_inv_def waiters_def)

lemma ref_inv_same_tasks: "same_tasks h h' \<Longrightarrow> ref_inv h' = ref_inv h"
  by (rule ref_inv_cong) (simp_all add: same_tasks_view)

section \<open>Waiting for children\<close>

lemma add_to_waiting_parents_cases:
  "add_to_waiting_parents c n h = (if n \<in> set (wp h c) then (0, h)
     else (1, upd_node c (\<lambda>x. x\<lparr>waiting_parents := waiting_parents x @ [n]\<rparr>) h))"
  by (simp add: add_to_waiting_parents_def)

text \<open>One step of \<open>wait_for\<close>, as an update of the heap.\<close>

definition wait_one :: "nid \<Rightarrow> nid \<Rightarrow> 'a heap_scheme \<Rightarrow> 'a heap_scheme" where
  "wait_one n c h = (let (k, h1) = add_to_waiting_parents c n h
     in upd_node n (\<lambda>x. x\<lparr>ref_count := ref_count x + k\<rparr>) h1)"

lemma wait_for_fold: "wait_for n cs h = fold (wait_one n) cs h"
  by (induction cs arbitrary: h) (simp_all add: wait_one_def split: prod.split)

lemma valid_wait_one [simp]: "valid (wait_one n c h) m = valid h m"
  by (simp add: wait_one_def add_to_waiting_parents_def)

lemma more_wait_one [simp]: "heap.more (wait_one n c h) = heap.more h"
  by (simp add: wait_one_def add_to_waiting_parents_def upd_node_def)

lemma wp_wait_one:
  assumes "valid h c"
  shows "wp (wait_one n c h) m = (if m = c \<and> n \<notin> set (wp h c) then wp h m @ [n] else wp h m)"
  using assms
  by (auto simp: wait_one_def add_to_waiting_parents_def node_at_upd_node)

lemma rc_wait_one:
  assumes "valid h n"
  shows "rc (wait_one n c h) m = (if m = n \<and> n \<notin> set (wp h c) then rc h m + 1 else rc h m)"
  using assms
  by (auto simp: wait_one_def add_to_waiting_parents_def node_at_upd_node)

lemma keeps_wait_one:
  assumes "\<And>x f. p (x\<lparr>waiting_parents := f\<rparr>) = p x" and "\<And>x f. p (x\<lparr>ref_count := f\<rparr>) = p x"
  shows "p (node_at (wait_one n c h) m) = p (node_at h m)"
  using assms by (auto simp: wait_one_def add_to_waiting_parents_def node_at_upd_node)

lemma ref_inv_wait_one:
  assumes "ref_inv h" "valid h n" "valid h c"
  shows "ref_inv (wait_one n c h)"
proof (cases "n \<in> set (wp h c)")
  case True
  with assms show ?thesis
    by (simp add: ref_inv_def waiters_def wp_wait_one rc_wait_one)
next
  case False
  have w: "waiters (wait_one n c h) p = (if p = n then insert c (waiters h p) else waiters h p)" for p
    using assms(3) False by (auto simp: waiters_def wp_wait_one)
  have "c \<notin> waiters h n" using False by (simp add: waiters_def)
  with assms False show ?thesis
    by (auto simp: ref_inv_def w wp_wait_one rc_wait_one)
qed

lemma fold_keeps: "(\<And>x h. Q h \<Longrightarrow> x \<in> set xs \<Longrightarrow> Q (f x h)) \<Longrightarrow> Q h \<Longrightarrow> Q (fold f xs h)"
  by (induction xs arbitrary: h) auto

lemma fold_keeps_field:
  "(\<And>x h. x \<in> set xs \<Longrightarrow> p (f x h) = p h) \<Longrightarrow> p (fold f xs h) = p h"
  by (induction xs arbitrary: h) auto

lemma valid_wait_for [simp]: "valid (wait_for n cs h) m = valid h m"
  unfolding wait_for_fold by (rule fold_keeps_field [where p = "\<lambda>h. valid h m"]) simp

lemma more_wait_for [simp]: "heap.more (wait_for n cs h) = heap.more h"
  unfolding wait_for_fold by (rule fold_keeps_field) simp

lemma state_wait_for [simp]: "get_state (wait_for n cs h) m = get_state h m"
  unfolding wait_for_fold
  by (rule fold_keeps_field [where p = "\<lambda>h. get_state h m"]) (simp add: keeps_wait_one)

lemma side_effects_wait_for [simp]: "side_effects (node_at (wait_for n cs h) m) = side_effects (node_at h m)"
  unfolding wait_for_fold
  by (rule fold_keeps_field [where p = "\<lambda>h. side_effects (node_at h m)"]) (simp add: keeps_wait_one)

lemma ref_inv_wait_for:
  assumes "ref_inv h" "valid h n" "\<forall>c \<in> set cs. valid h c"
  shows "ref_inv (wait_for n cs h)"
proof -
  have "ref_inv (fold (wait_one n) cs h) \<and> (\<forall>m. valid (fold (wait_one n) cs h) m = valid h m)"
    by (rule fold_keeps [where Q = "\<lambda>h'. ref_inv h' \<and> (\<forall>m. valid h' m = valid h m)"])
      (use assms in \<open>auto intro: ref_inv_wait_one\<close>)
  then show ?thesis by (simp add: wait_for_fold)
qed

lemma set_wp_wait_for:
  assumes "\<forall>c \<in> set cs. valid h c"
  shows "set (wp (wait_for n cs h) m) = set (wp h m) \<union> (if m \<in> set cs then {n} else {})"
  using assms unfolding wait_for_fold
  by (induction cs arbitrary: h) (auto simp: wp_wait_one)

section \<open>Taking the parents off a node\<close>

lemma node_at_dec_ref:
  "node_at (dec_ref p h) m = (if m = p \<and> valid h p then (node_at h p)\<lparr>ref_count := rc h p - 1\<rparr> else node_at h m)"
  by (auto simp: dec_ref_def node_at_upd_node)

lemma valid_dec_ref [simp]: "valid (dec_ref p h) m = valid h m"
  by (simp add: dec_ref_def)

lemma valid_fold_dec_ref [simp]: "valid (fold dec_ref ps h) m = valid h m"
  by (rule fold_keeps_field [where p = "\<lambda>h. valid h m"]) simp

lemma fold_dec_ref_keeps:
  assumes "\<And>x f. p (x\<lparr>ref_count := f\<rparr>) = p x"
  shows "p (node_at (fold dec_ref ps h) m) = p (node_at h m)"
  by (rule fold_keeps_field [where p = "\<lambda>h. p (node_at h m)"]) (simp add: node_at_dec_ref assms)

lemma rc_fold_dec_ref:
  "distinct ps \<Longrightarrow> rc (fold dec_ref ps h) m = (if m \<in> set ps \<and> valid h m then rc h m - 1 else rc h m)"
  by (induction ps arbitrary: h) (auto simp: node_at_dec_ref)

lemma valid_take_parents [simp]: "valid (take_parents n h) m = valid h m"
  by (simp add: take_parents_def)

lemma more_take_parents [simp]: "heap.more (take_parents n h) = heap.more h"
  unfolding take_parents_def
  by (subst fold_keeps_field [where p = heap.more]) (simp_all add: dec_ref_def upd_node_def)

lemma take_parents_keeps:
  assumes "\<And>x f. p (x\<lparr>ref_count := f\<rparr>) = p x" and "\<And>x f. p (x\<lparr>waiting_parents := f\<rparr>) = p x"
  shows "p (node_at (take_parents n h) m) = p (node_at h m)"
  using assms by (simp add: take_parents_def fold_dec_ref_keeps node_at_upd_node)

lemma wp_take_parents: "wp (take_parents n h) m = (if m = n then [] else wp h m)"
  by (auto simp: take_parents_def fold_dec_ref_keeps node_at_upd_node wp_invalid)

lemma rc_take_parents:
  "distinct (wp h n) \<Longrightarrow> rc (take_parents n h) m = (if m \<in> set (wp h n) \<and> valid h m then rc h m - 1 else rc h m)"
  by (simp add: take_parents_def rc_fold_dec_ref node_at_upd_node)

lemma ref_inv_take_parents: "ref_inv h \<Longrightarrow> ref_inv (take_parents n h)"
proof -
  assume inv: "ref_inv h"
  then have d: "distinct (wp h n)" by (simp add: ref_inv_def)
  have w: "waiters (take_parents n h) p = waiters h p - {n}" for p
    by (auto simp: waiters_def wp_take_parents)
  have "n \<in> waiters h p \<longleftrightarrow> p \<in> set (wp h n)" for p by (simp add: waiters_def)
  moreover have "n \<in> waiters h p \<Longrightarrow> int (card (waiters h p - {n})) = int (card (waiters h p)) - 1" for p
    by (simp add: card_Diff_singleton) (metis One_nat_def card_gt_0_iff empty_iff finite_waiters int_ops(2) of_nat_diff Suc_leI)
  ultimately show ?thesis
    using inv by (auto simp: ref_inv_def w wp_take_parents rc_take_parents [OF d])
qed

section \<open>will_not_build\<close>

definition waits :: "'a heap_scheme \<Rightarrow> (nid \<times> nid) set" where
  "waits h = {(c, p). p \<in> set (wp h c)}"

lemma waits_Image: "waits h `` {n} = set (wp h n)"
  by (auto simp: waits_def)

lemma waits_mark_node [simp]: "waits (mark_node m n h) = waits h"
  by (simp add: waits_def)

lemma waits_take_parents: "waits (take_parents n h) = {(c, p) \<in> waits h. c \<noteq> n}"
  by (auto simp: waits_def wp_take_parents split: if_splits)

lemma valid_mark_node [simp]: "valid (mark_node m n h) k = valid h k"
  by (simp add: mark_node_def set_state_def split: option.split)

lemma more_mark_node [simp]: "heap.more (mark_node m n h) = heap.more h"
  by (simp add: mark_node_def set_state_def upd_node_def split: option.split)

lemma mark_node_keeps:
  assumes "\<And>x f. p (x\<lparr>state := f\<rparr>) = p x"
  shows "p (node_at (mark_node m n h) k) = p (node_at h k)"
  using assms by (simp add: mark_node_def set_state_def node_at_upd_node split: option.split)

lemma state_mark_node:
  "get_state (mark_node m n h) k = (case m of None \<Rightarrow> get_state h k
     | Some s \<Rightarrow> if k = n \<and> valid h n then s else get_state h k)"
  by (auto simp: mark_node_def set_state_def node_at_upd_node split: option.split)

text \<open>Reachability after one node's edges have been followed and removed.\<close>

lemma rtrancl_Image_remove:
  fixes W :: "('b \<times> 'b) set"
  shows "W\<^sup>* `` insert n T = insert n ({(c, p) \<in> W. c \<noteq> n}\<^sup>* `` (T \<union> W `` {n}))"
    (is "_ = insert n (?W\<^sup>* `` ?T)")
proof (intro equalityI subsetI)
  fix x assume "x \<in> W\<^sup>* `` insert n T"
  then obtain y where "(y, x) \<in> W\<^sup>*" and y: "y \<in> insert n T" by blast
  then show "x \<in> insert n (?W\<^sup>* `` ?T)"
  proof (induction rule: rtrancl_induct)
    case (step x z)
    show ?case
    proof (cases "x = n")
      case True
      with step have "z \<in> ?T" by auto
      then show ?thesis by blast
    next
      case False
      with step obtain u where u: "u \<in> ?T" "(u, x) \<in> ?W\<^sup>*" by blast
      from False step have "(x, z) \<in> ?W" by simp
      with u(2) have "(u, z) \<in> ?W\<^sup>*" by (rule rtrancl_into_rtrancl)
      with u(1) show ?thesis by blast
    qed
  qed blast
next
  fix x assume "x \<in> insert n (?W\<^sup>* `` ?T)"
  then consider "x = n" | y where "y \<in> ?T" "(y, x) \<in> ?W\<^sup>*" by blast
  then show "x \<in> W\<^sup>* `` insert n T"
  proof cases
    case 2
    have "?W\<^sup>* \<subseteq> W\<^sup>*" by (rule rtrancl_mono) auto
    with 2 have "(y, x) \<in> W\<^sup>*" by blast
    with 2(1) show ?thesis by (auto intro: converse_rtrancl_into_rtrancl)
  qed auto
qed

lemma trancl_Image_remove:
  fixes W :: "('b \<times> 'b) set"
  shows "W\<^sup>+ `` insert n T = W `` {n} \<union> {(c, p) \<in> W. c \<noteq> n}\<^sup>+ `` (T \<union> W `` {n})"
    (is "_ = _ \<union> ?W\<^sup>+ `` ?T")
proof (intro equalityI subsetI)
  fix x assume "x \<in> W\<^sup>+ `` insert n T"
  then obtain y where "(y, x) \<in> W\<^sup>+" and y: "y \<in> insert n T" by blast
  then show "x \<in> W `` {n} \<union> ?W\<^sup>+ `` ?T"
  proof (induction rule: trancl_induct)
    case (base x)
    then show ?case by (cases "y = n") auto
  next
    case (step x z)
    show ?case
    proof (cases "x = n")
      case False
      with step have W: "(x, z) \<in> ?W" by simp
      from step consider "x \<in> W `` {n}" | u where "u \<in> ?T" "(u, x) \<in> ?W\<^sup>+" by blast
      then show ?thesis using W by cases (blast intro: trancl_into_trancl)+
    qed (use step in auto)
  qed
next
  fix x assume "x \<in> W `` {n} \<union> ?W\<^sup>+ `` ?T"
  then consider "(n, x) \<in> W" | y where "y \<in> ?T" "(y, x) \<in> ?W\<^sup>+" by blast
  then show "x \<in> W\<^sup>+ `` insert n T"
  proof cases
    case 2
    have "?W\<^sup>+ \<subseteq> W\<^sup>+" by (rule trancl_mono_subset) auto
    with 2 have "(y, x) \<in> W\<^sup>+" by blast
    with 2(1) show ?thesis by (auto intro: trancl_into_trancl2)
  qed auto
qed

abbreviation dependents :: "'a heap_scheme \<Rightarrow> nid list \<Rightarrow> nid set" where
  "dependents h ns \<equiv> (waits h)\<^sup>* `` set ns"

lemma dependents_step:
  "dependents h (n # tv) = insert n (dependents (take_parents n (mark_node m n h)) (set_union tv (wp (mark_node m n h) n)))"
  by (simp add: waits_take_parents rtrancl_Image_remove [of "waits h" n "set tv"] waits_Image)

lemma will_not_build_loop_frame:
  "heap.more (snd (will_not_build_loop m tv pc h)) = heap.more h"
  "valid (snd (will_not_build_loop m tv pc h)) k = valid h k"
  "side_effects (node_at (snd (will_not_build_loop m tv pc h)) k) = side_effects (node_at h k)"
  by (induction m tv pc h rule: will_not_build_loop.induct)
    (simp_all add: Let_def mark_node_keeps take_parents_keeps)

lemma will_not_build_loop_wp:
  "wp (snd (will_not_build_loop m tv pc h)) k = (if k \<in> dependents h tv then [] else wp h k)"
proof (induction m tv pc h rule: will_not_build_loop.induct)
  case (2 m n tv pc h)
  show ?case
    unfolding dependents_step [of h n tv m] using "2.IH" [OF refl refl]
    by (simp add: Let_def wp_take_parents)
qed simp

lemma will_not_build_loop_state:
  "get_state (snd (will_not_build_loop (Some st) tv pc h)) k =
     (if valid h k \<and> k \<in> dependents h tv then st else get_state h k)"
proof (induction "Some st" tv pc h rule: will_not_build_loop.induct)
  case (2 n tv pc h)
  show ?case
    unfolding dependents_step [of h n tv "Some st"] using "2.hyps" [OF refl refl]
    by (auto simp: Let_def take_parents_keeps state_mark_node)
qed simp

lemma will_not_build_loop_pending:
  "set (fst (will_not_build_loop m tv pc h)) = set pc - (waits h)\<^sup>+ `` set tv"
proof (induction m tv pc h rule: will_not_build_loop.induct)
  case (2 m n tv pc h)
  show ?case
    using "2.IH" [OF refl refl] trancl_Image_remove [of "waits h" n "set tv"]
    by (auto simp: Let_def waits_take_parents waits_Image)
qed simp

lemma ref_inv_mark_node: "ref_inv (mark_node m n h) = ref_inv h"
  by (rule ref_inv_cong) (simp_all add: mark_node_keeps)

lemma ref_inv_will_not_build_loop: "ref_inv h \<Longrightarrow> ref_inv (snd (will_not_build_loop m tv pc h))"
  by (induction m tv pc h rule: will_not_build_loop.induct)
    (simp_all add: Let_def ref_inv_take_parents ref_inv_mark_node)

section \<open>find_cycle\<close>

abbreviation waits_path :: "'a heap_scheme \<Rightarrow> nid list \<Rightarrow> bool" where
  "waits_path h \<equiv> successively (\<lambda>c p. p \<in> set (wp h c))"

lemma find_cycle_kids_sound:
  assumes "find_cycle_kids h stack vis ps = (Some r, v)" "stack \<noteq> []" "waits_path h stack"
    "set ps \<subseteq> set (wp h (last stack))"
  shows "waits_path h r \<and> hd r = hd stack \<and> last r = hd stack \<and> length stack < length r"
  using assms
proof (induction h stack vis ps arbitrary: r v rule: find_cycle_kids.induct)
  case (2 h stack vis p ps)
  have path: "waits_path h (stack @ [p])"
    using "2.prems" by (simp add: successively_append_iff)
  consider (hit) "hd stack = p" | (seen) "hd stack \<noteq> p" "p \<in> set vis"
    | (down) "hd stack \<noteq> p" "p \<notin> set vis" by blast
  then show ?case
  proof cases
    case hit
    with "2.prems" path show ?thesis by auto
  next
    case seen
    with "2.IH"(1) "2.prems" show ?thesis by simp
  next
    case down
    obtain c v' where c: "find_cycle_kids h (stack @ [p]) (p # vis) (wp h p) = (c, v')" by fastforce
    show ?thesis
    proof (cases c)
      case None
      with "2.prems" down c have "find_cycle_kids h stack v' ps = (Some r, v)" by simp
      then show ?thesis using "2.IH"(3) [OF down(1,2) c [symmetric] None] "2.prems" by simp
    next
      case (Some r')
      with "2.prems" down c have "r' = r" by simp
      with "2.IH"(2) [OF down(1,2)] c Some path "2.prems"(2) show ?thesis by simp
    qed
  qed
qed simp

lemma find_cycle_kids_mono: "set vis \<subseteq> set (snd (find_cycle_kids h stack vis ps))"
proof (induction h stack vis ps rule: find_cycle_kids.induct)
  case (2 h stack vis p ps)
  obtain c v where c: "find_cycle_kids h (stack @ [p]) (p # vis) (wp h p) = (c, v)" by fastforce
  show ?case
  proof (cases "hd stack = p \<or> p \<in> set vis")
    case False
    with "2.IH"(2) c have "set vis \<subseteq> set v" by simp
    with "2.IH"(3) [OF _ _ c [symmetric]] False c show ?thesis by (cases c) auto
  qed (use "2.IH"(1) in auto)
qed simp

text \<open>A search that finds nothing has explored everything it can reach without meeting the root.\<close>

definition explored :: "'a heap_scheme \<Rightarrow> nid \<Rightarrow> nid set \<Rightarrow> nid set \<Rightarrow> bool" where
  "explored h root X v \<longleftrightarrow> (\<forall>x \<in> X. set (wp h x) \<subseteq> v - {root})"

lemma explored_mono: "explored h root X v \<Longrightarrow> X' \<subseteq> X \<Longrightarrow> v \<subseteq> v' \<Longrightarrow> explored h root X' v'"
  by (fastforce simp: explored_def)

lemma explored_Un: "explored h root (X \<union> Y) v \<longleftrightarrow> explored h root X v \<and> explored h root Y v"
  by (auto simp: explored_def)

lemma find_cycle_kids_complete:
  assumes "find_cycle_kids h stack vis ps = (None, v)" "stack \<noteq> []"
  shows "set ps \<subseteq> set v - {hd stack} \<and> explored h (hd stack) (set v - set vis) (set v)"
  using assms
proof (induction h stack vis ps arbitrary: v rule: find_cycle_kids.induct)
  case (1 h stack vis)
  then show ?case by (simp add: explored_def)
next
  case (2 h stack vis p ps)
  let ?root = "hd stack"
  from "2.prems" have root: "?root \<noteq> p" by (auto split: if_splits)
  show ?case
  proof (cases "p \<in> set vis")
    case True
    with root "2.prems" have "find_cycle_kids h stack vis ps = (None, v)" by simp
    moreover from this have "p \<in> set v"
      using find_cycle_kids_mono [of vis h stack ps] True by auto
    ultimately show ?thesis using "2.IH"(1) [OF root True] "2.prems"(2) root by simp
  next
    case False
    obtain c v1 where c: "find_cycle_kids h (stack @ [p]) (p # vis) (wp h p) = (c, v1)" by fastforce
    with root False "2.prems" have None: "c = None" by (cases c) auto
    with c root False "2.prems" have rest: "find_cycle_kids h stack v1 ps = (None, v)" by simp
    have in1: "set (wp h p) \<subseteq> set v1 - {?root}"
      and ex1: "explored h ?root (set v1 - set (p # vis)) (set v1)"
      using "2.IH"(2) [OF root False] c None "2.prems"(2) by auto
    have in2: "set ps \<subseteq> set v - {?root}" and ex2: "explored h ?root (set v - set v1) (set v)"
      using "2.IH"(3) [OF root False c [symmetric] None rest] "2.prems"(2) by auto
    have p1: "insert p (set vis) \<subseteq> set v1"
      using find_cycle_kids_mono [of "p # vis" h "stack @ [p]" "wp h p"] c by simp
    have v1: "set v1 \<subseteq> set v"
      using find_cycle_kids_mono [of v1 h stack ps] rest by simp
    have "explored h ?root (set v1 - set vis) (set v)"
    proof -
      have "explored h ?root {p} (set v)" using in1 v1 by (auto simp: explored_def)
      moreover have "explored h ?root (set v1 - set (p # vis)) (set v)"
        using ex1 v1 by (rule explored_mono [OF _ subset_refl])
      ultimately have "explored h ?root ({p} \<union> (set v1 - set (p # vis))) (set v)"
        by (simp only: explored_Un)
      then show ?thesis by (rule explored_mono) auto
    qed
    with ex2 have "explored h ?root ((set v1 - set vis) \<union> (set v - set v1)) (set v)"
      by (simp add: explored_Un)
    then have "explored h ?root (set v - set vis) (set v)" by (rule explored_mono) auto
    moreover have "set (p # ps) \<subseteq> set v - {?root}" using in2 p1 v1 root by auto
    ultimately show ?thesis by simp
  qed
qed

lemma waits_path_trancl:
  assumes "waits_path h xs" "2 \<le> length xs" shows "(hd xs, last xs) \<in> (waits h)\<^sup>+"
  using assms
proof (induction xs rule: induct_list012)
  case (3 x y zs)
  then have xy: "(x, y) \<in> waits h" by (simp add: waits_def)
  show ?case
  proof (cases zs)
    case (Cons z zs')
    with 3 have "(y, last (y # zs)) \<in> (waits h)\<^sup>+" by simp
    with xy show ?thesis by (auto simp: Cons intro: trancl_into_trancl2)
  qed (use xy in auto)
qed auto

lemma find_cycle_Some:
  assumes "find_cycle h n = Some c"
  shows "waits_path h c \<and> hd c = n \<and> last c = n \<and> 2 \<le> length c"
proof -
  obtain v where "find_cycle_kids h [n] [n] (wp h n) = (Some c, v)"
    using assms by (cases "find_cycle_kids h [n] [n] (wp h n)") (simp add: find_cycle_def)
  from find_cycle_kids_sound [OF this] show ?thesis by auto
qed

lemma find_cycle_None:
  assumes "find_cycle h n = None" shows "(n, n) \<notin> (waits h)\<^sup>+"
proof
  assume cyc: "(n, n) \<in> (waits h)\<^sup>+"
  obtain v where "find_cycle_kids h [n] [n] (wp h n) = (None, v)"
    using assms by (cases "find_cycle_kids h [n] [n] (wp h n)") (simp add: find_cycle_def)
  from find_cycle_kids_complete [OF this]
  have first: "set (wp h n) \<subseteq> set v - {n}" and ex: "explored h n (set v - {n}) (set v)" by auto
  have "x \<in> set v - {n}" if "(n, x) \<in> (waits h)\<^sup>+" for x
    using that
  proof (induction rule: trancl_induct)
    case (base y) then show ?case using first by (auto simp: waits_def)
  next
    case (step y z) then show ?case using ex by (auto simp: waits_def explored_def)
  qed
  with cyc show False by blast
qed

lemma find_cycle_iff: "find_cycle h n \<noteq> None \<longleftrightarrow> (n, n) \<in> (waits h)\<^sup>+"
proof
  assume "find_cycle h n \<noteq> None"
  then obtain c where "find_cycle h n = Some c" by blast
  from find_cycle_Some [OF this] waits_path_trancl [of h c] show "(n, n) \<in> (waits h)\<^sup>+" by auto
qed (use find_cycle_None in blast)

end
