(* ===== verification/Postprocess.thy ===== *)
theory Postprocess
  imports Waiting
begin

text \<open>
  \<open>Task.postprocess\<close>: what it does to reference counts, waiting parents and the candidate
  list when no side effect of the targets is being built (the state \<open>executed\<close> leaves).
\<close>

section \<open>The parents dictionary\<close>

definition cnt :: "(nid \<times> int) list \<Rightarrow> nid \<Rightarrow> int" where
  "cnt ps p = (case map_of ps p of None \<Rightarrow> 0 | Some k \<Rightarrow> k)"

lemma cnt_simps [simp]:
  "cnt [] p = 0" "cnt ((q, k) # ps) p = (if p = q then k else cnt ps p)"
  by (simp_all add: cnt_def)

lemma cnt_count_up: "cnt (count_up q ps) p = cnt ps p + (if p = q then 1 else 0)"
  by (induction q ps rule: count_up.induct) auto

lemma keys_count_up: "fst ` set (count_up q ps) = insert q (fst ` set ps)"
  by (induction q ps rule: count_up.induct) auto

lemma distinct_keys_count_up: "distinct (map fst ps) \<Longrightarrow> distinct (map fst (count_up q ps))"
  by (induction q ps rule: count_up.induct) (auto simp: keys_count_up)

lemma cnt_fold_count_up: "distinct qs \<Longrightarrow> cnt (fold count_up qs ps) p = cnt ps p + (if p \<in> set qs then 1 else 0)"
  by (induction qs arbitrary: ps) (auto simp: cnt_count_up)

lemma keys_fold_count_up: "fst ` set (fold count_up qs ps) = fst ` set ps \<union> set qs"
  by (induction qs arbitrary: ps) (auto simp: keys_count_up)

lemma distinct_keys_fold_count_up: "distinct (map fst ps) \<Longrightarrow> distinct (map fst (fold count_up qs ps))"
  by (induction qs arbitrary: ps) (auto intro: distinct_keys_count_up)

section \<open>The loops\<close>

lemma node_at_taskmaster_updates [simp]:
  "node_at (s\<lparr>pending_children := pc\<rparr>) n = node_at s n"
  "node_at (s\<lparr>candidates := cs\<rparr>) n = node_at s n"
  "node_at (s\<lparr>ready_exc := x\<rparr>) n = node_at s n"
  "node_at (s\<lparr>message := m\<rparr>) n = node_at s n"
  "node_at (s\<lparr>top_targets_left := ts\<rparr>) n = node_at s n"
  "node_at (s\<lparr>current_top := c\<rparr>) n = node_at s n"
  "node_at (s\<lparr>stopped := b\<rparr>) n = node_at s n"
  by (simp_all add: node_at_def)

lemma valid_taskmaster_updates [simp]:
  "valid (s\<lparr>pending_children := pc\<rparr>) n = valid s n"
  "valid (s\<lparr>candidates := cs\<rparr>) n = valid s n"
  "valid (s\<lparr>ready_exc := x\<rparr>) n = valid s n"
  "valid (s\<lparr>message := m\<rparr>) n = valid s n"
  "valid (s\<lparr>top_targets_left := ts\<rparr>) n = valid s n"
  "valid (s\<lparr>current_top := c\<rparr>) n = valid s n"
  "valid (s\<lparr>stopped := b\<rparr>) n = valid s n"
  by (simp_all add: valid_def)

definition drop_pending :: "nid list \<Rightarrow> taskmaster \<Rightarrow> taskmaster" where
  "drop_pending ts s = s\<lparr>pending_children := filter (\<lambda>x. \<not> (x \<in> set ts \<and> wp s x \<noteq> [])) (pending_children s)\<rparr>"

lemma drop_pending_Nil [simp]: "drop_pending [] s = s"
  by (simp add: drop_pending_def)

lemma postprocess_target_eq:
  "postprocess_target t (ps, s) = (fold count_up (wp s t) ps, drop_pending [t] s)"
  by (auto simp: postprocess_target_def drop_pending_def Let_def intro!: filter_cong [OF refl])

lemma drop_pending_Cons: "drop_pending ts (drop_pending [t] s) = drop_pending (t # ts) s"
  by (auto simp: drop_pending_def intro!: filter_cong [OF refl] arg_cong2 [where f = pending_children_update])

lemma fold_postprocess_target:
  "fold postprocess_target ts (ps, s) = (fold (\<lambda>t. fold count_up (wp s t)) ts ps, drop_pending ts s)"
proof (induction ts arbitrary: ps s)
  case (Cons t ts)
  have "wp (drop_pending [t] s) n = wp s n" for n by (simp add: drop_pending_def)
  with Cons show ?case by (simp add: postprocess_target_eq drop_pending_Cons)
qed simp

lemma cnt_fold_targets:
  assumes "\<forall>t. distinct (wp h t)" "distinct ts"
  shows "cnt (fold (\<lambda>t. fold count_up (wp h t)) ts ps) p = cnt ps p + int (card {t \<in> set ts. p \<in> set (wp h t)})"
  using assms(2)
proof (induction ts arbitrary: ps)
  case (Cons t ts)
  have "{u \<in> set (t # ts). p \<in> set (wp h u)}
      = (if p \<in> set (wp h t) then insert t {u \<in> set ts. p \<in> set (wp h u)} else {u \<in> set ts. p \<in> set (wp h u)})"
    by auto
  with Cons assms(1) show ?case by (simp add: cnt_fold_count_up)
qed simp

lemma distinct_keys_fold_targets:
  "distinct (map fst ps) \<Longrightarrow> distinct (map fst (fold (\<lambda>t. fold count_up (wp h t)) ts ps))"
  by (induction ts arbitrary: ps) (auto intro: distinct_keys_fold_count_up)

lemma keys_fold_targets:
  "fst ` set (fold (\<lambda>t. fold count_up (wp h t)) ts ps) = fst ` set ps \<union> (\<Union>t \<in> set ts. set (wp h t))"
  by (induction ts arbitrary: ps) (auto simp: keys_fold_count_up)

lemma more_fold_upd [simp]: "heap.more (upd_node n f s) = heap.more s"
  by (simp add: upd_node_def)

lemma taskmaster_fields_upd_node [simp]:
  "candidates (upd_node n f s) = candidates s" "pending_children (upd_node n f s) = pending_children s"
  "top_targets_left (upd_node n f s) = top_targets_left s" "original_top (upd_node n f s) = original_top s"
  "stopped (upd_node n f s) = stopped s" "order (upd_node n f s) = order s"
  "ready_exc (upd_node n f s) = ready_exc s" "current_top (upd_node n f s) = current_top s"
  by (simp_all add: upd_node_def)

definition ready_parents :: "taskmaster \<Rightarrow> (nid \<times> int) list \<Rightarrow> nid list" where
  "ready_parents s ps = map fst (filter (\<lambda>(p, k). rc s p - k = 0) ps)"

lemma fold_postprocess_parent:
  assumes "distinct (map fst ps)" "\<forall>p \<in> fst ` set ps. valid s p"
  shows "(\<forall>n. valid (fold postprocess_parent ps s) n = valid s n) \<and>
    (\<forall>n. rc (fold postprocess_parent ps s) n = rc s n - cnt ps n) \<and>
    candidates (fold postprocess_parent ps s) = candidates s @ ready_parents s ps"
  using assms
proof (induction ps arbitrary: s)
  case (Cons pk ps)
  obtain p k where pk: "pk = (p, k)" by fastforce
  let ?s = "postprocess_parent (p, k) s"
  have v: "valid ?s m = valid s m" for m by (simp add: postprocess_parent_def Let_def)
  have pv: "valid s p" using Cons.prems pk by simp
  have rcs: "rc ?s m = (if m = p then rc s m - k else rc s m)" for m
    using pv by (simp add: postprocess_parent_def Let_def node_at_upd_node)
  have cs: "candidates ?s = candidates s @ (if rc s p - k = 0 then [p] else [])"
    using pv by (simp add: postprocess_parent_def Let_def node_at_upd_node)
  have fresh: "p \<notin> fst ` set ps" using Cons.prems pk by (auto simp: image_iff)
  then have zero: "cnt ps p = 0" by (simp add: cnt_def map_of_eq_None_iff [THEN iffD2])
  have same: "ready_parents ?s ps = ready_parents s ps"
    using fresh by (force simp: ready_parents_def rcs intro!: arg_cong [where f = "map fst"] filter_cong)
  have "distinct (map fst ps)" "\<forall>p \<in> fst ` set ps. valid ?s p"
    using Cons.prems by (auto simp: v)
  from Cons.IH [OF this] zero show ?case
    by (simp add: pk v rcs cs same) (simp add: ready_parents_def)
qed (simp add: ready_parents_def)

lemma fold_postprocess_parent_keeps:
  assumes "\<And>x f. p (x\<lparr>ref_count := f\<rparr>) = p x"
  shows "p (node_at (fold postprocess_parent ps s) n) = p (node_at s n)"
  by (rule fold_keeps_field [where p = "\<lambda>s. p (node_at s n)"])
    (simp add: postprocess_parent_def Let_def node_at_upd_node assms split: prod.split)

lemma fold_postprocess_parent_fields:
  "pending_children (fold postprocess_parent ps s) = pending_children s"
  "top_targets_left (fold postprocess_parent ps s) = top_targets_left s"
  "original_top (fold postprocess_parent ps s) = original_top s"
  "stopped (fold postprocess_parent ps s) = stopped s" "order (fold postprocess_parent ps s) = order s"
  "ready_exc (fold postprocess_parent ps s) = ready_exc s"
  by (rule fold_keeps_field; simp add: postprocess_parent_def Let_def split: prod.split)+

section \<open>Side effects that are not being built\<close>

definition idle_side_effects :: "nid list \<Rightarrow> taskmaster \<Rightarrow> bool" where
  "idle_side_effects ts s \<longleftrightarrow> (\<forall>t \<in> set ts. \<forall>e \<in> set (side_effects (node_at s t)). get_state s e \<noteq> executing)"

definition freed_waiters :: "taskmaster \<Rightarrow> nid list \<Rightarrow> nid list" where
  "freed_waiters s ts = concat (map (\<lambda>t. concat (map (\<lambda>e. filter (\<lambda>p. rc s p = 0) (waiting_s_e (node_at s e)))
     (side_effects (node_at s t)))) ts)"

definition add_candidates :: "nid list \<Rightarrow> taskmaster \<Rightarrow> taskmaster" where
  "add_candidates ns s = s\<lparr>candidates := candidates s @ ns\<rparr>"

lemma add_candidates_simps [simp]:
  "node_at (add_candidates ns s) = node_at s" "valid (add_candidates ns s) = valid s"
  "add_candidates [] s = s" "add_candidates ms (add_candidates ns s) = add_candidates (ns @ ms) s"
  "candidates (add_candidates ns s) = candidates s @ ns"
  "pending_children (add_candidates ns s) = pending_children s"
  "top_targets_left (add_candidates ns s) = top_targets_left s"
  "original_top (add_candidates ns s) = original_top s"
  "stopped (add_candidates ns s) = stopped s" "order (add_candidates ns s) = order s"
  "ready_exc (add_candidates ns s) = ready_exc s"
  by (auto simp: add_candidates_def)

lemma fold_postprocess_side_effect_idle:
  "\<forall>e \<in> set es. get_state s e \<noteq> executing \<Longrightarrow> fold postprocess_side_effect es (ps, s) =
     (ps, add_candidates (concat (map (\<lambda>e. filter (\<lambda>p. rc s p = 0) (waiting_s_e (node_at s e))) es)) s)"
proof (induction es arbitrary: s)
  case (Cons e es)
  have "postprocess_side_effect e (ps, s) =
      (ps, add_candidates (filter (\<lambda>p. rc s p = 0) (waiting_s_e (node_at s e))) s)"
    using Cons.prems by (simp add: postprocess_side_effect_def add_candidates_def)
  with Cons show ?case by simp
qed simp

lemma fold_side_effects_idle:
  "idle_side_effects ts s \<Longrightarrow>
     fold (\<lambda>t ps_s. fold postprocess_side_effect (side_effects (node_at (snd ps_s) t)) ps_s) ts (ps, s)
     = (ps, add_candidates (freed_waiters s ts) s)"
proof (induction ts arbitrary: s)
  case (Cons t ts)
  then show ?case
    by (simp add: fold_postprocess_side_effect_idle idle_side_effects_def freed_waiters_def)
qed (simp add: freed_waiters_def)

section \<open>The whole of postprocess\<close>

lemma node_postprocess_fields:
  "valid (node_postprocess n s) m = valid s m"
  "rc (node_postprocess n s) m = rc s m" "get_state (node_postprocess n s) m = get_state s m"
  "wp (node_postprocess n s) m = (if m = n then [] else wp s m)"
  "side_effects (node_at (node_postprocess n s) m) = side_effects (node_at s m)"
  "heap.more (node_postprocess n s) = heap.more s"
proof -
  have c: "same_tasks s (executor_cleanup n s)" by (rule same_tasks_executor_cleanup)
  show "valid (node_postprocess n s) m = valid s m" "rc (node_postprocess n s) m = rc s m"
    "get_state (node_postprocess n s) m = get_state s m"
    "side_effects (node_at (node_postprocess n s) m) = side_effects (node_at s m)"
    "wp (node_postprocess n s) m = (if m = n then [] else wp s m)"
    using same_tasks_view [OF c]
    by (auto simp: node_postprocess_def node_at_upd_node wp_invalid)
  show "heap.more (node_postprocess n s) = heap.more s"
    using c by (simp add: node_postprocess_def same_tasks_def)
qed

lemma fold_node_postprocess_fields:
  "valid (fold node_postprocess ns s) m = valid s m"
  "rc (fold node_postprocess ns s) m = rc s m" "get_state (fold node_postprocess ns s) m = get_state s m"
  "wp (fold node_postprocess ns s) m = (if m \<in> set ns then [] else wp s m)"
  "side_effects (node_at (fold node_postprocess ns s) m) = side_effects (node_at s m)"
  "heap.more (fold node_postprocess ns s) = heap.more s"
  by (induction ns arbitrary: s) (auto simp: node_postprocess_fields)

text \<open>The parents of the targets, with the number of targets each was waiting for.\<close>

definition released :: "taskmaster \<Rightarrow> nid list \<Rightarrow> (nid \<times> int) list" where
  "released s ts = fold (\<lambda>t. fold count_up (wp s t)) ts []"

lemma keys_released: "fst ` set (released s ts) = (\<Union>t \<in> set ts. set (wp s t))"
  by (simp add: released_def keys_fold_targets)

lemma cnt_released:
  "ref_inv s \<Longrightarrow> distinct ts \<Longrightarrow> cnt (released s ts) p = int (card {t \<in> set ts. p \<in> set (wp s t)})"
  unfolding released_def by (subst cnt_fold_targets) (auto simp: ref_inv_def)

lemma distinct_released: "distinct (map fst (released s ts))"
  unfolding released_def by (rule distinct_keys_fold_targets) simp

lemma postprocess_eq:
  assumes "idle_side_effects (t_targets t) s"
  shows "postprocess t s = (let ts = fold set_add (t_targets t) [] in
    fold node_postprocess ts (fold postprocess_parent (released s ts)
      (add_candidates (freed_waiters s ts) (drop_pending ts s))))"
proof -
  have "idle_side_effects (fold set_add (t_targets t) []) (drop_pending ts s)" for ts
    using assms by (simp add: idle_side_effects_def drop_pending_def)
  moreover have "freed_waiters (drop_pending ts s) us = freed_waiters s us" for ts us
    by (simp add: freed_waiters_def drop_pending_def)
  ultimately show ?thesis
    by (simp add: postprocess_def Let_def fold_postprocess_target fold_side_effects_idle released_def)
qed

definition wp_valid :: "'a heap_scheme \<Rightarrow> bool" where
  "wp_valid h \<longleftrightarrow> (\<forall>n. \<forall>p \<in> set (wp h n). valid h p)"

text \<open>Field by field; \<open>ts\<close> are the targets without repetitions.\<close>

lemma postprocess_fields:
  assumes idle: "idle_side_effects (t_targets t) s" and wpv: "wp_valid s"
  defines "ts \<equiv> fold set_add (t_targets t) []"
  shows "valid (postprocess t s) m = valid s m"
    and "get_state (postprocess t s) m = get_state s m"
    and "side_effects (node_at (postprocess t s) m) = side_effects (node_at s m)"
    and "wp (postprocess t s) m = (if m \<in> set (t_targets t) then [] else wp s m)"
    and "rc (postprocess t s) m = rc s m - cnt (released s ts) m"
    and "candidates (postprocess t s) = candidates s @ freed_waiters s ts @ ready_parents s (released s ts)"
    and "top_targets_left (postprocess t s) = top_targets_left s"
    and "original_top (postprocess t s) = original_top s"
    and "stopped (postprocess t s) = stopped s" and "order (postprocess t s) = order s"
    and "set (pending_children (postprocess t s)) \<subseteq> set (pending_children s)"
proof -
  let ?s1 = "add_candidates (freed_waiters s ts) (drop_pending ts s)"
  let ?s2 = "fold postprocess_parent (released s ts) ?s1"
  have eq: "postprocess t s = fold node_postprocess ts ?s2"
    using postprocess_eq [OF idle] by (simp add: ts_def Let_def)
  have d: "node_at (drop_pending us s) = node_at s" "valid (drop_pending us s) = valid s"
    "candidates (drop_pending us s) = candidates s" "top_targets_left (drop_pending us s) = top_targets_left s"
    "original_top (drop_pending us s) = original_top s" "stopped (drop_pending us s) = stopped s"
    "order (drop_pending us s) = order s" "set (pending_children (drop_pending us s)) \<subseteq> set (pending_children s)" for us
    by (auto simp: drop_pending_def)
  have "\<forall>p \<in> fst ` set (released s ts). valid ?s1 p"
    using wpv by (auto simp: keys_released wp_valid_def d)
  note par = fold_postprocess_parent [OF distinct_released this]
  have rp: "ready_parents ?s1 ps = ready_parents s ps" for ps by (simp add: ready_parents_def d)
  have more: "candidates (fold node_postprocess ts ?s2) = candidates ?s2"
    "top_targets_left (fold node_postprocess ts ?s2) = top_targets_left ?s2"
    "original_top (fold node_postprocess ts ?s2) = original_top ?s2"
    "stopped (fold node_postprocess ts ?s2) = stopped ?s2" "order (fold node_postprocess ts ?s2) = order ?s2"
    "pending_children (fold node_postprocess ts ?s2) = pending_children ?s2"
    using more_eq_fields [OF fold_node_postprocess_fields(6), of ts ?s2] by simp_all
  have set_ts: "set ts = set (t_targets t)" by (simp add: ts_def)
  show "valid (postprocess t s) m = valid s m" "get_state (postprocess t s) m = get_state s m"
    "side_effects (node_at (postprocess t s) m) = side_effects (node_at s m)"
    "wp (postprocess t s) m = (if m \<in> set (t_targets t) then [] else wp s m)"
    "rc (postprocess t s) m = rc s m - cnt (released s ts) m"
    "candidates (postprocess t s) = candidates s @ freed_waiters s ts @ ready_parents s (released s ts)"
    "top_targets_left (postprocess t s) = top_targets_left s"
    "original_top (postprocess t s) = original_top s"
    "stopped (postprocess t s) = stopped s" "order (postprocess t s) = order s"
    "set (pending_children (postprocess t s)) \<subseteq> set (pending_children s)"
    using par by (simp_all add: eq fold_node_postprocess_fields fold_postprocess_parent_keeps
        fold_postprocess_parent_fields more rp d set_ts)
qed

lemma ref_inv_postprocess:
  assumes inv: "ref_inv s" and idle: "idle_side_effects (t_targets t) s" and wpv: "wp_valid s"
  shows "ref_inv (postprocess t s)"
proof -
  let ?ts = "fold set_add (t_targets t) []"
  note f = postprocess_fields [OF idle wpv]
  have w: "waiters (postprocess t s) p = waiters s p - {c \<in> set (t_targets t). p \<in> set (wp s c)}" for p
    by (auto simp: waiters_def f(4))
  have c: "card (waiters s p - {c \<in> set (t_targets t). p \<in> set (wp s c)})
      = card (waiters s p) - card {c \<in> set (t_targets t). p \<in> set (wp s c)}" for p
    by (rule card_Diff_subset) (auto simp: waiters_def)
  have le: "card {c \<in> set (t_targets t). p \<in> set (wp s c)} \<le> card (waiters s p)" for p
    by (rule card_mono [OF finite_waiters]) (auto simp: waiters_def)
  have "distinct ?ts" using distinct_set_union [of "[]" "t_targets t"] by (simp add: set_union_def)
  then have k: "cnt (released s ?ts) p = int (card {c \<in> set (t_targets t). p \<in> set (wp s c)})" for p
    using cnt_released [OF inv] by simp
  from inv le show ?thesis
    by (auto simp: ref_inv_def f w c k of_nat_diff)
qed

end
