(* ===== verification/Ready.thy ===== *)
theory Ready
  imports Deps Postprocess
begin

text \<open>
  The search for the next node to build (\<open>_find_next_ready_node\<close>): the invariant of the walk is
  kept, the loop ends, and the node it returns is ready, that is its children are built or up to
  date and none of the side effects of its action is being built.
\<close>

section \<open>Setting states\<close>

lemma node_at_set_state: "node_at (set_state n st h) m = (if m = n \<and> valid h n then (node_at h n)\<lparr>state := st\<rparr> else node_at h m)"
  by (simp add: set_state_def node_at_upd_node)

lemma valid_set_state [simp]: "valid (set_state n st h) m = valid h m"
  by (simp add: set_state_def)

lemma more_set_state [simp]: "heap.more (set_state n st h) = heap.more h"
  by (simp add: set_state_def)

lemma set_states_fields:
  "valid (set_states ns st h) m = valid h m"
  "get_state (set_states ns st h) m = (if valid h m \<and> m \<in> set ns then st else get_state h m)"
  "wp (set_states ns st h) m = wp h m" "rc (set_states ns st h) m = rc h m"
  "side_effects (node_at (set_states ns st h) m) = side_effects (node_at h m)"
  "waiting_s_e (node_at (set_states ns st h) m) = waiting_s_e (node_at h m)"
  "heap.more (set_states ns st h) = heap.more h"
  by (induction ns st h rule: set_states.induct) (auto simp: node_at_set_state)

section \<open>The invariant of the walk\<close>

text \<open>
  \<open>R\<close> is a relation on the nodes of the heap that has every dependency. Reference counts are
  right, and candidates and remaining top-level targets are nodes of the heap.
\<close>

definition walk_inv :: "(nid \<times> nid) set \<Rightarrow> hooks \<Rightarrow> taskmaster \<Rightarrow> bool" where
  "walk_inv R H s \<longleftrightarrow> R \<subseteq> UNIV \<times> {m. valid s m} \<and> graph_inv R H s \<and> ref_inv s \<and> wp_valid s
     \<and> (\<forall>n \<in> set (candidates s) \<union> set (top_targets_left s). valid s n)
     \<and> (\<forall>l. set (order s l) \<subseteq> set l)
     \<and> (\<forall>n. \<forall>m \<in> set (fst (alter_targets H n)). valid s m)"

text \<open>What a round of the loop leaves alone.\<close>

definition round_frame :: "taskmaster \<Rightarrow> taskmaster \<Rightarrow> bool" where
  "round_frame s s' \<longleftrightarrow> (\<forall>n. valid s' n = valid s n) \<and> top_targets_left s' = top_targets_left s
     \<and> original_top s' = original_top s \<and> order s' = order s \<and> stopped s' = stopped s \<and> ready_exc s' = ready_exc s
     \<and> (\<forall>n. side_effects (node_at s' n) = side_effects (node_at s n))"

lemma round_frame_refl [simp]: "round_frame s s"
  by (simp add: round_frame_def)

lemma round_frame_trans: "round_frame s s' \<Longrightarrow> round_frame s' s'' \<Longrightarrow> round_frame s s''"
  by (simp add: round_frame_def)

lemma round_frame_same_tasks: "same_tasks s s' \<Longrightarrow> round_frame s s'"
  by (simp add: round_frame_def same_tasks_view same_tasks_fields)

lemma round_frame_more:
  assumes "heap.more s' = heap.more s" "\<And>n. valid s' n = valid s n"
    "\<And>n. side_effects (node_at s' n) = side_effects (node_at s n)"
  shows "round_frame s s'"
  using assms(2,3) more_eq_fields [OF assms(1)] by (simp add: round_frame_def)

lemma walk_inv_intro:
  assumes "walk_inv R H s" "round_frame s s'" "graph_inv R H s'" "ref_inv s'" "wp_valid s'"
    "\<forall>n \<in> set (candidates s'). valid s n"
  shows "walk_inv R H s'"
  using assms by (auto simp: walk_inv_def round_frame_def)

lemma wp_valid_same_tasks: "same_tasks h h' \<Longrightarrow> wp_valid h' = wp_valid h"
  by (simp add: wp_valid_def same_tasks_view)

lemma walk_inv_same_tasks:
  assumes "walk_inv R H s" "same_tasks s s'" "graph_inv R H s'"
  shows "walk_inv R H s'"
  using assms ref_inv_same_tasks [OF assms(2)] wp_valid_same_tasks [OF assms(2)]
  by (intro walk_inv_intro [OF assms(1) round_frame_same_tasks [OF assms(2)]])
    (auto simp: walk_inv_def same_tasks_fields [OF assms(2)])

lemma same_graph_taskmaster_updates:
  "same_graph s (s\<lparr>candidates := cs\<rparr>)" "same_graph s (s\<lparr>pending_children := pc\<rparr>)"
  "same_graph s (s\<lparr>ready_exc := x\<rparr>)" "same_graph s (s\<lparr>top_targets_left := ts\<rparr>)"
  "same_graph s (s\<lparr>current_top := c\<rparr>)" "same_graph s (s\<lparr>message := m\<rparr>)" "same_graph s (s\<lparr>stopped := b\<rparr>)"
  by (simp_all add: same_graph_def graph_le_def same_execs_def)

lemma ref_inv_taskmaster_updates [simp]:
  "ref_inv (s\<lparr>candidates := cs\<rparr>) = ref_inv s" "ref_inv (s\<lparr>pending_children := pc\<rparr>) = ref_inv s"
  "ref_inv (s\<lparr>ready_exc := x\<rparr>) = ref_inv s" "ref_inv (s\<lparr>top_targets_left := ts\<rparr>) = ref_inv s"
  "ref_inv (s\<lparr>current_top := c\<rparr>) = ref_inv s" "ref_inv (s\<lparr>message := m\<rparr>) = ref_inv s"
  "ref_inv (s\<lparr>stopped := b\<rparr>) = ref_inv s"
  by (rule ref_inv_cong; simp)+

lemma walk_inv_ready_exc: "walk_inv R H s \<Longrightarrow> walk_inv R H (s\<lparr>ready_exc := x\<rparr>)"
  using graph_inv_same_graph [OF same_graph_taskmaster_updates(3)] by (auto simp: walk_inv_def wp_valid_def)

section \<open>One round\<close>

text \<open>The children that a round pushes on the stack.\<close>

abbreviation not_visited :: "'a heap_scheme \<Rightarrow> nid list \<Rightarrow> nid list" where
  "not_visited h all \<equiv> filter (\<lambda>c. get_state h c = no_state) all"

definition push_children :: "nid list \<Rightarrow> taskmaster \<Rightarrow> taskmaster" where
  "push_children all s = s\<lparr>candidates := candidates s @ order s (rev (not_visited s all))\<rparr>"

lemma push_children_simps [simp]:
  "node_at (push_children all s) = node_at s" "valid (push_children all s) = valid s"
  "candidates (push_children all s) = candidates s @ order s (rev (not_visited s all))"
  by (simp_all add: push_children_def fun_eq_iff)

lemma walk_inv_push_children:
  assumes "walk_inv R H s" "set all \<subseteq> {m. valid s m}"
  shows "walk_inv R H (push_children all s)" and "round_frame s (push_children all s)"
proof -
  show f: "round_frame s (push_children all s)" by (simp add: round_frame_def push_children_def)
  have "set (order s (rev (not_visited s all))) \<subseteq> set (rev (not_visited s all))"
    using assms(1) unfolding walk_inv_def by blast
  then have "set (order s (rev (not_visited s all))) \<subseteq> set all" by auto
  with assms have "\<forall>n \<in> set (candidates (push_children all s)). valid s n" by (auto simp: walk_inv_def)
  with f show "walk_inv R H (push_children all s)"
    using assms(1) graph_inv_same_graph [OF same_graph_taskmaster_updates(1)]
    by (intro walk_inv_intro [OF assms(1) f]) (auto simp: walk_inv_def push_children_def wp_valid_def)
qed

lemma walk_inv_set_states:
  assumes "walk_inv R H s" shows "walk_inv R H (set_states ns st s)" and "round_frame s (set_states ns st s)"
    and "candidates (set_states ns st s) = candidates s"
proof -
  note m = more_eq_fields [OF set_states_fields(7), of ns st s]
  show f: "round_frame s (set_states ns st s)"
    by (rule round_frame_more) (simp_all add: set_states_fields)
  show "candidates (set_states ns st s) = candidates s" by (rule m)
  have "ref_inv (set_states ns st s) = ref_inv s" by (rule ref_inv_cong) (simp_all add: set_states_fields)
  with assms show "walk_inv R H (set_states ns st s)"
    by (intro walk_inv_intro [OF assms f] graph_inv_same_graph [OF same_graph_set_states])
      (auto simp: walk_inv_def wp_valid_def set_states_fields m)
qed

lemma walk_inv_wait_for:
  assumes "walk_inv R H s" "valid s n" "\<forall>c \<in> set cs. valid s c"
  shows "walk_inv R H (wait_for n cs s)" and "round_frame s (wait_for n cs s)"
    and "candidates (wait_for n cs s) = candidates s"
proof -
  note m = more_eq_fields [OF more_wait_for, of n cs s]
  show f: "round_frame s (wait_for n cs s)" by (rule round_frame_more) simp_all
  show "candidates (wait_for n cs s) = candidates s" by (rule m)
  have "wp_valid (wait_for n cs s)"
    using assms by (auto simp: walk_inv_def wp_valid_def set_wp_wait_for split: if_splits)
  with assms show "walk_inv R H (wait_for n cs s)"
    by (intro walk_inv_intro [OF assms(1) f] graph_inv_same_graph [OF same_graph_wait_for] ref_inv_wait_for)
      (auto simp: walk_inv_def m)
qed

lemma walk_inv_wait_side_effects:
  fixes n :: nid and busy :: "nid list"
  assumes "walk_inv R H s" defines "s' \<equiv> fold (\<lambda>se. add_to_waiting_s_e se n) busy s"
  shows "walk_inv R H s'" and "round_frame s s'" and "candidates s' = candidates s"
    and "get_state s' m = get_state s m"
proof -
  have k: "p (node_at (fold (\<lambda>se. add_to_waiting_s_e se n) busy s) m) = p (node_at s m)"
    if "\<And>x f. p (x\<lparr>waiting_s_e := f\<rparr>) = p x" for p :: "node \<Rightarrow> 'b" and m
    by (rule fold_keeps_field) (simp add: add_to_waiting_s_e_def upd_node_keeps that)
  have v: "valid s' m = valid s m" for m
    unfolding s'_def by (rule fold_keeps_field) (simp add: add_to_waiting_s_e_def)
  have m: "heap.more s' = heap.more s"
    unfolding s'_def by (rule fold_keeps_field) (simp add: add_to_waiting_s_e_def)
  show f: "round_frame s s'" by (rule round_frame_more [OF m v]) (simp add: s'_def k)
  show "candidates s' = candidates s" by (rule more_eq_fields(1) [OF m])
  show "get_state s' m = get_state s m" by (simp add: s'_def k)
  have "ref_inv s' = ref_inv s" by (rule ref_inv_cong) (simp_all add: v, simp_all add: s'_def k)
  moreover have "same_graph s s'"
    unfolding s'_def by (intro same_graph_fold same_graph_add_to_waiting_s_e)
  moreover have "wp_valid s' = wp_valid s" unfolding wp_valid_def v by (simp add: s'_def k)
  ultimately show "walk_inv R H s'"
    using assms(1) by (intro walk_inv_intro [OF assms(1) f]) (auto simp: walk_inv_def more_eq_fields(1) [OF m] dest: graph_inv_same_graph)
qed

text \<open>
  The outcome of a round that goes on with a node whose children are known: either a child has
  failed and the action's targets are marked failed, or the node waits for the children that are
  not ready, or it waits for a side effect.
\<close>

lemma sort_children_alt:
  "sort_children H n e all s = (let s1 = push_children all s in
     if \<exists>c \<in> set all. get_state s c = failed
     then (case get_action_targets H e s1 of
             (s2, Inl x) \<Rightarrow> Escape (Exc x) s2
           | (s2, Inr ts) \<Rightarrow> Continue (set_states ts failed s2))
     else if \<exists>c \<in> set all. get_state s c \<le> executing
     then (let s2 = wait_for n (filter (\<lambda>c. get_state s c \<le> executing) all) s1
           in Continue (s2\<lparr>pending_children := set_union (pending_children s2)
                (fold set_add (filter (\<lambda>c. get_state s c = pending) all) [])\<rparr>))
     else check_side_effects H n e s1)"
  by (simp add: sort_children_def push_children_def Let_def filter_empty_conv)

lemma walk_inv_action_targets:
  "walk_inv R H s \<Longrightarrow> walk_inv R H (fst (get_action_targets H e s))"
  "walk_inv R H s \<Longrightarrow> walk_inv R H (fst (get_action_side_effects H e s))"
proof -
  assume inv: "walk_inv R H s"
  then have g: "graph_inv R H s" by (simp add: walk_inv_def)
  show "walk_inv R H (fst (get_action_targets H e s))"
    by (rule walk_inv_same_tasks [OF inv same_tasks_get_action_targets])
      (rule graph_inv_same_graph [OF same_graph_get_action_targets g])
  show "walk_inv R H (fst (get_action_side_effects H e s))"
    by (rule walk_inv_same_tasks [OF inv same_tasks_get_action_side_effects])
      (rule graph_inv_same_graph [OF same_graph_get_action_side_effects g])
qed

lemma sort_children_Continue:
  assumes sc: "sort_children H n e all s = Continue s'" and inv: "walk_inv R H s"
    and all: "set all \<subseteq> {m. valid s m}" and n: "valid s n"
  shows "walk_inv R H s' \<and> round_frame s s'
    \<and> candidates s' = candidates s @ order s (rev (not_visited s all))
    \<and> (\<forall>m. get_state s' m = get_state s m \<or> get_state s' m = failed)"
proof -
  let ?s1 = "push_children all s"
  note p = walk_inv_push_children [OF inv all]
  consider (failed) "\<exists>c \<in> set all. get_state s c = failed"
    | (wait) "\<not> (\<exists>c \<in> set all. get_state s c = failed)" "\<exists>c \<in> set all. get_state s c \<le> executing"
    | (ready) "\<not> (\<exists>c \<in> set all. get_state s c = failed)" "\<not> (\<exists>c \<in> set all. get_state s c \<le> executing)"
    by blast
  then show ?thesis
  proof cases
    case failed
    with sc obtain s2 ts where t: "get_action_targets H e ?s1 = (s2, Inr ts)" and s': "s' = set_states ts failed s2"
      by (auto simp: sort_children_alt Let_def split: prod.splits sum.splits)
    have st: "same_tasks ?s1 s2" using same_tasks_get_action_targets [of ?s1 H e] t by simp
    have i: "walk_inv R H s2" using walk_inv_action_targets(1) [OF p(1), of e] t by simp
    note w = walk_inv_set_states [OF i, of ts failed]
    show ?thesis
      using w round_frame_trans [OF round_frame_trans [OF p(2) round_frame_same_tasks [OF st]] w(2)]
      by (simp add: s' same_tasks_fields [OF st] same_tasks_view [OF st] set_states_fields)
  next
    case wait
    let ?cs = "filter (\<lambda>c. get_state s c \<le> executing) all"
    from wait sc obtain pc where s': "s' = (wait_for n ?cs ?s1)\<lparr>pending_children := pc\<rparr>"
      by (auto simp: sort_children_alt Let_def)
    have w: "walk_inv R H (wait_for n ?cs ?s1)" "round_frame ?s1 (wait_for n ?cs ?s1)"
      "candidates (wait_for n ?cs ?s1) = candidates ?s1"
      using walk_inv_wait_for [OF p(1), of n ?cs] n all by auto
    have f: "round_frame (wait_for n ?cs ?s1) s'" by (simp add: s' round_frame_def)
    have "walk_inv R H s'"
      using w(1) by (intro walk_inv_intro [OF w(1) f])
        (auto simp: walk_inv_def s' wp_valid_def intro: graph_inv_same_graph [OF same_graph_taskmaster_updates(2)])
    with w round_frame_trans [OF round_frame_trans [OF p(2) w(2)] f] show ?thesis by (simp add: s')
  next
    case ready
    with sc have "check_side_effects H n e ?s1 = Continue s'" by (simp add: sort_children_alt)
    then obtain s2 ses where t: "get_action_side_effects H e ?s1 = (s2, Inr ses)"
      and s': "s' = fold (\<lambda>se. add_to_waiting_s_e se n) (filter (\<lambda>se. get_state s2 se = executing) ses) s2"
      by (auto simp: check_side_effects_def Let_def split: prod.splits sum.splits if_splits)
    have st: "same_tasks ?s1 s2" using same_tasks_get_action_side_effects [of ?s1 H e] t by simp
    have i: "walk_inv R H s2" using walk_inv_action_targets(2) [OF p(1), of e] t by simp
    note w = walk_inv_wait_side_effects [OF i, of n "filter (\<lambda>se. get_state s2 se = executing) ses", folded s']
    show ?thesis
      using w round_frame_trans [OF round_frame_trans [OF p(2) round_frame_same_tasks [OF st]] w(2)]
      by (simp add: same_tasks_fields [OF st] same_tasks_view [OF st])
  qed
qed

lemma sort_children_Found:
  assumes sc: "sort_children H n e all s = Found m s'" and inv: "walk_inv R H s" and all: "set all \<subseteq> {m. valid s m}"
  shows "m = n \<and> walk_inv R H s' \<and> same_tasks (push_children all s) s'
    \<and> (\<forall>c \<in> set all. get_state s' c \<in> {node_state.up_to_date, executed})
    \<and> (\<exists>ses. get_action_side_effects H e (push_children all s) = (s', Inr ses) \<and> (\<forall>x \<in> set ses. get_state s' x \<noteq> executing))"
proof -
  let ?s1 = "push_children all s"
  note p = walk_inv_push_children [OF inv all]
  from sc have k: "\<forall>c \<in> set all. get_state s c \<noteq> failed \<and> \<not> get_state s c \<le> executing"
    and cs: "check_side_effects H n e ?s1 = Found m s'"
    by (auto simp: sort_children_alt Let_def split: prod.splits sum.splits if_splits)
  from cs obtain s2 ses where t: "get_action_side_effects H e ?s1 = (s2, Inr ses)"
    and none: "filter (\<lambda>se. get_state s2 se = executing) ses = []" and s': "m = n" "s' = s2"
    by (auto simp: check_side_effects_def Let_def split: prod.splits sum.splits if_splits)
  have st: "same_tasks ?s1 s2" using same_tasks_get_action_side_effects [of ?s1 H e] t by simp
  have i: "walk_inv R H s2" using walk_inv_action_targets(2) [OF p(1), of e] t by simp
  have "get_state s2 c \<in> {node_state.up_to_date, executed}" if "c \<in> set all" for c
    using k that by (cases "get_state s c") (auto simp: same_tasks_view [OF st] not_finished_iff)
  with none t i st show ?thesis by (auto simp: s' filter_empty_conv)
qed

text \<open>The children and prerequisites a round looks at, with the executor it asks.\<close>

definition considered_children :: "hooks \<Rightarrow> nid \<Rightarrow> 'a heap_scheme \<Rightarrow> 'a heap_scheme \<times> eid \<times> nid list res" where
  "considered_children H n s = (let (s1, e) = get_executor n s in case get_all_children H e s1 of
       (s2, Inl x) \<Rightarrow> (s2, e, Inl x)
     | (s2, Inr kids) \<Rightarrow> (s2, e, Inr (get_all_prerequisites s2 e @ kids)))"

lemma considered_children_ok:
  assumes c: "considered_children H n s = (s', e, r)" and g: "graph_inv R H s" and v: "valid s n"
  shows "same_tasks s s'" "graph_inv R H s'" "execs_grow s s'" "e < length (execs s')" "n \<in> set (get_all_targets s' e)"
    "node_executor (node_at s' n) = Some e"
    "r = Inr all \<Longrightarrow> set all \<subseteq> R `` set (get_all_targets s' e)"
    "r = Inr all \<Longrightarrow> set (exec_explicit_deps s' e) \<union> set (get_all_prerequisites s' e) \<subseteq> set all"
proof -
  obtain s1 where s1: "get_executor n s = (s1, e)" using c
    by (auto simp: considered_children_def split: prod.splits sum.splits)
  obtain r2 where s2: "get_all_children H e s1 = (s', r2)"
    using c s1 by (auto simp: considered_children_def split: prod.splits sum.splits)
  have 1: "graph_inv R H s1" "execs_grow s s1" "same_tasks s s1"
    using graph_inv_get_executor [OF g, of n] execs_grow_get_executor [of s n] same_tasks_get_executor [of s n] s1 by auto
  have e: "e < length (execs s1)" "n \<in> set (get_all_targets s1 e)"
    using get_executor_ok [OF _ v s1] g by (auto simp: graph_inv_def)
  have 2: "graph_inv R H s'" "execs_grow s1 s'"
    "\<forall>l. r2 = Inr l \<longrightarrow> set l \<subseteq> R `` set (get_all_targets s1 e) \<and> set (exec_explicit_deps s1 e) \<subseteq> set l"
    using graph_inv_get_all_children [OF 1(1) s2] by auto
  have t: "same_tasks s1 s'" using same_tasks_get_all_children [of s1 H e] s2 by simp
  show "same_tasks s s'" by (rule same_tasks_trans [OF 1(3) t])
  show "graph_inv R H s'" by (rule 2)
  show "execs_grow s s'" by (rule execs_grow_trans [OF 1(2) 2(2)])
  show "e < length (execs s')" using e 2(2) by (simp add: execs_grow_def)
  note k = execs_grow_keeps [OF 2(2) e(1)]
  show "n \<in> set (get_all_targets s' e)" using e k by simp
  have "node_executor (node_at s1 n) = Some e" using snd_get_executor [OF _ v] g s1 by (simp add: graph_inv_def)
  with 2(2) show "node_executor (node_at s' n) = Some e" by (simp add: execs_grow_def)
  assume "r = Inr all"
  then obtain kids where kids: "r2 = Inr kids" "all = get_all_prerequisites s' e @ kids"
    using c s1 s2 by (auto simp: considered_children_def split: sum.splits)
  then show "set all \<subseteq> R `` set (get_all_targets s' e)"
    using 2(3) get_all_prerequisites_in [OF 2(1), of e] k(1) by auto
  show "set (exec_explicit_deps s' e) \<union> set (get_all_prerequisites s' e) \<subseteq> set all"
    using 2(3) kids execs_grow_explicit [OF 2(2) e(1)] by auto
qed

lemma consider_node_alt:
  "consider_node H n s =
     (if pending < get_state s n then Continue s
      else let s1 = (if get_state s n = no_state then set_state n pending s else s);
               (s2, e, r) = considered_children H n s1
           in case r of
                Inl x \<Rightarrow> Found n (s2\<lparr>ready_exc := Some (Exc (case x of
                     SystemExit c \<Rightarrow> ExplicitExit (Some n) c | _ \<Rightarrow> x))\<rparr>)
              | Inr all \<Rightarrow> sort_children H n e all s2)"
  by (simp add: consider_node_def considered_children_def Let_def split: prod.split sum.split)

text \<open>The state in which a round looks at the children of a node.\<close>

definition mark_pending :: "nid \<Rightarrow> taskmaster \<Rightarrow> taskmaster" where
  "mark_pending n s = (if get_state s n = no_state then set_state n pending s else s)"

lemma mark_pending:
  assumes "walk_inv R H s" "valid s n" "\<not> pending < get_state s n"
  shows "walk_inv R H (mark_pending n s)" "round_frame s (mark_pending n s)"
    "candidates (mark_pending n s) = candidates s" "valid (mark_pending n s) m = valid s m"
    "get_state (mark_pending n s) m = (if m = n then pending else get_state s m)"
  using walk_inv_set_states [OF assms(1), of "[n]" pending] assms
  by (auto simp: mark_pending_def node_at_set_state gt_pending_iff intro: node_state.exhaust)

lemma consider_node_Continue:
  assumes c: "consider_node H n s = Continue s'" and inv: "walk_inv R H s" and v: "valid s n"
  shows "walk_inv R H s' \<and> round_frame s s' \<and>
    (if pending < get_state s n then s' = s
     else (\<exists>nv. candidates s' = candidates s @ nv \<and> (\<forall>x \<in> set nv. valid s x \<and> x \<noteq> n \<and> get_state s x = no_state))
       \<and> (\<forall>m. get_state s' m = failed \<or> get_state s' m = (if m = n then pending else get_state s m)))"
proof (cases "pending < get_state s n")
  case True
  with c inv show ?thesis by (simp add: consider_node_alt)
next
  case False
  let ?s1 = "mark_pending n s"
  note m = mark_pending [OF inv v False]
  obtain s2 e r where cc: "considered_children H n ?s1 = (s2, e, r)" by (metis prod_cases3)
  with False c obtain all where r: "r = Inr all" and sc: "sort_children H n e all s2 = Continue s'"
    by (cases r) (auto simp: consider_node_alt mark_pending_def [symmetric])
  have g1: "graph_inv R H ?s1" and v1: "valid ?s1 n" using m v by (auto simp: walk_inv_def)
  note ok = considered_children_ok [OF cc g1 v1]
  note st = same_tasks_view [OF ok(1)] same_tasks_fields [OF ok(1)]
  have i2: "walk_inv R H s2" by (rule walk_inv_same_tasks [OF m(1) ok(1,2)])
  have v2: "valid s2 x = valid s x" for x by (simp add: st m(4))
  have all: "set all \<subseteq> {m. valid s2 m}"
  proof -
    have "R \<subseteq> UNIV \<times> {m. valid s2 m}" using i2 by (simp add: walk_inv_def)
    with ok(7) [OF r] show ?thesis by auto
  qed
  from sort_children_Continue [OF sc i2 all] v v2
  have w: "walk_inv R H s'" "round_frame s2 s'"
    "candidates s' = candidates s2 @ order s2 (rev (not_visited s2 all))"
    "\<And>m. get_state s' m = get_state s2 m \<or> get_state s' m = failed" by auto
  have "set (order s2 (rev (not_visited s2 all))) \<subseteq> set (rev (not_visited s2 all))"
    using i2 unfolding walk_inv_def by blast
  then have nv: "valid s x \<and> x \<noteq> n \<and> get_state s x = no_state" if "x \<in> set (order s2 (rev (not_visited s2 all)))" for x
    using that all v2 by (auto simp: st m split: if_splits)
  have f: "round_frame s s'"
    by (rule round_frame_trans [OF round_frame_trans [OF m(2) round_frame_same_tasks [OF ok(1)]] w(2)])
  have cand: "candidates s' = candidates s @ order s2 (rev (not_visited s2 all))" using w(3) by (simp add: st m)
  have states: "get_state s' x = failed \<or> get_state s' x = (if x = n then pending else get_state s x)" for x
    using w(4) [of x] by (auto simp: st m)
  show ?thesis using w(1) f cand nv states False by auto
qed

section \<open>The loop ends\<close>

text \<open>
  The measure: the top-level targets that are left, the nodes that were never visited, and the
  entries of the stack that were. A round that pushes children pushes nodes never visited.
\<close>

definition blank :: "'a heap_scheme \<Rightarrow> nid set" where
  "blank h = {n. valid h n \<and> get_state h n = no_state}"

definition visited_candidates :: "taskmaster \<Rightarrow> nid list" where
  "visited_candidates s = filter (\<lambda>c. get_state s c \<noteq> no_state) (candidates s)"

definition walk_measure :: "(taskmaster \<times> taskmaster) set" where
  "walk_measure = measures [\<lambda>s. length (top_targets_left s), \<lambda>s. card (blank s), \<lambda>s. length (visited_candidates s)]"

lemma wf_walk_measure: "wf walk_measure"
  by (simp add: walk_measure_def)

lemma finite_blank [simp]: "finite (blank h)"
  by (simp add: blank_def valid_def)

lemma find_next_candidate_Some:
  assumes f: "find_next_candidate H s = (s1, Some n)" and inv: "walk_inv R H s"
  shows "valid s n" "walk_inv R H s1" "node_at s1 = node_at s" "valid s1 = valid s"
    "candidates s = candidates s1 @ [n] \<and> round_frame s s1
     \<or> length (top_targets_left s1) < length (top_targets_left s)"
proof -
  have upd: "walk_inv R H s'"
    if "nodes s' = nodes s" "execs s' = execs s" "order s' = order s"
      "\<forall>n \<in> set (candidates s') \<union> set (top_targets_left s'). valid s n" for s'
  proof -
    have *: "node_at s' = node_at s" "valid s' = valid s" using that by (simp_all add: node_at_def valid_def fun_eq_iff)
    then have "same_graph s s'" using that by (simp add: same_graph_def graph_le_def same_execs_def)
    moreover have "ref_inv s' = ref_inv s" by (rule ref_inv_cong) (simp_all add: *)
    moreover have "wp_valid s' = wp_valid s" by (simp add: wp_valid_def *)
    ultimately show ?thesis using inv that graph_inv_same_graph by (auto simp: walk_inv_def *)
  qed
  have "valid s n \<and> walk_inv R H s1 \<and> node_at s1 = node_at s \<and> valid s1 = valid s \<and>
    (candidates s = candidates s1 @ [n] \<and> round_frame s s1 \<or> length (top_targets_left s1) < length (top_targets_left s))"
  proof (cases "candidates s = []")
    case False
    then obtain m cs where cs: "candidates s = cs @ [m]" by (metis append_butlast_last_id)
    with f have s1: "s1 = s\<lparr>candidates := cs\<rparr>" "m = n" by (simp_all add: find_next_candidate_def)
    have "walk_inv R H s1" by (rule upd) (use inv cs s1 in \<open>auto simp: walk_inv_def\<close>)
    with inv cs s1 show ?thesis by (auto simp: walk_inv_def round_frame_def fun_eq_iff)
  next
    case empty: True
    with f obtain t ts where ts: "top_targets_left s = ts @ [t]"
      by (cases "py_pop (top_targets_left s)") (auto simp: find_next_candidate_def)
    obtain alt msg where alt: "alter_targets H t = (alt, msg)" by fastforce
    have vt: "valid s t" "\<forall>m \<in> set ts. valid s m" "\<forall>m \<in> set alt. valid s m" "set (order s alt) \<subseteq> set alt"
      using inv ts alt unfolding walk_inv_def by (auto, metis fst_conv)
    show ?thesis
    proof (cases "alt = []")
      case True
      with f empty ts alt have s1: "s1 = s\<lparr>top_targets_left := ts, current_top := Some t\<rparr>" "t = n"
        by (auto simp: find_next_candidate_def)
      have "walk_inv R H s1" by (rule upd) (use vt s1 empty in auto)
      with s1 ts vt show ?thesis by (auto simp: fun_eq_iff)
    next
      case False
      let ?all = "t # order s alt"
      have ne: "?all = butlast ?all @ [last ?all]" by simp
      have sub: "set ?all \<subseteq> {m. valid s m}" using vt by auto
      from False f empty ts alt have s1: "s1 = s\<lparr>top_targets_left := ts, current_top := Some t, message := msg,
          candidates := butlast ?all\<rparr>" "n = last ?all"
        by (auto simp: find_next_candidate_def py_pop_def)
      have "n \<in> set ?all" "set (butlast ?all) \<subseteq> set ?all" using s1(2) by (simp, metis in_set_butlastD subsetI)
      then have vn: "valid s n" "\<forall>m \<in> set (butlast ?all). valid s m" using sub by auto
      have "walk_inv R H s1" by (rule upd) (use vt s1(1) vn(2) in auto)
      with s1 ts vn show ?thesis by (auto simp: fun_eq_iff)
    qed
  qed
  then show "valid s n" "walk_inv R H s1" "node_at s1 = node_at s" "valid s1 = valid s"
    "candidates s = candidates s1 @ [n] \<and> round_frame s s1
     \<or> length (top_targets_left s1) < length (top_targets_left s)" by auto
qed

lemma round_decreases:
  assumes f: "find_next_candidate H s = (s1, Some n)" and inv: "walk_inv R H s"
    and c: "consider_node H n s1 = Continue s2"
  shows "walk_inv R H s2" and "(s2, s) \<in> walk_measure"
proof -
  note g = find_next_candidate_Some [OF f inv]
  have v: "valid s1 n" using g by simp
  note r = consider_node_Continue [OF c g(2) v]
  then show "walk_inv R H s2" by blast
  have top: "top_targets_left s2 = top_targets_left s1" and vs: "\<And>m. valid s2 m = valid s m"
    using r g(4) by (auto simp: round_frame_def)
  from g(5) consider (pop) "candidates s = candidates s1 @ [n]" "top_targets_left s1 = top_targets_left s"
    | (new) "length (top_targets_left s1) < length (top_targets_left s)" by (auto simp: round_frame_def)
  then show "(s2, s) \<in> walk_measure"
  proof cases
    case new
    then show ?thesis by (simp add: walk_measure_def top)
  next
    case pop
    show ?thesis
    proof (cases "pending < get_state s n")
      case True
      with r g(3) have "s2 = s1" by simp
      with pop g(3,4) True show ?thesis
        by (auto simp: walk_measure_def blank_def visited_candidates_def state_order_defs)
    next
      case False
      from r False g(3,4) obtain nv where nv: "candidates s2 = candidates s1 @ nv"
        "\<And>x. x \<in> set nv \<Longrightarrow> valid s x \<and> get_state s x = no_state"
        by auto
      from r [unfolded g(3)] False have st: "get_state s2 m = failed \<or> get_state s2 m = (if m = n then pending else get_state s m)" for m
        by simp
      have no: "get_state s2 m = no_state \<Longrightarrow> get_state s m = no_state \<and> m \<noteq> n" for m using st [of m] by (auto split: if_splits)
      then have sub: "blank s2 \<subseteq> blank s" by (auto simp: blank_def vs)
      show ?thesis
      proof (cases "blank s2 = blank s")
        case True
        then have same: "valid s x \<Longrightarrow> get_state s2 x = no_state \<longleftrightarrow> get_state s x = no_state" for x
          by (auto simp: blank_def vs)
        have n: "get_state s n \<noteq> no_state" using same [of n] no [of n] g(1) by blast
        have cs: "\<forall>x \<in> set (candidates s1). valid s x" using g(2,4) by (auto simp: walk_inv_def)
        have "filter (\<lambda>c. get_state s2 c \<noteq> no_state) nv = []" using nv(2) same by (auto simp: filter_empty_conv)
        moreover have "filter (\<lambda>c. get_state s2 c \<noteq> no_state) (candidates s1) = filter (\<lambda>c. get_state s c \<noteq> no_state) (candidates s1)"
          using cs same by (intro filter_cong) auto
        ultimately show ?thesis
          using True n pop by (simp add: walk_measure_def top visited_candidates_def nv(1))
      next
        case False
        with sub have "card (blank s2) < card (blank s)" by (simp add: psubset_card_mono psubsetI)
        with pop show ?thesis by (simp add: walk_measure_def top)
      qed
    qed
  qed
qed

lemma find_ready_loop_terminates:
  "walk_inv R H s \<Longrightarrow> \<exists>r. find_ready_loop H s = Some r"
proof (induction s rule: wf_induct_rule [OF wf_walk_measure])
  case (1 s)
  show ?case
  proof (cases "stopped s")
    case True
    then show ?thesis by (simp add: find_ready_loop.simps [of H s] next_candidate_def no_next_candidate_def)
  next
    case False
    obtain s1 c where nc: "find_next_candidate H s = (s1, c)" by fastforce
    show ?thesis
    proof (cases c)
      case None
      with False nc show ?thesis by (simp add: find_ready_loop.simps [of H s] next_candidate_def)
    next
      case (Some n)
      show ?thesis
      proof (cases "consider_node H n s1")
        case (Continue s2)
        from round_decreases [OF _ "1.prems" Continue] nc Some "1.IH" [of s2]
        have "\<exists>r. find_ready_loop H s2 = Some r" by blast
        with False nc Some Continue show ?thesis
          by (simp add: find_ready_loop.simps [of H s] next_candidate_def disambiguate_def)
      qed (use False nc Some in \<open>simp_all add: find_ready_loop.simps [of H s] next_candidate_def disambiguate_def\<close>)
    qed
  qed
qed

section \<open>The node that is returned\<close>

text \<open>
  A node is ready in \<open>s\<close>: it is pending, every child and prerequisite the walk found for its
  executor is up to date or executed, these include all its explicit dependencies, and no side
  effect of its action is being built.
\<close>

definition built_ok :: "'a heap_scheme \<Rightarrow> nid \<Rightarrow> bool" where
  "built_ok h c \<longleftrightarrow> get_state h c \<in> {node_state.up_to_date, executed}"

definition node_ready :: "hooks \<Rightarrow> taskmaster \<Rightarrow> nid \<Rightarrow> bool" where
  "node_ready H s n \<longleftrightarrow> valid s n \<and> get_state s n = pending \<and> (\<exists>e. node_executor (node_at s n) = Some e
     \<and> (\<forall>c \<in> set (exec_explicit_deps s e) \<union> set (get_all_prerequisites s e). built_ok s c)
     \<and> (\<exists>(s0 :: taskmaster) s1 all. considered_children H n s0 = (s1, e, Inr all) \<and> (\<forall>c \<in> set all. built_ok s c))
     \<and> (\<exists>(s0 :: taskmaster) ses. get_action_side_effects H e s0 = (s, Inr ses) \<and> (\<forall>x \<in> set ses. get_state s x \<noteq> executing)))"

lemma consider_node_Found:
  assumes c: "consider_node H n s = Found m s'" and inv: "walk_inv R H s" and v: "valid s n" and x: "ready_exc s = None"
  shows "m = n \<and> valid s' n \<and> walk_inv R H s' \<and> (ready_exc s' = None \<longrightarrow> node_ready H s' n)"
proof -
  have np: "\<not> pending < get_state s n" using c by (auto simp: consider_node_alt)
  let ?s1 = "mark_pending n s"
  note m = mark_pending [OF inv v np]
  obtain s2 e r where cc: "considered_children H n ?s1 = (s2, e, r)" by (metis prod_cases3)
  have g1: "graph_inv R H ?s1" and v1: "valid ?s1 n" using m v by (auto simp: walk_inv_def)
  note ok = considered_children_ok [OF cc g1 v1]
  note st = same_tasks_view [OF ok(1)] same_tasks_fields [OF ok(1)]
  have i2: "walk_inv R H s2" by (rule walk_inv_same_tasks [OF m(1) ok(1,2)])
  have v2: "valid s2 x = valid s x" for x by (simp add: st m(4))
  show ?thesis
  proof (cases r)
    case (Inl y)
    with np c cc obtain z where z: "m = n" "s' = s2\<lparr>ready_exc := Some z\<rparr>"
      by (auto simp: consider_node_alt mark_pending_def [symmetric])
    with walk_inv_ready_exc [OF i2] v v2 show ?thesis by simp
  next
    case (Inr all)
    with np c cc have sc: "sort_children H n e all s2 = Found m s'"
      by (auto simp: consider_node_alt mark_pending_def [symmetric])
    have "R \<subseteq> UNIV \<times> {m. valid s2 m}" using i2 by (simp add: walk_inv_def)
    with ok(7) [OF Inr] have "set all \<subseteq> {m. valid s2 m}" by auto
    note fd = sort_children_Found [OF sc i2 this]
    let ?s3 = "push_children all s2"
    have sg: "same_graph s2 s'"
      using same_graph_trans [OF same_graph_taskmaster_updates(1) same_graph_get_action_side_effects] fd
      by (metis fst_conv push_children_def)
    then have se: "execs_grow s2 s'" by (simp add: same_graph_def execs_grow_same)
    have "get_state s' n = pending" "valid s' n"
      using fd same_tasks_view [of ?s3 s'] v by (auto simp: st m)
    moreover have "node_executor (node_at s' n) = Some e" using ok(6) se by (simp add: execs_grow_def)
    moreover have "set (exec_explicit_deps s' e) \<union> set (get_all_prerequisites s' e) \<subseteq> set all"
      using ok(8) [OF Inr] execs_grow_explicit [OF se ok(4)] execs_grow_keeps(3) [OF se ok(4)] by simp
    moreover have "\<forall>c \<in> set all. built_ok s' c" using fd by (simp add: built_ok_def)
    ultimately have "node_ready H s' n"
      unfolding node_ready_def using fd cc Inr by blast
    with fd show ?thesis by (simp add: node_ready_def)
  qed
qed

lemma sort_children_Escape:
  assumes sc: "sort_children H n e all s = Escape x s'" and inv: "walk_inv R H s" and all: "set all \<subseteq> {m. valid s m}"
  shows "walk_inv R H s'"
proof -
  note p = walk_inv_push_children [OF inv all]
  from sc consider "s' = fst (get_action_targets H e (push_children all s))"
    | "s' = fst (get_action_side_effects H e (push_children all s))"
    by (auto simp: sort_children_alt check_side_effects_def Let_def split: prod.splits sum.splits if_splits)
  then show ?thesis using walk_inv_action_targets [OF p(1)] by cases simp_all
qed

lemma consider_node_Escape:
  assumes c: "consider_node H n s = Escape x s'" and inv: "walk_inv R H s" and v: "valid s n"
  shows "walk_inv R H s'"
proof -
  have np: "\<not> pending < get_state s n" using c by (auto simp: consider_node_alt)
  note m = mark_pending [OF inv v np]
  obtain s2 e r where cc: "considered_children H n (mark_pending n s) = (s2, e, r)" by (metis prod_cases3)
  have "graph_inv R H (mark_pending n s)" "valid (mark_pending n s) n" using m v by (auto simp: walk_inv_def)
  note ok = considered_children_ok [OF cc this]
  have i2: "walk_inv R H s2" by (rule walk_inv_same_tasks [OF m(1) ok(1,2)])
  from np c cc obtain all where r: "r = Inr all" and sc: "sort_children H n e all s2 = Escape x s'"
    by (cases r) (auto simp: consider_node_alt mark_pending_def [symmetric])
  have "R \<subseteq> UNIV \<times> {m. valid s2 m}" using i2 by (simp add: walk_inv_def)
  with ok(7) [OF r] have "set all \<subseteq> {m. valid s2 m}" by auto
  from sort_children_Escape [OF sc i2 this] show ?thesis .
qed

section \<open>Nodes that will not be built\<close>

lemma same_graph_will_not_build_loop: "same_graph h (snd (will_not_build_loop m tv pc h))"
proof (induction m tv pc h rule: will_not_build_loop.induct)
  case (2 m n tv pc h)
  let ?h1 = "mark_node m n h"
  have "same_graph h ?h1" by (simp add: mark_node_def same_graph_set_state split: option.split)
  moreover have "same_graph ?h1 (upd_node n (waiting_parents_update (\<lambda>_. [])) ?h1)" by (simp add: same_graph_simps)
  moreover have "same_graph h' (fold dec_ref ps h')" for ps and h' :: "'a heap_scheme"
    by (rule same_graph_fold) (simp add: dec_ref_def same_graph_simps)
  ultimately have "same_graph h (take_parents n ?h1)"
    unfolding take_parents_def by (meson same_graph_trans)
  with "2.IH" [OF refl refl] show ?case by (auto simp: Let_def intro: same_graph_trans)
qed simp

lemma walk_inv_will_not_build:
  assumes inv: "walk_inv R H s"
  shows "walk_inv R H (will_not_build ns m s)" "round_frame s (will_not_build ns m s)"
    "candidates (will_not_build ns m s) = candidates s"
proof -
  let ?tv = "fold set_add ns []" and ?pc = "set_minus (pending_children s) (fold set_add ns [])"
  obtain pc s1 where w: "will_not_build_loop m ?tv ?pc s = (pc, s1)" by fastforce
  have s': "will_not_build ns m s = s1\<lparr>pending_children := pc\<rparr>" by (simp add: will_not_build_def w)
  note fr = will_not_build_loop_frame [of m ?tv ?pc s, unfolded w snd_conv]
  have f1: "round_frame s s1" by (rule round_frame_more) (simp_all add: fr)
  then show f: "round_frame s (will_not_build ns m s)" by (simp add: s' round_frame_def)
  show c: "candidates (will_not_build ns m s) = candidates s" by (simp add: s' more_eq_fields(1) [OF fr(1)])
  have "ref_inv s1" using ref_inv_will_not_build_loop [of s m ?tv ?pc] inv w by (simp add: walk_inv_def)
  moreover have "wp_valid s1"
    using inv will_not_build_loop_wp [of m ?tv ?pc s] by (auto simp: walk_inv_def wp_valid_def w fr split: if_splits)
  moreover have "graph_inv R H s1"
    using graph_inv_same_graph [OF same_graph_will_not_build_loop, of R H s m ?tv ?pc] inv by (simp add: w walk_inv_def)
  ultimately show "walk_inv R H (will_not_build ns m s)"
    using inv graph_inv_same_graph [OF same_graph_taskmaster_updates(2)]
    by (intro walk_inv_intro [OF inv f]) (auto simp: c, auto simp: s' wp_valid_def walk_inv_def)
qed

lemma walk_inv_no_next_candidate: "walk_inv R H s \<Longrightarrow> walk_inv R H (fst (no_next_candidate s))"
proof -
  assume inv: "walk_inv R H s"
  have "walk_inv R H (s\<lparr>candidates := []\<rparr>)"
    using inv graph_inv_same_graph [OF same_graph_taskmaster_updates(1)] by (auto simp: walk_inv_def wp_valid_def)
  from walk_inv_will_not_build(1) [OF this] inv show ?thesis by (simp add: no_next_candidate_def)
qed

section \<open>The search\<close>

lemma find_next_candidate_None:
  "find_next_candidate H s = (s1, None) \<Longrightarrow> s1 = s \<and> candidates s = [] \<and> top_targets_left s = []"
  by (auto simp: find_next_candidate_def Let_def split: option.splits if_splits prod.splits)

lemma find_next_candidate_ready_exc: "find_next_candidate H s = (s1, c) \<Longrightarrow> ready_exc s1 = ready_exc s"
  by (auto simp: find_next_candidate_def Let_def split: option.splits if_splits prod.splits)

text \<open>
  Induction over the rounds of the search: a predicate that every round that goes on keeps
  holds when the last one starts. The last round finds no candidate, a node, or an exception.
\<close>

definition search_end :: "hooks \<Rightarrow> taskmaster \<Rightarrow> taskmaster \<Rightarrow> exc + nid option \<Rightarrow> bool" where
  "search_end H s s' r \<longleftrightarrow>
     stopped s \<and> s' = fst (no_next_candidate s) \<and> r = Inr None
     \<or> \<not> stopped s \<and> s' = s \<and> candidates s = [] \<and> top_targets_left s = [] \<and> r = Inr None
     \<or> (\<exists>s1 n m. \<not> stopped s \<and> find_next_candidate H s = (s1, Some n) \<and> consider_node H n s1 = Found m s' \<and> r = Inr (Some m))
     \<or> (\<exists>s1 n x. \<not> stopped s \<and> find_next_candidate H s = (s1, Some n) \<and> consider_node H n s1 = Escape x s' \<and> r = Inl x)"

lemma find_ready_loop_rounds:
  assumes "walk_inv R H s" "P s" "find_ready_loop H s = Some (s', r)"
    and round: "\<And>s s1 n s2. walk_inv R H s \<Longrightarrow> P s \<Longrightarrow> \<not> stopped s \<Longrightarrow>
      find_next_candidate H s = (s1, Some n) \<Longrightarrow> consider_node H n s1 = Continue s2 \<Longrightarrow> P s2"
  shows "\<exists>s0. walk_inv R H s0 \<and> P s0 \<and> search_end H s0 s' r"
  using assms(1-3)
proof (induction s rule: wf_induct_rule [OF wf_walk_measure])
  case (1 s)
  note loop = "1.prems"(3) [unfolded find_ready_loop.simps [of H s] next_candidate_def]
  show ?case
  proof (cases "stopped s")
    case True
    with loop have "search_end H s s' r" by (auto simp: search_end_def no_next_candidate_def)
    with "1.prems" show ?thesis by blast
  next
    case False
    obtain s1 c where nc: "find_next_candidate H s = (s1, c)" by fastforce
    show ?thesis
    proof (cases c)
      case None
      with find_next_candidate_None [of H s s1] nc False loop have "search_end H s s' r"
        by (auto simp: search_end_def)
      with "1.prems" show ?thesis by blast
    next
      case (Some n)
      show ?thesis
      proof (cases "consider_node H n s1")
        case (Continue s2)
        note d = round_decreases [OF nc [unfolded Some] "1.prems"(1) Continue]
        have "find_ready_loop H s2 = Some (s', r)"
          using False nc Some Continue loop by (simp add: disambiguate_def)
        with "1.IH" [OF d(2,1) round [OF "1.prems"(1,2) False nc [unfolded Some] Continue]] show ?thesis by blast
      next
        case (Found m s2)
        with False nc Some loop have "search_end H s s' r" by (auto simp: search_end_def disambiguate_def)
        with "1.prems" show ?thesis by blast
      next
        case (Escape y s2)
        with False nc Some loop have "search_end H s s' r" by (auto simp: search_end_def disambiguate_def)
        with "1.prems" show ?thesis by blast
      qed
    qed
  qed
qed

lemma search_end_result:
  assumes e: "search_end H s s' r" and inv: "walk_inv R H s" and x: "ready_exc s = None"
  shows "walk_inv R H s' \<and> (\<forall>n. r = Inr (Some n) \<longrightarrow> valid s' n \<and> (ready_exc s' = None \<longrightarrow> node_ready H s' n))"
  using e unfolding search_end_def
proof (elim disjE exE conjE)
  fix s1 n m
  assume f: "find_next_candidate H s = (s1, Some n)" and c: "consider_node H n s1 = Found m s'" and r: "r = Inr (Some m)"
  note g = find_next_candidate_Some [OF f inv]
  have "ready_exc s1 = None" "valid s1 n" using find_next_candidate_ready_exc [OF f] x g by auto
  from consider_node_Found [OF c g(2) this(2,1)] r show ?thesis by simp
next
  fix s1 n y
  assume f: "find_next_candidate H s = (s1, Some n)" and c: "consider_node H n s1 = Escape y s'" and r: "r = Inl y"
  note g = find_next_candidate_Some [OF f inv]
  then have "valid s1 n" by simp
  from consider_node_Escape [OF c g(2) this] r show ?thesis by simp
qed (use inv walk_inv_no_next_candidate in auto)

lemma find_ready_loop_result:
  assumes "walk_inv R H s" "ready_exc s = None" "find_ready_loop H s = Some (s', r)"
  shows "walk_inv R H s' \<and> (\<forall>n. r = Inr (Some n) \<longrightarrow> valid s' n \<and> (ready_exc s' = None \<longrightarrow> node_ready H s' n))"
proof -
  have "\<exists>s0. walk_inv R H s0 \<and> ready_exc s0 = None \<and> search_end H s0 s' r"
  proof (rule find_ready_loop_rounds [where P = "\<lambda>s. ready_exc s = None", OF assms])
    fix s s1 n s2
    assume inv: "walk_inv R H s" and x: "ready_exc s = None"
      and f: "find_next_candidate H s = (s1, Some n)" and c: "consider_node H n s1 = Continue s2"
    note g = find_next_candidate_Some [OF f inv]
    then have "valid s1 n" by simp
    from consider_node_Continue [OF c g(2) this] find_next_candidate_ready_exc [OF f] x
    show "ready_exc s2 = None" by (simp add: round_frame_def)
  qed
  then show ?thesis using search_end_result by blast
qed

section \<open>The initial state\<close>

text \<open>
  A heap before the build: nobody waits, nothing is memoized, every reference is to a node of
  the heap and executors know their nodes.
\<close>

definition heap_ok :: "'a heap_scheme \<Rightarrow> bool" where
  "heap_ok h \<longleftrightarrow> list_all (\<lambda>n. let x = node_at h n in
       waiting_parents x = [] \<and> ref_count x = 0 \<and> memo_children x = None
       \<and> list_all (valid h) (sources x @ depends x @ implicit_list x @ ul_items (prerequisites x))
       \<and> (case node_executor x of None \<Rightarrow> True | Some e \<Rightarrow> e < length (execs h) \<and> n \<in> set (get_all_targets h e)
            \<and> (node_builder x \<noteq> None \<longrightarrow> \<not> is_null (exec_at h e)))) [0..<length (nodes h)]"

abbreviation into :: "'a heap_scheme \<Rightarrow> (nid \<times> nid) set" where
  "into h \<equiv> UNIV \<times> {m. valid h m}"

lemma heap_okD:
  assumes "heap_ok h"
  shows "wp h n = []" "rc h n = 0" "memo_children (node_at h n) = None" "\<forall>m \<in> node_deps (node_at h n). valid h m"
    "node_executor (node_at h n) = Some e \<Longrightarrow> e < length (execs h) \<and> n \<in> set (get_all_targets h e)
       \<and> (node_builder (node_at h n) \<noteq> None \<longrightarrow> \<not> is_null (exec_at h e))"
proof -
  have "wp h n = [] \<and> rc h n = 0 \<and> memo_children (node_at h n) = None \<and> (\<forall>m \<in> node_deps (node_at h n). valid h m) \<and>
    (node_executor (node_at h n) = Some e \<longrightarrow> e < length (execs h) \<and> n \<in> set (get_all_targets h e)
       \<and> (node_builder (node_at h n) \<noteq> None \<longrightarrow> \<not> is_null (exec_at h e)))"
  proof (cases "valid h n")
    case True
    then have "n \<in> set [0..<length (nodes h)]" by (simp add: valid_def)
    from bspec [OF assms [unfolded heap_ok_def list_all_iff] this] show ?thesis
      by (cases "node_executor (node_at h n)") (auto simp: Let_def node_deps_def)
  next
    case False
    then show ?thesis by (simp add: node_at_invalid) (simp add: Node_init_def)
  qed
  then show "wp h n = []" "rc h n = 0" "memo_children (node_at h n) = None" "\<forall>m \<in> node_deps (node_at h n). valid h m"
    "node_executor (node_at h n) = Some e \<Longrightarrow> e < length (execs h) \<and> n \<in> set (get_all_targets h e)
       \<and> (node_builder (node_at h n) \<noteq> None \<longrightarrow> \<not> is_null (exec_at h e))" by auto
qed

lemma Taskmaster_init_heap:
  "node_at (Taskmaster_init ts ord h) = node_at h" "valid (Taskmaster_init ts ord h) = valid h"
  "execs (Taskmaster_init ts ord h) = execs h" "exec_at (Taskmaster_init ts ord h) = exec_at h"
  "get_all_targets (Taskmaster_init ts ord h) = get_all_targets h"
  by (simp_all add: Taskmaster_init_def node_at_def valid_def exec_at_def get_all_targets_def fun_eq_iff)

lemma deps_in_init: "deps_in R H h \<Longrightarrow> deps_in R H (Taskmaster_init ts ord h)"
proof -
  have "found_ex H (Taskmaster_init ts ord h) x = found_ex H h x" for x
    by (rule found_ex_cong) (simp add: Taskmaster_init_def)
  then show "deps_in R H h \<Longrightarrow> deps_in R H (Taskmaster_init ts ord h)"
    by (simp add: deps_in_def targets_ok_def Taskmaster_init_heap)
qed

lemma walk_inv_init_deps:
  assumes "heap_ok h" "\<forall>t \<in> set ts. valid h t" "\<And>l. set (ord l) \<subseteq> set l"
    "\<And>n. \<forall>m \<in> set (fst (alter_targets H n)). valid h m" "deps_in R H h" "R \<subseteq> into h"
  shows "walk_inv R H (Taskmaster_init ts ord h)"
proof -
  let ?s = "Taskmaster_init ts ord h"
  note k = heap_okD [OF assms(1)]
  have "deps_in R H ?s" by (rule deps_in_init [OF assms(5)])
  moreover have "execs_ok ?s"
    using k(5) by (simp add: execs_ok_def Taskmaster_init_heap)
  moreover have "ref_inv ?s"
    by (rule ref_inv_init) (simp_all add: Taskmaster_init_heap k)
  ultimately show ?thesis
    using assms(2-4,6) k(1) by (simp add: walk_inv_def graph_inv_def Taskmaster_init_heap wp_valid_def)
      (simp add: Taskmaster_init_def)
qed

lemma walk_inv_init:
  assumes "heap_ok h" "\<forall>t \<in> set ts. valid h t" "\<And>l. set (ord l) \<subseteq> set l"
    "\<And>n. \<forall>m \<in> set (fst (alter_targets H n)). valid h m"
  shows "walk_inv (into h) H (Taskmaster_init ts ord h)"
proof (rule walk_inv_init_deps [OF assms])
  show "deps_in (into h) H h"
    unfolding deps_in_valid using heap_okD [OF assms(1)] by (simp add: memo_ok_def)
qed simp

text \<open>
  A program (node 0) linked from two objects (1 and 2), each compiled from its source file (3 and
  4), the second one also depending on a generated header (5) with a builder of its own.
\<close>

definition sample_builder :: "nat \<Rightarrow> builder" where
  "sample_builder i = \<lparr>b_action = \<lparr>a_id = i, a_targets = ''$TARGETS''\<rparr>, b_target_scanner = None, b_source_scanner = None\<rparr>"

definition sample_heap :: heap where
  "sample_heap = \<lparr>nodes = [
     Node_init\<lparr>node_builder := Some (sample_builder 0), sources := [1, 2], sources_set := {1, 2}\<rparr>,
     Node_init\<lparr>node_builder := Some (sample_builder 1), sources := [3], sources_set := {3}\<rparr>,
     Node_init\<lparr>node_builder := Some (sample_builder 1), sources := [4], sources_set := {4}, depends := [5], depends_set := {5}\<rparr>,
     Node_init, Node_init,
     Node_init\<lparr>node_builder := Some (sample_builder 2)\<rparr>], execs = []\<rparr>"

definition sample_start :: taskmaster where
  "sample_start = Taskmaster_init [0] id sample_heap"

lemma sample_heap_ok: "heap_ok sample_heap"
  by (simp add: heap_ok_def sample_heap_def list_all_iff node_at_def Let_def Node_init_def valid_def implicit_list_def
      ul_items_def UniqueList_init_def make_unique_def uniquer_hashables_def less_Suc_eq_0_disj numeral_eq_Suc)

lemma sample_walk_inv: "walk_inv (into sample_heap) base_hooks sample_start"
  unfolding sample_start_def
  by (rule walk_inv_init [OF sample_heap_ok]) (simp_all add: base_hooks_def sample_heap_def valid_def)



end
