(* ===== verification/Job.thy ===== *)
theory Job
  imports Errors
begin

text \<open>
  \<open>SCons/Job.py\<close>: running the tasks of a taskmaster one after the other (\<open>Serial\<close>) or with
  worker threads (\<open>Parallel\<close>). The module calls the taskmaster and its tasks only through
  their methods, so it is modelled over a record of these methods; theory \<open>Build\<close> supplies
  the taskmaster's own.
\<close>

section \<open>What a job asks of a taskmaster\<close>

text \<open>
  \<open>'s\<close> is the taskmaster with everything it refers to, \<open>'t\<close> a task. A method that raises returns
  the exception; \<open>op_next_task\<close> is \<open>None\<close> if the call does not return. \<open>op_first_target\<close> is
  \<open>task.targets[0]\<close>.
\<close>

record ('s, 't) task_ops =
  op_next_task :: "'s \<Rightarrow> ('s \<times> (exc + 't option)) option"
  op_prepare :: "'t \<Rightarrow> 's \<Rightarrow> 's \<times> exc option"
  op_needs_execute :: "'t \<Rightarrow> 's \<Rightarrow> bool"
  op_execute :: "'t \<Rightarrow> 's \<Rightarrow> 's \<times> exc option"
  op_exception_set :: "exc \<Rightarrow> 't \<Rightarrow> 't"
  op_failed :: "'t \<Rightarrow> 's \<Rightarrow> 's \<times> 't"
  op_executed :: "'t \<Rightarrow> 's \<Rightarrow> 's"
  op_postprocess :: "'t \<Rightarrow> 's \<Rightarrow> 's"
  op_first_target :: "'t \<Rightarrow> nid"
  op_stop :: "'s \<Rightarrow> 's"
  op_cleanup :: "'s \<Rightarrow> exc option"

definition interrupt_msg :: string where
  "interrupt_msg = ''Build interrupted.''"

definition interrupt_error :: "nid \<Rightarrow> exc" where
  "interrupt_error n = BuildErr (BuildError_init\<lparr>be_node := Some [n], errstr := interrupt_msg\<rparr>)"

text \<open>The signal handler of \<open>_setup_sig_handler\<close> in the parent process: state and flag.\<close>

definition sig_handler :: "('s, 't) task_ops \<Rightarrow> 's \<times> bool \<Rightarrow> 's \<times> bool" where
  "sig_handler ops si = (op_stop ops (fst si), True)"

section \<open>Serial jobs\<close>

text \<open>The \<open>try\<close> block: preparation and execution, up to the first exception.\<close>

definition serial_attempt :: "('s, 't) task_ops \<Rightarrow> 't \<Rightarrow> 's \<Rightarrow> 's \<times> exc option" where
  "serial_attempt ops t s = (case op_prepare ops t s of
       (s1, Some x) \<Rightarrow> (s1, Some x)
     | (s1, None) \<Rightarrow> (if op_needs_execute ops t s1 then op_execute ops t s1 else (s1, None)))"

text \<open>The handler of \<open>except\<close> with the call of \<open>failed\<close>.\<close>

definition task_failed :: "('s, 't) task_ops \<Rightarrow> bool \<Rightarrow> 't \<Rightarrow> exc \<Rightarrow> 's \<Rightarrow> 's \<times> 't" where
  "task_failed ops interrupted t x s =
     op_failed ops (op_exception_set ops (if interrupted then interrupt_error (op_first_target ops t) else x) t) s"

text \<open>
  One task. \<open>sig\<close> tells whether a signal arrives while the task runs; \<open>stop\<close> only matters to the
  next \<open>next_task\<close> and the flag to the exception handler.
\<close>

definition serial_task :: "('s, 't) task_ops \<Rightarrow> bool \<Rightarrow> 't \<Rightarrow> 's \<times> bool \<Rightarrow> 's \<times> bool" where
  "serial_task ops sig t si =
     (let (s1, x) = serial_attempt ops t (fst si);
          (s2, i) = (if sig then sig_handler ops (s1, snd si) else (s1, snd si))
      in case x of
           None \<Rightarrow> (op_postprocess ops t (op_executed ops t s2), i)
         | Some e \<Rightarrow> (let (s3, t3) = task_failed ops i t e s2 in (op_postprocess ops t3 s3, i)))"

text \<open>
  \<open>Serial.start\<close>. The \<open>k\<close>-th task is interrupted if \<open>sigs k\<close>. The result is the final state with
  the exception that \<open>next_task\<close> or \<open>cleanup\<close> raises; \<open>None\<close> is a loop that does not end.
\<close>

partial_function (option) serial_loop ::
    "('s, 't) task_ops \<Rightarrow> (nat \<Rightarrow> bool) \<Rightarrow> nat \<Rightarrow> 's \<times> bool \<Rightarrow> (('s \<times> bool) \<times> exc option) option" where
  "serial_loop ops sigs k si = (case op_next_task ops (fst si) of
       None \<Rightarrow> None
     | Some (s1, Inl x) \<Rightarrow> Some ((s1, snd si), Some x)
     | Some (s1, Inr None) \<Rightarrow> Some ((s1, snd si), op_cleanup ops s1)
     | Some (s1, Inr (Some t)) \<Rightarrow> serial_loop ops sigs (Suc k) (serial_task ops (sigs k) t (s1, snd si)))"

definition serial_start :: "('s, 't) task_ops \<Rightarrow> (nat \<Rightarrow> bool) \<Rightarrow> 's \<Rightarrow> (('s \<times> bool) \<times> exc option) option" where
  "serial_start ops sigs s = serial_loop ops sigs 0 (s, False)"

section \<open>Parallel jobs\<close>

text \<open>
  The main thread is at the inner loop that starts tasks (\<open>Filling\<close>), before a \<open>get\<close> of a result
  (\<open>Getting\<close>), after one result was handled (\<open>Draining\<close>), before the final clean-up
  (\<open>Finishing\<close>), or done with the exception it raised.
\<close>

datatype phase = Filling | Getting | Draining | Finishing | Done "exc option"

record ('s, 't) parallel =
  tm :: 's
  requests :: "'t list"
  running :: "'t list"
  results :: "('t \<times> bool) list"
  jobs :: nat
  interrupted :: bool
  phase :: phase
  maxjobs :: nat

definition Parallel_init :: "'s \<Rightarrow> nat \<Rightarrow> ('s, 't) parallel" where
  "Parallel_init s num = \<lparr>tm = s, requests = [], running = [], results = [], jobs = 0,
     interrupted = False, phase = Filling, maxjobs = num\<rparr>"

text \<open>The inner loop's body once there is a task.\<close>

definition start_task :: "('s, 't) task_ops \<Rightarrow> 't \<Rightarrow> ('s, 't) parallel \<Rightarrow> ('s, 't) parallel" where
  "start_task ops t p = (case op_prepare ops t (tm p) of
       (s1, Some x) \<Rightarrow> (let (s2, t2) = op_failed ops (op_exception_set ops x t) s1
                        in p\<lparr>tm := op_postprocess ops t2 s2\<rparr>)
     | (s1, None) \<Rightarrow>
        (if op_needs_execute ops t s1
         then p\<lparr>tm := s1, requests := requests p @ [t], jobs := jobs p + 1\<rparr>
         else p\<lparr>tm := op_postprocess ops t (op_executed ops t s1)\<rparr>))"

text \<open>A result taken from the queue. The task carries the exception its worker recorded.\<close>

definition finish_task :: "('s, 't) task_ops \<Rightarrow> 't \<Rightarrow> bool \<Rightarrow> ('s, 't) parallel \<Rightarrow> ('s, 't) parallel" where
  "finish_task ops t ok p =
     (if ok then p\<lparr>tm := op_postprocess ops t (op_executed ops t (tm p)), jobs := jobs p - 1\<rparr>
      else let t1 = (if interrupted p then op_exception_set ops (interrupt_error (op_first_target ops t)) t else t);
               (s2, t2) = op_failed ops t1 (tm p)
           in p\<lparr>tm := op_postprocess ops t2 s2, jobs := jobs p - 1\<rparr>)"

text \<open>
  A worker's turn with the task it holds: an interrupted worker raises at once. The task runs
  as one step of the interleaving; the result goes to the results queue.
\<close>

definition work_task :: "('s, 't) task_ops \<Rightarrow> 't \<Rightarrow> ('s, 't) parallel \<Rightarrow> ('s, 't) parallel" where
  "work_task ops t p =
     (let (s1, x) = (if interrupted p then (tm p, Some (interrupt_error (op_first_target ops t)))
                     else op_execute ops t (tm p))
      in case x of
           None \<Rightarrow> p\<lparr>tm := s1, results := results p @ [(t, True)]\<rparr>
         | Some e \<Rightarrow> p\<lparr>tm := s1, results := results p @ [(op_exception_set ops e t, False)]\<rparr>)"

text \<open>
  The steps of the main thread (\<open>Parallel.start\<close>) and of the workers (\<open>Worker.run\<close>; a worker that
  is free takes the oldest request, and there are \<open>maxjobs\<close> of them).
\<close>

inductive parallel_step :: "('s, 't) task_ops \<Rightarrow> ('s, 't) parallel \<Rightarrow> ('s, 't) parallel \<Rightarrow> bool"
  for ops :: "('s, 't) task_ops" where
  fill_start: "phase p = Filling \<Longrightarrow> jobs p < maxjobs p \<Longrightarrow> op_next_task ops (tm p) = Some (s, Inr (Some t)) \<Longrightarrow>
     parallel_step ops p (start_task ops t (p\<lparr>tm := s\<rparr>))"
| fill_none: "phase p = Filling \<Longrightarrow> jobs p < maxjobs p \<Longrightarrow> op_next_task ops (tm p) = Some (s, Inr None) \<Longrightarrow>
     parallel_step ops p (p\<lparr>tm := s, phase := (if jobs p = 0 then Finishing else Getting)\<rparr>)"
| fill_raise: "phase p = Filling \<Longrightarrow> jobs p < maxjobs p \<Longrightarrow> op_next_task ops (tm p) = Some (s, Inl x) \<Longrightarrow>
     parallel_step ops p (p\<lparr>tm := s, phase := Done (Some x)\<rparr>)"
| fill_full: "phase p = Filling \<Longrightarrow> \<not> jobs p < maxjobs p \<Longrightarrow> parallel_step ops p (p\<lparr>phase := Getting\<rparr>)"
| get: "phase p = Getting \<Longrightarrow> results p = (t, ok) # rs \<Longrightarrow>
     parallel_step ops p (finish_task ops t ok (p\<lparr>results := rs, phase := Draining\<rparr>))"
| drain_more: "phase p = Draining \<Longrightarrow> results p \<noteq> [] \<Longrightarrow> parallel_step ops p (p\<lparr>phase := Getting\<rparr>)"
| drain_done: "phase p = Draining \<Longrightarrow> results p = [] \<Longrightarrow> parallel_step ops p (p\<lparr>phase := Filling\<rparr>)"
| finish: "phase p = Finishing \<Longrightarrow> parallel_step ops p (p\<lparr>phase := Done (op_cleanup ops (tm p))\<rparr>)"
| take: "requests p = t # rs \<Longrightarrow> length (running p) < maxjobs p \<Longrightarrow>
     parallel_step ops p (p\<lparr>requests := rs, running := running p @ [t]\<rparr>)"
| work: "running p = ts @ t # us \<Longrightarrow> parallel_step ops p (work_task ops t (p\<lparr>running := ts @ us\<rparr>))"

inductive_cases parallel_stepE: "parallel_step ops p q"

text \<open>A signal arrives while the handler of \<open>Jobs.run\<close> is installed.\<close>

definition signal :: "('s, 't) task_ops \<Rightarrow> ('s, 't) parallel \<Rightarrow> ('s, 't) parallel" where
  "signal ops p = (let (s, i) = sig_handler ops (tm p, interrupted p) in p\<lparr>tm := s, interrupted := i\<rparr>)"

inductive parallel_reach :: "('s, 't) task_ops \<Rightarrow> ('s, 't) parallel \<Rightarrow> ('s, 't) parallel \<Rightarrow> bool"
  for ops :: "('s, 't) task_ops" and p0 :: "('s, 't) parallel" where
  reach_start: "parallel_reach ops p0 p0"
| reach_step: "parallel_reach ops p0 p \<Longrightarrow> parallel_step ops p q \<Longrightarrow> parallel_reach ops p0 q"
| reach_signal: "parallel_reach ops p0 p \<Longrightarrow> phase p \<notin> range Done \<Longrightarrow> parallel_reach ops p0 (signal ops p)"

section \<open>Choosing the kind of job\<close>

datatype job = SerialJob | ParallelJob nat

text \<open>\<open>Jobs.__init__\<close>: \<open>threads\<close> tells whether the module's \<open>Parallel\<close> class exists.\<close>

definition Jobs_init :: "bool \<Rightarrow> int \<Rightarrow> job \<times> int" where
  "Jobs_init threads num = (if num > 1 \<and> threads then (ParallelJob (nat num), num) else (SerialJob, 1))"

section \<open>Tasks in flight\<close>

definition in_flight :: "('s, 't) parallel \<Rightarrow> nat" where
  "in_flight p = length (requests p) + length (running p) + length (results p)"

definition parallel_inv :: "('s, 't) parallel \<Rightarrow> bool" where
  "parallel_inv p \<longleftrightarrow> jobs p = in_flight p \<and> jobs p \<le> maxjobs p \<and> 0 < maxjobs p
     \<and> (phase p = Getting \<longrightarrow> 0 < jobs p) \<and> (phase p = Finishing \<longrightarrow> jobs p = 0)"

lemma parallel_inv_init: "0 < num \<Longrightarrow> parallel_inv (Parallel_init s num)"
  by (simp add: parallel_inv_def Parallel_init_def in_flight_def)

lemma start_task_eq:
  "start_task ops t p = p\<lparr>tm := tm (start_task ops t p), requests := requests p @ [t], jobs := jobs p + 1\<rparr>
   \<or> start_task ops t p = p\<lparr>tm := tm (start_task ops t p)\<rparr>"
  by (simp add: start_task_def split: prod.split option.split)

lemma finish_task_eq: "finish_task ops t ok p = p\<lparr>tm := tm (finish_task ops t ok p), jobs := jobs p - 1\<rparr>"
  by (simp add: finish_task_def Let_def split: prod.split)

lemma work_task_eq:
  "\<exists>t' ok. work_task ops t p = p\<lparr>tm := tm (work_task ops t p), results := results p @ [(t', ok)]\<rparr>"
  by (simp add: work_task_def Let_def split: prod.split option.split) blast

lemma start_task_cases:
  obtains (dispatch) s' where "start_task ops t p = p\<lparr>tm := s', requests := requests p @ [t], jobs := jobs p + 1\<rparr>"
  | (handled) s' where "start_task ops t p = p\<lparr>tm := s'\<rparr>"
  using start_task_eq [of ops t p] by blast

lemma finish_task_cases: obtains s' where "finish_task ops t ok p = p\<lparr>tm := s', jobs := jobs p - 1\<rparr>"
  using finish_task_eq [of ops t ok p] by blast

lemma work_task_cases: obtains s' t' ok where "work_task ops t p = p\<lparr>tm := s', results := results p @ [(t', ok)]\<rparr>"
  using work_task_eq [of ops t p] by blast

lemma parallel_inv_step: "parallel_step ops p q \<Longrightarrow> parallel_inv p \<Longrightarrow> parallel_inv q"
proof (induction rule: parallel_step.induct)
  case (fill_start p s t)
  then show ?case
    by (cases rule: start_task_cases [of ops t "p\<lparr>tm := s\<rparr>"]) (auto simp: parallel_inv_def in_flight_def)
next
  case (get p t ok rs)
  then show ?case
    by (cases rule: finish_task_cases [of ops t ok "p\<lparr>results := rs, phase := Draining\<rparr>"])
      (auto simp: parallel_inv_def in_flight_def)
next
  case (work p ts t us)
  then show ?case
    by (cases rule: work_task_cases [of ops t "p\<lparr>running := ts @ us\<rparr>"]) (auto simp: parallel_inv_def in_flight_def)
qed (auto simp: parallel_inv_def in_flight_def)

lemma maxjobs_step: "parallel_step ops p q \<Longrightarrow> maxjobs q = maxjobs p"
proof (induction rule: parallel_step.induct)
  case (fill_start p s t)
  then show ?case by (cases rule: start_task_cases [of ops t "p\<lparr>tm := s\<rparr>"]) auto
next
  case (get p t ok rs)
  then show ?case by (cases rule: finish_task_cases [of ops t ok "p\<lparr>results := rs, phase := Draining\<rparr>"]) auto
next
  case (work p ts t us)
  then show ?case by (cases rule: work_task_cases [of ops t "p\<lparr>running := ts @ us\<rparr>"]) auto
qed auto

lemma signal_fields: "tm (signal ops p) = op_stop ops (tm p)" "phase (signal ops p) = phase p"
  "maxjobs (signal ops p) = maxjobs p" "parallel_inv (signal ops p) = parallel_inv p"
  by (simp_all add: signal_def sig_handler_def parallel_inv_def in_flight_def)

lemma parallel_reach_inv:
  assumes "parallel_reach ops (Parallel_init s num) p" "0 < num"
  shows "parallel_inv p \<and> maxjobs p = num"
  using assms
proof (induction rule: parallel_reach.induct)
  case reach_start
  then show ?case by (simp add: parallel_inv_init) (simp add: Parallel_init_def)
qed (auto simp: signal_fields maxjobs_step intro: parallel_inv_step)

text \<open>Some thread can always move until the main thread is done.\<close>

lemma parallel_progress:
  assumes inv: "parallel_inv p" and nd: "phase p \<notin> range Done" and nxt: "op_next_task ops (tm p) \<noteq> None"
  shows "\<exists>q. parallel_step ops p q"
proof (cases "phase p")
  case Filling
  from nxt obtain s r where r: "op_next_task ops (tm p) = Some (s, r)" by auto
  show ?thesis
  proof (cases "jobs p < maxjobs p")
    case True
    with Filling r show ?thesis
      by (cases r; cases "projr r") (auto intro: parallel_step.intros)
  qed (auto intro: fill_full Filling)
next
  case Getting
  show ?thesis
  proof (cases "results p")
    case Nil
    with inv Getting have "requests p \<noteq> [] \<or> running p \<noteq> []" "length (running p) \<le> maxjobs p"
      "length (requests p) + length (running p) \<le> maxjobs p"
      by (auto simp: parallel_inv_def in_flight_def)
    then consider (run) "running p \<noteq> []" | (req) "requests p \<noteq> []" "running p = []" by blast
    then show ?thesis
    proof cases
      case run
      then obtain t us where "running p = [] @ t # us" by (auto simp: neq_Nil_conv)
      then show ?thesis by (blast intro: work)
    next
      case req
      then obtain t rs where "requests p = t # rs" by (auto simp: neq_Nil_conv)
      moreover have "length (running p) < maxjobs p" using req inv by (simp add: parallel_inv_def)
      ultimately show ?thesis by (blast intro: take)
    qed
  next
    case (Cons r rs)
    with Getting show ?thesis by (cases r) (blast intro: get)
  qed
next
  case Draining
  then show ?thesis by (cases "results p = []") (blast intro: drain_more drain_done)+
qed (use nd in \<open>auto intro: finish\<close>)

section \<open>The interface to the taskmaster\<close>

text \<open>The laws a taskmaster promises: \<open>next_task\<close> returns, and every method keeps the invariant.\<close>

locale task_source =
  fixes ops :: "('s, 't) task_ops" and invar :: "'s \<Rightarrow> bool"
  assumes next_invar: "invar s \<Longrightarrow> \<exists>s' r. op_next_task ops s = Some (s', r) \<and> invar s'"
    and prepare_invar: "invar s \<Longrightarrow> invar (fst (op_prepare ops t s))"
    and execute_invar: "invar s \<Longrightarrow> invar (fst (op_execute ops t s))"
    and failed_invar: "invar s \<Longrightarrow> invar (fst (op_failed ops t s))"
    and executed_invar: "invar s \<Longrightarrow> invar (op_executed ops t s)"
    and postprocess_invar: "invar s \<Longrightarrow> invar (op_postprocess ops t s)"
    and stop_invar: "invar s \<Longrightarrow> invar (op_stop ops s)"
begin

lemma next_Some: "invar s \<Longrightarrow> op_next_task ops s = Some (s', r) \<Longrightarrow> invar s'"
  using next_invar [of s] by auto

lemma attempt_invar: "invar s \<Longrightarrow> invar (fst (serial_attempt ops t s))"
  using prepare_invar [of s t] execute_invar
  by (cases "op_prepare ops t s") (auto simp: serial_attempt_def split: option.split)

lemma task_failed_invar: "invar s \<Longrightarrow> invar (fst (task_failed ops i t x s))"
  by (simp add: task_failed_def failed_invar)

lemma serial_task_invar: "invar (fst si) \<Longrightarrow> invar (fst (serial_task ops sig t si))"
proof -
  assume inv: "invar (fst si)"
  obtain s1 x where a: "serial_attempt ops t (fst si) = (s1, x)" by fastforce
  have 1: "invar s1" using attempt_invar [OF inv, of t] a by simp
  let ?s2 = "if sig then op_stop ops s1 else s1"
  have 2: "invar ?s2" using 1 by (simp add: stop_invar)
  then have "invar (op_postprocess ops t' (fst (task_failed ops i t e ?s2)))"
    "invar (op_postprocess ops t (op_executed ops t ?s2))" for t' i e
    by (simp_all add: postprocess_invar task_failed_invar executed_invar split del: if_split)
  with a show ?thesis
    by (auto simp: serial_task_def sig_handler_def Let_def split: option.split prod.split) (metis fst_conv)+
qed

lemma start_task_invar: "invar (tm p) \<Longrightarrow> invar (tm (start_task ops t p))"
  using prepare_invar [of "tm p" t]
  by (auto simp: start_task_def split: prod.split option.split)
    (metis fst_conv postprocess_invar failed_invar executed_invar)+

lemma finish_task_invar: "invar (tm p) \<Longrightarrow> invar (tm (finish_task ops t ok p))"
  by (auto simp: finish_task_def Let_def split: prod.split)
    (metis fst_conv postprocess_invar failed_invar executed_invar)+

lemma work_task_invar: "invar (tm p) \<Longrightarrow> invar (tm (work_task ops t p))"
  using execute_invar [of "tm p" t] by (auto simp: work_task_def Let_def split: prod.split option.split)

lemma parallel_step_invar: "parallel_step ops p q \<Longrightarrow> invar (tm p) \<Longrightarrow> invar (tm q)"
proof (induction rule: parallel_step.induct)
  case (fill_start p s t)
  then show ?case using start_task_invar [of "p\<lparr>tm := s\<rparr>" t] by (auto dest: next_Some)
next
  case (get p t ok rs)
  then show ?case using finish_task_invar [of "p\<lparr>results := rs, phase := Draining\<rparr>" t ok] by simp
next
  case (work p ts t us)
  then show ?case using work_task_invar [of "p\<lparr>running := ts @ us\<rparr>" t] by simp
qed (auto dest: next_Some)

lemma parallel_reach_invar:
  "parallel_reach ops p0 p \<Longrightarrow> invar (tm p0) \<Longrightarrow> invar (tm p)"
  by (induction rule: parallel_reach.induct) (auto simp: signal_fields intro: parallel_step_invar stop_invar)

end

text \<open>
  In addition a natural number that starting a task makes smaller and no method makes bigger:
  the work that is left.
\<close>

locale finite_task_source = task_source ops invar
  for ops :: "('s, 't) task_ops" and invar :: "'s \<Rightarrow> bool" +
  fixes todo :: "'s \<Rightarrow> nat"
  assumes next_todo: "invar s \<Longrightarrow> op_next_task ops s = Some (s', r) \<Longrightarrow> todo s' \<le> todo s"
    and start_todo: "invar s \<Longrightarrow> op_next_task ops s = Some (s1, Inr (Some t)) \<Longrightarrow>
      op_prepare ops t s1 = (s2, None) \<Longrightarrow> todo s2 < todo s"
    and start_failed_todo: "invar s \<Longrightarrow> op_next_task ops s = Some (s1, Inr (Some t)) \<Longrightarrow>
      op_prepare ops t s1 = (s2, Some x) \<Longrightarrow>
      todo (fst (op_failed ops (op_exception_set ops y t) (if b then op_stop ops s2 else s2))) < todo s"
    and execute_todo: "invar s \<Longrightarrow> todo (fst (op_execute ops t s)) \<le> todo s"
    and failed_todo: "invar s \<Longrightarrow> todo (fst (op_failed ops t s)) \<le> todo s"
    and executed_todo: "invar s \<Longrightarrow> todo (op_executed ops t s) \<le> todo s"
    and postprocess_todo: "invar s \<Longrightarrow> todo (op_postprocess ops t s) \<le> todo s"
    and stop_todo: "invar s \<Longrightarrow> todo (op_stop ops s) \<le> todo s"
begin

text \<open>The end of a task, whichever way it goes.\<close>

lemma end_ok: "invar s \<Longrightarrow> todo (op_postprocess ops t (op_executed ops t s)) \<le> todo s"
  using postprocess_todo [OF executed_invar] executed_todo order_trans by blast

lemma end_failed: "invar s \<Longrightarrow> todo (op_postprocess ops t' (fst (op_failed ops t s))) \<le> todo (fst (op_failed ops t s))"
  by (rule postprocess_todo [OF failed_invar])

lemma serial_task_todo:
  assumes inv: "invar s" and nx: "op_next_task ops s = Some (s1, Inr (Some t))"
  shows "todo (fst (serial_task ops sig t (s1, i))) < todo s"
proof -
  have 1: "invar s1" by (rule next_Some [OF inv nx])
  obtain s2 x where p: "op_prepare ops t s1 = (s2, x)" by fastforce
  have 2: "invar s2" using prepare_invar [OF 1, of t] p by simp
  show ?thesis
  proof (cases x)
    case (Some e)
    let ?t = "op_exception_set ops (if sig \<or> i then interrupt_error (op_first_target ops t) else e) t"
    let ?s = "if sig then op_stop ops s2 else s2"
    obtain s3 t3 where f: "op_failed ops ?t ?s = (s3, t3)" by fastforce
    have "invar ?s" using 2 by (simp add: stop_invar)
    then have "todo (op_postprocess ops t3 s3) \<le> todo s3" using end_failed [of ?s t3 ?t] f by simp
    moreover have "todo s3 < todo s"
      using start_failed_todo [OF inv nx p [unfolded Some], of _ sig] f by (metis fst_conv)
    moreover have "fst (serial_task ops sig t (s1, i)) = op_postprocess ops t3 s3"
      using p Some f by (auto simp: serial_task_def serial_attempt_def task_failed_def sig_handler_def Let_def)
    ultimately show ?thesis by simp
  next
    case None
    have lt: "todo s2 < todo s" by (rule start_todo [OF inv nx p [unfolded None]])
    define a where "a = (if op_needs_execute ops t s2 then op_execute ops t s2 else (s2, None))"
    have 3: "invar (fst a)" "todo (fst a) \<le> todo s2"
      using 2 execute_invar [OF 2, of t] execute_todo [OF 2, of t] by (auto simp: a_def)
    let ?s = "if sig then op_stop ops (fst a) else fst a"
    have 4: "invar ?s" "todo ?s \<le> todo s2" using 3 stop_invar stop_todo order_trans by (auto, blast)
    have at: "serial_attempt ops t s1 = a" using p None by (simp add: serial_attempt_def a_def)
    have "todo (op_postprocess ops t (op_executed ops t ?s)) < todo s"
      using end_ok [OF 4(1), of t] 4(2) lt by simp
    moreover have "todo (op_postprocess ops t' (fst (op_failed ops u ?s))) < todo s" for t' u
      using end_failed [OF 4(1), of t' u] failed_todo [OF 4(1), of u] 4(2) lt by simp
    ultimately show ?thesis
      by (cases a; cases "snd a")
        (auto simp: serial_task_def at task_failed_def sig_handler_def Let_def split: prod.split, (metis fst_conv)+)
  qed
qed

text \<open>Serial execution ends, in a state that satisfies the invariant and has no task left.\<close>

text \<open>
  The rule for serial execution: \<open>J\<close> holds whenever the loop asks for a task, \<open>Q\<close> at its end.
\<close>

lemma serial_loop_rule:
  assumes step: "\<And>s s1 t sig i. invar s \<Longrightarrow> J s \<Longrightarrow> op_next_task ops s = Some (s1, Inr (Some t)) \<Longrightarrow>
      J (fst (serial_task ops sig t (s1, i)))"
    and none: "\<And>s s1. invar s \<Longrightarrow> J s \<Longrightarrow> op_next_task ops s = Some (s1, Inr None) \<Longrightarrow> Q s1 (op_cleanup ops s1)"
    and raised: "\<And>s s1 x. invar s \<Longrightarrow> J s \<Longrightarrow> op_next_task ops s = Some (s1, Inl x) \<Longrightarrow> Q s1 (Some x)"
  shows "invar (fst si) \<Longrightarrow> J (fst si) \<Longrightarrow> \<exists>s' i' x. serial_loop ops sigs k si = Some ((s', i'), x) \<and> invar s' \<and> Q s' x"
proof (induction "todo (fst si)" arbitrary: si k rule: less_induct)
  case less
  obtain s1 r where nx: "op_next_task ops (fst si) = Some (s1, r)" and 1: "invar s1"
    using next_invar [OF less.prems(1)] by auto
  show ?case
  proof (cases "\<exists>t. r = Inr (Some t)")
    case True
    then obtain t where r: "r = Inr (Some t)" by blast
    have d: "todo (fst (serial_task ops (sigs k) t (s1, snd si))) < todo (fst si)"
      by (rule serial_task_todo [OF less.prems(1) nx [unfolded r]])
    have "invar (fst (serial_task ops (sigs k) t (s1, snd si)))" using serial_task_invar [of "(s1, snd si)"] 1 by simp
    from less.hyps [OF d this step [OF less.prems nx [unfolded r]], of "Suc k"]
    show ?thesis by (subst serial_loop.simps) (simp add: nx r)
  next
    case False
    then consider x where "r = Inl x" | "r = Inr None" by (cases r; cases "projr r") auto
    then show ?thesis
      using none [OF less.prems] raised [OF less.prems] nx 1
      by cases (subst serial_loop.simps, simp)+
  qed
qed

lemma serial_loop_ends:
  "invar (fst si) \<Longrightarrow> \<exists>s' i' x. serial_loop ops sigs k si = Some ((s', i'), x) \<and> invar s'"
  using serial_loop_rule [where J = "\<lambda>_. True" and Q = "\<lambda>_ _. True"] by blast

lemma start_task_todo:
  assumes inv: "invar s" and nx: "op_next_task ops s = Some (s1, Inr (Some t))" and p: "tm p = s1"
  shows "todo (tm (start_task ops t p)) < todo s"
proof -
  have 1: "invar s1" by (rule next_Some [OF inv nx])
  obtain s2 x where pr: "op_prepare ops t s1 = (s2, x)" by fastforce
  have 2: "invar s2" using prepare_invar [OF 1, of t] pr by simp
  show ?thesis
  proof (cases x)
    case (Some e)
    obtain s3 t3 where f: "op_failed ops (op_exception_set ops e t) s2 = (s3, t3)" by fastforce
    have "todo (op_postprocess ops t3 s3) \<le> todo s3" using end_failed [OF 2, of t3 "op_exception_set ops e t"] f by simp
    moreover have "todo s3 < todo s"
      using start_failed_todo [OF inv nx pr [unfolded Some], of e False] f by simp
    ultimately show ?thesis using p pr Some f by (simp add: start_task_def)
  next
    case None
    have "todo s2 < todo s" by (rule start_todo [OF inv nx pr [unfolded None]])
    with end_ok [OF 2, of t] p pr None show ?thesis by (simp add: start_task_def)
  qed
qed

lemma finish_task_todo: "invar (tm p) \<Longrightarrow> todo (tm (finish_task ops t ok p)) \<le> todo (tm p)"
  using end_ok [of "tm p" t] end_failed [of "tm p"] failed_todo [of "tm p"]
  by (auto simp: finish_task_def Let_def split: prod.split) (metis fst_conv order_trans)+

lemma work_task_todo: "invar (tm p) \<Longrightarrow> todo (tm (work_task ops t p)) \<le> todo (tm p)"
  using execute_todo [of "tm p" t] by (auto simp: work_task_def Let_def split: prod.split option.split)

text \<open>Every step of a thread makes progress.\<close>

definition phase_weight :: "phase \<Rightarrow> nat" where
  "phase_weight ph = (case ph of Draining \<Rightarrow> 3 | Filling \<Rightarrow> 2 | Getting \<Rightarrow> 1 | Finishing \<Rightarrow> 1 | Done _ \<Rightarrow> 0)"

definition parallel_measure :: "(('s, 't) parallel \<times> ('s, 't) parallel) set" where
  "parallel_measure = measures [\<lambda>p. todo (tm p), \<lambda>p. 3 * length (requests p) + 2 * length (running p) + length (results p),
     \<lambda>p. phase_weight (phase p)]"

lemma parallel_step_decreases:
  "parallel_step ops p q \<Longrightarrow> invar (tm p) \<Longrightarrow> (q, p) \<in> parallel_measure"
proof (induction rule: parallel_step.induct)
  case (fill_start p s t)
  then have "todo (tm (start_task ops t (p\<lparr>tm := s\<rparr>))) < todo (tm p)" by (intro start_task_todo) simp_all
  then show ?case by (simp add: parallel_measure_def)
next
  case (fill_none p s)
  then have "todo s \<le> todo (tm p)" by (auto dest: next_todo)
  with fill_none show ?case by (auto simp: parallel_measure_def phase_weight_def)
next
  case (fill_raise p s x)
  then have "todo s \<le> todo (tm p)" by (auto dest: next_todo)
  with fill_raise show ?case by (auto simp: parallel_measure_def phase_weight_def)
next
  case (get p t ok rs)
  let ?p = "p\<lparr>results := rs, phase := Draining\<rparr>"
  have "todo (tm (finish_task ops t ok ?p)) \<le> todo (tm p)" using finish_task_todo [of ?p t ok] get by simp
  then show ?case
    using get by (cases rule: finish_task_cases [of ops t ok ?p]) (auto simp: parallel_measure_def)
next
  case (work p ts t us)
  let ?p = "p\<lparr>running := ts @ us\<rparr>"
  have "todo (tm (work_task ops t ?p)) \<le> todo (tm p)" using work_task_todo [of ?p t] work by simp
  then show ?case
    using work by (cases rule: work_task_cases [of ops t ?p]) (auto simp: parallel_measure_def)
qed (auto simp: parallel_measure_def phase_weight_def)

lemma parallel_no_infinite_run:
  assumes "invar (tm (f 0))"
  shows "\<not> (\<forall>i. parallel_step ops (f i) (f (Suc i)))"
proof
  assume st: "\<forall>i. parallel_step ops (f i) (f (Suc i))"
  have "invar (tm (f i))" for i by (induction i) (auto intro: assms parallel_step_invar st [rule_format])
  with st have "(f (Suc i), f i) \<in> parallel_measure" for i by (blast intro: parallel_step_decreases)
  moreover have "wf parallel_measure" by (simp add: parallel_measure_def)
  ultimately show False unfolding wf_iff_no_infinite_down_chain by blast
qed

end

end
