(* ===== verification/Build.thy ===== *)
theory Build
  imports Ready Job
begin

text \<open>
  The taskmaster under the two kinds of job. Its methods form the interface of theory \<open>Job\<close>;
  the laws of that interface are proved here for every task class of \<open>Taskmaster.py\<close>, so that
  serial execution ends and parallel execution can neither block nor run for ever. Side effects
  are excluded: a node that waits for one is not always released.
\<close>

section \<open>The task classes\<close>

text \<open>
  A task class fixes \<open>make_ready\<close> (current or all), \<open>needs_execute\<close>, \<open>failed\<close> (stop or continue) and
  \<open>executed\<close> (with or without callbacks). The defaults of \<open>Taskmaster\<close> are \<open>OutOfDateTask\<close>,
  \<open>make_ready_current\<close>, \<open>fail_stop\<close> and \<open>executed_with_callbacks\<close>.
\<close>

record task_class =
  tc_make_ready_all :: bool
  tc_tasker :: tasker
  tc_keep_going :: bool
  tc_callbacks :: bool

definition default_class :: task_class where
  "default_class = \<lparr>tc_make_ready_all = False, tc_tasker = OutOfDateTask, tc_keep_going = False, tc_callbacks = True\<rparr>"

definition tm_make_ready :: "task_class \<Rightarrow> hooks \<Rightarrow> task \<Rightarrow> taskmaster \<Rightarrow> taskmaster \<times> task \<times> exc option" where
  "tm_make_ready tc = (if tc_make_ready_all tc then make_ready_all else make_ready_current)"

definition tm_failed :: "task_class \<Rightarrow> task \<Rightarrow> taskmaster \<Rightarrow> taskmaster \<times> task" where
  "tm_failed tc = (if tc_keep_going tc then fail_continue else fail_stop)"

definition tm_executed :: "task_class \<Rightarrow> hooks \<Rightarrow> task \<Rightarrow> taskmaster \<Rightarrow> taskmaster" where
  "tm_executed tc H t = (if tc_callbacks tc then executed_with_callbacks H (t_targets t)
     else executed_without_callbacks (t_targets t))"

definition tm_ops :: "hooks \<Rightarrow> task_class \<Rightarrow> (taskmaster, task) task_ops" where
  "tm_ops H tc = \<lparr>op_next_task = next_task H (tm_make_ready tc), op_prepare = prepare H,
     op_needs_execute = needs_execute (tc_tasker tc), op_execute = execute H,
     op_exception_set = exception_set, op_failed = tm_failed tc, op_executed = tm_executed tc H,
     op_postprocess = postprocess, op_first_target = (\<lambda>t. hd (t_targets t)), op_stop = stop,
     op_cleanup = cleanup H\<rparr>"

section \<open>The invariant\<close>

lemma le_pending_iff: "st \<le> pending \<longleftrightarrow> st \<in> {no_state, pending}"
  by (cases st) (auto simp: state_order_defs)

definition no_side_effects :: "'a heap_scheme \<Rightarrow> bool" where
  "no_side_effects h \<longleftrightarrow> (\<forall>n. side_effects (node_at h n) = [])"

definition tm_inv :: "(nid \<times> nid) set \<Rightarrow> hooks \<Rightarrow> taskmaster \<Rightarrow> bool" where
  "tm_inv R H s \<longleftrightarrow> walk_inv R H s \<and> no_side_effects s"

text \<open>The nodes that are not visited or pending, and how many they are.\<close>

definition open_nodes :: "'a heap_scheme \<Rightarrow> nid set" where
  "open_nodes h = {n. valid h n \<and> get_state h n \<le> pending}"

definition todo :: "taskmaster \<Rightarrow> nat" where
  "todo s = card (open_nodes s)"

lemma finite_open_nodes [simp]: "finite (open_nodes h)"
  by (simp add: open_nodes_def valid_def)

lemma todo_mono: "open_nodes s' \<subseteq> open_nodes s \<Longrightarrow> todo s' \<le> todo s"
  by (simp add: todo_def card_mono)

lemma todo_less: "open_nodes s' \<subseteq> open_nodes s \<Longrightarrow> n \<in> open_nodes s \<Longrightarrow> n \<notin> open_nodes s' \<Longrightarrow> todo s' < todo s"
  by (auto simp: todo_def intro!: psubset_card_mono)

text \<open>
  What an operation may do to the states: the heap keeps its size, side effects stay, and no
  node that was visited becomes open again.
\<close>

definition advances :: "taskmaster \<Rightarrow> taskmaster \<Rightarrow> bool" where
  "advances s s' \<longleftrightarrow> (\<forall>n. valid s' n = valid s n) \<and> (\<forall>n. side_effects (node_at s' n) = side_effects (node_at s n))
     \<and> open_nodes s' \<subseteq> open_nodes s"

lemma advances_refl [simp]: "advances s s"
  by (simp add: advances_def)

lemma advances_trans: "advances s s' \<Longrightarrow> advances s' s'' \<Longrightarrow> advances s s''"
  by (auto simp: advances_def)

lemma advances_same_tasks: "same_tasks s s' \<Longrightarrow> advances s s'"
  by (simp add: advances_def same_tasks_view open_nodes_def)

lemma advances_round:
  assumes "round_frame s s'" "\<And>n. get_state s' n = get_state s n \<or> pending < get_state s' n"
  shows "advances s s'"
proof -
  have "m \<in> open_nodes s" if "m \<in> open_nodes s'" for m
    using that assms(2) [of m] assms(1) by (auto simp: open_nodes_def round_frame_def)
  with assms(1) show ?thesis by (auto simp: advances_def round_frame_def)
qed

lemma advances_set_states: "pending < st \<Longrightarrow> advances s (set_states ns st s)"
  by (auto simp: advances_def set_states_fields open_nodes_def)

lemma advances_fold: "(\<And>x s. x \<in> set xs \<Longrightarrow> advances s (f x s)) \<Longrightarrow> advances s (fold f xs s)"
proof (induction xs arbitrary: s)
  case (Cons x xs)
  then show ?case using advances_trans [of s "f x s" "fold f xs (f x s)"] by simp
qed simp

lemma tm_inv_advances: "tm_inv R H s \<Longrightarrow> advances s s' \<Longrightarrow> walk_inv R H s' \<Longrightarrow> tm_inv R H s'"
  by (simp add: tm_inv_def advances_def no_side_effects_def)

section \<open>The search\<close>

lemma advances_find_next_candidate:
  assumes "find_next_candidate H s = (s1, Some n)" "walk_inv R H s" shows "advances s s1"
  using find_next_candidate_Some [OF assms] by (simp add: advances_def open_nodes_def)

lemma advances_consider_Continue:
  assumes "consider_node H n s = Continue s'" "walk_inv R H s" "valid s n"
  shows "advances s s'"
proof -
  note c = consider_node_Continue [OF assms]
  show ?thesis
  proof (cases "pending < get_state s n")
    case False
    then have "n \<in> open_nodes s" using assms(3) by (simp add: open_nodes_def)
    moreover have "valid s' m = valid s m" "side_effects (node_at s' m) = side_effects (node_at s m)" for m
      using c by (auto simp: round_frame_def)
    moreover have "m \<in> open_nodes s" if "m \<in> open_nodes s'" for m
    proof (cases "m = n")
      case False
      from c \<open>\<not> pending < get_state s n\<close>
      have "get_state s' m = failed \<or> get_state s' m = (if m = n then pending else get_state s m)" by auto
      with False that c show ?thesis by (auto simp: open_nodes_def round_frame_def le_pending_iff)
    qed (use \<open>n \<in> open_nodes s\<close> in simp)
    ultimately show ?thesis by (auto simp: advances_def)
  qed (use c in simp)
qed

text \<open>The state in which a round has the children of an open node.\<close>

lemma consider_start:
  assumes inv: "walk_inv R H s" and v: "valid s n" and np: "\<not> pending < get_state s n"
  obtains s2 e r where "considered_children H n (mark_pending n s) = (s2, e, r)"
    "walk_inv R H s2" "round_frame s s2" "candidates s2 = candidates s" "advances s s2"
    "\<And>k. get_state s2 k = (if k = n then pending else get_state s k)" "\<And>k. wp s2 k = wp s k" "\<And>k. rc s2 k = rc s k"
    "\<And>all. r = Inr all \<Longrightarrow> set all \<subseteq> {m. valid s2 m}"
    "\<And>all. r = Inr all \<Longrightarrow> set all \<subseteq> R `` set (get_all_targets s2 e)"
    "e < length (execs s2)" "n \<in> set (get_all_targets s2 e)"
proof -
  let ?s1 = "mark_pending n s"
  note m = mark_pending [OF inv v np]
  obtain s2 e r where cc: "considered_children H n ?s1 = (s2, e, r)" by (metis prod_cases3)
  have g1: "graph_inv R H ?s1" and v1: "valid ?s1 n" using m v by (auto simp: walk_inv_def)
  note ok = considered_children_ok [OF cc g1 v1]
  note st = same_tasks_view [OF ok(1)]
  have i2: "walk_inv R H s2" by (rule walk_inv_same_tasks [OF m(1) ok(1,2)])
  have f: "round_frame s s2" by (rule round_frame_trans [OF m(2) round_frame_same_tasks [OF ok(1)]])
  have k: "get_state s2 k = (if k = n then pending else get_state s k)" for k by (simp add: st m)
  have "wp ?s1 k = wp s k" "rc ?s1 k = rc s k" for k by (simp_all add: mark_pending_def node_at_set_state)
  then have w: "wp s2 k = wp s k" "rc s2 k = rc s k" for k by (simp_all add: st)
  have "n \<in> open_nodes s" using v np by (simp add: open_nodes_def)
  then have a: "advances s s2" using f k by (auto simp: advances_def round_frame_def open_nodes_def split: if_splits)
  have "R \<subseteq> UNIV \<times> {m. valid s2 m}" using i2 by (simp add: walk_inv_def)
  then have al: "set all \<subseteq> {m. valid s2 m}" if "r = Inr all" for all using ok(7) [OF that] by auto
  show thesis
    by (rule that [OF cc i2 f _ a k w al ok(7) ok(4,5)]) (simp_all add: same_tasks_fields [OF ok(1)] m)
qed

lemma advances_push_children:
  assumes "walk_inv R H s" "set all \<subseteq> {m. valid s m}" "same_tasks (push_children all s) s'"
  shows "advances s s'" "round_frame s s'" "get_state s' k = get_state s k"
proof -
  show k: "get_state s' k = get_state s k" for k by (simp add: same_tasks_view [OF assms(3)])
  show f: "round_frame s s'"
    by (rule round_frame_trans [OF walk_inv_push_children(2) [OF assms(1,2)] round_frame_same_tasks [OF assms(3)]])
  show "advances s s'" by (rule advances_round [OF f]) (simp add: k)
qed

lemma advances_consider_Found:
  assumes c: "consider_node H n s = Found m s'" and inv: "walk_inv R H s" and v: "valid s n"
  shows "m = n" "advances s s'" "n \<in> open_nodes s" "get_state s' n = pending"
proof -
  have np: "\<not> pending < get_state s n" using c by (auto simp: consider_node_alt)
  then show "n \<in> open_nodes s" using v by (simp add: open_nodes_def)
  obtain s2 e r where s2: "considered_children H n (mark_pending n s) = (s2, e, r)" "walk_inv R H s2"
    "advances s s2" "get_state s2 n = pending" "\<And>all. r = Inr all \<Longrightarrow> set all \<subseteq> {m. valid s2 m}"
    by (rule consider_start [OF inv v np]) simp
  have "m = n \<and> advances s2 s' \<and> get_state s' n = pending"
  proof (cases r)
    case (Inl y)
    with np c s2 show ?thesis
      by (auto simp: consider_node_alt mark_pending_def [symmetric] advances_def open_nodes_def)
  next
    case (Inr all)
    with np c s2(1) have "sort_children H n e all s2 = Found m s'"
      by (auto simp: consider_node_alt mark_pending_def [symmetric])
    note fd = sort_children_Found [OF this s2(2) s2(5) [OF Inr]]
    then show ?thesis using advances_push_children [OF s2(2) s2(5) [OF Inr]] s2(4) by auto
  qed
  then show "m = n" "advances s s'" "get_state s' n = pending" using s2(3) by (auto intro: advances_trans)
qed

lemma advances_consider_Escape:
  assumes c: "consider_node H n s = Escape x s'" and inv: "walk_inv R H s" and v: "valid s n"
  shows "advances s s'"
proof -
  have np: "\<not> pending < get_state s n" using c by (auto simp: consider_node_alt)
  obtain s2 e r where s2: "considered_children H n (mark_pending n s) = (s2, e, r)" "walk_inv R H s2"
    "advances s s2" "\<And>all. r = Inr all \<Longrightarrow> set all \<subseteq> {m. valid s2 m}"
    by (rule consider_start [OF inv v np]) simp
  from np c s2(1) obtain all where r: "r = Inr all" and sc: "sort_children H n e all s2 = Escape x s'"
    by (cases r) (auto simp: consider_node_alt mark_pending_def [symmetric])
  from sc consider "s' = fst (get_action_targets H e (push_children all s2))"
    | "s' = fst (get_action_side_effects H e (push_children all s2))"
    by (auto simp: sort_children_alt check_side_effects_def Let_def split: prod.splits sum.splits if_splits)
  then have "same_tasks (push_children all s2) s'" by cases (simp_all add: same_tasks_ops)
  from advances_trans [OF s2(3) advances_push_children(1) [OF s2(2) s2(4) [OF r] this]] show ?thesis .
qed

lemma advances_will_not_build:
  assumes "walk_inv R H s" "m = None \<or> m = Some failed"
  shows "advances s (will_not_build ns m s)"
proof (rule advances_round [OF walk_inv_will_not_build(2) [OF assms(1)]])
  fix n
  let ?tv = "fold set_add ns []" and ?pc = "set_minus (pending_children s) (fold set_add ns [])"
  obtain pc s1 where w: "will_not_build_loop m ?tv ?pc s = (pc, s1)" by fastforce
  have eq: "get_state (will_not_build ns m s) n = get_state s1 n" by (simp add: will_not_build_def w)
  show "get_state (will_not_build ns m s) n = get_state s n \<or> pending < get_state (will_not_build ns m s) n"
  proof (cases m)
    case None
    have "get_state (snd (will_not_build_loop None tv pc h)) n = get_state h n" for tv pc and h :: taskmaster
    proof (induction "None :: node_state option" tv pc h rule: will_not_build_loop.induct)
      case (2 k tv pc h)
      then show ?case by (simp add: Let_def mark_node_def take_parents_keeps)
    qed simp
    from this [of ?tv ?pc s] w None eq show ?thesis by simp
  next
    case (Some st)
    with assms(2) will_not_build_loop_state [of st ?tv ?pc s n] w eq show ?thesis by (auto simp: gt_pending_iff)
  qed
qed

lemma find_next_ready_node_advances:
  assumes inv: "walk_inv R H s" and f: "find_next_ready_node H s = Some (s', r)"
  shows "walk_inv R H s'" "advances s s'"
    "r = Inr (Some n) \<Longrightarrow> n \<in> open_nodes s \<and> valid s' n \<and> get_state s' n = pending \<and> (ready_exc s' = None \<longrightarrow> node_ready H s' n)"
proof -
  let ?s = "s\<lparr>ready_exc := None\<rparr>"
  have w: "walk_inv R H ?s" by (rule walk_inv_ready_exc [OF inv])
  have l: "find_ready_loop H ?s = Some (s', r)" using f by (simp add: find_next_ready_node_def)
  have "advances ?s ?s" by simp
  from find_ready_loop_rounds [where P = "advances ?s", OF w this l] obtain s0
    where s0: "walk_inv R H s0" "advances ?s s0" "search_end H s0 s' r"
  proof (rule exE)
    fix s0 s1 n s2
    assume i: "walk_inv R H s0" and a: "advances ?s s0"
      and fc: "find_next_candidate H s0 = (s1, Some n)" and c: "consider_node H n s1 = Continue s2"
    note g = find_next_candidate_Some [OF fc i]
    have "advances s1 s2" using advances_consider_Continue [OF c g(2)] g by simp
    with a advances_find_next_candidate [OF fc i] show "advances ?s s2" by (blast intro: advances_trans)
  qed auto
  have "open_nodes ?s = open_nodes s" by (simp add: open_nodes_def)
  then have a: "advances s s0" using s0(2) by (simp add: advances_def)
  from find_ready_loop_result [OF w _ l]
  have res: "walk_inv R H s'" "r = Inr (Some n) \<Longrightarrow> valid s' n \<and> (ready_exc s' = None \<longrightarrow> node_ready H s' n)" for n by auto
  show "walk_inv R H s'" by (rule res)
  have end_advances: "advances s0 s' \<and> (r = Inr (Some n) \<longrightarrow> n \<in> open_nodes s0 \<and> get_state s' n = pending)"
    using s0(3) unfolding search_end_def
  proof (elim disjE exE conjE)
    assume "s' = fst (no_next_candidate s0)" "r = Inr None"
    moreover have "walk_inv R H (s0\<lparr>candidates := []\<rparr>)" "advances s0 (s0\<lparr>candidates := []\<rparr>)"
      using s0(1) graph_inv_same_graph [OF same_graph_taskmaster_updates(1)]
      by (auto simp: walk_inv_def wp_valid_def advances_def open_nodes_def)
    ultimately show ?thesis
      using advances_will_not_build [of R H "s0\<lparr>candidates := []\<rparr>" None "candidates s0"]
      by (auto simp: no_next_candidate_def intro: advances_trans)
  next
    fix s1 k m
    assume fc: "find_next_candidate H s0 = (s1, Some k)" and c: "consider_node H k s1 = Found m s'" and r: "r = Inr (Some m)"
    note g = find_next_candidate_Some [OF fc s0(1)]
    have "valid s1 k" using g by simp
    note fd = advances_consider_Found [OF c g(2) this]
    with advances_find_next_candidate [OF fc s0(1)] r show ?thesis by (auto simp: advances_def)
  next
    fix s1 k x
    assume fc: "find_next_candidate H s0 = (s1, Some k)" and c: "consider_node H k s1 = Escape x s'" and r: "r = Inl x"
    note g = find_next_candidate_Some [OF fc s0(1)]
    have "valid s1 k" using g by simp
    from advances_consider_Escape [OF c g(2) this] advances_find_next_candidate [OF fc s0(1)] r
    show ?thesis by (auto intro: advances_trans)
  qed auto
  then show "advances s s'" using a by (blast intro: advances_trans)
  show "r = Inr (Some n) \<Longrightarrow> n \<in> open_nodes s \<and> valid s' n \<and> get_state s' n = pending \<and> (ready_exc s' = None \<longrightarrow> node_ready H s' n)"
    using end_advances res(2) a by (auto simp: advances_def)
qed

section \<open>The methods of a task\<close>

text \<open>
  An operation is \<open>safe\<close> on a state if it keeps the invariant of the walk and no node becomes open.
\<close>

definition safe :: "(nid \<times> nid) set \<Rightarrow> hooks \<Rightarrow> taskmaster \<Rightarrow> taskmaster \<Rightarrow> bool" where
  "safe R H s s' \<longleftrightarrow> walk_inv R H s' \<and> advances s s'"

lemma safe_refl: "walk_inv R H s \<Longrightarrow> safe R H s s"
  by (simp add: safe_def)

lemma safe_trans: "safe R H s s' \<Longrightarrow> safe R H s' s'' \<Longrightarrow> safe R H s s''"
  by (auto simp: safe_def intro: advances_trans)

lemma safe_walk: "safe R H s s' \<Longrightarrow> walk_inv R H s'"
  by (simp add: safe_def)

lemma safe_tm_inv: "tm_inv R H s \<Longrightarrow> safe R H s s' \<Longrightarrow> tm_inv R H s'"
  by (auto simp: safe_def intro: tm_inv_advances)

lemma safe_todo: "safe R H s s' \<Longrightarrow> todo s' \<le> todo s"
  by (simp add: safe_def advances_def todo_mono)

lemma safe_same:
  assumes "walk_inv R H s" "same_tasks s s'" "graph_inv R H s'" shows "safe R H s s'"
  using assms by (simp add: safe_def walk_inv_same_tasks [OF assms] advances_same_tasks)

lemma safe_same_graph: "walk_inv R H s \<Longrightarrow> same_tasks s s' \<Longrightarrow> same_graph s s' \<Longrightarrow> safe R H s s'"
  by (rule safe_same) (auto simp: walk_inv_def intro: graph_inv_same_graph)

lemma safe_set_states: "walk_inv R H s \<Longrightarrow> pending < st \<Longrightarrow> safe R H s (set_states ns st s)"
  by (simp add: safe_def walk_inv_set_states advances_set_states)

lemma safe_set_state: "walk_inv R H s \<Longrightarrow> pending < st \<Longrightarrow> safe R H s (set_state n st s)"
  using safe_set_states [of R H s st "[n]"] by simp

lemma safe_fold:
  "(\<And>x s. x \<in> set xs \<Longrightarrow> walk_inv R H s \<Longrightarrow> safe R H s (f x s)) \<Longrightarrow> walk_inv R H s \<Longrightarrow> safe R H s (fold f xs s)"
proof (induction xs arbitrary: s)
  case (Cons x xs)
  have 1: "safe R H s (f x s)" using Cons.prems by simp
  have "safe R H (f x s) (fold f xs (f x s))" by (rule Cons.IH) (use Cons.prems safe_walk [OF 1] in auto)
  with 1 show ?case by (auto intro: safe_trans)
qed (simp add: safe_refl)

lemma safe_update:
  "walk_inv R H s \<Longrightarrow> safe R H s (s\<lparr>ready_exc := x\<rparr>)" "walk_inv R H s \<Longrightarrow> safe R H s (s\<lparr>message := m\<rparr>)"
  "walk_inv R H s \<Longrightarrow> safe R H s (s\<lparr>stopped := b\<rparr>)"
  using graph_inv_same_graph [OF same_graph_taskmaster_updates(3)] graph_inv_same_graph [OF same_graph_taskmaster_updates(6)]
    graph_inv_same_graph [OF same_graph_taskmaster_updates(7)]
  by (auto simp: safe_def advances_def open_nodes_def walk_inv_def wp_valid_def)

lemma safe_get_executor: "walk_inv R H s \<Longrightarrow> safe R H s (fst (get_executor n s))"
  by (rule safe_same) (auto simp: same_tasks_ops walk_inv_def intro: graph_inv_get_executor)

lemma same_graph_visited: "same_graph h (visited H n h)"
  by (simp add: visited_def same_graph_simps)

lemma same_graph_built: "same_graph h (built H n h)"
proof -
  have "same_graph h (fold (\<lambda>p. upd_node p (implicit_update (\<lambda>_. None))) ps h)" for ps and h :: "'a heap_scheme"
    by (rule same_graph_fold) (auto simp: same_graph_simps intro!: same_graph_upd_node)
  moreover have "same_graph h (clear n h)" for h :: "'a heap_scheme"
    unfolding clear_def del_binfo_def clear_memoized_values_def executor_cleanup_def executor_cleanup_at_def
    by (auto simp: same_graph_simps split: option.split intro!: same_graph_upd_node same_graph_upd_exec
        same_graph_trans [OF _ same_graph_upd_exec] same_graph_trans [OF _ same_graph_upd_node])
  moreover have "same_graph h (upd_node n (ninfo_update (\<lambda>_. ninfo_of H n)) h)" for h :: "'a heap_scheme"
    by (simp add: same_graph_simps)
  ultimately show ?thesis unfolding built_def Let_def by (blast intro: same_graph_trans)
qed

lemma safe_visited: "walk_inv R H s \<Longrightarrow> safe R H s (visited H n s)"
  by (rule safe_same_graph) (simp_all add: same_tasks_ops same_graph_visited)

lemma safe_built: "walk_inv R H s \<Longrightarrow> safe R H s (built H n s)"
  by (rule safe_same_graph) (simp_all add: same_tasks_ops same_graph_built)

lemma safe_mark_executing: "walk_inv R H s \<Longrightarrow> safe R H s (mark_executing t s)"
  unfolding mark_executing_def
  by (rule safe_trans [OF safe_set_state safe_set_states])
    (auto simp: gt_pending_iff intro: safe_walk [OF safe_set_state])

lemma safe_make_ready:
  "walk_inv R H s \<Longrightarrow> safe R H s (fst (tm_make_ready tc H t s))"
proof -
  assume inv: "walk_inv R H s"
  have "safe R H s (fold mark_executing (t_targets t) s)" by (rule safe_fold) (simp_all add: inv safe_mark_executing)
  moreover have "safe R H s (set_state n node_state.up_to_date (visited H n s))" if "walk_inv R H s" for n s
    by (rule safe_trans [OF safe_visited [OF that] safe_set_state]) (auto simp: gt_pending_iff intro: safe_walk safe_visited that)
  then have "safe R H s (fold (\<lambda>n s. set_state n node_state.up_to_date (visited H n s)) (t_targets t) s)"
    by (intro safe_fold inv) blast
  ultimately show ?thesis
    using safe_refl [OF inv]
    by (auto simp: tm_make_ready_def make_ready_all_def make_ready_current_def Let_def split: prod.split)
qed

text \<open>Preparing.\<close>

lemma graph_inv_get_binfo:
  assumes "graph_inv R H h" shows "graph_inv R H (fst (get_binfo H n h))"
proof (cases "binfo (node_at h n)")
  case None
  obtain h1 e where e: "get_executor n h = (h1, e)" by fastforce
  obtain h2 sig where c: "binfo_actsig H n e h1 = (h2, sig)" by fastforce
  obtain h3 srcs where u: "binfo_sources n e h2 = (h3, srcs)" by fastforce
  have 1: "graph_inv R H h1" using graph_inv_get_executor [OF assms, of n] e by simp
  have 2: "same_graph h1 h2"
    using c by (auto simp: binfo_actsig_def get_contents_def Let_def same_graph_simps split: if_splits option.splits prod.splits)
  have 3: "same_graph h2 h3"
    using u by (auto simp: binfo_sources_def get_unignored_sources_def Let_def same_graph_simps split: if_splits option.splits)
  have "same_graph h1 (upd_node n (binfo_update (\<lambda>_. b)) h3)" for b
    by (rule same_graph_trans [OF same_graph_trans [OF 2 3]]) (simp add: same_graph_simps)
  from graph_inv_same_graph [OF this 1] show ?thesis by (simp add: get_binfo_def None e c u Let_def)
qed (use assms in \<open>simp add: get_binfo_def\<close>)

lemma safe_node_prepare: "walk_inv R H s \<Longrightarrow> safe R H s (fst (node_prepare H n s))"
proof -
  assume inv: "walk_inv R H s"
  obtain h1 b where b: "get_binfo H n s = (h1, b)" by fastforce
  have "graph_inv R H h1" using graph_inv_get_binfo [of R H s n] inv b by (simp add: walk_inv_def)
  moreover have "same_graph h1 (upd_node n (binfo_update (\<lambda>_. Some b)) h1)" by (simp add: same_graph_simps)
  ultimately have "graph_inv R H (fst (node_prepare H n s))"
    using b inv by (auto simp: node_prepare_def walk_inv_def graph_inv_same_graph split: option.split)
  with inv same_tasks_node_prepare show ?thesis by (rule safe_same)
qed

lemma safe_prepare_nodes: "walk_inv R H s \<Longrightarrow> safe R H s (fst (prepare_nodes H ns s))"
proof (induction H ns s rule: prepare_nodes.induct)
  case (2 H n ns s)
  obtain s1 r where p: "node_prepare H n s = (s1, r)" by fastforce
  have 1: "safe R H s s1" using safe_node_prepare [OF "2.prems", of n] p by simp
  with p "2.IH" [OF p [symmetric]] safe_walk [OF 1] show ?case by (cases r) (auto intro: safe_trans)
qed (simp add: safe_refl)

lemma safe_prepare_targets: "walk_inv R H s \<Longrightarrow> safe R H s (fst (prepare_targets H ts s))"
proof (induction H ts s rule: prepare_targets.induct)
  case (2 H t ts s)
  obtain s1 r where p: "prepare_nodes H (t # side_effects (node_at s t)) s = (s1, r)" by fastforce
  have 1: "safe R H s s1" using safe_prepare_nodes [OF "2.prems"] p by (metis fst_conv)
  show ?case
    by (cases r) (use p "2.IH" [OF p [symmetric]] 1 safe_walk [OF 1] in
      \<open>auto simp del: prepare_nodes.simps intro: safe_trans\<close>)
qed (simp add: safe_refl)

lemma safe_action_targets: "walk_inv R H s \<Longrightarrow> safe R H s (fst (get_action_targets H e s))"
  by (rule safe_same_graph) (simp_all add: same_tasks_ops same_graph_get_action_targets)

lemma safe_prepare: "walk_inv R H s \<Longrightarrow> safe R H s (fst (prepare H t s))"
proof (cases "t_exception t")
  case None
  assume inv: "walk_inv R H s"
  let ?s1 = "s\<lparr>message := None\<rparr>"
  have 1: "safe R H s ?s1" by (rule safe_update [OF inv])
  show ?thesis
  proof (cases "t_targets t")
    case Nil
    with None 1 show ?thesis by (simp add: prepare_def)
  next
    case (Cons t0 ts0)
    obtain s2 e where e: "get_executor t0 ?s1 = (s2, e)" by fastforce
    have 2: "safe R H s s2" using safe_trans [OF 1 safe_get_executor [OF safe_walk [OF 1], of t0]] e by simp
    obtain s3 r where g: "get_action_targets H e s2 = (s3, r)" by fastforce
    have 3: "safe R H s s3" using safe_trans [OF 2 safe_action_targets [OF safe_walk [OF 2], of e]] g by simp
    have 4: "safe R H s (fst (prepare_targets H ts s3))" for ts
      by (rule safe_trans [OF 3 safe_prepare_targets [OF safe_walk [OF 3]]])
    then have "\<And>s4 x ts. prepare_targets H ts s3 = (s4, x) \<Longrightarrow> safe R H s s4" by (metis fst_conv)
    with None Cons e g 2 3 show ?thesis by (auto simp: prepare_def Let_def split: sum.split prod.split)
  qed
qed (simp add: prepare_def safe_refl)

text \<open>Running, and what follows.\<close>

lemma safe_from_cache: "walk_inv R H s \<Longrightarrow> safe R H s (fst (from_cache H ts s))"
proof (induction H ts s rule: from_cache.induct)
  case (2 H t ts s)
  have 1: "safe R H s (set_state t executed s)" by (rule safe_set_state [OF "2.prems"]) (simp add: gt_pending_iff)
  have 2: "safe R H s (built H t (set_state t executed s))"
    by (rule safe_trans [OF 1 safe_built [OF safe_walk [OF 1]]])
  with "2.IH" "2.prems" safe_trans [OF 2] safe_walk [OF 2] show ?case
    by (auto simp: safe_refl split: sum.split bool.split)
qed (simp add: safe_refl)

lemma safe_build: "walk_inv R H s \<Longrightarrow> safe R H s (fst (build H n s))"
  using safe_get_executor [of R H s n] by (cases "get_executor n s") (simp add: build_def Let_def)

lemma safe_execute: "walk_inv R H s \<Longrightarrow> safe R H s (fst (execute H t s))"
proof -
  assume inv: "walk_inv R H s"
  obtain s1 r where c: "from_cache H (t_targets t) s = (s1, r)" by fastforce
  have 1: "safe R H s s1" using safe_from_cache [OF inv] c by (metis fst_conv)
  have "safe R H s (fst (build H n s1))" for n by (rule safe_trans [OF 1 safe_build [OF safe_walk [OF 1]]])
  then have "\<And>n s2 x. build H n s1 = (s2, x) \<Longrightarrow> safe R H s s2" by (metis fst_conv)
  with 1 c show ?thesis by (auto simp: execute_def split: sum.split bool.split prod.split)
qed

lemma safe_failed: "walk_inv R H s \<Longrightarrow> safe R H s (fst (tm_failed tc t s))"
proof -
  assume inv: "walk_inv R H s"
  have 1: "safe R H s (will_not_build (t_targets t) (Some failed) s)"
    by (simp add: safe_def walk_inv_will_not_build(1) [OF inv] advances_will_not_build [OF inv])
  have "safe R H s (stop (will_not_build (t_targets t) (Some failed) s))"
    unfolding stop_def by (rule safe_trans [OF 1 safe_update(3) [OF safe_walk [OF 1]]])
  with 1 show ?thesis by (simp add: tm_failed_def fail_continue_def fail_stop_def Let_def)
qed

definition finish_target :: "nid \<Rightarrow> taskmaster \<Rightarrow> taskmaster" where
  "finish_target n s = (if get_state s n = executing
     then set_state n executed (set_states (side_effects (node_at s n)) no_state s) else s)"

lemma executed_folds:
  "executed_without_callbacks ts s = fold finish_target ts s"
  "executed_with_callbacks H ts s = fold (\<lambda>n s. visited H n (if get_state s n = executing then built H n (finish_target n s) else s)) ts s"
  by (induction ts arbitrary: s) (simp_all add: finish_target_def)

lemma safe_finish_target: "tm_inv R H s \<Longrightarrow> safe R H s (finish_target n s)"
proof -
  assume "tm_inv R H s"
  then have "side_effects (node_at s n) = []" "walk_inv R H s" by (simp_all add: tm_inv_def no_side_effects_def)
  then show ?thesis by (simp add: finish_target_def safe_set_state safe_refl gt_pending_iff)
qed

lemma safe_fold_tm:
  "(\<And>x s. x \<in> set xs \<Longrightarrow> tm_inv R H s \<Longrightarrow> safe R H s (f x s)) \<Longrightarrow> tm_inv R H s \<Longrightarrow> safe R H s (fold f xs s)"
proof (induction xs arbitrary: s)
  case (Cons x xs)
  have 1: "safe R H s (f x s)" using Cons.prems by simp
  have "safe R H (f x s) (fold f xs (f x s))"
    by (rule Cons.IH) (use Cons.prems safe_tm_inv [OF Cons.prems(2) 1] in auto)
  with 1 show ?case by (auto intro: safe_trans)
qed (simp add: safe_refl tm_inv_def)

lemma safe_executed: "tm_inv R H s \<Longrightarrow> safe R H s (tm_executed tc H t s)"
proof -
  assume inv: "tm_inv R H s"
  have "safe R H s (visited H n (if get_state s n = executing then built H n (finish_target n s) else s))"
    if i: "tm_inv R H s" for n s
  proof -
    have 1: "safe R H s (if get_state s n = executing then built H n (finish_target n s) else s)"
      using safe_finish_target [OF i, of n] i safe_trans [OF _ safe_built [OF safe_walk]]
      by (simp add: safe_refl tm_inv_def)
    show ?thesis by (rule safe_trans [OF 1 safe_visited [OF safe_walk [OF 1]]])
  qed
  then show ?thesis
    by (simp add: tm_executed_def executed_folds) (auto intro!: safe_fold_tm safe_finish_target inv)
qed

text \<open>Postprocessing.\<close>

lemma same_graph_node_postprocess: "same_graph h (node_postprocess n h)"
proof -
  have "same_graph h (executor_cleanup n h)"
    by (auto simp: executor_cleanup_def executor_cleanup_at_def same_graph_simps intro!: same_graph_upd_exec split: option.split)
  moreover have "same_graph h' (upd_node n (waiting_parents_update (\<lambda>_. [])) h')" for h' :: "'a heap_scheme"
    by (simp add: same_graph_simps)
  ultimately show ?thesis unfolding node_postprocess_def by (blast intro: same_graph_trans)
qed

lemma same_graph_postprocess:
  assumes "idle_side_effects (t_targets t) s" shows "same_graph s (postprocess t s)"
proof -
  have u: "same_graph s (upd_node n (\<lambda>x. x\<lparr>ref_count := ref_count x - k\<rparr>) s)" for n k and s :: taskmaster
    by (simp add: same_graph_simps)
  have p: "same_graph s (postprocess_parent pk s)" for pk and s :: taskmaster
    using u same_graph_trans [OF u same_graph_taskmaster_updates(1)]
    by (auto simp: postprocess_parent_def Let_def split: prod.split)
  have "same_graph s (drop_pending ts s)" for ts unfolding drop_pending_def by (rule same_graph_taskmaster_updates)
  then have "same_graph s (add_candidates ns (drop_pending ts s))" for ns ts
    unfolding add_candidates_def by (blast intro: same_graph_trans same_graph_taskmaster_updates)
  moreover have "same_graph h (fold postprocess_parent ps h)" for ps h by (rule same_graph_fold) (rule p)
  moreover have "same_graph h (fold node_postprocess ts h)" for ts and h :: taskmaster
    by (rule same_graph_fold) (rule same_graph_node_postprocess)
  ultimately show ?thesis
    unfolding postprocess_eq [OF assms] Let_def by (blast intro: same_graph_trans)
qed

lemma no_side_effects_idle: "no_side_effects s \<Longrightarrow> idle_side_effects ts s"
  by (simp add: no_side_effects_def idle_side_effects_def)

lemma freed_waiters_none: "no_side_effects s \<Longrightarrow> freed_waiters s ts = []"
  by (simp add: no_side_effects_def freed_waiters_def)

lemma safe_postprocess:
  assumes inv: "tm_inv R H s" shows "safe R H s (postprocess t s)"
proof -
  have w: "walk_inv R H s" and n: "no_side_effects s" and wpv: "wp_valid s" and ri: "ref_inv s"
    using inv by (auto simp: tm_inv_def walk_inv_def)
  have idle: "idle_side_effects (t_targets t) s" by (rule no_side_effects_idle [OF n])
  let ?s = "postprocess t s" and ?ts = "fold set_add (t_targets t) []"
  note f = postprocess_fields [OF idle wpv]
  have a: "advances s ?s" by (simp add: advances_def f open_nodes_def)
  have "set (ready_parents s (released s ?ts)) \<subseteq> (\<Union>t \<in> set ?ts. set (wp s t))"
    using keys_released [of s ?ts] by (auto simp: ready_parents_def)
  then have c: "\<forall>n \<in> set (candidates ?s). valid s n"
    using w wpv by (auto simp: f freed_waiters_none [OF n] walk_inv_def wp_valid_def)
  have "wp_valid ?s" using wpv by (auto simp: wp_valid_def f)
  moreover have "graph_inv R H ?s"
    using w graph_inv_same_graph [OF same_graph_postprocess [OF idle]] by (auto simp: walk_inv_def)
  ultimately have "walk_inv R H ?s"
    using w c ref_inv_postprocess [OF ri idle wpv] by (auto simp: walk_inv_def f)
  with a show ?thesis by (simp add: safe_def)
qed

section \<open>The taskmaster implements the interface\<close>

lemma tm_next_task:
  assumes inv: "tm_inv R H s"
  obtains (raised) s' x where "next_task H mk s = Some (s', Inl x)" "safe R H s s'"
  | (none) s' where "next_task H mk s = Some (s', Inr None)" "safe R H s s'" "find_next_ready_node H s = Some (s', Inr None)"
  | (task) s1 n s2 e s3 t r t' where "find_next_ready_node H s = Some (s1, Inr (Some n))" "safe R H s s1"
      "n \<in> open_nodes s" "valid s1 n" "get_state s1 n = pending" "ready_exc s1 = None \<longrightarrow> node_ready H s1 n"
      "get_executor n s1 = (s2, e)" "safe R H s1 s2" "n \<in> set (get_all_targets s2 e)"
      "mk H (Task_init (get_all_targets s2 e) (n \<in> set (original_top s2)) n) s2 = (s3, t, r)"
      "t' = (case (case r of Some x \<Rightarrow> Some x | None \<Rightarrow> ready_exc s3) of None \<Rightarrow> t | Some x \<Rightarrow> exception_set x t)"
      "next_task H mk s = Some (s3\<lparr>ready_exc := None\<rparr>, Inr (Some t'))"
proof -
  have w: "walk_inv R H s" using inv by (simp add: tm_inv_def)
  obtain s1 r where f: "find_next_ready_node H s = Some (s1, r)"
    using find_ready_loop_terminates [OF walk_inv_ready_exc [OF w]] by (fastforce simp: find_next_ready_node_def)
  note a = find_next_ready_node_advances [OF w f]
  have 1: "safe R H s s1" using a by (simp add: safe_def)
  show thesis
  proof (cases r)
    case (Inl x)
    with f 1 show ?thesis by (intro raised) (simp_all add: next_task_def)
  next
    case (Inr q)
    show ?thesis
    proof (cases q)
      case None
      with f 1 Inr show ?thesis by (intro none) (simp_all add: next_task_def)
    next
      case (Some n)
      obtain s2 e where e: "get_executor n s1 = (s2, e)" by fastforce
      obtain s3 t q where m: "mk H (Task_init (get_all_targets s2 e) (n \<in> set (original_top s2)) n) s2 = (s3, t, q)"
        by (metis prod_cases3)
      have v: "valid s1 n" using a(3) Inr Some by simp
      have "n \<in> set (get_all_targets s2 e)" using get_executor_ok(2) [OF _ v e] a(1) by (simp add: walk_inv_def graph_inv_def)
      moreover have "safe R H s1 s2" using safe_get_executor [OF a(1), of n] e by simp
      ultimately show ?thesis
        using a(3) [of n] Inr Some f 1 e m by (intro task) (simp_all add: next_task_def)
    qed
  qed
qed

lemma tm_next_task_safe:
  assumes inv: "tm_inv R H s"
  shows "\<exists>s' r. next_task H (tm_make_ready tc) s = Some (s', r) \<and> safe R H s s'"
  using inv
proof (cases rule: tm_next_task [where mk = "tm_make_ready tc"])
  case (task s1 n s2 e s3 t r t')
  have 2: "safe R H s s2" by (rule safe_trans [OF task(2,8)])
  have "safe R H s2 s3" using safe_make_ready [OF safe_walk [OF 2]] task(10) by (metis fst_conv)
  with 2 have 3: "safe R H s s3" by (rule safe_trans)
  have "safe R H s (s3\<lparr>ready_exc := None\<rparr>)" by (rule safe_trans [OF 3 safe_update(1) [OF safe_walk [OF 3]]])
  with task show ?thesis by blast
qed blast+

text \<open>Once its task has started, or failed to start, a node is not open any more.\<close>

lemma state_fold_mark_executing:
  "n \<in> set ts \<or> pending < get_state s n \<Longrightarrow> valid s n \<Longrightarrow> pending < get_state (fold mark_executing ts s) n"
proof (induction ts arbitrary: s)
  case (Cons t ts)
  have "valid (mark_executing t s) n" "n = t \<or> pending < get_state s n \<Longrightarrow> pending < get_state (mark_executing t s) n"
    using Cons.prems by (auto simp: mark_executing_def set_states_fields node_at_set_state gt_pending_iff)
  with Cons show ?case by auto
qed simp

lemma state_fold_up_to_date:
  "n \<in> set ts \<or> pending < get_state s n \<Longrightarrow> valid s n \<Longrightarrow>
     pending < get_state (fold (\<lambda>n s. set_state n node_state.up_to_date (visited H n s)) ts s) n"
proof (induction ts arbitrary: s)
  case (Cons t ts)
  let ?s = "set_state t node_state.up_to_date (visited H t s)"
  have "valid ?s n" "n = t \<or> pending < get_state s n \<Longrightarrow> pending < get_state ?s n"
    using Cons.prems same_tasks_view [OF same_tasks_visited [of s H t]]
    by (auto simp: node_at_set_state gt_pending_iff)
  with Cons show ?case by auto
qed simp

lemma make_ready_started:
  assumes "tm_make_ready tc H t s = (s', t', None)" "n \<in> set (t_targets t)" "valid s n"
  shows "pending < get_state s' n"
  using assms state_fold_mark_executing [of n "t_targets t" s] state_fold_up_to_date [of n "t_targets t" s H]
  by (auto simp: tm_make_ready_def make_ready_all_def make_ready_current_def Let_def split: if_splits prod.splits)

lemma t_targets_make_ready: "tm_make_ready tc H t s = (s', t', r) \<Longrightarrow> t_targets t' = t_targets t \<and> t_exception t' = t_exception t"
  by (auto simp: tm_make_ready_def make_ready_all_def make_ready_current_def Let_def split: if_splits prod.splits)

lemma failed_marks:
  assumes "n \<in> set (t_targets t)" "valid s n"
  shows "get_state (fst (tm_failed tc t s)) n = failed"
proof -
  let ?tv = "fold set_add (t_targets t) []" and ?pc = "set_minus (pending_children s) (fold set_add (t_targets t) [])"
  obtain pc s1 where w: "will_not_build_loop (Some failed) ?tv ?pc s = (pc, s1)" by fastforce
  have "n \<in> dependents s ?tv" using assms(1) by auto
  with will_not_build_loop_state [of failed ?tv ?pc s n] w assms(2) have "get_state s1 n = failed" by simp
  then show ?thesis by (simp add: tm_failed_def fail_continue_def fail_stop_def stop_def will_not_build_def w)
qed

lemma tm_task:
  assumes inv: "tm_inv R H s" and nx: "next_task H (tm_make_ready tc) s = Some (s', Inr (Some t))"
  shows "\<exists>n. n \<in> open_nodes s \<and> valid s' n \<and> n \<in> set (t_targets t) \<and> safe R H s s' \<and>
    (t_exception t = None \<longrightarrow> n \<notin> open_nodes s')"
proof -
  have sf: "safe R H s s'" using tm_next_task_safe [OF inv, of tc] nx by auto
  from inv show ?thesis
  proof (cases rule: tm_next_task [where mk = "tm_make_ready tc"])
    case (task s1 n s2 e s3 t0 r t')
    let ?t = "Task_init (get_all_targets s2 e) (n \<in> set (original_top s2)) n"
    have eq: "s' = s3\<lparr>ready_exc := None\<rparr>" "t = t'" using nx task(12) by auto
    have tt: "t_targets t = get_all_targets s2 e"
      using t_targets_make_ready [OF task(10)] task(11) eq
      by (auto simp: Task_init_def exception_set_def split: option.splits)
    have v2: "valid s2 n" using task(4,8) by (simp add: safe_def advances_def)
    have v: "valid s' n" using sf task(3) by (auto simp: safe_def advances_def open_nodes_def)
    have "n \<notin> open_nodes s'" if x: "t_exception t = None"
    proof -
      have r: "r = None" using x task(11) eq(2) by (auto simp: exception_set_def split: option.splits)
      have "pending < get_state s3 n"
        by (rule make_ready_started [OF task(10) [unfolded r]]) (simp_all add: Task_init_def task(9) v2)
      then show ?thesis by (simp add: eq open_nodes_def not_le)
    qed
    with task(3,9) v tt sf show ?thesis by (intro exI [of _ n]) simp
  qed (use nx in auto)
qed

interpretation tm: finite_task_source "tm_ops H tc" "tm_inv R H" todo for H tc R
proof (unfold_locales, goal_cases)
  case (1 s)
  then show ?case using tm_next_task_safe [OF 1, of tc] safe_tm_inv by (auto simp: tm_ops_def)
next
  case (2 s t)
  then show ?case by (simp add: tm_ops_def) (rule safe_tm_inv [OF 2 safe_prepare], simp add: tm_inv_def)
next
  case (3 s t)
  then show ?case by (simp add: tm_ops_def) (rule safe_tm_inv [OF 3 safe_execute], simp add: tm_inv_def)
next
  case (4 s t)
  then show ?case by (simp add: tm_ops_def) (rule safe_tm_inv [OF 4 safe_failed], simp add: tm_inv_def)
next
  case (5 s t)
  then show ?case by (simp add: tm_ops_def) (rule safe_tm_inv [OF 5 safe_executed [OF 5]])
next
  case (6 s t)
  then show ?case by (simp add: tm_ops_def) (rule safe_tm_inv [OF 6 safe_postprocess [OF 6]])
next
  case (7 s)
  then show ?case by (simp add: tm_ops_def stop_def) (rule safe_tm_inv [OF 7 safe_update(3)], simp add: tm_inv_def)
next
  case (8 s s' r)
  then show ?case using tm_next_task_safe [OF 8(1), of tc] safe_todo by (auto simp: tm_ops_def)
next
  case (9 s s1 t s2)
  then have nx: "next_task H (tm_make_ready tc) s = Some (s1, Inr (Some t))" and p: "prepare H t s1 = (s2, None)"
    by (simp_all add: tm_ops_def)
  from tm_task [OF 9(1) nx] obtain n where n: "n \<in> open_nodes s" "safe R H s s1" "t_exception t = None \<longrightarrow> n \<notin> open_nodes s1"
    by (elim exE conjE)
  have "t_exception t = None" using p by (cases "t_exception t") (auto simp: prepare_def)
  moreover have "safe R H s1 s2" using safe_prepare [OF safe_walk [OF n(2)], of t] p by simp
  moreover have "open_nodes s2 \<subseteq> open_nodes s1" "open_nodes s1 \<subseteq> open_nodes s"
    using \<open>safe R H s1 s2\<close> n(2) by (auto simp: safe_def advances_def)
  ultimately show ?case using n(1,3) by (intro todo_less [of s2 s n]) blast+
next
  case (10 s s1 t s2 x y b)
  then have nx: "next_task H (tm_make_ready tc) s = Some (s1, Inr (Some t))" and p: "prepare H t s1 = (s2, Some x)"
    by (simp_all add: tm_ops_def)
  from tm_task [OF 10(1) nx] obtain n where n: "n \<in> open_nodes s" "valid s1 n" "n \<in> set (t_targets t)" "safe R H s s1"
    by (elim exE conjE)
  have 2: "safe R H s s2" using safe_trans [OF n(4)] safe_prepare [OF safe_walk [OF n(4)], of t] p by simp
  let ?s = "if b then stop s2 else s2"
  have 3: "safe R H s ?s" using 2 safe_trans [OF 2 safe_update(3) [OF safe_walk [OF 2]]] by (simp add: stop_def)
  let ?f = "fst (tm_failed tc (exception_set y t) ?s)"
  have 4: "safe R H s ?f" by (rule safe_trans [OF 3 safe_failed [OF safe_walk [OF 3]]])
  have "valid ?s n" using 3 n(1) by (auto simp: safe_def advances_def open_nodes_def)
  then have "get_state ?f n = failed" using n(3) by (intro failed_marks) (simp_all add: exception_set_def)
  then have "n \<notin> open_nodes ?f" by (simp add: open_nodes_def le_pending_iff)
  with 4 n(1) have "todo ?f < todo s" by (intro todo_less [of _ s n]) (auto simp: safe_def advances_def)
  then show ?case by (auto simp: tm_ops_def split: if_splits)
next
  case (11 s t)
  then show ?case using safe_todo [OF safe_execute, of R H s t] by (simp add: tm_ops_def tm_inv_def)
next
  case (12 s t)
  then show ?case using safe_todo [OF safe_failed, of R H s tc t] by (simp add: tm_ops_def tm_inv_def)
next
  case (13 s t)
  then show ?case using safe_todo [OF safe_executed, of R H s tc t] by (simp add: tm_ops_def)
next
  case (14 s t)
  then show ?case using safe_todo [OF safe_postprocess, of R H s t] by (simp add: tm_ops_def)
next
  case (15 s)
  then show ?case using safe_todo [OF safe_update(3), of R H s True] by (simp add: tm_ops_def tm_inv_def stop_def)
qed

section \<open>Builds end\<close>

lemma sample_tm_inv: "tm_inv (into sample_heap) base_hooks sample_start"
proof -
  have "no_side_effects sample_start"
    by (auto simp: no_side_effects_def sample_start_def Taskmaster_init_heap sample_heap_def node_at_def Node_init_def
        nth_Cons split: nat.split)
  with sample_walk_inv show ?thesis by (simp add: tm_inv_def)
qed

text \<open>
  C5: A serial build ends: from every state that satisfies the invariant, with every task class,
  whatever the actions, scanners and signals do, and even if the dependency graph has cycles,
  \<open>Serial.start\<close> returns, and the reference counts, references and stack entries are consistent in
  its final state.
\<close>

theorem serial_build_ends:
  assumes "tm_inv R H s"
  shows "\<exists>s' i x. serial_start (tm_ops H tc) sigs s = Some ((s', i), x) \<and> tm_inv R H s'"
  using tm.serial_loop_ends [of R H "(s, False)" tc sigs 0] assms by (simp add: serial_start_def)

theorem serial_build_ends_witness:
  "\<exists>s' i x. serial_start (tm_ops base_hooks default_class) (\<lambda>k. k = 1) sample_start = Some ((s', i), x)
     \<and> tm_inv (into sample_heap) base_hooks s'"
  by (rule serial_build_ends [OF sample_tm_inv])

text \<open>
  C4: In every state that a parallel build reaches, with any interleaving of the threads and of
  signals, the taskmaster's invariant holds, \<open>jobs\<close> counts exactly the tasks that are queued, being
  executed or waiting in the results queue, there are never more of them than \<open>maxjobs\<close>, and none
  when the main thread goes to clean up.
\<close>

theorem parallel_build_invariant:
  assumes "tm_inv R H s" "0 < num" "parallel_reach (tm_ops H tc) (Parallel_init s num) p"
  shows "tm_inv R H (tm p) \<and> jobs p = in_flight p \<and> jobs p \<le> num \<and> (phase p = Finishing \<longrightarrow> in_flight p = 0)"
proof -
  have "tm_inv R H (tm (Parallel_init s num))" using assms(1) by (simp add: Parallel_init_def)
  from tm.parallel_reach_invar [OF assms(3) this] parallel_reach_inv [OF assms(3,2)]
  show ?thesis by (auto simp: parallel_inv_def)
qed

theorem parallel_build_invariant_witness:
  "let p = signal (tm_ops base_hooks default_class) (Parallel_init sample_start 2)
   in tm_inv (into sample_heap) base_hooks (tm p) \<and> jobs p = in_flight p \<and> jobs p \<le> 2"
proof -
  have "phase (Parallel_init sample_start 2 :: (taskmaster, task) parallel) \<notin> range Done"
    by (auto simp: Parallel_init_def)
  from parallel_build_invariant [OF sample_tm_inv _ reach_signal [OF reach_start this, of "tm_ops base_hooks default_class"]]
  show ?thesis by (simp add: Let_def)
qed

text \<open>
  C3: A parallel build never blocks and never runs for ever: in every state it reaches before the
  main thread is done some thread can take a step, and there is no infinite sequence of steps.
\<close>

theorem parallel_build_ends:
  assumes "tm_inv R H s" "0 < num"
  shows "(\<forall>p. parallel_reach (tm_ops H tc) (Parallel_init s num) p \<longrightarrow> phase p \<notin> range Done \<longrightarrow>
      (\<exists>q. parallel_step (tm_ops H tc) p q)) \<and>
    \<not> (\<exists>f. f 0 = Parallel_init s num \<and> (\<forall>i. parallel_step (tm_ops H tc) (f i) (f (Suc i))))"
proof (intro conjI allI impI)
  have inv: "tm_inv R H (tm (Parallel_init s num))" using assms(1) by (simp add: Parallel_init_def)
  fix p assume r: "parallel_reach (tm_ops H tc) (Parallel_init s num) p" and nd: "phase p \<notin> range Done"
  from tm.next_invar [OF tm.parallel_reach_invar [OF r inv]]
  have "op_next_task (tm_ops H tc) (tm p) \<noteq> None" by blast
  with parallel_reach_inv [OF r assms(2)] nd show "\<exists>q. parallel_step (tm_ops H tc) p q"
    by (blast intro: parallel_progress)
next
  show "\<not> (\<exists>f. f 0 = Parallel_init s num \<and> (\<forall>i. parallel_step (tm_ops H tc) (f i) (f (Suc i))))"
  proof (rule notI, elim exE conjE)
    fix f assume "f 0 = Parallel_init s num" "\<forall>i. parallel_step (tm_ops H tc) (f i) (f (Suc i))"
    with tm.parallel_no_infinite_run [of R H f tc] assms(1) show False by (simp add: Parallel_init_def)
  qed
qed

theorem parallel_build_ends_witness:
  "(\<exists>q. parallel_step (tm_ops base_hooks default_class) (Parallel_init sample_start 4) q) \<and>
    \<not> (\<exists>f. f 0 = Parallel_init sample_start 4 \<and> (\<forall>i. parallel_step (tm_ops base_hooks default_class) (f i) (f (Suc i))))"
proof -
  have "phase (Parallel_init sample_start 4 :: (taskmaster, task) parallel) \<notin> range Done"
    by (auto simp: Parallel_init_def)
  with parallel_build_ends [OF sample_tm_inv, of 4 default_class] show ?thesis by (simp add: reach_start)
qed

end
