(* ===== verification/Complete.thy ===== *)
theory Complete
  imports Build
begin

text \<open>
  What a serial build has done when it ends. For a dependency graph without cycles, executors of
  one target each and no side effects: unless the build was stopped or the walk itself raised an
  exception, every requested target is finished, or it is still pending and one of the nodes it
  depends on has failed. The invariant \<open>settled\<close> says why no node is forgotten on the way.
\<close>

section \<open>The invariant\<close>

text \<open>
  Between two tasks (\<open>X\<close> and \<open>Y\<close> empty): a waiting parent depends on the node it waits for, which is
  not built yet or has failed; a node that others wait for and that was not visited is a
  candidate; a pending node is a candidate, waits for some node, or depends on a failed one;
  nothing is being executed; a requested target is still on one of the stacks or was visited. \<open>X\<close>
  holds the node taken from the stack, \<open>Y\<close> that of the task in progress.
\<close>

definition settled :: "(nid \<times> nid) set \<Rightarrow> nid set \<Rightarrow> nid set \<Rightarrow> taskmaster \<Rightarrow> bool" where
  "settled R X Y s \<longleftrightarrow>
     (\<forall>c p. p \<in> set (wp s c) \<longrightarrow> (p, c) \<in> R \<and> (c \<in> Y \<or> get_state s c \<in> {no_state, pending, failed}))
   \<and> (\<forall>c p. p \<in> set (wp s c) \<longrightarrow> get_state s c = no_state \<longrightarrow> c \<in> set (candidates s) \<union> X)
   \<and> (\<forall>n. valid s n \<longrightarrow> get_state s n = pending \<longrightarrow> n \<in> X \<or> n \<in> set (candidates s) \<or> (\<exists>c. n \<in> set (wp s c))
        \<or> (\<exists>c. (n, c) \<in> R \<and> get_state s c = failed))
   \<and> (\<forall>n. get_state s n = executing \<longrightarrow> n \<in> Y)
   \<and> (\<forall>t \<in> set (original_top s). t \<in> set (top_targets_left s) \<union> set (candidates s) \<union> X \<or> get_state s t \<noteq> no_state)"

lemma settledD:
  assumes "settled R X Y s"
  shows "p \<in> set (wp s c) \<Longrightarrow> (p, c) \<in> R"
    and "p \<in> set (wp s c) \<Longrightarrow> c \<in> Y \<or> get_state s c \<in> {no_state, pending, failed}"
    and "p \<in> set (wp s c) \<Longrightarrow> get_state s c = no_state \<Longrightarrow> c \<in> set (candidates s) \<union> X"
    and "valid s n \<Longrightarrow> get_state s n = pending \<Longrightarrow> n \<in> X \<or> n \<in> set (candidates s) \<or> (\<exists>c. n \<in> set (wp s c))
        \<or> (\<exists>c. (n, c) \<in> R \<and> get_state s c = failed)"
    and "get_state s n = executing \<Longrightarrow> n \<in> Y"
    and "t \<in> set (original_top s) \<Longrightarrow> t \<in> set (top_targets_left s) \<union> set (candidates s) \<union> X \<or> get_state s t \<noteq> no_state"
  using assms unfolding settled_def by blast+

lemma settledI:
  assumes "\<And>c p. p \<in> set (wp s c) \<Longrightarrow> (p, c) \<in> R"
    and "\<And>c p. p \<in> set (wp s c) \<Longrightarrow> c \<in> Y \<or> get_state s c \<in> {no_state, pending, failed}"
    and "\<And>c p. p \<in> set (wp s c) \<Longrightarrow> get_state s c = no_state \<Longrightarrow> c \<in> set (candidates s) \<union> X"
    and "\<And>n. valid s n \<Longrightarrow> get_state s n = pending \<Longrightarrow> n \<notin> X \<Longrightarrow> n \<notin> set (candidates s) \<Longrightarrow> \<forall>c. n \<notin> set (wp s c) \<Longrightarrow>
        \<exists>c. (n, c) \<in> R \<and> get_state s c = failed"
    and "\<And>n. get_state s n = executing \<Longrightarrow> n \<in> Y"
    and "\<And>t. t \<in> set (original_top s) \<Longrightarrow> get_state s t = no_state \<Longrightarrow> t \<in> set (top_targets_left s) \<union> set (candidates s) \<union> X"
  shows "settled R X Y s"
  using assms unfolding settled_def by blast

text \<open>When nothing is left to look at, a pending node depends on a failed one.\<close>

lemma settled_end:
  assumes s: "settled R {} {} s" and wf: "wf (R\<inverse>)" and empty: "candidates s = []"
  shows "get_state s n = pending \<Longrightarrow> valid s n \<Longrightarrow> \<forall>c p. p \<in> set (wp s c) \<longrightarrow> valid s c \<Longrightarrow>
    \<exists>c. (n, c) \<in> R\<^sup>+ \<and> get_state s c = failed"
proof (induction n rule: wf_induct_rule [OF wf])
  case (1 n)
  from settledD(4) [OF s "1.prems"(2,1)] empty consider c where "n \<in> set (wp s c)"
    | c where "(n, c) \<in> R" "get_state s c = failed" by auto
  then show ?case
  proof cases
    case (1 c)
    from settledD(1-3) [OF s 1] empty have c: "(n, c) \<in> R" "get_state s c = pending \<or> get_state s c = failed" by auto
    from c(2) show ?thesis
    proof
      assume p: "get_state s c = pending"
      have "(c, n) \<in> R\<inverse>" using c(1) by simp
      from "1.IH" [OF this p] 1 "1.prems"(3) obtain d where "(c, d) \<in> R\<^sup>+" "get_state s d = failed" by blast
      with c(1) show ?thesis by (blast intro: trancl_into_trancl2)
    qed (use c(1) in blast)
  qed blast
qed

section \<open>One round\<close>

lemma find_next_candidate_stacks:
  assumes "find_next_candidate H s = (s1, Some n)"
  shows "set (candidates s) \<subseteq> insert n (set (candidates s1))"
    "set (top_targets_left s) \<subseteq> set (top_targets_left s1) \<union> insert n (set (candidates s1))"
    "original_top s1 = original_top s" "order s1 = order s" "stopped s1 = stopped s" "ready_exc s1 = ready_exc s"
proof -
  have "set (candidates s) \<subseteq> insert n (set (candidates s1)) \<and>
    set (top_targets_left s) \<subseteq> set (top_targets_left s1) \<union> insert n (set (candidates s1)) \<and>
    original_top s1 = original_top s \<and> order s1 = order s \<and> stopped s1 = stopped s \<and> ready_exc s1 = ready_exc s"
  proof (cases "candidates s" rule: rev_cases)
    case (snoc cs m)
    with assms have "s1 = s\<lparr>candidates := cs\<rparr>" "m = n" by (simp_all add: find_next_candidate_def)
    with snoc show ?thesis by auto
  next
    case Nil
    with assms obtain t ts where ts: "top_targets_left s = ts @ [t]"
      by (cases "top_targets_left s" rule: rev_cases) (auto simp: find_next_candidate_def)
    obtain alt msg where alt: "alter_targets H t = (alt, msg)" by fastforce
    show ?thesis
    proof (cases "alt = []")
      case True
      with assms Nil ts alt have "s1 = s\<lparr>top_targets_left := ts, current_top := Some t\<rparr>" "t = n"
        by (auto simp: find_next_candidate_def)
      with Nil ts show ?thesis by simp
    next
      case False
      obtain cs m where cs: "t # order s alt = cs @ [m]" by (metis list.distinct(1) rev_exhaust)
      with False assms Nil ts alt
      have s1: "s1 = s\<lparr>top_targets_left := ts, current_top := Some t, message := msg, candidates := cs\<rparr>" "m = n"
        by (auto simp: find_next_candidate_def)
      have "t \<in> set (cs @ [m])" unfolding cs [symmetric] by simp
      with Nil ts s1 show ?thesis by auto
    qed
  qed
  then show "set (candidates s) \<subseteq> insert n (set (candidates s1))"
    "set (top_targets_left s) \<subseteq> set (top_targets_left s1) \<union> insert n (set (candidates s1))"
    "original_top s1 = original_top s" "order s1 = order s" "stopped s1 = stopped s" "ready_exc s1 = ready_exc s" by auto
qed

lemma settled_next_candidate:
  assumes f: "find_next_candidate H s = (s1, Some n)" and s: "settled R {} {} s" and inv: "walk_inv R H s"
  shows "settled R {n} {} s1"
  using s find_next_candidate_Some(3,4) [OF f inv] find_next_candidate_stacks [OF f] unfolding settled_def by auto

lemma no_action_side_effects:
  assumes "no_side_effects s" shows "snd (get_action_side_effects H e s) = Inr ses \<Longrightarrow> set ses = {}"
proof -
  obtain s' r where g: "get_action_targets H e s = (s', r)" by fastforce
  have "same_tasks s s'" using same_tasks_get_action_targets [of s H e] g by simp
  then have n: "side_effects (node_at s' t) = []" for t using assms by (simp add: same_tasks_view no_side_effects_def)
  have "set (ul_data (fold (\<lambda>t u. ul_extend u (side_effects (node_at s' t))) ts u)) = set (ul_data u)" for ts u
    by (induction ts arbitrary: u) (simp_all add: n)
  then have "set (ul_items (fold (\<lambda>t u. ul_extend u (side_effects (node_at s' t))) ts (UniqueList_init []))) = {}" for ts
    by (simp only: set_ul_items) (simp add: UniqueList_init_def)
  then have "ul_items (fold (\<lambda>t u. ul_extend u (side_effects (node_at s' t))) ts (UniqueList_init [])) = []" for ts
    unfolding set_empty .
  then show "snd (get_action_side_effects H e s) = Inr ses \<Longrightarrow> set ses = {}"
    using g by (cases r) (auto simp: get_action_side_effects_def split: if_splits)
qed

text \<open>The three ways a round goes on; the last one needs a side effect.\<close>

lemma sort_children_waits:
  assumes sc: "sort_children H n e all s = Continue s'" and nosd: "no_side_effects s" and al: "set all \<subseteq> {m. valid s m}"
  shows "(\<exists>c \<in> set all. get_state s c = failed) \<and> (\<forall>k. wp s' k = wp s k)
    \<or> (\<exists>c \<in> set all. get_state s c \<le> executing) \<and> (\<forall>k. get_state s' k = get_state s k) \<and>
      (\<forall>k. set (wp s' k) = set (wp s k) \<union> (if k \<in> set all \<and> get_state s k \<le> executing then {n} else {}))"
proof -
  let ?s1 = "push_children all s"
  consider (failed) "\<exists>c \<in> set all. get_state s c = failed"
    | (wait) "\<not> (\<exists>c \<in> set all. get_state s c = failed)" "\<exists>c \<in> set all. get_state s c \<le> executing"
    | (ready) "\<not> (\<exists>c \<in> set all. get_state s c = failed)" "\<not> (\<exists>c \<in> set all. get_state s c \<le> executing)"
    by blast
  then show ?thesis
  proof cases
    case failed
    with sc obtain s2 ts where t: "get_action_targets H e ?s1 = (s2, Inr ts)" and s': "s' = set_states ts failed s2"
      by (auto simp: sort_children_alt Let_def split: prod.splits sum.splits)
    have "same_tasks ?s1 s2" using same_tasks_get_action_targets [of ?s1 H e] t by simp
    with failed show ?thesis by (simp add: s' set_states_fields same_tasks_view)
  next
    case wait
    let ?cs = "filter (\<lambda>c. get_state s c \<le> executing) all"
    from wait sc obtain pc where s': "s' = (wait_for n ?cs ?s1)\<lparr>pending_children := pc\<rparr>"
      by (auto simp: sort_children_alt Let_def)
    have "\<forall>c \<in> set ?cs. valid ?s1 c" using al by auto
    from set_wp_wait_for [OF this, of n] wait(2) show ?thesis by (auto simp: s')
  next
    case ready
    with sc have "check_side_effects H n e ?s1 = Continue s'" by (simp add: sort_children_alt)
    then obtain s2 ses where "get_action_side_effects H e ?s1 = (s2, Inr ses)"
        "filter (\<lambda>se. get_state s2 se = executing) ses \<noteq> []"
      by (auto simp: check_side_effects_def Let_def split: prod.splits sum.splits if_splits)
    moreover have "no_side_effects ?s1" using nosd by (simp add: no_side_effects_def)
    ultimately show ?thesis using no_action_side_effects [of ?s1 H e ses] by simp
  qed
qed

lemma settled_consider_Continue:
  assumes c: "consider_node H n s = Continue s'" and inv: "tm_inv R H s" and v: "valid s n"
    and st: "settled R {n} {} s" and irr: "(n, n) \<notin> R" and ord: "\<And>l. set (order s l) = set l"
  shows "settled R {} {} s'"
proof (cases "pending < get_state s n")
  case True
  with c have "s' = s" by (simp add: consider_node_alt)
  with st True show ?thesis unfolding settled_def by (auto simp: state_order_defs)
next
  case np: False
  have w: "walk_inv R H s" using inv by (simp add: tm_inv_def)
  show ?thesis
  proof (rule consider_start [OF w v np])
    fix s2 e r
    assume cc: "considered_children H n (mark_pending n s) = (s2, e, r)" and i2: "walk_inv R H s2"
      and f2: "round_frame s s2" and c2: "candidates s2 = candidates s"
      and k2: "\<And>k. get_state s2 k = (if k = n then pending else get_state s k)"
      and w2: "\<And>k. wp s2 k = wp s k" and al: "\<And>all. r = Inr all \<Longrightarrow> set all \<subseteq> {m. valid s2 m}"
      and ar: "\<And>all. r = Inr all \<Longrightarrow> set all \<subseteq> R `` set (get_all_targets s2 e)"
      and e: "e < length (execs s2)" "n \<in> set (get_all_targets s2 e)"
    have v2: "valid s2 m = valid s m" for m using f2 by (simp add: round_frame_def)
    have "get_all_targets s2 e = [n]"
      using single_target [of R H, OF _ e _ irr] i2 v v2 by (simp add: walk_inv_def)
    moreover from np c cc obtain all where r: "r = Inr all" and sc: "sort_children H n e all s2 = Continue s'"
      by (cases r) (auto simp: consider_node_alt mark_pending_def [symmetric])
    ultimately have kids: "\<And>c. c \<in> set all \<Longrightarrow> (n, c) \<in> R" "set all \<subseteq> {m. valid s2 m}" using ar al by auto
    have nosd: "no_side_effects s2" using inv f2 by (simp add: tm_inv_def no_side_effects_def round_frame_def)
    have ord2: "set (order s2 l) = set l" for l using ord f2 by (simp add: round_frame_def)
    note sC = sort_children_Continue [OF sc i2 kids(2)] 
    then have f: "round_frame s2 s'" "candidates s' = candidates s2 @ order s2 (rev (not_visited s2 all))"
      "\<And>m. get_state s' m = get_state s2 m \<or> get_state s' m = failed" using v v2 by auto
    have tops: "original_top s' = original_top s" "top_targets_left s' = top_targets_left s" "\<And>m. valid s' m = valid s m"
      using f(1) f2 by (auto simp: round_frame_def)
    have cand: "set (candidates s') = set (candidates s) \<union> {c \<in> set all. get_state s2 c = no_state}"
      using f(2) ord2 c2 by auto
    note wait = sort_children_waits [OF sc nosd kids(2)]
    show ?thesis
    proof (rule settledI)
      fix c p assume p: "p \<in> set (wp s' c)"
      then consider (old) "p \<in> set (wp s c)" | (new) "p = n" "c \<in> set all" "get_state s2 c \<le> executing"
        "get_state s' c = get_state s2 c"
        using wait by (auto simp: w2 split: if_splits)
      then have "(p, c) \<in> R \<and> get_state s' c \<in> {no_state, pending, failed} \<and>
          (get_state s' c = no_state \<longrightarrow> c \<in> set (candidates s'))"
      proof cases
        case old
        from settledD(1-3) [OF st old] f(3) [of c] show ?thesis by (auto simp: k2 cand split: if_splits)
      next
        case new
        have "get_state s2 c \<noteq> executing" using settledD(5) [OF st, of c] by (auto simp: k2 split: if_splits)
        with new kids(1) [of c] show ?thesis by (auto simp: cand not_finished_iff)
      qed
      then show "(p, c) \<in> R" "c \<in> {} \<or> get_state s' c \<in> {no_state, pending, failed}"
        "get_state s' c = no_state \<Longrightarrow> c \<in> set (candidates s') \<union> {}" by auto
    next
      fix m assume m: "valid s' m" "get_state s' m = pending" "m \<notin> set (candidates s')" "\<forall>c. m \<notin> set (wp s' c)"
      show "\<exists>c. (m, c) \<in> R \<and> get_state s' c = failed"
      proof (cases "m = n")
        case True
        have "\<not> ((\<exists>c \<in> set all. get_state s2 c \<le> executing) \<and>
            (\<forall>k. set (wp s' k) = set (wp s2 k) \<union> (if k \<in> set all \<and> get_state s2 k \<le> executing then {n} else {})))"
          using m(4) True by (metis UnI2 insertI1)
        with wait obtain c where "c \<in> set all" "get_state s2 c = failed" by blast
        with kids(1) f(3) [of c] True show ?thesis by auto
      next
        case False
        have "get_state s m = pending" using m(2) f(3) [of m] False by (auto simp: k2)
        moreover have "set (wp s c) \<subseteq> set (wp s' c)" for c using wait by (auto simp: w2)
        ultimately obtain c where "(m, c) \<in> R" "get_state s c = failed"
          using settledD(4) [OF st, of m] m False tops(3) by (auto simp: cand)
        moreover then have "c \<noteq> n" using np by (auto simp: gt_pending_iff)
        ultimately show ?thesis using f(3) [of c] by (auto simp: k2)
      qed
    next
      fix m assume "get_state s' m = executing"
      then show "m \<in> {}" using f(3) [of m] settledD(5) [OF st, of m] by (auto simp: k2 split: if_splits)
    next
      fix t assume t: "t \<in> set (original_top s')" "get_state s' t = no_state"
      then have "get_state s t = no_state" "t \<noteq> n" using f(3) [of t] by (auto simp: k2 split: if_splits)
      then show "t \<in> set (top_targets_left s') \<union> set (candidates s') \<union> {}"
        using settledD(6) [OF st, of t] t tops by (auto simp: cand)
    qed
  qed
qed

section \<open>One task\<close>

text \<open>Two states that differ in the state of one node at most, as far as the walk is concerned.\<close>

definition same_but :: "nid \<Rightarrow> taskmaster \<Rightarrow> taskmaster \<Rightarrow> bool" where
  "same_but n s s' \<longleftrightarrow> candidates s' = candidates s \<and> top_targets_left s' = top_targets_left s
     \<and> original_top s' = original_top s \<and> stopped s' = stopped s \<and> order s' = order s
     \<and> (\<forall>m. valid s' m = valid s m \<and> wp s' m = wp s m \<and> (m \<noteq> n \<longrightarrow> get_state s' m = get_state s m))"

lemma same_but_refl [simp]: "same_but n s s"
  by (simp add: same_but_def)

lemma same_but_trans: "same_but n s s' \<Longrightarrow> same_but n s' s'' \<Longrightarrow> same_but n s s''"
  by (simp add: same_but_def)

lemma same_but_same_tasks: "same_tasks s s' \<Longrightarrow> same_but n s s'"
  by (simp add: same_but_def same_tasks_view same_tasks_fields)

lemma same_but_set_state: "same_but n s (set_state n st s)"
  using more_eq_fields [OF more_set_state, of n st s] by (simp add: same_but_def node_at_set_state)

lemma same_but_updates: "same_but n s (s\<lparr>ready_exc := x\<rparr>)" "same_but n s (s\<lparr>message := m\<rparr>)"
  by (simp_all add: same_but_def)

lemma settled_same_but:
  assumes st: "settled R {n} Y s" and sb: "same_but n s s'" and n: "get_state s n \<noteq> failed" "get_state s' n \<noteq> no_state" and Y: "Y \<subseteq> {n}"
  shows "settled R {n} {n} s'"
proof -
  have eq: "\<And>m. wp s' m = wp s m" "\<And>m. valid s' m = valid s m" "candidates s' = candidates s" "top_targets_left s' = top_targets_left s"
    "original_top s' = original_top s" using sb by (auto simp: same_but_def)
  have k: "m \<noteq> n \<Longrightarrow> get_state s' m = get_state s m" for m using sb by (simp add: same_but_def)
  show ?thesis
  proof (rule settledI, unfold eq)
    fix c p assume p: "p \<in> set (wp s c)"
    note d = settledD(1-3) [OF st p]
    show "(p, c) \<in> R" by (rule d)
    show "c \<in> {n} \<or> get_state s' c \<in> {no_state, pending, failed}"
      using d(2) Y k [of c] by (cases "c = n") auto
    show "get_state s' c = no_state \<Longrightarrow> c \<in> set (candidates s) \<union> {n}"
      using d(3) k [of c] by (cases "c = n") auto
  next
    fix m assume "valid s m" "get_state s' m = pending" "m \<notin> {n}" "m \<notin> set (candidates s)" "\<forall>c. m \<notin> set (wp s c)"
    then obtain c where "(m, c) \<in> R" "get_state s c = failed" using settledD(4) [OF st, of m] k [of m] by auto
    with n(1) k [of c] show "\<exists>c. (m, c) \<in> R \<and> get_state s' c = failed" by (cases "c = n") auto
  next
    fix m assume "get_state s' m = executing"
    then show "m \<in> {n}" using settledD(5) [OF st, of m] k [of m] Y by (cases "m = n") auto
  next
    fix t assume "t \<in> set (original_top s)" "get_state s' t = no_state"
    then show "t \<in> set (top_targets_left s) \<union> set (candidates s) \<union> {n}"
      using settledD(6) [OF st, of t] k [of t] by (cases "t = n") auto
  qed
qed

lemma settled_consider_Found:
  assumes c: "consider_node H n s = Found m s'" and inv: "tm_inv R H s" and v: "valid s n"
    and st: "settled R {n} {} s" and ord: "\<And>l. set (order s l) = set l"
  shows "settled R {n} {n} s'" "stopped s' = stopped s" "original_top s' = original_top s" "order s' = order s"
proof -
  have w: "walk_inv R H s" using inv by (simp add: tm_inv_def)
  have np: "\<not> pending < get_state s n" using c by (auto simp: consider_node_alt)
  obtain s2 e r where s2: "considered_children H n (mark_pending n s) = (s2, e, r)" "walk_inv R H s2"
    "round_frame s s2" "candidates s2 = candidates s" "\<And>k. get_state s2 k = (if k = n then pending else get_state s k)"
    "\<And>k. wp s2 k = wp s k" "\<And>all. r = Inr all \<Longrightarrow> set all \<subseteq> {m. valid s2 m}"
    by (rule consider_start [OF w v np]) simp
  have b2: "same_but n s s2" using s2 by (simp add: same_but_def round_frame_def)
  have "same_but n s2 s'"
  proof (cases r)
    case (Inl y)
    with np c s2(1) show ?thesis
      by (auto simp: consider_node_alt mark_pending_def [symmetric] same_but_updates)
  next
    case (Inr all)
    with np c s2(1) have "sort_children H n e all s2 = Found m s'"
      by (auto simp: consider_node_alt mark_pending_def [symmetric])
    note fd = sort_children_Found [OF this s2(2) s2(7) [OF Inr]]
    then have sv: "same_tasks (push_children all s2) s'" by blast
    have "not_visited s2 all = []"
      using fd by (auto simp: filter_empty_conv same_tasks_view [OF sv])
    moreover have "order s2 [] = []" using ord [of "[]"] s2(3) by (simp add: round_frame_def)
    ultimately have "push_children all s2 = s2" by (simp add: push_children_def)
    with sv show ?thesis by (simp add: same_but_same_tasks)
  qed
  with b2 have b: "same_but n s s'" by (rule same_but_trans)
  then show "stopped s' = stopped s" "original_top s' = original_top s" "order s' = order s" by (simp_all add: same_but_def)
  have "get_state s n \<noteq> failed" using np by (auto simp: gt_pending_iff)
  moreover have "get_state s' n = pending" by (rule advances_consider_Found [OF c w v])
  ultimately show "settled R {n} {n} s'" using settled_same_but [OF st b] by simp
qed

text \<open>The methods of a task with one target.\<close>

lemma make_ready_one:
  assumes "tm_make_ready tc H t s = (s', t', r)" "t_targets t = [n]" "no_side_effects s" "valid s n"
  shows "same_but n s s'" "r = None \<Longrightarrow> get_state s' n \<in> {executing, node_state.up_to_date}" "r \<noteq> None \<Longrightarrow> s' = s"
proof -
  have nosd: "side_effects (node_at s n) = []" using assms(3) by (simp add: no_side_effects_def)
  have v: "same_but n s (visited H n s)" by (rule same_but_same_tasks) (simp add: same_tasks_ops)
  have "valid (visited H n s) n" using assms(4) v by (simp add: same_but_def)
  then show "same_but n s s'" "r = None \<Longrightarrow> get_state s' n \<in> {executing, node_state.up_to_date}" "r \<noteq> None \<Longrightarrow> s' = s"
    using assms(1,2,4) nosd same_but_trans [OF v same_but_set_state]
    by (auto simp: tm_make_ready_def make_ready_all_def make_ready_current_def Let_def mark_executing_def
        same_but_set_state node_at_set_state split: if_splits prod.splits)
qed

lemma prepare_states:
  "get_state (fst (prepare H t s)) m = get_state s m \<and> same_but n s (fst (prepare H t s))"
proof (cases "t_exception t")
  case None
  let ?s1 = "s\<lparr>message := None\<rparr>"
  have "same_tasks ?s1 (fst (prepare H t s))"
  proof (cases "t_targets t")
    case Nil
    with None show ?thesis by (simp add: prepare_def)
  next
    case (Cons t0 ts0)
    obtain s2 e where e: "get_executor t0 ?s1 = (s2, e)" by fastforce
    obtain s3 r where g: "get_action_targets H e s2 = (s3, r)" by fastforce
    have 2: "same_tasks ?s1 s2" using same_tasks_get_executor [of ?s1 t0] e by simp
    have 3: "same_tasks ?s1 s3" using same_tasks_trans [OF 2 same_tasks_get_action_targets, of H e] g by simp
    have 4: "prepare_targets H ts s3 = (s4, x) \<Longrightarrow> same_tasks ?s1 s4" for ts s4 x
      using same_tasks_trans [OF 3 same_tasks_prepare_targets, of H ts] by simp
    from None Cons e g 2 3 4 show ?thesis by (auto simp: prepare_def Let_def split: sum.split prod.split)
  qed
  then show ?thesis
    using same_but_trans [OF same_but_updates(2) same_but_same_tasks] by (simp add: same_tasks_view)
qed (simp add: prepare_def)

lemma execute_one:
  assumes "t_targets t = [n]" "valid s n"
  shows "same_but n s (fst (execute H t s))" "get_state (fst (execute H t s)) n \<in> {get_state s n, executed}"
proof -
  have st: "same_tasks s (fst (build H n s))" for s :: taskmaster by (rule same_tasks_build)
  have bt: "same_tasks (set_state n executed s) (built H n (set_state n executed s))" by (simp add: same_tasks_ops)
  have b: "same_but n s (built H n (set_state n executed s))"
    by (rule same_but_trans [OF same_but_set_state same_but_same_tasks [OF bt]])
  have k: "get_state (built H n (set_state n executed s)) n = executed"
    using assms(2) by (simp add: same_tasks_view [OF bt] node_at_set_state)
  have "same_but n s (fst (execute H t s)) \<and> get_state (fst (execute H t s)) n \<in> {get_state s n, executed}"
    using assms(1) b k same_but_same_tasks [OF st, of n s] same_tasks_view(3) [OF st, of s n]
    by (auto simp: execute_def split: sum.split bool.split prod.split)
  then show "same_but n s (fst (execute H t s))" "get_state (fst (execute H t s)) n \<in> {get_state s n, executed}" by auto
qed

lemma executed_one:
  assumes "t_targets t = [n]" "valid s n" "no_side_effects s" "get_state s n \<in> {executing, node_state.up_to_date, executed}"
  shows "same_but n s (tm_executed tc H t s)" "get_state (tm_executed tc H t s) n \<in> {node_state.up_to_date, executed}"
proof -
  have nosd: "side_effects (node_at s n) = []" using assms(3) by (simp add: no_side_effects_def)
  let ?s1 = "set_state n executed s"
  have bt: "same_tasks ?s1 (built H n ?s1)" by (simp add: same_tasks_ops)
  have vt: "same_tasks s (visited H n s)" for s :: taskmaster by (simp add: same_tasks_ops)
  have b: "same_but n s (built H n ?s1)"
    by (rule same_but_trans [OF same_but_set_state same_but_same_tasks [OF bt]])
  note bv = same_but_trans [OF b same_but_same_tasks [OF vt]]
  have "get_state ?s1 n = executed" using assms(2) by (simp add: node_at_set_state)
  with assms nosd b bv same_but_set_state same_but_same_tasks [OF vt, of n s] same_tasks_view(3) [OF vt]
    same_tasks_view(3) [OF bt]
  show "same_but n s (tm_executed tc H t s)" "get_state (tm_executed tc H t s) n \<in> {node_state.up_to_date, executed}"
    by (auto simp: tm_executed_def)
qed

text \<open>The end of a task that succeeded: the parents of its target become candidates when it was the last they waited for.\<close>

lemma settled_postprocess:
  assumes st: "settled R {n} {n} s" and n: "get_state s n \<in> {node_state.up_to_date, executed}"
    and t: "t_targets t = [n]" and inv: "tm_inv R H s"
  shows "settled R {} {} (postprocess t s)"
proof -
  have nosd: "no_side_effects s" and wpv: "wp_valid s" and ri: "ref_inv s"
    using inv by (auto simp: tm_inv_def walk_inv_def)
  have idle: "idle_side_effects (t_targets t) s" by (rule no_side_effects_idle [OF nosd])
  let ?s = "postprocess t s"
  have ts: "fold set_add (t_targets t) [] = [n]" by (simp add: t set_add_def)
  note f = postprocess_fields [OF idle wpv, unfolded ts]
  have ri': "ref_inv ?s" by (rule ref_inv_postprocess [OF ri idle wpv])
  have cand: "candidates ?s = candidates s @ ready_parents s (released s [n])"
    by (simp add: f freed_waiters_none [OF nosd])
  have last: "p \<in> set (candidates ?s)" if p: "p \<in> set (wp s n)" "\<forall>c. p \<notin> set (wp ?s c)" for p
  proof -
    have "waiters ?s p = {}" using p(2) by (simp add: waiters_def)
    moreover have "valid ?s p" using wpv p(1) by (auto simp: wp_valid_def f)
    ultimately have "rc ?s p = 0" using ri' by (simp add: ref_inv_def)
    then have "rc s p - cnt (released s [n]) p = 0" by (simp add: f)
    moreover have "p \<in> fst ` set (released s [n])" using p(1) by (simp add: keys_released)
    then obtain k where "(p, k) \<in> set (released s [n])" by auto
    moreover then have "cnt (released s [n]) p = k"
      using distinct_released [of s "[n]"] by (simp add: cnt_def map_of_is_SomeI)
    ultimately show ?thesis by (force simp: cand ready_parents_def)
  qed
  show ?thesis
  proof (rule settledI)
    fix c p assume p: "p \<in> set (wp ?s c)"
    then have c: "c \<noteq> n" "p \<in> set (wp s c)" by (auto simp: f t split: if_splits)
    from settledD(1-3) [OF st c(2)] c(1)
    show "(p, c) \<in> R" "c \<in> {} \<or> get_state ?s c \<in> {no_state, pending, failed}"
      "get_state ?s c = no_state \<Longrightarrow> c \<in> set (candidates ?s) \<union> {}" by (auto simp: f cand)
  next
    fix m assume m: "valid ?s m" "get_state ?s m = pending" "m \<notin> set (candidates ?s)" "\<forall>c. m \<notin> set (wp ?s c)"
    then have "m \<noteq> n" "m \<notin> set (wp s n)" using n last [of m] by (auto simp: f)
    moreover have "c \<noteq> n \<Longrightarrow> wp ?s c = wp s c" for c by (simp add: f t)
    ultimately have "m \<notin> set (wp s c)" for c using m(4) by (metis)
    with settledD(4) [OF st, of m] m \<open>m \<noteq> n\<close> show "\<exists>c. (m, c) \<in> R \<and> get_state ?s c = failed"
      by (auto simp: f cand)
  next
    fix m assume "get_state ?s m = executing"
    then show "m \<in> {}" using settledD(5) [OF st, of m] n by (auto simp: f)
  next
    fix u assume "u \<in> set (original_top ?s)" "get_state ?s u = no_state"
    then show "u \<in> set (top_targets_left ?s) \<union> set (candidates ?s) \<union> {}"
      using settledD(6) [OF st, of u] n by (auto simp: f cand)
  qed
qed

text \<open>A task that failed: its target and all that wait for it are failed, and nobody waits for them.\<close>

lemma will_not_build_frame:
  fixes s :: taskmaster
  shows "valid (will_not_build ns st s) k = valid s k" "candidates (will_not_build ns st s) = candidates s"
    "top_targets_left (will_not_build ns st s) = top_targets_left s" "original_top (will_not_build ns st s) = original_top s"
    "stopped (will_not_build ns st s) = stopped s" "order (will_not_build ns st s) = order s"
proof -
  let ?tv = "fold set_add ns []" and ?pc = "set_minus (pending_children s) (fold set_add ns [])"
  obtain pc s1 where w: "will_not_build_loop st ?tv ?pc s = (pc, s1)" by fastforce
  have s': "will_not_build ns st s = s1\<lparr>pending_children := pc\<rparr>" by (simp add: will_not_build_def w)
  note fr = will_not_build_loop_frame [of st ?tv ?pc s, unfolded w snd_conv]
  show "valid (will_not_build ns st s) k = valid s k" by (simp add: s' fr)
  show "candidates (will_not_build ns st s) = candidates s"
    "top_targets_left (will_not_build ns st s) = top_targets_left s" "original_top (will_not_build ns st s) = original_top s"
    "stopped (will_not_build ns st s) = stopped s" "order (will_not_build ns st s) = order s"
    using more_eq_fields [OF fr(1)] by (simp_all add: s')
qed

lemma will_not_build_fields:
  fixes s :: taskmaster and ns :: "nid list"
  defines "s' \<equiv> will_not_build ns (Some failed) s"
  shows "wp s' k = (if k \<in> dependents s ns then [] else wp s k)"
    and "get_state s' k = (if valid s k \<and> k \<in> dependents s ns then failed else get_state s k)"
proof -
  let ?tv = "fold set_add ns []" and ?pc = "set_minus (pending_children s) (fold set_add ns [])"
  obtain pc s1 where w: "will_not_build_loop (Some failed) ?tv ?pc s = (pc, s1)" by fastforce
  have s': "s' = s1\<lparr>pending_children := pc\<rparr>" by (simp add: s'_def will_not_build_def w)
  have "dependents s ?tv = dependents s ns" by simp
  then show "wp s' k = (if k \<in> dependents s ns then [] else wp s k)"
    "get_state s' k = (if valid s k \<and> k \<in> dependents s ns then failed else get_state s k)"
    using will_not_build_loop_wp [of "Some failed" ?tv ?pc s k] will_not_build_loop_state [of failed ?tv ?pc s k] w
    by (simp_all add: s')
qed

lemma settled_will_not_build:
  assumes st: "settled R {n} {n} s" and v: "valid s n"
  shows "settled R {} {} (will_not_build [n] (Some failed) s)"
proof -
  let ?s = "will_not_build [n] (Some failed) s" and ?D = "(waits s)\<^sup>* `` {n}"
  note f = will_not_build_fields [of "[n]" s] will_not_build_frame [of "[n]" "Some failed" s]
  have nD: "n \<in> ?D" by blast
  have closed: "p \<in> ?D" if "p \<in> set (wp s c)" "c \<in> ?D" for p c
    using that by (auto simp: waits_def intro: rtrancl_into_rtrancl)
  show ?thesis
  proof (rule settledI)
    fix c p assume "p \<in> set (wp ?s c)"
    then have c: "c \<notin> ?D" "p \<in> set (wp s c)" by (auto simp: f split: if_splits)
    then have "c \<noteq> n" using nD by blast
    from settledD(1-3) [OF st c(2)] this c(1)
    show "(p, c) \<in> R" "c \<in> {} \<or> get_state ?s c \<in> {no_state, pending, failed}"
      "get_state ?s c = no_state \<Longrightarrow> c \<in> set (candidates ?s) \<union> {}" by (auto simp: f)
  next
    fix m assume m: "valid ?s m" "get_state ?s m = pending" "m \<notin> set (candidates ?s)" "\<forall>c. m \<notin> set (wp ?s c)"
    have D: "m \<notin> ?D" "get_state s m = pending" using m(1,2) by (auto simp: f split: if_splits)
    have "m \<notin> set (wp s c)" for c using m(4) [rule_format, of c] closed [of m c] D(1) by (auto simp: f split: if_splits)
    with settledD(4) [OF st, of m] D m nD show "\<exists>c. (m, c) \<in> R \<and> get_state ?s c = failed" by (auto simp: f)
  next
    fix m assume "get_state ?s m = executing"
    then show "m \<in> {}" using settledD(5) [OF st, of m] v nD by (auto simp: f split: if_splits)
  next
    fix u assume "u \<in> set (original_top ?s)" "get_state ?s u = no_state"
    then show "u \<in> set (top_targets_left ?s) \<union> set (candidates ?s) \<union> {}"
      using settledD(6) [OF st, of u] v nD by (auto simp: f split: if_splits)
  qed
qed

lemma settled_postprocess_failed:
  assumes st: "settled R {} {} s" and t: "t_targets t = [n]" "wp s n = []" and inv: "tm_inv R H s"
  shows "settled R {} {} (postprocess t s)"
proof -
  have nosd: "no_side_effects s" and wpv: "wp_valid s" using inv by (auto simp: tm_inv_def walk_inv_def)
  have idle: "idle_side_effects (t_targets t) s" by (rule no_side_effects_idle [OF nosd])
  have ts: "fold set_add (t_targets t) [] = [n]" by (simp add: t set_add_def)
  note f = postprocess_fields [OF idle wpv, unfolded ts]
  have "wp (postprocess t s) k = wp s k" for k by (simp add: f t)
  moreover have "candidates (postprocess t s) = candidates s"
    using keys_released [of s "[n]"] t(2) by (simp add: f freed_waiters_none [OF nosd] ready_parents_def)
  ultimately show ?thesis using st unfolding settled_def by (simp add: f)
qed

section \<open>The build\<close>

text \<open>
  The invariant between two tasks: the build was stopped, or the books are settled. \<open>tops\<close> are the
  targets the taskmaster was created with.
\<close>

definition build_frame :: "nid list \<Rightarrow> taskmaster \<Rightarrow> bool" where
  "build_frame tops s \<longleftrightarrow> original_top s = tops \<and> (\<forall>l. set (order s l) = set l)"

definition build_inv :: "(nid \<times> nid) set \<Rightarrow> hooks \<Rightarrow> nid list \<Rightarrow> taskmaster \<Rightarrow> bool" where
  "build_inv R H tops s \<longleftrightarrow> tm_inv R H s \<and> build_frame tops s \<and> (stopped s \<or> settled R {} {} s)"

lemma build_frame_same_but: "same_but n s s' \<Longrightarrow> build_frame tops s \<Longrightarrow> build_frame tops s'"
  by (simp add: same_but_def build_frame_def)

lemma build_inv_ready_exc: "build_inv R H tops s \<Longrightarrow> build_inv R H tops (s\<lparr>ready_exc := x\<rparr>)"
  using walk_inv_ready_exc [of R H s x]
  by (auto simp: build_inv_def tm_inv_def build_frame_def settled_def no_side_effects_def)

lemma build_search_end:
  assumes inv: "build_inv R H tops s" and irr: "\<And>n. (n, n) \<notin> R" and e: "search_end H s s' (Inr q)"
  shows "build_frame tops s'"
    and "q = None \<Longrightarrow> stopped s' \<or> settled R {} {} s' \<and> candidates s' = [] \<and> top_targets_left s' = []"
    and "q = Some n \<Longrightarrow> settled R {n} {n} s' \<and> \<not> stopped s'"
proof -
  have t: "tm_inv R H s" and w: "walk_inv R H s" and fr: "build_frame tops s" and st: "stopped s \<or> settled R {} {} s"
    using inv by (simp_all add: build_inv_def tm_inv_def)
  have "build_frame tops s' \<and> (q = None \<longrightarrow> stopped s' \<or> settled R {} {} s' \<and> candidates s' = [] \<and> top_targets_left s' = [])
    \<and> (q = Some n \<longrightarrow> settled R {n} {n} s' \<and> \<not> stopped s')"
    using e unfolding search_end_def
  proof (elim disjE exE conjE)
    assume "stopped s" "s' = fst (no_next_candidate s)" "Inr q = Inr None"
    with fr show ?thesis by (simp add: no_next_candidate_def build_frame_def will_not_build_frame)
  next
    assume "\<not> stopped s" "s' = s" "candidates s = []" "top_targets_left s = []" "Inr q = Inr None"
    with st fr show ?thesis by simp
  next
    fix s1 k m
    assume ns: "\<not> stopped s" and f: "find_next_candidate H s = (s1, Some k)"
      and c: "consider_node H k s1 = Found m s'" and r: "Inr q = Inr (Some m)"
    note g = find_next_candidate_Some [OF f w] and h = find_next_candidate_stacks [OF f]
    have 1: "settled R {k} {} s1" using settled_next_candidate [OF f _ w] st ns by simp
    have 2: "tm_inv R H s1" using tm_inv_advances [OF t advances_find_next_candidate [OF f w] g(2)] .
    have 3: "valid s1 k" using g by simp
    have 4: "\<And>l. set (order s1 l) = set l" using fr h by (simp add: build_frame_def)
    note fd = settled_consider_Found [OF c 2 3 1 4]
    have "m = k" by (rule advances_consider_Found(1) [OF c g(2) 3])
    with fd fr h ns r show ?thesis by (auto simp: build_frame_def)
  qed simp
  then show "build_frame tops s'" 
    "q = None \<Longrightarrow> stopped s' \<or> settled R {} {} s' \<and> candidates s' = [] \<and> top_targets_left s' = []"
    "q = Some n \<Longrightarrow> settled R {n} {n} s' \<and> \<not> stopped s'" by auto
qed

lemma build_round:
  assumes inv: "build_inv R H tops s" and irr: "\<And>n. (n, n) \<notin> R" and ns: "\<not> stopped s"
    and f: "find_next_candidate H s = (s1, Some n)" and c: "consider_node H n s1 = Continue s2"
  shows "build_inv R H tops s2"
proof -
  have t: "tm_inv R H s" and w: "walk_inv R H s" and fr: "build_frame tops s" and st: "settled R {} {} s"
    using inv ns by (simp_all add: build_inv_def tm_inv_def)
  note g = find_next_candidate_Some [OF f w] and h = find_next_candidate_stacks [OF f]
  have 1: "settled R {n} {} s1" by (rule settled_next_candidate [OF f st w])
  have 2: "tm_inv R H s1" using tm_inv_advances [OF t advances_find_next_candidate [OF f w] g(2)] .
  have 3: "valid s1 n" using g by simp
  have 4: "\<And>l. set (order s1 l) = set l" using fr h by (simp add: build_frame_def)
  have 5: "settled R {} {} s2" by (rule settled_consider_Continue [OF c 2 3 1 irr 4])
  note cc = consider_node_Continue [OF c g(2) 3]
  have "tm_inv R H s2" using tm_inv_advances [OF 2 advances_consider_Continue [OF c g(2) 3]] cc by blast
  moreover have "build_frame tops s2" using cc h fr by (simp add: build_frame_def round_frame_def)
  ultimately show ?thesis using 5 by (simp add: build_inv_def)
qed

lemma build_search:
  assumes inv: "build_inv R H tops s" and irr: "\<And>n. (n, n) \<notin> R" and f: "find_next_ready_node H s = Some (s', Inr q)"
  shows "build_frame tops s'"
    and "q = None \<Longrightarrow> stopped s' \<or> settled R {} {} s' \<and> candidates s' = [] \<and> top_targets_left s' = []"
    and "q = Some n \<Longrightarrow> settled R {n} {n} s' \<and> \<not> stopped s'"
proof -
  let ?s = "s\<lparr>ready_exc := None\<rparr>"
  have i: "build_inv R H tops ?s" by (rule build_inv_ready_exc [OF inv])
  then have w: "walk_inv R H ?s" by (simp add: build_inv_def tm_inv_def)
  have l: "find_ready_loop H ?s = Some (s', Inr q)" using f by (simp add: find_next_ready_node_def)
  from find_ready_loop_rounds [where P = "build_inv R H tops", OF w i l] obtain s0
    where s0: "build_inv R H tops s0" "search_end H s0 s' (Inr q)"
  proof (rule exE)
    fix s s1 n s2
    assume b: "build_inv R H tops s" and ns: "\<not> stopped s"
      and c: "find_next_candidate H s = (s1, Some n)" "consider_node H n s1 = Continue s2"
    show "build_inv R H tops s2" by (rule build_round [OF b irr ns c])
  qed auto
  note e = build_search_end [OF s0(1) irr s0(2)]
  show "build_frame tops s'" by (rule e)
  show "q = None \<Longrightarrow> stopped s' \<or> settled R {} {} s' \<and> candidates s' = [] \<and> top_targets_left s' = []" by (rule e)
  show "q = Some n \<Longrightarrow> settled R {n} {n} s' \<and> \<not> stopped s'" by (rule e)
qed

text \<open>What a task that was handed out looks like: its node is the one in progress.\<close>

definition in_progress :: "(nid \<times> nid) set \<Rightarrow> hooks \<Rightarrow> nid list \<Rightarrow> nid \<Rightarrow> taskmaster \<Rightarrow> bool" where
  "in_progress R H tops n s \<longleftrightarrow> tm_inv R H s \<and> build_frame tops s \<and> valid s n \<and> settled R {n} {n} s
     \<and> get_state s n \<in> {pending, executing, node_state.up_to_date, executed}"

lemma in_progress_same_but:
  assumes "in_progress R H tops n s" "same_but n s s'" "tm_inv R H s'"
    "get_state s' n \<in> {pending, executing, node_state.up_to_date, executed}"
  shows "in_progress R H tops n s'"
proof -
  have "settled R {n} {n} s'" by (rule settled_same_but [of R n "{n}" s]) (use assms in \<open>auto simp: in_progress_def\<close>)
  with assms show ?thesis by (auto simp: in_progress_def same_but_def build_frame_def)
qed

lemma build_next_task:
  assumes inv: "build_inv R H tops s" and irr: "\<And>n. (n, n) \<notin> R"
    and nx: "next_task H (tm_make_ready tc) s = Some (s', Inr (Some t))"
  obtains n where "t_targets t = [n]" "in_progress R H tops n s'"
    "t_exception t = None \<longrightarrow> get_state s' n \<in> {executing, node_state.up_to_date}"
proof -
  have t: "tm_inv R H s" using inv by (simp add: build_inv_def)
  then show thesis
  proof (cases rule: tm_next_task [where mk = "tm_make_ready tc"])
    case (task s1 n s2 e s3 t0 r t')
    let ?t = "Task_init (get_all_targets s2 e) (n \<in> set (original_top s2)) n"
    have eq: "s' = s3\<lparr>ready_exc := None\<rparr>" "t = t'" using nx task(12) by auto
    note sr = build_search [OF inv irr task(1)]
    have t1: "tm_inv R H s1" and t2: "tm_inv R H s2" using safe_tm_inv [OF t task(2)] safe_tm_inv [OF _ task(8)] by auto
    have st: "same_tasks s1 s2" using same_tasks_get_executor [of s1 n] task(7) by simp
    have v2: "valid s2 n" using task(4) by (simp add: same_tasks_view [OF st])
    have g2: "graph_inv R H s2" using t2 by (simp add: tm_inv_def walk_inv_def)
    have "e < length (execs s2)" using get_executor_ok(1) [OF _ task(4,7)] t1 by (simp add: tm_inv_def walk_inv_def graph_inv_def)
    from single_target [OF g2 this task(9) v2 irr] have one: "get_all_targets s2 e = [n]" .
    have tt: "t_targets t = [n]"
      using t_targets_make_ready [OF task(10)] task(11) eq one
      by (auto simp: Task_init_def exception_set_def split: option.splits)
    have nosd: "no_side_effects s2" using t2 by (simp add: tm_inv_def)
    note mr = make_ready_one [OF task(10) _ nosd v2, unfolded Task_init_def, simplified, OF one]
    have b: "same_but n s1 s'"
      unfolding eq using same_but_trans [OF same_but_same_tasks [OF st] same_but_trans [OF mr(1) same_but_updates(1)]] by simp
    have p: "get_state s2 n = pending" using task(5) by (simp add: same_tasks_view [OF st])
    have "in_progress R H tops n s1"
      using t1 sr(1) sr(3) [of n] task(4,5) by (simp add: in_progress_def)
    moreover have "tm_inv R H s'" using tm_next_task_safe [OF t, of tc] nx safe_tm_inv [OF t] by auto
    moreover have "get_state s' n \<in> {pending, executing, node_state.up_to_date, executed}"
      using mr(2,3) p by (cases r) (auto simp: eq)
    ultimately have ip: "in_progress R H tops n s'" using b by (blast intro: in_progress_same_but)
    have "t_exception t = None \<longrightarrow> get_state s' n \<in> {executing, node_state.up_to_date}"
      using mr(2) task(11) by (cases r) (auto simp: eq exception_set_def split: option.splits)
    with tt ip show ?thesis by (rule that)
  qed (use nx in auto)
qed

text \<open>The \<open>try\<close> block keeps the node in progress; without an exception the node is ready or built.\<close>

lemma build_attempt:
  assumes p: "in_progress R H tops n s" and t: "t_targets t = [n]"
    and x: "t_exception t = None \<longrightarrow> get_state s n \<in> {executing, node_state.up_to_date}"
    and a: "serial_attempt (tm_ops H tc) t s = (s', r)"
  shows "in_progress R H tops n s'" "r = None \<Longrightarrow> get_state s' n \<in> {executing, node_state.up_to_date, executed}"
proof -
  obtain s1 y where y: "prepare H t s = (s1, y)" by fastforce
  have i: "tm_inv R H s" using p by (simp add: in_progress_def)
  have i1: "tm_inv R H s1" using tm.prepare_invar [OF i, of tc t] y by (simp add: tm_ops_def)
  have b1: "same_but n s s1" "get_state s1 n = get_state s n" using prepare_states [of H t s n n] y by auto
  have p1: "in_progress R H tops n s1" by (rule in_progress_same_but [OF p b1(1) i1]) (use p b1 in \<open>simp add: in_progress_def\<close>)
  have xn: "y = None \<Longrightarrow> t_exception t = None" using y by (cases "t_exception t") (auto simp: prepare_def)
  obtain s2 z where z: "execute H t s1 = (s2, z)" by fastforce
  have v1: "valid s1 n" using p1 by (simp add: in_progress_def)
  note ex = execute_one [OF t v1, of H, unfolded z fst_conv]
  have i2: "tm_inv R H s2" using tm.execute_invar [OF i1, of tc t] z by (simp add: tm_ops_def)
  have p2: "in_progress R H tops n s2"
    by (rule in_progress_same_but [OF p1 ex(1) i2]) (use p1 ex(2) in \<open>auto simp: in_progress_def\<close>)
  have "s' = s1 \<and> (r = None \<longrightarrow> y = None) \<or> s' = s2 \<and> y = None"
    using a y z by (auto simp: serial_attempt_def tm_ops_def split: option.splits if_splits)
  with p1 p2 x xn ex(2) b1(2)
  show "in_progress R H tops n s'" "r = None \<Longrightarrow> get_state s' n \<in> {executing, node_state.up_to_date, executed}" by auto
qed

lemma build_task:
  assumes p: "in_progress R H tops n s" and t: "t_targets t = [n]"
    and x: "t_exception t = None \<longrightarrow> get_state s n \<in> {executing, node_state.up_to_date}"
  shows "build_inv R H tops (fst (serial_task (tm_ops H tc) sig t (s, i)))"
proof -
  obtain s1 r where a: "serial_attempt (tm_ops H tc) t s = (s1, r)" by fastforce
  note at = build_attempt [OF p t x a]
  have i1: "tm_inv R H s1" using at(1) by (simp add: in_progress_def)
  let ?s2 = "if sig then stop s1 else s1" and ?i = "sig \<or> i"
  have i2: "tm_inv R H ?s2" using i1 tm.stop_invar [of R H s1 tc] by (simp add: tm_ops_def)
  have b2: "same_but n s1 s1" by simp
  have fin: "tm_inv R H (fst (serial_task (tm_ops H tc) sig t (s, i)))"
    using tm.serial_task_invar [of R H "(s, i)" tc sig t] p by (simp add: in_progress_def)
  have p2: "valid ?s2 n" "build_frame tops ?s2" "settled R {n} {n} ?s2" "get_state ?s2 n = get_state s1 n"
    "no_side_effects ?s2"
    using at(1) i2 by (auto simp: in_progress_def stop_def build_frame_def settled_def tm_inv_def)
  show ?thesis
  proof (cases r)
    case None
    have g: "get_state ?s2 n \<in> {executing, node_state.up_to_date, executed}" using at(2) None p2(4) by simp
    let ?s3 = "tm_executed tc H t ?s2"
    note e = executed_one [OF t p2(1,5) g, of tc H]
    have i3: "tm_inv R H ?s3" using tm.executed_invar [OF i2, of tc t] by (simp add: tm_ops_def)
    have "settled R {n} {n} ?s3" by (rule settled_same_but [OF p2(3) e(1)]) (use g e(2) in auto)
    from settled_postprocess [OF this e(2) t i3] have "settled R {} {} (postprocess t ?s3)" .
    moreover have "build_frame tops (postprocess t ?s3)"
      using build_frame_same_but [OF e(1) p2(2)] i3 postprocess_fields(8,10) [OF no_side_effects_idle, of ?s3 t]
      by (simp add: tm_inv_def walk_inv_def build_frame_def)
    moreover have "fst (serial_task (tm_ops H tc) sig t (s, i)) = postprocess t ?s3"
      using a None by (simp add: serial_task_def sig_handler_def tm_ops_def)
    ultimately show ?thesis using fin by (simp add: build_inv_def)
  next
    case (Some y)
    let ?y = "if ?i then interrupt_error (hd (t_targets t)) else y"
    obtain s3 t3 where f: "tm_failed tc (exception_set ?y t) ?s2 = (s3, t3)" by fastforce
    have res: "fst (serial_task (tm_ops H tc) sig t (s, i)) = postprocess t3 s3"
      using a Some f by (auto simp: serial_task_def sig_handler_def tm_ops_def task_failed_def)
    have i3: "tm_inv R H s3" using tm.failed_invar [OF i2, of tc "exception_set ?y t"] f by (simp add: tm_ops_def)
    have pp: "wp_valid s3" "idle_side_effects (t_targets t3) s3"
      using i3 no_side_effects_idle by (simp_all add: tm_inv_def walk_inv_def)
    note pf = postprocess_fields(8-10) [OF pp(2,1)]
    let ?w = "will_not_build [n] (Some failed) ?s2"
    have w: "settled R {} {} ?w" by (rule settled_will_not_build [OF p2(3,1)])
    have wn: "wp ?w n = []" using will_not_build_fields(1) [of "[n]" ?s2 n] by auto
    have s3: "if tc_keep_going tc then s3 = ?w \<and> t_targets t3 = [n] else s3 = stop ?w"
      using f t by (auto simp: tm_failed_def fail_continue_def fail_stop_def exception_set_def Let_def split: if_splits)
    have "build_frame tops s3" using s3 p2(2) by (auto simp: build_frame_def will_not_build_frame stop_def split: if_splits)
    then have "build_frame tops (postprocess t3 s3)" by (simp add: build_frame_def pf)
    moreover have "stopped (postprocess t3 s3) \<or> settled R {} {} (postprocess t3 s3)"
    proof (cases "tc_keep_going tc")
      case True
      then have "s3 = ?w" "t_targets t3 = [n]" using s3 by auto
      with settled_postprocess_failed [OF w _ wn, of t3 H] i3 show ?thesis by simp
    next
      case False
      then have "stopped s3" using s3 by (simp add: stop_def)
      then show ?thesis by (simp add: pf)
    qed
    ultimately show ?thesis using fin by (simp add: build_inv_def res)
  qed
qed

text \<open>
  The outcome of a build: it was stopped, or every requested target is finished or still waits,
  through a chain of dependencies, for a node that failed.
\<close>

definition outcome :: "(nid \<times> nid) set \<Rightarrow> nid list \<Rightarrow> taskmaster \<Rightarrow> bool" where
  "outcome R tops s \<longleftrightarrow> stopped s \<or> (\<forall>t \<in> set tops. get_state s t \<in> {node_state.up_to_date, executed, failed}
     \<or> get_state s t = pending \<and> (\<exists>c. (t, c) \<in> R\<^sup>+ \<and> get_state s c = failed))"

lemma settled_outcome:
  assumes st: "settled R {} {} s" "candidates s = []" "top_targets_left s = []" and wf: "wf (R\<inverse>)"
    and w: "wp_valid s" and fr: "build_frame tops s"
  shows "outcome R tops s"
  unfolding outcome_def
proof (rule disjI2, rule ballI)
  fix t assume "t \<in> set tops"
  then have "get_state s t \<noteq> no_state" "get_state s t \<noteq> executing"
    using settledD(5,6) [OF st(1), of t] st(2,3) fr by (auto simp: build_frame_def)
  moreover have "\<exists>c. (t, c) \<in> R\<^sup>+ \<and> get_state s c = failed" if p: "get_state s t = pending"
  proof (rule settled_end [OF st(1) wf st(2) p])
    show "valid s t" using p by (cases "valid s t") (auto simp: node_at_invalid Node_init_def)
    show "\<forall>c p. p \<in> set (wp s c) \<longrightarrow> valid s c"
    proof (intro allI impI)
      fix c p assume "p \<in> set (wp s c)"
      then show "valid s c" by (cases "valid s c") (auto simp: node_at_invalid Node_init_def)
    qed
  qed
  ultimately show "get_state s t \<in> {node_state.up_to_date, executed, failed}
     \<or> get_state s t = pending \<and> (\<exists>c. (t, c) \<in> R\<^sup>+ \<and> get_state s c = failed)" by (cases "get_state s t") auto
qed

lemma build_inv_init:
  assumes "heap_ok h" "deps_in R H h" "R \<subseteq> into h" "no_side_effects h" "\<And>n. get_state h n = no_state"
    "\<forall>t \<in> set tops. valid h t" "\<And>l. set (ord l) = set l" "\<And>n. \<forall>m \<in> set (fst (alter_targets H n)). valid h m"
  shows "build_inv R H tops (Taskmaster_init tops ord h)"
proof -
  let ?s = "Taskmaster_init tops ord h"
  have w: "walk_inv R H ?s" by (rule walk_inv_init_deps) (use assms in auto)
  have "settled R {} {} ?s"
  proof (rule settledI)
    fix t assume "t \<in> set (original_top ?s)"
    then show "t \<in> set (top_targets_left ?s) \<union> set (candidates ?s) \<union> {}" by (simp add: Taskmaster_init_def)
  qed (simp_all add: Taskmaster_init_heap heap_okD(1) [OF assms(1)] assms(5))
  with w assms(4,7) show ?thesis
    by (simp add: build_inv_def tm_inv_def build_frame_def no_side_effects_def Taskmaster_init_heap)
      (simp add: Taskmaster_init_def)
qed

text \<open>The dependencies of the sample program.\<close>

definition sample_deps :: "(nid \<times> nid) set" where
  "sample_deps = {(0, 1), (0, 2), (1, 3), (2, 4), (2, 5)}"

lemma found_ex_base: "found_ex base_hooks h x = {}"
  by (auto simp: found_ex_def base_hooks_def get_implicit_deps_def split: if_splits)

lemma sample_deps_in: "deps_in sample_deps base_hooks sample_heap"
proof -
  have "node_deps (node_at sample_heap n) \<subseteq> sample_deps `` {n} \<and> memo_ok (node_at sample_heap n)" for n
    by (auto simp: sample_heap_def sample_deps_def node_at_def node_deps_def memo_ok_def Node_init_def implicit_list_def
        UniqueList_init_def ul_items_def make_unique_def uniquer_hashables_def nth_Cons split: nat.splits)
  then show ?thesis by (simp add: deps_in_def found_ex_base) (simp add: sample_heap_def)
qed

lemma sample_deps_acyclic: "wf (sample_deps\<inverse>)"
proof -
  have "sample_deps\<inverse> \<subseteq> (less_than :: (nat \<times> nat) set)\<inverse>" by (auto simp: sample_deps_def)
  moreover have "acyclic (sample_deps\<inverse>)"
  proof (rule acyclic_subset [OF _ \<open>sample_deps\<inverse> \<subseteq> less_than\<inverse>\<close>])
    show "acyclic (less_than\<inverse>)" by (simp add: wf_acyclic)
  qed
  ultimately show ?thesis by (intro finite_acyclic_wf) (simp_all add: sample_deps_def)
qed

lemma sample_heap_fresh: "no_side_effects sample_heap" "get_state sample_heap n = no_state"
  by (auto simp: no_side_effects_def sample_heap_def node_at_def Node_init_def nth_Cons split: nat.split)

text \<open>
  C1: A serial build leaves nothing out. On a dependency graph without cycles, with executors of
  one target each and no side effects, whatever the actions, scanners, task class and signals do,
  \<open>Serial.start\<close> returns; and unless the search for a ready node itself raised the exception that
  is returned, or the build was stopped (by a failure without \<open>--keep-going\<close> or by a signal), every
  requested target is up to date, executed or failed, or is pending and depends through a chain of
  dependencies on a node that failed.
\<close>

theorem serial_build_complete:
  assumes "heap_ok h" "deps_in R H h" "R \<subseteq> into h" "wf (R\<inverse>)" "no_side_effects h" "\<And>n. get_state h n = no_state"
    "\<forall>t \<in> set tops. valid h t" "\<And>l. set (ord l) = set l" "\<And>n. \<forall>m \<in> set (fst (alter_targets H n)). valid h m"
  shows "\<exists>s i x. serial_start (tm_ops H tc) sigs (Taskmaster_init tops ord h) = Some ((s, i), x) \<and>
    ((\<exists>s0 y. next_task H (tm_make_ready tc) s0 = Some (s, Inl y) \<and> x = Some y) \<or> outcome R tops s)"
proof -
  have b: "build_inv R H tops (Taskmaster_init tops ord h)" by (rule build_inv_init) (use assms in auto)
  have irr: "\<And>n. (n, n) \<notin> R" using assms(4) by (auto dest: wf_not_refl)
  let ?Q = "\<lambda>s x. (\<exists>s0 y. next_task H (tm_make_ready tc) s0 = Some (s, Inl y) \<and> x = Some y) \<or> outcome R tops s"
  have "\<exists>s' i' x. serial_loop (tm_ops H tc) sigs 0 (Taskmaster_init tops ord h, False) = Some ((s', i'), x) \<and> tm_inv R H s' \<and> ?Q s' x"
  proof (rule tm.serial_loop_rule [where J = "build_inv R H tops"])
    fix s s1 t sig i assume j: "build_inv R H tops s" and nx: "op_next_task (tm_ops H tc) s = Some (s1, Inr (Some t))"
    then have nx: "next_task H (tm_make_ready tc) s = Some (s1, Inr (Some t))" by (simp add: tm_ops_def)
    obtain n where "t_targets t = [n]" "in_progress R H tops n s1"
      "t_exception t = None \<longrightarrow> get_state s1 n \<in> {executing, node_state.up_to_date}" by (rule build_next_task [OF j irr nx])
    then show "build_inv R H tops (fst (serial_task (tm_ops H tc) sig t (s1, i)))" by (intro build_task)
  next
    fix s s1 assume j: "build_inv R H tops s" and inv: "tm_inv R H s" and nx: "op_next_task (tm_ops H tc) s = Some (s1, Inr None)"
    from inv have f: "find_next_ready_node H s = Some (s1, Inr None)" and "safe R H s s1"
      by (cases rule: tm_next_task [where mk = "tm_make_ready tc"]; use nx in \<open>auto simp: tm_ops_def\<close>)+
    then have "wp_valid s1" by (simp add: safe_def walk_inv_def)
    with build_search(1,2) [OF j irr f] settled_outcome [of R s1] assms(4)
    show "?Q s1 (op_cleanup (tm_ops H tc) s1)" by (auto simp: outcome_def)
  next
    fix s s1 x assume "op_next_task (tm_ops H tc) s = Some (s1, Inl x)"
    then show "?Q s1 (Some x)" by (auto simp: tm_ops_def)
  qed (use b in \<open>simp_all add: build_inv_def\<close>)
  then show ?thesis by (auto simp: serial_start_def)
qed

theorem serial_build_complete_witness:
  "\<exists>s i x. serial_start (tm_ops base_hooks default_class) (\<lambda>k. False) (Taskmaster_init [0] id sample_heap) = Some ((s, i), x) \<and>
    ((\<exists>s0 y. next_task base_hooks (tm_make_ready default_class) s0 = Some (s, Inl y) \<and> x = Some y) \<or> outcome sample_deps [0] s)"
proof (rule serial_build_complete [OF sample_heap_ok sample_deps_in _ sample_deps_acyclic sample_heap_fresh(1)])
  show "sample_deps \<subseteq> into sample_heap" by (auto simp: sample_deps_def sample_heap_def valid_def)
qed (simp_all add: sample_heap_fresh base_hooks_def, simp add: sample_heap_def valid_def)

end
