(* ===== verification/Interactive.thy ===== *)
theory Interactive
  imports Walker Complete
begin

text \<open>
  Interactive builds (\<open>SCons/Script/Interactive.py\<close>): after each \<open>build\<close> command \<open>do_build\<close> walks
  everything below the targets and clears it, so that the next command sees no stale state. The
  heap is extended with the dictionary of seen nodes. Parsing the command line and running the
  build (\<open>Main._build_targets\<close>) come before and are not part of this theory, nor is the reset of
  the signature files, which touches no node.
\<close>

record clearing = heap +
  seen_nodes :: "nid list"

definition get_unseen_children :: "hooks \<Rightarrow> nid \<Rightarrow> nid option \<Rightarrow> clearing \<Rightarrow> clearing \<times> nid list res" where
  "get_unseen_children H n p h = (case children H n h of
       (h1, Inl x) \<Rightarrow> (h1, Inl x)
     | (h1, Inr l) \<Rightarrow> (h1, Inr (filter (\<lambda>k. k \<notin> set (seen_nodes h1)) l)))"

text \<open>\<open>rfile\<close> of a node without such a method is the node itself.\<close>

definition add_to_seen_nodes :: "hooks \<Rightarrow> nid \<Rightarrow> nid option \<Rightarrow> clearing \<Rightarrow> clearing" where
  "add_to_seen_nodes H n p h =
     (let h1 = h\<lparr>seen_nodes := set_add n (seen_nodes h)\<rparr>
      in if rfile H n \<noteq> n then h1\<lparr>seen_nodes := set_add (rfile H n) (seen_nodes h1)\<rparr> else h1)"

definition clear_walk :: "hooks \<Rightarrow> clearing walk_funcs" where
  "clear_walk H = \<lparr>kids_func = get_unseen_children H, cycle_func = ignore_cycle, eval_func = add_to_seen_nodes H\<rparr>"

fun walk_all :: "'a heap_scheme walk_funcs \<Rightarrow> nid list \<Rightarrow> 'a heap_scheme \<Rightarrow> ('a heap_scheme \<times> py_exc option) option" where
  "walk_all F [] h = Some (h, None)"
| "walk_all F (n # ns) h = (case walk F n h of
       None \<Rightarrow> None
     | Some (out, h1, Some x) \<Rightarrow> Some (h1, Some x)
     | Some (out, h1, None) \<Rightarrow> walk_all F ns h1)"

text \<open>The second pass: \<open>node.clear()\<close>, \<open>set_state(no_state)\<close>, \<open>implicit = None\<close>.\<close>

definition clear_node :: "nid \<Rightarrow> 'a heap_scheme \<Rightarrow> 'a heap_scheme" where
  "clear_node n h = upd_node n (implicit_update (\<lambda>_. None)) (set_state n no_state (clear n h))"

definition do_build_clear :: "hooks \<Rightarrow> nid list \<Rightarrow> clearing \<Rightarrow> (clearing \<times> py_exc option) option" where
  "do_build_clear H ns h =
     (if ns = [] then Some (h, None)
      else case walk_all (clear_walk H) (ns @ concat (map (\<lambda>n. fst (alter_targets H n)) ns)) (h\<lparr>seen_nodes := []\<rparr>) of
          None \<Rightarrow> None
        | Some (h1, Some x) \<Rightarrow> Some (h1, Some x)
        | Some (h1, None) \<Rightarrow> Some (fold clear_node (seen_nodes h1) h1, None))"

section \<open>The client of the walker\<close>

lemma set_seen_add: "set (seen_nodes (add_to_seen_nodes H n p h)) = {n, rfile H n} \<union> set (seen_nodes h)"
  by (auto simp: add_to_seen_nodes_def Let_def)

lemma more_add_to_seen [simp]:
  "nodes (add_to_seen_nodes H n p h) = nodes h" "execs (add_to_seen_nodes H n p h) = execs h"
  by (auto simp: add_to_seen_nodes_def Let_def)

lemma node_at_cong: "nodes h' = nodes h \<Longrightarrow> node_at h' = node_at h"
  by (simp add: node_at_def fun_eq_iff)

lemma walkable_cong:
  fixes h h' :: "'a heap_scheme"
  assumes "nodes h' = nodes h" "execs h' = execs h" "walkable H N R E h"
  shows "walkable H N R E h'"
proof (rule walkable_same_graph [OF assms(3)])
  show "same_graph h h'"
    using assms(1,2) by (simp add: same_graph_def graph_le_def same_execs_def node_at_cong [OF assms(1)])
qed

lemma seen_nodes_more: "heap.more h' = heap.more h \<Longrightarrow> seen_nodes h' = seen_nodes (h :: clearing)"
  by (cases h; cases h') simp

lemma seen_nodes_set_wkids [simp]: "seen_nodes (set_wkids n v h) = seen_nodes h"
  by (simp add: set_wkids_def upd_node_def)

text \<open>The nodes of the source tree that stand for a node of a variant directory.\<close>

definition twins :: "hooks \<Rightarrow> nid set" where
  "twins H = {rfile H n | n. rfile H n \<noteq> n}"

interpretation cw: walk_client "clear_walk H" "walkable H N R E" N "into_heap N R" E "twins H"
  "\<lambda>h. set (seen_nodes h)" "\<lambda>h. set (seen_nodes h)"
  for H N R E
proof unfold_locales
  note sel = clear_walk_def get_unseen_children_def ignore_cycle_def
  fix h h' :: clearing and n p r l
  assume h: "walkable H N R E h"
  { assume "kids_func (clear_walk H) n p h = (h', r)"
    then obtain r' where c: "children H n h = (h', r')" by (auto simp: sel split: prod.splits sum.splits)
    note w = walkable_children [OF h c]
    show "walkable H N R E h'" "wkids (node_at h' m) = wkids (node_at h m)" for m by (rule w)+
    show "set (seen_nodes h') = set (seen_nodes h) \<and> set (seen_nodes h') = set (seen_nodes h)"
      using seen_nodes_more [OF w(3)] by simp }
  { assume "kids_func (clear_walk H) n p h = (h', Inr l)"
    then obtain l' where c: "children H n h = (h', Inr l')" "l = filter (\<lambda>k. k \<notin> set (seen_nodes h')) l'"
      by (auto simp: sel split: prod.splits sum.splits)
    from walkable_children(4) [OF h c(1), of l'] seen_nodes_more [OF walkable_children(3) [OF h c(1)]] c(2)
    show "set l \<subseteq> into_heap N R `` {n} \<and> E `` {n} \<subseteq> set l \<union> set (seen_nodes h)" by auto }
  show "walkable H N R E (eval_func (clear_walk H) n p h)"
    using h by (auto simp: clear_walk_def intro: walkable_cong)
  show "set (seen_nodes (eval_func (clear_walk H) n p h)) \<subseteq> insert n (set (seen_nodes h)) \<union> twins H"
    by (auto simp: clear_walk_def set_seen_add twins_def)
  show "wkids (node_at (eval_func (clear_walk H) n p h) m) = wkids (node_at h m)" for m
    by (simp add: clear_walk_def node_at_def)
  show "length (nodes h) = N" using h by (simp add: walkable_def)
qed (auto simp: clear_walk_def ignore_cycle_def set_seen_add walkable_set_wkids into_heap_def)

section \<open>The walk with the default functions\<close>

text \<open>The sample program, in a heap with or without further fields.\<close>

lemma sample_explicit_deps: "set (explicit_deps (node_at sample_heap m)) = sample_deps `` {m}"
proof -
  have "m \<in> {0, 1, 2, 3, 4, 5} \<or> 6 \<le> m" by auto
  then show ?thesis
    by (elim disjE insertE) (simp_all add: sample_heap_def sample_deps_def node_at_def explicit_deps_def Node_init_def Image_def, auto)
qed

lemma sample_walkable:
  assumes "nodes h = nodes sample_heap" "execs h = []"
  shows "walkable base_hooks 6 sample_deps sample_deps h"
proof -
  have n: "node_at h m = node_at sample_heap m" for m using assms(1) by (simp add: node_at_def)
  have i: "into_heap 6 sample_deps = sample_deps" by (auto simp: into_heap_def sample_deps_def)
  have "deps_in sample_deps base_hooks h"
    using sample_deps_in assms(2) by (simp add: deps_in_def found_ex_base n)
  moreover have "execs_ok h"
    by (auto simp: execs_ok_def n) (auto simp: sample_heap_def node_at_def Node_init_def nth_Cons split: nat.splits if_splits)
  moreover have "set (explicit_deps (node_at h m)) = sample_deps `` {m}" for m
    by (simp only: n sample_explicit_deps)
  moreover have "length (nodes h) = 6" using assms(1) by (simp add: sample_heap_def)
  ultimately show ?thesis by (simp add: walkable_def graph_inv_def i)
qed



section \<open>What is cleared\<close>

definition cleared :: "node \<Rightarrow> bool" where
  "cleared x \<longleftrightarrow> state x = no_state \<and> implicit x = None \<and> memo_children x = None \<and> binfo x = None \<and> ninfo x = Map.empty"

lemma node_at_clear_node:
  "node_at (clear_node n h) m =
     (if m = n \<and> valid h n then (node_at h n)\<lparr>state := no_state, implicit := None, memo_children := None, binfo := None,
        ninfo := Map.empty\<rparr> else node_at h m)"
  by (simp add: clear_node_def set_state_def clear_def executor_cleanup_def executor_cleanup_at_def clear_memoized_values_def
      del_binfo_def node_at_upd_node split: option.split)

lemma valid_clear_node [simp]: "valid (clear_node n h) m = valid h m"
  by (simp add: clear_node_def set_state_def clear_def executor_cleanup_def executor_cleanup_at_def clear_memoized_values_def
      del_binfo_def split: option.split)

lemma fold_clear_node:
  assumes "valid h n" "n \<in> set ns \<or> cleared (node_at h n)"
  shows "cleared (node_at (fold clear_node ns h) n)"
  using assms by (induction ns arbitrary: h) (auto simp: node_at_clear_node cleared_def)

lemma walk_all_seen:
  assumes "walkable H N R E h" "\<forall>n \<in> set ns. n < N" "E `` twins H = {}" "E `` set (seen_nodes h) \<subseteq> set (seen_nodes h)"
  shows "\<exists>h' x. walk_all (clear_walk H) ns h = Some (h', x) \<and> (x = None \<longrightarrow> walkable H N R E h' \<and>
    set ns \<union> set (seen_nodes h) \<subseteq> set (seen_nodes h') \<and> E `` set (seen_nodes h') \<subseteq> set (seen_nodes h'))"
  using assms(1,2,4)
proof (induction ns arbitrary: h)
  case (Cons n ns)
  from cw.walk_complete [OF Cons.prems(1), of n] Cons.prems(2)
  obtain out h1 x where w: "walk (clear_walk H) n h = Some (out, h1, x)" and r: "x = None \<longrightarrow> walkable H N R E h1 \<and>
      set (seen_nodes h1) \<subseteq> set (seen_nodes h) \<union> set out \<union> twins H \<and> set (seen_nodes h) \<union> set out \<subseteq> set (seen_nodes h1) \<and>
      (\<exists>below. out = below @ [n]) \<and> cw.covers E [] (set (seen_nodes h1)) out"
    by auto
  show ?case
  proof (cases x)
    case None
    with r have c: "walkable H N R E h1" "set (seen_nodes h1) \<subseteq> set (seen_nodes h) \<union> set out \<union> twins H"
      "set (seen_nodes h) \<union> set out \<subseteq> set (seen_nodes h1)" "n \<in> set out" "cw.covers E [] (set (seen_nodes h1)) out"
      by auto
    from c(5) have "E `` set out \<subseteq> set (seen_nodes h1) \<union> set out" unfolding cw.covers_def by auto
    with c(3) have c5: "E `` set out \<subseteq> set (seen_nodes h1)" by blast
    have "E `` set (seen_nodes h1) \<subseteq> E `` set (seen_nodes h) \<union> E `` set out \<union> E `` twins H" using c(2) by blast
    with c(3) c5 assms(3) Cons.prems(3) have "E `` set (seen_nodes h1) \<subseteq> set (seen_nodes h1)" by blast
    from Cons.IH [OF c(1) _ this] Cons.prems(2) obtain h2 y where "walk_all (clear_walk H) ns h1 = Some (h2, y)"
      "y = None \<longrightarrow> walkable H N R E h2 \<and> set ns \<union> set (seen_nodes h1) \<subseteq> set (seen_nodes h2) \<and>
        E `` set (seen_nodes h2) \<subseteq> set (seen_nodes h2)" by auto
    with None w c(3,4) show ?thesis by auto
  qed (simp add: w)
qed simp


definition sample_clearing :: clearing where
  "sample_clearing = \<lparr>nodes = nodes sample_heap, execs = [], seen_nodes = [4]\<rparr>"


end
