(* ===== verification/Sets.thy ===== *)
theory Sets
  imports Prelude
begin

text \<open>
  \<open>SCons/compat/_scons_sets.py\<close>: the classes \<open>Set\<close> and \<open>ImmutableSet\<close> that the build engine uses
  where the interpreter has no built-in sets. A set is kept in a dictionary whose keys are the
  elements; here the list of the keys in iteration order, without repetitions. The theory shows
  that the methods compute the operations on mathematical sets, that the two loops of \<open>_update\<close>
  do the same, and that equal sets have equal hash codes.
\<close>

section \<open>Elements and objects\<close>

text \<open>
  What the methods ask of an element: whether it can be hashed (if not, using it as a key raises
  \<open>TypeError\<close>), its hash code, and the results of its methods \<open>__as_immutable__\<close> and
  \<open>__as_temporarily_immutable__\<close>, if it has them. Elements are equal if Python's \<open>==\<close> says so.
\<close>

record 'e protocol =
  hashable :: "'e \<Rightarrow> bool"
  hash_of :: "'e \<Rightarrow> int"
  as_immutable :: "'e \<Rightarrow> 'e option"
  as_temporarily_immutable :: "'e \<Rightarrow> 'e option"

datatype set_class = Set | ImmutableSet

record 'e pyset =
  set_class_of :: set_class
  data :: "'e list"
  hashcode :: "int option"

text \<open>
  The argument \<open>other\<close>: the set itself (\<open>self is other\<close>), another set, a list or tuple, another
  iterable, or an object that cannot be iterated over.
\<close>

datatype 'e operand = Self | Other "'e pyset" | Sequence "'e list" | Iterable "'e list" | Scalar

datatype 'a binop = NotImplemented | Value 'a

definition compute_hash :: "'e protocol \<Rightarrow> 'e pyset \<Rightarrow> int" where
  "compute_hash P s = fold (\<lambda>e. xor (hash_of P e)) (data s) 0"

text \<open>What the methods keep: no key twice, every key can be hashed, and a hash code that is kept is right.\<close>

definition set_wf :: "'e protocol \<Rightarrow> 'e pyset \<Rightarrow> bool" where
  "set_wf P s \<longleftrightarrow> distinct (data s) \<and> list_all (hashable P) (data s)
     \<and> (case hashcode s of None \<Rightarrow> True | Some c \<Rightarrow> set_class_of s = ImmutableSet
          \<and> c = compute_hash P s)"

section \<open>The update loops\<close>

text \<open>\<open>data[element] = value\<close>, and the same for \<open>transform()\<close> in the handler of \<open>TypeError\<close>.\<close>

definition store :: "'e protocol \<Rightarrow> 'e \<Rightarrow> 'e list \<Rightarrow> 'e list res" where
  "store P e d = (if hashable P e then Inr (set_add e d) else Inl TypeError)"

definition store_transformed :: "'e protocol \<Rightarrow> 'e \<Rightarrow> 'e list \<Rightarrow> 'e list res" where
  "store_transformed P e d = (case as_immutable P e of None \<Rightarrow> Inl TypeError | Some i \<Rightarrow> store P i d)"

text \<open>The loop for lists and tuples: the inner \<open>for\<close> runs until an element cannot be hashed.\<close>

fun store_until :: "'e protocol \<Rightarrow> 'e list \<Rightarrow> 'e list \<Rightarrow> 'e list \<times> ('e \<times> 'e list) option" where
  "store_until P [] d = (d, None)"
| "store_until P (e # it) d = (case store P e d of
       Inr d1 \<Rightarrow> store_until P it d1
     | Inl x \<Rightarrow> (d, Some (e, it)))"

lemma store_until_shorter: "store_until P it d = (d1, Some (e, rest)) \<Longrightarrow> length rest < length it"
  by (induction P it d rule: store_until.induct) (auto split: sum.splits)

function update_sequence :: "'e protocol \<Rightarrow> 'e list \<Rightarrow> 'e list \<Rightarrow> 'e list \<times> py_exc option" where
  "update_sequence P it d = (case store_until P it d of
       (d1, None) \<Rightarrow> (d1, None)
     | (d1, Some (e, rest)) \<Rightarrow> (case store_transformed P e d1 of
           Inl x \<Rightarrow> (d1, Some x)
         | Inr d2 \<Rightarrow> update_sequence P rest d2))"
  by pat_completeness auto

termination
  by (relation "measure (\<lambda>(P, it, d). length it)") (auto dest: store_until_shorter [OF sym])

declare update_sequence.simps [simp del]

text \<open>The loop for other iterables, with the \<open>try\<close> around each element.\<close>

fun update_iterable :: "'e protocol \<Rightarrow> 'e list \<Rightarrow> 'e list \<Rightarrow> 'e list \<times> py_exc option" where
  "update_iterable P [] d = (d, None)"
| "update_iterable P (e # it) d = (case store P e d of
       Inr d1 \<Rightarrow> update_iterable P it d1
     | Inl x \<Rightarrow> (case store_transformed P e d of
           Inr d1 \<Rightarrow> update_iterable P it d1
         | Inl y \<Rightarrow> (d, Some y)))"

text \<open>\<open>_update\<close>: the set afterwards (also after an exception) and the exception.\<close>

definition set_update_data :: "'e list \<Rightarrow> 'e pyset \<Rightarrow> 'e pyset" where
  "set_update_data d s = s\<lparr>data := d\<rparr>"

definition update_in_place :: "'e protocol \<Rightarrow> 'e operand \<Rightarrow> 'e pyset \<Rightarrow> 'e pyset \<times> py_exc option" where
  "update_in_place P other s = (case other of
       Self \<Rightarrow> (s, None)
     | Other t \<Rightarrow> (set_update_data (fold set_add (data t) (data s)) s, None)
     | Sequence it \<Rightarrow> (let (d, x) = update_sequence P it (data s) in (set_update_data d s, x))
     | Iterable it \<Rightarrow> (let (d, x) = update_iterable P it (data s) in (set_update_data d s, x))
     | Scalar \<Rightarrow> (s, Some TypeError))"

section \<open>Construction and copying\<close>

text \<open>\<open>Set.__init__\<close> and \<open>ImmutableSet.__init__\<close>; \<open>None\<close> is the default argument.\<close>

definition Set_init :: "'e protocol \<Rightarrow> set_class \<Rightarrow> 'e operand option \<Rightarrow> 'e pyset res" where
  "Set_init P c iterable =
     (let s = \<lparr>set_class_of = c, data = [], hashcode = None\<rparr>
      in case iterable of
           None \<Rightarrow> Inr s
         | Some other \<Rightarrow> (case update_in_place P other s of (s1, None) \<Rightarrow> Inr s1 | (s1, Some x) \<Rightarrow> Inl x))"

definition new_set :: "set_class \<Rightarrow> 'e list \<Rightarrow> 'e pyset" where
  "new_set c d = \<lparr>set_class_of = c, data = d, hashcode = None\<rparr>"

text \<open>\<open>isinstance(other, BaseSet)\<close> and the set that \<open>other\<close> then is.\<close>

definition as_set :: "'e pyset \<Rightarrow> 'e operand \<Rightarrow> 'e pyset option" where
  "as_set s other = (case other of Self \<Rightarrow> Some s | Other t \<Rightarrow> Some t | _ \<Rightarrow> None)"

definition coerce_set :: "'e protocol \<Rightarrow> 'e pyset \<Rightarrow> 'e operand \<Rightarrow> 'e pyset res" where
  "coerce_set P s other = (case as_set s other of Some t \<Rightarrow> Inr t | None \<Rightarrow> Set_init P Set (Some other))"

definition set_len :: "'e pyset \<Rightarrow> nat" where
  "set_len s = length (data s)"

definition set_eq :: "'e pyset \<Rightarrow> 'e operand \<Rightarrow> bool" where
  "set_eq s other = (case as_set s other of
       Some t \<Rightarrow> length (data s) = length (data t) \<and> list_all (\<lambda>e. e \<in> set (data t)) (data s)
     | None \<Rightarrow> False)"

definition set_ne :: "'e pyset \<Rightarrow> 'e operand \<Rightarrow> bool" where
  "set_ne s other = (case as_set s other of
       Some t \<Rightarrow> \<not> (length (data s) = length (data t) \<and> list_all (\<lambda>e. e \<in> set (data t)) (data s))
     | None \<Rightarrow> True)"

definition set_copy :: "'e pyset \<Rightarrow> 'e pyset" where
  "set_copy s = new_set (set_class_of s) (fold set_add (data s) [])"

section \<open>The operations that make a new set\<close>

definition union_method :: "'e protocol \<Rightarrow> 'e operand \<Rightarrow> 'e pyset \<Rightarrow> 'e pyset res" where
  "union_method P other s =
     res_bind (Set_init P (set_class_of s) (Some (Other s))) (\<lambda>r.
       case update_in_place P (case other of Self \<Rightarrow> Other s | _ \<Rightarrow> other) r of
         (r1, None) \<Rightarrow> Inr r1 | (r1, Some x) \<Rightarrow> Inl x)"

definition intersection :: "'e protocol \<Rightarrow> 'e operand \<Rightarrow> 'e pyset \<Rightarrow> 'e pyset res" where
  "intersection P other s = res_bind (coerce_set P s other) (\<lambda>t.
     let (little, big) = (if set_len s \<le> set_len t then (s, t) else (t, s));
         common = filter (\<lambda>e. e \<in> set (data big)) (data little)
     in Set_init P (set_class_of s) (Some (Iterable common)))"

definition symmetric_difference :: "'e protocol \<Rightarrow> 'e operand \<Rightarrow> 'e pyset \<Rightarrow> 'e pyset res" where
  "symmetric_difference P other s = res_bind (coerce_set P s other) (\<lambda>t.
     let d1 = fold set_add (filter (\<lambda>e. e \<notin> set (data t)) (data s)) [];
         d2 = fold set_add (filter (\<lambda>e. e \<notin> set (data s)) (data t)) d1
     in Inr (new_set (set_class_of s) d2))"

definition difference :: "'e protocol \<Rightarrow> 'e operand \<Rightarrow> 'e pyset \<Rightarrow> 'e pyset res" where
  "difference P other s = res_bind (coerce_set P s other) (\<lambda>t.
     Inr (new_set (set_class_of s) (fold set_add (filter (\<lambda>e. e \<notin> set (data t)) (data s)) [])))"

text \<open>The operators \<open>|\<close>, \<open>&\<close>, \<open>^\<close> and \<open>-\<close>.\<close>

definition operator_on_sets :: "('e operand \<Rightarrow> 'e pyset \<Rightarrow> 'e pyset res) \<Rightarrow> 'e operand \<Rightarrow> 'e pyset \<Rightarrow> 'e pyset res binop" where
  "operator_on_sets m other s = (if as_set s other = None then NotImplemented else Value (m other s))"

definition set_or :: "'e protocol \<Rightarrow> 'e operand \<Rightarrow> 'e pyset \<Rightarrow> 'e pyset res binop" where
  "set_or P = operator_on_sets (union_method P)"

definition set_and :: "'e protocol \<Rightarrow> 'e operand \<Rightarrow> 'e pyset \<Rightarrow> 'e pyset res binop" where
  "set_and P = operator_on_sets (intersection P)"

definition set_xor :: "'e protocol \<Rightarrow> 'e operand \<Rightarrow> 'e pyset \<Rightarrow> 'e pyset res binop" where
  "set_xor P = operator_on_sets (symmetric_difference P)"

definition set_sub :: "'e protocol \<Rightarrow> 'e operand \<Rightarrow> 'e pyset \<Rightarrow> 'e pyset res binop" where
  "set_sub P = operator_on_sets (difference P)"

section \<open>Tests\<close>

definition set_contains :: "'e protocol \<Rightarrow> 'e \<Rightarrow> 'e pyset \<Rightarrow> bool res" where
  "set_contains P e s =
     (if hashable P e then Inr (e \<in> set (data s))
      else case as_temporarily_immutable P e of None \<Rightarrow> Inl TypeError | Some i \<Rightarrow> Inr (i \<in> set (data s)))"

definition binary_sanity_check :: "'e pyset \<Rightarrow> 'e operand \<Rightarrow> 'e pyset res" where
  "binary_sanity_check s other = (case as_set s other of Some t \<Rightarrow> Inr t | None \<Rightarrow> Inl TypeError)"

definition issubset :: "'e operand \<Rightarrow> 'e pyset \<Rightarrow> bool res" where
  "issubset other s = res_bind (binary_sanity_check s other) (\<lambda>t.
     Inr (\<not> set_len t < set_len s \<and> filter (\<lambda>e. e \<notin> set (data t)) (data s) = []))"

definition issuperset :: "'e operand \<Rightarrow> 'e pyset \<Rightarrow> bool res" where
  "issuperset other s = res_bind (binary_sanity_check s other) (\<lambda>t.
     Inr (\<not> set_len s < set_len t \<and> filter (\<lambda>e. e \<notin> set (data s)) (data t) = []))"

definition set_lt :: "'e operand \<Rightarrow> 'e pyset \<Rightarrow> bool res" where
  "set_lt other s = res_bind (binary_sanity_check s other) (\<lambda>t.
     if set_len s < set_len t then issubset other s else Inr False)"

definition set_gt :: "'e operand \<Rightarrow> 'e pyset \<Rightarrow> bool res" where
  "set_gt other s = res_bind (binary_sanity_check s other) (\<lambda>t.
     if set_len t < set_len s then issuperset other s else Inr False)"

section \<open>Hashing\<close>

text \<open>\<open>__hash__\<close> of the two classes: the set with the code it keeps, and the result.\<close>

definition set_hash :: "'e protocol \<Rightarrow> 'e pyset \<Rightarrow> 'e pyset \<times> int res" where
  "set_hash P s = (case set_class_of s of
       Set \<Rightarrow> (s, Inl TypeError)
     | ImmutableSet \<Rightarrow> (case hashcode s of
           Some c \<Rightarrow> (s, Inr c)
         | None \<Rightarrow> (let c = compute_hash P s in (s\<lparr>hashcode := Some c\<rparr>, Inr c))))"

section \<open>The operations of \<open>Set\<close> that change it\<close>

definition set_clear :: "'e pyset \<Rightarrow> 'e pyset" where
  "set_clear s = set_update_data [] s"

text \<open>\<open>__ior__\<close>, \<open>__iand__\<close> and \<open>intersection_update\<close>.\<close>

definition set_ior :: "'e operand \<Rightarrow> 'e pyset \<Rightarrow> 'e pyset res" where
  "set_ior other s = res_bind (binary_sanity_check s other) (\<lambda>t.
     Inr (set_update_data (fold set_add (data t) (data s)) s))"

definition set_iand :: "'e protocol \<Rightarrow> 'e operand \<Rightarrow> 'e pyset \<Rightarrow> 'e pyset res" where
  "set_iand P other s = res_bind (binary_sanity_check s other) (\<lambda>t.
     res_bind (intersection P other s) (\<lambda>r. Inr (set_update_data (data r) s)))"

definition intersection_update :: "'e protocol \<Rightarrow> 'e operand \<Rightarrow> 'e pyset \<Rightarrow> 'e pyset res" where
  "intersection_update P other s =
     (if as_set s other \<noteq> None then set_iand P other s
      else res_bind (intersection P other s) (\<lambda>r. Inr (set_update_data (data r) s)))"

text \<open>The loops over \<open>other\<close>. When it is the set itself, \<open>clear\<close> has emptied what they iterate over.\<close>

definition toggle :: "'e \<Rightarrow> 'e list \<Rightarrow> 'e list" where
  "toggle e d = (if e \<in> set d then remove1 e d else d @ [e])"

definition symmetric_difference_update :: "'e protocol \<Rightarrow> 'e operand \<Rightarrow> 'e pyset \<Rightarrow> 'e pyset res" where
  "symmetric_difference_update P other s = (case other of
       Self \<Rightarrow> Inr (set_clear s)
     | _ \<Rightarrow> res_bind (coerce_set P s other) (\<lambda>t. Inr (set_update_data (fold toggle (data t) (data s)) s)))"

definition set_ixor :: "'e protocol \<Rightarrow> 'e operand \<Rightarrow> 'e pyset \<Rightarrow> 'e pyset res" where
  "set_ixor P other s = res_bind (binary_sanity_check s other) (\<lambda>t. symmetric_difference_update P other s)"

definition delete_present :: "'e \<Rightarrow> 'e list \<Rightarrow> 'e list" where
  "delete_present e d = (if e \<in> set d then remove1 e d else d)"

definition difference_update :: "'e protocol \<Rightarrow> 'e operand \<Rightarrow> 'e pyset \<Rightarrow> 'e pyset res" where
  "difference_update P other s = (case other of
       Self \<Rightarrow> Inr (set_clear s)
     | _ \<Rightarrow> res_bind (coerce_set P s other) (\<lambda>t. Inr (set_update_data (fold delete_present (data t) (data s)) s)))"

definition set_isub :: "'e protocol \<Rightarrow> 'e operand \<Rightarrow> 'e pyset \<Rightarrow> 'e pyset res" where
  "set_isub P other s = res_bind (binary_sanity_check s other) (\<lambda>t. difference_update P other s)"

text \<open>\<open>add\<close>, \<open>remove\<close>, \<open>discard\<close> and \<open>pop\<close>; \<open>pick\<close> is the dictionary's choice in \<open>popitem\<close>.\<close>

definition set_add_method :: "'e protocol \<Rightarrow> 'e \<Rightarrow> 'e pyset \<Rightarrow> 'e pyset res" where
  "set_add_method P e s = (case store P e (data s) of
       Inr d \<Rightarrow> Inr (set_update_data d s)
     | Inl x \<Rightarrow> (case store_transformed P e (data s) of Inr d \<Rightarrow> Inr (set_update_data d s) | Inl y \<Rightarrow> Inl y))"

definition delete_key :: "'e \<Rightarrow> 'e list \<Rightarrow> 'e list res" where
  "delete_key e d = (if e \<in> set d then Inr (remove1 e d) else Inl (KeyError []))"

definition set_remove :: "'e protocol \<Rightarrow> 'e \<Rightarrow> 'e pyset \<Rightarrow> 'e pyset res" where
  "set_remove P e s = res_bind
     (if hashable P e then delete_key e (data s)
      else case as_temporarily_immutable P e of None \<Rightarrow> Inl TypeError | Some i \<Rightarrow> delete_key i (data s))
     (\<lambda>d. Inr (set_update_data d s))"

definition set_discard :: "'e protocol \<Rightarrow> 'e \<Rightarrow> 'e pyset \<Rightarrow> 'e pyset res" where
  "set_discard P e s = (case set_remove P e s of Inl (KeyError k) \<Rightarrow> Inr s | r \<Rightarrow> r)"

definition set_pop :: "('e list \<Rightarrow> nat) \<Rightarrow> 'e pyset \<Rightarrow> ('e \<times> 'e pyset) res" where
  "set_pop pick s =
     (if data s = [] then Inl (KeyError [])
      else let e = data s ! (pick (data s) mod length (data s)) in Inr (e, set_update_data (remove1 e (data s)) s))"

section \<open>The update loops agree\<close>

lemma update_iterable_until:
  "update_iterable P it d = (case store_until P it d of
       (d1, None) \<Rightarrow> (d1, None)
     | (d1, Some (e, rest)) \<Rightarrow> (case store_transformed P e d1 of
           Inl x \<Rightarrow> (d1, Some x)
         | Inr d2 \<Rightarrow> update_iterable P rest d2))"
  by (induction P it d rule: store_until.induct) (auto split: sum.split)

lemma update_sequence_iterable: "update_sequence P it d = update_iterable P it d"
proof (induction P it d rule: update_sequence.induct)
  case (1 P it d)
  show ?case
    by (subst update_sequence.simps, subst update_iterable_until)
      (auto split: prod.splits option.splits sum.splits intro!: "1.IH" [OF sym refl refl sym])
qed

text \<open>The key under which an element is kept.\<close>

definition elt_key :: "'e protocol \<Rightarrow> 'e \<Rightarrow> 'e option" where
  "elt_key P e = (if hashable P e then Some e
     else case as_immutable P e of None \<Rightarrow> None | Some i \<Rightarrow> if hashable P i then Some i else None)"

lemma update_iterable_keys:
  assumes "\<forall>e \<in> set it. elt_key P e \<noteq> None"
  shows "update_iterable P it d = (fold set_add (map (the \<circ> elt_key P) it) d, None)"
  using assms
  by (induction P it d rule: update_iterable.induct)
    (auto simp: elt_key_def store_def store_transformed_def split: if_splits option.splits)

lemma hashable_elt_key: "elt_key P e = Some k \<Longrightarrow> hashable P k"
  by (auto simp: elt_key_def split: if_splits option.splits)

lemma elt_key_hashable [simp]: "hashable P e \<Longrightarrow> elt_key P e = Some e"
  by (simp add: elt_key_def)

text \<open>What an element that cannot be stored does: those before it are kept, \<open>TypeError\<close> is raised.\<close>

lemma update_iterable_error:
  assumes "\<forall>e \<in> set it. elt_key P e \<noteq> None" "elt_key P e = None"
  shows "update_iterable P (it @ e # rest) d = (fold set_add (map (the \<circ> elt_key P) it) d, Some TypeError)"
  using assms
  by (induction P it d rule: update_iterable.induct)
    (auto simp: elt_key_def store_def store_transformed_def split: if_splits option.splits)

section \<open>The operations compute sets\<close>

lemma distinct_fold_set_add [simp]: "distinct (fold set_add ys xs) = distinct xs"
  using distinct_set_union [of xs ys] by (simp add: set_union_def)

abbreviation elements :: "'e pyset \<Rightarrow> 'e set" where
  "elements s \<equiv> set (data s)"

text \<open>An argument that stands for a set, and that set.\<close>

definition operand_ok :: "'e protocol \<Rightarrow> 'e operand \<Rightarrow> bool" where
  "operand_ok P other = (case other of
       Self \<Rightarrow> True | Other t \<Rightarrow> set_wf P t
     | Sequence it \<Rightarrow> list_all (\<lambda>e. elt_key P e \<noteq> None) it
     | Iterable it \<Rightarrow> list_all (\<lambda>e. elt_key P e \<noteq> None) it | Scalar \<Rightarrow> False)"

definition operand_keys :: "'e protocol \<Rightarrow> 'e pyset \<Rightarrow> 'e operand \<Rightarrow> 'e list" where
  "operand_keys P s other = (case other of
       Self \<Rightarrow> data s | Other t \<Rightarrow> data t
     | Sequence it \<Rightarrow> map (the \<circ> elt_key P) it | Iterable it \<Rightarrow> map (the \<circ> elt_key P) it | Scalar \<Rightarrow> [])"

abbreviation operand_elements :: "'e protocol \<Rightarrow> 'e pyset \<Rightarrow> 'e operand \<Rightarrow> 'e set" where
  "operand_elements P s other \<equiv> set (operand_keys P s other)"

text \<open>A call returns a well-formed set of the class \<open>c\<close> with the elements \<open>E\<close>.\<close>

definition returns :: "'e protocol \<Rightarrow> set_class \<Rightarrow> 'e set \<Rightarrow> 'e pyset res \<Rightarrow> bool" where
  "returns P c E r \<longleftrightarrow> (\<exists>u. r = Inr u \<and> set_wf P u \<and> set_class_of u = c \<and> elements u = E)"

lemma returnsI: "set_wf P u \<Longrightarrow> set_class_of u = c \<Longrightarrow> elements u = E \<Longrightarrow> returns P c E (Inr u)"
  by (simp add: returns_def)

lemma fold_set_add_id: "set ys \<subseteq> set xs \<Longrightarrow> fold set_add ys xs = xs"
  by (induction ys) (auto simp: set_add_def)

lemma hashable_operand_keys: "set_wf P s \<Longrightarrow> operand_ok P other \<Longrightarrow> e \<in> operand_elements P s other \<Longrightarrow> hashable P e"
  using hashable_elt_key [of P]
  by (cases other) (fastforce simp: operand_keys_def operand_ok_def set_wf_def list_all_iff)+

lemma update_in_place_ok:
  "operand_ok P other \<Longrightarrow>
     update_in_place P other s = (set_update_data (fold set_add (operand_keys P s other) (data s)) s, None)"
  by (cases other) (auto simp: update_in_place_def update_sequence_iterable update_iterable_keys operand_ok_def
      operand_keys_def list_all_iff fold_set_add_id set_update_data_def)

lemma set_wf_new: "set_wf P (new_set c d) \<longleftrightarrow> distinct d \<and> list_all (hashable P) d"
  by (simp add: set_wf_def new_set_def)

lemma new_set_simps [simp]: "data (new_set c d) = d" "set_class_of (new_set c d) = c"
  by (simp_all add: new_set_def)

lemma Set_init_ok:
  "operand_ok P other \<Longrightarrow> other \<noteq> Self \<Longrightarrow>
     Set_init P c (Some other) = Inr (new_set c (fold set_add (operand_keys P s other) []))"
  by (cases other) (auto simp: Set_init_def update_in_place_ok operand_keys_def set_update_data_def new_set_def Let_def)

lemma coerce_set_ok:
  assumes "set_wf P s" "operand_ok P other"
  shows "\<exists>t. coerce_set P s other = Inr t \<and> set_wf P t \<and> elements t = operand_elements P s other"
proof (cases "as_set s other")
  case (Some t)
  with assms show ?thesis
    by (cases other) (auto simp: coerce_set_def as_set_def operand_ok_def operand_keys_def)
next
  case None
  then have "other \<noteq> Self" by (auto simp: as_set_def)
  with None assms Set_init_ok [OF assms(2) this, of Set s] hashable_operand_keys [OF assms] show ?thesis
    by (simp add: coerce_set_def set_wf_new list_all_iff)
qed

lemma returns_union:
  assumes "set_wf P s" "operand_ok P other"
  shows "returns P (set_class_of s) (elements s \<union> operand_elements P s other) (union_method P other s)"
proof -
  let ?r = "new_set (set_class_of s) (fold set_add (data s) [])"
  let ?o = "case other of Self \<Rightarrow> Other s | _ \<Rightarrow> other"
  have 1: "Set_init P (set_class_of s) (Some (Other s)) = Inr ?r"
    using Set_init_ok [of P "Other s" "set_class_of s" s] assms(1) by (simp add: operand_ok_def operand_keys_def)
  have 2: "operand_ok P ?o" "operand_elements P ?r ?o = operand_elements P s other"
    using assms by (cases other; simp add: operand_ok_def operand_keys_def)+
  then have "union_method P other s = Inr (set_update_data (fold set_add (operand_keys P ?r ?o) (data ?r)) ?r)"
    by (simp add: union_method_def 1 update_in_place_ok)
  then show ?thesis
    using assms(1) 2 hashable_operand_keys [OF assms]
    by (auto intro!: returnsI simp: set_wf_def set_update_data_def new_set_def list_all_iff)
qed

lemma returns_intersection:
  assumes "set_wf P s" "operand_ok P other"
  shows "returns P (set_class_of s) (elements s \<inter> operand_elements P s other) (intersection P other s)"
proof -
  obtain t where t: "coerce_set P s other = Inr t" "set_wf P t" "elements t = operand_elements P s other"
    using coerce_set_ok [OF assms] by blast
  have h: "hashable P e" if "e \<in> elements s \<union> elements t" for e
    using that assms(1) t(2) by (auto simp: set_wf_def list_all_iff)
  have i: "Set_init P c (Some (Iterable xs)) = Inr (new_set c (fold set_add xs []))" if "\<forall>e \<in> set xs. hashable P e" for c xs
  proof -
    have "operand_ok P (Iterable xs)" "operand_keys P s (Iterable xs) = xs"
      using that by (auto simp: operand_ok_def operand_keys_def list_all_iff intro!: map_idI)
    with Set_init_ok [of P "Iterable xs" c s] show ?thesis by simp
  qed
  show ?thesis
    using h t by (auto simp: intersection_def i Let_def set_wf_new list_all_iff intro!: returnsI)
qed

lemma returns_differences:
  assumes "set_wf P s" "operand_ok P other"
  shows "returns P (set_class_of s) (elements s - operand_elements P s other) (difference P other s)"
    and "returns P (set_class_of s) ((elements s - operand_elements P s other) \<union> (operand_elements P s other - elements s))
      (symmetric_difference P other s)"
proof -
  obtain t where t: "coerce_set P s other = Inr t" "set_wf P t" "elements t = operand_elements P s other"
    using coerce_set_ok [OF assms] by blast
  have h: "hashable P e" if "e \<in> elements s \<union> elements t" for e
    using that assms(1) t(2) by (auto simp: set_wf_def list_all_iff)
  show "returns P (set_class_of s) (elements s - operand_elements P s other) (difference P other s)"
    using h t by (auto simp: difference_def set_wf_new list_all_iff intro!: returnsI)
  show "returns P (set_class_of s) ((elements s - operand_elements P s other) \<union> (operand_elements P s other - elements s))
      (symmetric_difference P other s)"
    using h t by (auto simp: symmetric_difference_def Let_def set_wf_new list_all_iff intro!: returnsI)
qed

text \<open>The mutating versions.\<close>

lemma fold_toggle:
  "distinct ys \<Longrightarrow> distinct xs \<Longrightarrow>
     distinct (fold toggle ys xs) \<and> set (fold toggle ys xs) = (set xs - set ys) \<union> (set ys - set xs)"
proof (induction ys arbitrary: xs)
  case (Cons y ys)
  then have "distinct (toggle y xs)" by (auto simp: toggle_def)
  with Cons.IH [OF _ this] Cons.prems show ?case by (auto simp: toggle_def)
qed simp

lemma fold_delete_present:
  "distinct xs \<Longrightarrow> distinct (fold delete_present ys xs) \<and> set (fold delete_present ys xs) = set xs - set ys"
proof (induction ys arbitrary: xs)
  case (Cons y ys)
  then have "distinct (delete_present y xs)" by (auto simp: delete_present_def)
  with Cons.IH [OF this] Cons.prems show ?case by (auto simp: delete_present_def)
qed simp

lemma returns_in_place:
  assumes "set_wf P s" "set_class_of s = Set" "distinct d" "set d = E" "\<forall>e \<in> E. hashable P e"
  shows "returns P Set E (Inr (set_update_data d s))"
  using assms by (auto simp: returns_def set_update_data_def set_wf_def list_all_iff split: option.splits)

lemma returns_intersection_update:
  assumes "set_wf P s" "set_class_of s = Set" "operand_ok P other"
  shows "returns P Set (elements s \<inter> operand_elements P s other) (intersection_update P other s)"
proof -
  obtain u where u: "intersection P other s = Inr u" "set_wf P u" "elements u = elements s \<inter> operand_elements P s other"
    using returns_intersection [OF assms(1,3)] by (auto simp: returns_def)
  have "intersection_update P other s = Inr (set_update_data (data u) s)"
    using u(1) by (auto simp: intersection_update_def set_iand_def binary_sanity_check_def)
  with u assms show ?thesis by (auto intro!: returns_in_place simp: set_wf_def list_all_iff)
qed

lemma returns_difference_updates:
  assumes "set_wf P s" "set_class_of s = Set" "operand_ok P other"
  shows "returns P Set (elements s - operand_elements P s other) (difference_update P other s)"
    and "returns P Set ((elements s - operand_elements P s other) \<union> (operand_elements P s other - elements s))
      (symmetric_difference_update P other s)"
proof -
  obtain t where t: "coerce_set P s other = Inr t" "set_wf P t" "elements t = operand_elements P s other"
    using coerce_set_ok [OF assms(1,3)] by blast
  have d: "distinct (data s)" "distinct (data t)" and h: "\<forall>e \<in> elements s \<union> elements t. hashable P e"
    using assms(1) t(2) by (auto simp: set_wf_def list_all_iff)
  have hE: "\<forall>e \<in> E. hashable P e" if "E \<subseteq> elements s \<union> elements t" for E using h that by blast
  show "returns P Set (elements s - operand_elements P s other) (difference_update P other s)"
  proof (cases "other = Self")
    case True
    with returns_in_place [OF assms(1,2), of "[]" "{}"] show ?thesis
      by (simp add: difference_update_def set_clear_def operand_keys_def)
  next
    case False
    then have "difference_update P other s = Inr (set_update_data (fold delete_present (data t) (data s)) s)"
      using t(1) by (cases other) (simp_all add: difference_update_def)
    with fold_delete_present [OF d(1), of "data t"] t(3) show ?thesis
      by (simp only:) (rule returns_in_place [OF assms(1,2)], auto intro: hE [rule_format])
  qed
  show "returns P Set ((elements s - operand_elements P s other) \<union> (operand_elements P s other - elements s))
      (symmetric_difference_update P other s)"
  proof (cases "other = Self")
    case True
    with returns_in_place [OF assms(1,2), of "[]" "{}"] show ?thesis
      by (simp add: symmetric_difference_update_def set_clear_def operand_keys_def)
  next
    case False
    then have "symmetric_difference_update P other s = Inr (set_update_data (fold toggle (data t) (data s)) s)"
      using t(1) by (cases other) (simp_all add: symmetric_difference_update_def)
    with fold_toggle [OF d(2,1)] t(3) show ?thesis
      by (simp only:) (rule returns_in_place [OF assms(1,2)], auto intro: hE [rule_format])
  qed
qed

lemma returns_update:
  assumes "set_wf P s" "set_class_of s = Set" "operand_ok P other"
  shows "snd (update_in_place P other s) = None \<and>
    returns P Set (elements s \<union> operand_elements P s other) (Inr (fst (update_in_place P other s)))"
  using assms hashable_operand_keys [OF assms(1,3)]
  by (auto simp: update_in_place_ok set_wf_def list_all_iff intro!: returns_in_place [OF assms(1,2)])

section \<open>Comparisons and hash codes\<close>

lemma length_eq_subset_eq:
  "distinct xs \<Longrightarrow> distinct ys \<Longrightarrow> length xs = length ys \<Longrightarrow> set xs \<subseteq> set ys \<Longrightarrow> set xs = set ys"
  by (metis List.finite_set card_subset_eq distinct_card)

lemma length_le_of_subset: "distinct xs \<Longrightarrow> set xs \<subseteq> set ys \<Longrightarrow> length xs \<le> length ys"
  by (metis List.finite_set card_length card_mono distinct_card le_trans)

lemma length_less_of_psubset: "distinct xs \<Longrightarrow> distinct ys \<Longrightarrow> set xs \<subset> set ys \<Longrightarrow> length xs < length ys"
  by (metis List.finite_set distinct_card psubset_card_mono)

lemma compute_hash_fold:
  assumes "distinct (data s)"
  shows "compute_hash P s = Finite_Set.fold (\<lambda>e. xor (hash_of P e)) 0 (elements s)"
proof -
  have c: "comp_fun_commute_on UNIV (\<lambda>e. xor (hash_of P e))"
    by standard (simp add: fun_eq_iff xor.left_commute)
  show ?thesis
    unfolding compute_hash_def
    using comp_fun_commute_on.fold_set_fold_remdups [OF c, of "data s" 0] distinct_remdups_id [OF assms] by simp
qed

section \<open>The properties of the classes\<close>

text \<open>
  The two loops of \<open>_update\<close>, the optimised one for lists and tuples that resumes the iteration
  after an element that cannot be hashed, and the one for other iterables with a handler around
  each element, leave the same elements in the set and raise the same exception, for every
  iterable and every set.
\<close>

lemma update_loops_agree: "update_sequence P it d = update_iterable P it d"
  by (rule update_sequence_iterable)

text \<open>
  C36: \<open>union\<close>, \<open>intersection\<close>, \<open>difference\<close> and \<open>symmetric_difference\<close> of a well-formed set with
  any argument that stands for a set (itself, a set, a list or another iterable whose elements can
  be hashed or made immutable) return a new well-formed set of the same class whose elements are
  the union, intersection, difference and symmetric difference.
\<close>

theorem set_methods_refine:
  assumes "set_wf P s" "operand_ok P other"
  shows "returns P (set_class_of s) (elements s \<union> operand_elements P s other) (union_method P other s) \<and>
    returns P (set_class_of s) (elements s \<inter> operand_elements P s other) (intersection P other s) \<and>
    returns P (set_class_of s) (elements s - operand_elements P s other) (difference P other s) \<and>
    returns P (set_class_of s) ((elements s - operand_elements P s other) \<union> (operand_elements P s other - elements s))
      (symmetric_difference P other s)"
  using returns_union [OF assms] returns_intersection [OF assms] returns_differences [OF assms] by simp

text \<open>Integers as elements, with lists of them (negative numbers here) that only an immutable copy can stand for.\<close>

definition sample_protocol :: "int protocol" where
  "sample_protocol = \<lparr>hashable = (\<lambda>e. 0 \<le> e), hash_of = id, as_immutable = (\<lambda>e. if e = - 1 then None else Some (- e)),
     as_temporarily_immutable = (\<lambda>e. if e = - 1 then None else Some (- e))\<rparr>"

theorem set_methods_refine_witness:
  "returns sample_protocol Set {1, 2, 3, 4} (union_method sample_protocol (Sequence [2, - 4, 3]) (new_set Set [1, 2])) \<and>
   returns sample_protocol Set {2} (intersection sample_protocol (Sequence [2, - 4, 3]) (new_set Set [1, 2])) \<and>
   returns sample_protocol Set {1} (difference sample_protocol (Sequence [2, - 4, 3]) (new_set Set [1, 2])) \<and>
   returns sample_protocol Set {1, 3, 4} (symmetric_difference sample_protocol (Sequence [2, - 4, 3]) (new_set Set [1, 2]))"
proof -
  have E: "operand_elements sample_protocol (new_set Set [1, 2]) (Sequence [2, - 4, 3]) = {2, 4, 3}"
    by (auto simp: operand_keys_def elt_key_def sample_protocol_def)
  have S: "set [1, 2] \<union> {2, 4, 3} = {1, 2, 3, 4 :: int}" "set [1, 2] \<inter> {2, 4, 3} = {2 :: int}"
    "set [1, 2] - {2, 4, 3} = {1 :: int}" "{1} \<union> ({2, 4, 3} - set [1, 2]) = {1, 3, 4 :: int}" by auto
  have "set_wf sample_protocol (new_set Set [1, 2])" "operand_ok sample_protocol (Sequence [2, - 4, 3])"
    by (simp_all add: set_wf_new operand_ok_def elt_key_def sample_protocol_def)
  from set_methods_refine [OF this, unfolded E new_set_simps]
  show ?thesis unfolding S .
qed

text \<open>
  The mutating methods of \<open>Set\<close> (\<open>update\<close>, \<open>intersection_update\<close>, \<open>difference_update\<close>,
  \<open>symmetric_difference_update\<close>) leave the set well-formed with the union, intersection, difference
  and symmetric difference as its elements, also when a set is updated with itself.
\<close>

lemma set_updates_refine:
  assumes "set_wf P s" "set_class_of s = Set" "operand_ok P other"
  shows "snd (update_in_place P other s) = None \<and>
    returns P Set (elements s \<union> operand_elements P s other) (Inr (fst (update_in_place P other s))) \<and>
    returns P Set (elements s \<inter> operand_elements P s other) (intersection_update P other s) \<and>
    returns P Set (elements s - operand_elements P s other) (difference_update P other s) \<and>
    returns P Set ((elements s - operand_elements P s other) \<union> (operand_elements P s other - elements s))
      (symmetric_difference_update P other s)"
  using returns_update [OF assms] returns_intersection_update [OF assms] returns_difference_updates [OF assms] by simp

text \<open>
  Comparisons decide set relations despite the shortcuts on the lengths: between well-formed
  sets \<open>==\<close> is equality of the sets of elements, \<open>issubset\<close>, \<open>issuperset\<close>, \<open><\<close> and \<open>>\<close> are inclusion
  and strict inclusion, and equal sets have equal hash codes, in whatever order their elements
  were added.
\<close>

lemma set_comparisons:
  assumes "set_wf P s" "set_wf P t"
  shows "set_eq s (Other t) = (elements s = elements t) \<and> set_ne s (Other t) = (elements s \<noteq> elements t) \<and>
    issubset (Other t) s = Inr (elements s \<subseteq> elements t) \<and> issuperset (Other t) s = Inr (elements t \<subseteq> elements s) \<and>
    set_lt (Other t) s = Inr (elements s \<subset> elements t) \<and> set_gt (Other t) s = Inr (elements t \<subset> elements s) \<and>
    (set_eq s (Other t) \<longrightarrow> compute_hash P s = compute_hash P t)"
proof -
  have d: "distinct (data s)" "distinct (data t)" using assms by (simp_all add: set_wf_def)
  have eq: "length (data s) = length (data t) \<and> elements s \<subseteq> elements t \<longleftrightarrow> elements s = elements t"
    using length_eq_subset_eq [OF d] d by (metis distinct_card order_refl)
  then have e: "set_eq s (Other t) = (elements s = elements t)" "set_ne s (Other t) = (elements s \<noteq> elements t)"
    by (auto simp: set_eq_def set_ne_def as_set_def list_all_iff)
  have le: "issubset (Other t) s = Inr (elements s \<subseteq> elements t)" "issuperset (Other t) s = Inr (elements t \<subseteq> elements s)"
    using length_le_of_subset [OF d(1), of "data t"] length_le_of_subset [OF d(2), of "data s"]
    by (auto simp: issubset_def issuperset_def binary_sanity_check_def as_set_def set_len_def filter_empty_conv)
  have ps: "length (data s) < length (data t) \<and> elements s \<subseteq> elements t \<longleftrightarrow> elements s \<subset> elements t"
    "length (data t) < length (data s) \<and> elements t \<subseteq> elements s \<longleftrightarrow> elements t \<subset> elements s"
    using length_less_of_psubset [OF d] length_less_of_psubset [OF d(2,1)] distinct_card [OF d(1)] distinct_card [OF d(2)]
    by (metis less_irrefl psubset_eq)+
  have "set_lt (Other t) s = Inr (elements s \<subset> elements t)" "set_gt (Other t) s = Inr (elements t \<subset> elements s)"
    unfolding ps [symmetric] by (simp_all add: set_lt_def set_gt_def binary_sanity_check_def as_set_def set_len_def le)
  with e le show ?thesis using compute_hash_fold [OF d(1), of P] compute_hash_fold [OF d(2), of P] by simp
qed

end
