(* ===== verification/Warnings.thy ===== *)
theory Warnings
  imports Prelude
begin

text \<open>
  \<open>SCons/Warnings.py\<close>: the classes of warnings with their inheritance, the list \<open>_enabled\<close> that
  decides whether a warning is shown, \<open>warn\<close>, and \<open>process_warn_strings\<close> for the arguments of the
  option \<open>--warn\<close>. The module's variables are a record that the functions thread.
\<close>

section \<open>The classes\<close>

datatype warning =
    Warning | MandatoryWarning | FutureDeprecatedWarning | DeprecatedWarning | MandatoryDeprecatedWarning
  | CacheWriteErrorWarning | CorruptSConsignWarning | DependencyWarning | DeprecatedCopyWarning
  | DeprecatedOptionsWarning | DeprecatedSourceSignaturesWarning | DeprecatedTargetSignaturesWarning
  | DuplicateEnvironmentWarning | FutureReservedVariableWarning | LinkWarning | MisleadingKeywordsWarning
  | MissingSConscriptWarning | NoMD5ModuleWarning | NoMetaclassSupportWarning | NoObjectCountWarning
  | NoParallelSupportWarning | PythonVersionWarning | ReservedVariableWarning | StackSizeWarning
  | TaskmasterNeedsExecuteWarning | VisualCMissingWarning | VisualVersionMismatch | VisualStudioMissingWarning
  | FortranCxxMixWarning

definition all_warnings :: "warning list" where
  "all_warnings = [Warning, MandatoryWarning, FutureDeprecatedWarning, DeprecatedWarning, MandatoryDeprecatedWarning,
     CacheWriteErrorWarning, CorruptSConsignWarning, DependencyWarning, DeprecatedCopyWarning,
     DeprecatedOptionsWarning, DeprecatedSourceSignaturesWarning, DeprecatedTargetSignaturesWarning,
     DuplicateEnvironmentWarning, FutureReservedVariableWarning, LinkWarning, MisleadingKeywordsWarning,
     MissingSConscriptWarning, NoMD5ModuleWarning, NoMetaclassSupportWarning, NoObjectCountWarning,
     NoParallelSupportWarning, PythonVersionWarning, ReservedVariableWarning, StackSizeWarning,
     TaskmasterNeedsExecuteWarning, VisualCMissingWarning, VisualVersionMismatch, VisualStudioMissingWarning,
     FortranCxxMixWarning]"

text \<open>The base class, \<open>None\<close> for \<open>Warning\<close> (whose base is \<open>UserError\<close>).\<close>

fun base_class :: "warning \<Rightarrow> warning option" where
  "base_class Warning = None"
| "base_class MandatoryDeprecatedWarning = Some MandatoryWarning"
| "base_class DeprecatedCopyWarning = Some DeprecatedWarning"
| "base_class DeprecatedOptionsWarning = Some DeprecatedWarning"
| "base_class DeprecatedSourceSignaturesWarning = Some DeprecatedWarning"
| "base_class DeprecatedTargetSignaturesWarning = Some DeprecatedWarning"
| "base_class PythonVersionWarning = Some DeprecatedWarning"
| "base_class TaskmasterNeedsExecuteWarning = Some FutureDeprecatedWarning"
| "base_class FortranCxxMixWarning = Some LinkWarning"
| "base_class _ = Some Warning"

text \<open>\<open>issubclass\<close>, which also decides \<open>isinstance\<close> of an instance of the class; the hierarchy has three levels.\<close>

definition issubclass :: "warning \<Rightarrow> warning \<Rightarrow> bool" where
  "issubclass c d \<longleftrightarrow> c = d \<or> base_class c = Some d \<or> Option.bind (base_class c) base_class = Some d"

fun class_name :: "warning \<Rightarrow> string" where
  "class_name Warning = ''Warning''"
| "class_name MandatoryWarning = ''MandatoryWarning''"
| "class_name FutureDeprecatedWarning = ''FutureDeprecatedWarning''"
| "class_name DeprecatedWarning = ''DeprecatedWarning''"
| "class_name MandatoryDeprecatedWarning = ''MandatoryDeprecatedWarning''"
| "class_name CacheWriteErrorWarning = ''CacheWriteErrorWarning''"
| "class_name CorruptSConsignWarning = ''CorruptSConsignWarning''"
| "class_name DependencyWarning = ''DependencyWarning''"
| "class_name DeprecatedCopyWarning = ''DeprecatedCopyWarning''"
| "class_name DeprecatedOptionsWarning = ''DeprecatedOptionsWarning''"
| "class_name DeprecatedSourceSignaturesWarning = ''DeprecatedSourceSignaturesWarning''"
| "class_name DeprecatedTargetSignaturesWarning = ''DeprecatedTargetSignaturesWarning''"
| "class_name DuplicateEnvironmentWarning = ''DuplicateEnvironmentWarning''"
| "class_name FutureReservedVariableWarning = ''FutureReservedVariableWarning''"
| "class_name LinkWarning = ''LinkWarning''"
| "class_name MisleadingKeywordsWarning = ''MisleadingKeywordsWarning''"
| "class_name MissingSConscriptWarning = ''MissingSConscriptWarning''"
| "class_name NoMD5ModuleWarning = ''NoMD5ModuleWarning''"
| "class_name NoMetaclassSupportWarning = ''NoMetaclassSupportWarning''"
| "class_name NoObjectCountWarning = ''NoObjectCountWarning''"
| "class_name NoParallelSupportWarning = ''NoParallelSupportWarning''"
| "class_name PythonVersionWarning = ''PythonVersionWarning''"
| "class_name ReservedVariableWarning = ''ReservedVariableWarning''"
| "class_name StackSizeWarning = ''StackSizeWarning''"
| "class_name TaskmasterNeedsExecuteWarning = ''TaskmasterNeedsExecuteWarning''"
| "class_name VisualCMissingWarning = ''VisualCMissingWarning''"
| "class_name VisualVersionMismatch = ''VisualVersionMismatch''"
| "class_name VisualStudioMissingWarning = ''VisualStudioMissingWarning''"
| "class_name FortranCxxMixWarning = ''FortranCxxMixWarning''"

section \<open>The module's state\<close>

text \<open>
  \<open>warning_out\<close> tells whether \<open>_warningOut\<close> is set; what it was called with is in \<open>shown\<close>, newest
  last, and what was written to standard error in \<open>stderr\<close>.
\<close>

record warn_state =
  enabled :: "(warning \<times> bool) list"
  as_exception :: bool
  warning_out :: bool
  shown :: "warning list"
  stderr :: "string list"

definition warn_init :: warn_state where
  "warn_init = \<lparr>enabled = [], as_exception = False, warning_out = False, shown = [], stderr = []\<rparr>"

definition suppressWarningClass :: "warning \<Rightarrow> warn_state \<Rightarrow> warn_state" where
  "suppressWarningClass c s = s\<lparr>enabled := (c, False) # enabled s\<rparr>"

definition enableWarningClass :: "warning \<Rightarrow> warn_state \<Rightarrow> warn_state" where
  "enableWarningClass c s = s\<lparr>enabled := (c, True) # enabled s\<rparr>"

definition warningAsException :: "bool \<Rightarrow> warn_state \<Rightarrow> warn_state \<times> bool" where
  "warningAsException flag s = (s\<lparr>as_exception := flag\<rparr>, as_exception s)"

text \<open>The loop of \<open>warn\<close>: the first entry whose class fits decides. The second component is the warning raised.\<close>

fun warn_loop :: "warning \<Rightarrow> (warning \<times> bool) list \<Rightarrow> warn_state \<Rightarrow> warn_state \<times> warning option" where
  "warn_loop w [] s = (s, None)"
| "warn_loop w ((c, flag) # es) s =
     (if issubclass w c then
        (if flag then
           (if as_exception s then (s, Some w)
            else if warning_out s then (s\<lparr>shown := shown s @ [w]\<rparr>, None) else (s, None))
         else (s, None))
      else warn_loop w es s)"

definition warn :: "warning \<Rightarrow> warn_state \<Rightarrow> warn_state \<times> warning option" where
  "warn w s = warn_loop w (enabled s) s"

section \<open>The option \<open>--warn\<close>\<close>

text \<open>\<open>string.capitalize\<close> on ASCII letters.\<close>

fun py_capitalize :: "string \<Rightarrow> string" where
  "py_capitalize [] = []"
| "py_capitalize (c # cs) = upper_char c # py_lower cs"

definition capitalize_elem :: "string \<Rightarrow> string" where
  "capitalize_elem s = (if take 5 s = ''scons'' then ''SCons'' @ drop 5 s else py_capitalize s)"

text \<open>The class an argument names (by the name it looks up in the module) and whether to enable it.\<close>

definition warn_arg :: "string \<Rightarrow> string \<times> bool" where
  "warn_arg arg =
     (let elems = py_split ''-'' (py_lower arg);
          (enable, rest) = (if hd elems = ''no'' then (False, tl elems) else (True, elems));
          name = (if rest = [''all''] then ''Warning'' else concat (map capitalize_elem rest) @ ''Warning'')
      in (name, enable))"

text \<open>The class of that name, if the module has one.\<close>

definition named_warning :: "string \<Rightarrow> warning option" where
  "named_warning name = find (\<lambda>c. class_name c = name) all_warnings"

definition process_warn_string :: "string \<Rightarrow> warn_state \<Rightarrow> warn_state" where
  "process_warn_string arg s =
     (let (name, enable) = warn_arg arg
      in case named_warning name of
           None \<Rightarrow> s\<lparr>stderr := stderr s @ [''No warning type: '' @ [CHR 0x27] @ arg @ [CHR 0x27, CHR 0x0A]]\<rparr>
         | Some c \<Rightarrow>
            (if enable then enableWarningClass c s
             else if issubclass c MandatoryDeprecatedWarning then
               s\<lparr>stderr := stderr s @ [''Can not disable mandataory warning: '' @ [CHR 0x27] @ arg @ [CHR 0x27, CHR 0x0A]]\<rparr>
             else suppressWarningClass c s))"

definition process_warn_strings :: "string list \<Rightarrow> warn_state \<Rightarrow> warn_state" where
  "process_warn_strings arguments s = fold process_warn_string arguments s"

section \<open>Lemmas\<close>

lemma in_all_warnings [simp]: "c \<in> set all_warnings"
  by (cases c) (simp_all add: all_warnings_def)

text \<open>What \<open>warn\<close> does depends on the first entry for a superclass.\<close>

definition decision :: "warning \<Rightarrow> (warning \<times> bool) list \<Rightarrow> bool" where
  "decision w es = (case find (\<lambda>(c, flag). issubclass w c) es of Some (c, flag) \<Rightarrow> flag | None \<Rightarrow> False)"

lemma warn_loop_decision:
  "warn_loop w es s =
     (if decision w es then
        (if as_exception s then (s, Some w) else if warning_out s then (s\<lparr>shown := shown s @ [w]\<rparr>, None) else (s, None))
      else (s, None))"
  by (induction w es s rule: warn_loop.induct) (auto simp: decision_def)

lemma issubclass_refl [simp]: "issubclass c c"
  by (simp add: issubclass_def)

lemma process_warn_string_frame:
  "as_exception (process_warn_string a s) = as_exception s" "warning_out (process_warn_string a s) = warning_out s"
  "shown (process_warn_string a s) = shown s"
  by (auto simp: process_warn_string_def enableWarningClass_def suppressWarningClass_def split: prod.split option.split)

lemma process_warn_strings_frame:
  "as_exception (process_warn_strings as s) = as_exception s" "warning_out (process_warn_strings as s) = warning_out s"
  "shown (process_warn_strings as s) = shown s"
  by (induction as arbitrary: s) (simp_all add: process_warn_strings_def process_warn_string_frame)

section \<open>Properties\<close>

text \<open>
  The last argument of \<open>--warn\<close> wins: when it names an existing class (and does not try to
  disable a mandatory deprecation), a warning of that class or of a class derived from it is shown
  (or raised, if warnings are exceptions) exactly if the argument enables it, whatever arguments
  came before; and every other warning is treated as the arguments before decided.
\<close>

lemma warn_last_argument:
  assumes "named_warning (fst (warn_arg a)) = Some c" "snd (warn_arg a) \<or> \<not> issubclass c MandatoryDeprecatedWarning"
  shows "(issubclass w c \<longrightarrow> (let s' = process_warn_strings (args @ [a]) s; on = snd (warn_arg a)
       in warn w s' = (if on \<and> \<not> as_exception s \<and> warning_out s then s'\<lparr>shown := shown s @ [w]\<rparr> else s',
            if on \<and> as_exception s then Some w else None))) \<and>
    (\<not> issubclass w c \<longrightarrow> decision w (enabled (process_warn_strings (args @ [a]) s)) =
       decision w (enabled (process_warn_strings args s)))"
proof -
  let ?s = "process_warn_strings args s"
  have e: "enabled (process_warn_strings (args @ [a]) s) = (c, snd (warn_arg a)) # enabled ?s"
    using assms by (auto simp: process_warn_strings_def process_warn_string_def enableWarningClass_def
        suppressWarningClass_def split: prod.split)
  show ?thesis
    using process_warn_strings_frame [of "args @ [a]" s]
    by (auto simp: Let_def warn_def warn_loop_decision e decision_def)
qed

text \<open>
  No argument of \<open>--warn\<close> adds an entry that disables \<open>MandatoryDeprecatedWarning\<close> or a class
  derived from it by name. The protection is not complete: \<open>no-all\<close> disables the base class, and
  with it the mandatory warnings that were enabled before.
\<close>

lemma mandatory_warnings:
  assumes "issubclass c MandatoryDeprecatedWarning" "(c, False) \<notin> set (enabled s)"
  shows "(c, False) \<notin> set (enabled (process_warn_strings args s)) \<and>
    decision c (enabled (enableWarningClass c s)) \<and>
    \<not> decision c (enabled (process_warn_strings [''no-all''] (enableWarningClass c s)))"
proof -
  have "(c, False) \<notin> set (enabled (process_warn_strings args s))"
    using assms(2)
  proof (induction args arbitrary: s)
    case (Cons a args)
    have "(c, False) \<notin> set (enabled (process_warn_string a s))"
      using assms(1) Cons.prems by (auto simp: process_warn_string_def enableWarningClass_def suppressWarningClass_def
          split: prod.splits option.splits if_splits)
    with Cons.IH show ?case by (simp add: process_warn_strings_def)
  qed (simp add: process_warn_strings_def)
  moreover have "warn_arg ''no-all'' = (''Warning'', False)" "named_warning ''Warning'' = Some Warning" by code_simp+
  moreover have "issubclass c Warning" "\<not> issubclass Warning MandatoryDeprecatedWarning"
    using assms(1) by (cases c; simp add: issubclass_def)+
  ultimately show ?thesis
    by (simp add: process_warn_strings_def process_warn_string_def suppressWarningClass_def enableWarningClass_def decision_def)
qed

end
