(* ===== verification/Paths.thy ===== *)
theory Paths
  imports Prelude
begin

text \<open>
  The string and path helpers of \<open>SCons/Util.py\<close>: extensions, prefixes and suffixes of file names,
  references to environment variables, and the search-path lists that \<open>PrependPath\<close> and
  \<open>AppendPath\<close> maintain. The functions of \<open>os.path\<close> they call are those of \<open>posixpath\<close>.
\<close>

section \<open>The functions of \<open>os.path\<close>\<close>

abbreviation slash :: char where
  "slash \<equiv> CHR ''/''"

abbreviation dot :: char where
  "dot \<equiv> CHR ''.''"

text \<open>\<open>posixpath.normpath\<close>: the loop over the components and the whole function.\<close>

fun norm_comps :: "bool \<Rightarrow> string list \<Rightarrow> string list \<Rightarrow> string list" where
  "norm_comps rooted new [] = new"
| "norm_comps rooted new (c # cs) =
     (if c = '''' \<or> c = ''.'' then norm_comps rooted new cs
      else if c \<noteq> ''..'' \<or> (\<not> rooted \<and> new = []) \<or> (new \<noteq> [] \<and> last new = ''..'') then norm_comps rooted (new @ [c]) cs
      else norm_comps rooted (butlast new) cs)"

definition initial_slashes :: "string \<Rightarrow> nat" where
  "initial_slashes p = (if prefix ''/'' p then (if prefix ''//'' p \<and> \<not> prefix ''///'' p then 2 else 1) else 0)"

definition normpath :: "string \<Rightarrow> string" where
  "normpath p =
     (if p = '''' then ''.''
      else let n = initial_slashes p;
               r = replicate n slash @ py_join ''/'' (norm_comps (0 < n) [] (py_split ''/'' p))
           in if r = '''' then ''.'' else r)"

definition isabs :: "string \<Rightarrow> bool" where
  "isabs p \<longleftrightarrow> prefix ''/'' p"

text \<open>\<open>posixpath.split\<close> and \<open>posixpath.join\<close> of two components.\<close>

definition path_split :: "string \<Rightarrow> string \<times> string" where
  "path_split p =
     (let i = nat (rfind p slash + 1); head = take i p; tail = drop i p
      in (if head \<noteq> '''' \<and> head \<noteq> replicate (length head) slash then rev (dropWhile ((=) slash) (rev head)) else head, tail))"

definition path_join :: "string \<Rightarrow> string \<Rightarrow> string" where
  "path_join a b = (if prefix ''/'' b then b else if a = '''' \<or> last a = slash then a @ b else a @ [slash] @ b)"

section \<open>Characters and extensions\<close>

text \<open>The functions that return 1 or 0.\<close>

fun containsAny :: "'a list \<Rightarrow> 'a list \<Rightarrow> bool" where
  "containsAny str [] = False"
| "containsAny str (c # cs) = (if c \<in> set str then True else containsAny str cs)"

fun containsAll :: "'a list \<Rightarrow> 'a list \<Rightarrow> bool" where
  "containsAll str [] = True"
| "containsAll str (c # cs) = (if c \<notin> set str then False else containsAll str cs)"

fun containsOnly :: "'a list \<Rightarrow> 'a list \<Rightarrow> bool" where
  "containsOnly [] s = True"
| "containsOnly (c # cs) s = (if c \<notin> set s then False else containsOnly cs s)"

text \<open>\<open>rightmost_separator\<close> where \<open>os.altsep\<close> is \<open>None\<close>, and where it is a character.\<close>

definition rightmost_separator :: "char option \<Rightarrow> string \<Rightarrow> char \<Rightarrow> int" where
  "rightmost_separator altsep path sep = (case altsep of
       None \<Rightarrow> rfind path sep
     | Some a \<Rightarrow> max (rfind path sep) (rfind path a))"

definition splitext :: "char option \<Rightarrow> char \<Rightarrow> string \<Rightarrow> string \<times> string" where
  "splitext altsep os_sep path =
     (let sep = rightmost_separator altsep path os_sep; d = rfind path dot
      in if sep < d \<and> \<not> containsOnly (drop (nat d) path) ''0123456789.''
         then (take (nat d) path, drop (nat d) path) else (path, ''''))"

definition posix_splitext :: "string \<Rightarrow> string \<times> string" where
  "posix_splitext = splitext None slash"

text \<open>\<open>fname[-k:]\<close> for \<open>0 < k\<close>.\<close>

definition last_chars :: "nat \<Rightarrow> string \<Rightarrow> string" where
  "last_chars k s = drop (length s - k) s"

definition adjustixes :: "string \<Rightarrow> string \<Rightarrow> string \<Rightarrow> bool \<Rightarrow> string" where
  "adjustixes fname pre suf ensure_suffix =
     (let f1 = (if pre \<noteq> '''' then
                  let (path, fn) = path_split (normpath fname)
                  in if take (length pre) fn \<noteq> pre then path_join path (pre @ fn) else fname
                else fname)
      in if suf \<noteq> '''' \<and> last_chars (length suf) f1 \<noteq> suf \<and> (ensure_suffix \<or> snd (posix_splitext f1) = '''')
         then f1 @ suf else f1)"

text \<open>
  \<open>make_path_relative\<close>: a POSIX path has no drive, so the expression \<open>/*(.*)\<close> decides: all leading
  slashes go, and what follows a line break.
\<close>

definition make_path_relative :: "string \<Rightarrow> string res" where
  "make_path_relative path =
     (let p = (if isabs path then takeWhile (\<lambda>c. c \<noteq> CHR 0x0A) (dropWhile ((=) slash) path) else path)
      in if isabs p then Inl AssertionError else Inr p)"

section \<open>References to environment variables\<close>

definition is_letter :: "char \<Rightarrow> bool" where
  "is_letter c \<longleftrightarrow> (let n = of_char c :: nat in (97 \<le> n \<and> n \<le> 122) \<or> (65 \<le> n \<and> n \<le> 90) \<or> n = 95)"

definition is_word_char :: "char \<Rightarrow> bool" where
  "is_word_char c \<longleftrightarrow> is_letter c \<or> (let n = of_char c :: nat in 48 \<le> n \<and> n \<le> 57)"

definition is_ident :: "string \<Rightarrow> bool" where
  "is_ident s \<longleftrightarrow> s \<noteq> '''' \<and> is_letter (hd s) \<and> list_all is_word_char (tl s)"

text \<open>The names an expression of Python 2 can refer to.\<close>

definition py_keywords :: "string list" where
  "py_keywords = [''and'', ''as'', ''assert'', ''break'', ''class'', ''continue'', ''def'', ''del'', ''elif'', ''else'',
     ''except'', ''exec'', ''finally'', ''for'', ''from'', ''global'', ''if'', ''import'', ''in'', ''is'', ''lambda'',
     ''not'', ''or'', ''pass'', ''print'', ''raise'', ''return'', ''try'', ''while'', ''with'', ''yield'', ''None'']"

definition py_name :: "string \<Rightarrow> bool" where
  "py_name s \<longleftrightarrow> is_ident s \<and> s \<notin> set py_keywords"

text \<open>The anchor \<open>$\<close> of a regular expression also matches before a line break at the end.\<close>

definition strip_final_newline :: "string \<Rightarrow> string" where
  "strip_final_newline s = (if s \<noteq> '''' \<and> last s = CHR 0x0A then butlast s else s)"

definition get_environment_var :: "string \<Rightarrow> string option" where
  "get_environment_var varstr = (case strip_final_newline varstr of
       c # var \<Rightarrow>
         (if c \<noteq> CHR ''$'' then None
          else if is_ident var then Some var
          else if var \<noteq> '''' \<and> hd var = CHR ''{'' \<and> last var = CHR ''}'' \<and> is_ident (butlast (tl var))
          then Some (butlast (tl var)) else None)
     | [] \<Rightarrow> None)"

section \<open>Search paths\<close>

text \<open>
  The arguments: a string of directories, a list, a tuple, or a single object that stands for a
  directory (given by its path). \<open>norm\<close> is \<open>os.path.normpath(os.path.normcase(p))\<close>.
\<close>

datatype path_arg = PathStr string | PathList "string list" | PathTuple "string list" | PathObj string

fun old_paths :: "string \<Rightarrow> path_arg \<Rightarrow> string list res" where
  "old_paths sep (PathStr s) = Inr (py_split sep s)"
| "old_paths sep (PathList xs) = Inr xs"
| "old_paths sep (PathTuple xs) = Inr xs"
| "old_paths sep (PathObj s) = Inl AttributeError"

definition new_paths :: "string \<Rightarrow> (string \<Rightarrow> string) option \<Rightarrow> path_arg \<Rightarrow> string list" where
  "new_paths sep can arg = map (case can of None \<Rightarrow> id | Some f \<Rightarrow> f) (case arg of
       PathStr s \<Rightarrow> py_split sep s | PathList xs \<Rightarrow> xs | PathTuple xs \<Rightarrow> xs | PathObj s \<Rightarrow> [s])"

text \<open>Whether \<open>paths\<close> and \<open>newpaths\<close> are tuples: \<open>map\<close> and \<open>split\<close> make lists of them.\<close>

fun old_is_tuple :: "path_arg \<Rightarrow> bool" where
  "old_is_tuple (PathTuple xs) = True"
| "old_is_tuple arg = False"

fun new_is_tuple :: "(string \<Rightarrow> string) option \<Rightarrow> path_arg \<Rightarrow> bool" where
  "new_is_tuple None (PathTuple xs) = True"
| "new_is_tuple can arg = False"

text \<open>The loops that add a path unless a path with the same normal form was added before.\<close>

fun add_unique :: "(string \<Rightarrow> string) \<Rightarrow> string list \<Rightarrow> string list \<Rightarrow> string list \<Rightarrow> string list \<times> string list" where
  "add_unique norm result normpaths [] = (result, normpaths)"
| "add_unique norm result normpaths (p # ps) =
     (if p \<noteq> '''' \<and> norm p \<notin> set normpaths then add_unique norm (result @ [p]) (normpaths @ [norm p]) ps
      else add_unique norm result normpaths ps)"

fun insert_unique :: "(string \<Rightarrow> string) \<Rightarrow> string list \<Rightarrow> string list \<Rightarrow> string list \<Rightarrow> string list" where
  "insert_unique norm result normpaths [] = result"
| "insert_unique norm result normpaths (p # ps) =
     (if p \<noteq> '''' \<and> norm p \<notin> set normpaths then insert_unique norm (p # result) (normpaths @ [norm p]) ps
      else insert_unique norm result normpaths ps)"

text \<open>The result is a list when \<open>oldpath\<close> was a list or a tuple, else a string.\<close>

definition path_result :: "string \<Rightarrow> path_arg \<Rightarrow> string list \<Rightarrow> path_arg" where
  "path_result sep oldpath paths = (case oldpath of PathStr s \<Rightarrow> PathStr (py_join sep paths) | _ \<Rightarrow> PathList paths)"

text \<open>
  \<open>PrependPath\<close>: the result, and the argument \<open>newpath\<close> as the call leaves it. Without
  \<open>delete_existing\<close> the list of new paths is reversed in place, and it is the caller's when
  \<open>newpath\<close> is a list and there is no \<open>canonicalize\<close>.
\<close>

definition PrependPath :: "(string \<Rightarrow> string) \<Rightarrow> path_arg \<Rightarrow> path_arg \<Rightarrow> string \<Rightarrow> bool \<Rightarrow> (string \<Rightarrow> string) option \<Rightarrow>
    (path_arg \<times> path_arg) res" where
  "PrependPath norm oldpath newpath sep delete_existing can =
     res_bind (old_paths sep oldpath) (\<lambda>paths.
       let new = new_paths sep can newpath
       in if \<not> delete_existing then
            let (result, normpaths) = add_unique norm [] [] paths
            in if new_is_tuple can newpath then Inl AttributeError
               else let newpath1 = (case (newpath, can) of (PathList xs, None) \<Rightarrow> PathList (rev xs) | _ \<Rightarrow> newpath)
                    in Inr (path_result sep oldpath (insert_unique norm result normpaths (rev new)), newpath1)
          else if new_is_tuple can newpath \<noteq> old_is_tuple oldpath then Inl TypeError
          else Inr (path_result sep oldpath (fst (add_unique norm [] [] (new @ paths))), newpath))"

text \<open>The first loop of \<open>AppendPath\<close> without \<open>delete_existing\<close>.\<close>

definition keep_old :: "(string \<Rightarrow> string) \<Rightarrow> string list \<Rightarrow> string list \<times> string list" where
  "keep_old norm paths = (let result = filter (\<lambda>p. p \<noteq> '''') paths in (result, map norm result))"

definition AppendPath :: "(string \<Rightarrow> string) \<Rightarrow> path_arg \<Rightarrow> path_arg \<Rightarrow> string \<Rightarrow> bool \<Rightarrow> (string \<Rightarrow> string) option \<Rightarrow>
    path_arg res" where
  "AppendPath norm oldpath newpath sep delete_existing can =
     res_bind (old_paths sep oldpath) (\<lambda>paths.
       let new = new_paths sep can newpath
       in if \<not> delete_existing then
            let (result, normpaths) = keep_old norm paths
            in Inr (path_result sep oldpath (fst (add_unique norm result normpaths new)))
          else if new_is_tuple can newpath \<noteq> old_is_tuple oldpath then Inl TypeError
          else if new_is_tuple can newpath then Inl AttributeError
          else Inr (path_result sep oldpath (rev (fst (add_unique norm [] [] (rev (paths @ new)))))))"

section \<open>Splitting strings\<close>

text \<open>\<open>Split\<close> and the class \<open>CLVar\<close>, for strings, lists (or tuples) and other objects.\<close>

datatype 'a split_arg = SplitStr string | SplitList "'a list" | SplitObj 'a

definition Split :: "(string \<Rightarrow> 'a) \<Rightarrow> 'a split_arg \<Rightarrow> 'a list" where
  "Split str arg = (case arg of SplitList xs \<Rightarrow> xs | SplitStr s \<Rightarrow> map str (split_ws s) | SplitObj x \<Rightarrow> [x])"

definition CLVar_init :: "string split_arg \<Rightarrow> string list" where
  "CLVar_init seq = Split id seq"

definition CLVar_add :: "string list \<Rightarrow> string split_arg \<Rightarrow> string list" where
  "CLVar_add self other = self @ CLVar_init other"

definition CLVar_radd :: "string list \<Rightarrow> string split_arg \<Rightarrow> string list" where
  "CLVar_radd self other = CLVar_init other @ self"

definition CLVar_str :: "string list \<Rightarrow> string" where
  "CLVar_str self = py_join '' '' self"

section \<open>Lemmas\<close>

lemma containsAny_iff [simp]: "containsAny str s \<longleftrightarrow> set str \<inter> set s \<noteq> {}"
  by (induction str s rule: containsAny.induct) auto

lemma containsAll_iff [simp]: "containsAll str s \<longleftrightarrow> set s \<subseteq> set str"
  by (induction str s rule: containsAll.induct) auto

lemma containsOnly_iff [simp]: "containsOnly str s \<longleftrightarrow> set str \<subseteq> set s"
  by (induction str s rule: containsOnly.induct) auto

text \<open>The first path of each normal form, leaving out empty ones.\<close>

fun uniq_by :: "(string \<Rightarrow> string) \<Rightarrow> string set \<Rightarrow> string list \<Rightarrow> string list" where
  "uniq_by norm seen [] = []"
| "uniq_by norm seen (p # ps) =
     (if p \<noteq> '''' \<and> norm p \<notin> seen then p # uniq_by norm (insert (norm p) seen) ps else uniq_by norm seen ps)"

fun normal_forms :: "(string \<Rightarrow> string) \<Rightarrow> string list \<Rightarrow> string set" where
  "normal_forms norm [] = {}"
| "normal_forms norm (p # ps) = (if p = '''' then normal_forms norm ps else insert (norm p) (normal_forms norm ps))"

lemma normal_forms_image: "normal_forms norm ps = norm ` {p \<in> set ps. p \<noteq> ''''}"
  by (induction ps) auto

lemma normal_forms_rev [simp]: "normal_forms norm (rev ps) = normal_forms norm ps"
  by (simp add: normal_forms_image)

lemma add_unique_uniq_by:
  "add_unique norm result normpaths ps =
     (result @ uniq_by norm (set normpaths) ps, normpaths @ map norm (uniq_by norm (set normpaths) ps))"
  by (induction norm result normpaths ps rule: add_unique.induct) simp_all

lemma insert_unique_uniq_by:
  "insert_unique norm result normpaths ps = rev (uniq_by norm (set normpaths) ps) @ result"
  by (induction norm result normpaths ps rule: insert_unique.induct) simp_all

lemma uniq_by_norms:
  "distinct (map norm (uniq_by norm seen ps)) \<and> norm ` set (uniq_by norm seen ps) = normal_forms norm ps - seen"
proof (induction norm seen ps rule: uniq_by.induct)
  case (2 norm seen p ps)
  then show ?case by (cases "p \<noteq> '''' \<and> norm p \<notin> seen") auto
qed simp

lemma uniq_by_append:
  "uniq_by norm seen (ps @ qs) = uniq_by norm seen ps @ uniq_by norm (seen \<union> normal_forms norm ps) qs"
proof (induction norm seen ps rule: uniq_by.induct)
  case (2 norm seen p ps)
  consider "p \<noteq> ''''" "norm p \<notin> seen" | "p = ''''" | "p \<noteq> ''''" "norm p \<in> seen" by blast
  then show ?case
  proof cases
    case 3
    then have "seen \<union> normal_forms norm (p # ps) = seen \<union> normal_forms norm ps" by auto
    with 2 3 show ?thesis by (simp del: normal_forms.simps)
  qed (use 2 in auto)
qed simp

lemma uniq_by_seen: "uniq_by norm (seen \<union> X) ps = filter (\<lambda>p. norm p \<notin> X) (uniq_by norm seen ps)"
proof (induction ps arbitrary: seen)
  case (Cons p ps)
  consider "p = '''' \<or> norm p \<in> seen" | "p \<noteq> ''''" "norm p \<notin> seen" "norm p \<in> X"
    | "p \<noteq> ''''" "norm p \<notin> seen" "norm p \<notin> X" by blast
  then show ?case
  proof cases
    case 2
    then have "insert (norm p) seen \<union> X = seen \<union> X" by auto
    with Cons.IH [of "insert (norm p) seen"] 2 show ?thesis by (simp del: Un_insert_left)
  next
    case 3
    with Cons.IH [of "insert (norm p) seen"] show ?thesis by simp
  qed (use Cons.IH [of seen] in auto)
qed simp

lemma uniq_by_outside: "uniq_by norm X ps = filter (\<lambda>p. norm p \<notin> X) (uniq_by norm {} ps)"
  using uniq_by_seen [of norm "{}" X ps] by simp

lemma uniq_by_subset: "set (uniq_by norm seen ps) \<subseteq> set ps"
  by (induction norm seen ps rule: uniq_by.induct) auto

section \<open>Properties of search paths\<close>

text \<open>What the calls should return for lists of old and new paths.\<close>

definition prepended :: "(string \<Rightarrow> string) \<Rightarrow> string list \<Rightarrow> string list \<Rightarrow> string list" where
  "prepended norm old new = uniq_by norm {} new @ filter (\<lambda>p. norm p \<notin> normal_forms norm new) (uniq_by norm {} old)"

definition prepended_kept :: "(string \<Rightarrow> string) \<Rightarrow> string list \<Rightarrow> string list \<Rightarrow> string list" where
  "prepended_kept norm old new =
     rev (filter (\<lambda>p. norm p \<notin> normal_forms norm old) (uniq_by norm {} (rev new))) @ uniq_by norm {} old"

definition appended :: "(string \<Rightarrow> string) \<Rightarrow> string list \<Rightarrow> string list \<Rightarrow> string list" where
  "appended norm old new =
     filter (\<lambda>p. norm p \<notin> normal_forms norm new) (rev (uniq_by norm {} (rev old))) @ rev (uniq_by norm {} (rev new))"

definition appended_kept :: "(string \<Rightarrow> string) \<Rightarrow> string list \<Rightarrow> string list \<Rightarrow> string list" where
  "appended_kept norm old new =
     filter (\<lambda>p. p \<noteq> '''') old @ filter (\<lambda>p. norm p \<notin> normal_forms norm old) (uniq_by norm {} new)"

lemma normal_forms_append [simp]: "normal_forms norm (xs @ ys) = normal_forms norm xs \<union> normal_forms norm ys"
  by (auto simp: normal_forms_image)

lemma set_map_uniq_by: "set (map norm (uniq_by norm {} ps)) = normal_forms norm ps"
  using uniq_by_norms [of norm "{}" ps] by simp

lemma prepended_eq: "prepended norm old new = uniq_by norm {} (new @ old)"
  by (simp add: prepended_def uniq_by_append) (rule uniq_by_outside [symmetric])

lemma appended_eq: "appended norm old new = rev (uniq_by norm {} (rev (old @ new)))"
  by (simp add: appended_def uniq_by_append rev_filter [symmetric] uniq_by_outside [of norm "normal_forms norm new"])

lemma kept_norms:
  assumes "X = normal_forms norm old"
  shows "distinct (map norm (uniq_by norm X new @ uniq_by norm {} old)) \<and>
    norm ` set (uniq_by norm X new @ uniq_by norm {} old) = normal_forms norm (old @ new)"
  using uniq_by_norms [of norm "{}" old] uniq_by_norms [of norm X new] assms by (auto simp: image_Un)

text \<open>
  \<open>PrependPath\<close> on lists, with \<open>delete_existing\<close>: the result is the list of the new paths, the
  first of each normal form, followed by those old paths, the first of each normal form, whose
  normal form is none of the new ones. Without \<open>delete_existing\<close> the old paths stay and come last,
  preceded by the new paths that were not among them. Either way no normal form occurs twice, and
  those that occur are exactly those of the nonempty old and new paths.
\<close>

lemma PrependPath_lists:
  "PrependPath norm (PathList old) (PathList new) sep True None = Inr (PathList (prepended norm old new), PathList new) \<and>
   PrependPath norm (PathList old) (PathList new) sep False None = Inr (PathList (prepended_kept norm old new), PathList (rev new)) \<and>
   distinct (map norm (prepended norm old new)) \<and> distinct (map norm (prepended_kept norm old new)) \<and>
   norm ` set (prepended norm old new) = normal_forms norm (old @ new) \<and>
   norm ` set (prepended_kept norm old new) = normal_forms norm (old @ new)"
proof -
  let ?k = "uniq_by norm (normal_forms norm old) (rev new)"
  have k: "prepended_kept norm old new = rev ?k @ uniq_by norm {} old"
    by (simp add: prepended_kept_def uniq_by_outside [of norm "normal_forms norm old"])
  have "PrependPath norm (PathList old) (PathList new) sep True None = Inr (PathList (prepended norm old new), PathList new)"
    by (simp add: PrependPath_def new_paths_def path_result_def add_unique_uniq_by prepended_eq)
  moreover have "PrependPath norm (PathList old) (PathList new) sep False None =
      Inr (PathList (prepended_kept norm old new), PathList (rev new))"
    using set_map_uniq_by [of norm old]
    by (simp add: PrependPath_def new_paths_def path_result_def add_unique_uniq_by insert_unique_uniq_by k)
  moreover have "distinct (map norm (prepended norm old new)) \<and> norm ` set (prepended norm old new) = normal_forms norm (old @ new)"
    using uniq_by_norms [of norm "{}" "new @ old"] by (simp add: prepended_eq Un_commute)
  moreover have "distinct (map norm (prepended_kept norm old new)) \<and>
      norm ` set (prepended_kept norm old new) = normal_forms norm (old @ new)"
    using kept_norms [OF refl, of norm old "rev new"] by (simp add: k rev_map [symmetric])
  ultimately show ?thesis by simp
qed

text \<open>
  \<open>AppendPath\<close> on lists, with \<open>delete_existing\<close>: the old paths, the last of each normal form,
  without those whose normal form is among the new ones, followed by the new paths, the last of
  each normal form; no normal form occurs twice and none is lost. Without \<open>delete_existing\<close> the
  nonempty old paths all stay and the new paths that were not among them follow, the first of each
  normal form.
\<close>

lemma AppendPath_lists:
  "AppendPath norm (PathList old) (PathList new) sep True None = Inr (PathList (appended norm old new)) \<and>
   AppendPath norm (PathList old) (PathList new) sep False None = Inr (PathList (appended_kept norm old new)) \<and>
   distinct (map norm (appended norm old new)) \<and>
   norm ` set (appended norm old new) = normal_forms norm (old @ new) \<and>
   norm ` set (appended_kept norm old new) = normal_forms norm (old @ new)"
proof -
  have k: "appended_kept norm old new = filter (\<lambda>p. p \<noteq> '''') old @ uniq_by norm (normal_forms norm old) new"
    by (simp add: appended_kept_def uniq_by_outside [of norm "normal_forms norm old"])
  have "set (map norm (filter (\<lambda>p. p \<noteq> '''') old)) = normal_forms norm old" by (auto simp: normal_forms_image)
  then have "AppendPath norm (PathList old) (PathList new) sep False None = Inr (PathList (appended_kept norm old new))"
    by (simp add: AppendPath_def new_paths_def path_result_def keep_old_def Let_def add_unique_uniq_by k)
  moreover have "norm ` set (appended_kept norm old new) = normal_forms norm (old @ new)"
    using uniq_by_norms [of norm "normal_forms norm old" new] by (auto simp: k image_Un normal_forms_image)
  moreover have "AppendPath norm (PathList old) (PathList new) sep True None = Inr (PathList (appended norm old new))"
    by (simp add: AppendPath_def new_paths_def path_result_def add_unique_uniq_by appended_eq)
  moreover have "distinct (map norm (appended norm old new)) \<and> norm ` set (appended norm old new) = normal_forms norm (old @ new)"
    using uniq_by_norms [of norm "{}" "rev (old @ new)"] unfolding appended_eq by (simp add: rev_map [symmetric] Un_commute)
  ultimately show ?thesis by simp
qed

section \<open>Properties of names\<close>

lemma rfind_from_result:
  "rfind_from i r c s = r \<and> c \<notin> set s \<or>
     (\<exists>k < length s. rfind_from i r c s = i + int k \<and> s ! k = c \<and> c \<notin> set (drop (Suc k) s))"
proof (induction i r c s rule: rfind_from.induct)
  case (2 i r c x xs)
  from 2 show ?case
  proof
    assume "rfind_from (i + 1) (if x = c then i else r) c xs = (if x = c then i else r) \<and> c \<notin> set xs"
    then show ?thesis by (cases "x = c") auto
  next
    assume "\<exists>k < length xs. rfind_from (i + 1) (if x = c then i else r) c xs = i + 1 + int k \<and> xs ! k = c \<and> c \<notin> set (drop (Suc k) xs)"
    then obtain k where "k < length xs" "rfind_from (i + 1) (if x = c then i else r) c xs = i + 1 + int k"
      "xs ! k = c" "c \<notin> set (drop (Suc k) xs)" by blast
    then show ?thesis by (intro disjI2 exI [of _ "Suc k"]) simp
  qed
qed simp

lemma rfind_cases:
  obtains (absent) "rfind s c = -1" "c \<notin> set s"
  | (found) k where "rfind s c = int k" "k < length s" "s ! k = c" "c \<notin> set (drop (Suc k) s)"
  using rfind_from_result [of 0 "-1" c s] by (auto simp: rfind_def)

lemma normpath_plain:
  assumes "slash \<notin> set p" "p \<noteq> ''''" shows "normpath p = p"
proof -
  have "\<not> prefix ''/'' p" using assms(1) by (auto simp: prefix_def)
  moreover have "py_split ''/'' p = [p]" using assms(1) by (rule py_split_no_sep)
  ultimately show ?thesis using assms(2) by (auto simp: normpath_def initial_slashes_def)
qed

lemma path_split_plain: "slash \<notin> set p \<Longrightarrow> path_split p = ('''', p)"
  by (cases rule: rfind_cases [of p slash]) (simp_all add: path_split_def, metis nth_mem)

lemma last_chars_suffix: "last_chars (length suf) s = suf \<Longrightarrow> suffix suf s"
  unfolding last_chars_def by (metis suffix_drop)

text \<open>
  \<open>splitext\<close> divides a path without loss: root and extension give the path back; an extension
  that is not empty starts with its only dot, contains no separator, and has a character that is
  neither a digit nor a dot.
\<close>

lemma splitext_roundtrip:
  "fst (posix_splitext path) @ snd (posix_splitext path) = path \<and>
   (snd (posix_splitext path) = '''' \<or>
     (\<exists>ext. snd (posix_splitext path) = dot # ext \<and> dot \<notin> set ext \<and> slash \<notin> set ext \<and> \<not> set ext \<subseteq> set ''0123456789''))"
proof (cases rule: rfind_cases [of path dot])
  case absent
  then have "\<not> rfind path slash < - 1" by (cases rule: rfind_cases [of path slash]) auto
  with absent show ?thesis by (simp add: posix_splitext_def splitext_def rightmost_separator_def)
next
  case (found k)
  then have d: "drop k path = dot # drop (Suc k) path" by (metis Cons_nth_drop_Suc)
  have sl: "slash \<notin> set (drop (Suc k) path)" if "rfind path slash < int k"
  proof (cases rule: rfind_cases [of path slash])
    case absent
    then show ?thesis by (meson in_set_dropD)
  next
    case (found j)
    with that have "Suc j \<le> Suc k" by simp
    with found show ?thesis by (meson set_drop_subset_set_drop subsetD)
  qed
  obtain D where D: "D = set ''0123456789''" by blast
  have D1: "set ''0123456789.'' = insert dot D" unfolding D by (simp add: insert_commute)
  have "insert dot A \<subseteq> insert dot D \<longleftrightarrow> A \<subseteq> D" if "dot \<notin> A" for A using that by auto
  from this [OF found(4)] have sub: "set (drop k path) \<subseteq> insert dot D \<longleftrightarrow> set (drop (Suc k) path) \<subseteq> D"
    by (simp only: d list.set)
  have "posix_splitext path = (if rfind path slash < int k \<and> \<not> set (drop k path) \<subseteq> insert dot D
      then (take k path, drop k path) else (path, ''''))"
    using found(1) by (simp only: posix_splitext_def splitext_def rightmost_separator_def Let_def containsOnly_iff nat_int
        option.case D1)
  moreover have "take k path @ dot # drop (Suc k) path = path" by (metis append_take_drop_id d)
  ultimately show ?thesis
    using found(4) d sl sub unfolding D [symmetric]
    by (cases "rfind path slash < int k \<and> \<not> set (drop k path) \<subseteq> insert dot D") simp_all
qed

text \<open>
  \<open>get_environment_var\<close> recognises exactly the references to a single variable: it returns the
  name \<open>v\<close> if and only if \<open>v\<close> is an identifier and the string is \<open>$v\<close> or \<open>${v}\<close>, possibly followed by
  one line break.
\<close>

lemma get_environment_var_iff:
  "get_environment_var s = Some v \<longleftrightarrow>
     is_ident v \<and> strip_final_newline s \<in> {CHR ''$'' # v, CHR ''$'' # CHR ''{'' # v @ ''}''}"
proof -
  have brace: "\<not> is_ident (CHR ''{'' # x)" for x by (simp add: is_ident_def is_letter_def)
  have split: "var \<noteq> '''' \<and> hd var = CHR ''{'' \<and> last var = CHR ''}'' \<and> is_ident (butlast (tl var)) \<longleftrightarrow>
      (\<exists>x. var = CHR ''{'' # x @ ''}'' \<and> is_ident x)" for var
  proof (cases var)
    case (Cons c cs)
    then show ?thesis by (cases cs rule: rev_cases) (auto simp: is_ident_def)
  qed simp
  show ?thesis
  proof (cases "strip_final_newline s")
    case (Cons c var)
    then show ?thesis
      by (auto simp: get_environment_var_def split brace split: if_splits)
  qed (auto simp: get_environment_var_def)
qed

text \<open>
  \<open>make_path_relative\<close> never fails its assertion and never returns an absolute path; a path
  without line breaks is its result with slashes in front, and a relative path is left alone.
\<close>

lemma make_path_relative_ok:
  "\<exists>p. make_path_relative path = Inr p \<and> \<not> isabs p \<and> (\<not> isabs path \<longrightarrow> p = path) \<and>
     (CHR 0x0A \<notin> set path \<longrightarrow> (\<exists>k. path = replicate k slash @ p))"
proof (cases "isabs path")
  case True
  let ?q = "dropWhile ((=) slash) path"
  let ?p = "takeWhile (\<lambda>c. c \<noteq> CHR 0x0A) ?q"
  have n: "\<not> isabs ?p"
  proof
    assume "isabs ?p"
    then obtain r where "?p = slash # r" by (auto simp: isabs_def prefix_def)
    then obtain r' where q: "?q = slash # r'" by (cases ?q) (auto split: if_splits)
    then have "?q \<noteq> []" by simp
    from hd_dropWhile [OF this] show False by (simp add: q)
  qed
  have "?p = ?q" if "CHR 0x0A \<notin> set path"
    using that by (auto simp: takeWhile_eq_all_conv dest: set_dropWhileD)
  moreover have "path = replicate (length (takeWhile ((=) slash) path)) slash @ ?q"
  proof -
    have "takeWhile ((=) slash) path = replicate (length (takeWhile ((=) slash) path)) slash"
      by (rule replicate_eqI) (auto dest: set_takeWhileD)
    then show ?thesis by (metis takeWhile_dropWhile_id)
  qed
  moreover have "make_path_relative path = Inr ?p" using True n by (simp add: make_path_relative_def Let_def)
  ultimately show ?thesis using True n by metis
next
  case False
  then show ?thesis by (auto simp: make_path_relative_def intro!: exI [of _ 0])
qed

text \<open>
  \<open>adjustixes\<close> applied to a file name (not empty, without separators) returns a name that starts
  with the prefix, and with \<open>ensure_suffix\<close> one that ends in the suffix, whether or not they were
  there before.
\<close>

lemma adjustixes_affixes:
  assumes "slash \<notin> set fname" "fname \<noteq> ''''"
  shows "prefix pre (adjustixes fname pre suf b) \<and> suffix suf (adjustixes fname pre suf True)"
proof -
  have p: "path_split (normpath fname) = ('''', fname)"
    by (simp add: normpath_plain [OF assms] path_split_plain [OF assms(1)])
  have t: "prefix pre fname" if "take (length pre) fname = pre" using that by (metis take_is_prefix)
  let ?f = "if pre = '''' \<or> take (length pre) fname = pre then fname else path_join '''' (pre @ fname)"
  have a: "adjustixes fname pre suf e = ?f \<or> adjustixes fname pre suf e = ?f @ suf" for e
    by (simp add: adjustixes_def p Let_def)
  have 1: "prefix pre ?f" using t by (auto simp: path_join_def)
  note 2 = prefix_prefix [OF 1, of suf]
  from 1 2 have "prefix pre (adjustixes fname pre suf b)" using a [of b] by (elim disjE) (simp_all only:)
  moreover have "suffix suf (adjustixes fname pre suf True)"
    by (simp add: adjustixes_def p Let_def last_chars_suffix suffix_appendI)
  ultimately show ?thesis by simp
qed

end
