(* ===== verification/SConsign.thy ===== *)
theory SConsign
  imports Dblite
begin

text \<open>
  \<open>SCons/SConsign.py\<close>: the signatures of a build, kept per directory (class \<open>Base\<close>) and stored either in
  one database for the whole tree (class \<open>DB\<close>, over the database of theory \<open>Dblite\<close>) or in a file of each
  directory (class \<open>DirFile\<close>). The theory shows that what one run of the program stores is what the next
  one reads, for every directory, and that directories of a repository are only read.
\<close>

section \<open>The surroundings\<close>

text \<open>
  The attribute dictionaries of \<open>NodeInfo\<close> and \<open>BuildInfo\<close> objects, with \<open>merge\<close>
  (\<open>self.__dict__.update(other.__dict__)\<close>), and the entry of a file. Nodes made by \<open>SConf\<close> have no
  \<open>ninfo\<close>.
\<close>

type_synonym attrs = "(string \<times> string) list"

definition attrs_merge :: "attrs \<Rightarrow> attrs \<Rightarrow> attrs" where
  "attrs_merge self other = fold (\<lambda>(k, v). AList.update k v) other self"

record sc_entry =
  e_binfo :: attrs
  e_ninfo :: "attrs option"

type_synonym sc_entries = "(string \<times> sc_entry) list"

text \<open>
  What comes from elsewhere: \<open>cPickle\<close> on dictionaries of entries (a pickle may hold something that is
  no dictionary: \<open>None\<close>), the conversion methods of \<open>BuildInfo\<close> subclasses, the directory nodes (named
  by numbers, with the top directory of the build and its repositories) and the information nodes
  have about themselves.
\<close>

record sc_env =
  db_config :: config
  edumps :: "sc_entries \<Rightarrow> string"
  eloads :: "string \<Rightarrow> sc_entries option res"
  binfo_to_sconsign :: "attrs \<Rightarrow> attrs"
  binfo_from_sconsign :: "nat \<Rightarrow> string \<Rightarrow> attrs \<Rightarrow> attrs"
  Top :: nat
  repositories :: "nat list"
  is_under :: "nat \<Rightarrow> nat \<Rightarrow> bool"
  entry_abspath :: "nat \<Rightarrow> string \<Rightarrow> string"
  dir_path :: "nat \<Rightarrow> string"
  dir_tpath :: "nat \<Rightarrow> string"
  node_binfo :: "nat \<Rightarrow> attrs"
  node_ninfo :: "nat \<Rightarrow> attrs"

definition convert_to_sconsign :: "sc_env \<Rightarrow> sc_entry \<Rightarrow> sc_entry" where
  "convert_to_sconsign V e = e\<lparr>e_binfo := binfo_to_sconsign V (e_binfo e)\<rparr>"

definition convert_from_sconsign :: "sc_env \<Rightarrow> nat \<Rightarrow> string \<Rightarrow> sc_entry \<Rightarrow> sc_entry" where
  "convert_from_sconsign V d name e = e\<lparr>e_binfo := binfo_from_sconsign V d name (e_binfo e)\<rparr>"

section \<open>The collections of entries\<close>

text \<open>
  \<open>Base\<close> and its subclass \<open>DB\<close>. \<open>read_only\<close>: the methods \<open>set_entry\<close> and \<open>store_info\<close> have been
  replaced by \<open>do_not_set_entry\<close> and \<open>do_not_store_info\<close>.
\<close>

record sig_file =
  sig_dir :: nat
  entries :: sc_entries
  dirty :: bool
  to_be_merged :: "(string \<times> nat) list"
  read_only :: bool

definition Base_init :: "nat \<Rightarrow> sig_file" where
  "Base_init d = \<lparr>sig_dir = d, entries = [], dirty = False, to_be_merged = [], read_only = False\<rparr>"

definition get_entry :: "string \<Rightarrow> sig_file \<Rightarrow> sc_entry res" where
  "get_entry filename f = (case map_of (entries f) filename of None \<Rightarrow> Inl (KeyError filename) | Some e \<Rightarrow> Inr e)"

definition set_entry :: "string \<Rightarrow> sc_entry \<Rightarrow> sig_file \<Rightarrow> sig_file" where
  "set_entry filename e f =
     (if read_only f then f else f\<lparr>entries := AList.update filename e (entries f), dirty := True\<rparr>)"

text \<open>The entries that nodes have memoized (\<open>get_stored_info\<close>) are objects the methods update.\<close>

definition store_info :: "sc_env \<Rightarrow> string \<Rightarrow> nat \<Rightarrow> sig_file \<Rightarrow> (nat \<Rightarrow> sc_entry) \<Rightarrow> sig_file \<times> (nat \<Rightarrow> sc_entry)" where
  "store_info V filename n f st =
     (if read_only f then (f, st)
      else (f\<lparr>to_be_merged := AList.update filename n (to_be_merged f), dirty := True\<rparr>,
            st(n := (st n)\<lparr>e_binfo := attrs_merge (e_binfo (st n)) (node_binfo V n)\<rparr>)))"

fun merge_loop :: "sc_env \<Rightarrow> (string \<times> nat) list \<Rightarrow> sc_entries \<Rightarrow> (nat \<Rightarrow> sc_entry) \<Rightarrow> sc_entries \<times> (nat \<Rightarrow> sc_entry)" where
  "merge_loop V [] es st = (es, st)"
| "merge_loop V ((key, n) # rest) es st =
     (let e = (case e_ninfo (st n) of
                 None \<Rightarrow> st n
               | Some ni \<Rightarrow> (st n)\<lparr>e_ninfo := Some (attrs_merge ni (node_ninfo V n))\<rparr>)
      in merge_loop V rest (AList.update key e es) (st(n := e)))"

definition merge :: "sc_env \<Rightarrow> sig_file \<Rightarrow> (nat \<Rightarrow> sc_entry) \<Rightarrow> sig_file \<times> (nat \<Rightarrow> sc_entry)" where
  "merge V f st = (let (es, st1) = merge_loop V (to_be_merged f) (entries f) st
     in (f\<lparr>entries := es, to_be_merged := []\<rparr>, st1))"

section \<open>The global database\<close>

text \<open>
  The variables of the module, with the heap of database objects that \<open>DataBase\<close> and
  \<open>DB_sync_list\<close> refer to by index, the disk, the memoized entries and the warnings given.
\<close>

record sconsign =
  disk :: world
  dbs :: "dblite list"
  DataBase :: "(nat \<times> nat) list"
  DB_Name :: string
  DB_sync_list :: "nat list"
  sig_files :: "sig_file list"
  stored :: "nat \<Rightarrow> sc_entry"
  corrupt_warnings :: "string list"

text \<open>\<open>DB_Module.open\<close>, with the assignment to \<open>DataBase[d]\<close> when it succeeds.\<close>

definition open_db :: "sc_env \<Rightarrow> nat \<Rightarrow> string \<Rightarrow> char \<Rightarrow> sconsign \<Rightarrow> sconsign \<times> nat res" where
  "open_db V d path md s = (case dblite_open (db_config V) path (Some md) 438 (disk s) of
       (w, Inl x) \<Rightarrow> (s\<lparr>disk := w\<rparr>, Inl x)
     | (w, Inr db) \<Rightarrow> (s\<lparr>disk := w, dbs := dbs s @ [db], DataBase := AList.update d (length (dbs s)) (DataBase s)\<rparr>,
         Inr (length (dbs s))))"

fun search_databases :: "sc_env \<Rightarrow> nat \<Rightarrow> (nat \<times> char) list \<Rightarrow> sconsign \<Rightarrow> sconsign \<times> (nat \<times> char) option res" where
  "search_databases V dir [] s = (s, Inr None)"
| "search_databases V dir ((d, md) # rest) s =
     (if is_under V dir d then
        (case map_of (DataBase s) d of
           Some i \<Rightarrow> (s, Inr (Some (i, md)))
         | None \<Rightarrow> (case open_db V d (entry_abspath V d (DB_Name s)) md s of
               (s1, Inl x) \<Rightarrow> if is_os_error x then search_databases V dir rest s1 else (s1, Inl x)
             | (s1, Inr i) \<Rightarrow>
                 ((if md \<noteq> CHR ''r'' then s1\<lparr>DB_sync_list := DB_sync_list s1 @ [i]\<rparr> else s1), Inr (Some (i, md)))))
      else search_databases V dir rest s)"

definition Get_DataBase :: "sc_env \<Rightarrow> nat \<Rightarrow> sconsign \<Rightarrow> sconsign \<times> (nat \<times> char) res" where
  "Get_DataBase V dir s =
     (let (s1, r) = (if \<not> isabs (DB_Name s) \<and> repositories V \<noteq> []
                     then search_databases V dir ((Top V, CHR ''c'') # map (\<lambda>d. (d, CHR ''r'')) (repositories V)) s
                     else (s, Inr None))
      in case r of
          Inl x \<Rightarrow> (s1, Inl x)
        | Inr (Some y) \<Rightarrow> (s1, Inr y)
        | Inr None \<Rightarrow> (case map_of (DataBase s1) (Top V) of
              Some i \<Rightarrow> (s1, Inr (i, CHR ''c''))
            | None \<Rightarrow> (case open_db V (Top V) (DB_Name s1) (CHR ''c'') s1 of
                  (s2, Inl x) \<Rightarrow> (s2, Inl x)
                | (s2, Inr i) \<Rightarrow> (s2\<lparr>DB_sync_list := DB_sync_list s2 @ [i]\<rparr>, Inr (i, CHR ''c'')))))"

definition Reset :: "sconsign \<Rightarrow> sconsign" where
  "Reset s = s\<lparr>sig_files := [], DB_sync_list := []\<rparr>"

text \<open>
  \<open>DB.__init__\<close>: whatever the pickle of the directory raises is caught and reported, except an
  interrupt. \<open>normcase\<close> is the identity on POSIX.
\<close>

definition read_entries :: "sc_env \<Rightarrow> nat \<Rightarrow> string \<Rightarrow> sc_entries res" where
  "read_entries V d raw = (case eloads V raw of
       Inl x \<Rightarrow> Inl x
     | Inr None \<Rightarrow> Inl TypeError
     | Inr (Some es) \<Rightarrow> Inr (map (\<lambda>(k, e). (k, convert_from_sconsign V d k e)) es))"

definition DB_init :: "sc_env \<Rightarrow> nat \<Rightarrow> sconsign \<Rightarrow> sconsign \<times> sig_file res" where
  "DB_init V d s = (case Get_DataBase V d s of
       (s1, Inl x) \<Rightarrow> (s1, Inl x)
     | (s1, Inr (i, md)) \<Rightarrow>
        (let (s2, es) = (case db_getitem (dbs s1 ! i) (dir_tpath V d) of
                 Inl _ \<Rightarrow> (s1, [])
               | Inr raw \<Rightarrow> (case read_entries V d raw of
                     Inl x \<Rightarrow> (s1\<lparr>corrupt_warnings := corrupt_warnings s1 @ [dir_tpath V d]\<rparr>, [])
                   | Inr es \<Rightarrow> (s1, es)));
             f = (Base_init d)\<lparr>entries := es, read_only := (md = CHR ''r'')\<rparr>
         in (s2\<lparr>sig_files := sig_files s2 @ [f]\<rparr>, Inr f)))"

text \<open>\<open>DB.write\<close> for the file with index \<open>j\<close>: \<open>dirty\<close> is left as it is, the entries stay converted.\<close>

definition set_db :: "nat \<Rightarrow> dblite \<Rightarrow> sconsign \<Rightarrow> sconsign" where
  "set_db i db s = s\<lparr>dbs := (dbs s)[i := db]\<rparr>"

definition sync_db :: "sc_env \<Rightarrow> nat \<Rightarrow> sconsign \<Rightarrow> sconsign \<times> py_exc option" where
  "sync_db V i s = (case sync (db_config V) (dbs s ! i) (disk s) of
     (w, db, x) \<Rightarrow> ((set_db i db s)\<lparr>disk := w\<rparr>, x))"

definition DB_write :: "sc_env \<Rightarrow> bool \<Rightarrow> nat \<Rightarrow> sconsign \<Rightarrow> sconsign \<times> py_exc option" where
  "DB_write V do_sync j s =
     (if \<not> dirty (sig_files s ! j) then (s, None)
      else let (f, st) = merge V (sig_files s ! j) (stored s);
               s1 = s\<lparr>sig_files := (sig_files s)[j := f], stored := st\<rparr>
           in case Get_DataBase V (sig_dir f) s1 of
               (s2, Inl x) \<Rightarrow> (s2, Some x)
             | (s2, Inr (i, md)) \<Rightarrow>
                (let f1 = f\<lparr>entries := map (\<lambda>(k, e). (k, convert_to_sconsign V e)) (entries f)\<rparr>;
                     s3 = s2\<lparr>sig_files := (sig_files s2)[j := f1]\<rparr>
                 in case db_setitem (dbs s3 ! i) (Str (dir_path V (sig_dir f))) (Str (edumps V (entries f1))) of
                     Inl x \<Rightarrow> (s3, Some x)
                   | Inr db \<Rightarrow> (let s4 = set_db i db s3 in if do_sync then sync_db V i s4 else (s4, None))))"

text \<open>The function \<open>write\<close> of the module, called at the end of a build.\<close>

fun run_all :: "(nat \<Rightarrow> sconsign \<Rightarrow> sconsign \<times> py_exc option) \<Rightarrow> nat list \<Rightarrow> sconsign \<Rightarrow> sconsign \<times> py_exc option" where
  "run_all f [] s = (s, None)"
| "run_all f (i # is) s = (case f i s of (s1, Some x) \<Rightarrow> (s1, Some x) | (s1, None) \<Rightarrow> run_all f is s1)"

definition sc_write :: "sc_env \<Rightarrow> sconsign \<Rightarrow> sconsign \<times> py_exc option" where
  "sc_write V s = (case run_all (DB_write V False) [0..<length (sig_files s)] s of
       (s1, Some x) \<Rightarrow> (s1, Some x)
     | (s1, None) \<Rightarrow> run_all (sync_db V) (DB_sync_list s1) s1)"

section \<open>Merging\<close>

lemma map_add_absorb [simp]: "m ++ m' ++ m' = m ++ m'"
  by (auto simp: fun_eq_iff map_add_def split: option.split)

lemma map_of_attrs_merge: "map_of (attrs_merge a b) = map_of a ++ map_of (rev b)"
  by (induction b arbitrary: a) (auto simp: attrs_merge_def update_conv' fun_eq_iff map_add_def split: option.split)

text \<open>
  What can be seen of an entry: its build information, and the signatures as a map. \<open>merged_ninfo\<close>
  are the signatures a node's entry has once those of the node are merged in.
\<close>

definition ninfo_view :: "sc_entry \<Rightarrow> (string \<rightharpoonup> string) option" where
  "ninfo_view e = map_option map_of (e_ninfo e)"

definition merged_ninfo :: "sc_env \<Rightarrow> nat \<Rightarrow> sc_entry \<Rightarrow> (string \<rightharpoonup> string) option" where
  "merged_ninfo V n e = map_option (\<lambda>ni. map_of ni ++ map_of (rev (node_ninfo V n))) (e_ninfo e)"

definition same_info :: "sc_env \<Rightarrow> (nat \<Rightarrow> sc_entry) \<Rightarrow> (nat \<Rightarrow> sc_entry) \<Rightarrow> bool" where
  "same_info V st st' \<longleftrightarrow> (\<forall>n. e_binfo (st' n) = e_binfo (st n) \<and> merged_ninfo V n (st' n) = merged_ninfo V n (st n))"

text \<open>The entry that should be stored under a file name.\<close>

definition expected :: "sc_env \<Rightarrow> (nat \<Rightarrow> sc_entry) \<Rightarrow> sig_file \<Rightarrow> string \<Rightarrow> (attrs \<times> (string \<rightharpoonup> string) option) option" where
  "expected V st f k = (case map_of (to_be_merged f) k of
       Some n \<Rightarrow> Some (e_binfo (st n), merged_ninfo V n (st n))
     | None \<Rightarrow> map_option (\<lambda>e. (e_binfo e, ninfo_view e)) (map_of (entries f) k))"

lemma expected_same_info: "same_info V st st' \<Longrightarrow> expected V st' f k = expected V st f k"
  by (auto simp: expected_def same_info_def split: option.split)

lemma same_info_trans: "same_info V st st' \<Longrightarrow> same_info V st' st'' \<Longrightarrow> same_info V st st''"
  by (simp add: same_info_def)

lemma merge_loop_ok:
  assumes "merge_loop V tm es st = (es', st')" "distinct (map fst tm)"
  shows "same_info V st st' \<and> map_option (\<lambda>e. (e_binfo e, ninfo_view e)) (map_of es' k) =
    (case map_of tm k of Some n \<Rightarrow> Some (e_binfo (st n), merged_ninfo V n (st n))
     | None \<Rightarrow> map_option (\<lambda>e. (e_binfo e, ninfo_view e)) (map_of es k))"
  using assms
proof (induction V tm es st rule: merge_loop.induct)
  case (2 V key n rest es st)
  define e where "e = (case e_ninfo (st n) of None \<Rightarrow> st n
    | Some ni \<Rightarrow> (st n)\<lparr>e_ninfo := Some (attrs_merge ni (node_ninfo V n))\<rparr>)"
  have e: "e_binfo e = e_binfo (st n)" "ninfo_view e = merged_ninfo V n (st n)" "merged_ninfo V n e = merged_ninfo V n (st n)"
    by (auto simp: e_def ninfo_view_def merged_ninfo_def map_of_attrs_merge split: option.split)
  have 1: "same_info V st (st(n := e))" using e by (simp add: same_info_def)
  from "2.prems" have r: "merge_loop V rest (AList.update key e es) (st(n := e)) = (es', st')" "distinct (map fst rest)"
    by (simp_all add: e_def Let_def)
  note IH = "2.IH" [OF refl, folded e_def, OF r]
  have s: "(case map_of rest k of Some n' \<Rightarrow> Some (e_binfo ((st(n := e)) n'), merged_ninfo V n' ((st(n := e)) n')) | None \<Rightarrow> x) =
    (case map_of rest k of Some n' \<Rightarrow> Some (e_binfo (st n'), merged_ninfo V n' (st n')) | None \<Rightarrow> x)" for x
    using e by (auto split: option.split)
  have n: "map_of rest key = None" using "2.prems"(2) by (simp add: map_of_eq_None_iff)
  have "map_option (\<lambda>e. (e_binfo e, ninfo_view e)) (map_of es' k) =
    (case map_of rest k of Some n' \<Rightarrow> Some (e_binfo (st n'), merged_ninfo V n' (st n'))
     | None \<Rightarrow> map_option (\<lambda>e. (e_binfo e, ninfo_view e)) (map_of (AList.update key e es) k))"
    using IH [THEN conjunct2] unfolding s .
  also have "\<dots> = (case map_of ((key, n) # rest) k of Some n' \<Rightarrow> Some (e_binfo (st n'), merged_ninfo V n' (st n'))
     | None \<Rightarrow> map_option (\<lambda>e. (e_binfo e, ninfo_view e)) (map_of es k))"
    using n e by (cases "k = key"; cases "map_of rest k") (simp_all add: update_conv')
  finally show ?case using same_info_trans [OF 1 IH [THEN conjunct1]] by simp
qed (simp add: same_info_def)

lemma merge_ok:
  assumes "merge V f st = (f', st')" "distinct (map fst (to_be_merged f))"
  shows "same_info V st st'" "map_option (\<lambda>e. (e_binfo e, ninfo_view e)) (map_of (entries f') k) = expected V st f k"
    "sig_dir f' = sig_dir f" "to_be_merged f' = []" "dirty f' = dirty f" "read_only f' = read_only f"
proof -
  obtain es st1 where m: "merge_loop V (to_be_merged f) (entries f) st = (es, st1)" by fastforce
  then have f: "f' = f\<lparr>entries := es, to_be_merged := []\<rparr>" "st' = st1" using assms(1) by (simp_all add: merge_def)
  from merge_loop_ok [OF m assms(2)] f
  show "same_info V st st'" "map_option (\<lambda>e. (e_binfo e, ninfo_view e)) (map_of (entries f') k) = expected V st f k"
    "sig_dir f' = sig_dir f" "to_be_merged f' = []" "dirty f' = dirty f" "read_only f' = read_only f"
    by (simp_all add: expected_def)
qed

section \<open>One run of the program\<close>

text \<open>
  A run starts with an empty module and a disk, opens the collections of directories, and sets or
  stores entries in them.
\<close>

definition new_process :: "world \<Rightarrow> string \<Rightarrow> (nat \<Rightarrow> sc_entry) \<Rightarrow> sconsign" where
  "new_process w name st = \<lparr>disk = w, dbs = [], DataBase = [], DB_Name = name, DB_sync_list = [], sig_files = [],
     stored = st, corrupt_warnings = []\<rparr>"

definition set_entry_at :: "nat \<Rightarrow> string \<Rightarrow> sc_entry \<Rightarrow> sconsign \<Rightarrow> sconsign" where
  "set_entry_at j k e s = s\<lparr>sig_files := (sig_files s)[j := set_entry k e (sig_files s ! j)]\<rparr>"

definition store_info_at :: "sc_env \<Rightarrow> nat \<Rightarrow> string \<Rightarrow> nat \<Rightarrow> sconsign \<Rightarrow> sconsign" where
  "store_info_at V j k n s = (let (f, st) = store_info V k n (sig_files s ! j) (stored s)
     in s\<lparr>sig_files := (sig_files s)[j := f], stored := st\<rparr>)"

inductive session :: "sc_env \<Rightarrow> world \<Rightarrow> string \<Rightarrow> (nat \<Rightarrow> sc_entry) \<Rightarrow> sconsign \<Rightarrow> bool" for V w name st where
  session_start: "session V w name st (new_process w name st)"
| session_open: "session V w name st s \<Longrightarrow> DB_init V d s = (s', Inr f) \<Longrightarrow> session V w name st s'"
| session_set: "session V w name st s \<Longrightarrow> j < length (sig_files s) \<Longrightarrow> session V w name st (set_entry_at j k e s)"
| session_store: "session V w name st s \<Longrightarrow> j < length (sig_files s) \<Longrightarrow> session V w name st (store_info_at V j k n s)"

text \<open>Without repositories there is one database, open for writing, once a directory has been opened.\<close>

definition one_db :: "sc_env \<Rightarrow> sconsign \<Rightarrow> bool" where
  "one_db V s \<longleftrightarrow> DataBase s = [(Top V, 0)] \<and> DB_sync_list s = [0] \<and>
     (\<exists>db. dbs s = [db] \<and> opened (DB_Name s) db (disk s) \<and> flag db = CHR ''c'')"

definition session_ok :: "sc_env \<Rightarrow> string \<Rightarrow> sconsign \<Rightarrow> bool" where
  "session_ok V name s \<longleftrightarrow> DB_Name s = name \<and>
     (one_db V s \<or> dbs s = [] \<and> DataBase s = [] \<and> DB_sync_list s = [] \<and> sig_files s = []) \<and>
     (\<forall>f \<in> set (sig_files s). distinct (map fst (to_be_merged f)))"

lemma Get_DataBase_one:
  assumes "repositories V = []" "one_db V s"
  shows "Get_DataBase V d s = (s, Inr (0, CHR ''c''))"
  using assms by (simp add: Get_DataBase_def one_db_def)

lemma Get_DataBase_first:
  assumes "repositories V = []" "dbs s = []" "DataBase s = []" "DB_sync_list s = []" "Get_DataBase V d s = (s1, Inr y)"
  shows "one_db V s1 \<and> y = (0, CHR ''c'') \<and> DB_Name s1 = DB_Name s \<and> sig_files s1 = sig_files s"
proof -
  obtain w r where o: "dblite_open (db_config V) (DB_Name s) (Some CHR ''c'') 438 (disk s) = (w, r)" by fastforce
  with assms obtain db where r: "r = Inr db"
    by (cases r) (simp_all add: Get_DataBase_def open_db_def)
  with assms o dblite_open_opened [OF o [unfolded r]] show ?thesis
    by (auto simp: Get_DataBase_def open_db_def one_db_def)
qed

lemma session_ok_DB_init:
  assumes "repositories V = []" "session_ok V name s" "DB_init V d s = (s', Inr f)"
  shows "session_ok V name s'"
proof -
  obtain s1 i md where g: "Get_DataBase V d s = (s1, Inr (i, md))"
    using assms(3) by (auto simp: DB_init_def split: prod.splits sum.splits)
  have 1: "one_db V s1 \<and> DB_Name s1 = name \<and> sig_files s1 = sig_files s"
    using assms(2) Get_DataBase_one [OF assms(1), of s d] Get_DataBase_first [OF assms(1) _ _ _ g] g
    by (auto simp: session_ok_def)
  obtain c where "s' = s1\<lparr>corrupt_warnings := c, sig_files := sig_files s1 @ [f]\<rparr> \<and> to_be_merged f = []"
  proof -
    have "\<exists>c. s' = s1\<lparr>corrupt_warnings := c, sig_files := sig_files s1 @ [f]\<rparr> \<and> to_be_merged f = []"
      using assms(3) by (auto simp: DB_init_def g Let_def Base_init_def split: sum.splits prod.splits) (metis sconsign.surjective sconsign.update_convs(8))+
    with that show ?thesis by blast
  qed
  with 1 assms(2) show ?thesis by (auto simp: session_ok_def one_db_def)
qed

lemma distinct_to_be_merged: "distinct (map fst (to_be_merged f)) \<Longrightarrow> distinct (map fst (to_be_merged (fst (store_info V k n f st))))"
  by (simp add: store_info_def distinct_update)

lemma session_inv:
  assumes "session V w name st s" "repositories V = []"
  shows "session_ok V name s"
  using assms(1)
proof induction
  case session_start
  then show ?case by (simp add: session_ok_def new_process_def)
next
  case (session_open s d s' f)
  then show ?case by (blast intro: session_ok_DB_init [OF assms(2)])
next
  case (session_set s j k e)
  then have "distinct (map fst (to_be_merged (set_entry k e (sig_files s ! j))))"
    by (auto simp: session_ok_def set_entry_def)
  with session_set show ?case
    by (auto simp: session_ok_def set_entry_at_def one_db_def dest!: set_update_subset_insert [THEN subsetD])
next
  case (session_store s j k n)
  then have "distinct (map fst (to_be_merged (fst (store_info V k n (sig_files s ! j) (stored s)))))"
    by (intro distinct_to_be_merged) (auto simp: session_ok_def)
  with session_store show ?case
    by (auto simp: session_ok_def store_info_at_def one_db_def split: prod.splits dest!: set_update_subset_insert [THEN subsetD])
qed

section \<open>Writing\<close>

definition entry_view :: "sc_entries \<Rightarrow> string \<Rightarrow> (attrs \<times> (string \<rightharpoonup> string) option) option" where
  "entry_view es k = map_option (\<lambda>e. (e_binfo e, ninfo_view e)) (map_of es k)"

lemma entry_view_map:
  assumes "\<And>e. ninfo_view (g k e) = ninfo_view e" "\<And>e. e_binfo (g k e) = b (e_binfo e)"
  shows "entry_view (map (\<lambda>(k, e). (k, g k e)) es) k = map_option (\<lambda>(x, ni). (b x, ni)) (entry_view es k)"
  using assms by (induction es) (auto simp: entry_view_def)

definition the_db :: "sconsign \<Rightarrow> dict" where
  "the_db s = db_dict (dbs s ! 0)"

lemma DB_write_one:
  assumes "repositories V = []" "one_db V s" "j < length (sig_files s)" "distinct (map fst (to_be_merged (sig_files s ! j)))"
    "dirty (sig_files s ! j)"
  obtains s' f es where "DB_write V False j s = (s', None)" "one_db V s'" "disk s' = disk s" "DB_Name s' = DB_Name s"
    "sig_files s' = (sig_files s)[j := f]" "same_info V (stored s) (stored s')"
    "the_db s' = AList.update (dir_path V (sig_dir (sig_files s ! j))) (edumps V es) (the_db s)"
    "\<And>k. entry_view es k = map_option (\<lambda>(b, ni). (binfo_to_sconsign V b, ni)) (expected V (stored s) (sig_files s ! j) k)"
proof -
  obtain f st where m: "merge V (sig_files s ! j) (stored s) = (f, st)" by fastforce
  note mo = merge_ok [OF m assms(4)]
  let ?s1 = "s\<lparr>sig_files := (sig_files s)[j := f], stored := st\<rparr>"
  let ?es = "map (\<lambda>(k, e). (k, convert_to_sconsign V e)) (entries f)" and ?f = "f\<lparr>entries := map (\<lambda>(k, e). (k, convert_to_sconsign V e)) (entries f)\<rparr>"
  obtain db where db: "dbs s = [db]" "opened (DB_Name s) db (disk s)" "flag db = CHR ''c''"
    using assms(2) by (auto simp: one_db_def)
  let ?db = "db\<lparr>db_dict := AList.update (dir_path V (sig_dir f)) (edumps V ?es) (db_dict db), needs_sync := True\<rparr>"
  let ?s2 = "?s1\<lparr>sig_files := (sig_files s)[j := ?f], dbs := [?db]\<rparr>"
  have o: "one_db V ?s1" using assms(2) by (simp add: one_db_def)
  have "db_setitem db (Str p) (Str v) = Inr (db\<lparr>db_dict := AList.update p v (db_dict db), needs_sync := True\<rparr>)" for p v
    using db(3) by (simp add: db_setitem_def check_writable_def)
  then have w: "DB_write V False j s = (?s2, None)"
    using assms(5) db(1) by (simp add: DB_write_def m Get_DataBase_one [OF assms(1) o] set_db_def Let_def)
  show ?thesis
  proof (rule that [OF w])
    show "one_db V ?s2" using assms(2) db by (simp add: one_db_def opened_def)
    show "the_db ?s2 = AList.update (dir_path V (sig_dir (sig_files s ! j))) (edumps V ?es) (the_db s)"
      using db(1) mo(3) by (simp add: the_db_def)
    show "entry_view ?es k = map_option (\<lambda>(b, ni). (binfo_to_sconsign V b, ni)) (expected V (stored s) (sig_files s ! j) k)" for k
      by (subst entry_view_map [where b = "binfo_to_sconsign V"])
        (use mo(2) [of k] in \<open>simp_all add: convert_to_sconsign_def ninfo_view_def entry_view_def\<close>)
  qed (use mo in simp_all)
qed

text \<open>After the first \<open>i\<close> collections have been written.\<close>

definition wrote :: "sc_env \<Rightarrow> sconsign \<Rightarrow> nat \<Rightarrow> sconsign \<Rightarrow> bool" where
  "wrote V s0 i s \<longleftrightarrow> one_db V s \<and> disk s = disk s0 \<and> DB_Name s = DB_Name s0 \<and> length (sig_files s) = length (sig_files s0) \<and>
     (\<forall>j. i \<le> j \<longrightarrow> j < length (sig_files s0) \<longrightarrow> sig_files s ! j = sig_files s0 ! j) \<and> same_info V (stored s0) (stored s) \<and>
     (\<forall>j < i. dirty (sig_files s0 ! j) \<longrightarrow> (\<exists>es. map_of (the_db s) (dir_path V (sig_dir (sig_files s0 ! j))) = Some (edumps V es) \<and>
        (\<forall>k. entry_view es k = map_option (\<lambda>(b, ni). (binfo_to_sconsign V b, ni)) (expected V (stored s0) (sig_files s0 ! j) k))))"

lemma run_all_snoc: "run_all f (is @ [i]) s = (case run_all f is s of (s1, Some x) \<Rightarrow> (s1, Some x) | (s1, None) \<Rightarrow> f i s1)"
  by (induction f "is" s rule: run_all.induct) (auto split: prod.split option.split)

lemma write_all:
  assumes "repositories V = []" "one_db V s0" "\<forall>f \<in> set (sig_files s0). distinct (map fst (to_be_merged f))"
    "distinct (map (\<lambda>f. dir_path V (sig_dir f)) (sig_files s0))" "i \<le> length (sig_files s0)"
  shows "\<exists>s. run_all (DB_write V False) [0..<i] s0 = (s, None) \<and> wrote V s0 i s"
  using assms(5)
proof (induction i)
  case 0
  then show ?case using assms(2) by (simp add: wrote_def same_info_def)
next
  case (Suc i)
  then obtain s where s: "run_all (DB_write V False) [0..<i] s0 = (s, None)" and w: "wrote V s0 i s" by auto
  let ?f = "sig_files s0 ! i"
  have i: "sig_files s ! i = ?f" "i < length (sig_files s)" "one_db V s" using w Suc.prems by (auto simp: wrote_def)
  show ?case
  proof (cases "dirty ?f")
    case False
    then have "DB_write V False i s = (s, None)" using i by (simp add: DB_write_def)
    moreover have "wrote V s0 (Suc i) s" using w False by (auto simp: wrote_def less_Suc_eq)
    ultimately show ?thesis using s by (simp add: run_all_snoc)
  next
    case True
    have d: "distinct (map fst (to_be_merged (sig_files s ! i)))" using assms(3) i Suc.prems by simp
    from DB_write_one [OF assms(1) i(3,2) d] True i(1) obtain s' f es where
      w': "DB_write V False i s = (s', None)" "one_db V s'" "disk s' = disk s" "DB_Name s' = DB_Name s"
        "sig_files s' = (sig_files s)[i := f]" "same_info V (stored s) (stored s')"
        "the_db s' = AList.update (dir_path V (sig_dir ?f)) (edumps V es) (the_db s)"
        "\<And>k. entry_view es k = map_option (\<lambda>(b, ni). (binfo_to_sconsign V b, ni)) (expected V (stored s) ?f k)" by metis
    have p: "dir_path V (sig_dir (sig_files s0 ! j)) \<noteq> dir_path V (sig_dir ?f)" if "j < i" for j
      using assms(4) that Suc.prems by (auto simp: distinct_conv_nth)
    have e: "expected V (stored s) ?f k = expected V (stored s0) ?f k" for k
      using w by (auto simp: wrote_def intro: expected_same_info)
    have "wrote V s0 (Suc i) s'"
      using w w' p e same_info_trans [of V "stored s0" "stored s" "stored s'"]
      unfolding wrote_def by (auto simp: less_Suc_eq update_conv')
    with s w'(1) show ?thesis by (simp add: run_all_snoc)
  qed
qed

section \<open>Properties\<close>

definition entry_pickle_ok :: "sc_env \<Rightarrow> bool" where
  "entry_pickle_ok V \<longleftrightarrow> (\<forall>es. eloads V (edumps V es) = Inr (Some es))"

text \<open>
  C19: What one run stores is what the next one reads. Take a run without repositories, after any
  number of directories were opened and entries set or stored in them (each directory at most
  once, as the nodes see to). If it stored anything, \<open>write\<close> succeeds, and a new run that finds the disk
  as it is then and opens a directory with changed entries gets under every file name the entry of
  the first run: its build information (converted to the stored form and back) and its
  signatures, those of the node merged in where \<open>store_info\<close> was called; and nothing else.
\<close>

theorem sconsign_roundtrip:
  assumes "pickle_ok (pickler (db_config V))" "entry_pickle_ok V" "repositories V = []" "\<And>d. dir_tpath V d = dir_path V d"
    "session V w name st s" "distinct (map (\<lambda>f. dir_path V (sig_dir f)) (sig_files s))" "sig_files s \<noteq> []"
  shows "\<exists>s1. sc_write V s = (s1, None) \<and> (\<forall>g \<in> set (sig_files s). dirty g \<longrightarrow>
    (\<exists>s2 f. DB_init V (sig_dir g) (new_process (disk s1) name st2) = (s2, Inr f) \<and> \<not> dirty f \<and>
      (\<forall>k. entry_view (entries f) k = map_option (\<lambda>(b, ni).
         (binfo_from_sconsign V (sig_dir g) k (binfo_to_sconsign V b), ni)) (expected V (stored s) g k))))"
proof -
  have ok: "DB_Name s = name" "one_db V s" "\<forall>f \<in> set (sig_files s). distinct (map fst (to_be_merged f))"
    using session_inv [OF assms(5,3)] assms(7) by (auto simp: session_ok_def)
  from write_all [OF assms(3) ok(2,3) assms(6) order_refl] obtain s' where
    w: "run_all (DB_write V False) [0..<length (sig_files s)] s = (s', None)" "wrote V s (length (sig_files s)) s'" by blast
  then obtain db where db: "DB_sync_list s' = [0]" "dbs s' = [db]" "opened name db (disk s')" "flag db = CHR ''c''"
    using ok(1) by (auto simp: wrote_def one_db_def)
  from sync_ok [OF db(3), of "db_config V"] db(4) obtain w2 where
    y: "sync (db_config V) db (disk s') = (w2, db\<lparr>needs_sync := False\<rparr>, None)"
      "files w2 (file_name db) = Some (dumps (pickler (db_config V)) (db_dict db))" by auto
  let ?s1 = "(set_db 0 (db\<lparr>needs_sync := False\<rparr>) s')\<lparr>disk := w2\<rparr>"
  have s1: "sc_write V s = (?s1, None)" using w(1) db y(1) by (simp add: sc_write_def sync_db_def)
  have n: "db_names name = (file_name db, tmp_name db)" using db(3) by (simp add: opened_def)
  have c: "CHR ''c'' \<in> set ''rwc''" by simp
  note o = dblite_reopen [OF assms(1) n y(2) c, of 438]
  let ?P = "\<lambda>g. \<exists>s2 f. DB_init V (sig_dir g) (new_process (disk ?s1) name st2) = (s2, Inr f) \<and> \<not> dirty f \<and>
      (\<forall>k. entry_view (entries f) k = map_option (\<lambda>(b, ni).
         (binfo_from_sconsign V (sig_dir g) k (binfo_to_sconsign V b), ni)) (expected V (stored s) g k))"
  have "?P g" if g: "g \<in> set (sig_files s)" "dirty g" for g
  proof -
    from g w(2) obtain es where e: "map_of (db_dict db) (dir_path V (sig_dir g)) = Some (edumps V es)"
      "\<And>k. entry_view es k = map_option (\<lambda>(b, ni). (binfo_to_sconsign V b, ni)) (expected V (stored s) g k)"
      using db(2) by (auto simp: wrote_def in_set_conv_nth the_db_def)
    let ?es = "map (\<lambda>(k, e). (k, convert_from_sconsign V (sig_dir g) k e)) es"
    have "entry_view ?es k = map_option (\<lambda>(b, ni). (binfo_from_sconsign V (sig_dir g) k b, ni)) (entry_view es k)" for k
      by (rule entry_view_map) (simp_all add: convert_from_sconsign_def ninfo_view_def)
    then have v: "entry_view ?es k = map_option (\<lambda>(b, ni).
         (binfo_from_sconsign V (sig_dir g) k (binfo_to_sconsign V b), ni)) (expected V (stored s) g k)" for k
      by (simp add: e(2) option.map_comp o_def case_prod_unfold)
    have "\<exists>s2 f. DB_init V (sig_dir g) (new_process (disk ?s1) name st2) = (s2, Inr f) \<and> \<not> dirty f \<and> entries f = ?es"
      using assms(2,3,4) o e(1)
      by (simp add: DB_init_def Get_DataBase_def new_process_def open_db_def db_getitem_def read_entries_def entry_pickle_ok_def
          Base_init_def Let_def)
    then obtain s2 f where f: "DB_init V (sig_dir g) (new_process (disk ?s1) name st2) = (s2, Inr f)" "\<not> dirty f" "entries f = ?es"
      by blast
    show ?thesis using f v by (intro exI [of _ s2] exI [of _ f]) simp
  qed
  with s1 show ?thesis by blast
qed

text \<open>A format for dictionaries of entries, over the one for dictionaries of strings.\<close>

definition enc_entry :: "sc_entry \<Rightarrow> string" where
  "enc_entry e = enc_dict ((enc_dict (e_binfo e), []) # (case e_ninfo e of None \<Rightarrow> [] | Some a \<Rightarrow> [(enc_dict a, [])]))"

definition dec :: "string \<Rightarrow> dict" where
  "dec s = (case dec_dict (length s) s of Inr d \<Rightarrow> d | Inl _ \<Rightarrow> [])"

definition dec_entry :: "string \<Rightarrow> sc_entry" where
  "dec_entry s = \<lparr>e_binfo = dec (fst (dec s ! 0)), e_ninfo = (if length (dec s) = 1 then None else Some (dec (fst (dec s ! 1))))\<rparr>"

definition sample_sc_env :: sc_env where
  "sample_sc_env = \<lparr>db_config = sample_config, edumps = (\<lambda>es. enc_dict (map (\<lambda>(k, e). (k, enc_entry e)) es)),
     eloads = (\<lambda>s. Inr (Some (map (\<lambda>(k, v). (k, dec_entry v)) (dec s)))), binfo_to_sconsign = id,
     binfo_from_sconsign = (\<lambda>d k. id), Top = 0, repositories = [], is_under = (\<lambda>_ _. True),
     entry_abspath = (\<lambda>d. id), dir_path = (\<lambda>d. replicate d CHR ''d''), dir_tpath = (\<lambda>d. replicate d CHR ''d''),
     node_binfo = (\<lambda>n. [(''bact'', ''cc'')]), node_ninfo = (\<lambda>n. [(''csig'', ''abc'')])\<rparr>"

lemma dec_enc [simp]: "dec (enc_dict d) = d"
  by (simp add: dec_def dec_enc_dict length_enc_dict)

lemma dec_enc_entry [simp]: "dec_entry (enc_entry e) = e"
  by (cases e) (auto simp: dec_entry_def enc_entry_def simp del: enc_dict.simps split: option.split)

lemma sample_sc_env_ok: "pickle_ok (pickler (db_config sample_sc_env))" "entry_pickle_ok sample_sc_env"
  by (simp_all add: sample_sc_env_def sample_config_def sample_pickle_ok entry_pickle_ok_def o_def case_prod_unfold)

text \<open>A run that builds \<open>foo.o\<close> in directory 1.\<close>

theorem sconsign_roundtrip_witness:
  "\<exists>s s1 s2 f. session sample_sc_env \<lparr>files = Map.empty, printed = []\<rparr> ''.sconsign'' (\<lambda>_. \<lparr>e_binfo = [], e_ninfo = Some []\<rparr>) s \<and>
     sc_write sample_sc_env s = (s1, None) \<and>
     DB_init sample_sc_env 1 (new_process (disk s1) ''.sconsign'' (\<lambda>_. \<lparr>e_binfo = [], e_ninfo = None\<rparr>)) = (s2, Inr f) \<and>
     entry_view (entries f) ''foo.o'' = Some ([(''bact'', ''cc'')], Some [''csig'' \<mapsto> ''abc''])"
proof -
  let ?V = sample_sc_env and ?w = "\<lparr>files = Map.empty, printed = []\<rparr> :: world"
  let ?st = "\<lambda>_ :: nat. \<lparr>e_binfo = [], e_ninfo = Some []\<rparr>"
  let ?s0 = "new_process ?w ''.sconsign'' ?st"
  obtain fn tn where n: "db_names ''.sconsign'' = (fn, tn)" by fastforce
  have "\<exists>s f. DB_init ?V 1 ?s0 = (s, Inr f) \<and> sig_files s = [Base_init 1] \<and> stored s = ?st"
    by (simp add: DB_init_def Get_DataBase_def new_process_def open_db_def dblite_open_def n Let_def open_write_def
        sample_sc_env_def db_getitem_def Base_init_def)
  then obtain s f where o: "DB_init ?V 1 ?s0 = (s, Inr f)" "sig_files s = [Base_init 1]" "stored s = ?st" by blast
  let ?s = "store_info_at ?V 0 ''foo.o'' 7 s"
  have "session ?V ?w ''.sconsign'' ?st ?s"
    by (rule session_store [OF session_open [OF session_start o(1)]]) (simp add: o(2))
  note ss = this
  let ?g = "(Base_init 1)\<lparr>to_be_merged := [(''foo.o'', 7)], dirty := True\<rparr>"
  have g: "sig_files ?s = [?g]" "e_binfo (stored ?s 7) = [(''bact'', ''cc'')]" "e_ninfo (stored ?s 7) = Some []"
    using o(2,3) by (simp_all add: store_info_at_def store_info_def Base_init_def attrs_merge_def sample_sc_env_def)
  have e: "expected ?V (stored ?s) ?g ''foo.o'' = Some ([(''bact'', ''cc'')], Some [''csig'' \<mapsto> ''abc''])"
    by (simp add: expected_def g merged_ninfo_def) (simp add: sample_sc_env_def)
  have "repositories ?V = []" "\<And>d. dir_tpath ?V d = dir_path ?V d" by (simp_all add: sample_sc_env_def)
  from sconsign_roundtrip [OF sample_sc_env_ok this ss, of "\<lambda>_. \<lparr>e_binfo = [], e_ninfo = None\<rparr>"] g(1)
  obtain s1 s2 f where r: "sc_write ?V ?s = (s1, None)"
    "DB_init ?V 1 (new_process (disk s1) ''.sconsign'' (\<lambda>_. \<lparr>e_binfo = [], e_ninfo = None\<rparr>)) = (s2, Inr f)"
    "\<And>k. entry_view (entries f) k = map_option (\<lambda>(b, ni). (binfo_from_sconsign ?V 1 k (binfo_to_sconsign ?V b), ni))
       (expected ?V (stored ?s) ?g k)"
    by (auto simp: Base_init_def)
  have "entry_view (entries f) ''foo.o'' = Some ([(''bact'', ''cc'')], Some [''csig'' \<mapsto> ''abc''])"
    unfolding r(3) e by (simp add: sample_sc_env_def)
  with ss r show ?thesis by blast
qed

section \<open>One file per directory\<close>

text \<open>
  \<open>Dir\<close> and \<open>DirFile\<close>. The operating system may refuse to open a file for writing, to remove one or
  to rename; \<open>DirFile\<close> tries to carry on. \<open>pid\<close> is the process number as a string. The flag
  \<open>DirFile_init\<close> returns says that the warning of a corrupt file was given.
\<close>

record os_rights =
  may_open :: "string \<Rightarrow> bool"
  may_unlink :: "string \<Rightarrow> bool"
  may_rename :: bool

definition sconsign_name :: "sc_env \<Rightarrow> nat \<Rightarrow> string" where
  "sconsign_name V d = path_join (dir_path V d) ''.sconsign''"

definition Dir_init :: "sc_env \<Rightarrow> string option \<Rightarrow> nat \<Rightarrow> sig_file \<times> unit res" where
  "Dir_init V fp d = (case fp of
       None \<Rightarrow> (Base_init d, Inr ())
     | Some raw \<Rightarrow> (case read_entries V d raw of
           Inl x \<Rightarrow> (Base_init d, Inl x)
         | Inr es \<Rightarrow> ((Base_init d)\<lparr>entries := es\<rparr>, Inr ())))"

definition DirFile_init :: "sc_env \<Rightarrow> nat \<Rightarrow> world \<Rightarrow> sig_file \<times> bool" where
  "DirFile_init V d w = (case Dir_init V (files w (sconsign_name V d)) d of
       (f, Inl x) \<Rightarrow> (f, True)
     | (f, Inr _) \<Rightarrow> (f, False))"

text \<open>
  \<open>DirFile.write\<close> from the choice of the file on. The variable \<open>mode\<close> is assigned only if the old file
  exists, and read again when \<open>rename\<close> fails.
\<close>

definition put_file :: "string \<Rightarrow> string \<Rightarrow> world \<Rightarrow> world" where
  "put_file f c w = w\<lparr>files := (files w)(f \<mapsto> c)\<rparr>"

definition drop_file :: "os_rights \<Rightarrow> string \<Rightarrow> world \<Rightarrow> world" where
  "drop_file R f w = (if may_unlink R f then w\<lparr>files := (files w)(f := None)\<rparr> else w)"

definition replace_file :: "os_rights \<Rightarrow> string \<Rightarrow> string \<Rightarrow> world \<Rightarrow> world \<times> py_exc option" where
  "replace_file R tmp name w =
     (let mode_set = (files w name \<noteq> None);
          w1 = drop_file R name w;
          contents = the (files w1 tmp)
      in if may_rename R then (w1\<lparr>files := (files w1)(tmp := None, name \<mapsto> contents)\<rparr>, None)
         else if \<not> may_open R name then (w1, Some (OSErr 13 ''Permission denied'' (Some name)))
         else if mode_set then (put_file name contents w1, None)
         else (put_file name contents w1, Some (OtherError ''UnboundLocalError'' ''mode'')))"

definition DirFile_write ::
    "sc_env \<Rightarrow> os_rights \<Rightarrow> string \<Rightarrow> sig_file \<Rightarrow> (nat \<Rightarrow> sc_entry) \<Rightarrow> world \<Rightarrow> sig_file \<times> (nat \<Rightarrow> sc_entry) \<times> world \<times> py_exc option" where
  "DirFile_write V R pid f st w =
     (if \<not> dirty f then (f, st, w, None)
      else let (f1, st1) = merge V f st;
               name = sconsign_name V (sig_dir f);
               tmp = path_join (dir_path V (sig_dir f)) (''.scons'' @ pid);
               f2 = f1\<lparr>entries := map (\<lambda>(k, e). (k, convert_to_sconsign V e)) (entries f1)\<rparr>
           in if may_open R tmp then
                (case replace_file R tmp name (put_file tmp (edumps V (entries f2)) w) of
                   (w1, Some x) \<Rightarrow> (f2, st1, w1, Some x)
                 | (w1, None) \<Rightarrow> (f2, st1, drop_file R tmp w1, None))
              else if may_open R name then (f2, st1, drop_file R tmp (put_file name (edumps V (entries f2)) w), None)
              else (f1, st1, w, None))"

datatype for_directory = ForDB | ForDirFile

text \<open>\<open>File\<close>, the function behind \<open>SConsignFile\<close>.\<close>

definition sc_File :: "string option \<Rightarrow> sconsign \<Rightarrow> for_directory \<times> sconsign" where
  "sc_File name s = (case name of None \<Rightarrow> (ForDirFile, s) | Some n \<Rightarrow> (ForDB, s\<lparr>DB_Name := n\<rparr>))"

lemma path_join_inj: "path_join d a = path_join d b \<Longrightarrow> \<not> prefix ''/'' a \<Longrightarrow> \<not> prefix ''/'' b \<Longrightarrow> a = b"
  by (auto simp: path_join_def split: if_splits)



end
