(* ===== verification/Action.thy ===== *)
theory Action
  imports Node Paths
begin

text \<open>
  \<open>SCons/Action.py\<close>: what a builder does to make its targets. The factory \<open>Action\<close> turns strings, lists,
  functions and generators into action objects; calling one runs a command line, a function, what a
  generator returns, or a list of actions in order. Displaying commands, changing the directory and
  the contents for signatures are left out.
\<close>

section \<open>Actions\<close>

text \<open>
  What a user can pass where an action is expected, and the classes of actions. \<open>'f\<close> are the callable
  objects. The keyword dictionary \<open>kw\<close> is passed by reference: \<open>CommandGeneratorAction\<close> and
  \<open>LazyAction\<close> keep it (\<open>gen_kw\<close>), the other classes read it once.
\<close>

record 'f kwargs =
  varlist :: "string list"
  generator :: "bool option"
  cmdstr :: "string option option"
  strfunction :: "'f option option"

datatype 'f act_arg = ArgAction "'f act" | ArgList "'f act_arg list" | ArgFun 'f | ArgStr string | ArgObj
and 'f act =
    CommandAction "'f act_arg" "'f kwargs"
  | CommandGeneratorAction 'f "'f kwargs"
  | LazyAction string "'f kwargs"
  | FunctionAction 'f "'f kwargs"
  | ListAction "'f act list"

text \<open>
  \<open>_do_create_keywords\<close>: the first positional argument is the display string or function, the others
  are added to \<open>varlist\<close>.
\<close>

datatype 'f display = DispNone | DispStr string | DispFun 'f | DispObj

definition do_create_keywords :: "'f display option \<Rightarrow> string list \<Rightarrow> 'f kwargs \<Rightarrow> 'f kwargs res" where
  "do_create_keywords arg0 args kw =
     (case (case arg0 of
              None \<Rightarrow> Inr kw
            | Some DispNone \<Rightarrow> Inr (kw\<lparr>cmdstr := Some None, varlist := args @ varlist kw\<rparr>)
            | Some (DispStr s) \<Rightarrow> Inr (kw\<lparr>cmdstr := Some (Some s), varlist := args @ varlist kw\<rparr>)
            | Some (DispFun f) \<Rightarrow> Inr (kw\<lparr>strfunction := Some (Some f), varlist := args @ varlist kw\<rparr>)
            | Some DispObj \<Rightarrow> Inl (UserError ''Invalid command display variable type. '')) of
        Inl x \<Rightarrow> Inl x
      | Inr kw1 \<Rightarrow> (if strfunction kw1 \<noteq> None \<and> cmdstr kw1 \<noteq> None
                   then Inl (UserError ''Cannot have both strfunction and cmdstr args to Action()'') else Inr kw1))"

text \<open>\<open>CommandAction.__init__\<close>: the words of a command may not be lists.\<close>

definition is_ArgList :: "'f act_arg \<Rightarrow> bool" where
  "is_ArgList a \<longleftrightarrow> (case a of ArgList _ \<Rightarrow> True | _ \<Rightarrow> False)"

definition CommandAction_init :: "'f act_arg \<Rightarrow> 'f kwargs \<Rightarrow> 'f act res" where
  "CommandAction_init cmd kw = (case cmd of
       ArgList ws \<Rightarrow> (if filter is_ArgList ws \<noteq> [] then Inl TypeError else Inr (CommandAction cmd kw))
     | _ \<Rightarrow> Inr (CommandAction cmd kw))"

text \<open>
  \<open>_do_create_action\<close>. A string with several commands is processed again line by line; a line has no
  line end, so this is a case of its own. The dictionary is returned with what \<open>del kw['generator']\<close> did
  to it.
\<close>

definition create_line :: "'f kwargs \<Rightarrow> string \<Rightarrow> 'f act" where
  "create_line kw s = (case get_environment_var s of Some v \<Rightarrow> LazyAction v kw | None \<Rightarrow> CommandAction (ArgStr s) kw)"

definition wrap_list :: "'f act list \<Rightarrow> 'f act" where
  "wrap_list acts = (case acts of [a] \<Rightarrow> a | _ \<Rightarrow> ListAction acts)"

fun do_create_action :: "'f act_arg \<Rightarrow> 'f kwargs \<Rightarrow> 'f kwargs \<times> 'f act option res" where
  "do_create_action (ArgAction a) kw = (kw, Inr (Some a))"
| "do_create_action (ArgList ws) kw = (kw, (case CommandAction_init (ArgList ws) kw of Inl x \<Rightarrow> Inl x | Inr a \<Rightarrow> Inr (Some a)))"
| "do_create_action (ArgFun f) kw =
     (let kw1 = kw\<lparr>generator := None\<rparr>
      in (kw1, Inr (Some (if generator kw = Some True then CommandGeneratorAction f kw1 else FunctionAction f kw1))))"
| "do_create_action (ArgStr s) kw = (kw, Inr (Some (case get_environment_var s of
       Some v \<Rightarrow> LazyAction v kw
     | None \<Rightarrow> (let commands = py_split [CHR 0x0A] s
               in if length commands = 1 then CommandAction (ArgStr (hd commands)) kw
                  else wrap_list (map (create_line kw) commands)))))"
| "do_create_action ArgObj kw = (kw, Inr None)"

text \<open>
  \<open>_do_create_list_action\<close>. The actions created from one dictionary that keep it see its final state;
  actions that were passed in ready made keep theirs.
\<close>

fun set_gen_kw :: "'f kwargs \<Rightarrow> 'f act \<Rightarrow> 'f act" where
  "set_gen_kw kw (CommandGeneratorAction f k) = CommandGeneratorAction f kw"
| "set_gen_kw kw (LazyAction v k) = LazyAction v kw"
| "set_gen_kw kw (ListAction as) = ListAction (map (set_gen_kw kw) as)"
| "set_gen_kw kw a = a"

definition share_kw :: "'f kwargs \<Rightarrow> 'f act_arg \<times> 'f act \<Rightarrow> 'f act" where
  "share_kw kw x = (case fst x of ArgAction _ \<Rightarrow> snd x | _ \<Rightarrow> set_gen_kw kw (snd x))"

fun create_acts :: "'f act_arg list \<Rightarrow> 'f kwargs \<Rightarrow> 'f kwargs \<times> ('f act_arg \<times> 'f act) list res" where
  "create_acts [] kw = (kw, Inr [])"
| "create_acts (a # as) kw = (case do_create_action a kw of
       (kw1, Inl x) \<Rightarrow> (kw1, Inl x)
     | (kw1, Inr None) \<Rightarrow> create_acts as kw1
     | (kw1, Inr (Some aa)) \<Rightarrow> (case create_acts as kw1 of
           (kw2, Inl x) \<Rightarrow> (kw2, Inl x)
         | (kw2, Inr acts) \<Rightarrow> (kw2, Inr ((a, aa) # acts))))"

definition do_create_list_action :: "'f act_arg list \<Rightarrow> 'f kwargs \<Rightarrow> 'f act res" where
  "do_create_list_action as kw = (case create_acts as kw of
       (kw1, Inl x) \<Rightarrow> Inl x
     | (kw1, Inr acts) \<Rightarrow> Inr (wrap_list (map (share_kw kw1) acts)))"

text \<open>The factory; \<open>None\<close> when no action can be made.\<close>

definition Action_factory :: "'f act_arg \<Rightarrow> 'f display option \<Rightarrow> string list \<Rightarrow> 'f kwargs \<Rightarrow> 'f act option res" where
  "Action_factory a arg0 args kw = res_bind (do_create_keywords arg0 args kw) (\<lambda>kw1. case a of
       ArgList as \<Rightarrow> res_bind (do_create_list_action as kw1) (\<lambda>x. Inr (Some x))
     | _ \<Rightarrow> snd (do_create_action a kw1))"

definition no_kw :: "'f kwargs" where
  "no_kw = \<lparr>varlist = [], generator = None, cmdstr = None, strfunction = None\<rparr>"

text \<open>\<open>_actionAppend\<close>, behind the operator \<open>+\<close> on actions.\<close>

definition act_list :: "'f act \<Rightarrow> 'f act list" where
  "act_list a = (case a of ListAction as \<Rightarrow> as | _ \<Rightarrow> [a])"

definition actionAppend :: "'f act_arg \<Rightarrow> 'f act_arg \<Rightarrow> 'f act res" where
  "actionAppend act1 act2 = res_bind (Action_factory act1 None [] no_kw) (\<lambda>a1.
     res_bind (Action_factory act2 None [] no_kw) (\<lambda>a2.
       case (a1, a2) of
         (Some x, Some y) \<Rightarrow> Inr (ListAction (act_list x @ act_list y))
       | _ \<Rightarrow> Inl TypeError))"

section \<open>Running\<close>

text \<open>
  What comes from outside: the shell and the functions, which change a state \<open>'w\<close>; substitution of
  construction variables (\<open>subst_list\<close> gives the command lines with their words); generators, and the
  values of construction variables. A function returns a value that counts as false, a
  number, a string, or raises. \<open>exitstat\<close> is the \<open>exitstatfunc\<close> argument.
\<close>

datatype fun_result = RetFalse | RetInt int | RetStr string | Raised exc

record ('f, 'w) act_env =
  has_SHELL :: bool
  has_SPAWN :: bool
  subst_list :: "'f act_arg \<Rightarrow> string list list"
  spawn :: "string list \<Rightarrow> 'w \<Rightarrow> 'w \<times> int"
  execfunction :: "'f \<Rightarrow> 'w \<Rightarrow> 'w \<times> fun_result"
  generate_fun :: "'f \<Rightarrow> 'f act_arg"
  env_var :: "string \<Rightarrow> 'f act_arg option"
  exitstat :: "int \<Rightarrow> int"
  act_targets :: "nid list"

text \<open>\<open>CommandAction.process\<close>: the loop over the prefixes \<open>@\<close> and \<open>-\<close> of the first word.\<close>

fun strip_prefixes :: "string \<Rightarrow> bool \<Rightarrow> bool \<Rightarrow> string \<times> bool \<times> bool" where
  "strip_prefixes [] ign silent = ([], ign, silent)"
| "strip_prefixes (c # cs) ign silent =
     (if c = CHR ''@'' then strip_prefixes cs ign True
      else if c = CHR ''-'' then strip_prefixes cs True silent
      else (c # cs, ign, silent))"

definition process :: "('f, 'w) act_env \<Rightarrow> 'f act_arg \<Rightarrow> string list list \<times> bool \<times> bool" where
  "process E cmd = (case subst_list E cmd of
       (w # ws) # lines \<Rightarrow>
         (let (w1, ign, silent) = strip_prefixes w False False
          in ((if w1 = [] then ws else w1 # ws) # lines, ign, silent))
     | lines \<Rightarrow> (lines, False, False))"

text \<open>
  \<open>CommandAction.execute\<close>: empty command lines are left out; the first that fails ends the loop unless
  failures are ignored.
\<close>

fun run_lines :: "('f, 'w) act_env \<Rightarrow> bool \<Rightarrow> string list list \<Rightarrow> 'w \<Rightarrow> 'w \<times> act_status" where
  "run_lines E ign [] w = (w, ActOk)"
| "run_lines E ign (l # ls) w = (case spawn E l w of (w1, result) \<Rightarrow>
     if \<not> ign \<and> result \<noteq> 0
     then (w1, ActBuildError (BuildError_init\<lparr>errstr := ''Error '' @ show_int result, status := result\<rparr>))
     else run_lines E ign ls w1)"

definition command_execute :: "('f, 'w) act_env \<Rightarrow> 'f act_arg \<Rightarrow> 'w \<Rightarrow> 'w \<times> (exc + act_status)" where
  "command_execute E cmd w =
     (if \<not> has_SHELL E then (w, Inl (Exc (UserError ''Missing SHELL construction variable.'')))
      else if \<not> has_SPAWN E then (w, Inl (Exc (UserError ''Missing SPAWN construction variable.'')))
      else case process E cmd of (lines, ign, silent) \<Rightarrow>
        (case run_lines E ign (filter (\<lambda>l. l \<noteq> []) lines) w of (w1, r) \<Rightarrow> (w1, Inr r)))"

text \<open>
  \<open>FunctionAction.execute\<close>: interrupts and exits pass through; any other failure becomes a build error,
  which is returned for system errors and for return values, and raised otherwise.
\<close>

definition passes_through :: "exc \<Rightarrow> bool" where
  "passes_through x \<longleftrightarrow> (case x of
       Exc (SystemExit _) \<Rightarrow> True
     | Exc (OtherError c _) \<Rightarrow> c = ''KeyboardInterrupt''
     | _ \<Rightarrow> False)"

definition function_execute :: "('f, 'w) act_env \<Rightarrow> 'f \<Rightarrow> 'w \<Rightarrow> 'w \<times> (exc + act_status)" where
  "function_execute E f w = (case execfunction E f w of (w1, r) \<Rightarrow>
     (w1, (case r of
         RetFalse \<Rightarrow> Inr ActOk
       | RetInt i \<Rightarrow> (if i = 0 then Inr ActOk
                     else Inr (ActBuildError ((convert_to_BuildError (CInt i) None)\<lparr>be_node := Some (act_targets E)\<rparr>)))
       | RetStr s \<Rightarrow> (if s = '''' then Inr ActOk
                     else Inr (ActBuildError ((convert_to_BuildError (CString s) None)\<lparr>be_node := Some (act_targets E)\<rparr>)))
       | Raised x \<Rightarrow> (if passes_through x then Inl x
           else let b = (convert_to_BuildError (CExc x) (case x of Exc e \<Rightarrow> Some e | _ \<Rightarrow> None))\<lparr>be_node := Some (act_targets E)\<rparr>
                in case x of
                     Exc e \<Rightarrow> (if is_os_error e then Inr (ActBuildError b) else Inl (BuildErr b))
                   | BuildErr _ \<Rightarrow> Inl (BuildErr b)))))"

text \<open>The end of \<open>_ActionAction.__call__\<close>: without \<open>execute\<close> nothing is done and the status is 0.\<close>

definition apply_exitstat :: "(int \<Rightarrow> int) \<Rightarrow> act_status \<Rightarrow> act_status" where
  "apply_exitstat f r = (case r of
       ActBuildError b \<Rightarrow> (if f (status b) \<noteq> 0 then ActBuildError (b\<lparr>status := f (status b)\<rparr>) else ActOk)
     | ActOk \<Rightarrow> (if f 0 = 0 then ActOk else ActStatus (f 0))
     | ActStatus i \<Rightarrow> (if f i = 0 then ActOk else ActStatus (f i)))"

definition action_call_with :: "('f, 'w) act_env \<Rightarrow> bool \<Rightarrow> ('w \<Rightarrow> 'w \<times> (exc + act_status)) \<Rightarrow> 'w \<Rightarrow> 'w \<times> (exc + act_status)" where
  "action_call_with E execute run w =
     (if \<not> execute then (w, Inr ActOk)
      else case run w of (w1, Inl x) \<Rightarrow> (w1, Inl x) | (w1, Inr r) \<Rightarrow> (w1, Inr (apply_exitstat (exitstat E) r)))"

text \<open>The actions generators make: \<open>CommandGeneratorAction._generate\<close> and \<open>LazyAction._generate_cache\<close>.\<close>

definition generated :: "('f, 'w) act_env \<Rightarrow> 'f \<Rightarrow> 'f kwargs \<Rightarrow> exc + 'f act" where
  "generated E g kw = (case Action_factory (generate_fun E g) None [] kw of
       Inl x \<Rightarrow> Inl (Exc x)
     | Inr None \<Rightarrow> Inl (Exc (UserError ''Object returned from command generator cannot be used to create an Action.''))
     | Inr (Some a) \<Rightarrow> Inr a)"

definition lazy_generated :: "('f, 'w) act_env \<Rightarrow> string \<Rightarrow> 'f kwargs \<Rightarrow> exc + 'f act" where
  "lazy_generated E v kw = (case Action_factory (case env_var E v of None \<Rightarrow> ArgStr '''' | Some c \<Rightarrow> c) None [] kw of
       Inl x \<Rightarrow> Inl (Exc x)
     | Inr None \<Rightarrow> Inl (Exc (UserError (''$'' @ v @ '' value cannot be used to create an Action.'')))
     | Inr (Some a) \<Rightarrow> Inr a)"

text \<open>\<open>LazyAction.get_parent_class\<close>: a variable with a string of one line is a command.\<close>

definition lazy_is_command :: "('f, 'w) act_env \<Rightarrow> string \<Rightarrow> bool" where
  "lazy_is_command E v \<longleftrightarrow> (case env_var E v of Some (ArgStr s) \<Rightarrow> CHR 0x0A \<notin> set s | _ \<Rightarrow> False)"

definition lazy_cmd :: "string \<Rightarrow> 'f act_arg" where
  "lazy_cmd v = ArgStr (''${'' @ v @ ''}'')"

text \<open>
  Calling an action. A generator may return one that leads back to itself, so this may not end; the
  loop of \<open>ListAction.__call__\<close> is the case of lists.
\<close>

definition failing :: "exc + act_status \<Rightarrow> bool" where
  "failing r \<longleftrightarrow> r \<noteq> Inr ActOk"

partial_function (option) act_call ::
    "('f, 'w) act_env \<Rightarrow> bool \<Rightarrow> 'f act \<Rightarrow> 'w \<Rightarrow> ('w \<times> (exc + act_status)) option" where
  "act_call E execute a w = (case a of
       CommandAction cmd kw \<Rightarrow> Some (action_call_with E execute (command_execute E cmd) w)
     | FunctionAction f kw \<Rightarrow> Some (action_call_with E execute (function_execute E f) w)
     | CommandGeneratorAction g kw \<Rightarrow> (case generated E g kw of
           Inl x \<Rightarrow> Some (w, Inl x)
         | Inr b \<Rightarrow> act_call E execute b w)
     | LazyAction v kw \<Rightarrow>
         (if lazy_is_command E v then Some (action_call_with E execute (command_execute E (lazy_cmd v)) w)
          else case lazy_generated E v kw of
              Inl x \<Rightarrow> Some (w, Inl x)
            | Inr b \<Rightarrow> act_call E execute b w)
     | ListAction as \<Rightarrow> (case as of
           [] \<Rightarrow> Some (w, Inr ActOk)
         | b # bs \<Rightarrow> Option.bind (act_call E execute b w) (\<lambda>y.
             if failing (snd y) then Some y else act_call E execute (ListAction bs) (fst y))))"

section \<open>Lists of actions\<close>

text \<open>One run after another, the second only if the first succeeded.\<close>

definition run_then :: "('w \<times> (exc + act_status)) option \<Rightarrow> ('w \<Rightarrow> ('w \<times> (exc + act_status)) option) \<Rightarrow> ('w \<times> (exc + act_status)) option" where
  "run_then r f = Option.bind r (\<lambda>y. if failing (snd y) then Some y else f (fst y))"

lemma run_then_assoc: "run_then (run_then r f) g = run_then r (\<lambda>w. run_then (f w) g)"
  by (cases r) (simp_all add: run_then_def)

lemma run_then_Some [simp]: "run_then r (\<lambda>w. Some (w, Inr ActOk)) = r"
proof (cases r)
  case (Some y)
  then show ?thesis by (cases y) (simp add: run_then_def failing_def)
qed (simp add: run_then_def)

lemma act_call_list:
  "act_call E x (ListAction []) w = Some (w, Inr ActOk)"
  "act_call E x (ListAction (a # as)) w = run_then (act_call E x a w) (act_call E x (ListAction as))"
  by (subst act_call.simps, simp)+ (simp add: run_then_def)

lemma act_call_append:
  "act_call E x (ListAction (as @ bs)) w = run_then (act_call E x (ListAction as) w) (act_call E x (ListAction bs))"
proof (induction as arbitrary: w)
  case Nil
  then show ?case by (simp add: act_call_list run_then_def failing_def)
next
  case (Cons a as)
  then have "act_call E x (ListAction (as @ bs)) = (\<lambda>w. run_then (act_call E x (ListAction as) w) (act_call E x (ListAction bs)))"
    by (simp add: fun_eq_iff)
  then show ?case by (simp add: act_call_list run_then_assoc)
qed

lemma act_call_single: "act_call E x (ListAction [a]) = act_call E x a"
proof -
  have "act_call E x (ListAction []) = (\<lambda>w. Some (w, Inr ActOk))" by (simp add: fun_eq_iff act_call_list)
  then have "act_call E x (ListAction [a]) w = act_call E x a w" for w by (simp only: act_call_list(2) run_then_Some)
  then show ?thesis by (rule ext)
qed

lemma act_call_act_list: "act_call E x (ListAction (act_list a)) = act_call E x a"
  by (cases a) (simp_all add: act_list_def act_call_single)

lemma act_call_wrap_list: "act_call E x (wrap_list as) = act_call E x (ListAction as)"
  by (auto simp: wrap_list_def act_call_single split: list.split)

text \<open>Actions whose generators lead to something that can be run.\<close>

inductive settles :: "('f, 'w) act_env \<Rightarrow> 'f act \<Rightarrow> bool" for E where
  settles_command: "settles E (CommandAction cmd kw)"
| settles_function: "settles E (FunctionAction f kw)"
| settles_generator: "(\<And>b. generated E g kw = Inr b \<Longrightarrow> settles E b) \<Longrightarrow> settles E (CommandGeneratorAction g kw)"
| settles_lazy: "(\<And>b. \<not> lazy_is_command E v \<Longrightarrow> lazy_generated E v kw = Inr b \<Longrightarrow> settles E b) \<Longrightarrow> settles E (LazyAction v kw)"
| settles_list: "(\<And>a. a \<in> set as \<Longrightarrow> settles E a) \<Longrightarrow> settles E (ListAction as)"

lemma settles_returns: "settles E a \<Longrightarrow> act_call E x a w \<noteq> None"
proof (induction arbitrary: w rule: settles.induct)
  case (settles_generator g kw)
  then show ?case by (subst act_call.simps) (auto split: sum.split)
next
  case (settles_lazy v kw)
  then show ?case by (subst act_call.simps) (auto split: sum.split)
next
  case (settles_list as)
  from settles_list.IH show ?case
  proof (induction as arbitrary: w)
    case (Cons a as)
    have "act_call E x a w \<noteq> None" using Cons.prems by simp
    moreover have "act_call E x (ListAction as) w' \<noteq> None" for w' using Cons.IH Cons.prems by simp
    ultimately show ?case by (auto simp: act_call_list run_then_def)
  qed (simp add: act_call_list)
qed (subst act_call.simps, simp)+

text \<open>
  C23: Actions put together with \<open>+\<close> run in order, the second only if the first succeeded, however the
  two are made up of lists; calling the result comes to an end when the generators among its parts
  do not lead back to themselves.
\<close>

theorem action_append_in_order:
  assumes "actionAppend (ArgAction a) (ArgAction b) = Inr c"
  shows "act_call E x c w = Option.bind (act_call E x a w) (\<lambda>(w1, r). if r = Inr ActOk then act_call E x b w1 else Some (w1, r)) \<and>
    (settles E a \<and> settles E b \<longrightarrow> act_call E x c w \<noteq> None)"
proof -
  from assms have c: "c = ListAction (act_list a @ act_list b)"
    by (simp add: actionAppend_def Action_factory_def do_create_keywords_def no_kw_def)
  have r: "act_call E x c w = run_then (act_call E x a w) (act_call E x b)"
    by (simp add: c act_call_append act_call_act_list)
  then have "act_call E x c w = Option.bind (act_call E x a w) (\<lambda>(w1, r). if r = Inr ActOk then act_call E x b w1 else Some (w1, r))"
    by (cases "act_call E x a w") (auto simp: run_then_def failing_def)
  moreover have "act_call E x c w \<noteq> None" if s: "settles E a" "settles E b"
  proof -
    obtain y where "act_call E x a w = Some y" using settles_returns [OF s(1), of x w] by auto
    with r settles_returns [OF s(2), of x] show ?thesis by (auto simp: run_then_def)
  qed
  ultimately show ?thesis by blast
qed

section \<open>Command lines\<close>

lemma strip_prefixes_append:
  "set pre \<subseteq> {CHR ''@'', CHR ''-''} \<Longrightarrow>
     strip_prefixes (pre @ s) i q = strip_prefixes s (i \<or> CHR ''-'' \<in> set pre) (q \<or> CHR ''@'' \<in> set pre)"
  by (induction pre arbitrary: i q) auto

text \<open>The state after the given command lines, and whether each of them succeeds when its turn comes.\<close>

definition spawn_all :: "('f, 'w) act_env \<Rightarrow> string list list \<Rightarrow> 'w \<Rightarrow> 'w" where
  "spawn_all E ls w = fold (\<lambda>l w. fst (spawn E l w)) ls w"

fun all_succeed :: "('f, 'w) act_env \<Rightarrow> string list list \<Rightarrow> 'w \<Rightarrow> bool" where
  "all_succeed E [] w \<longleftrightarrow> True"
| "all_succeed E (l # ls) w \<longleftrightarrow> snd (spawn E l w) = 0 \<and> all_succeed E ls (fst (spawn E l w))"

lemma run_lines_ignore: "run_lines E True ls w = (spawn_all E ls w, ActOk)"
  by (induction ls arbitrary: w) (auto simp: spawn_all_def split: prod.split)

lemma run_lines_stops:
  "run_lines E False ls w = (w', r) \<Longrightarrow>
     r = ActOk \<and> w' = spawn_all E ls w \<and> all_succeed E ls w \<or>
     (\<exists>ks l ms b. ls = ks @ l # ms \<and> all_succeed E ks w \<and> w' = fst (spawn E l (spawn_all E ks w)) \<and>
        r = ActBuildError b \<and> status b = snd (spawn E l (spawn_all E ks w)) \<and> status b \<noteq> 0)"
proof (induction ls arbitrary: w)
  case (Cons l ls)
  obtain w1 i where s: "spawn E l w = (w1, i)" by fastforce
  show ?case
  proof (cases "i = 0")
    case True
    with Cons.prems s have "run_lines E False ls w1 = (w', r)" by simp
    from Cons.IH [OF this] show ?thesis
    proof (elim disjE exE conjE)
      fix ks l' ms b
      assume "ls = ks @ l' # ms" "all_succeed E ks w1" "w' = fst (spawn E l' (spawn_all E ks w1))" "r = ActBuildError b"
        "status b = snd (spawn E l' (spawn_all E ks w1))" "status b \<noteq> 0"
      with True s show ?thesis
        by (intro disjI2 exI [of _ "l # ks"] exI [of _ l'] exI [of _ ms] exI [of _ b]) (simp add: spawn_all_def)
    qed (use True s in \<open>simp add: spawn_all_def\<close>)
  next
    case False
    with Cons.prems s have "w' = w1" "r = ActBuildError (BuildError_init\<lparr>errstr := ''Error '' @ show_int i, status := i\<rparr>)" by auto
    with False s show ?thesis
      by (intro disjI2 exI [of _ "[]"] exI [of _ l] exI [of _ ls]) (simp add: spawn_all_def)
  qed
qed (simp add: spawn_all_def)

text \<open>
  C22: What running a command does. The prefixes of the first word, in any number and order, are taken
  off; with \<open>-\<close> among them every command line is run and the action succeeds whatever they return;
  without it the lines are run in order up to the first that fails, whose status is reported, and
  no line after it is run.
\<close>

theorem command_lines_run:
  assumes "has_SHELL E" "has_SPAWN E" "subst_list E cmd = ((pre @ word) # ws) # others"
    "set pre \<subseteq> {CHR ''@'', CHR ''-''}" "word = [] \<or> hd word \<notin> {CHR ''@'', CHR ''-''}"
    "ls = filter (\<lambda>l. l \<noteq> []) ((if word = [] then ws else word # ws) # others)" "command_execute E cmd w = (w', r)"
  shows "if CHR ''-'' \<in> set pre then w' = spawn_all E ls w \<and> r = Inr ActOk
    else r = Inr ActOk \<and> w' = spawn_all E ls w \<and> all_succeed E ls w \<or>
      (\<exists>ks l ms b. ls = ks @ l # ms \<and> all_succeed E ks w \<and> w' = fst (spawn E l (spawn_all E ks w)) \<and>
         r = Inr (ActBuildError b) \<and> status b = snd (spawn E l (spawn_all E ks w)) \<and> status b \<noteq> 0)"
proof -
  have "strip_prefixes word i q = (word, i, q)" for i q using assms(5) by (cases word) auto
  then have "process E cmd = ((if word = [] then ws else word # ws) # others, CHR ''-'' \<in> set pre, CHR ''@'' \<in> set pre)"
    by (simp add: process_def assms(3) strip_prefixes_append [OF assms(4)])
  then have c: "command_execute E cmd w = (case run_lines E (CHR ''-'' \<in> set pre) ls w of (w1, r) \<Rightarrow> (w1, Inr r))"
    using assms(1,2) by (simp add: command_execute_def assms(6))
  show ?thesis
  proof (cases "CHR ''-'' \<in> set pre")
    case True
    with c assms(7) show ?thesis by (simp add: run_lines_ignore)
  next
    case False
    obtain w1 r1 where rl: "run_lines E False ls w = (w1, r1)" by fastforce
    with c False assms(7) have "w' = w1" "r = Inr r1" by auto
    with run_lines_stops [OF rl] False show ?thesis by auto
  qed
qed

section \<open>Generators in lists\<close>

lemma create_acts_funs:
  "generator kw = None \<Longrightarrow> create_acts (map ArgFun fs) kw = (kw, Inr (map (\<lambda>f. (ArgFun f, FunctionAction f kw)) fs))"
proof (induction fs)
  case (Cons f fs)
  from Cons show ?case by (cases kw) (simp add: Let_def)
qed simp

text \<open>
  In a list of functions given with \<open>generator=1\<close> only the first is treated as a generator: the
  keyword is deleted from the shared dictionary when it is read, and the other functions are
  called as ordinary actions.
\<close>

lemma generator_only_first:
  "do_create_list_action (map ArgFun (f # g # fs)) (kw\<lparr>generator := Some True\<rparr>) =
     Inr (ListAction (CommandGeneratorAction f (kw\<lparr>generator := None\<rparr>) #
       map (\<lambda>h. FunctionAction h (kw\<lparr>generator := None\<rparr>)) (g # fs)))"
  using create_acts_funs [of "kw\<lparr>generator := None\<rparr>" fs]
  by (simp add: do_create_list_action_def Let_def wrap_list_def share_kw_def o_def)

text \<open>A shell in which the command \<open>false\<close> fails and every other is recorded.\<close>

definition sample_act_env :: "(nat, string list list) act_env" where
  "sample_act_env = \<lparr>has_SHELL = True, has_SPAWN = True, subst_list = (\<lambda>a. case a of ArgStr s \<Rightarrow> [py_split '' '' s] | _ \<Rightarrow> []),
     spawn = (\<lambda>l w. (w @ [l], if hd l = ''false'' then 1 else 0)), execfunction = (\<lambda>f w. (w, RetFalse)),
     generate_fun = (\<lambda>g. ArgObj), env_var = (\<lambda>v. None), exitstat = id, act_targets = [0]\<rparr>"

theorem command_lines_run_witness:
  "command_execute sample_act_env (ArgStr ''@-false x'') [] = ([[''false'', ''x'']], Inr ActOk)"
proof -
  obtain w' r where c: "command_execute sample_act_env (ArgStr ''@-false x'') [] = (w', r)" by fastforce
  have s: "subst_list sample_act_env (ArgStr ''@-false x'') = ((''@-'' @ ''false'') # [''x'']) # []" by code_simp
  have "w' = spawn_all sample_act_env [[''false'', ''x'']] [] \<and> r = Inr ActOk"
    using command_lines_run [OF _ _ s _ _ _ c] by (simp add: sample_act_env_def)
  with c show ?thesis by (simp add: spawn_all_def sample_act_env_def)
qed

theorem action_append_in_order_witness:
  "act_call sample_act_env True (ListAction [CommandAction (ArgStr ''false'') no_kw, CommandAction (ArgStr ''ls'') no_kw]) [] =
     act_call sample_act_env True (CommandAction (ArgStr ''false'') no_kw) []"
proof -
  let ?a = "CommandAction (ArgStr ''false'') no_kw :: nat act" and ?b = "CommandAction (ArgStr ''ls'') no_kw :: nat act"
  have "actionAppend (ArgAction ?a) (ArgAction ?b) = Inr (ListAction [?a, ?b])"
    by (simp add: actionAppend_def Action_factory_def do_create_keywords_def no_kw_def act_list_def)
  note o = action_append_in_order [OF this, of sample_act_env True "[]"]
  have "\<exists>w b. act_call sample_act_env True ?a [] = Some (w, Inr (ActBuildError b))"
  proof -
    have "subst_list sample_act_env (ArgStr ''false'') = [[''false'']]" by code_simp
    then show ?thesis
      by (subst act_call.simps)
        (simp add: action_call_with_def command_execute_def process_def apply_exitstat_def sample_act_env_def)
  qed
  with o show ?thesis by auto
qed

end
