(* ===== verification/CacheDir.thy ===== *)
theory CacheDir
  imports Action
begin

text \<open>
  \<open>SCons/CacheDir.py\<close>: derived files are copied into a directory shared between builds and users, under
  the signature of what they were built from, and fetched from there instead of being built again.
  The theory shows that what was pushed is retrieved, and that the cache never holds a torn file,
  however many processes push at the same time and wherever they are interrupted. Debug output is
  left out.
\<close>

section \<open>The file system\<close>

text \<open>
  Regular files with contents and permission bits, and symbolic links with their text. Whether a link
  leads anywhere is up to the system (\<open>link_ok\<close>, of the link's name and text); the bits of the file
  behind a link are not tracked.
\<close>

datatype fsobj = Regular string nat | Symlink string

record fs =
  objs :: "string \<rightharpoonup> fsobj"
  dirs :: "string set"

definition S_IWRITE :: nat where
  "S_IWRITE = 128"

definition islink :: "fs \<Rightarrow> string \<Rightarrow> bool" where
  "islink w f \<longleftrightarrow> (case objs w f of Some (Symlink _) \<Rightarrow> True | _ \<Rightarrow> False)"

definition fs_exists :: "(string \<Rightarrow> string \<Rightarrow> bool) \<Rightarrow> fs \<Rightarrow> string \<Rightarrow> bool" where
  "fs_exists link_ok w f \<longleftrightarrow> (case objs w f of None \<Rightarrow> False | Some (Regular c m) \<Rightarrow> True | Some (Symlink t) \<Rightarrow> link_ok f t)"

definition enoent :: "string \<Rightarrow> py_exc" where
  "enoent f = OSErr 2 ''No such file or directory'' (Some f)"

definition fs_symlink :: "string \<Rightarrow> string \<Rightarrow> fs \<Rightarrow> fs res" where
  "fs_symlink txt dst w = (if objs w dst \<noteq> None then Inl (OSErr 17 ''File exists'' (Some dst))
     else Inr (w\<lparr>objs := (objs w)(dst \<mapsto> Symlink txt)\<rparr>))"

text \<open>\<open>shutil.copy\<close> and \<open>copy2\<close>, which differ in time stamps only.\<close>

definition fs_copy :: "string \<Rightarrow> string \<Rightarrow> fs \<Rightarrow> fs res" where
  "fs_copy src dst w = (case objs w src of
       Some (Regular c m) \<Rightarrow> Inr (w\<lparr>objs := (objs w)(dst \<mapsto> Regular c m)\<rparr>)
     | _ \<Rightarrow> Inl (enoent src))"

definition fs_rename :: "string \<Rightarrow> string \<Rightarrow> fs \<Rightarrow> fs res" where
  "fs_rename old new w = (case objs w old of
       None \<Rightarrow> Inl (enoent old)
     | Some x \<Rightarrow> Inr (w\<lparr>objs := (objs w)(old := None, new \<mapsto> x)\<rparr>))"

text \<open>The copy of a file or link, and \<open>chmod(dst, mode of src | S_IWRITE)\<close>.\<close>

definition copy_any :: "string \<Rightarrow> string \<Rightarrow> fs \<Rightarrow> fs res" where
  "copy_any src dst w = (case objs w src of Some (Symlink t) \<Rightarrow> fs_symlink t dst w | _ \<Rightarrow> fs_copy src dst w)"

definition chmod_like :: "string \<Rightarrow> string \<Rightarrow> fs \<Rightarrow> fs res" where
  "chmod_like src dst w = (case objs w src of
       None \<Rightarrow> Inl (enoent src)
     | Some s \<Rightarrow> (case objs w dst of
           None \<Rightarrow> Inl (enoent dst)
         | Some (Symlink t) \<Rightarrow> Inr w
         | Some (Regular c m) \<Rightarrow>
             Inr (w\<lparr>objs := (objs w)(dst \<mapsto> Regular c (Bit_Operations.or (case s of Regular _ m' \<Rightarrow> m' | Symlink _ \<Rightarrow> m) S_IWRITE))\<rparr>)))"

section \<open>The cache\<close>

text \<open>
  The global variables of the module and of \<open>SCons.Action\<close>, the \<open>CacheDir\<close> object (its path is \<open>None\<close>
  without a hash module), and the process number as a string.
\<close>

record cache =
  cache_enabled :: bool
  cache_force :: bool
  cache_show :: bool
  execute_actions :: bool
  cache_path :: "string option"
  link_ok :: "string \<Rightarrow> string \<Rightarrow> bool"
  getpid :: string

record cache_node =
  t_path :: string
  t_bsig :: string
  t_nocache :: bool

definition CacheDir_init :: "bool \<Rightarrow> string \<Rightarrow> cache \<Rightarrow> cache" where
  "CacheDir_init has_hashlib p c = c\<lparr>cache_path := (if has_hashlib then Some p else None)\<rparr>"

definition is_enabled :: "cache \<Rightarrow> bool" where
  "is_enabled c \<longleftrightarrow> cache_enabled c \<and> cache_path c \<noteq> None"

definition cachepath :: "cache \<Rightarrow> cache_node \<Rightarrow> (string \<times> string) option res" where
  "cachepath c t = (case cache_path c of
       None \<Rightarrow> Inr None
     | Some p \<Rightarrow> (if \<not> cache_enabled c then Inr None
         else if t_bsig t = '''' then Inl IndexError
         else let d = path_join p (py_upper [hd (t_bsig t)]) in Inr (Some (d, path_join d (t_bsig t)))))"

text \<open>\<open>CacheRetrieveFunc\<close> returns 0 for success.\<close>

definition CacheRetrieveFunc :: "cache \<Rightarrow> cache_node \<Rightarrow> fs \<Rightarrow> fs \<times> nat res" where
  "CacheRetrieveFunc c t w = (case cachepath c t of
       Inl x \<Rightarrow> (w, Inl x)
     | Inr None \<Rightarrow> (w, Inl TypeError)
     | Inr (Some (d, f)) \<Rightarrow>
        (if \<not> fs_exists (link_ok c) w f then (w, Inr 1)
         else if \<not> execute_actions c then (w, Inr 0)
         else case copy_any f (t_path t) w of
             Inl x \<Rightarrow> (w, Inl x)
           | Inr w1 \<Rightarrow> (case chmod_like f (t_path t) w1 of Inl x \<Rightarrow> (w1, Inl x) | Inr w2 \<Rightarrow> (w2, Inr 0))))"

text \<open>
  \<open>CachePushFunc\<close>. The system may refuse to make the directory (and another process may have made it
  meanwhile) and may refuse any of the steps; a refused copy may leave something behind. A refused
  step gives a warning only.
\<close>

datatype push_step = Push_Copy | Push_Rename | Push_Chmod

record push_env =
  mkdir_refused :: bool
  other_made_dir :: bool
  refused :: "push_step \<Rightarrow> py_exc option"
  leftover :: "fsobj option"

fun push_do :: "string \<Rightarrow> string \<Rightarrow> string \<Rightarrow> push_step \<Rightarrow> fs \<Rightarrow> fs res" where
  "push_do path tempfile cachefile Push_Copy w = copy_any path tempfile w"
| "push_do path tempfile cachefile Push_Rename w = fs_rename tempfile cachefile w"
| "push_do path tempfile cachefile Push_Chmod w = chmod_like path cachefile w"

fun push_run :: "push_env \<Rightarrow> string \<Rightarrow> string \<Rightarrow> string \<Rightarrow> push_step list \<Rightarrow> fs \<Rightarrow> fs \<times> bool" where
  "push_run E path tempfile cachefile [] w = (w, True)"
| "push_run E path tempfile cachefile (x # xs) w = (case refused E x of
       Some e \<Rightarrow> ((if x = Push_Copy then w\<lparr>objs := (objs w)(tempfile := leftover E)\<rparr> else w), False)
     | None \<Rightarrow> (case push_do path tempfile cachefile x w of
           Inl e \<Rightarrow> (w, False)
         | Inr w1 \<Rightarrow> push_run E path tempfile cachefile xs w1))"

text \<open>The result says whether the warning \<open>CacheWriteErrorWarning\<close> was given.\<close>

definition CachePushFunc :: "cache \<Rightarrow> push_env \<Rightarrow> cache_node \<Rightarrow> fs \<Rightarrow> fs \<times> bool res" where
  "CachePushFunc c E t w =
     (if t_nocache t then (w, Inr False)
      else case cachepath c t of
          Inl x \<Rightarrow> (w, Inl x)
        | Inr None \<Rightarrow> (w, Inl TypeError)
        | Inr (Some (d, f)) \<Rightarrow>
           (if fs_exists (link_ok c) w f then (w, Inr False)
            else let tempfile = f @ ''.tmp'' @ getpid c;
                     made = (d \<in> dirs w \<or> \<not> mkdir_refused E \<or> other_made_dir E);
                     w1 = (if made then w\<lparr>dirs := insert d (dirs w)\<rparr> else w)
                 in if \<not> made then (w, Inl (OtherError ''EnvironmentError'' f))
                    else let (w2, ok) = push_run E (t_path t) tempfile f [Push_Copy, Push_Rename, Push_Chmod] w1
                         in (w2, Inr (\<not> ok))))"

text \<open>
  The actions \<open>CacheRetrieve\<close> (also the silent one) and \<open>CachePush\<close>: the two functions are called as
  actions of theory \<open>Action\<close>, so a system error they raise becomes a status.
\<close>

datatype cache_func = Retrieve | Push

definition cache_action :: "cache \<Rightarrow> push_env \<Rightarrow> cache_node \<Rightarrow> (cache_func, fs) act_env" where
  "cache_action c E t = \<lparr>has_SHELL = True, has_SPAWN = True, subst_list = (\<lambda>_. []), spawn = (\<lambda>_ w. (w, 0)),
     execfunction = (\<lambda>g w. case g of
         Retrieve \<Rightarrow> (case CacheRetrieveFunc c t w of
             (w1, Inl x) \<Rightarrow> (w1, Raised (Exc x)) | (w1, Inr r) \<Rightarrow> (w1, RetInt (int r)))
       | Push \<Rightarrow> (case CachePushFunc c E t w of
             (w1, Inl x) \<Rightarrow> (w1, Raised (Exc x)) | (w1, Inr warned) \<Rightarrow> (w1, RetFalse))),
     generate_fun = (\<lambda>_. ArgObj), env_var = (\<lambda>_. None), exitstat = id, act_targets = []\<rparr>"

definition call_cache_action :: "cache \<Rightarrow> push_env \<Rightarrow> cache_node \<Rightarrow> bool \<Rightarrow> cache_func \<Rightarrow> fs \<Rightarrow> fs \<times> (exc + act_status)" where
  "call_cache_action c E t execute g w =
     action_call_with (cache_action c E t) execute (function_execute (cache_action c E t) g) w"

text \<open>
  \<open>retrieve\<close> calls its action with \<open>execute=1\<close>; with \<open>--cache-show\<close> the actions of the node are then shown
  but not executed (\<open>node.build(execute=0)\<close>), which changes no file. \<open>push\<close> leaves it to the option \<open>-n\<close>
  whether anything is done; its result is not used by the callers.
\<close>

definition retrieve :: "cache \<Rightarrow> push_env \<Rightarrow> cache_node \<Rightarrow> fs \<Rightarrow> fs \<times> (exc + bool)" where
  "retrieve c E t w = (if \<not> is_enabled c then (w, Inr False)
     else case call_cache_action c E t True Retrieve w of
         (w1, Inl x) \<Rightarrow> (w1, Inl x)
       | (w1, Inr r) \<Rightarrow> (w1, Inr (r = ActOk)))"

definition push :: "cache \<Rightarrow> push_env \<Rightarrow> cache_node \<Rightarrow> fs \<Rightarrow> fs \<times> (exc + act_status)" where
  "push c E t w = (if \<not> is_enabled c then (w, Inr ActOk)
     else call_cache_action c E t (execute_actions c) Push w)"

definition push_if_forced :: "cache \<Rightarrow> push_env \<Rightarrow> cache_node \<Rightarrow> fs \<Rightarrow> fs \<times> (exc + act_status)" where
  "push_if_forced c E t w = (if cache_force c then push c E t w else (w, Inr ActOk))"

lemma call_cache_action_simps:
  "CacheRetrieveFunc c t w = (w1, Inr r) \<Longrightarrow>
     \<exists>q. call_cache_action c E t True Retrieve w = (w1, Inr q) \<and> (q = ActOk \<longleftrightarrow> r = 0)"
  "CachePushFunc c E t w = (w1, Inr b) \<Longrightarrow> call_cache_action c E t True Push w = (w1, Inr ActOk)"
  by (auto simp: call_cache_action_def action_call_with_def function_execute_def cache_action_def apply_exitstat_def
      convert_to_BuildError_def Let_def BuildError_init_def)

section \<open>What is pushed is retrieved\<close>

fun same_file :: "fsobj \<Rightarrow> fsobj \<Rightarrow> bool" where
  "same_file (Regular c m) (Regular c' m') \<longleftrightarrow> c = c'"
| "same_file (Symlink t) (Symlink t') \<longleftrightarrow> t = t'"
| "same_file _ _ \<longleftrightarrow> False"

lemma same_file_refl [simp]: "same_file x x"
  by (cases x) simp_all

lemma same_file_trans: "same_file x y \<Longrightarrow> same_file y z \<Longrightarrow> same_file x z"
  by (cases x; cases y; cases z) auto

lemma copy_any_ok:
  assumes "objs w src = Some x" "objs w dst = None"
  shows "copy_any src dst w = Inr (w\<lparr>objs := (objs w)(dst \<mapsto> x)\<rparr>)"
  using assms by (cases x) (simp_all add: copy_any_def fs_symlink_def fs_copy_def)

lemma chmod_like_ok:
  assumes "objs w src = Some x" "objs w dst = Some y"
  shows "\<exists>z. chmod_like src dst w = Inr (w\<lparr>objs := (objs w)(dst \<mapsto> z)\<rparr>) \<and> same_file y z"
proof (cases y)
  case (Symlink t)
  with assms(2) have "(objs w)(dst \<mapsto> y) = objs w" by (auto simp: fun_eq_iff)
  then have "w = w\<lparr>objs := (objs w)(dst \<mapsto> y)\<rparr>" by simp
  with assms Symlink show ?thesis by (intro exI [of _ y]) (simp add: chmod_like_def)
qed (use assms in \<open>auto simp: chmod_like_def\<close>)

lemma cachepath_enabled:
  assumes "is_enabled c" "t_bsig t \<noteq> ''''"
  obtains d f where "cachepath c t = Inr (Some (d, f))"
  using assms by (auto simp: is_enabled_def cachepath_def Let_def)

lemma push_ok:
  assumes "is_enabled c" "execute_actions c" "\<not> t_nocache t" "cachepath c t = Inr (Some (d, f))" "objs w f = None"
    "objs w (t_path t) = Some x" "objs w (f @ ''.tmp'' @ getpid c) = None" "\<And>s. refused E s = None" "\<not> mkdir_refused E"
  shows "\<exists>w1 y. push c E t w = (w1, Inr ActOk) \<and> objs w1 = (objs w)(f \<mapsto> y) \<and> same_file x y"
proof -
  define tmp where "tmp = f @ ''.tmp'' @ getpid c"
  have tmp: "objs w tmp = None" using assms(7) by (simp add: tmp_def)
  let ?w = "w\<lparr>dirs := insert d (dirs w)\<rparr>"
  let ?w1 = "?w\<lparr>objs := (objs w)(tmp \<mapsto> x)\<rparr>" and ?w2 = "?w\<lparr>objs := (objs w)(f \<mapsto> x)\<rparr>"
  have 1: "copy_any (t_path t) tmp ?w = Inr ?w1" using copy_any_ok [of ?w "t_path t" x tmp] assms(6) tmp by simp
  have u: "(objs w)(tmp := None, f \<mapsto> x) = (objs w)(f \<mapsto> x)" using tmp by (auto simp: fun_eq_iff)
  have 2: "fs_rename tmp f ?w1 = Inr ?w2" by (simp add: fs_rename_def u)
  have "objs ?w2 (t_path t) = Some x" "objs ?w2 f = Some x" using assms(5,6) by auto
  from chmod_like_ok [OF this] obtain y where 3: "chmod_like (t_path t) f ?w2 = Inr (?w2\<lparr>objs := (objs ?w2)(f \<mapsto> y)\<rparr>)" "same_file x y"
    by blast
  have "CachePushFunc c E t w = (?w2\<lparr>objs := (objs w)(f \<mapsto> y)\<rparr>, Inr False)"
    using assms 1 2 3(1) by (simp add: CachePushFunc_def fs_exists_def Let_def tmp_def [symmetric] del: append.simps)
  from call_cache_action_simps(2) [OF this] assms(1,2)
  have "push c E t w = (?w2\<lparr>objs := (objs w)(f \<mapsto> y)\<rparr>, Inr ActOk)" by (simp add: push_def)
  with 3(2) show ?thesis by (intro exI [of _ "?w2\<lparr>objs := (objs w)(f \<mapsto> y)\<rparr>"] exI [of _ y]) simp
qed

text \<open>
  C25: What one build pushes, another retrieves: when a file or link was pushed with nothing in the way,
  a later build whose node has the same signature, in whatever file system that has the same cache
  file, fetches it: the call succeeds, and the target is a file with the same contents or the same
  link.
\<close>

theorem cache_roundtrip:
  assumes "is_enabled c" "execute_actions c" "\<not> t_nocache t" "cachepath c t = Inr (Some (d, f))" "objs w f = None"
    "objs w (t_path t) = Some x" "objs w (f @ ''.tmp'' @ getpid c) = None" "\<And>s. refused E s = None" "\<not> mkdir_refused E"
    "\<And>txt. link_ok c f txt" "push c E t w = (w1, r)"
    "t_bsig u = t_bsig t" "objs w2 f = objs w1 f" "objs w2 (t_path u) = None"
  shows "r = Inr ActOk \<and> (\<exists>w3 y. retrieve c E2 u w2 = (w3, Inr True) \<and> objs w3 = (objs w2)(t_path u \<mapsto> y) \<and> same_file x y)"
proof -
  from push_ok [OF assms(1-9)] assms(11,13) obtain y where y: "objs w2 f = Some y" "same_file x y" "r = Inr ActOk" by auto
  have cp: "cachepath c u = Inr (Some (d, f))" using assms(4) unfolding cachepath_def assms(12) .
  have ex: "fs_exists (link_ok c) w2 f" using y(1) assms(10) by (simp add: fs_exists_def split: fsobj.split)
  note 1 = copy_any_ok [OF y(1) assms(14)]
  let ?w3 = "w2\<lparr>objs := (objs w2)(t_path u \<mapsto> y)\<rparr>"
  have "objs ?w3 f = Some y" "objs ?w3 (t_path u) = Some y" using y(1) assms(14) by auto
  from chmod_like_ok [OF this] obtain z where 2: "chmod_like f (t_path u) ?w3 = Inr (?w3\<lparr>objs := (objs ?w3)(t_path u \<mapsto> z)\<rparr>)" "same_file y z"
    by blast
  have "CacheRetrieveFunc c u w2 = (?w3\<lparr>objs := (objs w2)(t_path u \<mapsto> z)\<rparr>, Inr 0)"
    using assms(2) 1 2(1) cp ex by (simp add: CacheRetrieveFunc_def)
  from call_cache_action_simps(1) [OF this, of E2] assms(1)
  have "retrieve c E2 u w2 = (?w3\<lparr>objs := (objs w2)(t_path u \<mapsto> z)\<rparr>, Inr True)" by (auto simp: retrieve_def)
  with y(3) same_file_trans [OF y(2) 2(2)] show ?thesis by (intro conjI exI [of _ "?w3\<lparr>objs := (objs w2)(t_path u \<mapsto> z)\<rparr>"] exI [of _ z]) simp_all
qed

definition sample_cache :: cache where
  "sample_cache = \<lparr>cache_enabled = True, cache_force = False, cache_show = False, execute_actions = True,
     cache_path = Some ''/c'', link_ok = (\<lambda>_ _. True), getpid = ''9''\<rparr>"

definition quiet_push :: push_env where
  "quiet_push = \<lparr>mkdir_refused = False, other_made_dir = False, refused = (\<lambda>_. None), leftover = None\<rparr>"

theorem cache_roundtrip_witness:
  "\<exists>w1 w3 y. push sample_cache quiet_push \<lparr>t_path = ''foo.o'', t_bsig = ''a1'', t_nocache = False\<rparr>
      \<lparr>objs = [''foo.o'' \<mapsto> Regular ''code'' 420], dirs = {}\<rparr> = (w1, Inr ActOk) \<and>
    retrieve sample_cache quiet_push \<lparr>t_path = ''bar.o'', t_bsig = ''a1'', t_nocache = False\<rparr> w1 = (w3, Inr True) \<and>
    objs w3 ''bar.o'' = Some y \<and> same_file (Regular ''code'' 420) y"
proof -
  let ?t = "\<lparr>t_path = ''foo.o'', t_bsig = ''a1'', t_nocache = False\<rparr>" and ?u = "\<lparr>t_path = ''bar.o'', t_bsig = ''a1'', t_nocache = False\<rparr>"
  let ?w = "\<lparr>objs = [''foo.o'' \<mapsto> Regular ''code'' 420], dirs = {}\<rparr> :: fs"
  have c: "cachepath sample_cache ?t = Inr (Some (''/c/A'', ''/c/A/a1''))" by code_simp
  obtain w1 r where p: "push sample_cache quiet_push ?t ?w = (w1, r)" by fastforce
  have "objs w1 ''bar.o'' = None"
    using push_ok [OF _ _ _ c, of ?w "Regular ''code'' 420" quiet_push] p
    by (auto simp: sample_cache_def quiet_push_def is_enabled_def)
  with cache_roundtrip [OF _ _ _ c _ _ _ _ _ _ p, of "Regular ''code'' 420" ?u w1 quiet_push]
  show ?thesis using p by (auto simp: sample_cache_def quiet_push_def is_enabled_def)
qed

section \<open>Several builds at the same time\<close>

text \<open>
  Processes, named by their number as a string, push the same cache file from their own targets
  \<open>src\<close>. One may start when the cache file is missing, takes the steps of \<open>CachePushFunc\<close> one by one,
  may leave anything in its temporary file while it copies, and may stop at any point. \<open>todo\<close> are
  the steps a process still has to take.
\<close>

definition temp_of :: "string \<Rightarrow> string \<Rightarrow> string" where
  "temp_of f p = f @ ''.tmp'' @ p"

inductive push_race :: "(string \<Rightarrow> string \<Rightarrow> bool) \<Rightarrow> (string \<Rightarrow> string) \<Rightarrow> string \<Rightarrow> fs \<Rightarrow> fs \<Rightarrow> (string \<Rightarrow> push_step list) \<Rightarrow> bool"
  for lk src f w0 where
  race_start: "push_race lk src f w0 w0 (\<lambda>_. [])"
| race_begin: "push_race lk src f w0 w todo \<Longrightarrow> todo p = [] \<Longrightarrow> \<not> fs_exists lk w f \<Longrightarrow>
    push_race lk src f w0 w (todo(p := [Push_Copy, Push_Rename, Push_Chmod]))"
| race_step: "push_race lk src f w0 w todo \<Longrightarrow> todo p = x # xs \<Longrightarrow> push_do (src p) (temp_of f p) f x w = Inr w' \<Longrightarrow>
    push_race lk src f w0 w' (todo(p := xs))"
| race_torn: "push_race lk src f w0 w todo \<Longrightarrow> todo p = Push_Copy # xs \<Longrightarrow>
    push_race lk src f w0 (w\<lparr>objs := (objs w)(temp_of f p := z)\<rparr>) todo"
| race_stop: "push_race lk src f w0 w todo \<Longrightarrow> push_race lk src f w0 w (todo(p := []))"

definition complete :: "(string \<Rightarrow> string) \<Rightarrow> string \<Rightarrow> fs \<Rightarrow> fsobj \<Rightarrow> bool" where
  "complete src f w0 y \<longleftrightarrow> (\<exists>x. same_file x y \<and> (objs w0 f = Some x \<or> (\<exists>p. objs w0 (src p) = Some x)))"

definition race_inv :: "(string \<Rightarrow> string) \<Rightarrow> string \<Rightarrow> fs \<Rightarrow> fs \<Rightarrow> (string \<Rightarrow> push_step list) \<Rightarrow> bool" where
  "race_inv src f w0 w todo \<longleftrightarrow> (\<forall>q. objs w (src q) = objs w0 (src q)) \<and> (\<forall>y. objs w f = Some y \<longrightarrow> complete src f w0 y) \<and>
     (\<forall>p. suffix (todo p) [Push_Copy, Push_Rename, Push_Chmod] \<and>
        (todo p = [Push_Rename, Push_Chmod] \<longrightarrow> (\<forall>y. objs w (temp_of f p) = Some y \<longrightarrow> complete src f w0 y)))"

lemma temp_of_simps [simp]: "temp_of f p \<noteq> f" "f \<noteq> temp_of f p" "temp_of f p = temp_of f q \<longleftrightarrow> p = q"
  by (simp_all add: temp_of_def)

lemma copy_any_objs:
  "copy_any src dst w = Inr w' \<Longrightarrow> \<exists>x. objs w src = Some x \<and> objs w' = (objs w)(dst \<mapsto> x)"
  by (auto simp: copy_any_def fs_symlink_def fs_copy_def split: option.splits fsobj.splits if_splits)

lemma chmod_like_objs:
  "chmod_like src dst w = Inr w' \<Longrightarrow> \<exists>y z. objs w dst = Some y \<and> same_file y z \<and> objs w' = (objs w)(dst \<mapsto> z)"
proof -
  assume c: "chmod_like src dst w = Inr w'"
  then obtain x y where xy: "objs w src = Some x" "objs w dst = Some y" by (auto simp: chmod_like_def split: option.splits)
  from chmod_like_ok [OF this] c xy(2) show ?thesis by auto
qed

lemma complete_same: "complete src f w0 y \<Longrightarrow> same_file y z \<Longrightarrow> complete src f w0 z"
  by (auto simp: complete_def intro: same_file_trans)

lemma suffix_push_steps:
  "suffix xs [Push_Copy, Push_Rename, Push_Chmod] \<longleftrightarrow>
     xs \<in> {[], [Push_Chmod], [Push_Rename, Push_Chmod], [Push_Copy, Push_Rename, Push_Chmod]}"
  by (auto simp: suffix_Cons)

lemma race_inv_step:
  assumes inv: "race_inv src f w0 w todo" and p: "todo p = x # xs" and d: "push_do (src p) (temp_of f p) f x w = Inr w'"
    and src: "\<And>q. src q \<noteq> f" "\<And>q p. src q \<noteq> temp_of f p"
  shows "race_inv src f w0 w' (todo(p := xs))"
proof -
  from inv p have sx: "suffix (x # xs) [Push_Copy, Push_Rename, Push_Chmod]" unfolding race_inv_def by metis
  have src': "f \<noteq> src q" "temp_of f r \<noteq> src q" for q r using src(1) [of q] src(2) [of q r] by auto
  note i = inv [unfolded race_inv_def]
  show ?thesis
  proof (cases x)
    case Push_Copy
    with sx have xs: "xs = [Push_Rename, Push_Chmod]" by (auto simp: suffix_push_steps)
    from d Push_Copy obtain y where y: "objs w (src p) = Some y" "objs w' = (objs w)(temp_of f p \<mapsto> y)"
      by (auto dest: copy_any_objs)
    moreover have "complete src f w0 y" using y(1) i unfolding complete_def by (metis same_file_refl)
    ultimately show ?thesis using i xs src src' by (auto simp: race_inv_def suffix_push_steps)
  next
    case Push_Rename
    with sx have xs: "xs = [Push_Chmod]" by (auto simp: suffix_push_steps)
    from d Push_Rename obtain y where y: "objs w (temp_of f p) = Some y" "objs w' = (objs w)(temp_of f p := None, f \<mapsto> y)"
      by (auto simp: fs_rename_def split: option.splits)
    moreover have "complete src f w0 y" using i p Push_Rename xs y(1) by blast
    ultimately show ?thesis using i xs src src' by (auto simp: race_inv_def suffix_push_steps)
  next
    case Push_Chmod
    with sx have xs: "xs = []" by (auto simp: suffix_push_steps)
    from d Push_Chmod obtain y z where y: "objs w f = Some y" "same_file y z" "objs w' = (objs w)(f \<mapsto> z)"
      by (auto dest: chmod_like_objs)
    moreover have "complete src f w0 z" using i y complete_same by blast
    ultimately show ?thesis using i xs src src' by (auto simp: race_inv_def suffix_push_steps)
  qed
qed

lemma push_race_inv:
  assumes "push_race lk src f w0 w todo" and src: "\<And>q. src q \<noteq> f" "\<And>q p. src q \<noteq> temp_of f p"
  shows "race_inv src f w0 w todo"
  using assms(1)
proof induction
  case race_start
  show ?case by (auto simp: race_inv_def complete_def intro: same_file_refl)
next
  case (race_step w todo p x xs w')
  from race_inv_step [OF race_step.IH race_step.hyps(2,3) src] show ?case .
next
  case (race_torn w todo p xs z)
  have "temp_of f p \<noteq> src q" for q using src(2) [of q p] by auto
  with race_torn src(2) show ?case by (auto simp: race_inv_def)
qed (auto simp: race_inv_def suffix_push_steps)

text \<open>
  C21: The cache never holds a torn file: however many builds push the same signature at once, in
  whatever order their steps come and wherever they are killed or refused, the cache file, whenever
  there is one, is a complete copy of a target that was being pushed or what it was before; and no
  target is changed.
\<close>

theorem cache_never_torn:
  assumes "push_race lk src f w0 w todo" "\<And>q. src q \<noteq> f" "\<And>q p. src q \<noteq> temp_of f p"
  shows "(\<forall>y. objs w f = Some y \<longrightarrow> (\<exists>x. same_file x y \<and> (objs w0 f = Some x \<or> (\<exists>p. objs w0 (src p) = Some x)))) \<and>
    (\<forall>q. objs w (src q) = objs w0 (src q))"
  using push_race_inv [OF assms] by (simp add: race_inv_def complete_def)

theorem cache_never_torn_witness:
  "\<exists>w todo. push_race (\<lambda>_ _. True) (\<lambda>p. ''foo.o'') ''/c'' \<lparr>objs = [''foo.o'' \<mapsto> Regular ''code'' 420], dirs = {}\<rparr> w todo \<and>
     objs w ''/c'' = Some (Regular ''code'' 420) \<and> objs w (temp_of ''/c'' ''2'') = Some (Regular ''co'' 420) \<and>
     objs w ''foo.o'' = Some (Regular ''code'' 420)"
proof -
  let ?lk = "\<lambda>_ _. True" and ?src = "\<lambda>p :: string. ''foo.o''" and ?all = "[Push_Copy, Push_Rename, Push_Chmod]"
  let ?w0 = "\<lparr>objs = [''foo.o'' \<mapsto> Regular ''code'' 420], dirs = {}\<rparr> :: fs"
  let ?R = "push_race ?lk ?src ''/c'' ?w0"
  have "?R ?w0 ((\<lambda>_. [])(''1'' := ?all))" by (rule race_begin [OF race_start]) (simp_all add: fs_exists_def)
  then have "?R ?w0 ((\<lambda>_. [])(''1'' := ?all, ''2'' := ?all))" by (rule race_begin) (simp_all add: fs_exists_def)
  from race_step [OF this, of "''1''" Push_Copy]
  have "?R (?w0\<lparr>objs := (objs ?w0)(temp_of ''/c'' ''1'' \<mapsto> Regular ''code'' 420)\<rparr>) ((\<lambda>_. [])(''1'' := tl ?all, ''2'' := ?all))"
    by (simp add: copy_any_def fs_copy_def fun_upd_twist)
  from race_torn [OF this, of "''2''" _ "Some (Regular ''co'' 420)"]
  have "?R (?w0\<lparr>objs := (objs ?w0)(temp_of ''/c'' ''1'' \<mapsto> Regular ''code'' 420, temp_of ''/c'' ''2'' \<mapsto> Regular ''co'' 420)\<rparr>)
      ((\<lambda>_. [])(''1'' := tl ?all, ''2'' := ?all))" by simp
  note r = race_step [OF this, of "''1''" Push_Rename]
  obtain w todo where w: "?R w todo" "objs w ''/c'' = Some (Regular ''code'' 420)"
    "objs w (temp_of ''/c'' ''2'') = Some (Regular ''co'' 420)"
    by (rule that, rule r) (simp_all add: fs_rename_def, simp_all)
  have "\<forall>q. objs w (?src q) = objs ?w0 (?src q)"
    using cache_never_torn [OF w(1)] by (simp add: temp_of_def)
  with w show ?thesis by auto
qed

end
