(* ===== verification/Vars.thy ===== *)
theory Vars
  imports Paths Warnings
begin

text \<open>
  \<open>SCons/Variables\<close>: the variables a user can set on the command line or in a file. The class
  \<open>Variables\<close> collects the declared options, merges defaults, files and arguments and puts the
  values into the environment, converted and validated; the other modules provide converters and
  validators for booleans, enumerations, lists, packages and paths.
\<close>

section \<open>Values and options\<close>

text \<open>A value: a string, a boolean, or a \<open>_ListVariable\<close> with its elements and the (sorted) allowed ones.\<close>

datatype var_value = VStr string | VBool bool | VList "string list" "string list"

type_synonym env = "string \<rightharpoonup> var_value"

text \<open>
  A converter gets the text; if it raises \<open>TypeError\<close> it is called again with the environment. A
  validator may change the environment. Both may raise.
\<close>

record var_option =
  opt_key :: string
  opt_aliases :: "string list"
  opt_help :: string
  opt_default :: "var_value option"
  opt_validator :: "(string \<Rightarrow> string \<Rightarrow> env \<Rightarrow> env res) option"
  opt_converter :: "((string \<Rightarrow> var_value res) \<times> (string \<Rightarrow> env \<Rightarrow> var_value res)) option"

record variables =
  options :: "var_option list"
  var_args :: "(string \<times> var_value) list"
  var_files :: "string list"
  unknown :: "string \<rightharpoonup> var_value"

text \<open>
  \<open>Variables.__init__\<close>: the object, and the class attribute \<open>instance\<close> as it leaves it. With
  \<open>is_global\<close> the name \<open>self\<close> is bound to the attribute before the attribute is set to \<open>self\<close>.
\<close>

definition Variables_init :: "string list \<Rightarrow> (string \<times> var_value) list \<Rightarrow> bool \<Rightarrow> variables option \<Rightarrow> variables \<times> variables option" where
  "Variables_init fs as is_global inst =
     (let new = \<lparr>options = [], var_args = as, var_files = fs, unknown = Map.empty\<rparr>
      in if is_global then (let self = inst in (new, if inst = None then self else inst)) else (new, inst))"

section \<open>Declaring options\<close>

text \<open>The key is a string, or a list or tuple whose first element is the key and the rest aliases.\<close>

datatype key_arg = KStr string | KSeq "string list"

definition del_unknown :: "string \<Rightarrow> (string \<rightharpoonup> var_value) \<Rightarrow> (string \<rightharpoonup> var_value)" where
  "del_unknown a u = u(a := None)"

definition do_add :: "key_arg \<Rightarrow> string \<Rightarrow> var_value option \<Rightarrow>
    (string \<Rightarrow> string \<Rightarrow> env \<Rightarrow> env res) option \<Rightarrow>
    ((string \<Rightarrow> var_value res) \<times> (string \<Rightarrow> env \<Rightarrow> var_value res)) option \<Rightarrow> variables \<Rightarrow> variables res" where
  "do_add key help dflt vld conv vs = res_bind
     (case key of KStr k \<Rightarrow> Inr (k, [k]) | KSeq [] \<Rightarrow> Inl IndexError | KSeq (k # ks) \<Rightarrow> Inr (k, ks))
     (\<lambda>(k, al). Inr (vs\<lparr>options := options vs @ [\<lparr>opt_key = k, opt_aliases = al, opt_help = help, opt_default = dflt,
            opt_validator = vld, opt_converter = conv\<rparr>],
          unknown := fold del_unknown (al @ [k]) (unknown vs)\<rparr>))"

text \<open>\<open>SCons.Environment.is_valid_construction_var\<close>.\<close>

definition is_valid_construction_var :: "string \<Rightarrow> bool" where
  "is_valid_construction_var varstr \<longleftrightarrow> is_ident (strip_final_newline varstr)"

definition var_keys :: "variables \<Rightarrow> string list" where
  "var_keys vs = map opt_key (options vs)"

text \<open>\<open>Add\<close> with a key that is a string; a tuple of arguments goes to \<open>do_add\<close> unchecked.\<close>

definition Add :: "string \<Rightarrow> string \<Rightarrow> var_value option \<Rightarrow>
    (string \<Rightarrow> string \<Rightarrow> env \<Rightarrow> env res) option \<Rightarrow>
    ((string \<Rightarrow> var_value res) \<times> (string \<Rightarrow> env \<Rightarrow> var_value res)) option \<Rightarrow> variables \<Rightarrow> variables res" where
  "Add key help dflt vld conv vs =
     (if \<not> is_valid_construction_var key
      then Inl (UserError (''Illegal Variables.Add() key `'' @ key @ [CHR 0x27]))
      else do_add (KStr key) help dflt vld conv vs)"

section \<open>Updating an environment\<close>

text \<open>
  The loops of \<open>Update\<close>. \<open>run_file\<close> says what executing a file does to the dictionary of values
  (\<open>None\<close> if the file does not exist); \<open>subst_var\<close> is \<open>env.subst('${KEY}')\<close>.
\<close>

definition set_defaults :: "var_option list \<Rightarrow> (string \<rightharpoonup> var_value)" where
  "set_defaults opts = fold (\<lambda>opt vals. case opt_default opt of None \<Rightarrow> vals | Some d \<Rightarrow> vals(opt_key opt \<mapsto> d)) opts Map.empty"

definition read_files :: "(string \<Rightarrow> ((string \<rightharpoonup> var_value) \<Rightarrow> (string \<rightharpoonup> var_value)) option) \<Rightarrow> string list \<Rightarrow>
    (string \<rightharpoonup> var_value) \<Rightarrow> (string \<rightharpoonup> var_value)" where
  "read_files run_file fs vals = fold (\<lambda>f vals. case run_file f of
       None \<Rightarrow> vals
     | Some ex \<Rightarrow> (ex (vals(''__name__'' \<mapsto> VStr f)))(''__name__'' := None)) fs vals"

definition opt_names :: "var_option \<Rightarrow> string list" where
  "opt_names opt = opt_aliases opt @ [opt_key opt]"

definition set_argument :: "var_option list \<Rightarrow> string \<times> var_value \<Rightarrow> (string \<rightharpoonup> var_value) \<times> (string \<rightharpoonup> var_value) \<Rightarrow>
    (string \<rightharpoonup> var_value) \<times> (string \<rightharpoonup> var_value)" where
  "set_argument opts av vu = (let (arg, value) = av; (vals, unk) = vu;
       hits = filter (\<lambda>opt. arg \<in> set (opt_names opt)) opts
     in (fold (\<lambda>opt vals. vals(opt_key opt \<mapsto> value)) hits vals,
         if hits = [] then unk(arg \<mapsto> value) else unk))"

definition put_values :: "var_option list \<Rightarrow> (string \<rightharpoonup> var_value) \<Rightarrow> env \<Rightarrow> env" where
  "put_values opts vals e = fold (\<lambda>opt e. case vals (opt_key opt) of None \<Rightarrow> e | Some v \<Rightarrow> e(opt_key opt \<mapsto> v)) opts e"

text \<open>One conversion; \<open>ValueError\<close> becomes a \<open>UserError\<close>, other exceptions pass.\<close>

definition convert_option :: "(env \<Rightarrow> string \<Rightarrow> string) \<Rightarrow> (string \<rightharpoonup> var_value) \<Rightarrow> var_option \<Rightarrow> env \<Rightarrow> env res" where
  "convert_option subst_var vals opt e = (case opt_converter opt of
       None \<Rightarrow> Inr e
     | Some (conv, conv_env) \<Rightarrow>
        (if vals (opt_key opt) = None then Inr e
         else let value = subst_var e (opt_key opt);
                  r = (case conv value of Inl TypeError \<Rightarrow> conv_env value e | r \<Rightarrow> r)
              in case r of
                   Inr v \<Rightarrow> Inr (e(opt_key opt \<mapsto> v))
                 | Inl ValueError \<Rightarrow> Inl (UserError (''Error converting option: '' @ opt_key opt))
                 | Inl x \<Rightarrow> Inl x))"

definition validate_option :: "(env \<Rightarrow> string \<Rightarrow> string) \<Rightarrow> (string \<rightharpoonup> var_value) \<Rightarrow> var_option \<Rightarrow> env \<Rightarrow> env res" where
  "validate_option subst_var vals opt e = (case opt_validator opt of
       None \<Rightarrow> Inr e
     | Some vld \<Rightarrow> (if vals (opt_key opt) = None then Inr e else vld (opt_key opt) (subst_var e (opt_key opt)) e))"

text \<open>A loop that stops at the first exception, with the environment as it was then.\<close>

fun env_loop :: "(var_option \<Rightarrow> env \<Rightarrow> env res) \<Rightarrow> var_option list \<Rightarrow> env \<Rightarrow> env \<times> py_exc option" where
  "env_loop f [] e = (e, None)"
| "env_loop f (opt # opts) e = (case f opt e of Inr e1 \<Rightarrow> env_loop f opts e1 | Inl x \<Rightarrow> (e, Some x))"

definition Update :: "(string \<Rightarrow> ((string \<rightharpoonup> var_value) \<Rightarrow> (string \<rightharpoonup> var_value)) option) \<Rightarrow>
    (env \<Rightarrow> string \<Rightarrow> string) \<Rightarrow> (string \<times> var_value) list option \<Rightarrow> variables \<Rightarrow> env \<Rightarrow> variables \<times> env \<times> py_exc option" where
  "Update run_file subst_var args vs e =
     (let vals0 = read_files run_file (var_files vs) (set_defaults (options vs));
          (vals, unk) = fold (set_argument (options vs)) (case args of None \<Rightarrow> var_args vs | Some a \<Rightarrow> a) (vals0, unknown vs);
          vs1 = vs\<lparr>unknown := unk\<rparr>;
          e1 = put_values (options vs) vals e
      in case env_loop (convert_option subst_var vals) (options vs) e1 of
           (e2, Some x) \<Rightarrow> (vs1, e2, Some x)
         | (e2, None) \<Rightarrow> (case env_loop (validate_option subst_var vals) (options vs) e2 of (e3, x) \<Rightarrow> (vs1, e3, x)))"

section \<open>Booleans\<close>

definition true_strings :: "string list" where
  "true_strings = [''y'', ''yes'', ''true'', ''t'', ''1'', ''on'', ''all'']"

definition false_strings :: "string list" where
  "false_strings = [''n'', ''no'', ''false'', ''f'', ''0'', ''off'', ''none'']"

definition text2bool :: "string \<Rightarrow> var_value res" where
  "text2bool val = (let lval = py_lower val
     in if lval \<in> set true_strings then Inr (VBool True)
        else if lval \<in> set false_strings then Inr (VBool False) else Inl ValueError)"

definition bool_validator :: "string \<Rightarrow> string \<Rightarrow> env \<Rightarrow> env res" where
  "bool_validator key val e = (case e key of
       None \<Rightarrow> Inl (KeyError key)
     | Some (VBool b) \<Rightarrow> Inr e
     | Some v \<Rightarrow> Inl (UserError (''Invalid value for boolean option '' @ key)))"

section \<open>Enumerations\<close>

definition enum_check :: "string \<Rightarrow> string \<Rightarrow> string list \<Rightarrow> env \<Rightarrow> env res" where
  "enum_check key val vals e =
     (if val \<notin> set vals then Inl (UserError (''Invalid value for option '' @ key @ '': '' @ val)) else Inr e)"

definition enum_validator :: "nat \<Rightarrow> string list \<Rightarrow> string \<Rightarrow> string \<Rightarrow> env \<Rightarrow> env res" where
  "enum_validator ignorecase allowed key val e =
     (if 1 \<le> ignorecase then enum_check key (py_lower val) allowed e else enum_check key val allowed e)"

definition enum_converter :: "nat \<Rightarrow> (string \<rightharpoonup> string) \<Rightarrow> string \<Rightarrow> string" where
  "enum_converter ignorecase m val =
     (let get = (\<lambda>k. case m k of Some v \<Rightarrow> v | None \<Rightarrow> val)
      in if ignorecase = 2 then py_lower (get (py_lower val))
         else if ignorecase = 1 then get (py_lower val) else get val)"

section \<open>Lists\<close>

text \<open>Strings are ordered by their character codes; \<open>list.sort\<close> is an insertion sort here.\<close>

fun str_le :: "string \<Rightarrow> string \<Rightarrow> bool" where
  "str_le [] ys = True"
| "str_le (x # xs) [] = False"
| "str_le (x # xs) (y # ys) = (if x = y then str_le xs ys else (of_char x :: nat) < of_char y)"

fun insert_str :: "string \<Rightarrow> string list \<Rightarrow> string list" where
  "insert_str x [] = [x]"
| "insert_str x (y # ys) = (if str_le x y then x # y # ys else y # insert_str x ys)"

definition sort_str :: "string list \<Rightarrow> string list" where
  "sort_str xs = fold insert_str (rev xs) []"

definition ListVariable_init :: "string list \<Rightarrow> string list \<Rightarrow> var_value" where
  "ListVariable_init initlist allowed = VList (filter (\<lambda>s. s \<noteq> '''') initlist) (sort_str allowed)"

text \<open>\<open>__str__\<close>, which sorts the elements in place: the text and the elements afterwards.\<close>

definition ListVariable_str :: "string list \<Rightarrow> string list \<Rightarrow> string \<times> string list" where
  "ListVariable_str xs allowed =
     (if xs = [] then (''none'', xs)
      else let ys = sort_str xs in if ys = allowed then (''all'', ys) else (py_join '','' ys, ys))"

definition list_converter :: "string \<Rightarrow> string list \<Rightarrow> (string \<rightharpoonup> string) \<Rightarrow> var_value res" where
  "list_converter val allowed m =
     (if val = ''none'' then Inr (ListVariable_init [] allowed)
      else if val = ''all'' then Inr (ListVariable_init allowed allowed)
      else let vs = map (\<lambda>v. case m v of Some x \<Rightarrow> x | None \<Rightarrow> v) (filter (\<lambda>s. s \<noteq> '''') (py_split '','' val))
           in if filter (\<lambda>v. v \<notin> set allowed) vs \<noteq> [] then Inl ValueError else Inr (ListVariable_init vs allowed))"

section \<open>Packages and paths\<close>

definition enable_strings :: "string list" where
  "enable_strings = [''1'', ''yes'', ''true'', ''on'', ''enable'', ''search'']"

definition disable_strings :: "string list" where
  "disable_strings = [''0'', ''no'', ''false'', ''off'', ''disable'']"

definition package_converter :: "string \<Rightarrow> var_value" where
  "package_converter val = (let lval = py_lower val
     in if lval \<in> set enable_strings then VBool True
        else if lval \<in> set disable_strings then VBool False else VStr val)"

text \<open>Python's truth value of a value of the environment.\<close>

fun truthy :: "var_value \<Rightarrow> bool" where
  "truthy (VStr s) \<longleftrightarrow> s \<noteq> ''''"
| "truthy (VBool b) \<longleftrightarrow> b"
| "truthy (VList xs ys) \<longleftrightarrow> xs \<noteq> []"

text \<open>The file system: what a path is.\<close>

datatype path_kind = NoPath | IsFile | IsDir

definition package_validator :: "(string \<Rightarrow> path_kind) \<Rightarrow> (string \<Rightarrow> string \<Rightarrow> var_value) option \<Rightarrow>
    string \<Rightarrow> string \<Rightarrow> env \<Rightarrow> env res" where
  "package_validator fs searchfunc key val e = (case e key of
       None \<Rightarrow> Inl (KeyError key)
     | Some v \<Rightarrow>
        (if v = VBool True then Inr (case searchfunc of None \<Rightarrow> e | Some f \<Rightarrow> e(key \<mapsto> f key val))
         else if truthy v \<and> fs val = NoPath
         then Inl (UserError (''Path does not exist for option '' @ key @ '': '' @ val)) else Inr e))"

definition PathIsDir :: "(string \<Rightarrow> path_kind) \<Rightarrow> string \<Rightarrow> string \<Rightarrow> env \<Rightarrow> env res" where
  "PathIsDir fs key val e = (case fs val of
       IsDir \<Rightarrow> Inr e
     | IsFile \<Rightarrow> Inl (UserError (''Directory path for option '' @ key @ '' is a file: '' @ val))
     | NoPath \<Rightarrow> Inl (UserError (''Directory path for option '' @ key @ '' does not exist: '' @ val)))"

text \<open>\<open>PathIsDirCreate\<close>: the file system afterwards; \<open>makedirs\<close> makes the path a directory.\<close>

definition PathIsDirCreate :: "(string \<Rightarrow> path_kind) \<Rightarrow> string \<Rightarrow> string \<Rightarrow> (string \<Rightarrow> path_kind) res" where
  "PathIsDirCreate fs key val = (case fs val of
       IsFile \<Rightarrow> Inl (UserError (''Path for option '' @ key @ '' is a file, not a directory: '' @ val))
     | IsDir \<Rightarrow> Inr fs
     | NoPath \<Rightarrow> Inr (fs(val := IsDir)))"

definition PathIsFile :: "(string \<Rightarrow> path_kind) \<Rightarrow> string \<Rightarrow> string \<Rightarrow> env \<Rightarrow> env res" where
  "PathIsFile fs key val e = (case fs val of
       IsFile \<Rightarrow> Inr e
     | IsDir \<Rightarrow> Inl (UserError (''File path for option '' @ key @ '' is a directory: '' @ val))
     | NoPath \<Rightarrow> Inl (UserError (''File path for option '' @ key @ '' does not exist: '' @ val)))"

definition PathExists :: "(string \<Rightarrow> path_kind) \<Rightarrow> string \<Rightarrow> string \<Rightarrow> env \<Rightarrow> env res" where
  "PathExists fs key val e =
     (if fs val = NoPath then Inl (UserError (''Path for option '' @ key @ '' does not exist: '' @ val)) else Inr e)"

section \<open>The declarations\<close>

text \<open>
  What the functions return for \<open>Add\<close>: key, help text, default, validator and converter. A
  converter that takes no environment raises \<open>TypeError\<close> when it is given one.
\<close>

type_synonym var_decl = "key_arg \<times> string \<times> var_value option \<times> (string \<Rightarrow> string \<Rightarrow> env \<Rightarrow> env res) option \<times>
   ((string \<Rightarrow> var_value res) \<times> (string \<Rightarrow> env \<Rightarrow> var_value res)) option"

definition no_env :: "string \<Rightarrow> env \<Rightarrow> var_value res" where
  "no_env val e = Inl TypeError"

definition BoolVariable :: "key_arg \<Rightarrow> string \<Rightarrow> var_value option \<Rightarrow> var_decl" where
  "BoolVariable key help dflt = (key, help @ '' (yes|no)'', dflt, Some bool_validator, Some (text2bool, no_env))"

definition EnumVariable :: "key_arg \<Rightarrow> string \<Rightarrow> var_value option \<Rightarrow> string list \<Rightarrow> (string \<rightharpoonup> string) \<Rightarrow> nat \<Rightarrow> var_decl" where
  "EnumVariable key help dflt allowed m ignorecase =
     (key, help @ '' ('' @ py_join ''|'' allowed @ '')'', dflt, Some (enum_validator ignorecase allowed),
      Some (\<lambda>val. Inr (VStr (enum_converter ignorecase m val)), no_env))"

text \<open>The default of \<open>ListVariable\<close> is a string or a list of names, which is joined.\<close>

definition ListVariable :: "key_arg \<Rightarrow> string \<Rightarrow> string + string list \<Rightarrow> string list \<Rightarrow> (string \<rightharpoonup> string) \<Rightarrow> var_decl" where
  "ListVariable key help dflt names m =
     (key, py_join ([CHR 0x0A] @ ''    '') [help, ''(all|none|comma-separated list of names)'', ''allowed names: '' @ py_join '' '' names],
      Some (VStr (case dflt of Inl s \<Rightarrow> s | Inr xs \<Rightarrow> py_join '','' xs)), None, Some (\<lambda>val. list_converter val names m, no_env))"

definition PackageVariable :: "(string \<Rightarrow> path_kind) \<Rightarrow> string \<Rightarrow> string \<Rightarrow> var_value option \<Rightarrow>
    (string \<Rightarrow> string \<Rightarrow> var_value) option \<Rightarrow> var_decl" where
  "PackageVariable fs key help dflt searchfunc =
     (KStr key, py_join ([CHR 0x0A] @ ''    '') [help, ''( yes | no | /path/to/'' @ key @ '' )''], dflt,
      Some (package_validator fs searchfunc), Some (\<lambda>val. Inr (package_converter val), no_env))"

definition PathVariable :: "(string \<Rightarrow> path_kind) \<Rightarrow> key_arg \<Rightarrow> string \<Rightarrow> var_value option \<Rightarrow>
    (string \<Rightarrow> string \<Rightarrow> env \<Rightarrow> env res) option \<Rightarrow> var_decl res" where
  "PathVariable fs key help dflt validator =
     res_bind (case key of KStr k \<Rightarrow> Inr k | KSeq [] \<Rightarrow> Inl IndexError | KSeq (k # ks) \<Rightarrow> Inr k)
       (\<lambda>k. Inr (key, help @ '' ( /path/to/'' @ k @ '' )'', dflt,
          Some (case validator of None \<Rightarrow> PathExists fs | Some f \<Rightarrow> f), None))"

text \<open>\<open>AddVariables\<close>: the options one by one, up to the first exception.\<close>

fun AddVariables :: "var_decl list \<Rightarrow> variables \<Rightarrow> variables \<times> py_exc option" where
  "AddVariables [] vs = (vs, None)"
| "AddVariables ((key, help, dflt, vld, conv) # ds) vs = (case do_add key help dflt vld conv vs of
       Inr vs1 \<Rightarrow> AddVariables ds vs1 | Inl x \<Rightarrow> (vs, Some x))"

section \<open>Lemmas\<close>

lemma fold_upd_other:
  "(\<forall>opt \<in> set opts. opt_key opt \<noteq> k) \<Longrightarrow> fold (\<lambda>opt vals. vals(opt_key opt \<mapsto> v)) opts vals k = vals k"
  by (induction opts arbitrary: vals) auto

lemma fold_upd_key:
  "\<exists>opt \<in> set opts. opt_key opt = k \<Longrightarrow> fold (\<lambda>opt vals. vals(opt_key opt \<mapsto> v)) opts vals k = Some v"
proof (induction opts arbitrary: vals)
  case (Cons opt opts)
  show ?case
  proof (cases "\<exists>opt \<in> set opts. opt_key opt = k")
    case True
    with Cons.IH show ?thesis by simp
  next
    case False
    then have "k = opt_key opt" using Cons.prems by auto
    with False fold_upd_other [of opts k v "vals(opt_key opt \<mapsto> v)"] show ?thesis by (simp del: fun_upd_apply) (simp only: fun_upd_same)
  qed
qed simp

text \<open>The value the arguments give to a key: that of the last one that names an option with the key.\<close>

definition arg_value :: "var_option list \<Rightarrow> (string \<times> var_value) list \<Rightarrow> string \<Rightarrow> var_value option" where
  "arg_value opts args k = map_option snd (find (\<lambda>(a, v). \<exists>opt \<in> set opts. opt_key opt = k \<and> a \<in> set (opt_names opt)) (rev args))"

lemma set_arguments_values:
  "fst (fold (set_argument opts) args (vals, unk)) k = (case arg_value opts args k of Some v \<Rightarrow> Some v | None \<Rightarrow> vals k)"
proof (induction args rule: rev_induct)
  case (snoc av args)
  obtain a v where av: "av = (a, v)" by fastforce
  obtain vals1 unk1 where f: "fold (set_argument opts) args (vals, unk) = (vals1, unk1)" by fastforce
  let ?hits = "filter (\<lambda>opt. a \<in> set (opt_names opt)) opts"
  have "fst (set_argument opts (a, v) (vals1, unk1)) k =
      (if \<exists>opt \<in> set opts. opt_key opt = k \<and> a \<in> set (opt_names opt) then Some v else vals1 k)"
    using fold_upd_key [of ?hits k v vals1] fold_upd_other [of ?hits k v vals1] by (auto simp: set_argument_def Let_def)
  with snoc.IH show ?case by (auto simp: av f arg_value_def)
qed (simp add: arg_value_def)

lemma set_arguments_unknown:
  "snd (fold (set_argument opts) args (vals, unk)) a =
     (if \<exists>opt \<in> set opts. a \<in> set (opt_names opt) then unk a
      else case map_of (rev args) a of None \<Rightarrow> unk a | Some v \<Rightarrow> Some v)"
proof (induction args rule: rev_induct)
  case (snoc av args)
  obtain b v where av: "av = (b, v)" by fastforce
  obtain vals1 unk1 where f: "fold (set_argument opts) args (vals, unk) = (vals1, unk1)" by fastforce
  have "snd (set_argument opts (b, v) (vals1, unk1)) a =
      (if a = b \<and> (\<forall>opt \<in> set opts. b \<notin> set (opt_names opt)) then Some v else unk1 a)"
    by (auto simp: set_argument_def Let_def filter_empty_conv)
  with snoc.IH show ?case by (auto simp: av f)
qed simp

lemma put_values_other: "k \<notin> opt_key ` set opts \<Longrightarrow> put_values opts vals e k = e k"
  unfolding put_values_def by (induction opts arbitrary: e) (auto split: option.split)

lemma put_values_key:
  "k \<in> opt_key ` set opts \<Longrightarrow> put_values opts vals e k = (case vals k of Some v \<Rightarrow> Some v | None \<Rightarrow> e k)"
proof (induction opts arbitrary: e)
  case (Cons opt opts)
  let ?e = "case vals (opt_key opt) of None \<Rightarrow> e | Some v \<Rightarrow> e(opt_key opt \<mapsto> v)"
  have step: "put_values (opt # opts) vals e = put_values opts vals ?e" by (simp add: put_values_def)
  show ?case
  proof (cases "k \<in> opt_key ` set opts")
    case True
    have "put_values opts vals ?e k = (case vals k of Some v \<Rightarrow> Some v | None \<Rightarrow> ?e k)" by (rule Cons.IH [OF True])
    then show ?thesis unfolding step by (auto split: option.splits)
  next
    case False
    with Cons.prems have "k = opt_key opt" by auto
    then show ?thesis unfolding step put_values_other [OF False] by (auto split: option.split)
  qed
qed simp

text \<open>What the comma-separated text of sorted elements splits into.\<close>

lemma split_acc_field:
  "CHR '','' \<notin> set x \<Longrightarrow> split_acc '','' acc (x @ CHR '','' # r) = (rev acc @ x) # split_acc '','' [] r"
proof (induction x arbitrary: acc)
  case (Cons c x)
  then have "\<not> prefix '','' (c # x @ CHR '','' # r)" by auto
  with Cons.IH [of "c # acc"] Cons.prems show ?case
    by (simp add: split_acc.simps [of "'',''" acc "c # x @ CHR '','' # r"])
qed (simp add: split_acc.simps [of "'',''" _ "CHR '','' # r"])

lemma py_split_join:
  "xs \<noteq> [] \<Longrightarrow> \<forall>x \<in> set xs. CHR '','' \<notin> set x \<Longrightarrow> py_split '','' (py_join '','' xs) = xs"
proof (induction "'',''" xs rule: py_join.induct)
  case (3 x y xs)
  then show ?case by (simp add: py_split_def split_acc_field)
qed (simp_all add: py_split_no_sep)

lemma set_insert_str [simp]: "set (insert_str x ys) = insert x (set ys)"
  by (induction x ys rule: insert_str.induct) auto

lemma length_insert_str [simp]: "length (insert_str x ys) = Suc (length ys)"
  by (induction x ys rule: insert_str.induct) auto

lemma fold_insert_str: "set (fold insert_str xs ys) = set xs \<union> set ys \<and> length (fold insert_str xs ys) = length xs + length ys"
  by (induction xs arbitrary: ys) auto

lemma sort_str_elements [simp]: "set (sort_str xs) = set xs" "length (sort_str xs) = length xs" "sort_str xs = [] \<longleftrightarrow> xs = []"
  using fold_insert_str [of "rev xs" "[]"] by (auto simp: sort_str_def) 

section \<open>Properties\<close>


definition sample_options :: variables where
  "sample_options = \<lparr>options = [\<lparr>opt_key = ''CC'', opt_aliases = [''compiler''], opt_help = '''', opt_default = Some (VStr ''cc''),
     opt_validator = None, opt_converter = None\<rparr>], var_args = [], var_files = [], unknown = Map.empty\<rparr>"


text \<open>
  A list variable survives being saved and read again: for allowed names that are nonempty,
  contain no comma and are not the words \<open>all\<close> or \<open>none\<close>, converting the text of a list of
  allowed names gives a list with the same elements, as many of them, or, when the text is \<open>all\<close>,
  the allowed names themselves.
\<close>

lemma ListVariable_roundtrip:
  assumes "\<forall>x \<in> set names. x \<noteq> '''' \<and> CHR '','' \<notin> set x \<and> x \<notin> {''all'', ''none''}" "set xs \<subseteq> set names"
  shows "\<exists>ys. list_converter (fst (ListVariable_str xs (sort_str names))) names Map.empty = Inr (VList ys (sort_str names)) \<and>
    set ys = set xs \<and> length ys = length xs"
proof -
  let ?s = "sort_str xs"
  have el: "\<forall>x \<in> set ?s. x \<noteq> '''' \<and> CHR '','' \<notin> set x \<and> x \<notin> {''all'', ''none''} \<and> x \<in> set names" using assms by auto
  have init: "ListVariable_init zs names = VList zs (sort_str names)" if "\<forall>x \<in> set zs. x \<noteq> ''''" for zs
    using that by (auto simp: ListVariable_init_def filter_id_conv)
  consider "xs = []" | "xs \<noteq> []" "?s = sort_str names" | "xs \<noteq> []" "?s \<noteq> sort_str names" by blast
  then show ?thesis
  proof cases
    case 1
    then show ?thesis by (simp add: ListVariable_str_def list_converter_def init)
  next
    case 2
    have "\<forall>x \<in> set names. x \<noteq> ''''" using assms(1) by blast
    moreover have "set names = set xs" "length names = length xs"
      using arg_cong [OF 2(2), of set] arg_cong [OF 2(2), of length] by simp_all
    ultimately show ?thesis using 2 by (simp add: ListVariable_str_def list_converter_def init Let_def)
  next
    case 3
    then have ne: "?s \<noteq> []" by simp
    have sp: "py_split '','' (py_join '','' ?s) = ?s" by (rule py_split_join [OF ne]) (use el in blast)
    have word: "py_join '','' ?s \<noteq> w" if "w \<in> {''all'', ''none''}" for w
    proof
      assume "py_join '','' ?s = w"
      with sp have "?s = py_split '','' w" by simp
      also have "\<dots> = [w]" using that by (auto simp: py_split_no_sep)
      finally show False using el that by auto
    qed
    have id: "map (\<lambda>v. case Map.empty v of Some x \<Rightarrow> x | None \<Rightarrow> v) (filter (\<lambda>s. s \<noteq> '''') ?s) = ?s"
      using el by (simp add: filter_id_conv)
    have "list_converter (py_join '','' ?s) names Map.empty = Inr (VList ?s (sort_str names))"
      using el word by (auto simp: list_converter_def sp id [simplified] init Let_def filter_empty_conv)
    then show ?thesis using 3 by (simp add: ListVariable_str_def Let_def)
  qed
qed

text \<open>
  With \<open>ignorecase\<close> 1 or 2 the validator of an enumeration looks the lower-cased text up among
  the allowed values as they were given, so an allowed value with a capital letter is always
  rejected, in whatever case it is written; with \<open>ignorecase\<close> 0 every allowed value is accepted.
\<close>

lemma enum_validator_case:
  assumes "v \<in> set allowed" "py_lower v \<notin> set allowed"
  shows "enum_validator 0 allowed key v e = Inr e \<and>
    (\<forall>w. py_lower w = py_lower v \<longrightarrow> (\<exists>m. enum_validator 1 allowed key w e = Inl (UserError m)) \<and>
       (\<exists>m. enum_validator 2 allowed key w e = Inl (UserError m)))"
  using assms by (simp add: enum_validator_def enum_check_def)

text \<open>
  The converter of boolean variables accepts exactly the words of its two lists, in any case,
  and every value it returns passes the validator once it is in the environment.
\<close>

lemma bool_variable_consistent:
  "(text2bool val = Inr v \<longleftrightarrow> (v = VBool True \<and> py_lower val \<in> set true_strings) \<or> (v = VBool False \<and> py_lower val \<in> set false_strings)) \<and>
   (\<forall>key e. text2bool val = Inr v \<longrightarrow> bool_validator key val (e(key \<mapsto> v)) = Inr (e(key \<mapsto> v)))"
proof -
  have "set true_strings \<inter> set false_strings = {}" by (simp add: true_strings_def false_strings_def)
  then show ?thesis by (auto simp: text2bool_def bool_validator_def Let_def)
qed

end
