(* ===== verification/CppLex.thy ===== *)
theory CppLex
  imports Paths
begin

text \<open>
  The lexical half of \<open>SCons/cpp.py\<close>: the regular expressions that turn the contents of a C file
  into a list of preprocessor tuples (\<open>tupleize\<close>), and the substitutions that turn a C
  condition into a Python expression (\<open>CPP_to_Python\<close>).

  The order in which \<open>CPP_Expression\<close> tries the directives is that of \<open>Table.keys()\<close>, the
  order of a Python dictionary, so it is an argument of the definitions here. \<open>good_order\<close>
  states what the code needs of it.
\<close>

section \<open>Substitution by a regular expression\<close>

text \<open>
  \<open>e.sub(f, s)\<close> for an expression that never matches the empty string: \<open>m\<close> gives, where
  the expression matches at the start of its argument, the replacement and the length of the match.
\<close>

function re_sub :: "(string \<Rightarrow> (string \<times> nat) option) \<Rightarrow> string \<Rightarrow> string" where
  "re_sub m [] = []"
| "re_sub m (c # cs) = (case m (c # cs) of
       Some (r, n) \<Rightarrow> r @ re_sub m (drop (n - 1) cs)
     | None \<Rightarrow> c # re_sub m cs)"
  by pat_completeness auto
termination
  by (relation "measure (\<lambda>(m, s). length s)") auto

text \<open>\<open>line_continuations\<close>: a backslash, at most one carriage return, a line feed.\<close>

definition line_continuations :: "string \<Rightarrow> (string \<times> nat) option" where
  "line_continuations s =
     (if prefix [CHR 0x5C, CHR 0x0A] s then Some ('''', 2)
      else if prefix [CHR 0x5C, CHR 0x0D, CHR 0x0A] s then Some ('''', 3) else None)"

section \<open>Conditions\<close>

text \<open>
  \<open>CPP_to_Python_Ops_Expression\<close>: the keys sorted by length, so that \<open>!=\<close> comes before \<open>!\<close>.
\<close>

definition CPP_to_Python_Ops :: "string \<Rightarrow> (string \<times> nat) option" where
  "CPP_to_Python_Ops s =
     (if prefix ''!='' s then Some ('' != '', 2)
      else if prefix ''&&'' s then Some ('' and '', 2)
      else if prefix ''||'' s then Some ('' or '', 2)
      else if prefix ''!'' s then Some ('' not '', 1)
      else if prefix ''?'' s then Some ('' and '', 1)
      else if prefix '':'' s then Some ('' or '', 1)
      else if prefix [CHR 0x0D] s then Some ('''', 1) else None)"

text \<open>The text that replaces \<open>defined NAME\<close> and \<open>defined(NAME)\<close>.\<close>

definition has_key_call :: "string \<Rightarrow> string" where
  "has_key_call name = ''__dict__.has_key('' @ [CHR 0x22] @ name @ [CHR 0x22] @ '')''"

definition defined_space :: "string \<Rightarrow> (string \<times> nat) option" where
  "defined_space s =
     (let r = drop 7 s; w = takeWhile is_ws r; name = takeWhile is_word_char (dropWhile is_ws r)
      in if prefix ''defined'' s \<and> w \<noteq> '''' \<and> name \<noteq> '''' then Some (has_key_call name, 7 + length w + length name)
         else None)"

definition defined_paren :: "string \<Rightarrow> (string \<times> nat) option" where
  "defined_paren s =
     (let r = drop 7 s; w = takeWhile is_ws r; p = dropWhile is_ws r;
          name = takeWhile is_word_char (tl p); q = dropWhile is_word_char (tl p)
      in if prefix ''defined'' s \<and> prefix ''('' p \<and> name \<noteq> '''' \<and> prefix '')'' q
         then Some (has_key_call name, 7 + length w + length name + 2) else None)"

text \<open>
  The rest of the line as the expression \<open>.*\<close> matches it, and the length of the longest prefix
  of a string that ends in \<open>*/\<close>.
\<close>

definition rest_of_line :: "string \<Rightarrow> string" where
  "rest_of_line s = takeWhile (\<lambda>c. c \<noteq> CHR 0x0A) s"

fun last_close :: "string \<Rightarrow> nat option" where
  "last_close [] = None"
| "last_close (c # cs) = (case last_close cs of
       Some n \<Rightarrow> Some (Suc n)
     | None \<Rightarrow> if prefix ''*/'' (c # cs) then Some 2 else None)"

definition closed_comment :: "string \<Rightarrow> (string \<times> nat) option" where
  "closed_comment s =
     (if prefix ''/*'' s then map_option (\<lambda>n. ('''', 2 + n)) (last_close (rest_of_line (drop 2 s))) else None)"

definition open_comment :: "string \<Rightarrow> (string \<times> nat) option" where
  "open_comment s = (if prefix ''/*'' s then Some ('''', length (rest_of_line s)) else None)"

definition line_comment :: "string \<Rightarrow> (string \<times> nat) option" where
  "line_comment s = (if prefix ''//'' s then Some ('''', length (rest_of_line s)) else None)"

definition is_hex :: "char \<Rightarrow> bool" where
  "is_hex c \<longleftrightarrow> c \<in> set ''0123456789ABCDEFabcdef''"

definition hex_suffix :: "string \<Rightarrow> (string \<times> nat) option" where
  "hex_suffix s =
     (let d = takeWhile is_hex (drop 2 s); u = takeWhile (\<lambda>c. c \<in> set ''UL'') (dropWhile is_hex (drop 2 s))
      in if prefix ''0x'' s \<and> u \<noteq> '''' then Some (''0x'' @ d @ ''L'', 2 + length d + length u) else None)"

definition CPP_to_Python_Eval_List :: "(string \<Rightarrow> (string \<times> nat) option) list" where
  "CPP_to_Python_Eval_List =
     [defined_space, defined_paren, closed_comment, open_comment, line_comment, hex_suffix]"

definition CPP_to_Python :: "string \<Rightarrow> string" where
  "CPP_to_Python s = fold re_sub CPP_to_Python_Eval_List (re_sub CPP_to_Python_Ops s)"

section \<open>Directives\<close>

text \<open>The keys of \<open>Table\<close>, and the internal directive \<open>scons_current_file\<close>.\<close>

datatype directive =
    D_if | D_elif | D_ifdef | D_ifndef
  | D_import | D_include | D_include_next
  | D_else | D_endif
  | D_define | D_undef
  | D_current

fun dname :: "directive \<Rightarrow> string" where
  "dname D_if = ''if''"
| "dname D_elif = ''elif''"
| "dname D_ifdef = ''ifdef''"
| "dname D_ifndef = ''ifndef''"
| "dname D_import = ''import''"
| "dname D_include = ''include''"
| "dname D_include_next = ''include_next''"
| "dname D_else = ''else''"
| "dname D_endif = ''endif''"
| "dname D_define = ''define''"
| "dname D_undef = ''undef''"
| "dname D_current = ''scons_current_file''"

text \<open>
  A tuple: the directive and the groups its expression matched, where a group that took no part in
  the match is \<open>None\<close>.
\<close>

type_synonym cpp_tuple = "directive \<times> string option list"

text \<open>The entry of a directive in the list of expressions: \<open>if\<close> is overridden by \<open>if(?!def)\<close>.\<close>

definition key_matches :: "string \<Rightarrow> directive \<Rightarrow> bool" where
  "key_matches s d \<longleftrightarrow> prefix (dname d) s \<and> (d = D_if \<longrightarrow> \<not> prefix ''def'' (drop 2 s))"

text \<open>\<open>CPP_Expression\<close> at the start of a line: directive, rest of the line, remaining input.\<close>

definition match_line :: "directive list \<Rightarrow> string \<Rightarrow> (directive \<times> string \<times> string) option" where
  "match_line keys s = (case dropWhile is_ws s of
       [] \<Rightarrow> None
     | c # t \<Rightarrow>
         (if c \<noteq> CHR ''#'' then None
          else let u = dropWhile is_ws t
               in case find (key_matches u) keys of
                    None \<Rightarrow> None
                  | Some d \<Rightarrow> let r = drop (length (dname d)) u
                              in Some (d, rest_of_line r, drop (length (rest_of_line r)) r)))"

lemma match_line_shorter:
  assumes "match_line keys s = Some (d, r, s')"
  shows "length s' < length s"
proof (cases "dropWhile is_ws s")
  case (Cons c t)
  let ?u = "dropWhile is_ws t"
  have "length ?u \<le> length t" by (rule length_dropWhile_le)
  moreover have "length (c # t) \<le> length s" using length_dropWhile_le [of is_ws s] Cons by simp
  moreover have "length s' \<le> length ?u"
    using assms Cons by (auto simp: match_line_def Let_def simp del: dropWhile_eq_Cons_conv split: if_splits option.splits)
  ultimately show ?thesis by simp
qed (use assms in \<open>simp add: match_line_def del: dropWhile_eq_Nil_conv\<close>)

text \<open>\<open>CPP_Expression.findall\<close>; \<open>bol\<close> says that \<open>^\<close> matches here.\<close>

function find_lines :: "directive list \<Rightarrow> bool \<Rightarrow> string \<Rightarrow> (directive \<times> string) list" where
  "find_lines keys bol [] = []"
| "find_lines keys bol (c # cs) =
     (case if bol then match_line keys (c # cs) else None of
        Some (d, r, s') \<Rightarrow> (d, r) # find_lines keys False s'
      | None \<Rightarrow> find_lines keys (c = CHR 0x0A) cs)"
  by pat_completeness auto
termination
  by (relation "measure (\<lambda>(keys, bol, s). length s)") (auto dest: match_line_shorter split: if_splits)

text \<open>
  The expressions of \<open>Table\<close>, matched at the start of the rest of a line. White space that is not
  followed by anything gives its last character back to the group \<open>(.+)\<close>.
\<close>

definition ws_then_rest :: "nat \<Rightarrow> string \<Rightarrow> string option" where
  "ws_then_rest least s =
     (let w = takeWhile is_ws s; r = dropWhile is_ws s
      in if r \<noteq> '''' then (if least \<le> length w then Some r else None)
         else if least < length w then Some [last w] else None)"

definition match_name :: "string \<Rightarrow> (string \<times> string) option" where
  "match_name s =
     (let r = dropWhile is_ws s
      in if takeWhile is_ws s \<noteq> '''' \<and> r \<noteq> '''' \<and> is_letter (hd r)
         then Some (takeWhile is_word_char r, dropWhile is_word_char r) else None)"

definition match_params :: "string \<Rightarrow> string option \<times> string" where
  "match_params s =
     (if prefix ''('' s \<and> CHR '')'' \<in> set s
      then (Some (takeWhile (\<lambda>c. c \<noteq> CHR '')'') s @ '')''), tl (dropWhile (\<lambda>c. c \<noteq> CHR '')'') s))
      else (None, s))"

fun match_args :: "directive \<Rightarrow> string \<Rightarrow> string option list option" where
  "match_args D_else s = Some []"
| "match_args D_endif s = Some []"
| "match_args D_import s = map_option (\<lambda>r. [Some r]) (ws_then_rest 0 s)"
| "match_args D_include s = map_option (\<lambda>r. [Some r]) (ws_then_rest 0 s)"
| "match_args D_include_next s = map_option (\<lambda>r. [Some r]) (ws_then_rest 0 s)"
| "match_args D_define s =
     map_option (\<lambda>(name, t). let (params, u) = match_params t in [Some name, params, Some (dropWhile is_ws u)])
       (match_name s)"
| "match_args D_undef s = map_option (\<lambda>(name, t). [Some name]) (match_name s)"
| "match_args d s = map_option (\<lambda>r. [Some r]) (ws_then_rest 1 s)"

fun map_lines :: "(directive \<times> string) list \<Rightarrow> cpp_tuple list res" where
  "map_lines [] = Inr []"
| "map_lines ((d, r) # ls) = (case match_args d r of
       None \<Rightarrow> Inl AttributeError
     | Some args \<Rightarrow> res_bind (map_lines ls) (\<lambda>ts. Inr ((d, args) # ts)))"

definition tupleize :: "directive list \<Rightarrow> string \<Rightarrow> cpp_tuple list res" where
  "tupleize keys contents = map_lines (find_lines keys True (re_sub line_continuations contents))"

text \<open>
  What the code needs of \<open>Table.keys()\<close>: every directive is there, and of the two pairs in which
  one directive is a prefix of the other the longer one comes first. The negative
  lookahead only tells \<open>if\<close> from \<open>ifdef\<close>.
\<close>

definition good_order :: "directive list \<Rightarrow> bool" where
  "good_order keys \<longleftrightarrow> list_all (\<lambda>d. d \<in> set keys)
       [D_if, D_elif, D_ifdef, D_ifndef, D_import, D_include, D_include_next, D_else, D_endif, D_define, D_undef]
     \<and> D_current \<notin> set keys
     \<and> find (\<lambda>d. d = D_if \<or> d = D_ifndef) keys = Some D_ifndef
     \<and> find (\<lambda>d. d = D_include \<or> d = D_include_next) keys = Some D_include_next"

text \<open>The order of a dictionary with these keys in CPython 2, inserted as the module does it.\<close>

definition cpython_keys :: "directive list" where
  "cpython_keys = [D_elif, D_undef, D_include_next, D_endif, D_else, D_include, D_ifdef, D_ifndef, D_import,
     D_define, D_if]"

section \<open>Writing directives back\<close>

text \<open>One line of text per tuple, and the tuples that can be written on one line.\<close>

fun print_args :: "string option list \<Rightarrow> string" where
  "print_args [Some a] = CHR '' '' # a"
| "print_args [Some name, params, Some e] =
     CHR '' '' # name @ (case params of None \<Rightarrow> '''' | Some p \<Rightarrow> p) @ CHR '' '' # e"
| "print_args args = ''''"

definition print_tuple :: "cpp_tuple \<Rightarrow> string" where
  "print_tuple t = CHR ''#'' # dname (fst t) @ print_args (snd t) @ [CHR 0x0A]"

definition line_ok :: "string \<Rightarrow> bool" where
  "line_ok a \<longleftrightarrow> CHR 0x0A \<notin> set a \<and> \<not> suffix [CHR 0x5C] a \<and> \<not> suffix [CHR 0x5C, CHR 0x0D] a"

definition text_ok :: "string \<Rightarrow> bool" where
  "text_ok a \<longleftrightarrow> line_ok a \<and> (a = '''' \<or> \<not> is_ws (hd a))"

definition params_ok :: "string \<Rightarrow> bool" where
  "params_ok p \<longleftrightarrow> 2 \<le> length p \<and> hd p = CHR ''('' \<and> last p = CHR '')'' \<and> CHR '')'' \<notin> set (butlast p) \<and> CHR 0x0A \<notin> set p"

fun tuple_ok :: "cpp_tuple \<Rightarrow> bool" where
  "tuple_ok (D_else, args) = (args = [])"
| "tuple_ok (D_endif, args) = (args = [])"
| "tuple_ok (D_define, [Some name, params, Some e]) =
     (is_ident name \<and> (case params of None \<Rightarrow> True | Some p \<Rightarrow> params_ok p) \<and> text_ok e)"
| "tuple_ok (D_define, args) = False"
| "tuple_ok (D_undef, [Some name]) = is_ident name"
| "tuple_ok (D_undef, args) = False"
| "tuple_ok (D_current, args) = False"
| "tuple_ok (d, [Some a]) = (a \<noteq> '''' \<and> text_ok a)"
| "tuple_ok (d, args) = False"

lemma tuple_ok_cases:
  assumes "tuple_ok (d, args)"
  obtains (bare) "d = D_else \<or> d = D_endif" "args = []"
    | (macro) name params e where "d = D_define" "args = [Some name, params, Some e]" "is_ident name"
        "\<And>p. params = Some p \<Longrightarrow> params_ok p" "text_ok e"
    | (undef) name where "d = D_undef" "args = [Some name]" "is_ident name"
    | (one) a where "d \<in> {D_if, D_elif, D_ifdef, D_ifndef, D_import, D_include, D_include_next}"
        "args = [Some a]" "a \<noteq> ''''" "text_ok a"
  using assms by (cases "(d, args)" rule: tuple_ok.cases) (auto split: option.splits)

section \<open>Reading what was written\<close>

lemma re_sub_line [simp]:
  "line_ok a \<Longrightarrow> re_sub line_continuations (a @ CHR 0x0A # s) = a @ CHR 0x0A # re_sub line_continuations s"
proof (induction a)
  case (Cons c a)
  then have ok: "line_ok a" by (auto simp: line_ok_def suffix_Cons)
  have "line_continuations (c # a @ CHR 0x0A # s) = None"
  proof (cases a)
    case (Cons x b)
    then show ?thesis using \<open>line_ok (c # a)\<close>
      by (cases b) (auto simp: line_ok_def line_continuations_def suffix_Cons)
  qed (use Cons.prems in \<open>auto simp: line_ok_def line_continuations_def\<close>)
  with Cons.IH [OF ok] show ?case by simp
qed (simp add: line_continuations_def)

lemma rest_of_line_line [simp]: "CHR 0x0A \<notin> set a \<Longrightarrow> rest_of_line (a @ CHR 0x0A # s) = a"
  by (induction a) (auto simp: rest_of_line_def)

lemma dname_no_ws: "c \<in> set (dname d) \<Longrightarrow> \<not> is_ws c \<and> c \<noteq> CHR 0x0A \<and> c \<noteq> CHR 0x5C"
  by (cases d) (auto simp: is_ws_def)

lemma dname_neq_Nil [simp]: "dname d \<noteq> ''''"
  by (cases d) auto

lemma dropWhile_dname [simp]: "dropWhile is_ws (dname d @ s) = dname d @ s"
  by (cases d) (auto simp: is_ws_def)

text \<open>After a directive comes a space or the end of the line, so few alternatives match.\<close>

lemma key_matches_dname:
  assumes "r = CHR 0x0A # s \<or> r = CHR '' '' # s"
  shows "key_matches (dname d @ r) k \<longleftrightarrow>
    k = d \<or> (d = D_ifndef \<and> k = D_if) \<or> (d = D_include_next \<and> k = D_include)"
  using assms by (cases d; cases k) (auto simp: key_matches_def)

lemma find_member: "d \<in> set xs \<Longrightarrow> find (\<lambda>k. k = d) xs = Some d"
  by (induction xs) auto

lemma find_key:
  assumes ord: "good_order keys" and "d \<noteq> D_current" and r: "r = CHR 0x0A # s \<or> r = CHR '' '' # s"
  shows "find (key_matches (dname d @ r)) keys = Some d"
proof -
  have eq: "key_matches (dname d @ r) = (\<lambda>k. k = d \<or> (d = D_ifndef \<and> k = D_if) \<or> (d = D_include_next \<and> k = D_include))"
    using key_matches_dname [OF r] by blast
  have d: "d \<in> set keys" using ord \<open>d \<noteq> D_current\<close> by (cases d) (auto simp: good_order_def)
  consider "d = D_ifndef" | "d = D_include_next" | "d \<noteq> D_ifndef" "d \<noteq> D_include_next" by blast
  then show ?thesis
  proof cases
    case 1
    then have "key_matches (dname d @ r) = (\<lambda>k. k = D_if \<or> k = D_ifndef)" using eq by auto
    with ord 1 show ?thesis by (simp add: good_order_def)
  next
    case 2
    then have "key_matches (dname d @ r) = (\<lambda>k. k = D_include \<or> k = D_include_next)" using eq by auto
    with ord 2 show ?thesis by (simp add: good_order_def)
  next
    case 3
    then have "key_matches (dname d @ r) = (\<lambda>k. k = d)" using eq by auto
    with d show ?thesis by (simp add: find_member)
  qed
qed

lemma match_line_print:
  assumes "good_order keys" "d \<noteq> D_current" "CHR 0x0A \<notin> set a" "a = '''' \<or> (\<exists>b. a = CHR '' '' # b)"
  shows "match_line keys (CHR ''#'' # dname d @ a @ CHR 0x0A # s) = Some (d, a, CHR 0x0A # s)"
proof -
  have "\<exists>u. a @ CHR 0x0A # s = CHR 0x0A # u \<or> a @ CHR 0x0A # s = CHR '' '' # u" using assms(4) by auto
  then obtain u where "a @ CHR 0x0A # s = CHR 0x0A # u \<or> a @ CHR 0x0A # s = CHR '' '' # u" ..
  from find_key [OF assms(1,2) this] show ?thesis
    using assms(3) by (simp add: match_line_def is_ws_def)
qed

lemma is_ident_name [simp]:
  assumes "is_ident name" "r = '''' \<or> \<not> is_word_char (hd r)"
  shows "takeWhile is_word_char (name @ r) = name" "dropWhile is_word_char (name @ r) = r"
proof -
  have "\<forall>c \<in> set name. is_word_char c"
    using assms(1) by (cases name) (auto simp: is_ident_def is_word_char_def list_all_iff)
  with assms(2) show "takeWhile is_word_char (name @ r) = name" "dropWhile is_word_char (name @ r) = r"
    by (cases r; simp add: takeWhile_append2 dropWhile_append2)+
qed

lemma word_char_facts: "is_word_char c \<Longrightarrow> \<not> is_ws c \<and> c \<noteq> CHR 0x0A \<and> c \<noteq> CHR 0x5C \<and> c \<noteq> CHR 0x0D"
  by (auto simp: is_word_char_def is_letter_def is_ws_def)

lemma is_ident_facts:
  assumes "is_ident name"
  shows "name \<noteq> ''''" "\<not> is_ws (hd name)" "CHR 0x0A \<notin> set name" "CHR 0x5C \<notin> set name" "is_letter (hd name)"
proof -
  have "\<forall>c \<in> set name. is_word_char c"
    using assms by (cases name) (auto simp: is_ident_def is_word_char_def list_all_iff)
  moreover have "name \<noteq> ''''" using assms by (simp add: is_ident_def)
  ultimately have "is_word_char (hd name)" "\<And>c. c \<in> set name \<Longrightarrow> is_word_char c" "name \<noteq> ''''" by auto
  then show "name \<noteq> ''''" "\<not> is_ws (hd name)" "CHR 0x0A \<notin> set name" "CHR 0x5C \<notin> set name" "is_letter (hd name)"
    using assms word_char_facts by (blast, blast, blast, blast, simp add: is_ident_def)
qed

lemma ws_then_rest_print: "text_ok a \<Longrightarrow> a \<noteq> '''' \<Longrightarrow> n \<le> 1 \<Longrightarrow> ws_then_rest n (CHR '' '' # a) = Some a"
  by (cases a) (auto simp: ws_then_rest_def text_ok_def is_ws_def)

lemma take_until: "x \<notin> set q \<Longrightarrow> takeWhile (\<lambda>c. c \<noteq> x) (q @ x # r) = q"
  by (induction q) auto

lemma drop_until: "x \<notin> set q \<Longrightarrow> dropWhile (\<lambda>c. c \<noteq> x) (q @ x # r) = x # r"
  by (induction q) auto

lemma match_params_print:
  assumes "params_ok p"
  shows "match_params (p @ r) = (Some p, r)"
proof -
  define q where "q = butlast (tl p)"
  have "p = hd p # q @ [last p]"
    using assms by (cases p; cases "tl p" rule: rev_cases) (auto simp: params_ok_def q_def)
  then have p: "p = CHR ''('' # q @ '')''" using assms by (simp add: params_ok_def)
  moreover have "CHR '')'' \<notin> set q" using assms p by (simp add: params_ok_def butlast_append)
  ultimately show ?thesis
    by (simp add: match_params_def take_until drop_until)
qed

lemma match_args_print:
  assumes "tuple_ok (d, args)"
  shows "match_args d (print_args args) = Some args"
  using assms
proof (cases rule: tuple_ok_cases)
  case (macro name params e)
  note n = is_ident_facts [OF macro(3)]
  have name: "match_name (CHR '' '' # name @ r) = Some (name, r)" if "r = '''' \<or> \<not> is_word_char (hd r)" for r
    using is_ident_name [OF macro(3) that] n(1,2,5) by (cases name) (auto simp: match_name_def is_ws_def)
  have e: "dropWhile is_ws (CHR '' '' # e) = e" using macro(5) by (cases e) (auto simp: text_ok_def is_ws_def)
  show ?thesis
  proof (cases params)
    case None
    then show ?thesis using macro name [of "CHR '' '' # e"] e
      by (simp add: match_params_def is_word_char_def is_letter_def)
  next
    case (Some p)
    then have p: "params_ok p" using macro(4) by simp
    then have "\<not> is_word_char (hd (p @ CHR '' '' # e))"
      by (cases p) (auto simp: params_ok_def is_word_char_def is_letter_def)
    with Some macro name [of "p @ CHR '' '' # e"] e match_params_print [OF p]
    show ?thesis by simp
  qed
next
  case (undef name)
  note n = is_ident_facts [OF undef(3)]
  show ?thesis using undef n is_ident_name [OF undef(3), of "''''"]
    by (cases name) (auto simp: match_name_def is_ws_def)
qed (auto simp: ws_then_rest_print)

lemma line_ok_snoc: "a \<noteq> '''' \<Longrightarrow> CHR 0x0A \<notin> set a \<Longrightarrow> last a \<noteq> CHR 0x5C \<Longrightarrow> last a \<noteq> CHR 0x0D \<Longrightarrow> line_ok a"
  by (auto simp: line_ok_def suffix_def)

lemma line_ok_append:
  assumes "CHR 0x0A \<notin> set a" "line_ok b" "b = '''' \<Longrightarrow> line_ok a" "a \<noteq> '''' \<Longrightarrow> last a \<noteq> CHR 0x5C"
  shows "line_ok (a @ b)"
  using assms by (cases b rule: rev_cases; cases "butlast b" rule: rev_cases; cases a rule: rev_cases)
    (auto simp: line_ok_def suffix_def append_eq_append_conv2 Cons_eq_append_conv)

lemma print_line_ok:
  assumes "tuple_ok (d, args)"
  shows "line_ok (CHR ''#'' # dname d @ print_args args)"
proof -
  have d: "CHR 0x0A \<notin> set (CHR ''#'' # dname d)" "last (CHR ''#'' # dname d) \<noteq> CHR 0x5C"
    "last (CHR ''#'' # dname d) \<noteq> CHR 0x0D"
    by (cases d; simp)+
  have "line_ok (print_args args)"
    using assms
  proof (cases rule: tuple_ok_cases)
    case (macro name params e)
    have p: "CHR 0x0A \<notin> set (case params of None \<Rightarrow> '''' | Some p \<Rightarrow> p)"
      using macro(4) by (auto simp: params_ok_def split: option.splits)
    let ?a = "CHR '' '' # name @ (case params of None \<Rightarrow> '''' | Some p \<Rightarrow> p) @ '' ''"
    have "line_ok ?a" using is_ident_facts(3) [OF macro(3)] p by (intro line_ok_snoc) auto
    then have "line_ok (?a @ e)" using macro(5) by (intro line_ok_append) (simp_all add: text_ok_def line_ok_def)
    then show ?thesis using macro(2) by simp
  next
    case (undef name)
    have "line_ok name" using is_ident_facts(3,4) [OF undef(3)] by (auto simp: line_ok_def suffix_def)
    with undef line_ok_append [of "'' ''" name] is_ident_facts(1) [OF undef(3)] show ?thesis by simp
  next
    case (one a)
    then show ?thesis using line_ok_append [of "'' ''" a] by (simp add: text_ok_def)
  qed (simp add: line_ok_def)
  then have "line_ok ((CHR ''#'' # dname d) @ print_args args)"
    using d line_ok_snoc [of "CHR ''#'' # dname d"] by (intro line_ok_append) auto
  then show ?thesis by simp
qed

lemma print_args_shape:
  assumes "tuple_ok (d, args)"
  shows "d \<noteq> D_current" "print_args args = '''' \<or> (\<exists>b. print_args args = CHR '' '' # b)"
    "CHR 0x0A \<notin> set (print_args args)"
  using assms print_line_ok [OF assms] by (cases rule: tuple_ok_cases; auto simp: line_ok_def)+

lemma find_lines_print:
  assumes "good_order keys"
  shows "\<forall>t \<in> set ts. tuple_ok t \<Longrightarrow> find_lines keys True (re_sub line_continuations (concat (map print_tuple ts))) =
    map (\<lambda>(d, args). (d, print_args args)) ts"
proof (induction ts)
  case (Cons t ts)
  obtain d args where t: "t = (d, args)" by fastforce
  then have ok: "tuple_ok (d, args)" using Cons.prems by simp
  let ?s = "re_sub line_continuations (concat (map print_tuple ts))"
  have "re_sub line_continuations (concat (map print_tuple (t # ts))) =
      CHR ''#'' # dname d @ print_args args @ CHR 0x0A # ?s"
    using re_sub_line [OF print_line_ok [OF ok]] by (simp add: t print_tuple_def)
  moreover have "find_lines keys False (CHR 0x0A # ?s) = find_lines keys True ?s" by simp
  ultimately show ?case
    using Cons match_line_print [OF assms print_args_shape(1,3,2) [OF ok]] by (simp add: t)
qed simp

lemma map_lines_print:
  "\<forall>t \<in> set ts. tuple_ok t \<Longrightarrow> map_lines (map (\<lambda>(d, args). (d, print_args args)) ts) = Inr ts"
  by (induction ts) (auto simp: match_args_print)

text \<open>
  C29: Reading back what was written: a file that holds one well-formed directive per line gives, in
  order, exactly those directives with their arguments, for every order of the keys of
  \<open>Table\<close> in which \<open>ifndef\<close> comes before \<open>if\<close> and \<open>include_next\<close> before \<open>include\<close>.\<close>

theorem tupleize_roundtrip:
  assumes "good_order keys" and "\<forall>t \<in> set ts. tuple_ok t"
  shows "tupleize keys (concat (map print_tuple ts)) = Inr ts"
  using find_lines_print [OF assms] map_lines_print [OF assms(2)] by (simp add: tupleize_def)

theorem tupleize_roundtrip_witness:
  "tupleize cpython_keys (concat (map print_tuple
      [(D_ifndef, [Some ''A_H'']), (D_define, [Some ''M'', Some ''(x)'', Some ''x##1'']),
       (D_include_next, [Some ''<a.h>'']), (D_endif, [])])) =
    Inr [(D_ifndef, [Some ''A_H'']), (D_define, [Some ''M'', Some ''(x)'', Some ''x##1'']),
       (D_include_next, [Some ''<a.h>'']), (D_endif, [])]"
  by (rule tupleize_roundtrip)
    (simp_all add: cpython_keys_def good_order_def text_ok_def line_ok_def params_ok_def is_ident_def is_letter_def
      is_word_char_def is_ws_def suffix_def Cons_eq_append_conv)

text \<open>Where \<open>if\<close> is tried before \<open>ifndef\<close>, a line with \<open>#ifndef\<close> makes \<open>tupleize\<close> raise.\<close>

lemma ifndef_needs_order:
  assumes "find (key_matches ''ifndef X'') keys = Some D_if"
  shows "tupleize keys ''#ifndef X'' = Inl AttributeError"
  using assms
  by (simp add: tupleize_def line_continuations_def match_line_def is_ws_def rest_of_line_def ws_then_rest_def)

end
