(* ===== verification/Cpp.thy ===== *)
theory Cpp
  imports CppLex
begin

text \<open>
  The preprocessor of \<open>SCons/cpp.py\<close>: macros (\<open>FunctionEvaluator\<close>), the resolution of
  \<open>#include\<close> lines, and the class \<open>PreProcessor\<close> with its dispatch tables.

  Python's \<open>eval\<close> of an arbitrary expression, the file system and the order of the keys of
  \<open>Table\<close> are the fields of a record that every operation takes.
\<close>

section \<open>Macros\<close>

text \<open>
  The values of \<open>cpp_namespace\<close>: numbers, texts, function-like macros (name, parameters,
  and the expansion: the number it was converted to, or its parts around \<open>##\<close>), the namespace itself
  under the key \<open>__dict__\<close>, and the dictionary that \<open>eval\<close> stores under \<open>__builtins__\<close>.
\<close>

datatype cpp_val =
    CInt int
  | CStr string
  | CFun string "string list" "int + string list"
  | CDict
  | CBuiltins

type_synonym cpp_ns = "string \<rightharpoonup> cpp_val"

text \<open>
  \<open>py_eval\<close> is \<open>eval(s, namespace)\<close> as a truth value, \<open>py_eval_sum\<close> is \<open>eval\<close> of a sum
  whose operands are not all names or literals, \<open>files\<close> gives the contents of every regular file.
\<close>

record cpp_world =
  table_keys :: "directive list"
  py_eval :: "cpp_ns \<Rightarrow> string \<Rightarrow> bool res"
  py_eval_sum :: "cpp_ns \<Rightarrow> string list \<Rightarrow> cpp_val res"
  files :: "string \<rightharpoonup> string"

definition py_digit :: "char \<Rightarrow> bool" where
  "py_digit c \<longleftrightarrow> c \<in> set ''0123456789''"

definition digits_value :: "string \<Rightarrow> int" where
  "digits_value s = fold (\<lambda>c n. 10 * n + (int (of_char c) - 48)) s 0"

definition py_strip :: "string \<Rightarrow> string" where
  "py_strip s = rev (dropWhile is_ws (rev (dropWhile is_ws s)))"

text \<open>\<open>int(s)\<close>, \<open>None\<close> where it raises \<open>ValueError\<close>.\<close>

definition py_int :: "string \<Rightarrow> int option" where
  "py_int s =
     (let t = py_strip s; neg = prefix ''-'' t; d = (if neg \<or> prefix ''+'' t then tl t else t)
      in if d \<noteq> '''' \<and> list_all py_digit d then Some (if neg then - digits_value d else digits_value d) else None)"

text \<open>\<open>function_arg_separator.split(s)\<close>: a comma and the white space after it separate.\<close>

fun split_args_acc :: "string \<Rightarrow> bool \<Rightarrow> string \<Rightarrow> string list" where
  "split_args_acc acc skip [] = [rev acc]"
| "split_args_acc acc skip (c # cs) =
     (if skip \<and> is_ws c then split_args_acc acc True cs
      else if c = CHR '','' then rev acc # split_args_acc [] True cs
      else split_args_acc (c # acc) False cs)"

definition split_args :: "string \<Rightarrow> string list" where
  "split_args s = split_args_acc [] False s"

definition FunctionEvaluator_init :: "string \<Rightarrow> string \<Rightarrow> int + string \<Rightarrow> cpp_val" where
  "FunctionEvaluator_init name args expansion =
     CFun name (split_args args) (case expansion of Inl n \<Rightarrow> Inl n | Inr s \<Rightarrow> Inr (py_split ''##'' s))"

text \<open>
  \<open>FunctionEvaluator.__call__\<close>. The statement that is evaluated is the sum of the parts, a
  parameter standing for its value and every other part for itself; with two parameters of one name
  the later value wins.
\<close>

definition macro_locals :: "string list \<Rightarrow> string list \<Rightarrow> string \<rightharpoonup> string" where
  "macro_locals params values = map_of (rev (zip params values))"

definition FunctionEvaluator_call ::
    "cpp_world \<Rightarrow> string list \<Rightarrow> int + string list \<Rightarrow> string list \<Rightarrow> cpp_val res" where
  "FunctionEvaluator_call W params expansion values =
     (if length params \<noteq> length values then Inl ValueError
      else let locals = macro_locals params values
           in case expansion of
                Inl n \<Rightarrow> Inl TypeError
              | Inr parts \<Rightarrow>
                  (if list_all (\<lambda>s. s \<in> set params \<longrightarrow> py_name s) parts
                   then Inr (CStr (concat (map (\<lambda>s. case locals s of Some v \<Rightarrow> v | None \<Rightarrow> s) parts)))
                   else py_eval_sum W (map_option CStr \<circ> locals) parts))"

text \<open>
  \<open>function_name.search(s)\<close>: at the first position where there is a match, the longest run
  without white space that is followed by a parenthesised text.
\<close>

definition after_open :: "string \<Rightarrow> string option" where
  "after_open s = (if prefix ''('' s \<and> CHR '')'' \<in> set s then Some (takeWhile (\<lambda>c. c \<noteq> CHR '')'') (tl s)) else None)"

fun longest_name :: "string \<Rightarrow> (string \<times> string) option" where
  "longest_name [] = None"
| "longest_name (c # cs) =
     (if is_ws c then None
      else case longest_name cs of
             Some (n, a) \<Rightarrow> Some (c # n, a)
           | None \<Rightarrow> map_option (\<lambda>a. ([c], a)) (after_open cs))"

fun function_name_search :: "string \<Rightarrow> (string \<times> string) option" where
  "function_name_search [] = None"
| "function_name_search (c # cs) = (case longest_name (c # cs) of
       Some m \<Rightarrow> Some m
     | None \<Rightarrow> function_name_search cs)"

section \<open>Resolving an include\<close>

text \<open>\<open>s[0] in '<"'\<close>, with the exception each kind of value raises for \<open>s[0]\<close>.\<close>

fun is_quoted :: "cpp_val \<Rightarrow> bool res" where
  "is_quoted (CStr []) = Inl IndexError"
| "is_quoted (CStr (c # cs)) = Inr (c = CHR ''<'' \<or> c = CHR 0x22)"
| "is_quoted (CInt n) = Inl TypeError"
| "is_quoted (CFun name params e) = Inl AttributeError"
| "is_quoted CDict = Inl (KeyError ''0'')"
| "is_quoted CBuiltins = Inl (KeyError ''0'')"

fun falsy :: "cpp_val \<Rightarrow> bool" where
  "falsy (CStr s) = (s = [])"
| "falsy (CInt n) = (n = 0)"
| "falsy v = False"

text \<open>One expansion of a text that is not quoted.\<close>

definition expand_once :: "cpp_world \<Rightarrow> cpp_ns \<Rightarrow> string \<Rightarrow> cpp_val res" where
  "expand_once W ns s = (case ns s of
       Some v \<Rightarrow> Inr v
     | None \<Rightarrow> (case function_name_search s of
           None \<Rightarrow> Inl AttributeError
         | Some (f, a) \<Rightarrow> (case ns f of
               None \<Rightarrow> Inl (KeyError f)
             | Some (CFun name params e) \<Rightarrow> FunctionEvaluator_call W params e (split_args a)
             | Some v \<Rightarrow> Inr v)))"

text \<open>The loop of \<open>resolve_include\<close>; \<open>Inr None\<close> is its \<open>return None\<close>. It may not end.\<close>

partial_function (option) resolve_loop :: "cpp_world \<Rightarrow> cpp_ns \<Rightarrow> cpp_val \<Rightarrow> string option res option" where
  "resolve_loop W ns v = (case is_quoted v of
       Inl e \<Rightarrow> Some (Inl e)
     | Inr q \<Rightarrow> (case v of
           CStr s \<Rightarrow>
             (if q then Some (Inr (Some s))
              else (case expand_once W ns s of
                  Inl e \<Rightarrow> Some (Inl e)
                | Inr w \<Rightarrow> if falsy w then Some (Inr None) else resolve_loop W ns w))
         | _ \<Rightarrow> Some (Inl TypeError)))"

type_synonym include_tuple = "directive \<times> char \<times> string"

definition resolve_include :: "cpp_world \<Rightarrow> cpp_ns \<Rightarrow> cpp_tuple \<Rightarrow> include_tuple option res option" where
  "resolve_include W ns t = (case snd t of
       [] \<Rightarrow> Some (Inl IndexError)
     | None # _ \<Rightarrow> Some (Inl TypeError)
     | Some a # _ \<Rightarrow>
         map_option (\<lambda>r. res_bind r (\<lambda>x. Inr (map_option (\<lambda>s. (fst t, hd s, butlast (tl s))) x)))
           (resolve_loop W ns (CStr a)))"

section \<open>The state of the preprocessor\<close>

text \<open>The methods that the dispatch tables hold.\<close>

datatype cpp_method =
    M_nothing | M_current_file
  | M_if | M_elif | M_ifdef | M_ifndef | M_else | M_endif
  | M_define | M_undef
  | M_import | M_include | M_all_include
  | M_start | M_stop

type_synonym cpp_table = "directive \<Rightarrow> cpp_method"

text \<open>The entries of \<open>result\<close>: a file name, or what \<open>all_include\<close> appends.\<close>

datatype cpp_item = R_file "string option" | R_tuple "include_tuple option"

record preprocessor =
  all_flag :: bool  \<comment> \<open>\<open>do_include\<close> of the object is \<open>all_include\<close>\<close>
  searchpath :: "char \<Rightarrow> string list"
  cpp_namespace :: cpp_ns
  default_table :: cpp_table
  dispatch_table :: cpp_table
  stack :: "cpp_table list"  \<comment> \<open>the top is the last element\<close>
  cur_file :: "string option"
  tuples :: "cpp_tuple list"
  result :: "cpp_item list"

definition do_include_method :: "bool \<Rightarrow> cpp_method" where
  "do_include_method all = (if all then M_all_include else M_include)"

text \<open>
  \<open>getattr(self, 'do_' + op)\<close>: the class attribute \<open>do_include_next\<close> is the original
  \<open>do_include\<close> even where the object's \<open>do_include\<close> was replaced.
\<close>

fun own_method :: "bool \<Rightarrow> directive \<Rightarrow> cpp_method" where
  "own_method all D_if = M_if"
| "own_method all D_elif = M_elif"
| "own_method all D_ifdef = M_ifdef"
| "own_method all D_ifndef = M_ifndef"
| "own_method all D_import = M_import"
| "own_method all D_include = do_include_method all"
| "own_method all D_include_next = M_include"
| "own_method all D_else = M_else"
| "own_method all D_endif = M_endif"
| "own_method all D_define = M_define"
| "own_method all D_undef = M_undef"
| "own_method all D_current = M_current_file"

definition PreProcessor_init :: "string \<Rightarrow> string list \<Rightarrow> cpp_ns \<Rightarrow> bool \<Rightarrow> preprocessor" where
  "PreProcessor_init current cpppath dict all =
     \<lparr>all_flag = all,
      searchpath = (\<lambda>c. if c = CHR 0x22 then current # cpppath else cpppath @ [current]),
      cpp_namespace = dict(''__dict__'' \<mapsto> CDict),
      default_table = own_method all, dispatch_table = own_method all, stack = [],
      cur_file = None, tuples = [], result = []\<rparr>"

definition dumb_table :: "cpp_table \<Rightarrow> cpp_table" where
  "dumb_table d = fold (\<lambda>op t. t(op := M_nothing)) [D_if, D_elif, D_else, D_endif, D_ifdef, D_ifndef] d"

definition DumbPreProcessor_init :: "string \<Rightarrow> string list \<Rightarrow> cpp_ns \<Rightarrow> bool \<Rightarrow> preprocessor" where
  "DumbPreProcessor_init current cpppath dict all =
     (PreProcessor_init current cpppath dict all)\<lparr>default_table := dumb_table (own_method all)\<rparr>"

section \<open>Operations\<close>

definition save :: "preprocessor \<Rightarrow> preprocessor" where
  "save p = p\<lparr>stack := stack p @ [dispatch_table p], dispatch_table := default_table p\<rparr>"

definition restore :: "preprocessor \<Rightarrow> preprocessor" where
  "restore p = (case py_pop (stack p) of
       None \<Rightarrow> p
     | Some (t, ts) \<Rightarrow> p\<lparr>dispatch_table := t, stack := ts\<rparr>)"

text \<open>
  \<open>eval_expression\<close>: \<open>eval\<close> stores \<open>__builtins__\<close> in the namespace it is given; a name that
  is not defined and an operand of the wrong type count as false.
\<close>

definition is_name_error :: "py_exc \<Rightarrow> bool" where
  "is_name_error e \<longleftrightarrow> (case e of OtherError cls msg \<Rightarrow> cls = ''NameError'' | _ \<Rightarrow> False)"

definition add_builtins :: "cpp_ns \<Rightarrow> cpp_ns" where
  "add_builtins ns = (case ns ''__builtins__'' of None \<Rightarrow> ns(''__builtins__'' \<mapsto> CBuiltins) | Some _ \<Rightarrow> ns)"

definition eval_condition :: "cpp_world \<Rightarrow> cpp_ns \<Rightarrow> cpp_tuple \<Rightarrow> (cpp_ns \<times> bool) res" where
  "eval_condition W ns0 t =
     (if None \<in> set (snd t) then Inl TypeError
      else let ns = add_builtins ns0
           in case py_eval W ns (CPP_to_Python (py_join '' '' (map the (snd t)))) of
                Inr b \<Rightarrow> Inr (ns, b)
              | Inl e \<Rightarrow> if is_name_error e \<or> e = TypeError then Inr (ns, False) else Inl e)"

definition eval_expression :: "cpp_world \<Rightarrow> preprocessor \<Rightarrow> cpp_tuple \<Rightarrow> (preprocessor \<times> bool) res" where
  "eval_expression W p t =
     res_bind (eval_condition W (cpp_namespace p) t) (\<lambda>(ns, b). Inr (p\<lparr>cpp_namespace := ns\<rparr>, b))"

definition start_handling_includes :: "preprocessor \<Rightarrow> preprocessor" where
  "start_handling_includes p = p\<lparr>dispatch_table := (dispatch_table p)
     (D_import := M_import, D_include := do_include_method (all_flag p), D_include_next := do_include_method (all_flag p))\<rparr>"

definition stop_handling_includes :: "preprocessor \<Rightarrow> preprocessor" where
  "stop_handling_includes p = p\<lparr>dispatch_table := (dispatch_table p)
     (D_import := M_nothing, D_include := M_nothing, D_include_next := M_nothing)\<rparr>"

definition set_branches :: "cpp_method \<Rightarrow> cpp_method \<Rightarrow> preprocessor \<Rightarrow> preprocessor" where
  "set_branches m1 m2 p = p\<lparr>dispatch_table := (dispatch_table p)(D_elif := m1, D_else := m2)\<rparr>"

definition do_if_else_condition :: "bool \<Rightarrow> preprocessor \<Rightarrow> preprocessor" where
  "do_if_else_condition condition p =
     (if condition then set_branches M_stop M_stop (start_handling_includes (save p))
      else set_branches M_elif M_start (stop_handling_includes (save p)))"

definition do_ifdef :: "bool \<Rightarrow> cpp_tuple \<Rightarrow> preprocessor \<Rightarrow> preprocessor res" where
  "do_ifdef negated t p = (case snd t of
       Some name # _ \<Rightarrow> Inr (do_if_else_condition ((cpp_namespace p name \<noteq> None) \<noteq> negated) p)
     | None # _ \<Rightarrow> Inr (do_if_else_condition negated p)
     | [] \<Rightarrow> Inl IndexError)"

definition do_if :: "cpp_world \<Rightarrow> cpp_tuple \<Rightarrow> preprocessor \<Rightarrow> preprocessor res" where
  "do_if W t p = res_bind (eval_expression W p t) (\<lambda>(p1, b). Inr (do_if_else_condition b p1))"

definition do_elif :: "cpp_world \<Rightarrow> cpp_tuple \<Rightarrow> preprocessor \<Rightarrow> preprocessor res" where
  "do_elif W t p = res_bind (eval_expression W p t) (\<lambda>(p1, b).
     Inr (if b then set_branches M_stop M_stop (start_handling_includes p1) else p1))"

definition define_value :: "string \<Rightarrow> string option \<Rightarrow> string \<Rightarrow> cpp_val" where
  "define_value name args e =
     (let expansion = (case py_int e of Some n \<Rightarrow> Inl n | None \<Rightarrow> Inr e)
      in case args of
           Some a \<Rightarrow> if a \<noteq> '''' then FunctionEvaluator_init name (butlast (tl a)) expansion
                     else case_sum CInt CStr expansion
         | None \<Rightarrow> case_sum CInt CStr expansion)"

definition do_define :: "cpp_tuple \<Rightarrow> preprocessor \<Rightarrow> preprocessor res" where
  "do_define t p = (case snd t of
       [Some name, args, Some e] \<Rightarrow>
         Inr (p\<lparr>cpp_namespace := (cpp_namespace p)(name \<mapsto> define_value name args e)\<rparr>)
     | _ \<Rightarrow> Inl ValueError)"

definition do_undef :: "cpp_tuple \<Rightarrow> preprocessor \<Rightarrow> preprocessor res" where
  "do_undef t p = (case snd t of
       Some name # _ \<Rightarrow> Inr (p\<lparr>cpp_namespace := (cpp_namespace p)(name := None)\<rparr>)
     | None # _ \<Rightarrow> Inr p
     | [] \<Rightarrow> Inl IndexError)"

text \<open>\<open>find_include_file\<close>: subscripting \<open>None\<close> raises \<open>TypeError\<close>.\<close>

definition include_path :: "string \<Rightarrow> string \<Rightarrow> string" where
  "include_path fname d = (if d = ''.'' then fname else path_join d fname)"

definition find_include_file :: "cpp_world \<Rightarrow> preprocessor \<Rightarrow> include_tuple option \<Rightarrow> string option res" where
  "find_include_file W p t = (case t of
       None \<Rightarrow> Inl TypeError
     | Some (d, c, fname) \<Rightarrow>
         Inr (find (\<lambda>f. files W f \<noteq> None) (map (include_path fname) (searchpath p c))))"

definition read_file :: "cpp_world \<Rightarrow> string \<Rightarrow> string res" where
  "read_file W f = (case files W f of
       Some s \<Rightarrow> Inr s
     | None \<Rightarrow> Inl (OSErr 2 ''No such file or directory'' (Some f)))"

text \<open>The part of \<open>do_include\<close> after the file has been found; an empty name is not a file.\<close>

definition include_contents :: "cpp_world \<Rightarrow> string option \<Rightarrow> preprocessor \<Rightarrow> preprocessor res" where
  "include_contents W f p = (case f of
       None \<Rightarrow> Inr p
     | Some g \<Rightarrow>
         (if g = '''' then Inr p
          else res_bind (read_file W g) (\<lambda>contents.
            res_bind (tupleize (table_keys W) contents) (\<lambda>ts.
              Inr (p\<lparr>result := result p @ [R_file (Some g)],
                    tuples := (D_current, [Some g]) # ts @ (D_current, [cur_file p]) # tuples p\<rparr>)))))"

definition do_include :: "cpp_world \<Rightarrow> cpp_tuple \<Rightarrow> preprocessor \<Rightarrow> preprocessor res option" where
  "do_include W t p = map_option (\<lambda>r. res_bind r (\<lambda>x.
     res_bind (find_include_file W p x) (\<lambda>f. include_contents W f p))) (resolve_include W (cpp_namespace p) t)"

definition all_include :: "cpp_world \<Rightarrow> cpp_tuple \<Rightarrow> preprocessor \<Rightarrow> preprocessor res option" where
  "all_include W t p = map_option (\<lambda>r. res_bind r (\<lambda>x. Inr (p\<lparr>result := result p @ [R_tuple x]\<rparr>)))
     (resolve_include W (cpp_namespace p) t)"

definition scons_current_file :: "cpp_tuple \<Rightarrow> preprocessor \<Rightarrow> preprocessor res" where
  "scons_current_file t p = (case snd t of f # _ \<Rightarrow> Inr (p\<lparr>cur_file := f\<rparr>) | [] \<Rightarrow> Inl IndexError)"

text \<open>A method applied to a tuple. \<open>None\<close> means that it does not return.\<close>

fun call_method :: "cpp_world \<Rightarrow> cpp_method \<Rightarrow> cpp_tuple \<Rightarrow> preprocessor \<Rightarrow> preprocessor res option" where
  "call_method W M_nothing t p = Some (Inr p)"
| "call_method W M_current_file t p = Some (scons_current_file t p)"
| "call_method W M_if t p = Some (do_if W t p)"
| "call_method W M_elif t p = Some (do_elif W t p)"
| "call_method W M_ifdef t p = Some (do_ifdef False t p)"
| "call_method W M_ifndef t p = Some (do_ifdef True t p)"
| "call_method W M_else t p = Some (Inr p)"
| "call_method W M_endif t p = Some (Inr (restore p))"
| "call_method W M_define t p = Some (do_define t p)"
| "call_method W M_undef t p = Some (do_undef t p)"
| "call_method W M_import t p = Some (Inr p)"
| "call_method W M_include t p = do_include W t p"
| "call_method W M_all_include t p = all_include W t p"
| "call_method W M_start t p = Some (Inr (start_handling_includes p))"
| "call_method W M_stop t p = Some (Inr (stop_handling_includes p))"

definition process_tuple :: "cpp_world \<Rightarrow> cpp_tuple \<Rightarrow> preprocessor \<Rightarrow> preprocessor res option" where
  "process_tuple W t p = call_method W (dispatch_table p (fst t)) t p"

text \<open>The loop of \<open>process_contents\<close>.\<close>

partial_function (option) process_loop :: "cpp_world \<Rightarrow> preprocessor \<Rightarrow> preprocessor res option" where
  "process_loop W p = (case tuples p of
       [] \<Rightarrow> Some (Inr p)
     | t # ts \<Rightarrow> Option.bind (process_tuple W t (p\<lparr>tuples := ts\<rparr>)) (\<lambda>r.
         case r of Inl e \<Rightarrow> Some (Inl e) | Inr p1 \<Rightarrow> process_loop W p1))"

definition process_contents ::
    "cpp_world \<Rightarrow> string \<Rightarrow> string option \<Rightarrow> preprocessor \<Rightarrow> (preprocessor \<times> cpp_item list) res option" where
  "process_contents W contents fname p = (case tupleize (table_keys W) contents of
       Inl e \<Rightarrow> Some (Inl e)
     | Inr ts \<Rightarrow>
         map_option (\<lambda>r. res_bind r (\<lambda>q. Inr (q, tl (result q))))
           (process_loop W (p\<lparr>stack := [], dispatch_table := default_table p, cur_file := fname, tuples := ts,
              result := [R_file fname]\<rparr>)))"

definition PreProcessor_call :: "cpp_world \<Rightarrow> string \<Rightarrow> preprocessor \<Rightarrow> (preprocessor \<times> cpp_item list) res option" where
  "PreProcessor_call W f p = (case read_file W f of
       Inl e \<Rightarrow> Some (Inl e)
     | Inr contents \<Rightarrow> process_contents W contents (Some f) (p\<lparr>cur_file := Some f\<rparr>))"

end
