(* ===== verification/CppCond.thy ===== *)
theory CppCond
  imports Cpp
begin

text \<open>
  Conditional groups. The preprocessor keeps no notion of a group: it rewrites the entries of a
  dispatch table. Here the tables are related to the nesting of \<open>#if\<close>, \<open>#elif\<close>, \<open>#else\<close> and
  \<open>#endif\<close> in the text, for an object that reports all includes (\<open>all=1\<close>), and the
  includes that are reported are compared with what the language C prescribes.
\<close>

section \<open>Nested groups\<close>

datatype prog = Stop | Line cpp_tuple prog | Group cpp_tuple prog branches prog
  and branches = Endif | Elif cpp_tuple prog branches | Else prog

primrec flat :: "prog \<Rightarrow> cpp_tuple list" and flat_branches :: "branches \<Rightarrow> cpp_tuple list" where
  "flat Stop = []"
| "flat (Line t k) = t # flat k"
| "flat (Group t b bs k) = t # flat b @ flat_branches bs @ flat k"
| "flat_branches Endif = [(D_endif, [])]"
| "flat_branches (Elif t b bs) = t # flat b @ flat_branches bs"
| "flat_branches (Else b) = (D_else, []) # flat b @ [(D_endif, [])]"

text \<open>The lines and the openings of groups that are where they belong.\<close>

definition plain_line :: "cpp_tuple \<Rightarrow> bool" where
  "plain_line t \<longleftrightarrow> fst t = D_import \<or> fst t = D_include \<or> fst t = D_define \<or> fst t = D_undef"

primrec prog_ok :: "prog \<Rightarrow> bool" and branches_ok :: "branches \<Rightarrow> bool" where
  "prog_ok Stop = True"
| "prog_ok (Line t k) = (plain_line t \<and> prog_ok k)"
| "prog_ok (Group t b bs k) =
     ((fst t = D_if \<or> fst t = D_ifdef \<or> fst t = D_ifndef) \<and> prog_ok b \<and> branches_ok bs \<and> prog_ok k)"
| "branches_ok Endif = True"
| "branches_ok (Elif t b bs) = (fst t = D_elif \<and> prog_ok b \<and> branches_ok bs)"
| "branches_ok (Else b) = prog_ok b"

text \<open>The observable state: the macros and the result.\<close>

type_synonym cpp_obs = "cpp_ns \<times> cpp_item list"

text \<open>A line that is not a conditional, and the condition of an opening line.\<close>

definition run_line :: "cpp_world \<Rightarrow> cpp_tuple \<Rightarrow> cpp_obs \<Rightarrow> cpp_obs res option" where
  "run_line W t s = (case t of
       (D_include, args) \<Rightarrow>
         map_option (\<lambda>r. res_bind r (\<lambda>x. Inr (fst s, snd s @ [R_tuple x]))) (resolve_include W (fst s) t)
     | (D_define, [Some name, args, Some e]) \<Rightarrow> Some (Inr ((fst s)(name \<mapsto> define_value name args e), snd s))
     | (D_define, _) \<Rightarrow> Some (Inl ValueError)
     | (D_undef, Some name # _) \<Rightarrow> Some (Inr ((fst s)(name := None), snd s))
     | (D_undef, []) \<Rightarrow> Some (Inl IndexError)
     | _ \<Rightarrow> Some (Inr s))"

definition condition :: "cpp_world \<Rightarrow> cpp_tuple \<Rightarrow> cpp_obs \<Rightarrow> (cpp_obs \<times> bool) res option" where
  "condition W t s = (case t of
       (D_ifdef, Some name # _) \<Rightarrow> Some (Inr (s, fst s name \<noteq> None))
     | (D_ifdef, None # _) \<Rightarrow> Some (Inr (s, False))
     | (D_ifdef, []) \<Rightarrow> Some (Inl IndexError)
     | (D_ifndef, Some name # _) \<Rightarrow> Some (Inr (s, fst s name = None))
     | (D_ifndef, None # _) \<Rightarrow> Some (Inr (s, True))
     | (D_ifndef, []) \<Rightarrow> Some (Inl IndexError)
     | _ \<Rightarrow> Some (res_bind (eval_condition W (fst s) t) (\<lambda>(ns, b). Inr ((ns, snd s), b))))"

text \<open>
  What the code does with nested groups: \<open>on\<close> only governs the lines of the innermost group, and
  only those that include.
\<close>

definition scons_line :: "cpp_world \<Rightarrow> bool \<Rightarrow> cpp_tuple \<Rightarrow> cpp_obs \<Rightarrow> cpp_obs res option" where
  "scons_line W on t s = (if \<not> on \<and> (fst t = D_include \<or> fst t = D_import) then Some (Inr s) else run_line W t s)"

primrec scons_prog :: "cpp_world \<Rightarrow> prog \<Rightarrow> bool \<Rightarrow> cpp_obs \<Rightarrow> cpp_obs res option"
    and scons_branches :: "cpp_world \<Rightarrow> branches \<Rightarrow> bool \<Rightarrow> cpp_obs \<Rightarrow> cpp_obs res option" where
  "scons_prog W Stop on s = Some (Inr s)"
| "scons_prog W (Line t k) on s = obs_bind (scons_line W on t s) (scons_prog W k on)"
| "scons_prog W (Group t b bs k) on s = obs_bind (condition W t s) (\<lambda>(s1, c).
     obs_bind (scons_prog W b c s1) (\<lambda>s2. obs_bind (scons_branches W bs c s2) (scons_prog W k on)))"
| "scons_branches W Endif taken s = Some (Inr s)"
| "scons_branches W (Elif t b bs) taken s =
     (if taken then obs_bind (scons_prog W b False s) (scons_branches W bs True)
      else obs_bind (condition W t s) (\<lambda>(s1, c). obs_bind (scons_prog W b c s1) (scons_branches W bs c)))"
| "scons_branches W (Else b) taken s = scons_prog W b (\<not> taken) s"

section \<open>The dispatch tables\<close>

text \<open>
  A table in which the includes are on or off, and the table inside a group of which a
  branch was or was not taken so far.
\<close>

definition table_on :: "bool \<Rightarrow> cpp_table \<Rightarrow> bool" where
  "table_on on T \<longleftrightarrow>
     (\<forall>d \<in> {D_if, D_ifdef, D_ifndef, D_endif, D_define, D_undef}. T d = own_method True d) \<and>
     (\<forall>d \<in> {D_import, D_include}. T d = (if on then own_method True d else M_nothing))"

definition table_taken :: "bool \<Rightarrow> cpp_table \<Rightarrow> bool" where
  "table_taken taken T \<longleftrightarrow>
     T D_elif = (if taken then M_stop else M_elif) \<and> T D_else = (if taken then M_stop else M_start)"

definition with_obs :: "cpp_obs \<Rightarrow> preprocessor \<Rightarrow> preprocessor" where
  "with_obs s p = p\<lparr>cpp_namespace := fst s, result := snd s\<rparr>"

abbreviation obs_of :: "preprocessor \<Rightarrow> cpp_obs" where
  "obs_of p \<equiv> (cpp_namespace p, result p)"

lemma process_loop_Nil [simp]: "tuples p = [] \<Longrightarrow> process_loop W p = Some (Inr p)"
  by (subst process_loop.simps) simp

lemma process_loop_Cons:
  "tuples p = t # ts \<Longrightarrow> process_loop W p = obs_bind (process_tuple W t (p\<lparr>tuples := ts\<rparr>)) (process_loop W)"
  by (subst process_loop.simps) (simp add: obs_bind_def)

text \<open>
  The state in which the loop stands: the object \<open>p\<close> with a dispatch table, a stack, the
  remaining tuples and the observable part.
\<close>

definition pos :: "preprocessor \<Rightarrow> cpp_table \<Rightarrow> cpp_table list \<Rightarrow> cpp_tuple list \<Rightarrow> cpp_obs \<Rightarrow> preprocessor" where
  "pos p T S ts s = p\<lparr>dispatch_table := T, stack := S, tuples := ts, cpp_namespace := fst s, result := snd s\<rparr>"

lemma pos_fields [simp]:
  "dispatch_table (pos p T S ts s) = T" "stack (pos p T S ts s) = S" "tuples (pos p T S ts s) = ts"
  "cpp_namespace (pos p T S ts s) = fst s" "result (pos p T S ts s) = snd s"
  "all_flag (pos p T S ts s) = all_flag p" "default_table (pos p T S ts s) = default_table p"
  "tuples_update f (pos p T S ts s) = pos p T S (f ts) s"
  "dispatch_table_update g (pos p T S ts s) = pos p (g T) S ts s"
  "stack_update h (pos p T S ts s) = pos p T (h S) ts s"
  "cpp_namespace_update i (pos p T S ts s) = pos p T S ts (i (fst s), snd s)"
  "result_update j (pos p T S ts s) = pos p T S ts (fst s, j (snd s))"
  by (simp_all add: pos_def)

definition report_all :: "preprocessor \<Rightarrow> bool" where
  "report_all p \<longleftrightarrow> all_flag p \<and> default_table p = own_method True"

definition start_table :: "cpp_table \<Rightarrow> cpp_table" where
  "start_table T = T(D_import := M_import, D_include := M_all_include, D_include_next := M_all_include)"

definition stop_table :: "cpp_table \<Rightarrow> cpp_table" where
  "stop_table T = T(D_import := M_nothing, D_include := M_nothing, D_include_next := M_nothing)"

definition branch_table :: "bool \<Rightarrow> cpp_table" where
  "branch_table c =
     (if c then (start_table (own_method True))(D_elif := M_stop, D_else := M_stop)
      else (stop_table (own_method True))(D_elif := M_elif, D_else := M_start))"

lemmas table_defs = table_on_def table_taken_def start_table_def stop_table_def do_include_method_def

lemma branch_table_ok [simp]: "table_on c (branch_table c)" "table_taken c (branch_table c)"
  by (simp_all add: branch_table_def table_defs)

lemma start_table_ok:
  "table_on on T \<Longrightarrow> table_on True (start_table T)" "table_taken k T \<Longrightarrow> table_taken k (start_table T)"
  by (simp_all add: table_defs)

lemma stop_table_ok:
  "table_on on T \<Longrightarrow> table_on False (stop_table T)" "table_taken k T \<Longrightarrow> table_taken k (stop_table T)"
  by (simp_all add: table_defs)

lemma taken_table_ok:
  "table_on on T \<Longrightarrow> table_on on (T(D_elif := M_stop, D_else := M_stop))"
  "table_taken True (T(D_elif := M_stop, D_else := M_stop))"
  by (simp_all add: table_defs)

section \<open>One step of the loop\<close>

lemma loop_pos_Cons:
  "process_loop W (pos p T S (t # ts) s) =
     obs_bind (call_method W (T (fst t)) t (pos p T S ts s)) (process_loop W)"
  using process_loop_Cons [of "pos p T S (t # ts) s"] by (simp add: process_tuple_def)

lemma loop_line:
  assumes "report_all p" "table_on on T" "plain_line t"
  shows "process_loop W (pos p T S (t # ts) s) = obs_bind (scons_line W on t s) (\<lambda>s'. process_loop W (pos p T S ts s'))"
  using assms
  by (cases t)
    (auto simp: loop_pos_Cons plain_line_def table_on_def scons_line_def run_line_def all_include_def do_include_method_def
      obs_bind_map do_define_def do_undef_def split: list.splits option.splits)

lemma loop_open:
  assumes "report_all p" "table_on on T" "fst t = D_if \<or> fst t = D_ifdef \<or> fst t = D_ifndef"
  shows "process_loop W (pos p T S (t # ts) s) =
    obs_bind (condition W t s) (\<lambda>(s1, c). process_loop W (pos p (branch_table c) (S @ [T]) ts s1))"
proof -
  have cond: "do_if_else_condition c (pos p T S ts s1) = pos p (branch_table c) (S @ [T]) ts s1" for c s1
    using assms(1)
    by (simp add: do_if_else_condition_def save_def start_handling_includes_def stop_handling_includes_def set_branches_def
        branch_table_def start_table_def stop_table_def report_all_def do_include_method_def)
  show ?thesis
    using assms(2,3)
    by (cases t; cases "eval_condition W (fst s) t")
      (auto simp: loop_pos_Cons table_on_def condition_def do_if_def do_ifdef_def eval_expression_def cond
        split: list.splits option.splits)
qed

lemma loop_endif:
  assumes "table_on on T'"
  shows "process_loop W (pos p T' (S @ [T]) ((D_endif, args) # ts) s) = process_loop W (pos p T S ts s)"
  using assms by (simp add: loop_pos_Cons table_on_def restore_def)

lemma loop_else:
  assumes "report_all p" "table_taken k T"
  shows "process_loop W (pos p T S ((D_else, args) # ts) s) =
    process_loop W (pos p (if k then stop_table T else start_table T) S ts s)"
  using assms
  by (simp add: loop_pos_Cons table_taken_def stop_handling_includes_def start_handling_includes_def start_table_def
      stop_table_def report_all_def do_include_method_def)

lemma loop_elif:
  assumes "report_all p" "table_taken k T" "fst t = D_elif"
  shows "process_loop W (pos p T S (t # ts) s) =
    (if k then process_loop W (pos p (stop_table T) S ts s)
     else obs_bind (condition W t s) (\<lambda>(s1, c).
       process_loop W (pos p (if c then (start_table T)(D_elif := M_stop, D_else := M_stop) else T) S ts s1)))"
  using assms
  by (cases t; cases "eval_condition W (fst s) t")
    (auto simp: loop_pos_Cons table_taken_def stop_handling_includes_def start_handling_includes_def start_table_def
      stop_table_def report_all_def do_include_method_def do_elif_def eval_expression_def condition_def set_branches_def)

text \<open>The whole of a nested text.\<close>

lemma loop_prog:
  assumes p: "report_all p"
  shows "prog_ok g \<Longrightarrow> table_on on T \<Longrightarrow>
      process_loop W (pos p T S (flat g @ rest) s) =
        obs_bind (scons_prog W g on s) (\<lambda>s'. process_loop W (pos p T S rest s'))"
    and "branches_ok bs \<Longrightarrow> table_on on T' \<Longrightarrow> table_taken k T' \<Longrightarrow> (on \<Longrightarrow> k) \<Longrightarrow>
      process_loop W (pos p T' (S @ [T]) (flat_branches bs @ rest) s) =
        obs_bind (scons_branches W bs k s) (\<lambda>s'. process_loop W (pos p T S rest s'))"
proof (induction g and bs arbitrary: on T S rest s and on T' k T S rest s)
  case (Line t g)
  then show ?case by (simp add: loop_line [OF p] obs_bind_assoc)
next
  case (Group t b bs g)
  note b = Group.IH(1) [where T = "branch_table c" and on = c for c]
  note bs = Group.IH(2) [where T' = "branch_table c" and on = c and k = c for c]
  note g = Group.IH(3) [OF _ Group.prems(2)]
  have "fst t = D_if \<or> fst t = D_ifdef \<or> fst t = D_ifndef" "prog_ok b" "branches_ok bs" "prog_ok g"
    using Group.prems(1) by simp_all
  then show ?case
    using loop_open [OF p Group.prems(2), of t] by (simp add: b bs g obs_bind_assoc case_prod_unfold)
next
  case Endif
  then show ?case by (simp add: loop_endif)
next
  case (Elif t b bs)
  then have e: "fst t = D_elif" "prog_ok b" "branches_ok bs" by simp_all
  note ok = stop_table_ok(1) [OF Elif.prems(2)] stop_table_ok(2) [OF Elif.prems(3)]
  show ?case
  proof (cases k)
    case True
    have "process_loop W (pos p (stop_table T') (S @ [T]) (flat b @ flat_branches bs @ rest) s) =
        obs_bind (scons_prog W b False s) (\<lambda>s'. obs_bind (scons_branches W bs True s') (\<lambda>s'. process_loop W (pos p T S rest s')))"
      using ok(2) True by (simp add: Elif.IH(1) [OF e(2) ok(1)] Elif.IH(2) [OF e(3) ok(1)])
    then show ?thesis using True loop_elif [OF p Elif.prems(3) e(1)] by (simp add: obs_bind_assoc)
  next
    case False
    then have off: "\<not> on" using Elif.prems(4) by blast
    let ?T = "\<lambda>c. if c then (start_table T')(D_elif := M_stop, D_else := M_stop) else T'"
    have on: "table_on c (?T c)" "table_taken c (?T c)" for c
      using Elif.prems(2,3) False off taken_table_ok(1) [of True "start_table T'"] taken_table_ok(2) [of "start_table T'"] start_table_ok(1) by auto
    have "process_loop W (pos p (?T c) (S @ [T]) (flat b @ flat_branches bs @ rest) s1) =
        obs_bind (scons_prog W b c s1) (\<lambda>s'. obs_bind (scons_branches W bs c s') (\<lambda>s'. process_loop W (pos p T S rest s')))" for c s1
      by (simp only: Elif.IH(1) [OF e(2) on(1)] Elif.IH(2) [OF e(3) on(1) on(2)])
    then show ?thesis using False loop_elif [OF p Elif.prems(3) e(1)] by (simp add: obs_bind_assoc case_prod_unfold)
  qed
next
  case (Else b)
  have "table_on (\<not> k) (if k then stop_table T' else start_table T')"
    using stop_table_ok(1) [OF Else.prems(2)] start_table_ok(1) [OF Else.prems(2)] by simp
  then show ?case
    using Else by (simp add: loop_else [OF p Else.prems(3)] Else.IH loop_endif)
qed simp

section \<open>The language C\<close>

text \<open>
  The reference: of a group only the first branch whose condition holds is processed, and nothing
  in the others has an effect.
\<close>

primrec c_prog :: "cpp_world \<Rightarrow> prog \<Rightarrow> cpp_obs \<Rightarrow> cpp_obs res option"
    and c_branches :: "cpp_world \<Rightarrow> branches \<Rightarrow> cpp_obs \<Rightarrow> cpp_obs res option" where
  "c_prog W Stop s = Some (Inr s)"
| "c_prog W (Line t k) s = obs_bind (run_line W t s) (c_prog W k)"
| "c_prog W (Group t b bs k) s = obs_bind (condition W t s) (\<lambda>(s1, c).
     obs_bind (if c then c_prog W b s1 else c_branches W bs s1) (c_prog W k))"
| "c_branches W Endif s = Some (Inr s)"
| "c_branches W (Elif t b bs) s = obs_bind (condition W t s) (\<lambda>(s1, c).
     if c then c_prog W b s1 else c_branches W bs s1)"
| "c_branches W (Else b) s = c_prog W b s"

text \<open>Texts that may be skipped the way the code skips them: includes only, no groups.\<close>

primrec dead_ok :: "prog \<Rightarrow> bool" where
  "dead_ok Stop = True"
| "dead_ok (Line t k) = ((fst t = D_include \<or> fst t = D_import) \<and> dead_ok k)"
| "dead_ok (Group t b bs k) = False"

primrec dead_branches :: "branches \<Rightarrow> bool" where
  "dead_branches Endif = True"
| "dead_branches (Elif t b bs) = (dead_ok b \<and> dead_branches bs)"
| "dead_branches (Else b) = dead_ok b"

definition then_holds :: "cpp_obs res option \<Rightarrow> (cpp_obs \<Rightarrow> bool) \<Rightarrow> bool" where
  "then_holds x P = (case x of Some (Inr s) \<Rightarrow> P s | _ \<Rightarrow> True)"

text \<open>The branches that are not taken when the text is processed are of this kind.\<close>

primrec quiet :: "cpp_world \<Rightarrow> prog \<Rightarrow> cpp_obs \<Rightarrow> bool"
    and quiet_branches :: "cpp_world \<Rightarrow> branches \<Rightarrow> cpp_obs \<Rightarrow> bool" where
  "quiet W Stop s = True"
| "quiet W (Line t k) s = then_holds (run_line W t s) (quiet W k)"
| "quiet W (Group t b bs k) s = (case condition W t s of
       Some (Inr (s1, c)) \<Rightarrow>
         (if c then quiet W b s1 \<and> dead_branches bs \<and> then_holds (c_prog W b s1) (quiet W k)
          else dead_ok b \<and> quiet_branches W bs s1 \<and> then_holds (c_branches W bs s1) (quiet W k))
     | _ \<Rightarrow> True)"
| "quiet_branches W Endif s = True"
| "quiet_branches W (Elif t b bs) s = (case condition W t s of
       Some (Inr (s1, c)) \<Rightarrow>
         (if c then quiet W b s1 \<and> dead_branches bs else dead_ok b \<and> quiet_branches W bs s1)
     | _ \<Rightarrow> True)"
| "quiet_branches W (Else b) s = quiet W b s"

lemma scons_dead:
  "dead_ok g \<Longrightarrow> scons_prog W g False s = Some (Inr s)"
  "dead_branches bs \<Longrightarrow> scons_branches W bs True s = Some (Inr s)"
  by (induction g and bs) (auto simp: scons_line_def)

lemma scons_quiet:
  "quiet W g s \<Longrightarrow> scons_prog W g True s = c_prog W g s"
  "quiet_branches W bs s \<Longrightarrow> scons_branches W bs False s = c_branches W bs s"
proof (induction g and bs arbitrary: s and s)
  case (Line t g)
  then show ?case by (auto simp: scons_line_def then_holds_def intro!: obs_bind_cong)
next
  case (Group t b bs g)
  show ?case
    unfolding scons_prog.simps c_prog.simps
  proof (rule obs_bind_cong [OF refl])
    fix x
    assume x: "condition W t s = Some (Inr x)"
    obtain s1 c where sc: "x = (s1, c)" by fastforce
    show "(case x of (s1, c) \<Rightarrow> obs_bind (scons_prog W b c s1) (\<lambda>s2. obs_bind (scons_branches W bs c s2) (scons_prog W g True))) =
      (case x of (s1, c) \<Rightarrow> obs_bind (if c then c_prog W b s1 else c_branches W bs s1) (c_prog W g))"
      using Group.prems x sc Group.IH
      by (cases c) (auto simp: then_holds_def scons_dead intro!: obs_bind_cong)
  qed
next
  case (Elif t b bs)
  show ?case
    unfolding scons_branches.simps c_branches.simps if_False
  proof (rule obs_bind_cong [OF refl])
    fix x
    assume x: "condition W t s = Some (Inr x)"
    obtain s1 c where sc: "x = (s1, c)" by fastforce
    show "(case x of (s1, c) \<Rightarrow> obs_bind (scons_prog W b c s1) (scons_branches W bs c)) =
      (case x of (s1, c) \<Rightarrow> if c then c_prog W b s1 else c_branches W bs s1)"
      using Elif.prems x sc Elif.IH
      by (cases c; cases "c_prog W b s1"; cases "the (c_prog W b s1)")
        (auto simp: scons_dead)
  qed
qed simp_all

section \<open>The includes of a file\<close>

text \<open>What \<open>process_contents\<close> returns, without the tables.\<close>

definition observed :: "(preprocessor \<times> cpp_item list) res option \<Rightarrow> (cpp_ns \<times> cpp_item list) res option" where
  "observed x = map_option (\<lambda>r. res_bind r (\<lambda>(q, items). Inr (cpp_namespace q, items))) x"

lemma process_contents_prog:
  assumes "report_all p" "tupleize (table_keys W) contents = Inr (flat g)" "prog_ok g"
  shows "observed (process_contents W contents fname p) =
    obs_bind (scons_prog W g True (cpp_namespace p, [R_file fname])) (\<lambda>(ns, items). Some (Inr (ns, tl items)))"
proof -
  let ?s = "(cpp_namespace p, [R_file fname])"
  let ?p = "p\<lparr>cur_file := fname\<rparr>"
  have eq: "p\<lparr>stack := [], dispatch_table := default_table p, cur_file := fname, tuples := flat g, result := [R_file fname]\<rparr> =
      pos ?p (own_method True) [] (flat g) ?s"
    using assms(1) by (simp add: pos_def report_all_def)
  have "report_all ?p" using assms(1) by (simp add: report_all_def)
  moreover have "table_on True (own_method True)" by (simp add: table_on_def)
  ultimately have "process_loop W (pos ?p (own_method True) [] (flat g @ []) ?s) =
      obs_bind (scons_prog W g True ?s) (\<lambda>s'. process_loop W (pos ?p (own_method True) [] [] s'))"
    using assms(3) by (intro loop_prog)
  then show ?thesis
    using assms(2)
    by (cases "scons_prog W g True ?s"; cases "the (scons_prog W g True ?s)")
      (auto simp: process_contents_def eq observed_def case_prod_unfold)
qed

lemma report_all_init [simp]: "report_all (PreProcessor_init current cpppath dict True)"
  by (simp add: report_all_def PreProcessor_init_def)

text \<open>A world in which the only true condition is \<open>1\<close>.\<close>

definition ex_world :: cpp_world where
  "ex_world = \<lparr>table_keys = cpython_keys, py_eval = (\<lambda>ns s. Inr (s = ''1'')), py_eval_sum = (\<lambda>ns parts. Inl TypeError),
     files = Map.empty\<rparr>"

definition ex_prog :: prog where
  "ex_prog = Group (D_ifdef, [Some ''A'']) (Line (D_include, [Some ''<a.h>'']) Stop)
     (Elif (D_elif, [Some ''1'']) (Line (D_define, [Some ''B'', None, Some ''2'']) (Line (D_include, [Some ''<b.h>'']) Stop))
       (Else (Line (D_include, [Some ''<c.h>'']) Stop))) Stop"

lemma ex_tuples: "tupleize (table_keys ex_world) (concat (map print_tuple (flat ex_prog))) = Inr (flat ex_prog)"
  by code_simp

lemma resolve_quoted:
  "c = CHR ''<'' \<or> c = CHR 0x22 \<Longrightarrow> resolve_include W ns (d, Some (c # cs) # r) = Some (Inr (Some (d, c, butlast cs)))"
  by (auto simp: resolve_include_def resolve_loop.simps)

lemma eval_one: "eval_condition ex_world ns (d, [Some ''1'']) = Inr (add_builtins ns, True)"
proof -
  have "CPP_to_Python ''1'' = ''1''" by code_simp
  then show ?thesis by (simp add: eval_condition_def ex_world_def)
qed

lemma eval_zero: "eval_condition ex_world ns (d, [Some ''0'']) = Inr (add_builtins ns, False)"
proof -
  have "CPP_to_Python ''0'' = ''0''" by code_simp
  then show ?thesis by (simp add: eval_condition_def ex_world_def)
qed

lemma py_int_two: "py_int ''2'' = Some 2"
  by code_simp

lemmas ex_simps = condition_def run_line_def scons_line_def resolve_quoted eval_one eval_zero define_value_def py_int_two
  then_holds_def add_builtins_def

text \<open>
  C27: A file with nested conditional groups is processed as the language C prescribes: of every group the
  first branch whose condition holds, and no other, provided the branches that are not taken contain
  nothing but includes (no definitions and no groups). The macros and the reported includes are
  those of the reference, exceptions included.\<close>

theorem nested_groups_as_C:
  assumes "tupleize (table_keys W) contents = Inr (flat g)" and "prog_ok g"
    and "quiet W g (dict(''__dict__'' \<mapsto> CDict), [R_file fname])"
  shows "observed (process_contents W contents fname (PreProcessor_init current cpppath dict True)) =
    obs_bind (c_prog W g (dict(''__dict__'' \<mapsto> CDict), [R_file fname])) (\<lambda>(ns, items). Some (Inr (ns, tl items)))"
  using process_contents_prog [OF report_all_init assms(1,2)] scons_quiet(1) [OF assms(3)]
  by (simp add: PreProcessor_init_def)

theorem nested_groups_as_C_witness:
  "observed (process_contents ex_world (concat (map print_tuple (flat ex_prog))) None
      (PreProcessor_init ''.'' [] Map.empty True)) =
    Some (Inr ([''__dict__'' \<mapsto> CDict, ''__builtins__'' \<mapsto> CBuiltins, ''B'' \<mapsto> CInt 2],
      [R_tuple (Some (D_include, CHR ''<'', ''b.h''))]))"
proof -
  have "prog_ok ex_prog" by (simp add: ex_prog_def plain_line_def)
  moreover have "quiet ex_world ex_prog ([''__dict__'' \<mapsto> CDict], [R_file None])"
    by (simp add: ex_prog_def ex_simps)
  ultimately show ?thesis
    using nested_groups_as_C [OF ex_tuples] by (simp add: ex_prog_def ex_simps)
qed

text \<open>
  The condition on the branches that are not taken is needed. A group inside a branch that is not
  taken switches the includes on again:
\<close>

definition nested_dead :: prog where
  "nested_dead = Group (D_if, [Some ''0'']) (Group (D_ifdef, [Some ''A'']) Stop
     (Else (Line (D_include, [Some ''<x.h>'']) Stop)) Stop) Endif Stop"

lemma nested_dead_reports:
  "\<exists>ns. observed (process_contents ex_world (concat (map print_tuple (flat nested_dead))) None
      (PreProcessor_init ''.'' [] Map.empty True)) = Some (Inr (ns, [R_tuple (Some (D_include, CHR ''<'', ''x.h''))]))"
  "\<exists>ns. c_prog ex_world nested_dead ([''__dict__'' \<mapsto> CDict], []) = Some (Inr (ns, []))"
proof -
  have t: "tupleize (table_keys ex_world) (concat (map print_tuple (flat nested_dead))) = Inr (flat nested_dead)"
    by code_simp
  have "prog_ok nested_dead" by (simp add: nested_dead_def plain_line_def)
  from process_contents_prog [OF report_all_init t this]
  show "\<exists>ns. observed (process_contents ex_world (concat (map print_tuple (flat nested_dead))) None
      (PreProcessor_init ''.'' [] Map.empty True)) = Some (Inr (ns, [R_tuple (Some (D_include, CHR ''<'', ''x.h''))]))"
    by (simp add: nested_dead_def ex_simps PreProcessor_init_def)
  show "\<exists>ns. c_prog ex_world nested_dead ([''__dict__'' \<mapsto> CDict], []) = Some (Inr (ns, []))"
    by (simp add: nested_dead_def ex_simps)
qed

text \<open>and a definition in a branch that is not taken hides an include that the compiler sees:\<close>

definition dead_define :: prog where
  "dead_define = Group (D_if, [Some ''0'']) (Line (D_define, [Some ''A'', None, Some ''2'']) Stop) Endif
     (Group (D_ifndef, [Some ''A'']) (Line (D_include, [Some ''<x.h>'']) Stop) Endif Stop)"

lemma dead_define_hides:
  "\<exists>ns. observed (process_contents ex_world (concat (map print_tuple (flat dead_define))) None
      (PreProcessor_init ''.'' [] Map.empty True)) = Some (Inr (ns, []))"
  "\<exists>ns. c_prog ex_world dead_define ([''__dict__'' \<mapsto> CDict], []) =
      Some (Inr (ns, [R_tuple (Some (D_include, CHR ''<'', ''x.h''))]))"
proof -
  have t: "tupleize (table_keys ex_world) (concat (map print_tuple (flat dead_define))) = Inr (flat dead_define)"
    by code_simp
  have "prog_ok dead_define" by (simp add: dead_define_def plain_line_def)
  from process_contents_prog [OF report_all_init t this]
  show "\<exists>ns. observed (process_contents ex_world (concat (map print_tuple (flat dead_define))) None
      (PreProcessor_init ''.'' [] Map.empty True)) = Some (Inr (ns, []))"
    by (simp add: dead_define_def ex_simps PreProcessor_init_def)
  show "\<exists>ns. c_prog ex_world dead_define ([''__dict__'' \<mapsto> CDict], []) =
      Some (Inr (ns, [R_tuple (Some (D_include, CHR ''<'', ''x.h''))]))"
    by (simp add: dead_define_def ex_simps)
qed

end
