(* ===== verification/CppLoop.thy ===== *)
theory CppLoop
  imports CppCond "HOL-Library.Multiset"
begin

text \<open>
  When the preprocessor of \<open>SCons/cpp.py\<close> returns: files that include each other without a cycle
  are processed to the end, a macro that stands for itself is expanded forever. Also the
  subclass that ignores conditionals.
\<close>

section \<open>What the methods leave alone\<close>

definition includer :: "cpp_method \<Rightarrow> bool" where
  "includer m \<longleftrightarrow> m = M_include \<or> m = M_all_include"

definition is_include :: "directive \<Rightarrow> bool" where
  "is_include d \<longleftrightarrow> d = D_include \<or> d = D_include_next"

definition table_ok :: "cpp_table \<Rightarrow> bool" where
  "table_ok T \<longleftrightarrow> (\<forall>d. includer (T d) \<longrightarrow> is_include d)"

definition tables_ok :: "preprocessor \<Rightarrow> bool" where
  "tables_ok p \<longleftrightarrow> table_ok (dispatch_table p) \<and> table_ok (default_table p) \<and> list_all table_ok (stack p)"

lemma table_ok_upd: "table_ok T \<Longrightarrow> \<not> includer m \<or> is_include d \<Longrightarrow> table_ok (T(d := m))"
  by (auto simp: table_ok_def)

lemma tables_ok_start [simp]: "tables_ok p \<Longrightarrow> tables_ok (start_handling_includes p)"
  by (auto simp: tables_ok_def start_handling_includes_def is_include_def includer_def intro!: table_ok_upd)

lemma tables_ok_stop [simp]: "tables_ok p \<Longrightarrow> tables_ok (stop_handling_includes p)"
  by (auto simp: tables_ok_def stop_handling_includes_def is_include_def includer_def intro!: table_ok_upd)

lemma tables_ok_branches [simp]:
  "tables_ok p \<Longrightarrow> \<not> includer m1 \<Longrightarrow> \<not> includer m2 \<Longrightarrow> tables_ok (set_branches m1 m2 p)"
  by (auto simp: tables_ok_def set_branches_def intro!: table_ok_upd)

lemma tables_ok_save [simp]: "tables_ok p \<Longrightarrow> tables_ok (save p)"
  by (auto simp: tables_ok_def save_def)

lemma tables_ok_restore [simp]: "tables_ok p \<Longrightarrow> tables_ok (restore p)"
  by (auto simp: tables_ok_def restore_def split: option.splits)

lemma tables_ok_cond [simp]: "tables_ok p \<Longrightarrow> tables_ok (do_if_else_condition c p)"
  by (simp add: do_if_else_condition_def includer_def)

lemma tables_ok_frame [simp]:
  "tables_ok (p\<lparr>cpp_namespace := ns\<rparr>) = tables_ok p" "tables_ok (p\<lparr>result := r\<rparr>) = tables_ok p"
  "tables_ok (p\<lparr>cur_file := f\<rparr>) = tables_ok p" "tables_ok (p\<lparr>tuples := ts\<rparr>) = tables_ok p"
  by (simp_all add: tables_ok_def)

text \<open>A method that does not include returns, and keeps the pending tuples and the search path.\<close>

definition calm :: "preprocessor \<Rightarrow> preprocessor res option \<Rightarrow> bool" where
  "calm p x \<longleftrightarrow> (\<exists>e. x = Some (Inl e)) \<or>
     (\<exists>q. x = Some (Inr q) \<and> tuples q = tuples p \<and> searchpath q = searchpath p \<and> tables_ok q)"

lemma frame_fields [simp]:
  "tuples (start_handling_includes p) = tuples p" "searchpath (start_handling_includes p) = searchpath p"
  "tuples (stop_handling_includes p) = tuples p" "searchpath (stop_handling_includes p) = searchpath p"
  "tuples (set_branches m1 m2 p) = tuples p" "searchpath (set_branches m1 m2 p) = searchpath p"
  "tuples (save p) = tuples p" "searchpath (save p) = searchpath p"
  "tuples (restore p) = tuples p" "searchpath (restore p) = searchpath p"
  "tuples (do_if_else_condition c p) = tuples p" "searchpath (do_if_else_condition c p) = searchpath p"
  by (simp_all add: start_handling_includes_def stop_handling_includes_def set_branches_def save_def restore_def
      do_if_else_condition_def split: option.splits)

lemma calm_method:
  assumes ok: "tables_ok p" and m: "\<not> includer m"
  shows "calm p (call_method W m t p)"
proof (cases m)
  case M_if
  then show ?thesis using ok
    by (cases "eval_condition W (cpp_namespace p) t") (auto simp: calm_def do_if_def eval_expression_def)
next
  case M_elif
  then show ?thesis using ok
    by (cases "eval_condition W (cpp_namespace p) t") (auto simp: calm_def do_elif_def eval_expression_def includer_def)
qed (use ok m in \<open>auto simp: calm_def includer_def scons_current_file_def do_ifdef_def do_define_def do_undef_def
      split: list.splits option.splits\<close>)

section \<open>Files without a cycle\<close>

text \<open>
  The argument of an include is written in quotes or angle brackets, and every file it can
  stand for on the search path has a rank below \<open>k\<close>.
\<close>

definition quoted :: "string \<Rightarrow> bool" where
  "quoted a \<longleftrightarrow> (a \<noteq> '''' \<and> (hd a = CHR ''<'' \<or> hd a = CHR 0x22))"

definition include_candidates :: "(char \<Rightarrow> string list) \<Rightarrow> string \<Rightarrow> string list" where
  "include_candidates path a = map (include_path (butlast (tl a))) (path (hd a))"

definition below :: "(string \<Rightarrow> nat) \<Rightarrow> (char \<Rightarrow> string list) \<Rightarrow> cpp_world \<Rightarrow> nat \<Rightarrow> cpp_tuple \<Rightarrow> bool" where
  "below rank path W k t \<longleftrightarrow> is_include (fst t) \<longrightarrow> (case snd t of
       Some a # _ \<Rightarrow> quoted a \<and> list_all (\<lambda>f. files W f \<noteq> None \<longrightarrow> rank f < k) (include_candidates path a)
     | _ \<Rightarrow> False)"

definition ranked :: "(string \<Rightarrow> nat) \<Rightarrow> (char \<Rightarrow> string list) \<Rightarrow> cpp_world \<Rightarrow> bool" where
  "ranked rank path W \<longleftrightarrow> (\<forall>f contents ts. files W f = Some contents \<longrightarrow> tupleize (table_keys W) contents = Inr ts \<longrightarrow>
     list_all (below rank path W (rank f)) ts)"

lemma below_current [simp]: "below rank path W k (D_current, args)"
  by (simp add: below_def is_include_def)

lemma below_cases:
  assumes "below rank path W k t" "is_include (fst t)"
  obtains c cs r where "t = (fst t, Some (c # cs) # r)" "c = CHR ''<'' \<or> c = CHR 0x22"
    "list_all (\<lambda>f. files W f \<noteq> None \<longrightarrow> rank f < k) (include_candidates path (c # cs))"
proof -
  obtain a r where a: "snd t = Some a # r" "quoted a" "list_all (\<lambda>f. files W f \<noteq> None \<longrightarrow> rank f < k) (include_candidates path a)"
    using assms by (auto simp: below_def split: list.splits option.splits)
  then obtain c cs where "a = c # cs" "c = CHR ''<'' \<or> c = CHR 0x22" by (cases a) (auto simp: quoted_def)
  with a show ?thesis by (intro that [of c cs r]) (simp_all add: prod_eq_iff)
qed

text \<open>The outcome of an include: an exception, nothing new, or the tuples of a file of lower rank.\<close>

lemma include_step:
  assumes ok: "tables_ok p" and m: "includer m" and t: "below rank (searchpath p) W k t" "is_include (fst t)"
    and W: "ranked rank (searchpath p) W"
  shows "calm p (call_method W m t p) \<or>
    (\<exists>q f ts. call_method W m t p = Some (Inr q) \<and> searchpath q = searchpath p \<and> tables_ok q \<and> rank f < k \<and>
      tuples q = (D_current, [Some f]) # ts @ (D_current, [cur_file p]) # tuples p \<and>
      list_all (below rank (searchpath p) W (rank f)) ts)"
proof -
  obtain c cs r where tc: "t = (fst t, Some (c # cs) # r)" "c = CHR ''<'' \<or> c = CHR 0x22"
    and cand: "list_all (\<lambda>f. files W f \<noteq> None \<longrightarrow> rank f < k) (include_candidates (searchpath p) (c # cs))"
    by (rule below_cases [OF t])
  have res: "resolve_include W (cpp_namespace p) t = Some (Inr (Some (fst t, c, butlast cs)))"
    using resolve_quoted [OF tc(2)] tc(1) by metis
  let ?fs = "include_candidates (searchpath p) (c # cs)"
  show ?thesis
  proof (cases "m = M_all_include")
    case True
    then show ?thesis using ok res by (simp add: calm_def all_include_def)
  next
    case False
    then have call: "call_method W m t p = Some (include_contents W (find (\<lambda>f. files W f \<noteq> None) ?fs) p)"
      using m res by (simp add: includer_def do_include_def find_include_file_def include_candidates_def)
    show ?thesis
    proof (cases "find (\<lambda>f. files W f \<noteq> None) ?fs")
      case None
      then show ?thesis using ok call by (simp add: calm_def include_contents_def)
    next
      case (Some f)
      then have f: "files W f \<noteq> None" "f \<in> set ?fs" by (auto simp: find_Some_iff)
      then have rank: "rank f < k" using cand by (auto simp: list_all_iff)
      obtain contents where contents: "files W f = Some contents" using f(1) by blast
      show ?thesis
      proof (cases "f = '''' \<or> (\<exists>e. tupleize (table_keys W) contents = Inl e)")
        case True
        then show ?thesis using ok call Some contents by (auto simp: calm_def include_contents_def read_file_def)
      next
        case False
        then obtain ts where ts: "tupleize (table_keys W) contents = Inr ts" by (meson sum.exhaust)
        have "list_all (below rank (searchpath p) W (rank f)) ts"
          using W contents ts by (auto simp: ranked_def)
        then show ?thesis using ok call Some contents ts False rank
          by (auto simp: include_contents_def read_file_def)
      qed
    qed
  qed
qed

lemma mult_replace:
  assumes "\<And>x. x \<in># N \<Longrightarrow> x < (k :: nat)"
  shows "(N + M, add_mset k M) \<in> mult less_than"
  using one_step_implies_mult [of "{#k#}" N less_than M] assms by (simp add: add.commute)

lemma mult_remove: "(M, add_mset (k :: nat) M) \<in> mult less_than"
  using mult_replace [of "{#}" k M] by simp

lemma loop_returns:
  assumes W: "ranked rank path W"
  shows "list_all2 (below rank path W) ks (tuples p) \<Longrightarrow> searchpath p = path \<Longrightarrow> tables_ok p \<Longrightarrow>
    \<exists>r. process_loop W p = Some r"
proof (induction "mset ks" arbitrary: ks p rule: wf_induct_rule [OF wf_mult [OF wf_less_than]])
  case 1
  show ?case
  proof (cases "tuples p")
    case (Cons t ts)
    let ?p = "p\<lparr>tuples := ts\<rparr>"
    let ?m = "dispatch_table p (fst t)"
    obtain k ks' where ks: "ks = k # ks'" and t: "below rank path W k t" and ts: "list_all2 (below rank path W) ks' ts"
      using 1(2) Cons by (auto simp: list_all2_Cons2)
    have p: "tables_ok ?p" "searchpath ?p = path" "tuples ?p = ts" using 1(3,4) by simp_all
    have step: "process_loop W p = obs_bind (call_method W ?m t ?p) (process_loop W)"
      using process_loop_Cons [OF Cons] by (simp add: process_tuple_def)
    have calm_case: "\<exists>r. process_loop W p = Some r" if calm: "calm ?p (call_method W ?m t ?p)"
    proof -
      have "\<exists>r. process_loop W q = Some r" if "tuples q = ts" "searchpath q = path" "tables_ok q" for q
        using 1(1) [of ks' q] mult_remove that ts ks by simp
      then show ?thesis using calm p step by (auto simp: calm_def)
    qed
    show ?thesis
    proof (cases "includer ?m")
      case False
      then show ?thesis using calm_case calm_method [OF p(1)] by blast
    next
      case True
      moreover have "is_include (fst t)" using True 1(4) by (simp add: tables_ok_def table_ok_def)
      ultimately consider "calm ?p (call_method W ?m t ?p)"
        | q f us where "call_method W ?m t ?p = Some (Inr q)" "searchpath q = path" "tables_ok q" "rank f < k"
          "tuples q = (D_current, [Some f]) # us @ (D_current, [cur_file p]) # ts"
          "list_all (below rank path W (rank f)) us"
        using include_step [of ?p ?m rank W k t] p t W by auto
      then show ?thesis
      proof cases
        case 2
        let ?ks = "0 # replicate (length us) (rank f) @ 0 # ks'"
        have "list_all2 (below rank path W) (replicate (length us) (rank f)) us"
          using 2(6) by (auto simp: list_all2_conv_all_nth list_all_length)
        then have "list_all2 (below rank path W) ?ks (tuples q)"
          using ts 2(5) by (simp add: list_all2_appendI)
        moreover have "(mset ?ks, mset ks) \<in> mult less_than"
        proof -
          let ?N = "mset (0 # 0 # replicate (length us) (rank f))"
          have "x < k" if "x \<in># ?N" for x using that 2(4) by (auto split: if_splits)
          then have "(?N + mset ks', add_mset k (mset ks')) \<in> mult less_than" by (rule mult_replace)
          moreover have "mset ?ks = ?N + mset ks'" by simp
          ultimately show ?thesis using ks by simp
        qed
        ultimately have "\<exists>r. process_loop W q = Some r" using 1(1) 2(2,3) by blast
        then show ?thesis using step 2(1) by simp
      qed (rule calm_case)
    qed
  qed simp
qed

lemma init_tables_ok [simp]: "tables_ok (PreProcessor_init current cpppath dict all)"
proof -
  have "table_ok (own_method all)"
    unfolding table_ok_def
  proof
    fix d
    show "includer (own_method all d) \<longrightarrow> is_include d" by (cases d) (simp_all add: includer_def is_include_def)
  qed
  then show ?thesis by (simp add: tables_ok_def PreProcessor_init_def)
qed

lemma call_returns:
  assumes W: "ranked rank (searchpath p) W" and p: "tables_ok p"
  shows "\<exists>r. PreProcessor_call W f p = Some r"
proof (cases "files W f")
  case (Some contents)
  show ?thesis
  proof (cases "tupleize (table_keys W) contents")
    case (Inr ts)
    let ?q = "p\<lparr>stack := [], dispatch_table := default_table p, cur_file := Some f, tuples := ts, result := [R_file (Some f)]\<rparr>"
    have "list_all (below rank (searchpath p) W (rank f)) ts" using W Some Inr by (auto simp: ranked_def)
    then have "list_all2 (below rank (searchpath p) W) (replicate (length ts) (rank f)) (tuples ?q)"
      by (auto simp: list_all2_conv_all_nth list_all_length)
    moreover have "tables_ok ?q" using p by (simp add: tables_ok_def)
    ultimately have "\<exists>r. process_loop W ?q = Some r"
      by (intro loop_returns [OF W, where ks = "replicate (length ts) (rank f)"]) simp_all
    then show ?thesis using Some Inr by (auto simp: PreProcessor_call_def process_contents_def read_file_def)
  qed (use Some in \<open>simp add: PreProcessor_call_def process_contents_def read_file_def\<close>)
qed (simp add: PreProcessor_call_def read_file_def)

text \<open>
  C28: The preprocessor returns, with a result or an exception, on every file when the files have a rank
  such that each include is written in quotes or angle brackets and every file it may find on the search
  path has a lower rank than the file it stands in: the loop over the pending tuples ends.\<close>

theorem preprocessor_returns:
  assumes "ranked rank (searchpath (PreProcessor_init current cpppath dict all)) W"
  shows "\<exists>r. PreProcessor_call W f (PreProcessor_init current cpppath dict all) = Some r"
  by (rule call_returns [OF assms init_tables_ok])

definition two_files :: cpp_world where
  "two_files = ex_world\<lparr>files := [''m.c'' \<mapsto> ''#include <h/a.h>'', ''inc/h/a.h'' \<mapsto> ''#define A 1'']\<rparr>"

lemma two_files_ranked:
  "ranked (\<lambda>f. if f = ''m.c'' then 1 else 0) (searchpath (PreProcessor_init ''.'' [''inc''] Map.empty False)) two_files"
proof -
  have "tupleize cpython_keys ''#include <h/a.h>'' = Inr [(D_include, [Some ''<h/a.h>''])]"
    "tupleize cpython_keys ''#define A 1'' = Inr [(D_define, [Some ''A'', None, Some ''1''])]"
    by code_simp+
  then show ?thesis
    by (auto simp: ranked_def two_files_def ex_world_def below_def is_include_def quoted_def include_candidates_def
        PreProcessor_init_def include_path_def path_join_def split: if_splits)
qed

theorem preprocessor_returns_witness:
  "\<exists>r. PreProcessor_call two_files ''m.c'' (PreProcessor_init ''.'' [''inc''] Map.empty False) = Some r"
  using preprocessor_returns [OF two_files_ranked] .

section \<open>Macros that stand for each other\<close>

text \<open>
  The resolution of an include never returns when the macro it names expands, over one or more
  steps, to itself: in a set of texts each of which is an object-like macro for another text of the set,
  and none is quoted, the loop of \<open>resolve_include\<close> runs forever.\<close>

lemma macro_cycle_diverges:
  assumes "\<And>s. s \<in> C \<Longrightarrow> s \<noteq> '''' \<and> \<not> quoted s \<and> (\<exists>s' \<in> C. ns s = Some (CStr s'))" and "s \<in> C"
  shows "resolve_include W ns (d, [Some s]) = None"
proof -
  have "ns' = ns \<longrightarrow> v \<notin> CStr ` C" if "resolve_loop W' ns' v = Some r" for W' ns' v r
  proof (rule resolve_loop.raw_induct [OF _ that, where P = "\<lambda>W' ns' v r. ns' = ns \<longrightarrow> v \<notin> CStr ` C"], intro impI notI)
    fix loop W' ns' v r
    assume hyp: "\<And>W' ns' v r. loop W' ns' v = Some r \<Longrightarrow> ns' = ns \<longrightarrow> v \<notin> CStr ` C"
      and body: "(case is_quoted v of Inl e \<Rightarrow> Some (Inl e)
        | Inr q \<Rightarrow> (case v of CStr s \<Rightarrow> if q then Some (Inr (Some s))
            else (case expand_once W' ns' s of Inl e \<Rightarrow> Some (Inl e)
              | Inr w \<Rightarrow> if falsy w then Some (Inr None) else loop W' ns' w)
          | _ \<Rightarrow> Some (Inl TypeError))) = Some r"
      and ns: "ns' = ns" and "v \<in> CStr ` C"
    then obtain s s' where v: "v = CStr s" "s \<in> C" "s' \<in> C" "ns s = Some (CStr s')" "s \<noteq> ''''" "\<not> quoted s"
      using assms(1) by blast
    moreover have "s' \<noteq> ''''" using assms(1) [OF v(3)] by blast
    moreover obtain c cs where "s = c # cs" using v(5) by (cases s) auto
    ultimately have "loop W' ns' (CStr s') = Some r"
      using body ns by (auto simp: quoted_def expand_once_def split: if_splits)
    then have "CStr s' \<notin> CStr ` C" using hyp ns by blast
    then show False using v(3) by blast
  qed
  then have "resolve_loop W ns (CStr s) = None" using assms(2) by (cases "resolve_loop W ns (CStr s)") blast+
  then show ?thesis by (simp add: resolve_include_def)
qed

section \<open>The preprocessor that ignores conditionals\<close>

text \<open>The groups that the expressions of \<open>Table\<close> produce.\<close>

fun tuple_shape :: "cpp_tuple \<Rightarrow> bool" where
  "tuple_shape (D_define, args) = (\<exists>name params e. args = [Some name, params, Some e])"
| "tuple_shape (D_else, args) = (args = [])"
| "tuple_shape (D_endif, args) = (args = [])"
| "tuple_shape (D_current, args) = False"
| "tuple_shape (d, args) = (\<exists>a. args = [Some a])"

lemma find_lines_keys: "(d, r) \<in> set (find_lines keys bol s) \<Longrightarrow> d \<in> set keys"
  by (induction keys bol s rule: find_lines.induct)
    (auto simp: match_line_def Let_def find_Some_iff split: option.splits if_splits list.splits)

lemma match_args_shape: "match_args d r = Some args \<Longrightarrow> d \<noteq> D_current \<Longrightarrow> tuple_shape (d, args)"
  by (cases d) (auto simp: case_prod_unfold Let_def)

lemma map_lines_shape:
  "map_lines ls = Inr ts \<Longrightarrow> \<forall>(d, r) \<in> set ls. d \<noteq> D_current \<Longrightarrow> t \<in> set ts \<Longrightarrow> tuple_shape t"
  by (induction ls arbitrary: ts rule: map_lines.induct)
    (auto simp: res_bind_eq_Inr match_args_shape split: option.splits)

lemma tupleize_shape:
  assumes "tupleize keys contents = Inr ts" "D_current \<notin> set keys" "t \<in> set ts"
  shows "tuple_shape t"
proof -
  have "\<forall>(d, r) \<in> set (find_lines keys True (re_sub line_continuations contents)). d \<noteq> D_current"
    using find_lines_keys assms(2) by fastforce
  then show ?thesis using assms(1,3) map_lines_shape unfolding tupleize_def by blast
qed

text \<open>The arguments of the \<open>#include\<close> lines of a text, in order.\<close>

fun include_args :: "cpp_tuple list \<Rightarrow> string list" where
  "include_args [] = []"
| "include_args (t # ts) = (case t of (D_include, Some a # _) \<Rightarrow> a # include_args ts | _ \<Rightarrow> include_args ts)"

definition report :: "string \<Rightarrow> cpp_item" where
  "report a = R_tuple (Some (D_include, hd a, butlast (tl a)))"

lemma dumb_entries:
  "dumb_table T D_include = T D_include" "dumb_table T D_import = T D_import"
  "dumb_table T D_define = T D_define" "dumb_table T D_undef = T D_undef"
  "d \<in> {D_if, D_elif, D_else, D_endif, D_ifdef, D_ifndef} \<Longrightarrow> dumb_table T d = M_nothing"
  by (auto simp: dumb_table_def)

lemma loop_dumb:
  "\<forall>t \<in> set ts. tuple_shape t \<and> fst t \<noteq> D_include_next \<Longrightarrow> list_all quoted (include_args ts) \<Longrightarrow>
    \<exists>ns. process_loop W (pos p (dumb_table (own_method True)) [] ts s) =
      Some (Inr (pos p (dumb_table (own_method True)) [] [] (ns, snd s @ map report (include_args ts))))"
proof (induction ts arbitrary: s)
  case (Cons t ts)
  obtain d args where t: "t = (d, args)" by fastforce
  have sh: "tuple_shape (d, args)" "d \<noteq> D_include_next" using Cons.prems(1) t by auto
  have IH: "\<exists>ns. process_loop W (pos p (dumb_table (own_method True)) [] ts s') =
      Some (Inr (pos p (dumb_table (own_method True)) [] [] (ns, snd s' @ map report (include_args ts))))" for s'
    using Cons by (auto simp: split: prod.splits directive.splits list.splits option.splits)
  show ?case
  proof (cases "d = D_include")
    case True
    then obtain a where a: "args = [Some a]" "quoted a" using sh Cons.prems(2) t by auto
    then obtain c cs where c: "a = c # cs" "c = CHR ''<'' \<or> c = CHR 0x22" by (cases a) (auto simp: quoted_def)
    then show ?thesis
      using IH [of "(fst s, snd s @ [report a])"] True t a resolve_quoted [OF c(2)]
      by (simp add: loop_pos_Cons dumb_entries do_include_method_def all_include_def report_def [of "c # cs"])
  next
    case False
    then show ?thesis
      using sh IH t
      by (cases d) (auto simp: loop_pos_Cons dumb_entries do_define_def do_undef_def)
  qed
qed (auto simp: pos_def)

text \<open>
  The preprocessor that ignores conditionals reports, with \<open>all=1\<close>, every \<open>#include\<close> line of the
  file in order, whatever groups it stands in, and nothing else; includes are written in quotes
  or angle brackets and there is no \<open>#include_next\<close>.\<close>

lemma dumb_reports_every_include:
  assumes "tupleize (table_keys W) contents = Inr ts" and "D_current \<notin> set (table_keys W)"
    and "list_all (\<lambda>t. fst t \<noteq> D_include_next) ts" and "list_all quoted (include_args ts)"
  shows "\<exists>q. process_contents W contents fname (DumbPreProcessor_init current cpppath dict True) =
    Some (Inr (q, map report (include_args ts)))"
proof -
  let ?p = "DumbPreProcessor_init current cpppath dict True"
  let ?D = "dumb_table (own_method True)"
  have eq: "?p\<lparr>stack := [], dispatch_table := default_table ?p, cur_file := fname, tuples := ts, result := [R_file fname]\<rparr> =
      pos (?p\<lparr>cur_file := fname\<rparr>) ?D [] ts (cpp_namespace ?p, [R_file fname])"
    by (simp add: pos_def DumbPreProcessor_init_def)
  have "\<forall>t \<in> set ts. tuple_shape t \<and> fst t \<noteq> D_include_next"
    using tupleize_shape [OF assms(1,2)] assms(3) by (auto simp: list_all_iff)
  from loop_dumb [OF this assms(4)] show ?thesis
    unfolding process_contents_def assms(1) sum.case eq by fastforce
qed

end
