(* ===== verification/Subst.thy ===== *)
theory Subst
  imports Errors CppLex
begin

text \<open>
  Expansion of construction variables, \<open>SCons/Subst.py\<close>: \<open>scons_subst\<close> makes a string,
  \<open>scons_subst_list\<close> a list of command lines, each a list of words.

  A value expands to texts that are expanded again. The recursion may be without end (through \<open>eval\<close>
  or callables), so the two mutually recursive methods of the classes take fuel: \<open>None\<close> means that the
  nesting exceeds it. Python's \<open>eval\<close> of anything but a name, callables, and nodes enter through
  a record of functions.
\<close>

section \<open>Values\<close>

text \<open>
  What a construction variable can hold: a string, a \<open>CmdStringHolder\<close> with its flag, a
  \<open>Literal\<close> or \<open>SpecialAttrWrapper\<close> (text and text for signatures), a sequence, \<open>None\<close>, a
  callable, another object, the first element of a \<open>Target_or_Source\<close>, and \<open>NullNodesList\<close>.
\<close>

datatype sval =
    SStr string
  | SHolder string bool
  | SLit string string
  | SList "sval list"
  | SNone
  | SCall nat
  | SObj nat
  | SFirst sval
  | SNull

type_synonym svars = "string \<rightharpoonup> sval"

datatype subst_mode = SUBST_CMD | SUBST_RAW | SUBST_SIG

record subst_world =
  sub_eval :: "svars \<Rightarrow> svars \<Rightarrow> string \<Rightarrow> sval res"  \<comment> \<open>\<open>eval\<close> of an expression that is not a name\<close>
  sub_builtins :: svars
  sub_call :: "nat \<Rightarrow> sval \<Rightarrow> sval \<Rightarrow> bool \<Rightarrow> sval res"
  sub_str :: "sval \<Rightarrow> string"  \<comment> \<open>\<open>str\<close> of an object or callable\<close>
  sub_sig :: "nat \<Rightarrow> string option"  \<comment> \<open>\<open>for_signature\<close>, where an object has it\<close>
  sub_literal :: "nat \<Rightarrow> bool"
  tgt_proxy :: "sval \<Rightarrow> sval"  \<comment> \<open>\<open>get_tgt_subst_proxy\<close> of a node\<close>
  src_proxy :: "sval \<Rightarrow> sval"
  AllowableExceptions :: "string list"

definition SetAllowableExceptions :: "string option list \<Rightarrow> subst_world \<Rightarrow> subst_world" where
  "SetAllowableExceptions excepts W = W\<lparr>AllowableExceptions := map the (filter (\<lambda>x. x \<noteq> None) excepts)\<rparr>"

text \<open>\<open>str(v)\<close>, and the conversions of \<open>_strconv\<close>.\<close>

fun py_str :: "subst_world \<Rightarrow> sval \<Rightarrow> string" where
  "py_str W (SStr s) = s"
| "py_str W (SHolder s l) = s"
| "py_str W (SLit s f) = s"
| "py_str W SNone = ''None''"
| "py_str W (SFirst v) = py_str W v"
| "py_str W SNull = ''''"
| "py_str W v = sub_str W v"

text \<open>\<open>to_String_for_subst\<close> joins the sequence itself, not the converted elements.\<close>

fun is_str :: "sval \<Rightarrow> bool" where
  "is_str (SStr s) = True"
| "is_str v = False"

definition to_String_for_subst :: "subst_world \<Rightarrow> sval \<Rightarrow> string res" where
  "to_String_for_subst W v = (case v of
       SList vs \<Rightarrow> if list_all is_str vs then Inr (py_join '' '' (map (py_str W) vs)) else Inl TypeError
     | _ \<Rightarrow> Inr (py_str W v))"

fun for_signature :: "subst_world \<Rightarrow> sval \<Rightarrow> string option" where
  "for_signature W (SLit s f) = Some f"
| "for_signature W (SObj n) = sub_sig W n"
| "for_signature W (SFirst v) = for_signature W v"
| "for_signature W SNull = Some ''''"
| "for_signature W v = None"

definition to_String_for_signature :: "subst_world \<Rightarrow> sval \<Rightarrow> string res" where
  "to_String_for_signature W v = (case for_signature W v of Some s \<Rightarrow> Inr s | None \<Rightarrow> to_String_for_subst W v)"

definition strconv :: "subst_world \<Rightarrow> subst_mode \<Rightarrow> sval \<Rightarrow> string res" where
  "strconv W mode = (if mode = SUBST_SIG then to_String_for_signature W else to_String_for_subst W)"

fun truthy :: "sval \<Rightarrow> bool" where
  "truthy (SStr s) = (s \<noteq> '''')"
| "truthy (SHolder s l) = (s \<noteq> '''')"
| "truthy (SList vs) = (vs \<noteq> [])"
| "truthy SNone = False"
| "truthy SNull = False"
| "truthy v = True"

section \<open>Wrapped strings\<close>

definition SpecialAttrWrapper_init :: "string \<Rightarrow> string option \<Rightarrow> sval" where
  "SpecialAttrWrapper_init lstr sig = SLit lstr (case sig of Some f \<Rightarrow> if f \<noteq> '''' then f else lstr | None \<Rightarrow> lstr)"

definition Literal_init :: "string \<Rightarrow> sval" where
  "Literal_init lstr = SLit lstr lstr"

definition has_blank :: "string \<Rightarrow> bool" where
  "has_blank s \<longleftrightarrow> CHR '' '' \<in> set s \<or> CHR 0x09 \<in> set s"

definition quote_spaces :: "string \<Rightarrow> string" where
  "quote_spaces arg = (if has_blank arg then [CHR 0x22] @ arg @ [CHR 0x22] else arg)"

fun holder_escape :: "(string \<Rightarrow> string) \<Rightarrow> (string \<Rightarrow> string) \<Rightarrow> string \<times> bool \<Rightarrow> string" where
  "holder_escape escape_func quote_func (s, literal) =
     (if literal then escape_func s else if has_blank s then quote_func s else s)"

text \<open>\<open>escape_list\<close>: what has no method \<open>escape\<close> stays as it is.\<close>

fun escape_one :: "(string \<Rightarrow> string) \<Rightarrow> sval \<Rightarrow> sval" where
  "escape_one escape_func (SHolder s l) = SStr (holder_escape escape_func quote_spaces (s, l))"
| "escape_one escape_func (SLit s f) = SStr (escape_func s)"
| "escape_one escape_func v = v"

definition escape_list :: "(string \<Rightarrow> string) \<Rightarrow> sval list \<Rightarrow> sval list" where
  "escape_list escape_func vs = map (escape_one escape_func) vs"

section \<open>The special variables\<close>

text \<open>\<open>NLWrapper._gen_nodelist\<close>: the list of nodes a target or source stands for.\<close>

definition gen_nodelist :: "(sval \<Rightarrow> sval) \<Rightarrow> sval \<Rightarrow> sval list" where
  "gen_nodelist func v = map func (case v of SNone \<Rightarrow> [] | SList vs \<Rightarrow> vs | x \<Rightarrow> [x])"

text \<open>\<open>Target_or_Source\<close>: the first of the nodes, or nothing.\<close>

definition first_of :: "sval list \<Rightarrow> sval" where
  "first_of vs = (case vs of [] \<Rightarrow> SNull | v # _ \<Rightarrow> SFirst v)"

definition subst_dict :: "subst_world \<Rightarrow> sval \<Rightarrow> sval \<Rightarrow> svars" where
  "subst_dict W target source =
     (if truthy target then
        let nl = gen_nodelist (tgt_proxy W) target
        in [''TARGETS'' \<mapsto> SList nl, ''TARGET'' \<mapsto> first_of nl, ''CHANGED_TARGETS'' \<mapsto> SStr ''$TARGETS'',
            ''UNCHANGED_TARGETS'' \<mapsto> SStr ''$TARGETS'']
      else [''TARGETS'' \<mapsto> SNull, ''TARGET'' \<mapsto> SNull]) ++
     (if truthy source then
        let nl = gen_nodelist (src_proxy W) source
        in [''SOURCES'' \<mapsto> SList nl, ''SOURCE'' \<mapsto> first_of nl, ''CHANGED_SOURCES'' \<mapsto> SStr ''$SOURCES'',
            ''UNCHANGED_SOURCES'' \<mapsto> SStr ''$SOURCES'']
      else [''SOURCES'' \<mapsto> SNull, ''SOURCE'' \<mapsto> SNull])"

definition with_special :: "subst_world \<Rightarrow> sval \<Rightarrow> sval \<Rightarrow> svars \<Rightarrow> svars" where
  "with_special W target source lvars =
     (if lvars ''TARGET'' \<noteq> None then lvars else lvars ++ subst_dict W target source)"

section \<open>Tokens\<close>

text \<open>\<open>_dollar_exps\<close> at the start of a text: the length of the match.\<close>

definition dollar_exps :: "string \<Rightarrow> nat option" where
  "dollar_exps s = (case s of
       d # c # cs \<Rightarrow>
         (if d \<noteq> CHR ''$'' then None
          else if c \<in> set ''$()'' then Some 2
          else if is_letter c then Some (2 + length (takeWhile (\<lambda>x. x = CHR ''.'' \<or> is_word_char x) cs))
          else if c = CHR ''{'' \<and> CHR ''}'' \<in> set cs then Some (3 + length (takeWhile (\<lambda>x. x \<noteq> CHR ''}'') cs))
          else None)
     | _ \<Rightarrow> None)"

text \<open>The characters and the matches that \<open>_dollar_exps.sub\<close> goes through.\<close>

function dollar_pieces :: "string \<Rightarrow> (char + string) list" where
  "dollar_pieces [] = []"
| "dollar_pieces (c # cs) = (case dollar_exps (c # cs) of
       Some n \<Rightarrow> Inr (take n (c # cs)) # dollar_pieces (drop (n - 1) cs)
     | None \<Rightarrow> Inl c # dollar_pieces cs)"
  by pat_completeness auto
termination
  by (relation "measure length") auto

text \<open>\<open>_separate_args.findall\<close>.\<close>

definition arg_length :: "string \<Rightarrow> nat" where
  "arg_length s = (case dollar_exps s of
       Some n \<Rightarrow> n
     | None \<Rightarrow>
         (if is_ws (hd s) then length (takeWhile is_ws s)
          else if hd s = CHR ''$'' then 1
          else length (takeWhile (\<lambda>c. \<not> is_ws c \<and> c \<noteq> CHR ''$'') s)))"

function separate_args :: "string \<Rightarrow> string list" where
  "separate_args [] = []"
| "separate_args (c # cs) =
     (let n = arg_length (c # cs) in take n (c # cs) # separate_args (drop (n - 1) cs))"
  by pat_completeness auto
termination
  by (relation "measure length") auto

section \<open>Looking a variable up\<close>

definition is_exception :: "py_exc \<Rightarrow> bool" where
  "is_exception e \<longleftrightarrow> exc_class e \<noteq> ''SystemExit'' \<and> exc_class e \<noteq> ''KeyboardInterrupt''"

definition name_error :: "string \<Rightarrow> py_exc" where
  "name_error msg = OtherError ''NameError'' msg"

definition raise_exception :: "subst_world \<Rightarrow> py_exc \<Rightarrow> svars \<Rightarrow> string \<Rightarrow> py_exc" where
  "raise_exception W e lvars s = (case lvars ''TARGETS'' of
       None \<Rightarrow> KeyError ''TARGETS''
     | Some target \<Rightarrow>
         let msg = exc_class e @ '' `'' @ exc_text e @ [CHR 0x27] @ '' trying to evaluate `'' @ s @ [CHR 0x27]
         in if truthy target then OtherError ''BuildError'' msg else UserError msg)"

definition eval_key :: "subst_world \<Rightarrow> svars \<Rightarrow> svars \<Rightarrow> string \<Rightarrow> sval res" where
  "eval_key W g lvars key =
     (if py_name key then
        (case lvars key of
           Some v \<Rightarrow> Inr v
         | None \<Rightarrow> (case g key of
               Some v \<Rightarrow> Inr v
             | None \<Rightarrow> (case sub_builtins W key of
                   Some v \<Rightarrow> Inr v
                 | None \<Rightarrow> Inl (name_error (''name '' @ [CHR 0x27] @ key @ [CHR 0x27] @ '' is not defined'')))))
      else sub_eval W g lvars key)"

text \<open>
  The lookup in the two methods \<open>expand\<close>: the name that is overwritten and the value, or \<open>Inr None\<close>
  where an allowed exception makes the token vanish. \<open>held\<close> says that the text is a
  \<open>CmdStringHolder\<close>, which \<open>eval\<close> does not take. \<open>nm\<close> is the text of the \<open>NameError\<close>.
\<close>

definition fetch_var :: "subst_world \<Rightarrow> svars \<Rightarrow> svars \<Rightarrow> bool \<Rightarrow> (string \<Rightarrow> string) \<Rightarrow> string \<Rightarrow> (string \<times> sval) option res" where
  "fetch_var W g lvars held nm s =
     (let key = tl s
      in if hd key = CHR ''{'' \<or> CHR ''.'' \<in> set key then
           let k = (if hd key = CHR ''{'' then butlast (tl key) else key)
           in case if held then Inl TypeError else eval_key W g lvars k of
                Inr v \<Rightarrow> Inr (Some (hd (py_split ''.'' k), v))
              | Inl e \<Rightarrow>
                  (if \<not> is_exception e then Inl e
                   else if exc_class e \<in> set (AllowableExceptions W) then Inr None
                   else Inl (raise_exception W e lvars s))
         else (case lvars key of
             Some v \<Rightarrow> Inr (Some (key, v))
           | None \<Rightarrow> (case g key of
                 Some v \<Rightarrow> Inr (Some (key, v))
               | None \<Rightarrow>
                   (if ''NameError'' \<notin> set (AllowableExceptions W)
                    then Inl (raise_exception W (name_error (nm key)) lvars s) else Inr None))))"

text \<open>Calling a value; \<open>None\<close> where the call raises \<open>TypeError\<close>.\<close>

definition call_value :: "subst_world \<Rightarrow> subst_mode \<Rightarrow> svars \<Rightarrow> nat \<Rightarrow> sval option res" where
  "call_value W mode lvars n = (case (lvars ''TARGETS'', lvars ''SOURCES'') of
       (Some t, Some s) \<Rightarrow> (case sub_call W n t s (mode \<noteq> SUBST_CMD) of
           Inr v \<Rightarrow> Inr (Some v)
         | Inl e \<Rightarrow> if e = TypeError then Inr None else Inl e)
     | (None, _) \<Rightarrow> Inl (KeyError ''TARGETS'')
     | _ \<Rightarrow> Inl (KeyError ''SOURCES''))"

section \<open>The class StringSubber\<close>

fun ro_map :: "('a \<Rightarrow> 'b res option) \<Rightarrow> 'a list \<Rightarrow> 'b list res option" where
  "ro_map f [] = Some (Inr [])"
| "ro_map f (x # xs) = obs_bind (f x) (\<lambda>y. obs_bind (ro_map f xs) (\<lambda>ys. Some (Inr (y # ys))))"

text \<open>
  \<open>expand\<close>, with \<open>sub\<close> for \<open>self.substitute\<close>. \<open>StringSubber_token\<close> is its branch for strings.
\<close>

definition StringSubber_token ::
    "subst_world \<Rightarrow> svars \<Rightarrow> (svars \<Rightarrow> sval \<Rightarrow> sval res option) \<Rightarrow> svars \<Rightarrow> bool \<Rightarrow> sval \<Rightarrow> string \<Rightarrow> sval res option" where
  "StringSubber_token W g sub lvars held v s = (case s of
       s0 # s1 # _ \<Rightarrow>
         (if s0 \<noteq> CHR ''$'' then Some (Inr v)
          else if s1 = CHR ''$'' then Some (Inr (SStr ''$''))
          else if s1 \<in> set ''()'' then Some (Inr v)
          else (case fetch_var W g lvars held id s of
              Inl e \<Rightarrow> Some (Inl e)
            | Inr None \<Rightarrow> Some (Inr (SStr ''''))
            | Inr (Some (var, w)) \<Rightarrow> sub (lvars(var \<mapsto> SStr '''')) w))
     | _ \<Rightarrow> Some (Inr v))"

definition StringSubber_call ::
    "subst_world \<Rightarrow> subst_mode \<Rightarrow> (svars \<Rightarrow> sval \<Rightarrow> sval res option) \<Rightarrow> svars \<Rightarrow> sval \<Rightarrow> nat \<Rightarrow> sval res option" where
  "StringSubber_call W mode sub lvars v n = (case call_value W mode lvars n of
       Inl e \<Rightarrow> Some (Inl e)
     | Inr (Some w) \<Rightarrow> sub lvars w
     | Inr None \<Rightarrow>
         (if mode = SUBST_RAW then Some (Inr v)
          else obs_bind (Some (strconv W mode v)) (\<lambda>s. sub lvars (SStr s))))"

definition StringSubber_expand ::
    "subst_world \<Rightarrow> subst_mode \<Rightarrow> svars \<Rightarrow> (svars \<Rightarrow> sval \<Rightarrow> sval res option) \<Rightarrow> svars \<Rightarrow> sval \<Rightarrow> sval res option" where
  "StringSubber_expand W mode g sub lvars v = (case v of
       SStr s \<Rightarrow> StringSubber_token W g sub lvars False v s
     | SHolder s l \<Rightarrow> StringSubber_token W g sub lvars True v s
     | SList vs \<Rightarrow>
         obs_bind (ro_map (\<lambda>l. obs_bind (sub lvars l) (\<lambda>r. Some (strconv W mode r))) vs)
           (\<lambda>rs. Some (Inr (SList (map SStr rs))))
     | SCall n \<Rightarrow> StringSubber_call W mode sub lvars v n
     | SFirst (SCall n) \<Rightarrow> StringSubber_call W mode sub lvars v n
     | SNull \<Rightarrow> sub lvars (SStr '''')
     | SNone \<Rightarrow> Some (Inr (SStr ''''))
     | _ \<Rightarrow> Some (Inr v))"

text \<open>\<open>substitute\<close>; the fuel bounds the nesting of its calls.\<close>

fun StringSubber_substitute :: "subst_world \<Rightarrow> subst_mode \<Rightarrow> svars \<Rightarrow> nat \<Rightarrow> svars \<Rightarrow> sval \<Rightarrow> sval res option" where
  "StringSubber_substitute W mode g 0 lvars args = None"
| "StringSubber_substitute W mode g (Suc n) lvars args =
     (let expand = StringSubber_expand W mode g (StringSubber_substitute W mode g n)
      in case args of
           SStr s \<Rightarrow>
             obs_bind (ro_map (\<lambda>piece. case piece of
                   Inl c \<Rightarrow> Some (Inr [c])
                 | Inr tok \<Rightarrow> obs_bind (expand lvars (SStr tok)) (\<lambda>r. Some (strconv W mode r))) (dollar_pieces s))
               (\<lambda>ss. Some (Inr (SStr (concat ss))))
         | _ \<Rightarrow> expand lvars args)"

section \<open>Removing and compressing\<close>

text \<open>\<open>_rm\<close> and \<open>_remove\<close>; in the latter every dollar sign takes the next character with it.\<close>

definition rm_exp :: "string \<Rightarrow> (string \<times> nat) option" where
  "rm_exp s = (if prefix ''$('' s \<or> prefix ''$)'' s then Some ('''', 2) else None)"

fun remove_end :: "string \<Rightarrow> nat option" where
  "remove_end [] = None"
| "remove_end [c] = None"
| "remove_end (c # d # cs) =
     (if c \<noteq> CHR ''$'' then map_option Suc (remove_end (d # cs))
      else if d = CHR '')'' then Some 2
      else map_option (\<lambda>n. n + 2) (remove_end cs))"

definition remove_exp :: "string \<Rightarrow> (string \<times> nat) option" where
  "remove_exp s = (if prefix ''$('' s then map_option (\<lambda>n. ('''', 2 + n)) (remove_end (drop 2 s)) else None)"

text \<open>\<open>_space_sep\<close>: blanks, unless a closing brace follows before the next opening one.\<close>

definition is_blank :: "char \<Rightarrow> bool" where
  "is_blank c \<longleftrightarrow> c = CHR '' '' \<or> c = CHR 0x09"

definition space_sep :: "string \<Rightarrow> (string \<times> nat) option" where
  "space_sep s =
     (let w = takeWhile is_blank s; r = dropWhile is_blank s
      in if w \<noteq> '''' \<and> CHR ''}'' \<notin> set (takeWhile (\<lambda>c. c \<noteq> CHR ''{'') r) then Some ('' '', length w) else None)"

definition strip_ws :: "string \<Rightarrow> string" where
  "strip_ws s = rev (dropWhile is_ws (rev (dropWhile is_ws s)))"

definition finish_string :: "subst_mode \<Rightarrow> string \<Rightarrow> string" where
  "finish_string mode s = (case mode of
       SUBST_RAW \<Rightarrow> s
     | SUBST_CMD \<Rightarrow> strip_ws (re_sub space_sep (re_sub rm_exp s))
     | SUBST_SIG \<Rightarrow> strip_ws (re_sub space_sep (re_sub remove_exp s)))"

definition rm_list :: "sval list \<Rightarrow> sval list" where
  "rm_list vs = filter (\<lambda>l. l \<noteq> SStr ''$('' \<and> l \<noteq> SStr ''$)'') vs"

fun remove_list :: "bool \<Rightarrow> sval list \<Rightarrow> sval list" where
  "remove_list keep [] = []"
| "remove_list keep (l # ls) =
     (if l = SStr ''$('' then remove_list False ls
      else if l = SStr ''$)'' then remove_list True ls
      else if keep then l # remove_list keep ls else remove_list keep ls)"

definition finish_list :: "subst_mode \<Rightarrow> sval list \<Rightarrow> sval list" where
  "finish_list mode vs = (case mode of SUBST_RAW \<Rightarrow> vs | SUBST_CMD \<Rightarrow> rm_list vs | SUBST_SIG \<Rightarrow> remove_list True vs)"

text \<open>An expression of the module \<open>re\<close> does not take a \<open>CmdStringHolder\<close>.\<close>

fun finish :: "subst_mode \<Rightarrow> sval \<Rightarrow> sval res" where
  "finish mode (SStr s) = Inr (SStr (finish_string mode s))"
| "finish mode (SHolder s l) = (if mode = SUBST_RAW then Inr (SHolder s l) else Inl TypeError)"
| "finish mode (SList vs) = Inr (SList (finish_list mode vs))"
| "finish mode v = Inr v"

text \<open>
  \<open>scons_subst\<close>, with the dictionary of global variables as the call leaves it: \<open>__builtins__\<close>
  (object 0) is taken out again, but not when an exception passes.
\<close>

definition no_dollar :: "sval \<Rightarrow> bool" where
  "no_dollar v \<longleftrightarrow> (case v of SStr s \<Rightarrow> CHR ''$'' \<notin> set s | _ \<Rightarrow> False)"

definition scons_subst ::
    "subst_world \<Rightarrow> nat \<Rightarrow> sval \<Rightarrow> subst_mode \<Rightarrow> sval \<Rightarrow> sval \<Rightarrow> svars \<Rightarrow> svars \<Rightarrow> (svars \<times> sval res) option" where
  "scons_subst W fuel strSubst mode target source gvars lvars =
     (if no_dollar strSubst then Some (gvars, Inr strSubst)
      else let g = gvars(''__builtins__'' \<mapsto> SObj 0)
           in map_option (\<lambda>r. case r of
                  Inl e \<Rightarrow> (g, Inl e)
                | Inr v \<Rightarrow> (g(''__builtins__'' := None), finish mode v))
                (StringSubber_substitute W mode g fuel (with_special W target source lvars) strSubst))"

section \<open>The class ListSubber\<close>

text \<open>
  The lines gathered so far, each a list of words (\<open>CmdStringHolder\<close>: text and flag), the attribute
  \<open>append\<close> (\<open>add_new_word\<close> or \<open>add_to_current_word\<close>), and \<open>in_strip\<close>.
\<close>

record list_subber =
  ls_lines :: "(string \<times> bool) list list"
  ls_new_word :: bool
  ls_in_strip :: bool

definition next_word :: "list_subber \<Rightarrow> list_subber" where
  "next_word st = st\<lparr>ls_new_word := True\<rparr>"

definition this_word :: "list_subber \<Rightarrow> list_subber" where
  "this_word st = st\<lparr>ls_new_word := False\<rparr>"

definition next_line :: "list_subber \<Rightarrow> list_subber" where
  "next_line st = next_word (st\<lparr>ls_lines := ls_lines st @ [[]]\<rparr>)"

definition ListSubber_init :: list_subber where
  "ListSubber_init = next_line \<lparr>ls_lines = [], ls_new_word = False, ls_in_strip = False\<rparr>"

fun literal :: "subst_world \<Rightarrow> sval \<Rightarrow> bool" where
  "literal W (SHolder s l) = l"
| "literal W (SLit s f) = True"
| "literal W (SObj n) = sub_literal W n"
| "literal W (SFirst v) = literal W v"
| "literal W v = False"

definition stripped :: "subst_mode \<Rightarrow> list_subber \<Rightarrow> bool" where
  "stripped mode st \<longleftrightarrow> ls_in_strip st \<and> mode = SUBST_SIG"

definition add_new_word :: "subst_world \<Rightarrow> subst_mode \<Rightarrow> sval \<Rightarrow> list_subber \<Rightarrow> list_subber res" where
  "add_new_word W mode x st =
     (if stripped mode st then Inr (this_word st)
      else res_bind (strconv W mode x) (\<lambda>y.
        Inr (this_word (st\<lparr>ls_lines := butlast (ls_lines st) @ [last (ls_lines st) @ [(y, literal W x)]]\<rparr>))))"

definition redirects :: "string \<Rightarrow> bool" where
  "redirects word \<longleftrightarrow> word \<noteq> '''' \<and> last word \<in> set ''<>|''"

definition add_to_current_word :: "subst_world \<Rightarrow> subst_mode \<Rightarrow> sval \<Rightarrow> list_subber \<Rightarrow> list_subber res" where
  "add_to_current_word W mode x st =
     (if stripped mode st then Inr st
      else let line = last (ls_lines st)
           in if line = [] \<or> redirects (fst (last line)) then add_new_word W mode x st
              else Inr (st\<lparr>ls_lines := butlast (ls_lines st) @ [butlast line @ [(fst (last line) @ py_str W x, False)]]\<rparr>))"

definition ls_append :: "subst_world \<Rightarrow> subst_mode \<Rightarrow> sval \<Rightarrow> list_subber \<Rightarrow> list_subber res" where
  "ls_append W mode x st =
     (if ls_new_word st then add_new_word W mode x st else add_to_current_word W mode x st)"

definition add_strip :: "subst_world \<Rightarrow> subst_mode \<Rightarrow> string \<Rightarrow> list_subber \<Rightarrow> list_subber res" where
  "add_strip W mode x st = (if mode = SUBST_RAW then ls_append W mode (SStr x) st else Inr st)"

definition open_strip :: "subst_world \<Rightarrow> subst_mode \<Rightarrow> string \<Rightarrow> list_subber \<Rightarrow> list_subber res" where
  "open_strip W mode x st = res_bind (add_strip W mode x st) (\<lambda>st1. Inr (st1\<lparr>ls_in_strip := True\<rparr>))"

definition close_strip :: "subst_world \<Rightarrow> subst_mode \<Rightarrow> string \<Rightarrow> list_subber \<Rightarrow> list_subber res" where
  "close_strip W mode x st = res_bind (add_strip W mode x st) (\<lambda>st1. Inr (st1\<lparr>ls_in_strip := False\<rparr>))"

fun ro_fold :: "('a \<Rightarrow> 's \<Rightarrow> 's res option) \<Rightarrow> 'a list \<Rightarrow> 's \<Rightarrow> 's res option" where
  "ro_fold f [] st = Some (Inr st)"
| "ro_fold f (x # xs) st = obs_bind (f x st) (ro_fold f xs)"

type_synonym ls_rec = "svars \<Rightarrow> bool \<Rightarrow> sval \<Rightarrow> list_subber \<Rightarrow> list_subber res option"

definition ListSubber_token ::
    "subst_world \<Rightarrow> subst_mode \<Rightarrow> svars \<Rightarrow> ls_rec \<Rightarrow> svars \<Rightarrow> bool \<Rightarrow> sval \<Rightarrow> string \<Rightarrow> list_subber \<Rightarrow> list_subber res option" where
  "ListSubber_token W mode g sub lvars held v s st = (case s of
       s0 # s1 # _ \<Rightarrow>
         (if s0 \<noteq> CHR ''$'' then Some (ls_append W mode v st)
          else if s1 = CHR ''$'' then Some (ls_append W mode (SStr ''$'') st)
          else if s1 = CHR ''('' then Some (open_strip W mode ''$('' st)
          else if s1 = CHR '')'' then Some (close_strip W mode ''$)'' st)
          else (case fetch_var W g lvars held (\<lambda>key. '''') s of
              Inl e \<Rightarrow> Some (Inl e)
            | Inr None \<Rightarrow> Some (Inr st)
            | Inr (Some (var, w)) \<Rightarrow>
                obs_bind (sub (lvars(var \<mapsto> SStr '''')) False w st) (\<lambda>st1. Some (Inr (this_word st1)))))
     | _ \<Rightarrow> Some (ls_append W mode v st))"

definition ListSubber_call ::
    "subst_world \<Rightarrow> subst_mode \<Rightarrow> ls_rec \<Rightarrow> svars \<Rightarrow> bool \<Rightarrow> sval \<Rightarrow> nat \<Rightarrow> list_subber \<Rightarrow> list_subber res option" where
  "ListSubber_call W mode sub lvars within_list v n st = (case call_value W mode lvars n of
       Inl e \<Rightarrow> Some (Inl e)
     | Inr (Some w) \<Rightarrow> sub lvars within_list w st
     | Inr None \<Rightarrow>
         (if mode = SUBST_RAW then Some (ls_append W mode v st)
          else obs_bind (Some (strconv W mode v)) (\<lambda>s. sub lvars within_list (SStr s) st)))"

definition ListSubber_expand ::
    "subst_world \<Rightarrow> subst_mode \<Rightarrow> svars \<Rightarrow> ls_rec \<Rightarrow> svars \<Rightarrow> bool \<Rightarrow> sval \<Rightarrow> list_subber \<Rightarrow> list_subber res option" where
  "ListSubber_expand W mode g sub lvars within_list v st = (case v of
       SStr s \<Rightarrow> ListSubber_token W mode g sub lvars False v s st
     | SHolder s l \<Rightarrow> ListSubber_token W mode g sub lvars True v s st
     | SList vs \<Rightarrow> ro_fold (\<lambda>a st1. obs_bind (sub lvars True a st1) (\<lambda>st2. Some (Inr (next_word st2)))) vs st
     | SCall n \<Rightarrow> ListSubber_call W mode sub lvars within_list v n st
     | SFirst (SCall n) \<Rightarrow> ListSubber_call W mode sub lvars within_list v n st
     | SNull \<Rightarrow> sub lvars within_list (SStr '''') st
     | SNone \<Rightarrow> Some (Inr (this_word st))
     | _ \<Rightarrow> Some (ls_append W mode v st))"

definition ls_piece ::
    "subst_world \<Rightarrow> subst_mode \<Rightarrow> svars \<Rightarrow> ls_rec \<Rightarrow> svars \<Rightarrow> bool \<Rightarrow> string \<Rightarrow> list_subber \<Rightarrow> list_subber res option" where
  "ls_piece W mode g sub lvars within_list a st =
     (if is_ws (hd a) then
        (if CHR 0x0A \<in> set a then Some (Inr (next_line st))
         else if within_list then Some (ls_append W mode (SStr a) st)
         else Some (Inr (next_word st)))
      else ListSubber_expand W mode g sub lvars within_list (SStr a) st)"

fun ListSubber_substitute :: "subst_world \<Rightarrow> subst_mode \<Rightarrow> svars \<Rightarrow> nat \<Rightarrow> ls_rec" where
  "ListSubber_substitute W mode g 0 lvars within_list args st = None"
| "ListSubber_substitute W mode g (Suc n) lvars within_list args st =
     (let sub = ListSubber_substitute W mode g n
      in case args of
           SStr s \<Rightarrow> ro_fold (ls_piece W mode g sub lvars within_list) (separate_args s) st
         | _ \<Rightarrow> ListSubber_expand W mode g sub lvars within_list args st)"

definition scons_subst_list ::
    "subst_world \<Rightarrow> nat \<Rightarrow> sval \<Rightarrow> subst_mode \<Rightarrow> sval \<Rightarrow> sval \<Rightarrow> svars \<Rightarrow> svars \<Rightarrow>
      (svars \<times> (string \<times> bool) list list res) option" where
  "scons_subst_list W fuel strSubst mode target source gvars lvars =
     (let g = gvars(''__builtins__'' \<mapsto> SObj 0)
      in map_option (\<lambda>r. case r of
             Inl e \<Rightarrow> (g, Inl e)
           | Inr st \<Rightarrow> (g(''__builtins__'' := None), Inr (ls_lines st)))
           (ListSubber_substitute W mode g fuel (with_special W target source lvars) False strSubst ListSubber_init))"

section \<open>A single substitution\<close>

text \<open>\<open>scons_subst_once\<close>: only the one variable is replaced, and its value is not expanded.\<close>

definition once_text :: "subst_world \<Rightarrow> sval \<Rightarrow> string" where
  "once_text W v = (case v of SList vs \<Rightarrow> py_join '' '' (map (py_str W) vs) | _ \<Rightarrow> py_str W v)"

definition once_matches :: "string \<Rightarrow> string \<Rightarrow> bool" where
  "once_matches key a \<longleftrightarrow> a = CHR ''$'' # key \<or> a = ''${'' @ key @ ''}''"

definition once_sub :: "subst_world \<Rightarrow> string \<Rightarrow> sval \<Rightarrow> string \<Rightarrow> string" where
  "once_sub W key val s = concat (map (\<lambda>piece. case piece of
       Inl c \<Rightarrow> [c]
     | Inr tok \<Rightarrow> if once_matches key tok then once_text W val else tok) (dollar_pieces s))"

definition once_arg :: "subst_world \<Rightarrow> string \<Rightarrow> sval \<Rightarrow> sval \<Rightarrow> sval list res" where
  "once_arg W key val arg =
     (let hit = Inr (case val of SList vs \<Rightarrow> vs | _ \<Rightarrow> [val])
      in case arg of
           SStr s \<Rightarrow> if once_matches key s then hit else Inr [SStr (once_sub W key val s)]
         | SHolder s l \<Rightarrow> if once_matches key s then hit else Inl TypeError
         | _ \<Rightarrow> Inr [arg])"

fun once_args :: "subst_world \<Rightarrow> string \<Rightarrow> sval \<Rightarrow> sval list \<Rightarrow> sval list res" where
  "once_args W key val [] = Inr []"
| "once_args W key val (arg # args) =
     res_bind (once_arg W key val arg) (\<lambda>r. res_bind (once_args W key val args) (\<lambda>rs. Inr (r @ rs)))"

definition scons_subst_once :: "subst_world \<Rightarrow> sval \<Rightarrow> svars \<Rightarrow> string \<Rightarrow> sval res" where
  "scons_subst_once W strSubst env key =
     (if no_dollar strSubst then Inr strSubst
      else let val = (case env key of Some v \<Rightarrow> v | None \<Rightarrow> SStr '''')
           in case strSubst of
                SList vs \<Rightarrow> res_bind (once_args W key val vs) (\<lambda>rs. Inr (SList rs))
              | SStr s \<Rightarrow> Inr (SStr (once_sub W key val s))
              | SHolder s l \<Rightarrow> Inl TypeError
              | _ \<Rightarrow> Inr strSubst)"

end
