(* ===== verification/SubstThm.thy ===== *)
theory SubstThm
  imports Subst
begin

text \<open>
  What the expansion of construction variables (\<open>Subst\<close>) computes: on texts with plain references to
  variables that hold texts, the result is that of a reference definition in which a variable is
  unknown inside its own value; the parts of a command that signatures leave out; the words of a command.
\<close>

section \<open>A reference definition\<close>

text \<open>The variable a token refers to: \<open>$NAME\<close> or \<open>${NAME}\<close>.\<close>

definition tok_var :: "string \<Rightarrow> string option" where
  "tok_var tok = (case tok of
       d # c # cs \<Rightarrow>
         (if c \<in> set ''$()'' then None
          else if c = CHR ''{'' then Some (butlast cs) else Some (c # cs))
     | _ \<Rightarrow> None)"

text \<open>
  \<open>subst_ref\<close> expands every variable in the list without the variable itself; what is not in the list
  expands to nothing.
\<close>

definition without :: "string \<Rightarrow> (string \<times> string) list \<Rightarrow> (string \<times> string) list" where
  "without x vs = filter (\<lambda>(k, v). k \<noteq> x) vs"

lemma without_shorter: "map_of vs x = Some v \<Longrightarrow> length (without x vs) < length vs"
  unfolding without_def by (rule length_filter_less [of "(x, v)"]) (auto dest: map_of_SomeD)

function subst_ref :: "(string \<times> string) list \<Rightarrow> string \<Rightarrow> string" where
  "subst_ref vs s = concat (map (\<lambda>piece. case piece of
       Inl c \<Rightarrow> [c]
     | Inr tok \<Rightarrow> (case tok_var tok of
           None \<Rightarrow> if tok = ''$$'' then ''$'' else tok
         | Some x \<Rightarrow> (case map_of vs x of
               None \<Rightarrow> ''''
             | Some v \<Rightarrow> subst_ref (without x vs) v))) (dollar_pieces s))"
  by pat_completeness auto
termination
  by (relation "measure (\<lambda>(vs, s). length vs)") (auto dest: without_shorter)

declare subst_ref.simps [simp del]

definition ref_piece :: "(string \<times> string) list \<Rightarrow> char + string \<Rightarrow> string" where
  "ref_piece vs piece = (case piece of
       Inl c \<Rightarrow> [c]
     | Inr tok \<Rightarrow> (case tok_var tok of
           None \<Rightarrow> if tok = ''$$'' then ''$'' else tok
         | Some x \<Rightarrow> (case map_of vs x of None \<Rightarrow> '''' | Some v \<Rightarrow> subst_ref (without x vs) v)))"

lemma subst_ref_pieces: "subst_ref vs s = concat (map (ref_piece vs) (dollar_pieces s))"
  by (subst subst_ref.simps) (simp add: ref_piece_def [abs_def])

lemma subst_ref_Nil [simp]: "subst_ref vs '''' = ''''"
  by (simp add: subst_ref_pieces)

text \<open>
  Plain texts: every reference is a name without attributes or a name in braces, not a keyword or a
  built-in function of Python.
\<close>

definition plain_name :: "subst_world \<Rightarrow> string \<Rightarrow> bool" where
  "plain_name W x \<longleftrightarrow> py_name x \<and> sub_builtins W x = None \<and> x \<noteq> ''__builtins__''"

definition plain_token :: "subst_world \<Rightarrow> string \<Rightarrow> bool" where
  "plain_token W tok \<longleftrightarrow> (case tok_var tok of None \<Rightarrow> True | Some x \<Rightarrow> plain_name W x)"

definition plain :: "subst_world \<Rightarrow> string \<Rightarrow> bool" where
  "plain W s \<longleftrightarrow> list_all (\<lambda>piece. case piece of Inl c \<Rightarrow> True | Inr tok \<Rightarrow> plain_token W tok) (dollar_pieces s)"

text \<open>The dictionaries hold the texts of \<open>vs\<close>; what is not in \<open>vs\<close> is unknown, empty or null.\<close>

definition lookup :: "svars \<Rightarrow> svars \<Rightarrow> string \<Rightarrow> sval option" where
  "lookup g l k = (case l k of Some v \<Rightarrow> Some v | None \<Rightarrow> g k)"

definition holds_texts :: "svars \<Rightarrow> svars \<Rightarrow> (string \<times> string) list \<Rightarrow> bool" where
  "holds_texts g l vs \<longleftrightarrow> (\<forall>k. k \<noteq> ''__builtins__'' \<longrightarrow> (case map_of vs k of
       Some s \<Rightarrow> lookup g l k = Some (SStr s)
     | None \<Rightarrow> lookup g l k \<in> {None, Some (SStr ''''), Some SNull}))"

lemma map_of_without: "map_of (without x vs) k = (if k = x then None else map_of vs k)"
  by (induction vs) (auto simp: without_def)

lemma lookup_upd: "lookup g (l(x \<mapsto> v)) k = (if k = x then Some v else lookup g l k)"
  by (simp add: lookup_def)

lemma holds_texts_blank:
  assumes "holds_texts g l vs"
  shows "holds_texts g (l(x \<mapsto> SStr '''')) (without x vs)"
  using assms unfolding holds_texts_def lookup_upd map_of_without by simp

section \<open>Tokens\<close>

definition token_shape :: "string \<Rightarrow> bool" where
  "token_shape tok \<longleftrightarrow> (\<exists>c cs. tok = CHR ''$'' # c # cs \<and>
     (c \<in> set ''$()'' \<and> cs = '''' \<or> is_letter c \<or> c = CHR ''{'' \<and> cs \<noteq> '''' \<and> last cs = CHR ''}''))"

lemma take_to_brace:
  "CHR ''}'' \<in> set cs \<Longrightarrow>
    take (Suc (length (takeWhile (\<lambda>x. x \<noteq> CHR ''}'') cs))) cs = takeWhile (\<lambda>x. x \<noteq> CHR ''}'') cs @ ''}''"
  by (induction cs) auto

lemma dollar_exps_shape: "dollar_exps s = Some n \<Longrightarrow> token_shape (take n s)"
  by (auto simp: dollar_exps_def token_shape_def numeral_3_eq_3 take_to_brace split: list.splits if_splits)

lemma piece_shape: "Inr tok \<in> set (dollar_pieces s) \<Longrightarrow> token_shape tok"
proof (induction s rule: dollar_pieces.induct)
  case (2 c cs)
  then show ?case
    by (cases "dollar_exps (c # cs)") (auto dest: dollar_exps_shape)
qed simp

lemma py_name_no_dot: "py_name x \<Longrightarrow> CHR ''.'' \<notin> set x"
  by (cases x) (auto simp: py_name_def is_ident_def list_all_iff is_word_char_def is_letter_def)

lemma fetch_plain:
  assumes "token_shape tok" "tok_var tok = Some x" "plain_name W x" "''NameError'' \<in> set (AllowableExceptions W)"
  shows "fetch_var W g l False nm tok = Inr (map_option (Pair x) (lookup g l x))"
proof -
  obtain c cs where tok: "tok = CHR ''$'' # c # cs"
    using assms(1) unfolding token_shape_def by blast
  have c: "c \<notin> set ''$()''" using assms(2) tok by (auto simp: tok_var_def)
  have x: "py_name x" "sub_builtins W x = None" "CHR ''.'' \<notin> set x" using assms(3) py_name_no_dot by (auto simp: plain_name_def)
  show ?thesis
  proof (cases "c = CHR ''{''")
    case True
    then have "x = butlast cs" using assms(2) tok by (simp add: tok_var_def)
    then show ?thesis using True x assms(4) py_split_no_sep [of "CHR ''.''" x]
      by (cases "l x"; cases "g x") (simp_all add: fetch_var_def tok eval_key_def lookup_def name_error_def is_exception_def)
  next
    case False
    then have "x = c # cs" using assms(2) tok c by (simp add: tok_var_def)
    then show ?thesis using False x assms(4)
      by (cases "l x"; cases "g x") (simp_all add: fetch_var_def tok lookup_def)
  qed
qed

section \<open>The expansion computes the reference\<close>

lemma ro_map_all: "(\<And>x. x \<in> set xs \<Longrightarrow> f x = Some (Inr (h x))) \<Longrightarrow> ro_map f xs = Some (Inr (map h xs))"
  by (induction xs) auto

lemma strconv_SStr [simp]: "strconv W mode (SStr s) = Inr s"
  by (simp add: strconv_def to_String_for_signature_def to_String_for_subst_def)

lemma substitute_Nil: "StringSubber_substitute W mode g (Suc n) l (SStr '''') = Some (Inr (SStr ''''))"
  by simp

lemma substitute_Null: "StringSubber_substitute W mode g (Suc (Suc n)) l SNull = Some (Inr (SStr ''''))"
  by (simp add: StringSubber_expand_def)

lemma substitute_ref:
  assumes allow: "''NameError'' \<in> set (AllowableExceptions W)"
  shows "holds_texts g l vs \<Longrightarrow> plain W s \<Longrightarrow> \<forall>(k, v) \<in> set vs. plain W v \<Longrightarrow> length vs + 3 \<le> n \<Longrightarrow>
    StringSubber_substitute W mode g n l (SStr s) = Some (Inr (SStr (subst_ref vs s)))"
proof (induction "length vs" arbitrary: vs l s n rule: less_induct)
  case less
  then obtain m where n: "n = Suc (Suc (Suc m))" and m: "length vs \<le> m"
    by (metis Suc_le_D add_Suc_right numeral_3_eq_3 Suc_le_mono add_0_right)
  let ?sub = "StringSubber_substitute W mode g (Suc (Suc m))"
  have piece: "(case piece of Inl c \<Rightarrow> Some (Inr [c])
      | Inr tok \<Rightarrow> obs_bind (StringSubber_expand W mode g ?sub l (SStr tok)) (\<lambda>r. Some (strconv W mode r))) =
      Some (Inr (ref_piece vs piece))" if "piece \<in> set (dollar_pieces s)" for piece
  proof (cases piece)
    case (Inr tok)
    have shape: "token_shape tok" and plain: "plain_token W tok"
      using that Inr piece_shape less.prems(2) by (auto simp: plain_def list_all_iff)
    obtain c cs where tok: "tok = CHR ''$'' # c # cs" using shape by (auto simp: token_shape_def)
    show ?thesis
    proof (cases "tok_var tok")
      case None
      then have "c \<in> set ''$()''" by (auto simp: tok_var_def tok split: if_splits)
      moreover from this have "cs = ''''" using shape tok by (auto simp: token_shape_def is_letter_def)
      ultimately show ?thesis using Inr None tok
        by (auto simp: StringSubber_expand_def StringSubber_token_def ref_piece_def)
    next
      case (Some x)
      then have c: "c \<notin> set ''$()''" by (auto simp: tok_var_def tok)
      have x: "plain_name W x" using plain Some by (simp add: plain_token_def)
      have ex: "StringSubber_expand W mode g ?sub l (SStr tok) =
          (case lookup g l x of None \<Rightarrow> Some (Inr (SStr '''')) | Some v \<Rightarrow> ?sub (l(x \<mapsto> SStr '''')) v)"
        using c fetch_plain [OF shape Some x allow, of g l id]
        by (auto simp: StringSubber_expand_def StringSubber_token_def tok split: option.splits simp del: StringSubber_substitute.simps)
      have look: "case map_of vs x of Some s \<Rightarrow> lookup g l x = Some (SStr s)
          | None \<Rightarrow> lookup g l x \<in> {None, Some (SStr ''''), Some SNull}"
        using less.prems(1) x by (auto simp: holds_texts_def plain_name_def)
      show ?thesis
      proof (cases "map_of vs x")
        case None
        then show ?thesis
          using look ex Inr Some substitute_Nil substitute_Null
          by (auto simp: ref_piece_def simp del: StringSubber_substitute.simps)
      next
        case v: (Some v)
        have "?sub (l(x \<mapsto> SStr '''')) (SStr v) = Some (Inr (SStr (subst_ref (without x vs) v)))"
        proof (rule less.hyps)
          show "length (without x vs) < length vs" using v by (rule without_shorter)
          then show "length (without x vs) + 3 \<le> Suc (Suc m)" using m by simp
          show "holds_texts g (l(x \<mapsto> SStr '''')) (without x vs)" by (rule holds_texts_blank [OF less.prems(1)])
          show "plain W v" using less.prems(3) v by (auto dest: map_of_SomeD)
          show "\<forall>(k, v) \<in> set (without x vs). plain W v" using less.prems(3) by (auto simp: without_def)
        qed
        then show ?thesis
          using look ex Inr Some v by (simp add: ref_piece_def del: StringSubber_substitute.simps)
      qed
    qed
  qed (simp add: ref_piece_def)
  have "ro_map (\<lambda>piece. case piece of Inl c \<Rightarrow> Some (Inr [c])
      | Inr tok \<Rightarrow> obs_bind (StringSubber_expand W mode g ?sub l (SStr tok)) (\<lambda>r. Some (strconv W mode r))) (dollar_pieces s) =
      Some (Inr (map (ref_piece vs) (dollar_pieces s)))"
    by (rule ro_map_all) (rule piece)
  then show ?case
    unfolding n StringSubber_substitute.simps(2) [of W mode g "Suc (Suc m)"] Let_def sval.case subst_ref_pieces
    by (simp del: StringSubber_substitute.simps)
qed

lemma scons_subst_texts:
  assumes "''NameError'' \<in> set (AllowableExceptions W)"
    and "plain W s" and "CHR ''$'' \<in> set s" and "\<forall>(k, v) \<in> set vs. plain W v"
    and "list_all (\<lambda>k. k \<notin> set (map fst vs)) [''TARGET'', ''TARGETS'', ''SOURCE'', ''SOURCES'', ''__builtins__'']"
    and "length vs + 3 \<le> fuel"
  shows "scons_subst W fuel (SStr s) mode SNone SNone (map_option SStr \<circ> map_of vs) Map.empty =
    Some (map_option SStr \<circ> map_of vs, Inr (SStr (finish_string mode (subst_ref vs s))))"
proof -
  let ?v = "map_option SStr \<circ> map_of vs"
  let ?g = "?v(''__builtins__'' \<mapsto> SObj 0)"
  have none: "map_of vs k = None" if "k \<in> set [''TARGET'', ''TARGETS'', ''SOURCE'', ''SOURCES'', ''__builtins__'']" for k
    using that assms(5) by (simp add: map_of_eq_None_iff) (elim disjE; simp)
  then have "holds_texts ?g (with_special W SNone SNone Map.empty) vs"
    by (auto simp: holds_texts_def lookup_def with_special_def subst_dict_def split: option.splits)
  note sub = substitute_ref [OF assms(1) this assms(2,4,6)]
  have "?g(''__builtins__'' := None) = ?v" using none [of "''__builtins__''"] by (auto simp: fun_eq_iff)
  then show ?thesis using assms(3) sub by (simp add: scons_subst_def no_dollar_def)
qed

text \<open>An environment without callables and objects.\<close>

definition text_world :: subst_world where
  "text_world = \<lparr>sub_eval = (\<lambda>g l e. Inl ValueError), sub_builtins = Map.empty, sub_call = (\<lambda>n t s f. Inl TypeError),
     sub_str = (\<lambda>v. ''''), sub_sig = Map.empty, sub_literal = (\<lambda>n. False), tgt_proxy = id, src_proxy = id,
     AllowableExceptions = [''IndexError'', ''NameError'']\<rparr>"

definition text_vars :: "(string \<times> string) list" where
  "text_vars = [(''CC'', ''gcc $FLAGS''), (''FLAGS'', ''-O2 $( -j ${CC} $)  $FLAGS'')]"

lemma text_plain:
  "''NameError'' \<in> set (AllowableExceptions text_world)"
  "\<forall>(k, v) \<in> set text_vars. plain text_world v"
  "list_all (\<lambda>k. k \<notin> set (map fst text_vars)) [''TARGET'', ''TARGETS'', ''SOURCE'', ''SOURCES'', ''__builtins__'']"
  "plain text_world ''$CC -c  $TARGET''"
  by code_simp+

text \<open>
  C30: \<open>scons_subst\<close> computes the reference: on a text with plain references to variables that hold plain
  texts it returns, with fuel for as many nested calls as there are variables and three more,
  the text in which every variable is replaced by the expansion of its value in the environment without that
  variable, then stripped and compressed as the mode asks. Self-references and cycles vanish. The
  dictionary of the environment is left as it was.\<close>

theorem scons_subst_reference:
  assumes "''NameError'' \<in> set (AllowableExceptions W)"
    and "plain W s" and "CHR ''$'' \<in> set s" and "\<forall>(k, v) \<in> set vs. plain W v"
    and "list_all (\<lambda>k. k \<notin> set (map fst vs)) [''TARGET'', ''TARGETS'', ''SOURCE'', ''SOURCES'', ''__builtins__'']"
    and "length vs + 3 \<le> fuel"
  shows "scons_subst W fuel (SStr s) mode SNone SNone (map_option SStr \<circ> map_of vs) Map.empty =
    Some (map_option SStr \<circ> map_of vs, Inr (SStr (finish_string mode (subst_ref vs s))))"
  by (rule scons_subst_texts [OF assms])

theorem scons_subst_reference_witness:
  "scons_subst text_world 5 (SStr ''$CC -c  $TARGET'') SUBST_CMD SNone SNone (map_option SStr \<circ> map_of text_vars) Map.empty =
    Some (map_option SStr \<circ> map_of text_vars, Inr (SStr ''gcc -O2 -j -c''))"
proof -
  have "finish_string SUBST_CMD (subst_ref text_vars ''$CC -c  $TARGET'') = ''gcc -O2 -j -c''" by code_simp
  then show ?thesis
    using scons_subst_reference [OF text_plain(1,4) _ text_plain(2,3), of 5 SUBST_CMD] by (simp add: text_vars_def)
qed

section \<open>Signatures\<close>

lemma remove_end_text: "CHR ''$'' \<notin> set b \<Longrightarrow> remove_end (b @ ''$)'' @ c) = Some (length b + 2)"
proof (induction b)
  case (Cons x b)
  then show ?case by (cases b) auto
qed simp

lemma remove_text:
  assumes "CHR ''$'' \<notin> set a" "CHR ''$'' \<notin> set b"
  shows "re_sub remove_exp (a @ ''$('' @ b @ ''$)'' @ c) = a @ re_sub remove_exp c"
  using assms(1)
proof (induction a)
  case Nil
  have "remove_exp (''$('' @ b @ ''$)'' @ c) = Some ('''', length b + 4)"
    using remove_end_text [OF assms(2), of c] by (simp add: remove_exp_def)
  moreover have "drop (length b + 3) (CHR ''('' # b @ ''$)'' @ c) = c" by (simp add: numeral_3_eq_3)
  ultimately show ?case by (simp add: add.commute)
next
  case (Cons x a)
  then show ?case by (auto simp: remove_exp_def)
qed

text \<open>
  C31: The signature of a command does not depend on what stands between \<open>$(\<close> and \<open>$)\<close>: in the mode for
  signatures the result is made of the expansions of what stands before and behind only. The expansions
  of the first part and of the bracketed part contain no dollar signs.\<close>

theorem signature_without_brackets:
  assumes "''NameError'' \<in> set (AllowableExceptions W)"
    and "plain W s" and "\<forall>(k, v) \<in> set vs. plain W v"
    and "list_all (\<lambda>k. k \<notin> set (map fst vs)) [''TARGET'', ''TARGETS'', ''SOURCE'', ''SOURCES'', ''__builtins__'']"
    and "length vs + 3 \<le> fuel"
    and "dollar_pieces s = before @ Inr ''$('' # bracketed @ Inr ''$)'' # after"
    and "CHR ''$'' \<notin> set (concat (map (ref_piece vs) before))" "CHR ''$'' \<notin> set (concat (map (ref_piece vs) bracketed))"
  shows "\<exists>g. scons_subst W fuel (SStr s) SUBST_SIG SNone SNone (map_option SStr \<circ> map_of vs) Map.empty =
    Some (g, Inr (SStr (strip_ws (re_sub space_sep
      (concat (map (ref_piece vs) before) @ re_sub remove_exp (concat (map (ref_piece vs) after)))))))"
proof -
  have "CHR ''$'' \<in> set s"
  proof (rule ccontr)
    assume "CHR ''$'' \<notin> set s"
    then have "dollar_pieces s = map Inl s"
      by (induction s rule: dollar_pieces.induct) (auto simp: dollar_exps_def split: option.splits list.splits if_splits)
    moreover have "Inr ''$('' \<in> set (dollar_pieces s)" using assms(6) by simp
    ultimately show False by auto
  qed
  moreover have "subst_ref vs s = concat (map (ref_piece vs) before) @ ''$('' @ concat (map (ref_piece vs) bracketed) @ ''$)'' @
      concat (map (ref_piece vs) after)"
    by (simp add: subst_ref_pieces assms(6) ref_piece_def [of _ "Inr _"] tok_var_def)
  ultimately show ?thesis
    using scons_subst_texts [OF assms(1,2) _ assms(3,4,5), of SUBST_SIG] remove_text [OF assms(7,8)]
    by (simp add: finish_string_def)
qed

definition link_vars :: "(string \<times> string) list" where
  "link_vars = [(''JOBS'', ''-j $N''), (''N'', ''4''), (''X'', ''a.o'')]"

theorem signature_without_brackets_witness:
  "\<exists>g. scons_subst text_world 6 (SStr ''ld $($JOBS$) $X'') SUBST_SIG SNone SNone (map_option SStr \<circ> map_of link_vars) Map.empty =
    Some (g, Inr (SStr ''ld a.o''))"
proof -
  have h: "\<forall>(k, v) \<in> set link_vars. plain text_world v" "plain text_world ''ld $($JOBS$) $X''"
    "list_all (\<lambda>k. k \<notin> set (map fst link_vars)) [''TARGET'', ''TARGETS'', ''SOURCE'', ''SOURCES'', ''__builtins__'']"
    "dollar_pieces ''ld $($JOBS$) $X'' = map Inl ''ld '' @ Inr ''$('' # [Inr ''$JOBS''] @ Inr ''$)'' # [Inl CHR '' '', Inr ''$X'']"
    "CHR ''$'' \<notin> set (concat (map (ref_piece link_vars) (map Inl ''ld '')))"
    "CHR ''$'' \<notin> set (concat (map (ref_piece link_vars) [Inr ''$JOBS'']))"
    "strip_ws (re_sub space_sep (concat (map (ref_piece link_vars) (map Inl ''ld '')) @
      re_sub remove_exp (concat (map (ref_piece link_vars) [Inl CHR '' '', Inr ''$X''])))) = ''ld a.o''"
    by code_simp+
  show ?thesis
    using signature_without_brackets [OF text_plain(1) h(2,1,3) _ h(4-6), of 6] h(7) by (simp add: link_vars_def)
qed

section \<open>Words\<close>

lemma split_ws_skip: "\<forall>c \<in> set w. is_ws c \<Longrightarrow> split_ws (w @ r) = split_ws r"
  unfolding split_ws_def by (induction w) auto

lemma split_ws_acc_word:
  "\<forall>c \<in> set w. \<not> is_ws c \<Longrightarrow> split_ws_acc acc (w @ r) = split_ws_acc (rev w @ acc) r"
  by (induction w arbitrary: acc) auto

lemma split_ws_word:
  assumes "\<forall>c \<in> set w. \<not> is_ws c" "w \<noteq> ''''" "r = '''' \<or> is_ws (hd r)"
  shows "split_ws (w @ r) = w # split_ws r"
  using assms split_ws_acc_word [OF assms(1), of "[]" r] by (cases r) (auto simp: split_ws_def)

text \<open>The first piece of a text without dollar signs: a run of white space or a word.\<close>

lemma arg_length_text:
  assumes "CHR ''$'' \<notin> set s" "s \<noteq> ''''"
  shows "arg_length s = (if is_ws (hd s) then length (takeWhile is_ws s) else length (takeWhile (\<lambda>c. \<not> is_ws c) s))"
proof -
  have "dollar_exps s = None" using assms by (auto simp: dollar_exps_def split: list.split)
  moreover have "takeWhile (\<lambda>c. \<not> is_ws c \<and> c \<noteq> CHR ''$'') s = takeWhile (\<lambda>c. \<not> is_ws c) s"
    using assms(1) by (intro takeWhile_cong) auto
  moreover have "hd s \<noteq> CHR ''$''" using assms by (cases s) auto
  ultimately show ?thesis by (simp add: arg_length_def)
qed

lemma separate_args_text:
  assumes "CHR ''$'' \<notin> set s" "s \<noteq> ''''"
  shows "separate_args s = (if is_ws (hd s) then takeWhile is_ws s # separate_args (dropWhile is_ws s)
    else takeWhile (\<lambda>c. \<not> is_ws c) s # separate_args (dropWhile (\<lambda>c. \<not> is_ws c) s))"
proof -
  obtain c cs where s: "s = c # cs" using assms(2) by (cases s) auto
  have step: "separate_args s = takeWhile P s # separate_args (dropWhile P s)"
    if "arg_length s = length (takeWhile P s)" "P c" for P
  proof -
    have "drop (length (takeWhile P s) - 1) cs = drop (length (takeWhile P s)) s" using that(2) by (simp add: s)
    then show ?thesis
      using that(1) by (simp only: s separate_args.simps Let_def flip: takeWhile_eq_take dropWhile_eq_drop)
  qed
  show ?thesis using arg_length_text [OF assms] step [of is_ws] step [of "\<lambda>c. \<not> is_ws c"] by (simp add: s split: if_splits)
qed

lemma concat_add_word: "ls \<noteq> [] \<Longrightarrow> concat (butlast ls @ [last ls @ [x]]) = concat ls @ [x]"
  by (cases ls rule: rev_cases) auto

lemma append_word:
  assumes "ls_new_word st" "\<not> ls_in_strip st"
  shows "ls_append W mode (SStr w) st =
    Inr (this_word (st\<lparr>ls_lines := butlast (ls_lines st) @ [last (ls_lines st) @ [(w, False)]]\<rparr>))"
  using assms by (simp add: ls_append_def add_new_word_def stripped_def)

lemma piece_word:
  assumes "ls_new_word st" "\<not> ls_in_strip st" "w \<noteq> ''''" "\<not> is_ws (hd w)" "hd w \<noteq> CHR ''$''"
  shows "ls_piece W mode g sub l within w st =
    Some (Inr (this_word (st\<lparr>ls_lines := butlast (ls_lines st) @ [last (ls_lines st) @ [(w, False)]]\<rparr>)))"
  using assms append_word [OF assms(1,2)]
  by (auto simp: ls_piece_def ListSubber_expand_def ListSubber_token_def split: list.split)

definition words_of :: "string \<Rightarrow> (string \<times> bool) list" where
  "words_of s = map (\<lambda>w. (w, False)) (split_ws s)"

lemma fold_words:
  "CHR ''$'' \<notin> set s \<Longrightarrow> ls_new_word st \<or> s = '''' \<or> is_ws (hd s) \<Longrightarrow> \<not> ls_in_strip st \<Longrightarrow> ls_lines st \<noteq> [] \<Longrightarrow>
    \<exists>st'. ro_fold (ls_piece W mode g sub l False) (separate_args s) st = Some (Inr st') \<and>
      concat (ls_lines st') = concat (ls_lines st) @ words_of s \<and>
      (CHR 0x0A \<notin> set s \<longrightarrow> length (ls_lines st') = length (ls_lines st))"
proof (induction "length s" arbitrary: s st rule: less_induct)
  case less
  consider "s = ''''" | "s \<noteq> ''''" "is_ws (hd s)" | "s \<noteq> ''''" "\<not> is_ws (hd s)" by blast
  then show ?case
  proof cases
    case 1
    then show ?thesis by (simp add: words_of_def split_ws_def)
  next
    case 2
    let ?w = "takeWhile is_ws s" and ?r = "dropWhile is_ws s"
    define st1 where "st1 = (if CHR 0x0A \<in> set ?w then next_line st else next_word st)"
    have w: "?w \<noteq> ''''" "is_ws (hd ?w)" using 2 by (cases s; simp)+
    then have "ls_piece W mode g sub l False ?w st = Some (Inr st1)" by (simp add: ls_piece_def st1_def)
    moreover have "length ?r < length s" using 2 by (cases s) (auto simp: less_Suc_eq_le length_dropWhile_le)
    moreover have "CHR ''$'' \<notin> set ?r" using less.prems(1) by (auto dest: set_dropWhileD)
    moreover have st1: "ls_new_word st1" "\<not> ls_in_strip st1" "ls_lines st1 \<noteq> []" "concat (ls_lines st1) = concat (ls_lines st)"
      "CHR 0x0A \<notin> set s \<Longrightarrow> length (ls_lines st1) = length (ls_lines st)"
      using less.prems by (auto simp: st1_def next_line_def next_word_def dest: set_takeWhileD)
    moreover have "words_of s = words_of ?r"
      using split_ws_skip [of ?w ?r] set_takeWhileD [of _ is_ws s] by (simp add: words_of_def)
    ultimately show ?thesis
      using less.hyps [of ?r st1] separate_args_text [OF less.prems(1) 2(1)] 2(2)
      by (auto dest: set_dropWhileD)
  next
    case 3
    let ?P = "\<lambda>c. \<not> is_ws c"
    let ?w = "takeWhile ?P s" and ?r = "dropWhile ?P s"
    define st1 where "st1 = this_word (st\<lparr>ls_lines := butlast (ls_lines st) @ [last (ls_lines st) @ [(?w, False)]]\<rparr>)"
    have w: "?w \<noteq> ''''" "\<not> is_ws (hd ?w)" "hd ?w \<noteq> CHR ''$''" using 3 less.prems(1) by (cases s; auto)+
    have "ls_new_word st" using less.prems(2) 3 by blast
    then have "ls_piece W mode g sub l False ?w st = Some (Inr st1)"
      unfolding st1_def using less.prems(3) w by (rule piece_word)
    moreover have "length ?r < length s" using 3 by (cases s) (auto simp: less_Suc_eq_le length_dropWhile_le)
    moreover have "CHR ''$'' \<notin> set ?r" using less.prems(1) by (auto dest: set_dropWhileD)
    moreover have r: "?r = '''' \<or> is_ws (hd ?r)" using hd_dropWhile [of ?P s] by auto
    moreover have st1: "\<not> ls_in_strip st1" "ls_lines st1 \<noteq> []" "concat (ls_lines st1) = concat (ls_lines st) @ [(?w, False)]"
      "length (ls_lines st1) = length (ls_lines st)"
      using less.prems(3,4) concat_add_word [OF less.prems(4)] by (simp_all add: st1_def this_word_def)
    moreover have "words_of s = (?w, False) # words_of ?r"
      using split_ws_word [of ?w ?r] w(1) r set_takeWhileD [of _ ?P s] by (simp add: words_of_def)
    ultimately show ?thesis
      using less.hyps [of ?r st1] separate_args_text [OF less.prems(1) 3(1)] 3(2)
      by (auto dest: set_dropWhileD)
  qed
qed

text \<open>
  \<open>scons_subst_list\<close> of a text without dollar signs returns its words: taken together, the lines hold
  exactly the words of the text in order, split at white space, none of them literal; and
  there is one line when the text has no line break.\<close>

lemma subst_list_words:
  assumes "CHR ''$'' \<notin> set s"
  shows "\<exists>g ls. scons_subst_list W (Suc fuel) (SStr s) mode target source gvars lvars = Some (g, Inr ls) \<and>
    concat ls = map (\<lambda>w. (w, False)) (split_ws s) \<and> (CHR 0x0A \<notin> set s \<longrightarrow> length ls = 1)"
proof -
  have "ls_new_word ListSubber_init" "\<not> ls_in_strip ListSubber_init" "ls_lines ListSubber_init = [[]]"
    by (simp_all add: ListSubber_init_def next_line_def next_word_def)
  with fold_words [OF assms, of ListSubber_init W mode "gvars(''__builtins__'' \<mapsto> SObj 0)"
      "ListSubber_substitute W mode (gvars(''__builtins__'' \<mapsto> SObj 0)) fuel" "with_special W target source lvars"]
  show ?thesis by (auto simp: scons_subst_list_def words_of_def)
qed

section \<open>Limits\<close>

text \<open>
  An exception leaves \<open>__builtins__\<close> in the dictionary of the environment: the statement that takes it
  out is passed over.
\<close>

lemma subst_error_pollutes:
  assumes "StringSubber_substitute W mode (gvars(''__builtins__'' \<mapsto> SObj 0)) fuel (with_special W target source lvars) v = Some (Inl e)"
    and "\<not> no_dollar v"
  shows "scons_subst W fuel v mode target source gvars lvars = Some (gvars(''__builtins__'' \<mapsto> SObj 0), Inl e)"
  using assms by (simp add: scons_subst_def)

text \<open>A sequence with an element that is not a string is not converted, although its elements are.\<close>

lemma to_String_for_subst_joins_originals:
  "to_String_for_subst W (SList [SObj n]) = Inl TypeError" "to_String_for_subst W (SObj n) = Inr (sub_str W (SObj n))"
  by (simp_all add: to_String_for_subst_def)

end
