(* ===== verification/Shlex.thy ===== *)
theory Shlex
  imports Prelude
begin

text \<open>
  The lexical analyser of \<open>SCons/compat/_scons_shlex.py\<close>, with which \<open>ParseFlags\<close> splits command
  lines: a state machine over the characters of an input stream, and \<open>split\<close>. The attribute
  \<open>source\<close> (inclusion of files by a keyword, \<open>None\<close> unless a user sets it) and the debug output
  are left out.
\<close>

section \<open>State\<close>

text \<open>The attribute \<open>state\<close>: \<open>None\<close>, a space, \<open>'a'\<close>, a quote or the escape character.\<close>

datatype lex_state = LEof | LSpace | LWord | LQuote char | LEsc char

record shlex =
  instream :: string  \<comment> \<open>what is left to read\<close>
  infile :: "string option"
  posix :: bool
  commenters :: string
  wordchars :: string
  whitespace :: string
  whitespace_split :: bool
  quotes :: string
  escape :: string
  escapedquotes :: string
  lex_state :: lex_state
  pushback :: "string option list"
  lineno :: nat
  token :: string
  filestack :: "(string option \<times> string \<times> nat) list"

text \<open>The letters of ISO 8859-1 that POSIX mode adds: 0xDF to 0xFF without 0xF7 and 0xC0 to 0xDE without 0xD7.\<close>

definition latin_letters :: string where
  "latin_letters = map char_of (filter (\<lambda>n. n \<noteq> 0xF7) [0xDF..<0x100]) @ map char_of (filter (\<lambda>n. n \<noteq> 0xD7) [0xC0..<0xDF::nat])"

definition shlex_init :: "string \<Rightarrow> string option \<Rightarrow> bool \<Rightarrow> shlex" where
  "shlex_init input file psx =
     \<lparr>instream = input, infile = file, posix = psx, commenters = ''#'',
      wordchars = ''abcdfeghijklmnopqrstuvwxyzABCDEFGHIJKLMNOPQRSTUVWXYZ0123456789_'' @ (if psx then latin_letters else ''''),
      whitespace = [CHR '' '', CHR 0x09, CHR 0x0D, CHR 0x0A], whitespace_split = False,
      quotes = [CHR 0x27, CHR 0x22], escape = [CHR 0x5C], escapedquotes = [CHR 0x22],
      lex_state = LSpace, pushback = [], lineno = 1, token = '''', filestack = []\<rparr>"

definition eof :: "shlex \<Rightarrow> string option" where
  "eof sh = (if posix sh then None else Some '''')"

definition push_token :: "string option \<Rightarrow> shlex \<Rightarrow> shlex" where
  "push_token tok sh = sh\<lparr>pushback := tok # pushback sh\<rparr>"

definition push_source :: "string \<Rightarrow> string option \<Rightarrow> shlex \<Rightarrow> shlex" where
  "push_source newstream newfile sh = sh\<lparr>filestack := (infile sh, instream sh, lineno sh) # filestack sh,
     infile := newfile, instream := newstream, lineno := 1\<rparr>"

text \<open>Where the stack is empty \<open>popleft\<close> raises.\<close>

definition pop_source :: "shlex \<Rightarrow> shlex res" where
  "pop_source sh = (case filestack sh of
       [] \<Rightarrow> Inl IndexError
     | (f, s, n) # fs \<Rightarrow> Inr (sh\<lparr>infile := f, instream := s, lineno := n, filestack := fs, lex_state := LSpace\<rparr>))"

section \<open>Reading a token\<close>

text \<open>
  What one turn of the loop of \<open>read_token\<close> does: leave the loop, go on, or raise. The local
  variables \<open>quoted\<close> and \<open>escapedstate\<close> go along.
\<close>

datatype lex_action = Emit shlex bool | Go shlex bool lex_state | Fail py_exc

definition emit_or_go :: "shlex \<Rightarrow> bool \<Rightarrow> lex_state \<Rightarrow> lex_action" where
  "emit_or_go sh quoted esc = (if token sh \<noteq> '''' \<or> posix sh \<and> quoted then Emit sh quoted else Go sh quoted esc)"

definition add_char :: "char \<Rightarrow> shlex \<Rightarrow> shlex" where
  "add_char c sh = sh\<lparr>token := token sh @ [c]\<rparr>"

text \<open>\<open>instream.readline()\<close>, and the line counter.\<close>

definition skip_line :: "shlex \<Rightarrow> shlex" where
  "skip_line sh = sh\<lparr>instream := tl (dropWhile (\<lambda>c. c \<noteq> CHR 0x0A) (instream sh)), lineno := lineno sh + 1\<rparr>"

text \<open>At the end of the stream:\<close>

definition lex_eof :: "shlex \<Rightarrow> bool \<Rightarrow> lex_action" where
  "lex_eof sh quoted = (case lex_state sh of
       LEof \<Rightarrow> Emit (sh\<lparr>token := ''''\<rparr>) quoted
     | LQuote q \<Rightarrow> Fail ValueError
     | LEsc e \<Rightarrow> Fail ValueError
     | _ \<Rightarrow> Emit (sh\<lparr>lex_state := LEof\<rparr>) quoted)"

definition lex_space :: "char \<Rightarrow> shlex \<Rightarrow> bool \<Rightarrow> lex_state \<Rightarrow> lex_action" where
  "lex_space c sh quoted esc =
     (if c \<in> set (whitespace sh) then emit_or_go sh quoted esc
      else if c \<in> set (commenters sh) then Go (skip_line sh) quoted esc
      else if posix sh \<and> c \<in> set (escape sh) then Go (sh\<lparr>lex_state := LEsc c\<rparr>) quoted LWord
      else if c \<in> set (wordchars sh) then Go (sh\<lparr>token := [c], lex_state := LWord\<rparr>) quoted esc
      else if c \<in> set (quotes sh) then
        Go ((if posix sh then sh else sh\<lparr>token := [c]\<rparr>)\<lparr>lex_state := LQuote c\<rparr>) quoted esc
      else if whitespace_split sh then Go (sh\<lparr>token := [c], lex_state := LWord\<rparr>) quoted esc
      else emit_or_go (sh\<lparr>token := [c]\<rparr>) quoted esc)"

definition lex_quote :: "char \<Rightarrow> char \<Rightarrow> shlex \<Rightarrow> lex_state \<Rightarrow> lex_action" where
  "lex_quote q c sh esc =
     (if c = q then
        (if \<not> posix sh then Emit ((add_char c sh)\<lparr>lex_state := LSpace\<rparr>) True
         else Go (sh\<lparr>lex_state := LWord\<rparr>) True esc)
      else if posix sh \<and> c \<in> set (escape sh) \<and> q \<in> set (escapedquotes sh) then
        Go (sh\<lparr>lex_state := LEsc c\<rparr>) True (LQuote q)
      else Go (add_char c sh) True esc)"

text \<open>Inside quotes only the quote and the escape character itself are escaped.\<close>

definition lex_esc :: "char \<Rightarrow> char \<Rightarrow> shlex \<Rightarrow> bool \<Rightarrow> lex_state \<Rightarrow> lex_action" where
  "lex_esc e c sh quoted esc =
     (let sh1 = (case esc of LQuote q \<Rightarrow> if c \<noteq> e \<and> c \<noteq> q then add_char e sh else sh | _ \<Rightarrow> sh)
      in Go ((add_char c sh1)\<lparr>lex_state := esc\<rparr>) quoted esc)"

definition lex_word :: "char \<Rightarrow> shlex \<Rightarrow> bool \<Rightarrow> lex_state \<Rightarrow> lex_action" where
  "lex_word c sh quoted esc =
     (if c \<in> set (whitespace sh) then emit_or_go (sh\<lparr>lex_state := LSpace\<rparr>) quoted esc
      else if c \<in> set (commenters sh) then
        (if posix sh then emit_or_go ((skip_line sh)\<lparr>lex_state := LSpace\<rparr>) quoted esc else Go (skip_line sh) quoted esc)
      else if posix sh \<and> c \<in> set (quotes sh) then Go (sh\<lparr>lex_state := LQuote c\<rparr>) quoted esc
      else if posix sh \<and> c \<in> set (escape sh) then Go (sh\<lparr>lex_state := LEsc c\<rparr>) quoted LWord
      else if c \<in> set (wordchars sh) \<or> c \<in> set (quotes sh) \<or> whitespace_split sh then Go (add_char c sh) quoted esc
      else let sh1 = sh\<lparr>pushback := Some [c] # pushback sh, lex_state := LSpace\<rparr>
           in if token sh1 \<noteq> '''' then Emit sh1 quoted else Go sh1 quoted esc)"

definition lex_char :: "char \<Rightarrow> shlex \<Rightarrow> bool \<Rightarrow> lex_state \<Rightarrow> lex_action" where
  "lex_char c sh quoted esc = (case lex_state sh of
       LEof \<Rightarrow> Emit (sh\<lparr>token := ''''\<rparr>) quoted
     | LSpace \<Rightarrow> lex_space c sh quoted esc
     | LQuote q \<Rightarrow> lex_quote q c sh esc
     | LEsc e \<Rightarrow> lex_esc e c sh quoted esc
     | LWord \<Rightarrow> lex_word c sh quoted esc)"

definition read_char :: "char \<Rightarrow> string \<Rightarrow> shlex \<Rightarrow> shlex" where
  "read_char c s sh = sh\<lparr>instream := s, lineno := (if c = CHR 0x0A then lineno sh + 1 else lineno sh)\<rparr>"

lemma skip_line_le: "length (instream (skip_line sh)) \<le> length (instream sh)"
  using length_dropWhile_le [of "\<lambda>c. c \<noteq> CHR 0x0A" "instream sh"] by (simp add: skip_line_def)

lemmas lex_defs = lex_char_def lex_space_def lex_quote_def lex_esc_def lex_word_def emit_or_go_def add_char_def

lemma lex_char_le: "lex_char c sh quoted esc = Go sh' q' e' \<Longrightarrow> length (instream sh') \<le> length (instream sh)"
  using skip_line_le [of sh]
  by (cases "lex_state sh") (auto simp: lex_defs Let_def split: if_splits lex_state.splits)

text \<open>The loop; \<open>lex_eof\<close> never goes on.\<close>

function read_loop :: "shlex \<Rightarrow> bool \<Rightarrow> lex_state \<Rightarrow> (shlex \<times> bool) res" where
  "read_loop sh quoted esc = (case instream sh of
       [] \<Rightarrow> (case lex_eof sh quoted of Emit sh1 q \<Rightarrow> Inr (sh1, q) | Go sh1 q e \<Rightarrow> Inr (sh1, q) | Fail x \<Rightarrow> Inl x)
     | c # s \<Rightarrow> (case lex_char c (read_char c s sh) quoted esc of
           Emit sh1 q \<Rightarrow> Inr (sh1, q)
         | Fail x \<Rightarrow> Inl x
         | Go sh1 q e \<Rightarrow> read_loop sh1 q e))"
  by pat_completeness auto
termination
  by (relation "measure (\<lambda>(sh, q, e). length (instream sh))")
    (auto dest!: lex_char_le simp: read_char_def)

declare read_loop.simps [simp del]

definition read_token :: "shlex \<Rightarrow> (string option \<times> shlex) res" where
  "read_token sh = res_bind (read_loop sh False LSpace) (\<lambda>(sh1, quoted).
     Inr (if posix sh1 \<and> \<not> quoted \<and> token sh1 = '''' then None else Some (token sh1), sh1\<lparr>token := ''''\<rparr>))"

text \<open>What reading leaves alone.\<close>

lemma skip_line_frame [simp]:
  "filestack (skip_line sh) = filestack sh" "posix (skip_line sh) = posix sh"
  by (simp_all add: skip_line_def)

lemma lex_char_frame:
  "lex_char c sh quoted esc = Go sh' q' e' \<Longrightarrow> filestack sh' = filestack sh \<and> posix sh' = posix sh"
  "lex_char c sh quoted esc = Emit sh' q' \<Longrightarrow> filestack sh' = filestack sh \<and> posix sh' = posix sh"
  by (cases "lex_state sh"; auto simp: lex_defs Let_def split: if_splits lex_state.splits)+

lemma lex_eof_frame:
  "lex_eof sh quoted = Emit sh' q' \<Longrightarrow> filestack sh' = filestack sh \<and> posix sh' = posix sh"
  "lex_eof sh quoted \<noteq> Go sh' q' e'"
  by (auto simp: lex_eof_def split: lex_state.splits)

lemma read_loop_frame:
  "read_loop sh quoted esc = Inr (sh', q') \<Longrightarrow> filestack sh' = filestack sh \<and> posix sh' = posix sh"
proof (induction sh quoted esc rule: read_loop.induct)
  case (1 sh quoted esc)
  show ?case
  proof (cases "instream sh")
    case Nil
    then show ?thesis using "1.prems" lex_eof_frame
      by (subst (asm) read_loop.simps) (auto split: lex_action.splits)
  next
    case (Cons c s)
    show ?thesis
    proof (cases "lex_char c (read_char c s sh) quoted esc")
      case (Emit sh1 q)
      then show ?thesis using "1.prems" Cons lex_char_frame(2) [OF Emit]
        by (subst (asm) read_loop.simps) (simp add: read_char_def)
    next
      case (Go sh1 q e)
      then show ?thesis using "1.prems" Cons lex_char_frame(1) [OF Go] "1.IH" [OF Cons Go]
        by (subst (asm) read_loop.simps) (simp add: read_char_def)
    next
      case (Fail x)
      then show ?thesis using "1.prems" Cons by (subst (asm) read_loop.simps) simp
    qed
  qed
qed

lemma read_token_frame: "read_token sh = Inr (raw, sh') \<Longrightarrow> filestack sh' = filestack sh \<and> posix sh' = posix sh"
  by (auto simp: read_token_def res_bind_eq_Inr dest: read_loop_frame)

section \<open>Getting tokens\<close>

text \<open>The loop of \<open>get_token\<close> that leaves exhausted sources.\<close>

function get_loop :: "string option \<Rightarrow> shlex \<Rightarrow> (string option \<times> shlex) res" where
  "get_loop raw sh =
     (if raw \<noteq> eof sh \<or> filestack sh = [] then Inr (raw, sh)
      else (case pop_source sh of
          Inl x \<Rightarrow> Inl x
        | Inr sh1 \<Rightarrow> (case pushback sh1 of
              tok # ts \<Rightarrow> get_loop tok (sh1\<lparr>pushback := ts\<rparr>)
            | [] \<Rightarrow> (case read_token sh1 of Inl x \<Rightarrow> Inl x | Inr r \<Rightarrow> get_loop (fst r) (snd r)))))"
  by pat_completeness auto
termination
  by (relation "measure (\<lambda>(raw, sh). length (filestack sh))")
    (auto simp: pop_source_def dest: read_token_frame split: list.splits)

declare get_loop.simps [simp del]

definition get_token :: "shlex \<Rightarrow> (string option \<times> shlex) res" where
  "get_token sh = (case pushback sh of
       tok # ts \<Rightarrow> Inr (tok, sh\<lparr>pushback := ts\<rparr>)
     | [] \<Rightarrow> res_bind (read_token sh) (\<lambda>(raw, sh1). get_loop raw sh1))"

text \<open>The loop of \<open>split\<close>; that it ends is shown below.\<close>

partial_function (option) split_loop :: "shlex \<Rightarrow> string list \<Rightarrow> string list res option" where
  "split_loop sh result = (case get_token sh of
       Inl x \<Rightarrow> Some (Inl x)
     | Inr (raw, sh1) \<Rightarrow>
         (if raw = eof sh1 then Some (Inr result) else split_loop sh1 (result @ [the raw])))"

definition split_init :: "string \<Rightarrow> bool \<Rightarrow> shlex" where
  "split_init s comments =
     (let lex = (shlex_init s None True)\<lparr>whitespace_split := True\<rparr>
      in if comments then lex else lex\<lparr>commenters := ''''\<rparr>)"

definition shlex_split :: "string \<Rightarrow> bool \<Rightarrow> string list res option" where
  "shlex_split s comments = split_loop (split_init s comments) []"

section \<open>Splitting ends\<close>

text \<open>The lexer of \<open>split\<close>: no sources on the stack, nothing pushed back.\<close>

definition splitting :: "shlex \<Rightarrow> bool" where
  "splitting sh \<longleftrightarrow> posix sh \<and> whitespace_split sh \<and> filestack sh = [] \<and> pushback sh = []"

lemma lex_char_splitting:
  "lex_char c sh quoted esc = Go sh' q' e' \<Longrightarrow> splitting sh \<Longrightarrow> splitting sh'"
  "lex_char c sh quoted esc = Emit sh' q' \<Longrightarrow> splitting sh \<Longrightarrow> splitting sh'"
  by (cases "lex_state sh"; auto simp: lex_defs Let_def splitting_def skip_line_def split: if_splits lex_state.splits)+

lemma lex_char_Emit_le: "lex_char c sh quoted esc = Emit sh' q' \<Longrightarrow> length (instream sh') \<le> length (instream sh)"
  using skip_line_le [of sh]
  by (cases "lex_state sh") (auto simp: lex_defs Let_def split: if_splits lex_state.splits)

lemma lex_eof_splitting:
  "lex_eof sh quoted = Emit sh' q' \<Longrightarrow> splitting sh \<Longrightarrow> splitting sh' \<and> lex_state sh' = LEof \<and> instream sh' = instream sh"
  by (auto simp: lex_eof_def splitting_def split: lex_state.splits)

text \<open>Reading either consumes a character or comes to the end.\<close>

lemma read_loop_progress:
  "read_loop sh quoted esc = Inr (sh', q') \<Longrightarrow> splitting sh \<Longrightarrow>
    splitting sh' \<and> (length (instream sh') < length (instream sh) \<or> instream sh = [] \<and> instream sh' = [] \<and> lex_state sh' = LEof)"
proof (induction sh quoted esc rule: read_loop.induct)
  case (1 sh quoted esc)
  show ?case
  proof (cases "instream sh")
    case Nil
    then show ?thesis using "1.prems" lex_eof_splitting lex_eof_frame(2)
      by (subst (asm) read_loop.simps) (auto split: lex_action.splits)
  next
    case (Cons c s)
    have sp: "splitting (read_char c s sh)" "instream (read_char c s sh) = s"
      using "1.prems"(2) by (simp_all add: splitting_def read_char_def)
    show ?thesis
    proof (cases "lex_char c (read_char c s sh) quoted esc")
      case (Emit sh1 q)
      then show ?thesis using "1.prems" Cons sp lex_char_splitting(2) [OF Emit] lex_char_Emit_le [OF Emit]
        by (subst (asm) read_loop.simps) auto
    next
      case (Go sh1 q e)
      then show ?thesis
        using "1.prems" Cons sp lex_char_splitting(1) [OF Go] lex_char_le [OF Go] "1.IH" [OF Cons Go]
        by (subst (asm) read_loop.simps) auto
    next
      case (Fail x)
      then show ?thesis using "1.prems" Cons by (subst (asm) read_loop.simps) simp
    qed
  qed
qed

lemma get_token_splitting:
  assumes "splitting sh"
  shows "get_token sh = read_token sh"
proof (cases "read_token sh")
  case (Inr r)
  obtain raw sh1 where r: "r = (raw, sh1)" by fastforce
  have "filestack sh1 = []" using read_token_frame [of sh raw sh1] Inr r assms by (simp add: splitting_def)
  then show ?thesis using assms Inr r by (simp add: get_token_def splitting_def get_loop.simps)
qed (use assms in \<open>simp add: get_token_def splitting_def\<close>)

lemma split_loop_returns: "splitting sh \<Longrightarrow> \<exists>r. split_loop sh acc = Some r"
proof (induction "2 * length (instream sh) + (if lex_state sh = LEof then 0 else 1)" arbitrary: sh acc rule: less_induct)
  case less
  note get = get_token_splitting [OF less.prems]
  show ?case
  proof (cases "read_loop sh False LSpace")
    case (Inl x)
    then show ?thesis using get by (subst split_loop.simps) (simp add: read_token_def)
  next
    case (Inr r)
    obtain sh1 q where r: "r = (sh1, q)" by fastforce
    let ?sh = "sh1\<lparr>token := ''''\<rparr>"
    have p: "splitting sh1" "length (instream sh1) < length (instream sh) \<or> instream sh = [] \<and> instream sh1 = [] \<and> lex_state sh1 = LEof"
      using read_loop_progress [of sh False LSpace sh1 q] Inr r less.prems by simp_all
    then have sp: "splitting ?sh" by (simp add: splitting_def)
    show ?thesis
    proof (cases "instream sh = [] \<and> lex_state sh = LEof")
      case True
      then have "sh1 = sh\<lparr>token := ''''\<rparr> \<and> \<not> q" using Inr r by (subst (asm) read_loop.simps) (auto simp: lex_eof_def)
      then show ?thesis using get Inr r less.prems
        by (subst split_loop.simps) (simp add: read_token_def eof_def splitting_def)
    next
      case False
      then have "2 * length (instream ?sh) + (if lex_state ?sh = LEof then 0 else 1) <
          2 * length (instream sh) + (if lex_state sh = LEof then 0 else 1)" using p(2) by auto
      from less.hyps [OF this sp] get Inr r show ?thesis
        by (subst split_loop.simps) (simp add: read_token_def)
    qed
  qed
qed

text \<open>Splitting always ends, with words or with the exception for an open quotation.\<close>

lemma shlex_split_returns: "\<exists>r. shlex_split s comments = Some r"
  unfolding shlex_split_def
  by (rule split_loop_returns) (simp add: splitting_def split_init_def shlex_init_def Let_def)

section \<open>Quoted words\<close>

text \<open>A word between double quotes, with quotes and backslashes escaped.\<close>

definition esc_char :: "char \<Rightarrow> string" where
  "esc_char c = (if c = CHR 0x22 \<or> c = CHR 0x5C then [CHR 0x5C, c] else [c])"

definition dquote :: "string \<Rightarrow> string" where
  "dquote w = CHR 0x22 # concat (map esc_char w) @ [CHR 0x22]"

definition split_lexer :: "shlex \<Rightarrow> bool" where
  "split_lexer sh \<longleftrightarrow> splitting sh \<and> whitespace sh = [CHR '' '', CHR 0x09, CHR 0x0D, CHR 0x0A] \<and> commenters sh = '''' \<and>
     quotes sh = [CHR 0x27, CHR 0x22] \<and> escape sh = [CHR 0x5C] \<and> escapedquotes sh = [CHR 0x22] \<and>
     CHR 0x22 \<notin> set (wordchars sh)"

text \<open>The position of the lexer.\<close>

definition at_pos :: "shlex \<Rightarrow> string \<Rightarrow> lex_state \<Rightarrow> string \<Rightarrow> nat \<Rightarrow> shlex" where
  "at_pos sh s st t n = sh\<lparr>instream := s, lex_state := st, token := t, lineno := n\<rparr>"

lemma at_pos_fields [simp]:
  "instream (at_pos sh s st t n) = s" "lex_state (at_pos sh s st t n) = st" "token (at_pos sh s st t n) = t"
  "posix (at_pos sh s st t n) = posix sh" "escape (at_pos sh s st t n) = escape sh" "quotes (at_pos sh s st t n) = quotes sh"
  "escapedquotes (at_pos sh s st t n) = escapedquotes sh" "whitespace (at_pos sh s st t n) = whitespace sh"
  "commenters (at_pos sh s st t n) = commenters sh" "wordchars (at_pos sh s st t n) = wordchars sh"
  "read_char c r (at_pos sh s st t n) = at_pos sh r st t (if c = CHR 0x0A then n + 1 else n)"
  "add_char c (at_pos sh s st t n) = at_pos sh s st (t @ [c]) n"
  "lex_state_update (\<lambda>_. st') (at_pos sh s st t n) = at_pos sh s st' t n"
  "token_update (\<lambda>_. t') (at_pos sh s st t n) = at_pos sh s st t' n"
  "eof (at_pos sh s st t n) = eof sh" "splitting (at_pos sh s st t n) = splitting sh"
  "split_lexer (at_pos sh s st t n) = split_lexer sh"
  "at_pos (at_pos sh s st t n) s2 st2 t2 n2 = at_pos sh s2 st2 t2 n2"
  by (simp_all add: at_pos_def read_char_def add_char_def eof_def splitting_def split_lexer_def)

lemma read_loop_Cons:
  "read_loop (at_pos sh (c # s) st t n) q e =
     (case lex_char c (at_pos sh s st t (if c = CHR 0x0A then n + 1 else n)) q e of
        Emit sh1 q \<Rightarrow> Inr (sh1, q) | Fail x \<Rightarrow> Inl x | Go sh1 q e \<Rightarrow> read_loop sh1 q e)"
  by (subst read_loop.simps) simp

lemma read_inside:
  assumes "split_lexer sh"
  shows "\<exists>n' e'. read_loop (at_pos sh (concat (map esc_char w) @ CHR 0x22 # r) (LQuote CHR 0x22) t n) q e =
    read_loop (at_pos sh r LWord (t @ w) n') True e'"
proof (induction w arbitrary: t n q e)
  case Nil
  then show ?case using assms
    by (auto simp: read_loop_Cons lex_char_def lex_quote_def split_lexer_def splitting_def)
next
  case (Cons c w)
  show ?case
  proof (cases "c = CHR 0x22 \<or> c = CHR 0x5C")
    case True
    then show ?thesis using assms Cons.IH [of "t @ [c]" n True "LQuote CHR 0x22"]
      by (auto simp: esc_char_def read_loop_Cons lex_char_def lex_quote_def lex_esc_def split_lexer_def splitting_def)
  next
    case False
    then show ?thesis using assms Cons.IH [of "t @ [c]" "if c = CHR 0x0A then n + 1 else n" True e]
      by (simp add: esc_char_def read_loop_Cons lex_char_def lex_quote_def split_lexer_def splitting_def)
  qed
qed

lemma read_dquote:
  assumes "split_lexer sh" "r = '''' \<or> hd r = CHR '' ''"
  shows "\<exists>n'. read_token (at_pos sh (dquote w @ r) LSpace '''' n) =
    Inr (Some w, at_pos sh (tl r) (if r = '''' then LEof else LSpace) '''' n')"
proof -
  let ?p = "at_pos sh (dquote w @ r) LSpace '''' n"
  have "read_loop ?p False LSpace =
      read_loop (at_pos sh (concat (map esc_char w) @ CHR 0x22 # r) (LQuote CHR 0x22) '''' n) False LSpace"
    using assms(1) by (simp add: dquote_def read_loop_Cons lex_char_def lex_space_def split_lexer_def splitting_def)
  then obtain n' e' where loop: "read_loop ?p False LSpace = read_loop (at_pos sh r LWord w n') True e'"
    using read_inside [OF assms(1), of w r "''''" n False LSpace] by auto
  have "\<exists>n2. read_loop (at_pos sh r LWord w n') True e' = Inr (at_pos sh (tl r) (if r = '''' then LEof else LSpace) w n2, True)"
  proof (cases r)
    case Nil
    then show ?thesis by (subst read_loop.simps) (auto simp: lex_eof_def)
  next
    case (Cons c s)
    then show ?thesis using assms
      by (auto simp: read_loop_Cons lex_char_def lex_word_def emit_or_go_def split_lexer_def splitting_def)
  qed
  then show ?thesis using loop by (auto simp: read_token_def)
qed

lemma read_end:
  assumes "split_lexer sh" "st = LEof \<or> st = LSpace"
  shows "\<exists>sh1. read_token (at_pos sh '''' st '''' n) = Inr (None, sh1) \<and> posix sh1"
  using assms
  by (auto simp: read_token_def lex_eof_def read_loop.simps [of "at_pos sh '''' st '''' n"] split_lexer_def splitting_def)

lemma split_quoted:
  assumes "split_lexer sh"
  shows "st = LEof \<and> ws = [] \<or> st = LSpace \<Longrightarrow>
    split_loop (at_pos sh (py_join '' '' (map dquote ws)) st '''' n) acc = Some (Inr (acc @ ws))"
proof (induction ws arbitrary: st n acc)
  case Nil
  then obtain sh1 where "read_token (at_pos sh '''' st '''' n) = Inr (None, sh1)" "posix sh1"
    using read_end [OF assms, of st n] by blast
  then show ?case
    using assms get_token_splitting [of "at_pos sh '''' st '''' n"]
    by (subst split_loop.simps) (simp add: split_lexer_def eof_def)
next
  case (Cons w ws)
  define r where "r = (if ws = [] then '''' else CHR '' '' # py_join '' '' (map dquote ws))"
  have join: "py_join '' '' (map dquote (w # ws)) = dquote w @ r" by (cases ws) (simp_all add: r_def)
  have "r = '''' \<or> hd r = CHR '' ''" by (simp add: r_def)
  then obtain n' where "read_token (at_pos sh (dquote w @ r) LSpace '''' n) =
      Inr (Some w, at_pos sh (tl r) (if r = '''' then LEof else LSpace) '''' n')"
    using read_dquote [OF assms, of r w n] by blast
  moreover have "tl r = py_join '' '' (map dquote ws)" "(if r = '''' then LEof else LSpace) = LEof \<and> ws = [] \<or> (if r = '''' then LEof else LSpace) = LSpace"
    by (auto simp: r_def)
  moreover have "eof sh = None" using assms by (simp add: split_lexer_def splitting_def eof_def)
  moreover have "st = LSpace" using Cons.prems by simp
  ultimately show ?case
    using assms get_token_splitting [of "at_pos sh (dquote w @ r) LSpace '''' n"] Cons.IH [of "if r = '''' then LEof else LSpace" n' "acc @ [w]"]
    unfolding join by (subst split_loop.simps) (simp add: split_lexer_def)
qed

lemma latin_letters_high: "c \<in> set latin_letters \<Longrightarrow> 0xC0 \<le> (of_char c :: nat)"
  by (auto simp: latin_letters_def simp del: upt_conv_Cons upt_rec_numeral)

lemma split_dquoted: "shlex_split (py_join '' '' (map dquote ws)) False = Some (Inr ws)"
proof -
  let ?s = "py_join '' '' (map dquote ws)"
  have "CHR 0x22 \<notin> set latin_letters" using latin_letters_high [of "CHR 0x22"] by auto
  then have "split_lexer (split_init ?s False)"
    by (simp add: split_lexer_def splitting_def split_init_def shlex_init_def Let_def)
  moreover have "split_init ?s False = at_pos (split_init ?s False) ?s LSpace '''' 1"
    by (simp add: split_init_def shlex_init_def Let_def at_pos_def)
  ultimately show ?thesis
    using split_quoted [of "split_init ?s False" LSpace ws 1 "[]"] by (simp add: shlex_split_def)
qed

text \<open>
  C34: \<open>split\<close> undoes quoting, and always returns: whatever the text, it gives words or an exception; and words
  written between double quotes, with quotes and backslashes escaped and spaces between them, are
  read back as they were, empty words and words with any characters included.\<close>

theorem shlex_split_roundtrip:
  "(\<exists>r. shlex_split s comments = Some r) \<and> shlex_split (py_join '' '' (map dquote ws)) False = Some (Inr ws)"
  using shlex_split_returns split_dquoted by blast

end
