(* ===== verification/EnvFlags.thy ===== *)
theory EnvFlags
  imports Shlex
begin

text \<open>
  \<open>ParseFlags\<close> of \<open>SCons/Environment.py\<close>: command lines of a GNU-like tool chain are split into words
  (\<open>Shlex\<close>) and each flag is put into the construction variable it belongs to. Running a command
  (\<open>backtick\<close>) is an argument.
\<close>

section \<open>Parsing\<close>

text \<open>
  The entries of the variables: a string, a pair of strings, a file node, the pair of \<open>-include\<close> and
  a file node, and a definition with a value.
\<close>

datatype flag = F string | FPair string string | FFile string | FIncl string | FDef string string

type_synonym flag_dict = "string \<Rightarrow> flag list"

definition no_flags :: flag_dict where
  "no_flags = (\<lambda>key. [])"

definition add_flag :: "string \<Rightarrow> flag \<Rightarrow> flag_dict \<Rightarrow> flag_dict" where
  "add_flag key x d = d(key := d key @ [x])"

definition append_define :: "string \<Rightarrow> flag_dict \<Rightarrow> flag_dict" where
  "append_define name d =
     (let t = py_split ''='' name
      in if length t = 1 then add_flag ''CPPDEFINES'' (F name) d
         else add_flag ''CPPDEFINES'' (FDef (hd t) (py_join ''='' (tl t))) d)"

text \<open>The branch for a word that belongs to the flag before it.\<close>

definition append_next :: "string \<Rightarrow> string \<Rightarrow> flag_dict \<Rightarrow> flag_dict" where
  "append_next key arg d =
     (if key = ''CPPDEFINES'' then append_define arg d
      else if key = ''-include'' then add_flag ''CCFLAGS'' (FIncl arg) d
      else if key = ''-isysroot'' \<or> key = ''-arch'' then
        add_flag ''LINKFLAGS'' (FPair key arg) (add_flag ''CCFLAGS'' (FPair key arg) d)
      else add_flag key (F arg) d)"

text \<open>A flag whose argument may be the rest of the word or the next word.\<close>

definition or_next :: "string \<Rightarrow> string \<Rightarrow> flag_dict \<Rightarrow> flag_dict \<times> string option" where
  "or_next key rest d = (if rest \<noteq> '''' then (append_next key rest d, None) else (d, Some key))"

definition both_flags :: "string \<Rightarrow> flag_dict \<Rightarrow> flag_dict" where
  "both_flags arg d = add_flag ''LINKFLAGS'' (F arg) (add_flag ''CCFLAGS'' (F arg) d)"

definition parse_option :: "string \<Rightarrow> flag_dict \<Rightarrow> flag_dict \<times> string option" where
  "parse_option arg d =
     (if take 2 arg = ''-L'' then or_next ''LIBPATH'' (drop 2 arg) d
      else if take 2 arg = ''-l'' then or_next ''LIBS'' (drop 2 arg) d
      else if take 2 arg = ''-I'' then or_next ''CPPPATH'' (drop 2 arg) d
      else if take 4 arg = ''-Wa,'' then
        (add_flag ''CCFLAGS'' (F arg) (add_flag ''ASFLAGS'' (F (drop 4 arg)) d), None)
      else if take 4 arg = ''-Wl,'' then
        (if take 11 arg = ''-Wl,-rpath='' then (add_flag ''RPATH'' (F (drop 11 arg)) d, None)
         else if take 7 arg = ''-Wl,-R,'' then (add_flag ''RPATH'' (F (drop 7 arg)) d, None)
         else if take 6 arg = ''-Wl,-R'' then (add_flag ''RPATH'' (F (drop 6 arg)) d, None)
         else (add_flag ''LINKFLAGS'' (F arg) d, None))
      else if take 4 arg = ''-Wp,'' then (add_flag ''CPPFLAGS'' (F arg) d, None)
      else if take 2 arg = ''-D'' then or_next ''CPPDEFINES'' (drop 2 arg) d
      else if arg = ''-framework'' then (d, Some ''FRAMEWORKS'')
      else if take 14 arg = ''-frameworkdir='' then (add_flag ''FRAMEWORKPATH'' (F (drop 14 arg)) d, None)
      else if take 2 arg = ''-F'' then or_next ''FRAMEWORKPATH'' (drop 2 arg) d
      else if arg = ''-mno-cygwin'' then (both_flags arg d, None)
      else if arg = ''-mwindows'' then (add_flag ''LINKFLAGS'' (F arg) d, None)
      else if arg = ''-pthread'' then (both_flags arg d, None)
      else if take 5 arg = ''-std='' then (add_flag ''CFLAGS'' (F arg) d, None)
      else if hd arg = CHR ''+'' then (both_flags arg d, None)
      else if arg = ''-include'' \<or> arg = ''-isysroot'' \<or> arg = ''-arch'' then (d, Some arg)
      else (add_flag ''CCFLAGS'' (F arg) d, None))"

definition parse_param :: "string \<Rightarrow> flag_dict \<times> string option \<Rightarrow> (flag_dict \<times> string option) res" where
  "parse_param arg st = (case st of
       (d, Some key) \<Rightarrow> Inr (append_next key arg d, None)
     | (d, None) \<Rightarrow>
         (if arg = '''' then Inl IndexError
          else if hd arg \<noteq> CHR ''-'' \<and> hd arg \<noteq> CHR ''+'' then Inr (add_flag ''LIBS'' (FFile arg) d, None)
          else Inr (parse_option arg d)))"

fun parse_params :: "string list \<Rightarrow> flag_dict \<times> string option \<Rightarrow> (flag_dict \<times> string option) res" where
  "parse_params [] st = Inr st"
| "parse_params (arg # args) st = res_bind (parse_param arg st) (parse_params args)"

datatype flag_arg = FlagStr string | FlagSeq "flag_arg list"

fun do_parse :: "(string \<Rightarrow> string res) \<Rightarrow> flag_arg \<Rightarrow> flag_dict \<Rightarrow> flag_dict res option"
  and do_parses :: "(string \<Rightarrow> string res) \<Rightarrow> flag_arg list \<Rightarrow> flag_dict \<Rightarrow> flag_dict res option" where
  "do_parse backtick (FlagSeq args) d = do_parses backtick args d"
| "do_parse backtick (FlagStr s) d =
     (if s = '''' then Some (Inr d)
      else obs_bind (if hd s = CHR ''!'' then Some (backtick (tl s)) else Some (Inr s)) (\<lambda>arg.
        obs_bind (shlex_split arg False) (\<lambda>params.
          Some (res_bind (parse_params params (d, None)) (\<lambda>(d1, pending). Inr d1)))))"
| "do_parses backtick [] d = Some (Inr d)"
| "do_parses backtick (arg # args) d = obs_bind (do_parse backtick arg d) (do_parses backtick args)"

definition ParseFlags :: "(string \<Rightarrow> string res) \<Rightarrow> flag_arg list \<Rightarrow> flag_dict res option" where
  "ParseFlags backtick flags = do_parses backtick flags no_flags"

section \<open>Flags and what they mean\<close>

text \<open>
  The flags of a tool chain, how they are written (\<open>sep\<close>: the argument as a word of its own) and the
  variables they belong to.
\<close>

datatype gnu_flag =
    LibDir bool string | Lib bool string | LibFile string | IncDir bool string
  | Define bool string "string option" | FrameworkDir bool string | Framework string
  | Rpath string | Asm string | LinkOpt string | PreOpt string | Std string
  | BothOpt string | Include string | Sysroot string | Arch string | CompileOpt string

definition opt_words :: "bool \<Rightarrow> string \<Rightarrow> string \<Rightarrow> string list" where
  "opt_words sep opt x = (if sep then [opt, x] else [opt @ x])"

definition define_text :: "string \<Rightarrow> string option \<Rightarrow> string" where
  "define_text n v = (case v of None \<Rightarrow> n | Some x \<Rightarrow> n @ ''='' @ x)"

fun words :: "gnu_flag \<Rightarrow> string list" where
  "words (LibDir sep x) = opt_words sep ''-L'' x"
| "words (Lib sep x) = opt_words sep ''-l'' x"
| "words (LibFile x) = [x]"
| "words (IncDir sep x) = opt_words sep ''-I'' x"
| "words (Define sep n v) = opt_words sep ''-D'' (define_text n v)"
| "words (FrameworkDir sep x) = opt_words sep ''-F'' x"
| "words (Framework x) = [''-framework'', x]"
| "words (Rpath x) = [''-Wl,-rpath='' @ x]"
| "words (Asm x) = [''-Wa,'' @ x]"
| "words (LinkOpt x) = [''-Wl,'' @ x]"
| "words (PreOpt x) = [''-Wp,'' @ x]"
| "words (Std x) = [''-std='' @ x]"
| "words (BothOpt x) = [x]"
| "words (Include f) = [''-include'', f]"
| "words (Sysroot x) = [''-isysroot'', x]"
| "words (Arch x) = [''-arch'', x]"
| "words (CompileOpt x) = [x]"

fun entries :: "gnu_flag \<Rightarrow> (string \<times> flag) list" where
  "entries (LibDir sep x) = [(''LIBPATH'', F x)]"
| "entries (Lib sep x) = [(''LIBS'', F x)]"
| "entries (LibFile x) = [(''LIBS'', FFile x)]"
| "entries (IncDir sep x) = [(''CPPPATH'', F x)]"
| "entries (Define sep n v) = [(''CPPDEFINES'', case v of None \<Rightarrow> F n | Some x \<Rightarrow> FDef n x)]"
| "entries (FrameworkDir sep x) = [(''FRAMEWORKPATH'', F x)]"
| "entries (Framework x) = [(''FRAMEWORKS'', F x)]"
| "entries (Rpath x) = [(''RPATH'', F x)]"
| "entries (Asm x) = [(''ASFLAGS'', F x), (''CCFLAGS'', F (''-Wa,'' @ x))]"
| "entries (LinkOpt x) = [(''LINKFLAGS'', F (''-Wl,'' @ x))]"
| "entries (PreOpt x) = [(''CPPFLAGS'', F (''-Wp,'' @ x))]"
| "entries (Std x) = [(''CFLAGS'', F (''-std='' @ x))]"
| "entries (BothOpt x) = [(''CCFLAGS'', F x), (''LINKFLAGS'', F x)]"
| "entries (Include f) = [(''CCFLAGS'', FIncl f)]"
| "entries (Sysroot x) = [(''CCFLAGS'', FPair ''-isysroot'' x), (''LINKFLAGS'', FPair ''-isysroot'' x)]"
| "entries (Arch x) = [(''CCFLAGS'', FPair ''-arch'' x), (''LINKFLAGS'', FPair ''-arch'' x)]"
| "entries (CompileOpt x) = [(''CCFLAGS'', F x)]"

text \<open>The flags that can be told apart by their first characters.\<close>

definition plain_option :: "string \<Rightarrow> bool" where
  "plain_option x \<longleftrightarrow> x \<noteq> '''' \<and> hd x = CHR ''-'' \<and> \<not> list_ex (\<lambda>p. prefix p x)
     [''-L'', ''-l'', ''-I'', ''-Wa,'', ''-Wl,'', ''-Wp,'', ''-D'', ''-framework'', ''-F'', ''-mno-cygwin'', ''-mwindows'',
      ''-pthread'', ''-std='', ''-include'', ''-isysroot'', ''-arch'']"

fun flag_ok :: "gnu_flag \<Rightarrow> bool" where
  "flag_ok (LibDir sep x) = (sep \<or> x \<noteq> '''')"
| "flag_ok (Lib sep x) = (sep \<or> x \<noteq> '''')"
| "flag_ok (LibFile x) = (x \<noteq> '''' \<and> hd x \<noteq> CHR ''-'' \<and> hd x \<noteq> CHR ''+'')"
| "flag_ok (IncDir sep x) = (sep \<or> x \<noteq> '''')"
| "flag_ok (Define sep n v) = (CHR ''='' \<notin> set n \<and> (sep \<or> n \<noteq> '''' \<or> v \<noteq> None))"
| "flag_ok (FrameworkDir sep x) = (sep \<or> x \<noteq> '''')"
| "flag_ok (LinkOpt x) = (\<not> prefix ''-rpath='' x \<and> \<not> prefix ''-R'' x)"
| "flag_ok (BothOpt x) = (x = ''-mno-cygwin'' \<or> x = ''-pthread'' \<or> x \<noteq> '''' \<and> hd x = CHR ''+'')"
| "flag_ok (CompileOpt x) = plain_option x"
| "flag_ok f = True"

definition add_entries :: "gnu_flag \<Rightarrow> flag_dict \<Rightarrow> flag_dict" where
  "add_entries f d = fold (\<lambda>(key, x). add_flag key x) (entries f) d"

lemma split_acc_cons_sep: "d \<notin> set n \<Longrightarrow> split_acc [d] acc (n @ d # r) = (rev acc @ n) # split_acc [d] [] r"
proof (induction n arbitrary: acc)
  case (Cons c n)
  then have "\<not> prefix [d] (c # n @ d # r)" by auto
  with Cons.IH [of "c # acc"] Cons.prems show ?case by (simp add: split_acc.simps [of "[d]" acc "c # n @ d # r"])
qed (simp add: split_acc.simps [of "[d]" _ "d # r"])

lemma append_define_text:
  assumes "CHR ''='' \<notin> set n"
  shows "append_define (define_text n v) d = add_flag ''CPPDEFINES'' (case v of None \<Rightarrow> F n | Some x \<Rightarrow> FDef n x) d"
proof (cases v)
  case None
  then show ?thesis using assms by (simp add: append_define_def define_text_def py_split_no_sep)
next
  case (Some x)
  have "py_split ''='' (n @ CHR ''='' # x) = n # py_split ''='' x"
    using split_acc_cons_sep [OF assms, of "[]" x] by (simp add: py_split_def)
  then show ?thesis using Some py_join_split [of "''=''" x] by (simp add: append_define_def define_text_def)
qed

lemma take_neq: "\<not> prefix p x \<Longrightarrow> take n x \<noteq> p"
  using take_is_prefix by blast

lemma plain_option_parse:
  assumes "plain_option x"
  shows "parse_option x d = (add_flag ''CCFLAGS'' (F x) d, None)"
proof -
  have no: "\<not> prefix p x" if "p \<in> set [''-L'', ''-l'', ''-I'', ''-Wa,'', ''-Wl,'', ''-Wp,'', ''-D'', ''-framework'', ''-F'', ''-mno-cygwin'',
      ''-mwindows'', ''-pthread'', ''-std='', ''-include'', ''-isysroot'', ''-arch'']" for p
    using that assms unfolding plain_option_def list_ex_iff by blast
  have "\<not> prefix ''-frameworkdir='' x"
    using no [of "''-framework''"] prefix_order.trans [of "''-framework''" "''-frameworkdir=''" x] by auto
  moreover have "x \<noteq> p" if "p \<in> set [''-framework'', ''-mno-cygwin'', ''-mwindows'', ''-pthread'', ''-include'', ''-isysroot'', ''-arch'']" for p
    using that no by fastforce
  moreover have "hd x \<noteq> CHR ''+''" using assms by (simp add: plain_option_def)
  ultimately show ?thesis
    using no by (simp add: parse_option_def take_neq)
qed

lemma add_entries_simps:
  "entries f = [(key, x)] \<Longrightarrow> add_entries f d = add_flag key x d"
  "entries f = [(key, x), (key2, y)] \<Longrightarrow> add_entries f d = add_flag key2 y (add_flag key x d)"
  by (simp_all add: add_entries_def)

lemma parse_opt_words:
  assumes "opt = [CHR ''-'', c]" "\<And>r. parse_option (opt @ r) d = or_next key r d" "sep \<or> x \<noteq> ''''"
  shows "parse_params (opt_words sep opt x) (d, None) = Inr (append_next key x d, None)"
  using assms(2) [of x] assms(2) [of "''''"] assms(1,3) by (auto simp: opt_words_def parse_param_def or_next_def)

lemma parse_words:
  assumes "flag_ok f"
  shows "parse_params (words f) (d, None) = Inr (add_entries f d, None)"
proof (cases f)
  case (LibDir sep x)
  then show ?thesis using assms parse_opt_words [of "''-L''" "CHR ''L''" d "''LIBPATH''" sep x]
    by (simp add: add_entries_simps parse_option_def append_next_def)
next
  case (Lib sep x)
  then show ?thesis using assms parse_opt_words [of "''-l''" "CHR ''l''" d "''LIBS''" sep x]
    by (simp add: add_entries_simps parse_option_def append_next_def)
next
  case (IncDir sep x)
  then show ?thesis using assms parse_opt_words [of "''-I''" "CHR ''I''" d "''CPPPATH''" sep x]
    by (simp add: add_entries_simps parse_option_def append_next_def)
next
  case (FrameworkDir sep x)
  then show ?thesis using assms parse_opt_words [of "''-F''" "CHR ''F''" d "''FRAMEWORKPATH''" sep x]
    by (simp add: add_entries_simps parse_option_def append_next_def)
next
  case (Define sep n v)
  then have "sep \<or> define_text n v \<noteq> ''''" using assms by (auto simp: define_text_def split: option.splits)
  then show ?thesis using Define assms parse_opt_words [of "''-D''" "CHR ''D''" d "''CPPDEFINES''" sep "define_text n v"]
    by (simp add: add_entries_simps parse_option_def append_next_def append_define_text)
next
  case (LinkOpt x)
  then have "\<not> prefix ''-rpath='' x" "\<not> prefix ''-R'' x" using assms by simp_all
  moreover from this(2) have "\<not> prefix ''-R,'' x" using prefix_order.trans [of "''-R''" "''-R,''" x] by auto
  ultimately show ?thesis using LinkOpt
    by (simp add: add_entries_simps parse_param_def parse_option_def take_neq)
next
  case (BothOpt x)
  then consider "x = ''-mno-cygwin''" | "x = ''-pthread''" | y where "x = CHR ''+'' # y" using assms by (cases x) auto
  then have "parse_params [x] (d, None) = Inr (both_flags x d, None)"
    by cases (simp_all add: parse_param_def parse_option_def)
  then show ?thesis using BothOpt by (simp add: add_entries_simps both_flags_def)
next
  case (CompileOpt x)
  then have "x \<noteq> ''''" "hd x = CHR ''-''" "plain_option x" using assms by (simp_all add: plain_option_def)
  then show ?thesis using CompileOpt plain_option_parse by (simp add: add_entries_simps parse_param_def)
qed (use assms in \<open>simp_all add: add_entries_simps parse_param_def parse_option_def append_next_def\<close>)

lemma parse_params_append:
  "parse_params (xs @ ys) st = res_bind (parse_params xs st) (parse_params ys)"
proof (induction xs arbitrary: st)
  case (Cons x xs)
  then show ?case by (cases "parse_param x st") simp_all
qed simp

lemma parse_all:
  "list_all flag_ok fs \<Longrightarrow> parse_params (concat (map words fs)) (d, None) = Inr (fold add_entries fs d, None)"
  by (induction fs arbitrary: d) (simp_all add: parse_params_append parse_words)

text \<open>
  C33: \<open>ParseFlags\<close> understands every flag that is written for it: from a command line of flags, written
  with their arguments attached or as words of their own and quoted for the shell, each variable gets
  exactly the entries of the flags that belong to it, in their order.\<close>

theorem ParseFlags_roundtrip:
  assumes "list_all flag_ok fs" and "fs \<noteq> []"
  shows "ParseFlags backtick [FlagStr (py_join '' '' (map dquote (concat (map words fs))))] =
    Some (Inr (\<lambda>key. map snd (filter (\<lambda>(k, x). k = key) (concat (map entries fs)))))"
proof -
  let ?ws = "concat (map words fs)"
  have "words f \<noteq> []" for f by (cases f) (simp_all add: opt_words_def)
  then obtain w ws where ws: "?ws = w # ws" using assms(2) by (cases fs; cases ?ws) auto
  then have s: "py_join '' '' (map dquote ?ws) \<noteq> ''''" "hd (py_join '' '' (map dquote ?ws)) = CHR 0x22"
    by (cases ws; simp add: dquote_def)+
  have fold: "fold add_entries fs d key = d key @ map snd (filter (\<lambda>(k, x). k = key) (concat (map entries fs)))" for d key fs
  proof (induction fs arbitrary: d)
    case (Cons f fs)
    have "fold (\<lambda>(key, x). add_flag key x) es d key = d key @ map snd (filter (\<lambda>(k, x). k = key) es)" for es d
      by (induction es arbitrary: d) (auto simp: add_flag_def)
    with Cons show ?case by (simp add: add_entries_def)
  qed simp
  show ?thesis
    using s split_dquoted [of ?ws] parse_all [OF assms(1), of no_flags]
    by (simp add: ParseFlags_def fold fun_eq_iff no_flags_def)
qed

theorem ParseFlags_roundtrip_witness:
  "ParseFlags (\<lambda>c. Inl IndexError) [FlagStr (py_join '' '' (map dquote (concat (map words
      [LibDir True ''my libs'', CompileOpt ''-g'', Define False ''A'' (Some ''1=2''), Lib False ''z'']))))] =
    Some (Inr (\<lambda>key. map snd (filter (\<lambda>(k, x). k = key)
      [(''LIBPATH'', F ''my libs''), (''CCFLAGS'', F ''-g''), (''CPPDEFINES'', FDef ''A'' ''1=2''), (''LIBS'', F ''z'')])))"
proof -
  have "list_all flag_ok [LibDir True ''my libs'', CompileOpt ''-g'', Define False ''A'' (Some ''1=2''), Lib False ''z'']"
    by code_simp
  from ParseFlags_roundtrip [OF this] show ?thesis by simp
qed

text \<open>A quoted empty word makes \<open>ParseFlags\<close> raise, and a flag at the end without its argument is dropped.\<close>

lemma empty_word_raises: "ParseFlags backtick [FlagStr (dquote '''')] = Some (Inl IndexError)"
  using split_dquoted [of "['''']"] by (simp add: ParseFlags_def parse_param_def dquote_def)

lemma last_flag_dropped: "ParseFlags backtick [FlagStr (dquote ''-L'')] = Some (Inr no_flags)"
  using split_dquoted [of "[''-L'']"] by (simp add: ParseFlags_def parse_param_def parse_option_def or_next_def dquote_def)

end
