(* ===== verification/EnvVars.thy ===== *)
theory EnvVars
  imports Vars "HOL-Library.AList"
begin

text \<open>
  Construction environments of \<open>SCons/Environment.py\<close> as dictionaries: the methods of
  \<open>SubstitutionEnvironment\<close> and \<open>Base\<close> that look variables up, set and delete them, the proxies
  of \<open>OverrideEnvironment\<close>, which nest, and \<open>AppendUnique\<close> and \<open>PrependUnique\<close>. Warnings about
  reserved variables are not recorded.
\<close>

section \<open>Environments\<close>

text \<open>The dictionary \<open>_dict\<close> and whether the scanner map is memoized.\<close>

record 'v base_env =
  env_dict :: "string \<rightharpoonup> 'v"
  gsm_memo :: bool

datatype 'v environment = Base "'v base_env" | Override "'v environment" "string \<rightharpoonup> 'v"

definition reserved_names :: "string list" where
  "reserved_names = [''CHANGED_SOURCES'', ''CHANGED_TARGETS'', ''SOURCE'', ''SOURCES'', ''TARGET'', ''TARGETS'',
     ''UNCHANGED_SOURCES'', ''UNCHANGED_TARGETS'']"

definition copy_non_reserved_keywords :: "(string \<times> 'v) list \<Rightarrow> (string \<times> 'v) list" where
  "copy_non_reserved_keywords kw = filter (\<lambda>(k, v). k \<notin> set reserved_names) kw"

definition scanner_map_delete :: "'v base_env \<Rightarrow> 'v base_env" where
  "scanner_map_delete b = b\<lparr>gsm_memo := False\<rparr>"

text \<open>
  \<open>_set_BUILDERS\<close>: the old dictionary of builders is emptied and takes the new ones (\<open>bd\<close>, which raises
  when one is not a builder); without an old one the name \<open>kwbd\<close> is not defined.
\<close>

definition set_BUILDERS :: "('v \<Rightarrow> 'v \<Rightarrow> 'v res) \<Rightarrow> 'v \<Rightarrow> 'v base_env \<Rightarrow> 'v base_env res" where
  "set_BUILDERS bd value b = (case env_dict b ''BUILDERS'' of
       None \<Rightarrow> Inl (OtherError ''NameError'' ''kwbd'')
     | Some old \<Rightarrow> res_bind (bd old value) (\<lambda>new. Inr (b\<lparr>env_dict := (env_dict b)(''BUILDERS'' \<mapsto> new)\<rparr>)))"

definition illegal_var :: "string \<Rightarrow> py_exc" where
  "illegal_var key = UserError (''Illegal construction variable `'' @ key @ [CHR 0x27])"

definition base_setitem :: "('v \<Rightarrow> 'v \<Rightarrow> 'v res) \<Rightarrow> string \<Rightarrow> 'v \<Rightarrow> 'v base_env \<Rightarrow> 'v base_env res" where
  "base_setitem bd key value b =
     (if key \<in> set reserved_names then Inr b
      else if key = ''BUILDERS'' then set_BUILDERS bd value b
      else if key = ''SCANNERS'' then Inr (scanner_map_delete (b\<lparr>env_dict := (env_dict b)(key \<mapsto> value)\<rparr>))
      else if env_dict b key = None \<and> \<not> is_valid_construction_var key then Inl (illegal_var key)
      else Inr (b\<lparr>env_dict := (env_dict b)(key \<mapsto> value)\<rparr>))"

definition base_delitem :: "string \<Rightarrow> 'v base_env \<Rightarrow> 'v base_env res" where
  "base_delitem key b =
     (if env_dict b key = None then Inl (KeyError key)
      else let b1 = b\<lparr>env_dict := (env_dict b)(key := None)\<rparr>
           in Inr (if key = ''SCANNERS'' then scanner_map_delete b1 else b1))"

fun getitem :: "'v environment \<Rightarrow> string \<Rightarrow> 'v res" where
  "getitem (Base b) key = (case env_dict b key of Some v \<Rightarrow> Inr v | None \<Rightarrow> Inl (KeyError key))"
| "getitem (Override e os) key = (case os key of Some v \<Rightarrow> Inr v | None \<Rightarrow> getitem e key)"

fun setitem :: "('v \<Rightarrow> 'v \<Rightarrow> 'v res) \<Rightarrow> string \<Rightarrow> 'v \<Rightarrow> 'v environment \<Rightarrow> 'v environment res" where
  "setitem bd key value (Base b) = res_bind (base_setitem bd key value b) (\<lambda>b1. Inr (Base b1))"
| "setitem bd key value (Override e os) =
     (if \<not> is_valid_construction_var key then Inl (illegal_var key) else Inr (Override e (os(key \<mapsto> value))))"

text \<open>Deleting from a proxy deletes from the environment behind it too.\<close>

fun delitem :: "string \<Rightarrow> 'v environment \<Rightarrow> 'v environment res" where
  "delitem key (Base b) = res_bind (base_delitem key b) (\<lambda>b1. Inr (Base b1))"
| "delitem key (Override e os) = (case delitem key e of
       Inr e1 \<Rightarrow> Inr (Override e1 (os(key := None)))
     | Inl x \<Rightarrow> if x = KeyError key \<and> os key \<noteq> None then Inr (Override e (os(key := None))) else Inl x)"

fun env_get :: "'v environment \<Rightarrow> string \<Rightarrow> 'v \<Rightarrow> 'v" where
  "env_get (Base b) key dflt = (case env_dict b key of Some v \<Rightarrow> v | None \<Rightarrow> dflt)"
| "env_get (Override e os) key dflt = (case os key of Some v \<Rightarrow> v | None \<Rightarrow> env_get e key dflt)"

fun has_key :: "'v environment \<Rightarrow> string \<Rightarrow> bool" where
  "has_key (Base b) key = (env_dict b key \<noteq> None)"
| "has_key (Override e os) key = (os key \<noteq> None \<or> has_key e key)"

fun Dictionary :: "'v environment \<Rightarrow> string \<rightharpoonup> 'v" where
  "Dictionary (Base b) = env_dict b"
| "Dictionary (Override e os) = Dictionary e ++ os"

fun gvars :: "'v environment \<Rightarrow> string \<rightharpoonup> 'v" where
  "gvars (Base b) = env_dict b"
| "gvars (Override e os) = gvars e"

fun lvars :: "'v environment \<Rightarrow> string \<rightharpoonup> 'v" where
  "lvars (Base b) = Map.empty"
| "lvars (Override e os) = lvars e ++ os"

text \<open>\<open>_update\<close> and \<open>Replace\<close>; the latter sets \<open>BUILDERS\<close> through \<open>__setitem__\<close> first.\<close>

fun env_update :: "(string \<times> 'v) list \<Rightarrow> 'v environment \<Rightarrow> 'v environment" where
  "env_update kw (Base b) = Base (b\<lparr>env_dict := env_dict b ++ map_of (rev kw)\<rparr>)"
| "env_update kw (Override e os) = Override e (os ++ map_of (rev kw))"

fun map_base :: "('v base_env \<Rightarrow> 'v base_env) \<Rightarrow> 'v environment \<Rightarrow> 'v environment" where
  "map_base f (Base b) = Base (f b)"
| "map_base f (Override e os) = Override (map_base f e) os"

fun Replace :: "('v \<Rightarrow> 'v \<Rightarrow> 'v res) \<Rightarrow> (string \<times> 'v) list \<Rightarrow> 'v environment \<Rightarrow> 'v environment res" where
  "Replace bd kw (Base b) =
     res_bind (case map_of kw ''BUILDERS'' of None \<Rightarrow> Inr b | Some v \<Rightarrow> base_setitem bd ''BUILDERS'' v b) (\<lambda>b1.
       Inr (map_base scanner_map_delete
         (env_update (copy_non_reserved_keywords (filter (\<lambda>(k, v). k \<noteq> ''BUILDERS'') kw)) (Base b1))))"
| "Replace bd kw (Override e os) = Inr (env_update (copy_non_reserved_keywords kw) (Override e os))"

text \<open>\<open>SetDefault\<close> asks the dictionary at the bottom (\<open>self._dict\<close>), also for a proxy.\<close>

fun base_of :: "'v environment \<Rightarrow> 'v base_env" where
  "base_of (Base b) = b"
| "base_of (Override e os) = base_of e"

definition SetDefault :: "('v \<Rightarrow> 'v \<Rightarrow> 'v res) \<Rightarrow> (string \<times> 'v) list \<Rightarrow> 'v environment \<Rightarrow> 'v environment res" where
  "SetDefault bd kw e = Replace bd (filter (\<lambda>(k, v). env_dict (base_of e) k = None) kw) e"

section \<open>The interface of a dictionary\<close>

text \<open>
  What a client of an environment relies on: \<open>view\<close> is the dictionary it shows, \<open>look\<close>, \<open>store\<close> and
  \<open>remove\<close> are the subscript operations, \<open>legal\<close> the keys that can be set.
\<close>

locale var_dict =
  fixes view :: "'e \<Rightarrow> string \<rightharpoonup> 'v"
    and look :: "'e \<Rightarrow> string \<Rightarrow> 'v res"
    and store :: "string \<Rightarrow> 'v \<Rightarrow> 'e \<Rightarrow> 'e res"
    and remove :: "string \<Rightarrow> 'e \<Rightarrow> 'e res"
    and legal :: "string \<Rightarrow> bool"
  assumes look_view: "look e k = (case view e k of Some v \<Rightarrow> Inr v | None \<Rightarrow> Inl (KeyError k))"
    and store_view: "legal k \<Longrightarrow> \<exists>e'. store k v e = Inr e' \<and> view e' = (view e)(k \<mapsto> v)"
    and remove_view: "if view e k = None then remove k e = Inl (KeyError k)
      else \<exists>e'. remove k e = Inr e' \<and> view e' = (view e)(k := None)"
begin

lemma look_store: "legal k \<Longrightarrow> \<exists>e'. store k v e = Inr e' \<and> look e' k = Inr v \<and> (\<forall>j. j \<noteq> k \<longrightarrow> look e' j = look e j)"
  using store_view [of k v e] by (auto simp: look_view)

lemma store_remove:
  assumes "legal k"
  shows "\<exists>e' e''. store k v e = Inr e' \<and> remove k e' = Inr e'' \<and> view e'' = (view e)(k := None)"
proof -
  obtain e' where e': "store k v e = Inr e'" "view e' = (view e)(k \<mapsto> v)" using store_view [OF assms] by blast
  with remove_view [of e' k] show ?thesis by auto
qed

end

section \<open>Environments are dictionaries\<close>

definition free_name :: "string \<Rightarrow> bool" where
  "free_name k \<longleftrightarrow> is_valid_construction_var k \<and> k \<notin> set reserved_names \<and> k \<noteq> ''BUILDERS''"

lemma getitem_Dictionary: "getitem e k = (case Dictionary e k of Some v \<Rightarrow> Inr v | None \<Rightarrow> Inl (KeyError k))"
  by (induction e) (auto simp: map_add_def split: option.splits)

lemma setitem_Dictionary:
  assumes "free_name k"
  shows "\<exists>e'. setitem bd k v e = Inr e' \<and> Dictionary e' = (Dictionary e)(k \<mapsto> v)"
  using assms by (cases e) (auto simp: free_name_def base_setitem_def scanner_map_delete_def fun_eq_iff map_add_def)

lemma delitem_Dictionary:
  "if Dictionary e k = None then delitem k e = Inl (KeyError k)
   else \<exists>e'. delitem k e = Inr e' \<and> Dictionary e' = (Dictionary e)(k := None)"
proof (induction e)
  case (Base b)
  then show ?case by (auto simp: base_delitem_def scanner_map_delete_def Let_def)
next
  case (Override e os)
  show ?case
  proof (cases "Dictionary e k")
    case None
    then have "delitem k e = Inl (KeyError k)" using Override by simp
    with None show ?thesis by (auto simp: map_add_def fun_eq_iff split: option.splits)
  next
    case (Some v)
    then obtain e' where "delitem k e = Inr e'" "Dictionary e' = (Dictionary e)(k := None)" using Override by auto
    with Some show ?thesis by (auto simp: map_add_def fun_eq_iff split: option.splits)
  qed
qed

interpretation ed: var_dict Dictionary getitem "setitem bd" delitem free_name for bd
  by unfold_locales (rule getitem_Dictionary, erule setitem_Dictionary, rule delitem_Dictionary)

lemma subst_vars: "gvars e ++ lvars e = Dictionary e"
  by (induction e) simp_all

lemma has_key_Dictionary: "has_key e k \<longleftrightarrow> Dictionary e k \<noteq> None"
  by (induction e) (auto simp: map_add_def split: option.splits)

lemma env_get_Dictionary: "env_get e k d = (case Dictionary e k of Some v \<Rightarrow> v | None \<Rightarrow> d)"
  by (induction e) (auto simp: map_add_def split: option.splits)

text \<open>
  C32: Construction environments are dictionaries, however many proxies are stacked: looking up, asking for a
  key, and the variables given to the expansion all agree with one dictionary, in which the outermost
  override wins; setting a variable in a proxy changes that variable and leaves the environment behind it as it
  was; deleting a variable removes it from all of them, and raises \<open>KeyError\<close> only if none has it.\<close>

theorem environment_is_dictionary:
  assumes "free_name k"
  shows "getitem e j = (case (gvars e ++ lvars e) j of Some w \<Rightarrow> Inr w | None \<Rightarrow> Inl (KeyError j)) \<and>
    has_key e j = ((gvars e ++ lvars e) j \<noteq> None) \<and>
    (\<exists>e' e''. setitem bd k v e = Inr e' \<and> gvars e' ++ lvars e' = (gvars e ++ lvars e)(k \<mapsto> v) \<and>
      (\<forall>e0 os. e = Override e0 os \<longrightarrow> (\<exists>os'. e' = Override e0 os')) \<and>
      delitem k e' = Inr e'' \<and> gvars e'' ++ lvars e'' = (gvars e ++ lvars e)(k := None)) \<and>
    (has_key e j \<or> delitem j e = Inl (KeyError j))"
proof -
  obtain e' where e': "setitem bd k v e = Inr e'" "Dictionary e' = (Dictionary e)(k \<mapsto> v)"
    using ed.store_view [OF assms, of bd v e] by auto
  moreover obtain e'' where "delitem k e' = Inr e''" "Dictionary e'' = (Dictionary e)(k := None)"
    using ed.store_remove [OF assms, of bd v e] e'(1) by auto
  moreover have "\<forall>e0 os. e = Override e0 os \<longrightarrow> (\<exists>os'. e' = Override e0 os')"
    using e'(1) by (auto split: if_splits)
  moreover have "has_key e j \<or> delitem j e = Inl (KeyError j)"
    using ed.remove_view [of e j] by (auto simp: has_key_Dictionary split: if_splits)
  ultimately show ?thesis
    unfolding subst_vars using getitem_Dictionary [of e j] has_key_Dictionary [of e j] by blast
qed

theorem environment_is_dictionary_witness:
  "has_key (Override (Base \<lparr>env_dict = [''CC'' \<mapsto> 1::nat], gsm_memo = False\<rparr>) [''CC'' \<mapsto> 2]) ''CC'' \<and>
    getitem (Override (Base \<lparr>env_dict = [''CC'' \<mapsto> 1::nat], gsm_memo = False\<rparr>) [''CC'' \<mapsto> 2]) ''CC'' = Inr 2"
proof -
  let ?e = "Override (Base \<lparr>env_dict = [''CC'' \<mapsto> 1::nat], gsm_memo = False\<rparr>) [''CC'' \<mapsto> 2]"
  have "free_name ''CXX''"
    by (simp add: free_name_def is_valid_construction_var_def strip_final_newline_def is_ident_def is_word_char_def
      is_letter_def reserved_names_def)
  from environment_is_dictionary [OF this, of ?e "''CC''"] show ?thesis by simp
qed

section \<open>Appending and prepending without repetitions\<close>

text \<open>
  The values that the methods tell apart: strings, lists, dictionaries, \<open>None\<close>, and objects that can be
  hashed and compared but neither added nor iterated over.
\<close>

datatype cval = VStr string | VList "cval list" | VDict "(string \<times> cval) list" | VNone | VObj nat

fun hashable :: "cval \<Rightarrow> bool" where
  "hashable (VList vs) = False"
| "hashable (VDict kvs) = False"
| "hashable v = True"

text \<open>\<open>_delete_duplicates\<close>: what cannot be hashed is kept.\<close>

fun first_only :: "cval list \<Rightarrow> cval list \<Rightarrow> cval list" where
  "first_only seen [] = []"
| "first_only seen (x # xs) =
     (if \<not> hashable x then x # first_only seen xs
      else if x \<in> set seen then first_only seen xs
      else x # first_only (x # seen) xs)"

definition delete_duplicates :: "cval list \<Rightarrow> bool \<Rightarrow> cval list" where
  "delete_duplicates l keep_last = (if keep_last then rev (first_only [] (rev l)) else first_only [] l)"

fun is_List :: "cval \<Rightarrow> bool" where
  "is_List (VList vs) = True"
| "is_List v = False"

definition dict_update :: "(string \<times> cval) list \<Rightarrow> (string \<times> cval) list \<Rightarrow> (string \<times> cval) list" where
  "dict_update d e = fold (\<lambda>(k, v). AList.update k v) e d"

text \<open>\<open>x in val\<close>: for a string it looks for a substring.\<close>

fun py_in :: "cval \<Rightarrow> cval \<Rightarrow> bool res" where
  "py_in x (VList vs) = Inr (x \<in> set vs)"
| "py_in (VStr s) (VStr t) = Inr (sublist s t)"
| "py_in x (VStr t) = Inl TypeError"
| "py_in x (VDict kvs) = (if hashable x then Inr (\<exists>k \<in> set (map fst kvs). x = VStr k) else Inl TypeError)"
| "py_in x v = Inl TypeError"

fun filter_not_in :: "cval \<Rightarrow> cval list \<Rightarrow> cval list res" where
  "filter_not_in val [] = Inr []"
| "filter_not_in val (x # xs) = res_bind (py_in x val) (\<lambda>b.
     res_bind (filter_not_in val xs) (\<lambda>ys. Inr (if b then ys else x # ys)))"

text \<open>\<open>filter(lambda x: x not in val, dk)\<close> for what is not a list; a string gives a string.\<close>

definition filter_scalar :: "cval \<Rightarrow> cval \<Rightarrow> cval res" where
  "filter_scalar val dk = (case dk of
       VStr s \<Rightarrow> res_bind (filter_not_in val (map (\<lambda>c. VStr [c]) s)) (\<lambda>ys.
         Inr (VStr (concat (map (\<lambda>y. case y of VStr t \<Rightarrow> t | _ \<Rightarrow> '''') ys))))
     | VDict kvs \<Rightarrow> res_bind (filter_not_in val (map (VStr \<circ> fst) kvs)) (\<lambda>ys. Inr (VList ys))
     | _ \<Rightarrow> Inl TypeError)"

fun py_add :: "cval \<Rightarrow> cval \<Rightarrow> cval res" where
  "py_add (VStr s) (VStr t) = Inr (VStr (s @ t))"
| "py_add (VList xs) (VList ys) = Inr (VList (xs @ ys))"
| "py_add v w = Inl TypeError"

text \<open>
  The new value of a variable; \<open>ap\<close> tells \<open>AppendUnique\<close> from \<open>PrependUnique\<close>. \<open>None\<close> means that the
  variable is left alone.
\<close>

definition unique_value :: "bool \<Rightarrow> bool \<Rightarrow> cval option \<Rightarrow> cval \<Rightarrow> cval option res" where
  "unique_value ap delete_existing old val0 =
     (let val = (case val0 of VList vs \<Rightarrow> VList (delete_duplicates vs (if ap then delete_existing else \<not> delete_existing)) | _ \<Rightarrow> val0);
          add = (\<lambda>dk v. if ap then py_add dk v else py_add v dk)
      in case old of
           None \<Rightarrow> Inr (Some val)
         | Some dk \<Rightarrow>
             (if dk = VStr '''' \<or> dk = VNone then Inr (Some val)
              else (case (dk, val) of
                  (VDict d, VDict e) \<Rightarrow> Inr (Some (VDict (dict_update d e)))
                | (_, VList vs) \<Rightarrow>
                    let ds = (case dk of VList ds \<Rightarrow> ds | _ \<Rightarrow> [dk])
                    in if delete_existing
                       then res_bind (filter_not_in val ds) (\<lambda>ds1. res_bind (add (VList ds1) val) (\<lambda>r. Inr (Some r)))
                       else res_bind (filter_not_in (VList ds) vs) (\<lambda>vs1. res_bind (add (VList ds) (VList vs1)) (\<lambda>r. Inr (Some r)))
                | (VList ds, _) \<Rightarrow>
                    (if delete_existing
                     then res_bind (filter_not_in val ds) (\<lambda>ds1. res_bind (add (VList ds1) (VList [val])) (\<lambda>r. Inr (Some r)))
                     else if val \<in> set ds then Inr None
                     else res_bind (add (VList ds) (VList [val])) (\<lambda>r. Inr (Some r)))
                | _ \<Rightarrow>
                    res_bind (if delete_existing then filter_scalar val dk else Inr dk) (\<lambda>dk1.
                      res_bind (add dk1 val) (\<lambda>r. Inr (Some r))))))"

text \<open>
  The loop over the arguments, on the dictionary at the bottom of the proxies: the environment as the call
  leaves it, and the exception it raises, if any.
\<close>

fun unique_loop :: "bool \<Rightarrow> bool \<Rightarrow> (string \<times> cval) list \<Rightarrow> cval base_env \<Rightarrow> cval base_env \<times> py_exc option" where
  "unique_loop ap delete_existing [] b = (scanner_map_delete b, None)"
| "unique_loop ap delete_existing ((key, val) # kw) b = (case unique_value ap delete_existing (env_dict b key) val of
       Inl x \<Rightarrow> (b, Some x)
     | Inr None \<Rightarrow> unique_loop ap delete_existing kw b
     | Inr (Some v) \<Rightarrow> unique_loop ap delete_existing kw (b\<lparr>env_dict := (env_dict b)(key \<mapsto> v)\<rparr>))"

definition unique_env :: "bool \<Rightarrow> bool \<Rightarrow> (string \<times> cval) list \<Rightarrow> cval environment \<Rightarrow> cval environment \<times> py_exc option" where
  "unique_env ap delete_existing kw e =
     (let (b, x) = unique_loop ap delete_existing (copy_non_reserved_keywords kw) (base_of e)
      in (map_base (\<lambda>_. b) e, x))"

definition AppendUnique :: "bool \<Rightarrow> (string \<times> cval) list \<Rightarrow> cval environment \<Rightarrow> cval environment \<times> py_exc option" where
  "AppendUnique = unique_env True"

definition PrependUnique :: "bool \<Rightarrow> (string \<times> cval) list \<Rightarrow> cval environment \<Rightarrow> cval environment \<times> py_exc option" where
  "PrependUnique = unique_env False"

lemma filter_not_in_list: "filter_not_in (VList vs) xs = Inr (filter (\<lambda>x. x \<notin> set vs) xs)"
  by (induction xs) auto

lemma first_only_props:
  "list_all hashable xs \<Longrightarrow> set (first_only seen xs) = set xs - set seen \<and> distinct (first_only seen xs)"
  by (induction xs arbitrary: seen) auto

lemma delete_duplicates_props:
  "list_all hashable xs \<Longrightarrow> set (delete_duplicates xs b) = set xs \<and> distinct (delete_duplicates xs b)"
  using first_only_props [of xs "[]"] first_only_props [of "rev xs" "[]"] by (simp add: delete_duplicates_def)

text \<open>What the methods make of two lists; \<open>us\<close> are the new elements without repetitions.\<close>

lemma unique_value_lists:
  "unique_value ap del (Some (VList ds)) (VList vs) =
    (let us = delete_duplicates vs (if ap then del else \<not> del);
         old = (if del then filter (\<lambda>x. x \<notin> set us) ds else ds);
         new = (if del then us else filter (\<lambda>x. x \<notin> set ds) us)
     in Inr (Some (VList (if ap then old @ new else new @ old))))"
  by (simp add: unique_value_def Let_def filter_not_in_list)

lemma unique_env_one:
  assumes "key \<notin> set reserved_names" "unique_value ap del (env_dict b key) val = Inr (Some v)"
  shows "unique_env ap del [(key, val)] (Base b) = (Base (scanner_map_delete (b\<lparr>env_dict := (env_dict b)(key \<mapsto> v)\<rparr>)), None)"
  using assms by (simp add: unique_env_def copy_non_reserved_keywords_def)



section \<open>Limits\<close>

text \<open>
  With \<open>delete_existing\<close> and a string for a variable that holds a list, the elements that are substrings of the
  new one are deleted, not only those that are equal to it.
\<close>

lemma delete_existing_substrings:
  "unique_value True True (Some (VList [VStr ''o'', VStr ''foo''])) (VStr ''foobar'') = Inr (Some (VList [VStr ''foobar'']))"
  by code_simp

text \<open>Through a proxy the methods change the environment behind it, and not the override.\<close>

lemma unique_through_proxy:
  assumes "os key = Some w" "env_dict b key = None" "key \<notin> set reserved_names" "\<not> is_List val"
  shows "AppendUnique del [(key, val)] (Override (Base b) os) =
      (Override (Base (scanner_map_delete (b\<lparr>env_dict := (env_dict b)(key \<mapsto> val)\<rparr>))) os, None)"
  using assms by (cases val) (simp_all add: AppendUnique_def unique_env_def copy_non_reserved_keywords_def unique_value_def)

text \<open>Setting \<open>BUILDERS\<close> in an environment without builders raises \<open>NameError\<close>.\<close>

lemma set_BUILDERS_unbound:
  "env_dict b ''BUILDERS'' = None \<Longrightarrow> setitem bd ''BUILDERS'' v (Base b) = Inl (OtherError ''NameError'' ''kwbd'')"
  by (simp add: base_setitem_def set_BUILDERS_def reserved_names_def)

end
