(* ===== verification/FsSig.thy ===== *)
theory FsSig
  imports Prelude
begin

text \<open>
  The signatures of files and the decision whether a file has changed: the signature and decision
  methods of \<open>File\<close> in \<open>SCons/Node/FS.py\<close>, \<open>NodeInfoBase.update\<close> of \<open>SCons/Node/__init__.py\<close>, the MD5
  functions of \<open>SCons/Util.py\<close>, and the deciders of \<open>SCons/Environment.py\<close>.
\<close>

section \<open>MD5 signatures\<close>

text \<open>
  A hash object is the text it was fed; \<open>md5\<close>, the digest of a text, is an argument. \<open>MD5filesignature\<close> reads
  the file block by block; \<open>read_blocks n s\<close> is what the loop feeds for a positive block size.
\<close>

definition MD5signature :: "(string \<Rightarrow> string) \<Rightarrow> string \<Rightarrow> string" where
  "MD5signature md5 s = md5 s"

function read_blocks :: "nat \<Rightarrow> string \<Rightarrow> string \<Rightarrow> string" where
  "read_blocks n fed rest =
     (let blck = take n rest in if blck = '''' then fed else read_blocks n (fed @ blck) (drop n rest))"
  by pat_completeness auto
termination
  by (relation "measure (\<lambda>(n, fed, rest). length rest)") auto

declare read_blocks.simps [simp del]

definition MD5filesignature :: "(string \<Rightarrow> string) \<Rightarrow> nat \<Rightarrow> string \<Rightarrow> string" where
  "MD5filesignature md5 chunksize contents = md5 (read_blocks chunksize '''' contents)"

definition MD5collect :: "(string \<Rightarrow> string) \<Rightarrow> string list \<Rightarrow> string" where
  "MD5collect md5 signatures =
     (if length signatures = 1 then signatures ! 0 else MD5signature md5 (py_join '', '' signatures))"

lemma read_blocks_all: "0 < n \<Longrightarrow> read_blocks n fed rest = fed @ rest"
proof (induction n fed rest rule: read_blocks.induct)
  case (1 n fed rest)
  show ?case using 1 by (subst read_blocks.simps) (auto simp: Let_def)
qed

lemma MD5filesignature_eq: "0 < n \<Longrightarrow> MD5filesignature md5 n contents = MD5signature md5 contents"
  by (simp add: MD5filesignature_def MD5signature_def read_blocks_all)

section \<open>Files and their information\<close>

text \<open>\<open>FileNodeInfo\<close>: a missing attribute is \<open>None\<close>.\<close>

record finfo =
  fi_csig :: "string option"
  fi_timestamp :: "int option"
  fi_size :: "int option"

text \<open>
  A file node: what the disk tells of it, its \<open>ninfo\<close>, the \<open>ninfo\<close> of its entry in the signature file
  (\<open>None\<close> if the entry has none), and the memos.
\<close>

record ffile =
  ff_rexists :: bool
  ff_contents :: string
  ff_readable :: bool
  ff_mtime :: int
  ff_disk_size :: int
  ff_ninfo :: finfo
  ff_stored :: "finfo option"
  ff_up_to_date :: bool
  ff_memo_size :: "int option"
  ff_memo_timestamp :: "int option"

text \<open>The time, the option \<open>--max-drift\<close> and the digest.\<close>

record sig_world =
  w_now :: int
  w_max_drift :: int
  w_md5 :: "string \<Rightarrow> string"

definition no_info :: finfo where
  "no_info = \<lparr>fi_csig = None, fi_timestamp = None, fi_size = None\<rparr>"

definition set_csig :: "string option \<Rightarrow> ffile \<Rightarrow> ffile" where
  "set_csig c f = f\<lparr>ff_ninfo := (ff_ninfo f)\<lparr>fi_csig := c\<rparr>\<rparr>"

text \<open>\<open>get_size\<close>, \<open>get_timestamp\<close>, \<open>get_contents\<close> and \<open>get_content_hash\<close>.\<close>

definition get_size :: "ffile \<Rightarrow> ffile \<times> int" where
  "get_size f = (case ff_memo_size f of
       Some n \<Rightarrow> (f, n)
     | None \<Rightarrow> (let n = (if ff_rexists f then ff_disk_size f else 0) in (f\<lparr>ff_memo_size := Some n\<rparr>, n)))"

definition get_timestamp :: "ffile \<Rightarrow> ffile \<times> int" where
  "get_timestamp f = (case ff_memo_timestamp f of
       Some n \<Rightarrow> (f, n)
     | None \<Rightarrow> (let n = (if ff_rexists f then ff_mtime f else 0) in (f\<lparr>ff_memo_timestamp := Some n\<rparr>, n)))"

definition file_contents :: "ffile \<Rightarrow> string res" where
  "file_contents f = (if \<not> ff_rexists f then Inr '''' else if ff_readable f then Inr (ff_contents f) else Inl (OSErr 13 '''' None))"

definition get_content_hash :: "sig_world \<Rightarrow> ffile \<Rightarrow> string res" where
  "get_content_hash W f =
     (if \<not> ff_rexists f then Inr (MD5signature (w_md5 W) '''')
      else if ff_readable f then Inr (MD5filesignature (w_md5 W) (64 * 1024) (ff_contents f)) else Inl (OSErr 13 '''' None))"

text \<open>\<open>get_max_drift_csig\<close>. An empty signature and the time 0 count as missing.\<close>

definition get_max_drift_csig :: "sig_world \<Rightarrow> ffile \<Rightarrow> ffile \<times> string option" where
  "get_max_drift_csig W f =
     (let (f1, mtime) = get_timestamp f
      in (f1,
          if w_max_drift W > 0 then
            (if w_now W - mtime > w_max_drift W then
               (case ff_stored f1 of
                  None \<Rightarrow> None
                | Some n \<Rightarrow> (case (fi_timestamp n, fi_csig n) of
                      (Some t, Some c) \<Rightarrow> if t \<noteq> 0 \<and> c \<noteq> '''' \<and> t = mtime then Some c else None
                    | _ \<Rightarrow> None))
             else None)
          else if w_max_drift W = 0 then (case ff_stored f1 of None \<Rightarrow> None | Some n \<Rightarrow> fi_csig n)
          else None))"

text \<open>\<open>get_csig\<close>. The size is compared with \<open>md5_chunksize\<close>, 64.\<close>

definition get_csig :: "sig_world \<Rightarrow> ffile \<Rightarrow> ffile \<times> string" where
  "get_csig W f = (case fi_csig (ff_ninfo f) of
       Some c \<Rightarrow> (f, c)
     | None \<Rightarrow>
         (let (f1, drift) = get_max_drift_csig W f
          in case drift of
              Some c \<Rightarrow> (set_csig (Some c) f1, c)
            | None \<Rightarrow>
                (let (f2, size) = get_size f1;
                     c = (if size < 64
                          then (case file_contents f2 of Inl _ \<Rightarrow> '''' | Inr s \<Rightarrow> MD5signature (w_md5 W) s)
                          else (case get_content_hash W f2 of Inl _ \<Rightarrow> '''' | Inr h \<Rightarrow> h))
                 in (set_csig (Some c) f2, c))))"

text \<open>\<open>NodeInfoBase.update\<close> for the fields \<open>csig\<close>, \<open>timestamp\<close> and \<open>size\<close>; the first is deleted before it is computed.\<close>

definition ninfo_update :: "sig_world \<Rightarrow> ffile \<Rightarrow> ffile" where
  "ninfo_update W f =
     (let (f1, c) = get_csig W (set_csig None f);
          f2 = set_csig (Some c) f1;
          (f3, t) = get_timestamp (f2\<lparr>ff_ninfo := (ff_ninfo f2)\<lparr>fi_timestamp := None\<rparr>\<rparr>);
          f4 = f3\<lparr>ff_ninfo := (ff_ninfo f3)\<lparr>fi_timestamp := Some t\<rparr>\<rparr>;
          (f5, n) = get_size (f4\<lparr>ff_ninfo := (ff_ninfo f4)\<lparr>fi_size := None\<rparr>\<rparr>)
      in f5\<lparr>ff_ninfo := (ff_ninfo f5)\<lparr>fi_size := Some n\<rparr>\<rparr>)"

text \<open>\<open>visited\<close>, up to the entry that is stored; an empty signature is not taken over.\<close>

definition file_visited :: "sig_world \<Rightarrow> ffile \<Rightarrow> ffile" where
  "file_visited W f =
     (let (f1, drift) = get_max_drift_csig W f;
          f2 = (case drift of None \<Rightarrow> f1 | Some c \<Rightarrow> if c \<noteq> '''' then set_csig (Some c) f1 else f1);
          (f3, t) = get_timestamp f2;
          f4 = f3\<lparr>ff_ninfo := (ff_ninfo f3)\<lparr>fi_timestamp := Some t\<rparr>\<rparr>;
          (f5, n) = get_size f4
      in f5\<lparr>ff_ninfo := (ff_ninfo f5)\<lparr>fi_size := Some n\<rparr>\<rparr>)"

section \<open>Decisions\<close>

text \<open>The methods \<open>changed_\<dots>\<close> of \<open>File\<close>; a missing attribute of \<open>prev_ni\<close> counts as a change.\<close>

definition changed_content :: "sig_world \<Rightarrow> finfo \<Rightarrow> ffile \<Rightarrow> ffile \<times> bool" where
  "changed_content W prev f =
     (let (f1, c) = get_csig W f in (f1, case fi_csig prev of None \<Rightarrow> True | Some p \<Rightarrow> c \<noteq> p))"

definition changed_state :: "ffile \<Rightarrow> bool" where
  "changed_state f \<longleftrightarrow> \<not> ff_up_to_date f"

definition changed_timestamp_match :: "finfo \<Rightarrow> ffile \<Rightarrow> ffile \<times> bool" where
  "changed_timestamp_match prev f =
     (let (f1, t) = get_timestamp f in (f1, case fi_timestamp prev of None \<Rightarrow> True | Some p \<Rightarrow> t \<noteq> p))"

definition changed_timestamp_then_content :: "sig_world \<Rightarrow> finfo \<Rightarrow> ffile \<Rightarrow> ffile \<times> bool" where
  "changed_timestamp_then_content W prev f =
     (let (f1, differs) = changed_timestamp_match prev f
      in if \<not> differs then ((case fi_csig prev of None \<Rightarrow> f1 | Some c \<Rightarrow> set_csig (Some c) f1), False)
         else changed_content W prev f1)"

definition changed_timestamp_newer :: "ffile \<Rightarrow> ffile \<Rightarrow> ffile \<times> bool" where
  "changed_timestamp_newer target f =
     (let (f1, t) = get_timestamp f in (f1, t > snd (get_timestamp target)))"

text \<open>The functions an environment decides with. \<open>D_user\<close> is a function of the user.\<close>

datatype decider = D_content | D_timestamp_then_content | D_timestamp_newer | D_timestamp_match | D_build | D_source | D_user nat

record dec_env =
  de_source :: decider
  de_target :: decider
  de_src_type :: string
  de_tgt_type :: string
  de_copy2 :: bool

text \<open>A string in quotes: what \<open>repr\<close> gives for strings without quotes, backslashes and control characters.\<close>

definition quoted :: "string \<Rightarrow> string" where
  "quoted s = CHR 0x27 # s @ [CHR 0x27]"

text \<open>\<open>Decider\<close>, \<open>SourceSignatures\<close> and \<open>TargetSignatures\<close>, where MD5 is available.\<close>

datatype decider_arg = DName string | DFun nat

definition Decider :: "decider_arg \<Rightarrow> dec_env \<Rightarrow> dec_env res" where
  "Decider a e =
     (let put = (\<lambda>d c2. Inr (e\<lparr>de_target := d, de_source := d, de_copy2 := c2\<rparr>))
      in case a of
          DFun u \<Rightarrow> put (D_user u) True
        | DName s \<Rightarrow>
            (if s = ''MD5'' \<or> s = ''content'' then put D_content True
             else if s = ''MD5-timestamp'' then put D_timestamp_then_content True
             else if s = ''timestamp-newer'' \<or> s = ''make'' then put D_timestamp_newer False
             else if s = ''timestamp-match'' then put D_timestamp_match True
             else Inl (UserError (''Unknown Decider value '' @ quoted s))))"

definition SourceSignatures :: "string \<Rightarrow> dec_env \<Rightarrow> dec_env \<times> unit res" where
  "SourceSignatures type e =
     (let e1 = e\<lparr>de_src_type := type\<rparr>
      in if type = ''MD5'' then (e1\<lparr>de_source := D_content\<rparr>, Inr ())
         else if type = ''timestamp'' then (e1\<lparr>de_source := D_timestamp_match\<rparr>, Inr ())
         else (e1, Inl (UserError (''Unknown source signature type '' @ quoted type))))"

definition TargetSignatures :: "string \<Rightarrow> dec_env \<Rightarrow> dec_env \<times> unit res" where
  "TargetSignatures type e =
     (let e1 = e\<lparr>de_tgt_type := type\<rparr>
      in if type = ''MD5'' \<or> type = ''content'' then (e1\<lparr>de_target := D_content\<rparr>, Inr ())
         else if type = ''timestamp'' then (e1\<lparr>de_target := D_timestamp_match\<rparr>, Inr ())
         else if type = ''build'' then (e1\<lparr>de_target := D_build\<rparr>, Inr ())
         else if type = ''source'' then (e1\<lparr>de_target := D_source\<rparr>, Inr ())
         else (e1, Inl (UserError (''Unknown target signature type '' @ quoted type))))"

text \<open>
  Calling a decider of the environment \<open>e\<close> for the dependency \<open>f\<close> of \<open>target\<close>; \<open>dep_env\<close> is the build
  environment of the dependency.
\<close>

partial_function (option) decide ::
    "sig_world \<Rightarrow> (nat \<Rightarrow> ffile \<Rightarrow> ffile \<Rightarrow> finfo \<Rightarrow> bool) \<Rightarrow> dec_env \<Rightarrow> ffile \<Rightarrow> finfo \<Rightarrow> dec_env \<Rightarrow> decider \<Rightarrow> ffile \<Rightarrow>
     (ffile \<times> bool) option" where
  "decide W user dep_env target prev e d f = (case d of
       D_content \<Rightarrow> Some (changed_content W prev f)
     | D_timestamp_then_content \<Rightarrow> Some (changed_timestamp_then_content W prev f)
     | D_timestamp_newer \<Rightarrow> Some (changed_timestamp_newer target f)
     | D_timestamp_match \<Rightarrow> Some (changed_timestamp_match prev f)
     | D_user u \<Rightarrow> Some (f, user u f target prev)
     | D_build \<Rightarrow> if changed_state f then Some (f, True) else decide W user dep_env target prev e (de_source e) f
     | D_source \<Rightarrow>
         decide W user dep_env target prev dep_env (if de_tgt_type dep_env = ''source'' then de_source dep_env else de_target dep_env) f)"

text \<open>\<open>File.decide_source\<close> and \<open>File.decide_target\<close>, which ask the build environment of the target.\<close>

definition decide_source :: "sig_world \<Rightarrow> (nat \<Rightarrow> ffile \<Rightarrow> ffile \<Rightarrow> finfo \<Rightarrow> bool) \<Rightarrow> dec_env \<Rightarrow> dec_env \<Rightarrow> ffile \<Rightarrow> finfo \<Rightarrow> ffile \<Rightarrow>
    (ffile \<times> bool) option" where
  "decide_source W user dep_env tgt_env target prev f = decide W user dep_env target prev tgt_env (de_source tgt_env) f"

definition decide_target :: "sig_world \<Rightarrow> (nat \<Rightarrow> ffile \<Rightarrow> ffile \<Rightarrow> finfo \<Rightarrow> bool) \<Rightarrow> dec_env \<Rightarrow> dec_env \<Rightarrow> ffile \<Rightarrow> finfo \<Rightarrow> ffile \<Rightarrow>
    (ffile \<times> bool) option" where
  "decide_target W user dep_env tgt_env target prev f = decide W user dep_env target prev tgt_env (de_target tgt_env) f"

section \<open>Signatures are those of the contents\<close>

text \<open>A file of which nothing has been computed yet, and one that can be read.\<close>

definition fresh :: "ffile \<Rightarrow> bool" where
  "fresh f \<longleftrightarrow> ff_ninfo f = no_info \<and> ff_memo_size f = None \<and> ff_memo_timestamp f = None"

definition readable :: "ffile \<Rightarrow> bool" where
  "readable f \<longleftrightarrow> ff_rexists f \<and> ff_readable f"

text \<open>The stored entry of a file tells the truth: if it has the time of the file, it has the signature of its contents.\<close>

definition honest :: "(string \<Rightarrow> string) \<Rightarrow> ffile \<Rightarrow> bool" where
  "honest md5 f \<longleftrightarrow> (case ff_stored f of None \<Rightarrow> True | Some n \<Rightarrow>
     fi_timestamp n = Some (ff_mtime f) \<longrightarrow> fi_csig n = None \<or> fi_csig n = Some (md5 (ff_contents f)))"

definition same_disk :: "ffile \<Rightarrow> ffile \<Rightarrow> bool" where
  "same_disk f g \<longleftrightarrow> ff_rexists g = ff_rexists f \<and> ff_contents g = ff_contents f \<and> ff_readable g = ff_readable f \<and>
     ff_mtime g = ff_mtime f \<and> ff_disk_size g = ff_disk_size f \<and> ff_stored g = ff_stored f \<and> ff_up_to_date g = ff_up_to_date f"

text \<open>Memos that were filled from the disk.\<close>

definition memos_ok :: "ffile \<Rightarrow> bool" where
  "memos_ok f \<longleftrightarrow> (ff_memo_size f = None \<or> ff_memo_size f = Some (if ff_rexists f then ff_disk_size f else 0)) \<and>
     (ff_memo_timestamp f = None \<or> ff_memo_timestamp f = Some (if ff_rexists f then ff_mtime f else 0))"

lemma get_timestamp_ok:
  assumes "memos_ok f"
  shows "snd (get_timestamp f) = (if ff_rexists f then ff_mtime f else 0)" "memos_ok (fst (get_timestamp f))"
    "same_disk f (fst (get_timestamp f))" "ff_ninfo (fst (get_timestamp f)) = ff_ninfo f"
  using assms by (auto simp: get_timestamp_def memos_ok_def same_disk_def Let_def split: option.splits)

lemma get_size_ok:
  assumes "memos_ok f"
  shows "snd (get_size f) = (if ff_rexists f then ff_disk_size f else 0)" "memos_ok (fst (get_size f))"
    "same_disk f (fst (get_size f))" "ff_ninfo (fst (get_size f)) = ff_ninfo f"
  using assms by (auto simp: get_size_def memos_ok_def same_disk_def Let_def split: option.splits)

lemma same_disk_trans: "same_disk f g \<Longrightarrow> same_disk g h \<Longrightarrow> same_disk f h"
  by (simp add: same_disk_def)

lemma ninfo_frame [simp]:
  "same_disk f (g\<lparr>ff_ninfo := n\<rparr>) = same_disk f g" "memos_ok (g\<lparr>ff_ninfo := n\<rparr>) = memos_ok g"
  by (simp_all add: same_disk_def memos_ok_def)

lemma set_csig_frame [simp]:
  "same_disk f (set_csig c f)" "memos_ok (set_csig c f) = memos_ok f" "fi_csig (ff_ninfo (set_csig c f)) = c"
  "fi_timestamp (ff_ninfo (set_csig c f)) = fi_timestamp (ff_ninfo f)"
  by (simp_all add: set_csig_def same_disk_def memos_ok_def)

lemma drift_ok:
  assumes "memos_ok f" "ff_rexists f" "honest (w_md5 W) f" "w_max_drift W \<noteq> 0"
  shows "snd (get_max_drift_csig W f) = None \<or> snd (get_max_drift_csig W f) = Some (w_md5 W (ff_contents f))"
    "memos_ok (fst (get_max_drift_csig W f))" "same_disk f (fst (get_max_drift_csig W f))"
    "ff_ninfo (fst (get_max_drift_csig W f)) = ff_ninfo f"
proof -
  note t = get_timestamp_ok [OF assms(1)]
  have st: "ff_stored (fst (get_timestamp f)) = ff_stored f" using t(3) by (simp add: same_disk_def)
  show "snd (get_max_drift_csig W f) = None \<or> snd (get_max_drift_csig W f) = Some (w_md5 W (ff_contents f))"
    using t(1) assms(2-4) by (auto simp: get_max_drift_csig_def honest_def st Let_def case_prod_beta split: option.splits if_splits)
  show "memos_ok (fst (get_max_drift_csig W f))" "same_disk f (fst (get_max_drift_csig W f))"
    "ff_ninfo (fst (get_max_drift_csig W f)) = ff_ninfo f"
    using t by (simp_all add: get_max_drift_csig_def Let_def case_prod_beta)
qed

lemma get_csig_ok:
  assumes "memos_ok f" "readable f" "honest (w_md5 W) f" "w_max_drift W \<noteq> 0" "fi_csig (ff_ninfo f) = None"
  shows "snd (get_csig W f) = w_md5 W (ff_contents f)" "memos_ok (fst (get_csig W f))" "same_disk f (fst (get_csig W f))"
    "fi_csig (ff_ninfo (fst (get_csig W f))) = Some (w_md5 W (ff_contents f))"
proof -
  have ex: "ff_rexists f" "ff_readable f" using assms(2) by (simp_all add: readable_def)
  note d = drift_ok [OF assms(1) ex(1) assms(3, 4)]
  define f1 where "f1 = fst (get_max_drift_csig W f)"
  define f2 where "f2 = fst (get_size f1)"
  have z: "memos_ok f1" "same_disk f f1" using d by (simp_all add: f1_def)
  note s = get_size_ok [OF z(1)]
  have f2: "same_disk f f2" "memos_ok f2" using same_disk_trans [OF z(2) s(3)] s(2) by (simp_all add: f2_def)
  have c: "(if snd (get_size f1) < 64 then (case file_contents f2 of Inl _ \<Rightarrow> '''' | Inr s \<Rightarrow> MD5signature (w_md5 W) s)
      else (case get_content_hash W f2 of Inl _ \<Rightarrow> '''' | Inr h \<Rightarrow> h)) = w_md5 W (ff_contents f)"
    using f2(1) ex MD5filesignature_eq [of "64 * 1024" "w_md5 W"]
    by (simp add: file_contents_def get_content_hash_def same_disk_def MD5signature_def)
  have g: "get_csig W f = (case snd (get_max_drift_csig W f) of Some c \<Rightarrow> (set_csig (Some c) f1, c)
      | None \<Rightarrow> (set_csig (Some (w_md5 W (ff_contents f))) f2, w_md5 W (ff_contents f)))"
    unfolding get_csig_def assms(5) option.case(1) Let_def case_prod_beta f1_def [symmetric] f2_def [symmetric] c
    by (simp split: option.splits)
  have "get_csig W f = (set_csig (Some (w_md5 W (ff_contents f))) f1, w_md5 W (ff_contents f)) \<or>
      get_csig W f = (set_csig (Some (w_md5 W (ff_contents f))) f2, w_md5 W (ff_contents f))"
    using d(1) by (auto simp: g)
  then show "snd (get_csig W f) = w_md5 W (ff_contents f)" "memos_ok (fst (get_csig W f))" "same_disk f (fst (get_csig W f))"
    "fi_csig (ff_ninfo (fst (get_csig W f))) = Some (w_md5 W (ff_contents f))"
    using z f2 same_disk_trans [OF _ set_csig_frame(1)] by auto
qed

lemma fresh_memos: "fresh f \<Longrightarrow> memos_ok f \<and> fi_csig (ff_ninfo f) = None"
  by (simp add: fresh_def memos_ok_def no_info_def)

lemma ninfo_update_ok:
  assumes "memos_ok f" "readable f" "honest (w_md5 W) f" "w_max_drift W \<noteq> 0"
  shows "ff_ninfo (ninfo_update W f) = \<lparr>fi_csig = Some (w_md5 W (ff_contents f)), fi_timestamp = Some (ff_mtime f), fi_size = Some (ff_disk_size f)\<rparr>"
proof -
  define f0 where "f0 = set_csig None f"
  have a: "memos_ok f0" "readable f0" "honest (w_md5 W) f0" "fi_csig (ff_ninfo f0) = None" "same_disk f f0"
    using assms by (auto simp: f0_def readable_def honest_def set_csig_def same_disk_def memos_ok_def split: option.splits)
  note c = get_csig_ok [OF a(1-3) assms(4) a(4)]
  define f2 where "f2 = (set_csig (Some (snd (get_csig W f0))) (fst (get_csig W f0)))"
  define g2 where "g2 = f2\<lparr>ff_ninfo := (ff_ninfo f2)\<lparr>fi_timestamp := None\<rparr>\<rparr>"
  have m2: "memos_ok g2" "same_disk f g2" "fi_csig (ff_ninfo g2) = Some (w_md5 W (ff_contents f))"
    using c a(5) same_disk_trans [OF a(5) c(3)] by (simp_all add: g2_def f2_def set_csig_def) (simp add: same_disk_def)
  note t = get_timestamp_ok [OF m2(1)]
  define f4 where "f4 = (fst (get_timestamp g2))\<lparr>ff_ninfo := (ff_ninfo (fst (get_timestamp g2)))\<lparr>fi_timestamp := Some (snd (get_timestamp g2)), fi_size := None\<rparr>\<rparr>"
  have m4: "memos_ok f4" "same_disk f f4" using t same_disk_trans [OF m2(2) t(3)] by (simp_all add: f4_def)
  note z = get_size_ok [OF m4(1)]
  have "ninfo_update W f = (fst (get_size f4))\<lparr>ff_ninfo := (ff_ninfo (fst (get_size f4)))\<lparr>fi_size := Some (snd (get_size f4))\<rparr>\<rparr>"
    by (simp add: ninfo_update_def Let_def f0_def f2_def g2_def f4_def case_prod_beta)
  then show ?thesis using z t m2 m4(2) assms(2) by (simp add: f4_def same_disk_def readable_def)
qed

section \<open>Properties\<close>

text \<open>
  C17: The content signature of a file is the digest of its contents, whichever way it is found: from a small
  file read at once, from a large one read block by block with any positive block size, or from the signature
  file without reading, which happens only for a file that has not been touched longer than \<open>--max-drift\<close>. This needs that
  the time of an entry in the signature file tells whether the entry is that of the contents, and that \<open>--max-drift\<close> is not 0.\<close>
theorem signature_of_contents:
  assumes "fresh f" "readable f" "honest (w_md5 W) f" "w_max_drift W \<noteq> 0" "0 < n"
  shows "snd (get_csig W f) = w_md5 W (ff_contents f) \<and> MD5filesignature (w_md5 W) n (ff_contents f) = w_md5 W (ff_contents f) \<and>
    (snd (get_max_drift_csig W f) = None \<or> 0 < w_max_drift W \<and> w_now W - ff_mtime f > w_max_drift W)"
proof -
  have m: "memos_ok f" "fi_csig (ff_ninfo f) = None" "ff_rexists f" using fresh_memos [OF assms(1)] assms(2) by (simp_all add: readable_def)
  have "snd (get_max_drift_csig W f) = None \<or> 0 < w_max_drift W \<and> w_now W - ff_mtime f > w_max_drift W"
    using get_timestamp_ok(1) [OF m(1)] m(3) assms(4) by (auto simp: get_max_drift_csig_def Let_def case_prod_beta)
  then show ?thesis using get_csig_ok(1) [OF m(1) assms(2-4) m(2)] MD5filesignature_eq [OF assms(5), of "w_md5 W"] by (simp add: MD5signature_def)
qed

definition sample_file :: ffile where
  "sample_file = \<lparr>ff_rexists = True, ff_contents = ''abc'', ff_readable = True, ff_mtime = 100, ff_disk_size = 3,
     ff_ninfo = no_info, ff_stored = None, ff_up_to_date = True, ff_memo_size = None, ff_memo_timestamp = None\<rparr>"

definition sample_world :: sig_world where
  "sample_world = \<lparr>w_now = 1000, w_max_drift = 10, w_md5 = rev\<rparr>"

theorem signature_of_contents_witness:
  "snd (get_csig sample_world sample_file) = ''cba'' \<and> MD5filesignature rev 2 ''abc'' = ''cba''"
  using signature_of_contents [of sample_file sample_world 2]
  by (simp add: fresh_def readable_def honest_def sample_file_def sample_world_def)

text \<open>The content decisions, for a previous signature that is the digest of a text.\<close>

lemma changed_content_ok:
  assumes "memos_ok f" "readable f" "honest (w_md5 W) f" "w_max_drift W \<noteq> 0" "fi_csig (ff_ninfo f) = None" "fi_csig prev = Some h"
  shows "snd (changed_content W prev f) = (w_md5 W (ff_contents f) \<noteq> h)"
  using get_csig_ok(1) [OF assms(1-5)] assms(6) by (simp add: changed_content_def case_prod_beta)

lemma changed_then_ok:
  assumes "memos_ok f" "readable f" "honest (w_md5 W) f" "w_max_drift W \<noteq> 0" "fi_csig (ff_ninfo f) = None"
    "fi_csig prev = Some h" "fi_timestamp prev = Some (ff_mtime f) \<longrightarrow> h = w_md5 W (ff_contents f)"
  shows "snd (changed_timestamp_then_content W prev f) = (w_md5 W (ff_contents f) \<noteq> h)"
proof -
  note t = get_timestamp_ok [OF assms(1)]
  let ?f1 = "fst (get_timestamp f)"
  have a: "readable ?f1" "honest (w_md5 W) ?f1" "fi_csig (ff_ninfo ?f1) = None" "ff_contents ?f1 = ff_contents f"
    using t(3, 4) assms(2, 3, 5) by (simp_all add: same_disk_def readable_def honest_def cong: option.case_cong)
  have m: "changed_timestamp_match prev f = (?f1, fi_timestamp prev \<noteq> Some (ff_mtime f))"
    using t(1) assms(2) by (auto simp: changed_timestamp_match_def case_prod_beta readable_def split: option.splits)
  show ?thesis
  proof (cases "fi_timestamp prev = Some (ff_mtime f)")
    case True
    then show ?thesis using m assms(7) by (simp add: changed_timestamp_then_content_def)
  next
    case False
    then show ?thesis using m changed_content_ok [OF t(2) a(1, 2) assms(4) a(3) assms(6)] a(4)
      by (simp add: changed_timestamp_then_content_def)
  qed
qed

lemma decide_named:
  assumes "Decider (DName name) e = Inr e'"
  shows "name \<in> {''MD5'', ''content''} \<Longrightarrow> de_source e' = D_content \<and> de_target e' = D_content"
    "name = ''MD5-timestamp'' \<Longrightarrow> de_source e' = D_timestamp_then_content \<and> de_target e' = D_timestamp_then_content"
    "name = ''timestamp-match'' \<Longrightarrow> de_source e' = D_timestamp_match \<and> de_target e' = D_timestamp_match"
  using assms by (auto simp: Decider_def Let_def)

text \<open>
  C18: Between two runs a file counts as changed exactly if its contents differ. Let the first run record the
  information of the file, and let the second run read it from the signature file: with the deciders \<open>MD5\<close>, \<open>content\<close> and
  \<open>MD5-timestamp\<close> both decisions, for sources and for targets, return and tell whether the contents differ. The
  digest must tell the two contents apart, a file with the same time must have the same contents, and \<open>--max-drift\<close> is not 0.\<close>
theorem changed_iff_contents_differ:
  assumes "fresh f1" "readable f1" "honest (w_md5 W1) f1" "w_max_drift W1 \<noteq> 0"
    and "fresh f2" "readable f2" "w_max_drift W2 \<noteq> 0" "w_md5 W1 = w_md5 W2"
    and "ff_stored f2 = Some (ff_ninfo (ninfo_update W1 f1))"
    and "ff_mtime f1 = ff_mtime f2 \<longrightarrow> ff_contents f1 = ff_contents f2"
    and "w_md5 W2 (ff_contents f1) = w_md5 W2 (ff_contents f2) \<longrightarrow> ff_contents f1 = ff_contents f2"
    and "name \<in> {''MD5'', ''content'', ''MD5-timestamp''}" "Decider (DName name) e = Inr e'"
  shows "map_option snd (decide_source W2 user dep_env e' target (ff_ninfo (ninfo_update W1 f1)) f2) = Some (ff_contents f1 \<noteq> ff_contents f2) \<and>
    map_option snd (decide_target W2 user dep_env e' target (ff_ninfo (ninfo_update W1 f1)) f2) = Some (ff_contents f1 \<noteq> ff_contents f2)"
proof -
  let ?p = "ff_ninfo (ninfo_update W1 f1)"
  have p: "fi_csig ?p = Some (w_md5 W2 (ff_contents f1))" "fi_timestamp ?p = Some (ff_mtime f1)"
    using ninfo_update_ok [OF fresh_memos [OF assms(1), THEN conjunct1] assms(2-4)] assms(8) by simp_all
  have m: "memos_ok f2" "fi_csig (ff_ninfo f2) = None" using fresh_memos [OF assms(5)] by simp_all
  have h: "honest (w_md5 W2) f2" using assms(9, 10) p by (auto simp: honest_def)
  have c: "snd (changed_content W2 ?p f2) = (ff_contents f1 \<noteq> ff_contents f2)"
    using changed_content_ok [OF m(1) assms(6) h assms(7) m(2) p(1)] assms(11) by auto
  have t: "snd (changed_timestamp_then_content W2 ?p f2) = (ff_contents f1 \<noteq> ff_contents f2)"
    using changed_then_ok [OF m(1) assms(6) h assms(7) m(2) p(1)] p(2) assms(10, 11) by auto
  have d: "map_option snd (decide W2 user dep_env target ?p e' D_content f2) = Some (ff_contents f1 \<noteq> ff_contents f2)"
    "map_option snd (decide W2 user dep_env target ?p e' D_timestamp_then_content f2) = Some (ff_contents f1 \<noteq> ff_contents f2)"
    unfolding decide.simps [of W2 user dep_env target ?p e' D_content] decide.simps [of W2 user dep_env target ?p e' D_timestamp_then_content]
      decider.case option.map(2) c t by (rule refl)+
  have "de_source e' = D_content \<and> de_target e' = D_content \<or> de_source e' = D_timestamp_then_content \<and> de_target e' = D_timestamp_then_content"
    using assms(12) decide_named [OF assms(13)] by blast
  then show ?thesis using d unfolding decide_source_def decide_target_def by (elim disjE conjE) (simp_all only: simp_thms)
qed

definition sample_env :: dec_env where
  "sample_env = \<lparr>de_source = D_content, de_target = D_content, de_src_type = ''MD5'', de_tgt_type = ''source'', de_copy2 = True\<rparr>"

theorem changed_iff_contents_differ_witness:
  "map_option snd (decide_source sample_world (\<lambda>_ _ _ _. False) sample_env
     (sample_env\<lparr>de_source := D_timestamp_then_content, de_target := D_timestamp_then_content\<rparr>) sample_file
     (ff_ninfo (ninfo_update sample_world sample_file))
     (sample_file\<lparr>ff_contents := ''xyz'', ff_mtime := 200, ff_stored := Some (ff_ninfo (ninfo_update sample_world sample_file))\<rparr>)) = Some True"
  using changed_iff_contents_differ [of sample_file sample_world
     "sample_file\<lparr>ff_contents := ''xyz'', ff_mtime := 200, ff_stored := Some (ff_ninfo (ninfo_update sample_world sample_file))\<rparr>" sample_world
     "''MD5-timestamp''" sample_env "sample_env\<lparr>de_source := D_timestamp_then_content, de_target := D_timestamp_then_content\<rparr>"
     "\<lambda>_ _ _ _. False" sample_env sample_file]
  by (simp add: fresh_def readable_def honest_def sample_file_def sample_world_def sample_env_def Decider_def)

text \<open>
  \<open>TargetSignatures\<close> stores its argument before it looks at it. After a failed call an environment may hold the decider
  for source signatures with a type that sends it back to itself: for a dependency of the same environment it never returns.
\<close>

lemma decide_source_cycle:
  assumes "decide W user dep_env target prev e d f = Some y" "de_tgt_type dep_env \<noteq> ''source''" "de_target dep_env = D_source"
  shows "d \<noteq> D_source"
proof (rule decide.raw_induct [OF _ assms(1), where P = "\<lambda>W user dep target prev e d f y. dep = dep_env \<longrightarrow> d \<noteq> D_source", THEN mp])
  fix loop :: "sig_world \<Rightarrow> (nat \<Rightarrow> ffile \<Rightarrow> ffile \<Rightarrow> finfo \<Rightarrow> bool) \<Rightarrow> dec_env \<Rightarrow> ffile \<Rightarrow> finfo \<Rightarrow> dec_env \<Rightarrow> decider \<Rightarrow> ffile \<Rightarrow> (ffile \<times> bool) option"
  fix W user dep target prev e d f y
  assume IH: "\<And>W user dep target prev e d f y. loop W user dep target prev e d f = Some y \<Longrightarrow> dep = dep_env \<longrightarrow> d \<noteq> D_source"
    and eq: "(case d of
       D_content \<Rightarrow> Some (changed_content W prev f)
     | D_timestamp_then_content \<Rightarrow> Some (changed_timestamp_then_content W prev f)
     | D_timestamp_newer \<Rightarrow> Some (changed_timestamp_newer target f)
     | D_timestamp_match \<Rightarrow> Some (changed_timestamp_match prev f)
     | D_build \<Rightarrow> if changed_state f then Some (f, True) else loop W user dep target prev e (de_source e) f
     | D_source \<Rightarrow> loop W user dep target prev dep (if de_tgt_type dep = ''source'' then de_source dep else de_target dep) f
     | D_user u \<Rightarrow> Some (f, user u f target prev)) = Some y"
  show "dep = dep_env \<longrightarrow> d \<noteq> D_source"
  proof (intro impI notI)
    assume "dep = dep_env" "d = D_source"
    then have "loop W user dep_env target prev dep_env D_source f = Some y" using eq assms(2, 3) by simp
    then show False using IH by blast
  qed
qed simp

lemma failed_TargetSignatures_diverges:
  "(let e1 = fst (TargetSignatures ''source'' sample_env); (e2, r) = TargetSignatures ''md5'' e1
    in r \<noteq> Inr () \<and> decide_target W user e2 e2 target prev f = None)"
proof -
  define e2 where "e2 = sample_env\<lparr>de_tgt_type := ''md5'', de_target := D_source\<rparr>"
  have "decide W user e2 target prev e2 D_source f = None"
    using decide_source_cycle [of W user e2 target prev e2 D_source f] by (cases "decide W user e2 target prev e2 D_source f") (auto simp: e2_def)
  then show ?thesis by (simp add: TargetSignatures_def Let_def decide_target_def e2_def sample_env_def)
qed

end
