(* ===== verification/Scan.thy ===== *)
theory Scan
  imports Util Paths "HOL-Library.Multiset" "HOL-Library.List_Lexorder" "HOL-Library.Char_ord"
begin

text \<open>
  The scanners of \<open>SCons/Scanner\<close>: the expressions that find include lines, the search for the
  included files (\<open>Classic\<close>, \<open>ClassicCPP\<close>, \<open>F90Scanner\<close>), the selection of a scanner by the
  suffix of a node (\<open>Base\<close>, \<open>Selector\<close>), the scanner for the libraries of a program, and the search
  paths they are called with (\<open>SCons/PathList.py\<close>). The functions \<open>find_file\<close> and \<open>subst\<close> are arguments.
\<close>

section \<open>Include lines\<close>

text \<open>
  \<open>cre.findall(s)\<close> for an expression that starts with \<open>^\<close>, in multi-line mode, and never ends with a line feed:
  \<open>m\<close> gives the groups and the length of a match at the start of its argument.
\<close>

function findall :: "(string \<Rightarrow> ('v \<times> nat) option) \<Rightarrow> bool \<Rightarrow> string \<Rightarrow> 'v list" where
  "findall m bol [] = []"
| "findall m bol (c # cs) = (case if bol then m (c # cs) else None of
       Some (v, n) \<Rightarrow> v # findall m False (drop (n - 1) cs)
     | None \<Rightarrow> findall m (c = CHR 0x0A) cs)"
  by pat_completeness auto
termination
  by (relation "measure (\<lambda>(m, bol, s). length s)") auto

definition is_blank_char :: "char \<Rightarrow> bool" where
  "is_blank_char c \<longleftrightarrow> c = CHR '' '' \<or> c = CHR 0x09"

definition opens :: "char \<Rightarrow> bool" where
  "opens c \<longleftrightarrow> c = CHR ''<'' \<or> c = CHR 0x22"

definition closes :: "char \<Rightarrow> bool" where
  "closes c \<longleftrightarrow> c = CHR ''>'' \<or> c = CHR 0x22"

text \<open>The three groups of a match: bracket, name, bracket.\<close>

type_synonym cinclude = "string \<times> string \<times> string"

text \<open>The end of the expressions, the brackets with the name in between; also gives the rest of the text.\<close>

definition bracketed :: "string \<Rightarrow> (cinclude \<times> string) option" where
  "bracketed s = (case dropWhile is_blank_char s of
       [] \<Rightarrow> None
     | q # r \<Rightarrow>
         (let name = takeWhile (\<lambda>c. \<not> closes c) r
          in case dropWhile (\<lambda>c. \<not> closes c) r of
               [] \<Rightarrow> None
             | e # rest \<Rightarrow> if opens q \<and> name \<noteq> '''' then Some (([q], name, [e]), rest) else None))"

text \<open>The start of the expressions, up to the word \<open>include\<close> or \<open>import\<close>; gives what follows.\<close>

definition cpp_head :: "string \<Rightarrow> string option" where
  "cpp_head s = (case dropWhile is_blank_char s of
       [] \<Rightarrow> None
     | h # s1 \<Rightarrow>
         (let s2 = dropWhile is_blank_char s1
          in if h \<noteq> CHR ''#'' then None
             else if prefix ''include'' s2 then Some (drop 7 s2)
             else if prefix ''import'' s2 then Some (drop 6 s2) else None))"

definition idl_head :: "string \<Rightarrow> string option" where
  "idl_head s =
     (let s1 = dropWhile is_blank_char s;
          s2 = (if prefix ''#'' s1 \<and> prefix ''include'' (dropWhile is_blank_char (tl s1)) then Some (drop 7 (dropWhile is_blank_char (tl s1)))
                else if prefix ''import'' s1 then Some (drop 6 s1) else None)
      in Option.bind s2 (\<lambda>r. if r \<noteq> '''' \<and> is_blank_char (hd r) then Some r else None))"

definition match_include :: "(string \<Rightarrow> string option) \<Rightarrow> string \<Rightarrow> (cinclude \<times> nat) option" where
  "match_include head s =
     map_option (\<lambda>(i, rest). (i, length s - length rest)) (Option.bind (head s) bracketed)"

text \<open>\<open>find_include_names\<close> of the scanners for C and IDL.\<close>

definition C_find_include_names :: "string \<Rightarrow> cinclude list" where
  "C_find_include_names text = findall (match_include cpp_head) True text"

definition IDL_find_include_names :: "string \<Rightarrow> cinclude list" where
  "IDL_find_include_names text = findall (match_include idl_head) True text"

section \<open>Classic scanners\<close>

text \<open>
  \<open>find_include\<close> of \<open>Classic\<close>, \<open>ClassicCPP\<close> and the scanner for D; \<open>_my_normcase\<close> leaves names alone where case
  matters. The result is the node that was found and the name for the warning.
\<close>

definition Classic_find_include :: "(string \<Rightarrow> 'd list \<Rightarrow> 'n option) \<Rightarrow> 'd list \<Rightarrow> string \<Rightarrow> 'd \<Rightarrow> 'n option \<times> string" where
  "Classic_find_include find_file path include source_dir = (find_file include (source_dir # path), include)"

definition Classic_sort_key :: "string \<Rightarrow> string" where
  "Classic_sort_key include = include"

definition ClassicCPP_find_include :: "(string \<Rightarrow> 'd list \<Rightarrow> 'n option) \<Rightarrow> 'd list \<Rightarrow> cinclude \<Rightarrow> 'd \<Rightarrow> 'n option \<times> string" where
  "ClassicCPP_find_include find_file path = (\<lambda>(bracket, name, close) source_dir.
     (find_file name (if bracket = [CHR 0x22] then source_dir # path else path @ [source_dir]), name))"

definition ClassicCPP_sort_key :: "cinclude \<Rightarrow> string" where
  "ClassicCPP_sort_key = (\<lambda>(bracket, name, close). py_join '' '' [bracket, name, close])"

definition D_find_include :: "(string \<Rightarrow> 'd list \<Rightarrow> 'n option) \<Rightarrow> 'd list \<Rightarrow> string \<Rightarrow> 'd \<Rightarrow> 'n option \<times> string" where
  "D_find_include find_file path include source_dir =
     (let inc = map (\<lambda>c. if c = CHR ''.'' then CHR ''/'' else c) include
      in (case find_file (inc @ ''.d'') (source_dir # path) of
            Some n \<Rightarrow> Some n
          | None \<Rightarrow> find_file (inc @ ''.di'') (source_dir # path), include))"

text \<open>
  \<open>scan\<close> works on a node with its memo \<open>includes\<close>; \<open>look\<close> and \<open>key\<close> are the methods \<open>find_include\<close>, with the search path,
  and \<open>sort_key\<close>. The loop collects decorated nodes and the names it warns of. Sorting compares nodes only
  behind equal keys.
\<close>

record ('i, 'd) snode =
  sn_includes :: "'i list option"
  sn_text :: string
  sn_dir :: 'd

fun scan_loop :: "('i \<Rightarrow> 'n option \<times> string) \<Rightarrow> ('i \<Rightarrow> string) \<Rightarrow> 'i list \<Rightarrow> (string \<times> 'n) list \<Rightarrow> string list \<Rightarrow>
    (string \<times> 'n) list \<times> string list" where
  "scan_loop look key [] nodes warned = (nodes, warned)"
| "scan_loop look key (include # rest) nodes warned = (case look include of
       (None, i) \<Rightarrow> scan_loop look key rest nodes (warned @ [i])
     | (Some n, i) \<Rightarrow> scan_loop look key rest (nodes @ [(key include, n)]) warned)"

definition scan_nodes :: "('i \<Rightarrow> 'd \<Rightarrow> 'n option \<times> string) \<Rightarrow> ('i \<Rightarrow> string) \<Rightarrow> 'i list \<Rightarrow> 'd \<Rightarrow> 'n list \<times> string list" where
  "scan_nodes look key includes source_dir =
     (let (nodes, warned) = scan_loop (\<lambda>i. look i source_dir) key includes [] []
      in (map snd (sort_key fst nodes), warned))"

definition Classic_scan :: "(string \<Rightarrow> 'i list) \<Rightarrow> ('i \<Rightarrow> 'd \<Rightarrow> 'n option \<times> string) \<Rightarrow> ('i \<Rightarrow> string) \<Rightarrow> ('i, 'd) snode \<Rightarrow>
    ('i, 'd) snode \<times> 'n list \<times> string list" where
  "Classic_scan find_names look key node = (case sn_includes node of
       Some includes \<Rightarrow> (node, scan_nodes look key includes (sn_dir node))
     | None \<Rightarrow>
         (let includes = find_names (sn_text node)
          in (node\<lparr>sn_includes := Some includes\<rparr>, scan_nodes look key includes (sn_dir node))))"

text \<open>\<open>CScanner\<close>.\<close>

definition CScanner_scan :: "(string \<Rightarrow> 'd list \<Rightarrow> 'n option) \<Rightarrow> 'd list \<Rightarrow> (cinclude, 'd) snode \<Rightarrow>
    (cinclude, 'd) snode \<times> 'n list \<times> string list" where
  "CScanner_scan find_file path node =
     Classic_scan C_find_include_names (ClassicCPP_find_include find_file path) ClassicCPP_sort_key node"

text \<open>
  \<open>F90Scanner.scan\<close>. Its three expressions are arguments of its constructor, and here the functions that find
  included files, used and defined modules; \<open>modsuffix\<close> is the expansion of \<open>FORTRANMODSUFFIX\<close>.
\<close>

definition F90_names :: "(string \<Rightarrow> string list) \<Rightarrow> (string \<Rightarrow> string list) \<Rightarrow> (string \<Rightarrow> string list) \<Rightarrow> string \<Rightarrow> string \<Rightarrow> string list" where
  "F90_names cre_incl cre_use cre_def modsuffix text =
     (let includes = cre_incl text; modules = cre_use text; defmodules = cre_def text;
          modules = filter (\<lambda>m. m \<notin> set defmodules) modules;
          modules = map (\<lambda>x. py_lower x @ modsuffix) modules
      in unique True True (includes @ modules))"

definition F90_scan :: "(string \<Rightarrow> 'd list \<Rightarrow> 'n option) \<Rightarrow> (string \<Rightarrow> string list) \<Rightarrow> (string \<Rightarrow> string list) \<Rightarrow> (string \<Rightarrow> string list) \<Rightarrow>
    string \<Rightarrow> 'd list \<Rightarrow> (string, 'd) snode \<Rightarrow> (string, 'd) snode \<times> 'n list \<times> string list" where
  "F90_scan find_file cre_incl cre_use cre_def modsuffix path node =
     Classic_scan (F90_names cre_incl cre_use cre_def modsuffix) (Classic_find_include find_file path) Classic_sort_key node"

section \<open>Sorting\<close>

text \<open>Pairs in which the key determines the value have one order by key only.\<close>

lemma sorted_pairs_unique:
  assumes "mset ys = mset xs" "sorted (map fst ys)"
    and "\<And>a b b'. (a, b) \<in> set xs \<Longrightarrow> (a, b') \<in> set xs \<Longrightarrow> b = b'"
  shows "ys = sort_key fst xs"
proof -
  have s: "set ys = set xs" using assms(1) by (metis set_mset_mset)
  have "filter (\<lambda>x. fst k = fst x) ys = filter (\<lambda>x. fst k = fst x) xs" if "k \<in> set ys" for k
  proof -
    have e: "filter (\<lambda>x. fst k = fst x) zs = replicate (count (mset zs) k) k" if z: "set zs = set xs" for zs
    proof -
      have "(fst k = fst x) = (k = x)" if "x \<in> set zs" for x
        using assms(3) [of "fst k" "snd k" "snd x"] that \<open>k \<in> set ys\<close> s z by (cases k, cases x) auto
      then have "filter (\<lambda>x. fst k = fst x) zs = filter ((=) k) zs" by (rule filter_cong [OF refl])
      then show ?thesis by (simp add: replicate_count_mset_eq_filter_eq)
    qed
    show ?thesis using e [OF s] e [OF refl] assms(1) by simp
  qed
  then show ?thesis using properties_for_sort_key [OF assms(1) _ assms(2)] by simp
qed

lemma scan_loop_eq: "scan_loop look key is nodes warned =
   (nodes @ List.map_filter (\<lambda>i. map_option (Pair (key i)) (fst (look i))) is,
    warned @ map (\<lambda>i. snd (look i)) (filter (\<lambda>i. fst (look i) = None) is))"
  by (induction look key "is" nodes warned rule: scan_loop.induct) (auto simp: map_filter_simps split: prod.splits option.splits)

text \<open>
  What the search promises: the key of an include line tells the line. Then the order of the nodes does not depend
  on the nodes, nor on where they are found.
\<close>

locale include_scanner =
  fixes key :: "'i \<Rightarrow> string" and legal :: "'i \<Rightarrow> bool"
  assumes key_inj: "legal i \<Longrightarrow> legal j \<Longrightarrow> key i = key j \<Longrightarrow> i = j"
begin

lemma found_sorted:
  assumes "\<forall>i \<in> set is. legal i"
    "mset ps = mset (List.map_filter (\<lambda>i. map_option (Pair (key i)) (f i)) is)" "sorted (map fst ps)"
  shows "map snd ps = List.map_filter f (sort_key key is)"
proof -
  let ?g = "\<lambda>i. map_option (Pair (key i)) (f i)" and ?s = "sort_key key is"
  have dec: "map snd (List.map_filter ?g xs) = List.map_filter f xs" for xs
    by (induction xs) (auto simp: map_filter_simps split: option.splits)
  have one: "b = b'" if "(a, b) \<in> set (List.map_filter ?g is)" "(a, b') \<in> set (List.map_filter ?g is)" for a b b'
  proof -
    obtain i j where "i \<in> set is" "j \<in> set is" "?g i = Some (a, b)" "?g j = Some (a, b')"
      using \<open>(a, b) \<in> _\<close> \<open>(a, b') \<in> _\<close> by (auto simp: map_filter_def)
    then show ?thesis using key_inj [of i j] assms(1) by auto
  qed
  have m: "mset (List.map_filter ?g xs) = mset (List.map_filter ?g ys)" if "mset xs = mset ys" for xs ys
    using that by (simp add: map_filter_def mset_map mset_filter del: not_None_eq)
  have "sorted (map fst (List.map_filter ?g xs))" if "sorted (map key xs)" for xs
    using that by (induction xs) (auto simp: map_filter_simps map_filter_def split: option.splits)
  then have "sorted (map fst (List.map_filter ?g ?s))" by simp
  then have "ps = List.map_filter ?g ?s"
    using sorted_pairs_unique [OF assms(2, 3) one] sorted_pairs_unique [OF m [of ?s "is"] _ one] by simp
  then show ?thesis using dec by simp
qed

lemma nodes_sorted:
  assumes "\<forall>i \<in> set is. legal i"
  shows "scan_nodes look key is d =
    (List.map_filter (\<lambda>i. fst (look i d)) (sort_key key is), map (\<lambda>i. snd (look i d)) (filter (\<lambda>i. fst (look i d) = None) is))"
  using found_sorted [OF assms, where ps = "sort_key fst (fst (scan_loop (\<lambda>i. look i d) key is [] []))" and f = "\<lambda>i. fst (look i d)"]
  by (simp add: scan_nodes_def scan_loop_eq)

end

interpretation cpp_key: include_scanner ClassicCPP_sort_key "\<lambda>(bracket, name, close). length bracket = 1 \<and> length close = 1"
proof
  fix i j :: cinclude
  obtain a b c a' b' c' where [simp]: "i = (a, b, c)" "j = (a', b', c')" by (metis prod.exhaust)
  assume "case i of (bracket, name, close) \<Rightarrow> length bracket = 1 \<and> length close = 1"
    "case j of (bracket, name, close) \<Rightarrow> length bracket = 1 \<and> length close = 1" "ClassicCPP_sort_key i = ClassicCPP_sort_key j"
  then show "i = j" by (auto simp: ClassicCPP_sort_key_def length_Suc_conv)
qed

interpretation name_key: include_scanner Classic_sort_key "\<lambda>_. True"
  by unfold_locales (simp add: Classic_sort_key_def)

section \<open>What is written is found\<close>

text \<open>
  Lines of a C file: include lines, with their blanks and what follows the closing bracket, and lines that do not start with
  the word and an opening bracket.
\<close>

datatype cline = Plain_line string | Include_line string string bool string "char \<times> string \<times> char" string

fun print_cline :: "cline \<Rightarrow> string" where
  "print_cline (Plain_line s) = s @ [CHR 0x0A]"
| "print_cline (Include_line b1 b2 imp b3 (q, name, e) tail) =
     b1 @ CHR ''#'' # b2 @ (if imp then ''import'' else ''include'') @ b3 @ q # name @ e # tail @ [CHR 0x0A]"

fun cline_ok :: "cline \<Rightarrow> bool" where
  "cline_ok (Plain_line s) \<longleftrightarrow> CHR 0x0A \<notin> set s \<and> (case cpp_head s of
       None \<Rightarrow> True
     | Some r \<Rightarrow> (case dropWhile is_blank_char r of [] \<Rightarrow> True | q # _ \<Rightarrow> \<not> opens q))"
| "cline_ok (Include_line b1 b2 imp b3 (q, name, e) tail) \<longleftrightarrow> list_all is_blank_char b1 \<and> list_all is_blank_char b2 \<and> list_all is_blank_char b3 \<and>
     opens q \<and> closes e \<and> name \<noteq> '''' \<and> list_all (\<lambda>c. \<not> closes c) name \<and> CHR 0x0A \<notin> set tail"

fun line_include :: "cline \<Rightarrow> cinclude option" where
  "line_include (Plain_line s) = None"
| "line_include (Include_line b1 b2 imp b3 (q, name, e) tail) = Some ([q], name, [e])"

lemma no_blank [simp]: "\<not> is_blank_char (CHR 0x0A)" "\<not> is_blank_char (CHR ''#'')" "\<not> is_blank_char (CHR ''i'')"
  by (simp_all add: is_blank_char_def)

lemma opens_no_blank [simp]: "opens q \<Longrightarrow> \<not> is_blank_char q"
  by (auto simp: opens_def is_blank_char_def)

lemma dropWhile_all: "list_all P xs \<Longrightarrow> dropWhile P (xs @ ys) = dropWhile P ys"
  by (induction xs) auto

lemma prefix_stop: "x \<notin> set k \<Longrightarrow> prefix k (xs @ x # ys) \<longleftrightarrow> prefix k xs"
proof (induction k arbitrary: xs)
  case (Cons a k)
  then show ?case by (cases xs) auto
qed simp

lemma cpp_head_newline:
  assumes "CHR 0x0A \<notin> set s"
  shows "cpp_head (s @ CHR 0x0A # t) = map_option (\<lambda>r. r @ CHR 0x0A # t) (cpp_head s)"
proof (cases "dropWhile is_blank_char s")
  case Nil
  then show ?thesis by (simp add: cpp_head_def dropWhile_append3 del: dropWhile_eq_Nil_conv)
next
  case (Cons h s1)
  let ?s2 = "dropWhile is_blank_char s1"
  have "prefix ''include'' ?s2 \<Longrightarrow> 7 \<le> length ?s2" "prefix ''import'' ?s2 \<Longrightarrow> 6 \<le> length ?s2"
    using prefix_length_le [of "''include''" ?s2] prefix_length_le [of "''import''" ?s2] by simp_all
  then show ?thesis
    using Cons by (auto simp: cpp_head_def dropWhile_append3 Let_def prefix_stop)
qed

lemma findall_skip: "CHR 0x0A \<notin> set s \<Longrightarrow> findall m False (s @ CHR 0x0A # t) = findall m True t"
  by (induction s) auto

lemma findall_plain:
  assumes "CHR 0x0A \<notin> set s" "m (s @ CHR 0x0A # t) = None"
  shows "findall m True (s @ CHR 0x0A # t) = findall m True t"
  using assms findall_skip [of "tl s" m t] by (cases s) auto

lemma findall_match:
  assumes "m (p @ s) = Some (i, length p)" "p \<noteq> []"
  shows "findall m True (p @ s) = i # findall m False s"
  using assms by (cases p) auto

lemma match_plain:
  assumes "cline_ok (Plain_line s)"
  shows "match_include cpp_head (s @ CHR 0x0A # t) = None"
proof -
  have "bracketed (r @ CHR 0x0A # t) = None" if "cpp_head s = Some r" for r
    using assms that by (cases "dropWhile is_blank_char r")
      (auto simp: bracketed_def dropWhile_append3 opens_def Let_def simp del: dropWhile_eq_Nil_conv dropWhile_eq_Cons_conv split: list.split)
  then show ?thesis using assms by (cases "cpp_head s") (simp_all add: match_include_def cpp_head_newline)
qed

lemma match_written:
  assumes "cline_ok (Include_line b1 b2 imp b3 (q, name, e) tail)"
  defines "p \<equiv> b1 @ CHR ''#'' # b2 @ (if imp then ''import'' else ''include'') @ b3 @ q # name @ [e]"
  shows "match_include cpp_head (p @ s) = Some (([q], name, [e]), length p)"
proof -
  have h: "cpp_head (p @ s) = Some (b3 @ q # name @ e # s)"
    using assms(1) unfolding p_def by (simp add: cpp_head_def dropWhile_all Let_def)
  have "bracketed (b3 @ q # name @ e # s) = Some (([q], name, [e]), s)"
    using assms(1) by (simp add: bracketed_def dropWhile_all dropWhile_append3 takeWhile_append list_all_iff)
  with h show ?thesis by (simp add: match_include_def)
qed

lemma findall_written:
  "\<forall>l \<in> set ls. cline_ok l \<Longrightarrow>
     findall (match_include cpp_head) True (concat (map print_cline ls)) = List.map_filter line_include ls"
proof (induction ls)
  case (Cons l ls)
  let ?t = "concat (map print_cline ls)"
  have ih: "findall (match_include cpp_head) True ?t = List.map_filter line_include ls" using Cons by simp
  show ?case
  proof (cases l)
    case (Plain_line s)
    then show ?thesis using Cons.prems findall_plain [of s "match_include cpp_head" ?t] match_plain [of s ?t] ih by (simp add: map_filter_simps)
  next
    case (Include_line b1 b2 imp b3 i tail)
    obtain q name e where i: "i = (q, name, e)" by (metis prod.exhaust)
    let ?p = "b1 @ CHR ''#'' # b2 @ (if imp then ''import'' else ''include'') @ b3 @ q # name @ [e]"
    have ok: "cline_ok (Include_line b1 b2 imp b3 (q, name, e) tail)" using Cons.prems Include_line i by simp
    have "findall (match_include cpp_head) True (?p @ tail @ CHR 0x0A # ?t) =
        ([q], name, [e]) # findall (match_include cpp_head) False (tail @ CHR 0x0A # ?t)"
      using findall_match [of "match_include cpp_head" ?p] match_written [OF ok] by blast
    then show ?thesis using ok ih findall_skip [of tail "match_include cpp_head" ?t] by (simp add: Include_line i map_filter_simps)
  qed
qed (simp add: map_filter_simps)

text \<open>Every include that is found has one character for each bracket.\<close>

lemma bracketed_legal: "bracketed s = Some ((a, b, c), r) \<Longrightarrow> length a = 1 \<and> length c = 1"
  by (auto simp: bracketed_def Let_def split: list.splits if_splits)

lemma findall_legal: "i \<in> set (findall (match_include h) bol s) \<Longrightarrow> (case i of (a, b, c) \<Rightarrow> length a = 1 \<and> length c = 1)"
proof (induction "match_include h" bol s rule: findall.induct)
  case (2 bol c cs)
  show ?case
  proof (cases "if bol then match_include h (c # cs) else None")
    case None
    then show ?thesis using 2 by auto
  next
    case (Some a)
    then obtain j n where a: "match_include h (c # cs) = Some (j, n)" "bol" by (cases a) (auto split: if_splits)
    then have "(case j of (a, b, c) \<Rightarrow> length a = 1 \<and> length c = 1)"
      by (auto simp: match_include_def dest: bracketed_legal split: bind_splits)
    moreover have "i = j \<or> i \<in> set (findall (match_include h) False (drop (n - 1) cs))" using 2(3) a by auto
    ultimately show ?thesis using 2(2) [of "(j, n)" j n] a by auto
  qed
qed simp

section \<open>Properties of the classic scanners\<close>

text \<open>The memo of a node, if it is set, holds what its text says.\<close>

definition memo_right :: "(string \<Rightarrow> 'i list) \<Rightarrow> ('i, 'd) snode \<Rightarrow> bool" where
  "memo_right find_names node \<longleftrightarrow> sn_includes node = None \<or> sn_includes node = Some (find_names (sn_text node))"

lemma Classic_scan_eq:
  assumes "memo_right find_names node"
  shows "Classic_scan find_names look key node =
    (node\<lparr>sn_includes := Some (find_names (sn_text node))\<rparr>, scan_nodes look key (find_names (sn_text node)) (sn_dir node))"
  using assms by (cases node) (auto simp: Classic_scan_def memo_right_def Let_def split: option.splits)

lemma C_scan_nodes:
  "scan_nodes look ClassicCPP_sort_key (C_find_include_names text) d =
    (List.map_filter (\<lambda>i. fst (look i d)) (sort_key ClassicCPP_sort_key (C_find_include_names text)),
     map (\<lambda>i. snd (look i d)) (filter (\<lambda>i. fst (look i d) = None) (C_find_include_names text)))"
  by (rule cpp_key.nodes_sorted) (use findall_legal in \<open>auto simp: C_find_include_names_def\<close>)


definition sample_lines :: "cline list" where
  "sample_lines = [Include_line '''' '''' False '' '' (CHR ''<'', ''b.h'', CHR ''>'') '''', Plain_line ''int x;'',
     Include_line '' '' '''' False '' '' (CHR 0x22, ''c.h'', CHR 0x22) '''', Include_line '''' '''' True '' '' (CHR 0x22, ''a.h'', CHR 0x22) '' /* */'']"

definition sample_find :: "string \<Rightarrow> nat list \<Rightarrow> (string \<times> nat) option" where
  "sample_find name dirs = (if name = ''c.h'' then None else Some (name, hd dirs))"


text \<open>The Fortran scanner compares module names as they are written, although the language ignores case.\<close>

lemma F90_case_kept:
  assumes "cre_incl text = []" "cre_use text = [''Foo'']" "cre_def text = [''foo'']"
  shows "F90_names cre_incl cre_use cre_def ''.mod'' text = [''foo.mod'']"
proof -
  have "py_lower ''Foo'' = ''foo''" by code_simp
  then show ?thesis using assms by (simp add: F90_names_def unique_def set_add_def)
qed

text \<open>Otherwise it leaves out exactly the modules of the file itself and names each dependency once.\<close>

lemma F90_names_set:
  "set (F90_names cre_incl cre_use cre_def modsuffix text) =
     set (cre_incl text) \<union> (\<lambda>m. py_lower m @ modsuffix) ` (set (cre_use text) - set (cre_def text)) \<and>
   distinct (F90_names cre_incl cre_use cre_def modsuffix text)"
proof -
  have "distinct (fold set_add xs ys)" if "distinct ys" for xs ys :: "string list"
    using that by (induction xs arbitrary: ys) auto
  then show ?thesis by (auto simp: F90_names_def unique_def Let_def filter_empty_conv)
qed

text \<open>Its dependencies come in the order of their names, wherever they are found.\<close>

lemma F90_scan_sorted:
  assumes "memo_right (F90_names cre_incl cre_use cre_def modsuffix) node"
    "names = F90_names cre_incl cre_use cre_def modsuffix (sn_text node)" "look = (\<lambda>i. find_file i (sn_dir node # path))"
  shows "snd (F90_scan find_file cre_incl cre_use cre_def modsuffix path node) =
    (List.map_filter look (sort names), filter (\<lambda>i. look i = None) names)"
  using name_key.nodes_sorted [of names "Classic_find_include find_file path" "sn_dir node"]
  by (simp add: F90_scan_def Classic_scan_eq [OF assms(1)] assms(2, 3) Classic_find_include_def Classic_sort_key_def [abs_def])

section \<open>Scanner objects\<close>

text \<open>
  A scanner of the class \<open>Base\<close> has a function or a dictionary of scanners for the keys of nodes; functions, checks, classes
  and factories are numbered. \<open>s_check\<close> is \<open>scan_check\<close>; in the class \<open>Current\<close> it is \<open>current_check\<close>.
\<close>

datatype scan_check = No_check | Current_check | User_check nat

datatype recurse = Recurse_none | Recurse_all | Recurse_fun nat

datatype scanner_obj = Scanner (s_function: sfunction) (s_argument: "nat option") (s_skeys: "string list") (s_class: "nat option")
    (s_factory: "nat option") (s_check: scan_check) (s_recurse: recurse)
  | Selector (s_dict: "(string \<times> scanner_obj) list") (s_keys: "string list")
and sfunction = SFun nat | SDict "(string \<times> scanner_obj) list"

text \<open>A dictionary in the order of its keys.\<close>

fun dict_put :: "string \<Rightarrow> 'v \<Rightarrow> (string \<times> 'v) list \<Rightarrow> (string \<times> 'v) list" where
  "dict_put k v [] = [(k, v)]"
| "dict_put k v ((a, b) # d) = (if a = k then (a, v) # d else (a, b) # dict_put k v d)"

text \<open>\<open>__init__\<close> of \<open>Base\<close> and \<open>Selector\<close>, \<open>add_skey\<close>, \<open>select\<close> and \<open>add_scanner\<close>, which fails where the function is no dictionary.\<close>

definition Scanner_init :: "sfunction \<Rightarrow> nat option \<Rightarrow> string list option \<Rightarrow> nat option \<Rightarrow> nat option \<Rightarrow> scan_check \<Rightarrow> recurse \<Rightarrow> scanner_obj" where
  "Scanner_init function argument skeys cls factory check rec =
     Scanner function argument
       (case skeys of Some ks \<Rightarrow> ks | None \<Rightarrow> (case function of SDict d \<Rightarrow> map fst d | SFun _ \<Rightarrow> []))
       cls factory check rec"

definition Selector_init :: "(string \<times> scanner_obj) list \<Rightarrow> scanner_obj" where
  "Selector_init d = Selector d (map fst d)"

definition select :: "scanner_obj \<Rightarrow> string \<Rightarrow> scanner_obj option" where
  "select sc key = (case sc of
       Scanner (SDict d) _ _ _ _ _ _ \<Rightarrow> map_of d key
     | Scanner (SFun _) _ _ _ _ _ _ \<Rightarrow> Some sc
     | Selector d _ \<Rightarrow> map_of d key)"

definition get_skeys :: "scanner_obj \<Rightarrow> string list" where
  "get_skeys sc = (case sc of Scanner _ _ ks _ _ _ _ \<Rightarrow> ks | Selector _ ks \<Rightarrow> ks)"

definition add_scanner :: "string \<Rightarrow> scanner_obj \<Rightarrow> scanner_obj \<Rightarrow> scanner_obj res" where
  "add_scanner skey sub sc = (case sc of
       Scanner (SDict d) a ks c f ch r \<Rightarrow> Inr (Scanner (SDict (dict_put skey sub d)) a (ks @ [skey]) c f ch r)
     | Scanner (SFun _) _ _ _ _ _ _ \<Rightarrow> Inl TypeError
     | Selector d ks \<Rightarrow> Inr (Selector (dict_put skey sub d) (ks @ [skey])))"

text \<open>What a scanner function returns, and what calling it needs of its surroundings.\<close>

datatype 'n sresult = RName string | RNode 'n

record 'n scan_world =
  sw_call :: "nat \<Rightarrow> 'n \<Rightarrow> nat option \<Rightarrow> 'n sresult list res"
  sw_check :: "nat \<Rightarrow> 'n \<Rightarrow> bool"
  sw_has_builder :: "'n \<Rightarrow> bool"
  sw_up_to_date :: "'n \<Rightarrow> bool"
  sw_instance :: "nat \<Rightarrow> 'n \<Rightarrow> bool"
  sw_make :: "nat option \<Rightarrow> 'n \<Rightarrow> 'n sresult \<Rightarrow> 'n res"
  sw_key :: "'n \<Rightarrow> string"
  sw_filter :: "nat \<Rightarrow> 'n list \<Rightarrow> 'n list"

definition check_holds :: "'n scan_world \<Rightarrow> scan_check \<Rightarrow> 'n \<Rightarrow> bool" where
  "check_holds W c node = (case c of
       No_check \<Rightarrow> True
     | Current_check \<Rightarrow> \<not> sw_has_builder W node \<or> sw_up_to_date W node
     | User_check k \<Rightarrow> sw_check W k node)"

text \<open>The loop of \<open>Base.__call__\<close> that turns names into nodes with the factory. Without a class the results are kept.\<close>

fun to_nodes :: "'n scan_world \<Rightarrow> nat option \<Rightarrow> nat option \<Rightarrow> 'n \<Rightarrow> 'n sresult list \<Rightarrow> 'n sresult list \<Rightarrow> 'n sresult list res" where
  "to_nodes W cls factory node [] nodes = Inr nodes"
| "to_nodes W cls factory node (l # ls) nodes =
     (if (case cls of None \<Rightarrow> True | Some k \<Rightarrow> (case l of RNode n \<Rightarrow> sw_instance W k n | RName _ \<Rightarrow> False))
      then to_nodes W cls factory node ls (nodes @ [l])
      else res_bind (sw_make W factory node l) (\<lambda>n. to_nodes W cls factory node ls (nodes @ [RNode n])))"

text \<open>
  \<open>Base.__call__\<close> and \<open>Selector.__call__\<close>. The scanner that was selected is not asked to select again, and its own check
  is skipped by \<open>Base\<close> but not by \<open>Selector\<close>.
\<close>

definition run_scanner :: "'n scan_world \<Rightarrow> scanner_obj option \<Rightarrow> 'n \<Rightarrow> 'n sresult list res" where
  "run_scanner W sc node = (case sc of
       Some (Scanner (SFun k) a _ c f _ _) \<Rightarrow> res_bind (sw_call W k node a) (\<lambda>ls. to_nodes W c f node ls [])
     | Some (Scanner (SDict _) _ _ _ _ _ _) \<Rightarrow> Inl TypeError
     | Some (Selector _ _) \<Rightarrow> Inl TypeError
     | None \<Rightarrow> Inl AttributeError)"

definition base_call :: "'n scan_world \<Rightarrow> scanner_obj \<Rightarrow> 'n \<Rightarrow> 'n sresult list res" where
  "base_call W sc node =
     (if \<not> check_holds W (s_check sc) node then Inr [] else run_scanner W (select sc (sw_key W node)) node)"

function scanner_call :: "'n scan_world \<Rightarrow> scanner_obj \<Rightarrow> 'n \<Rightarrow> 'n sresult list res" where
  "scanner_call W (Scanner fn a ks c f ch r) node = base_call W (Scanner fn a ks c f ch r) node"
| "scanner_call W (Selector d ks) node = (case map_of d (sw_key W node) of
       None \<Rightarrow> Inl TypeError
     | Some sc \<Rightarrow> scanner_call W sc node)"
  by pat_completeness auto
termination
proof (relation "measure (\<lambda>(W, sc, node). size sc)")
  fix W :: "'n scan_world" and d :: "(string \<times> scanner_obj) list" and ks node sc
  assume "map_of d (sw_key W node) = Some sc"
  then have "(sw_key W node, sc) \<in> set d" by (rule map_of_SomeD)
  then show "((W, sc, node), W, Selector d ks, node) \<in> measure (\<lambda>(W, sc, node). size sc)"
    by (induction d) auto
qed simp

definition recurse_nodes :: "'n scan_world \<Rightarrow> scanner_obj \<Rightarrow> 'n list \<Rightarrow> 'n list" where
  "recurse_nodes W sc nodes = (case sc of
       Scanner _ _ _ _ _ _ Recurse_all \<Rightarrow> nodes
     | Scanner _ _ _ _ _ _ (Recurse_fun k) \<Rightarrow> sw_filter W k nodes
     | _ \<Rightarrow> [])"

lemma map_of_dict_put: "map_of (dict_put k v d) = (map_of d)(k \<mapsto> v)"
  by (induction k v d rule: dict_put.induct) (auto simp: fun_eq_iff)

text \<open>
  After \<open>add_scanner\<close> the key selects the new scanner and every other key what it selected before; the scanner lists the key.
\<close>

lemma add_scanner_select:
  assumes "add_scanner skey sub sc = Inr sc'"
  shows "select sc' key = (if key = skey then Some sub else select sc key)" "get_skeys sc' = get_skeys sc @ [skey]"
  using assms by (auto simp: add_scanner_def select_def get_skeys_def map_of_dict_put split: scanner_obj.splits sfunction.splits)

text \<open>
  A node whose key is not in the dictionary is not left alone: the call fails, of \<open>Base\<close> with \<open>AttributeError\<close>
  and of \<open>Selector\<close> with \<open>TypeError\<close>.
\<close>

lemma unknown_key_raises:
  assumes "map_of d (sw_key W node) = None"
  shows "scanner_call W (Scanner (SDict d) a ks c f No_check r) node = Inl AttributeError"
    "scanner_call W (Selector d ks) node = Inl TypeError"
  using assms by (simp_all add: base_call_def check_holds_def run_scanner_def select_def)

text \<open>A derived file that is not up to date is not scanned by a scanner of the class \<open>Current\<close>.\<close>

lemma current_not_scanned:
  assumes "sw_has_builder W node" "\<not> sw_up_to_date W node"
  shows "scanner_call W (Scanner fn a ks c f Current_check r) node = Inr []"
  using assms by (simp add: base_call_def check_holds_def)

text \<open>Each result becomes a node of the class: it is kept, or it is what the factory makes of it.\<close>

definition node_for :: "'n scan_world \<Rightarrow> nat \<Rightarrow> nat option \<Rightarrow> 'n \<Rightarrow> 'n sresult \<Rightarrow> 'n sresult \<Rightarrow> bool" where
  "node_for W k factory node l n \<longleftrightarrow>
     (if \<exists>m. l = RNode m \<and> sw_instance W k m then n = l else \<exists>x. sw_make W factory node l = Inr x \<and> n = RNode x)"

lemma to_nodes_eq:
  assumes "to_nodes W (Some k) factory node ls nodes = Inr r"
  shows "\<exists>ns. r = nodes @ ns \<and> list_all2 (node_for W k factory node) ls ns"
  using assms
proof (induction W "Some k" factory node ls nodes rule: to_nodes.induct)
  case (2 W factory node l ls nodes)
  have c: "(case l of RNode n \<Rightarrow> sw_instance W k n | RName _ \<Rightarrow> False) \<longleftrightarrow> (\<exists>m. l = RNode m \<and> sw_instance W k m)" by (cases l) auto
  obtain n where n: "node_for W k factory node l n" and t: "\<exists>ns. r = (nodes @ [n]) @ ns \<and> list_all2 (node_for W k factory node) ls ns"
  proof (cases "\<exists>m. l = RNode m \<and> sw_instance W k m")
    case True
    then show ?thesis using that [of l] 2(1, 3) c by (simp add: node_for_def)
  next
    case False
    then obtain x where x: "sw_make W factory node l = Inr x" and t: "to_nodes W (Some k) factory node ls (nodes @ [RNode x]) = Inr r"
      using 2(3) c by (auto simp: res_bind_eq_Inr)
    have "\<exists>ns. r = (nodes @ [RNode x]) @ ns \<and> list_all2 (node_for W k factory node) ls ns"
      by (rule 2(2) [OF _ t]) (use False c in simp)
    then show ?thesis using that [of "RNode x"] False x by (simp add: node_for_def)
  qed
  then show ?case by (metis append.assoc append_Cons append_Nil list_all2_Cons)
qed simp

end
