(* ===== verification/ScanPath.thy ===== *)
theory ScanPath
  imports Scan
begin

text \<open>
  Search paths (\<open>SCons/PathList.py\<close>): the digested form of a path variable, its expansion for a target, and the
  cache of digested lists; and the scanner for the libraries of a program (\<open>SCons/Scanner/Prog.py\<close>).
\<close>

section \<open>Path lists\<close>

text \<open>
  The value of a path variable: a string, a nested sequence or another object. The key of the cache is the value with
  sequences flattened, and \<open>_PathList\<close> is called with it.
\<close>

datatype 'o pelem = PEStr string | PEObj 'o

datatype 'o plarg = PLStr string | PLSeq "'o pelem pyseq list" | PLObj 'o

datatype 'o plkey = KStr string | KSeq "'o pelem list" | KObj 'o

datatype ptype = TYPE_STRING_NO_SUBST | TYPE_STRING_SUBST | TYPE_OBJECT

definition PathList_key :: "'o plarg \<Rightarrow> 'o plkey" where
  "PathList_key pathlist = (case pathlist of
       PLStr s \<Rightarrow> KStr s
     | PLSeq items \<Rightarrow> KSeq (flatten (Sequence items))
     | PLObj x \<Rightarrow> KObj x)"

definition elem_type :: "'o pelem \<Rightarrow> ptype" where
  "elem_type p = (case p of
       PEObj _ \<Rightarrow> TYPE_OBJECT
     | PEStr s \<Rightarrow> if CHR ''$'' \<in> set s then TYPE_STRING_SUBST else TYPE_STRING_NO_SUBST)"

definition PathList_init :: "'o plkey \<Rightarrow> (ptype \<times> 'o pelem) list" where
  "PathList_init key = map (\<lambda>p. (elem_type p, p)) (case key of
       KStr s \<Rightarrow> map PEStr (py_split '':'' s)
     | KSeq items \<Rightarrow> items
     | KObj x \<Rightarrow> [PEObj x])"

text \<open>The values of an expanded path: strings, nodes, and sequences, which \<open>subst\<close> with \<open>node_conv\<close> can give.\<close>

datatype 'o pval = QStr string | QObj 'o | QSeq "'o pval list"

definition truth :: "'o pval \<Rightarrow> bool" where
  "truth v = (case v of QStr s \<Rightarrow> s \<noteq> '''' | QObj _ \<Rightarrow> True | QSeq vs \<Rightarrow> vs \<noteq> [])"

definition subst_elem :: "(string \<Rightarrow> 'o pval) \<Rightarrow> ('o \<Rightarrow> 'o pval) \<Rightarrow> ptype \<times> 'o pelem \<Rightarrow> 'o pval list" where
  "subst_elem subst node_conv = (\<lambda>(t, value). case value of
       PEStr s \<Rightarrow>
         (if t = TYPE_STRING_SUBST
          then (case subst s of QSeq vs \<Rightarrow> vs | v \<Rightarrow> if truth v then [v] else [])
          else if s \<noteq> '''' then [QStr s] else [])
     | PEObj x \<Rightarrow> if truth (node_conv x) then [node_conv x] else [])"

fun subst_loop :: "(string \<Rightarrow> 'o pval) \<Rightarrow> ('o \<Rightarrow> 'o pval) \<Rightarrow> (ptype \<times> 'o pelem) list \<Rightarrow> 'o pval list \<Rightarrow> 'o pval list" where
  "subst_loop subst node_conv [] result = result"
| "subst_loop subst node_conv (p # ps) result = subst_loop subst node_conv ps (result @ subst_elem subst node_conv p)"

definition subst_path :: "(string \<Rightarrow> 'o pval) \<Rightarrow> ('o \<Rightarrow> 'o pval) \<Rightarrow> (ptype \<times> 'o pelem) list \<Rightarrow> 'o pval list" where
  "subst_path subst node_conv pl = subst_loop subst node_conv pl []"

text \<open>\<open>PathListCache.PathList\<close> with its dictionary, and a series of calls.\<close>

type_synonym 'o pl_memo = "'o plkey \<rightharpoonup> (ptype \<times> 'o pelem) list"

definition PathList :: "'o plarg \<Rightarrow> 'o pl_memo \<Rightarrow> 'o pl_memo \<times> (ptype \<times> 'o pelem) list" where
  "PathList pathlist memo =
     (let key = PathList_key pathlist
      in case memo key of
           Some r \<Rightarrow> (memo, r)
         | None \<Rightarrow> (let result = PathList_init key in (memo(key \<mapsto> result), result)))"

fun PathList_calls :: "'o plarg list \<Rightarrow> 'o pl_memo \<Rightarrow> (ptype \<times> 'o pelem) list list" where
  "PathList_calls [] memo = []"
| "PathList_calls (a # as) memo = (let (memo1, r) = PathList a memo in r # PathList_calls as memo1)"

text \<open>\<open>FindPathDirs.__call__\<close>; the environment and \<open>Rfindalldirs\<close> of the directory are arguments.\<close>

definition FindPathDirs_call :: "(string \<Rightarrow> 'o plarg option) \<Rightarrow> (string \<Rightarrow> 'o pval) \<Rightarrow> ('o \<Rightarrow> 'o pval) \<Rightarrow> ('d \<Rightarrow> 'o pval list \<Rightarrow> 'd list) \<Rightarrow>
    'd \<Rightarrow> string \<Rightarrow> 'd option \<Rightarrow> 'o pl_memo \<Rightarrow> 'o pl_memo \<times> 'd list" where
  "FindPathDirs_call env subst node_conv rdirs cwd variable dir memo = (case env variable of
       None \<Rightarrow> (memo, [])
     | Some path \<Rightarrow>
         (let d = (case dir of Some x \<Rightarrow> x | None \<Rightarrow> cwd); (memo1, pl) = PathList path memo
          in (memo1, rdirs d (subst_path subst node_conv pl))))"

section \<open>Libraries of a program\<close>

definition as_list :: "(string + string list) option \<Rightarrow> string list" where
  "as_list v = (case v of None \<Rightarrow> [''''] | Some (Inl s) \<Rightarrow> [s] | Some (Inr l) \<Rightarrow> l)"

definition ix_pairs :: "(string \<Rightarrow> string) \<Rightarrow> string list \<Rightarrow> string list \<Rightarrow> (string \<times> string) list" where
  "ix_pairs subst pres sufs =
     concat (map (\<lambda>suf. map (\<lambda>pref. (pref, suf)) (map subst pres)) (map subst sufs))"

fun lib_files :: "(string \<Rightarrow> 'd list \<Rightarrow> 'o option) \<Rightarrow> 'd list \<Rightarrow> string \<Rightarrow> (string \<times> string) list \<Rightarrow> 'o list \<Rightarrow> 'o list" where
  "lib_files find_file libpath lib [] result = result"
| "lib_files find_file libpath lib ((pref, suf) # ps) result =
     lib_files find_file libpath lib ps (case find_file (adjustixes lib pref suf False) libpath of
         Some l \<Rightarrow> result @ [l]
       | None \<Rightarrow> result)"

fun prog_loop :: "(string \<Rightarrow> string) \<Rightarrow> (string \<Rightarrow> 'd list \<Rightarrow> 'o option) \<Rightarrow> 'd list \<Rightarrow> (string \<times> string) list \<Rightarrow> 'o pelem list \<Rightarrow> 'o list \<Rightarrow> 'o list" where
  "prog_loop subst find_file libpath pairs [] result = result"
| "prog_loop subst find_file libpath pairs (PEStr lib # libs) result =
     prog_loop subst find_file libpath pairs libs (lib_files find_file libpath (subst lib) pairs result)"
| "prog_loop subst find_file libpath pairs (PEObj x # libs) result =
     prog_loop subst find_file libpath pairs libs (result @ [x])"

definition Prog_scan :: "(string \<Rightarrow> string) \<Rightarrow> (string \<Rightarrow> 'd list \<Rightarrow> 'o option) \<Rightarrow> 'o plarg option \<Rightarrow> (string + string list) option \<Rightarrow>
    (string + string list) option \<Rightarrow> 'd list \<Rightarrow> 'o list" where
  "Prog_scan subst find_file LIBS LIBPREFIXES LIBSUFFIXES libpath = (case LIBS of
       None \<Rightarrow> []
     | Some v \<Rightarrow>
         (let libs = (case v of
                PLStr s \<Rightarrow> map PEStr (split_ws s)
              | PLSeq items \<Rightarrow> flatten (Sequence items)
              | PLObj x \<Rightarrow> [PEObj x])
          in prog_loop subst find_file libpath (ix_pairs subst (as_list LIBPREFIXES) (as_list LIBSUFFIXES)) libs []))"

section \<open>Properties\<close>

lemma subst_path_concat: "subst_path subst node_conv pl = concat (map (subst_elem subst node_conv) pl)"
proof -
  have "subst_loop subst node_conv pl r = r @ concat (map (subst_elem subst node_conv) pl)" for r
    by (induction subst node_conv pl r rule: subst_loop.induct) auto
  then show ?thesis by (simp add: subst_path_def)
qed

definition memo_fresh :: "'o pl_memo \<Rightarrow> bool" where
  "memo_fresh memo \<longleftrightarrow> (\<forall>k r. memo k = Some r \<longrightarrow> r = PathList_init k)"

lemma PathList_fresh:
  assumes "memo_fresh memo"
  shows "memo_fresh (fst (PathList a memo)) \<and> snd (PathList a memo) = PathList_init (PathList_key a)"
  using assms by (auto simp: PathList_def memo_fresh_def Let_def split: option.splits)

text \<open>The cache is not visible: every call gives what digesting its argument gives, whatever was asked before.\<close>

lemma PathList_cache: "PathList_calls as (\<lambda>_. None) = map (\<lambda>a. PathList_init (PathList_key a)) as"
proof -
  have "memo_fresh memo \<Longrightarrow> PathList_calls as memo = map (\<lambda>a. PathList_init (PathList_key a)) as" for memo :: "'a pl_memo"
    by (induction as arbitrary: memo) (simp_all add: PathList_fresh case_prod_beta)
  then show ?thesis by (simp add: memo_fresh_def)
qed

text \<open>A string with colons and the list of its parts, however nested, are digested alike although their keys differ.\<close>

lemma PathList_string_or_list:
  "snd (PathList (PLStr s) (\<lambda>_. None)) = snd (PathList (PLSeq items) (\<lambda>_. None)) \<longleftrightarrow>
     leaves (Sequence items) = map PEStr (py_split '':'' s)"
proof -
  have i: "map (\<lambda>p. (elem_type p, p)) xs = map (\<lambda>p. (elem_type p, p)) ys \<longleftrightarrow> xs = ys" for xs ys :: "'o pelem list"
    by (rule inj_map_eq_map) (simp add: inj_def)
  show ?thesis using i [of "map PEStr (py_split '':'' s)" "leaves (Sequence items)"]
    by (auto simp: PathList_def PathList_key_def PathList_init_def flatten_correct Let_def)
qed

text \<open>
  The libraries of a program: for each library, in order, the files found with the pairs of suffixes and prefixes in order,
  or the library itself if it is a node.
\<close>

lemma lib_files_eq:
  "lib_files find_file libpath lib ps result =
     result @ List.map_filter (\<lambda>(pref, suf). find_file (adjustixes lib pref suf False) libpath) ps"
  by (induction find_file libpath lib ps result rule: lib_files.induct) (auto simp: map_filter_simps split: option.splits)

lemma prog_loop_eq:
  "prog_loop subst find_file libpath pairs libs result = result @ concat (map (\<lambda>lib. case lib of
       PEStr s \<Rightarrow> List.map_filter (\<lambda>(pref, suf). find_file (adjustixes (subst s) pref suf False) libpath) pairs
     | PEObj x \<Rightarrow> [x]) libs)"
  by (induction subst find_file libpath pairs libs result rule: prog_loop.induct) (auto simp: lib_files_eq)

lemma Prog_scan_libraries:
  assumes "s \<in> set (split_ws libs)" "pref \<in> set (as_list P)" "suf \<in> set (as_list S)"
    "find_file (adjustixes (subst s) (subst pref) (subst suf) False) libpath = Some n"
  shows "n \<in> set (Prog_scan subst find_file (Some (PLStr libs)) P S libpath)"
proof -
  have "(subst pref, subst suf) \<in> set (ix_pairs subst (as_list P) (as_list S))" using assms(2, 3) by (auto simp: ix_pairs_def)
  then have "n \<in> set (List.map_filter (\<lambda>(pref, suf). find_file (adjustixes (subst s) pref suf False) libpath) (ix_pairs subst (as_list P) (as_list S)))"
    using assms(4) by (force simp: map_filter_def)
  then show ?thesis using assms(1) by (force simp: Prog_scan_def prog_loop_eq)
qed

end
