(* ===== verification/FsNode.thy ===== *)
theory FsNode
  imports Paths "HOL-Library.AList"
begin

text \<open>
  The nodes of \<open>SCons/Node/FS.py\<close>: the classes \<open>Entry\<close>, \<open>Dir\<close>, \<open>File\<close> and \<open>RootDir\<close>, the table
  of the root directory in which every path has its node, and the look-up of paths, which creates nodes and
  turns entries into files or directories. On POSIX systems there is one root, and
  \<open>_my_normcase\<close> is the identity.
\<close>

section \<open>Nodes\<close>

datatype fsclass = Entry | Dir | File | RootDir

type_synonym fsid = nat

text \<open>What \<open>os.stat\<close> tells: the kind of the object, its modification time and its size.\<close>

datatype fskind = SReg | SDir | SOther

record fstat =
  st_kind :: fskind
  st_mtime :: int
  st_size :: int

text \<open>The builder of a node: the one directories share, or one that was set.\<close>

datatype fbuilder = MkdirBuilder | UserBuilder nat

text \<open>
  A node refers to other nodes by their numbers. \<open>f_entries\<close>, \<open>f_srcdir\<close>, \<open>f_repositories\<close> and
  \<open>f_variant_dirs\<close> are attributes of directories; the \<open>f_memo\<close> fields are the keys of \<open>_memo\<close>.
\<close>

record fsnode =
  f_class :: fsclass
  f_name :: string
  f_suffix :: string
  f_abspath :: string
  f_labspath :: string
  f_path :: string
  f_tpath :: string
  f_elements :: "fsid list"
  f_dir :: fsid
  f_cwd :: "fsid option"
  f_duplicate :: bool
  f_implicit :: "fsid list option"
  f_builder :: "fbuilder option"
  f_target_decider :: bool
  f_entries :: "(string \<times> fsid) list"
  f_srcdir :: "fsid option"
  f_repositories :: "fsid list"
  f_variant_dirs :: "fsid list"
  f_memo_stat :: "fstat option option"
  f_memo_rdirs :: "fsid list option"
  f_memo_srcdirs :: "fsid list option"

text \<open>
  The \<open>FS\<close> object. \<open>_lookupDict\<close> belongs to the only root; \<open>fs_disk\<close> is what \<open>os.stat\<close> finds,
  and \<open>fs_match\<close> tells whether the disk checker of type \<open>match\<close> is set.
\<close>

record fsys =
  fs_nodes :: "fsnode list"
  fs_lookupDict :: "string \<rightharpoonup> fsid"
  fs_Root :: "fsid option"
  fs_Top :: "fsid option"
  fs_cwd :: "fsid option"
  fs_disk :: "string \<Rightarrow> fstat option"
  fs_match :: bool

abbreviation fsnode_of :: "fsys \<Rightarrow> fsid \<Rightarrow> fsnode" where
  "fsnode_of s n \<equiv> fs_nodes s ! n"

abbreviation fsize :: "fsys \<Rightarrow> nat" where
  "fsize s \<equiv> length (fs_nodes s)"

definition upd_fsnode :: "fsid \<Rightarrow> (fsnode \<Rightarrow> fsnode) \<Rightarrow> fsys \<Rightarrow> fsys" where
  "upd_fsnode n f s = s\<lparr>fs_nodes := (fs_nodes s)[n := f (fsnode_of s n)]\<rparr>"

text \<open>\<open>isinstance(node, klass)\<close>; \<open>RootDir\<close> is a subclass of \<open>Dir\<close>.\<close>

fun instance_of :: "fsclass \<Rightarrow> fsclass \<Rightarrow> bool" where
  "instance_of RootDir k = (k = RootDir \<or> k = Dir)"
| "instance_of c k = (c = k)"

definition is_dir :: "fsys \<Rightarrow> fsid \<Rightarrow> bool" where
  "is_dir s n \<longleftrightarrow> instance_of (f_class (fsnode_of s n)) Dir"

section \<open>Paths of entries\<close>

text \<open>The methods \<open>entry_abspath\<close>, \<open>entry_labspath\<close>, \<open>entry_path\<close>, \<open>entry_tpath\<close> of \<open>Dir\<close> and \<open>RootDir\<close>.\<close>

definition entry_abspath :: "fsnode \<Rightarrow> string \<Rightarrow> string" where
  "entry_abspath d name = (if f_class d = RootDir then f_abspath d @ name else f_abspath d @ ''/'' @ name)"

definition entry_labspath :: "fsnode \<Rightarrow> string \<Rightarrow> string" where
  "entry_labspath d name = (if f_class d = RootDir then ''/'' @ name else f_labspath d @ ''/'' @ name)"

definition entry_path :: "fsnode \<Rightarrow> string \<Rightarrow> string" where
  "entry_path d name = (if f_class d = RootDir then f_path d @ name else f_path d @ ''/'' @ name)"

definition entry_tpath :: "fsnode \<Rightarrow> string \<Rightarrow> string" where
  "entry_tpath d name = (if f_class d = RootDir then f_tpath d @ name else f_tpath d @ ''/'' @ name)"

section \<open>Making and changing nodes\<close>

text \<open>\<open>Base.__init__\<close> for the node \<open>n\<close> with the directory \<open>d\<close>.\<close>

definition FsBase_init :: "fsclass \<Rightarrow> string \<Rightarrow> fsid \<Rightarrow> fsnode \<Rightarrow> fsid \<Rightarrow> fsnode" where
  "FsBase_init k name d dn n = \<lparr>
     f_class = k, f_name = name, f_suffix = snd (posix_splitext name),
     f_abspath = entry_abspath dn name, f_labspath = entry_labspath dn name,
     f_path = (if f_path dn = ''.'' then name else entry_path dn name),
     f_tpath = (if f_tpath dn = ''.'' then name else entry_tpath dn name),
     f_elements = f_elements dn @ [n], f_dir = d, f_cwd = None, f_duplicate = f_duplicate dn,
     f_implicit = None, f_builder = None, f_target_decider = False,
     f_entries = [], f_srcdir = None, f_repositories = [], f_variant_dirs = [],
     f_memo_stat = None, f_memo_rdirs = None, f_memo_srcdirs = None\<rparr>"

text \<open>\<open>_morph\<close> of \<open>Dir\<close> and of \<open>File\<close>.\<close>

definition Dir_morph :: "fsid \<Rightarrow> fsnode \<Rightarrow> fsnode" where
  "Dir_morph n x = x\<lparr>f_repositories := [], f_srcdir := None,
     f_entries := AList.update ''..'' (f_dir x) (AList.update ''.'' n []),
     f_cwd := Some n, f_variant_dirs := [], f_builder := Some MkdirBuilder\<rparr>"

definition File_morph :: "fsnode \<Rightarrow> fsnode" where
  "File_morph x = (if f_builder x \<noteq> None then x\<lparr>f_target_decider := True\<rparr> else x)"

definition fs_morph :: "fsid \<Rightarrow> fsnode \<Rightarrow> fsnode" where
  "fs_morph n x = (case f_class x of File \<Rightarrow> File_morph x | Entry \<Rightarrow> x | _ \<Rightarrow> Dir_morph n x)"

text \<open>The part of \<open>Node.clear\<close> that concerns the memo of a node.\<close>

definition fs_clear :: "fsnode \<Rightarrow> fsnode" where
  "fs_clear x = x\<lparr>f_memo_stat := None, f_memo_rdirs := None, f_memo_srcdirs := None\<rparr>"

text \<open>The constructors \<open>Entry\<close>, \<open>Dir\<close> and \<open>File\<close>; that of \<open>RootDir\<close> has other arguments.\<close>

definition new_fsnode :: "fsclass \<Rightarrow> string \<Rightarrow> fsid \<Rightarrow> fsys \<Rightarrow> fsnode" where
  "new_fsnode k name d s = (let n = fsize s in fs_morph n (FsBase_init k name d (fsnode_of s d) n))"

text \<open>\<open>RootDir.__init__\<close>: while \<open>Base.__init__\<close> runs, the node is its own directory with empty paths.\<close>

definition RootDir_init :: "fsid \<Rightarrow> fsnode" where
  "RootDir_init n =
     (let x0 = \<lparr>f_class = RootDir, f_name = '''', f_suffix = '''', f_abspath = '''', f_labspath = '''', f_path = '''',
            f_tpath = '''', f_elements = [], f_dir = n, f_cwd = None, f_duplicate = False, f_implicit = None,
            f_builder = None, f_target_decider = False, f_entries = [], f_srcdir = None, f_repositories = [],
            f_variant_dirs = [], f_memo_stat = None, f_memo_rdirs = None, f_memo_srcdirs = None\<rparr>;
          x1 = FsBase_init RootDir '''' n x0 n
      in Dir_morph n (x1\<lparr>f_abspath := ''/'', f_labspath := '''', f_path := ''/'', f_tpath := ''/''\<rparr>))"

definition get_root :: "fsys \<Rightarrow> fsys \<times> fsid" where
  "get_root s = (case fs_Root s of
       Some r \<Rightarrow> (s, r)
     | None \<Rightarrow> (let n = fsize s
         in (s\<lparr>fs_nodes := fs_nodes s @ [RootDir_init n], fs_Root := Some n,
               fs_lookupDict := [''''\<mapsto> n, ''/'' \<mapsto> n, ''//'' \<mapsto> n]\<rparr>, n)))"

text \<open>\<open>must_be_same\<close> of \<open>Base\<close>, \<open>Entry\<close> and \<open>RootDir\<close>.\<close>

definition must_be_same :: "fsclass \<Rightarrow> fsid \<Rightarrow> fsys \<Rightarrow> fsys \<times> unit res" where
  "must_be_same k n s = (case f_class (fsnode_of s n) of
       Entry \<Rightarrow>
         (if k \<noteq> Entry then (upd_fsnode n (\<lambda>x. fs_clear (fs_morph n (x\<lparr>f_class := k\<rparr>))) s, Inr ())
          else (s, Inr ()))
     | c \<Rightarrow> (s, if instance_of c k \<or> k = Entry then Inr () else Inl TypeError))"

section \<open>Checks on the disk\<close>

text \<open>\<open>stat\<close>, \<open>isdir\<close> and \<open>isfile\<close> of a node, with the memo.\<close>

definition fs_stat :: "fsys \<Rightarrow> fsnode \<Rightarrow> fsnode \<times> fstat option" where
  "fs_stat s x = (case f_memo_stat x of
       Some r \<Rightarrow> (x, r)
     | None \<Rightarrow> (x\<lparr>f_memo_stat := Some (fs_disk s (f_abspath x))\<rparr>, fs_disk s (f_abspath x)))"

definition is_kind :: "fskind \<Rightarrow> fstat option \<Rightarrow> bool" where
  "is_kind k st = (case st of None \<Rightarrow> False | Some r \<Rightarrow> st_kind r = k)"

text \<open>\<open>do_diskcheck_match\<close>, which forgets that nothing was found.\<close>

definition do_diskcheck_match :: "fskind \<Rightarrow> fsys \<Rightarrow> fsnode \<Rightarrow> fsnode res" where
  "do_diskcheck_match k s x =
     (let (x1, r) = fs_stat s x;
          x2 = (if f_memo_stat x1 = Some None then x1\<lparr>f_memo_stat := None\<rparr> else x1)
      in if is_kind k r then Inl TypeError else Inr x2)"

definition diskcheck_match :: "fsys \<Rightarrow> fsnode \<Rightarrow> fsnode res" where
  "diskcheck_match s x = (case f_class x of
       Entry \<Rightarrow> Inr x
     | File \<Rightarrow> if fs_match s then do_diskcheck_match SDir s x else Inr x
     | _ \<Rightarrow> if fs_match s then do_diskcheck_match SReg s x else Inr x)"

section \<open>Look-up\<close>

text \<open>The end of \<open>_lookup_abs\<close> where the path is new: the node is made, checked and entered.\<close>

definition add_fsnode :: "string \<Rightarrow> string \<Rightarrow> fsid \<Rightarrow> fsclass \<Rightarrow> fsys \<Rightarrow> fsys \<times> fsid res" where
  "add_fsnode p name d k s =
     (if k = RootDir then (s, Inl TypeError)
      else case diskcheck_match s (new_fsnode k name d s) of
          Inl e \<Rightarrow> (s, Inl e)
        | Inr x \<Rightarrow>
            (let n = fsize s
             in (upd_fsnode d (\<lambda>y. y\<lparr>f_entries := AList.update name n (f_entries y), f_implicit := None\<rparr>)
                   (s\<lparr>fs_nodes := fs_nodes s @ [x], fs_lookupDict := (fs_lookupDict s)(p \<mapsto> n)\<rparr>), Inr n)))"

lemma length_fst_path_split: "fst (path_split p) \<noteq> p \<Longrightarrow> length (fst (path_split p)) < length p"
proof -
  assume ne: "fst (path_split p) \<noteq> p"
  define i where "i = nat (rfind p slash + 1)"
  have le: "length (dropWhile ((=) slash) (rev (take i p))) \<le> length (take i p)"
    by (metis length_dropWhile_le length_rev)
  have "length (fst (path_split p)) \<le> length p"
    using le by (auto simp: path_split_def Let_def i_def [symmetric] min_def split: if_splits)
  moreover have "length (fst (path_split p)) = length p \<Longrightarrow> fst (path_split p) = p"
  proof -
    assume l: "length (fst (path_split p)) = length p"
    have i: "length p \<le> i" using l le by (auto simp: path_split_def Let_def i_def [symmetric] split: if_splits)
    show ?thesis
    proof (cases "dropWhile ((=) slash) (rev p) = rev p")
      case False
      then have "length (dropWhile ((=) slash) (rev p)) < length p"
        by (cases "rev p") (auto simp: le_imp_less_Suc length_dropWhile_le split: if_splits dest: arg_cong [of _ _ length])
      with l i show ?thesis by (auto simp: path_split_def Let_def i_def [symmetric] split: if_splits)
    qed (use i in \<open>auto simp: path_split_def Let_def i_def [symmetric]\<close>)
  qed
  ultimately show ?thesis using ne by linarith
qed

text \<open>
  \<open>RootDir._lookup_abs\<close>. A path of three or more slashes is its own head: the recursion of the code
  ends with Python's recursion limit.
\<close>

definition no_such_node :: "string \<Rightarrow> py_exc" where
  "no_such_node p = UserError (''No such file or directory: '' @ [CHR 0x27] @ p @ [CHR 0x27] @ '' in '' @ [CHR 0x27] @
     ''/'' @ [CHR 0x27] @ '' (and create is False)'')"

text \<open>The branch of a known path: the node, if it has the class that is asked for.\<close>

definition same_class_node :: "fsclass \<Rightarrow> fsid \<Rightarrow> fsys \<Rightarrow> fsys \<times> fsid res" where
  "same_class_node k n s = (case must_be_same k n s of (s1, Inl e) \<Rightarrow> (s1, Inl e) | (s1, Inr _) \<Rightarrow> (s1, Inr n))"

function lookup_abs :: "string \<Rightarrow> fsclass \<Rightarrow> bool \<Rightarrow> fsys \<Rightarrow> fsys \<times> fsid res" where
  "lookup_abs p k create s = (case fs_lookupDict s p of
       Some n \<Rightarrow> same_class_node k n s
     | None \<Rightarrow>
         (if \<not> create then (s, Inl (no_such_node p))
          else if fst (path_split p) = p then (s, Inl (OtherError ''RuntimeError'' ''maximum recursion depth exceeded''))
          else case lookup_abs (fst (path_split p)) Dir True s of
              (s1, Inl e) \<Rightarrow> (s1, Inl e)
            | (s1, Inr d) \<Rightarrow> add_fsnode p (snd (path_split p)) d k s1))"
  by pat_completeness auto
termination
  by (relation "measure (\<lambda>(p, k, create, s). length p)") (simp_all add: length_fst_path_split)

declare lookup_abs.simps [simp del]

text \<open>
  \<open>needs_normpath_check\<close>, the expression \<open>.*/|\.$|\.\.$\<close>: the dot does not match a line break, and
  the dollar sign matches before one at the end.
\<close>

definition needs_normpath :: "string \<Rightarrow> bool" where
  "needs_normpath p \<longleftrightarrow> slash \<in> set (takeWhile (\<lambda>c. c \<noteq> CHR 0x0A) p) \<or>
     p \<in> set [''.'', ''..'', ''.'' @ [CHR 0x0A], ''..'' @ [CHR 0x0A]]"

text \<open>
  The path that \<open>FS._lookup\<close> hands on, for the string \<open>p\<close> without its hash sign; \<open>base\<close> is the
  attribute \<open>labspath\<close> of the directory.
\<close>

definition lookup_path :: "string \<Rightarrow> bool \<Rightarrow> string \<Rightarrow> string" where
  "lookup_path base initial_hash p =
     (let q = (if initial_hash \<or> \<not> isabs p then (if p \<noteq> '''' then base @ ''/'' @ p else base) else p)
      in if needs_normpath p then normpath q else q)"

text \<open>The argument of a look-up is a node or a string.\<close>

datatype fsarg = FNode fsid | FStr string

text \<open>
  \<open>FS._lookup\<close> once \<open>directory\<close> is a directory node or \<open>None\<close>. Before the current directory is
  set, a relative path raises \<open>AttributeError\<close>.
\<close>

definition lookup_in :: "fsarg \<Rightarrow> fsid option \<Rightarrow> fsclass \<Rightarrow> bool \<Rightarrow> fsys \<Rightarrow> fsys \<times> fsid res" where
  "lookup_in a directory k create s = (case a of
       FNode n \<Rightarrow> same_class_node k n s
     | FStr p0 \<Rightarrow>
         (let initial_hash = (take 1 p0 = ''#''); p = (if initial_hash then drop 1 p0 else p0);
              dopt = (if initial_hash then fs_Top s else directory);
              cur = (case dopt of None \<Rightarrow> fs_cwd s | Some d \<Rightarrow> Some d);
              base = (if initial_hash \<or> \<not> isabs p then map_option (\<lambda>d. f_labspath (fsnode_of s d)) cur else Some '''')
          in case base of
              None \<Rightarrow> (s, Inl AttributeError)
            | Some b \<Rightarrow> lookup_abs (lookup_path b initial_hash p) k create (if isabs p then fst (get_root s) else s)))"

definition is_hash :: "fsarg \<Rightarrow> bool" where
  "is_hash a \<longleftrightarrow> (case a of FNode _ \<Rightarrow> True | FStr p \<Rightarrow> take 1 p = ''#'')"

text \<open>
  \<open>FS._lookup\<close>: a directory that is given as a string or as another node is looked up first, unless
  the path is a node or starts with a hash sign.
\<close>

definition fs_lookup :: "fsarg \<Rightarrow> fsarg option \<Rightarrow> fsclass \<Rightarrow> bool \<Rightarrow> fsys \<Rightarrow> fsys \<times> fsid res" where
  "fs_lookup a directory k create s = (case directory of
       None \<Rightarrow> lookup_in a None k create s
     | Some b \<Rightarrow>
         (if is_hash a \<or> b = FStr '''' then lookup_in a None k create s
          else if (case b of FNode d \<Rightarrow> is_dir s d | FStr _ \<Rightarrow> False)
          then lookup_in a (case b of FNode d \<Rightarrow> Some d | FStr _ \<Rightarrow> None) k create s
          else case lookup_in b None Dir True s of
              (s1, Inl e) \<Rightarrow> (s1, Inl e)
            | (s1, Inr d) \<Rightarrow> lookup_in a (Some d) k create s1))"

text \<open>\<open>Entry\<close>, \<open>File\<close> and \<open>Dir\<close> of \<open>FS\<close>, and the same methods of \<open>Dir\<close> nodes.\<close>

definition FS_Entry :: "fsarg \<Rightarrow> fsarg option \<Rightarrow> bool \<Rightarrow> fsys \<Rightarrow> fsys \<times> fsid res" where
  "FS_Entry name directory create s = fs_lookup name directory Entry create s"

definition FS_File :: "fsarg \<Rightarrow> fsarg option \<Rightarrow> bool \<Rightarrow> fsys \<Rightarrow> fsys \<times> fsid res" where
  "FS_File name directory create s = fs_lookup name directory File create s"

definition FS_Dir :: "fsarg \<Rightarrow> fsarg option \<Rightarrow> bool \<Rightarrow> fsys \<Rightarrow> fsys \<times> fsid res" where
  "FS_Dir name directory create s = fs_lookup name directory Dir create s"

definition Dir_Entry :: "fsid \<Rightarrow> string \<Rightarrow> fsys \<Rightarrow> fsys \<times> fsid res" where
  "Dir_Entry d name s = FS_Entry (FStr name) (Some (FNode d)) True s"

definition Dir_Dir :: "fsid \<Rightarrow> string \<Rightarrow> bool \<Rightarrow> fsys \<Rightarrow> fsys \<times> fsid res" where
  "Dir_Dir d name create s = FS_Dir (FStr name) (Some (FNode d)) create s"

definition Dir_File :: "fsid \<Rightarrow> string \<Rightarrow> fsys \<Rightarrow> fsys \<times> fsid res" where
  "Dir_File d name s = FS_File (FStr name) (Some (FNode d)) True s"

definition lookup_rel :: "fsid \<Rightarrow> string \<Rightarrow> fsclass \<Rightarrow> bool \<Rightarrow> fsys \<Rightarrow> fsys \<times> fsid res" where
  "lookup_rel d name k create s = lookup_abs (entry_labspath (fsnode_of s d) name) k create s"

text \<open>\<open>str_to_node\<close> of \<open>DirNodeInfo\<close> and \<open>FileNodeInfo\<close>, for the paths that are stored with the signatures.\<close>

definition str_to_node :: "string \<Rightarrow> fsys \<Rightarrow> fsys \<times> fsid res" where
  "str_to_node p s = (case fs_Top s of
       None \<Rightarrow> (s, Inl AttributeError)
     | Some t \<Rightarrow> lookup_abs (if isabs p then p else f_labspath (fsnode_of s t) @ ''/'' @ p) Entry True s)"

text \<open>\<open>FS.__init__\<close>.\<close>

definition FS_init :: "(string \<Rightarrow> fstat option) \<Rightarrow> bool \<Rightarrow> string \<Rightarrow> fsys \<times> unit res" where
  "FS_init disk check pathTop =
     (let s0 = \<lparr>fs_nodes = [], fs_lookupDict = Map.empty, fs_Root = None, fs_Top = None, fs_cwd = None,
          fs_disk = disk, fs_match = check\<rparr>
      in case FS_Dir (FStr pathTop) None True s0 of
          (s1, Inl e) \<Rightarrow> (s1, Inl e)
        | (s1, Inr t) \<Rightarrow> ((upd_fsnode t (\<lambda>x. x\<lparr>f_path := ''.'', f_tpath := ''.''\<rparr>) s1)\<lparr>fs_Top := Some t, fs_cwd := Some t\<rparr>, Inr ()))"

end
