(* ===== verification/FsLookup.thy ===== *)
theory FsLookup
  imports FsNode
begin

text \<open>
  Correctness of the look-up of paths: the normal forms of paths, the invariant of the tree of nodes, and
  what a look-up returns and keeps.
\<close>

section \<open>Normal paths\<close>

text \<open>A name of a file or directory, and the absolute path with given names.\<close>

definition good_name :: "string \<Rightarrow> bool" where
  "good_name c \<longleftrightarrow> c \<noteq> '''' \<and> c \<noteq> ''.'' \<and> c \<noteq> ''..'' \<and> slash \<notin> set c"

definition abs_path :: "string list \<Rightarrow> string" where
  "abs_path cs = concat (map (Cons slash) cs)"

lemma abs_path_simps [simp]:
  "abs_path [] = ''''" "abs_path (c # cs) = slash # c @ abs_path cs" "abs_path (xs @ ys) = abs_path xs @ abs_path ys"
  by (simp_all add: abs_path_def)

lemma abs_path_eq_Nil [simp]: "abs_path cs = '''' \<longleftrightarrow> cs = []"
  by (cases cs) simp_all

lemma split_acc_slash:
  "slash \<notin> set c \<Longrightarrow> split_acc ''/'' acc (c @ slash # r) = (rev acc @ c) # split_acc ''/'' [] r"
proof (induction c arbitrary: acc)
  case Nil
  show ?case by (subst split_acc.simps) simp
next
  case (Cons x c)
  then have "\<not> prefix ''/'' ((x # c) @ slash # r)" by (auto simp: prefix_def)
  with Cons show ?case by (subst split_acc.simps) simp
qed

lemma py_split_slash: "slash \<notin> set c \<Longrightarrow> py_split ''/'' (c @ slash # r) = c # py_split ''/'' r"
  by (simp add: py_split_def split_acc_slash)

lemma py_split_abs_path: "slash \<notin> set c \<Longrightarrow> \<forall>d \<in> set cs. slash \<notin> set d \<Longrightarrow> py_split ''/'' (c @ abs_path cs) = c # cs"
proof (induction cs arbitrary: c)
  case Nil
  then show ?case by (simp add: py_split_no_sep)
next
  case (Cons d cs)
  then show ?case by (simp add: py_split_slash)
qed

lemma norm_comps_append: "norm_comps r new (xs @ ys) = norm_comps r (norm_comps r new xs) ys"
  by (induction r new xs rule: norm_comps.induct) simp_all

lemma norm_comps_good: "list_all good_name cs \<Longrightarrow> norm_comps True new cs = new @ cs"
  by (induction cs arbitrary: new) (simp_all add: good_name_def)

lemma norm_comps_up:
  "list_all good_name new \<Longrightarrow> norm_comps True new (replicate k ''..'') = take (length new - k) new"
proof (induction k arbitrary: new)
  case (Suc k)
  have b: "list_all good_name (butlast new)" using Suc.prems by (auto simp: list_all_iff dest: in_set_butlastD)
  have l: "new \<noteq> [] \<longrightarrow> last new \<noteq> ''..''" using Suc.prems by (auto simp: list_all_iff good_name_def dest!: last_in_set)
  show ?case
  proof (cases "new = []")
    case True
    then show ?thesis using Suc.IH [of "[]"] by simp
  next
    case False
    have "norm_comps True new (replicate (Suc k) ''..'') = norm_comps True (butlast new) (replicate k ''..'')" using l False by simp
    also have "\<dots> = take (length new - Suc k) new" using Suc.IH [OF b] by (simp add: butlast_conv_take min_def)
    finally show ?thesis .
  qed
qed simp

text \<open>Components made normal in a rooted path are names.\<close>

lemma norm_comps_names:
  "list_all good_name new \<Longrightarrow> \<forall>c \<in> set cs. slash \<notin> set c \<Longrightarrow> list_all good_name (norm_comps True new cs)"
proof (induction cs arbitrary: new)
  case (Cons c cs)
  have b: "list_all good_name (butlast new)" using Cons.prems by (auto simp: list_all_iff dest: in_set_butlastD)
  have l: "new \<noteq> [] \<longrightarrow> last new \<noteq> ''..''" using Cons.prems by (auto simp: list_all_iff good_name_def dest!: last_in_set)
  show ?case
  proof (cases "c = '''' \<or> c = ''.''")
    case True
    then show ?thesis using Cons by simp
  next
    case False
    then show ?thesis
    proof (cases "c = ''..''")
      case True
      then have "norm_comps True new (c # cs) = norm_comps True (butlast new) cs" using l by auto
      then show ?thesis using Cons.IH [OF b] Cons.prems by simp
    next
      case n: False
      have "list_all good_name (new @ [c])" using Cons.prems False n by (simp add: list_all_iff good_name_def)
      then show ?thesis using Cons.IH [of "new @ [c]"] Cons.prems False n by simp
    qed
  qed
qed simp

lemma py_join_slash: "cs \<noteq> [] \<Longrightarrow> slash # py_join ''/'' cs = abs_path cs"
proof (induction cs)
  case (Cons c cs)
  then show ?case by (cases "cs = []") (simp_all add: py_join_Cons)
qed simp

text \<open>The path of a node in the table: the root for no names.\<close>

definition key_path :: "string list \<Rightarrow> string" where
  "key_path cs = (if cs = [] then ''/'' else abs_path cs)"

text \<open>\<open>normpath\<close> of a path with one slash at its beginning.\<close>

lemma initial_slashes_abs_path: "slash \<notin> set c \<Longrightarrow> c \<noteq> '''' \<Longrightarrow> initial_slashes (abs_path (c # cs)) = 1"
  by (cases c) (auto simp: initial_slashes_def)

lemma normpath_abs_path:
  assumes "initial_slashes (abs_path cs) = 1" "\<forall>c \<in> set cs. slash \<notin> set c"
  shows "normpath (abs_path cs) = key_path (norm_comps True [] cs)"
proof -
  have ne: "abs_path cs \<noteq> ''''" using assms(1) by (auto simp: initial_slashes_def)
  have s: "py_split ''/'' (abs_path cs) = '''' # cs" using py_split_abs_path [of "''''" cs] assms(2) by simp
  show ?thesis
    unfolding normpath_def Let_def assms(1) s using ne py_join_slash [of "norm_comps True [] cs"]
    by (simp add: key_path_def)
qed

lemma path_split_snoc:
  assumes "slash \<notin> set c"
  shows "path_split (a @ slash # c) =
    (if set a \<subseteq> {slash} then a @ [slash] else rev (dropWhile ((=) slash) (rev a)), c)"
proof -
  have r: "rfind (a @ slash # c) slash = int (length a)"
  proof (cases rule: rfind_cases [of "a @ slash # c" slash])
    case (found k)
    have "\<not> k < length a"
    proof
      assume "k < length a"
      then have "slash \<in> set (drop (Suc k) (a @ slash # c))" by simp
      with found show False by simp
    qed
    moreover have "\<not> k > length a"
    proof
      assume k: "k > length a"
      then have "(a @ slash # c) ! k = c ! (k - Suc (length a))" by (simp add: nth_append nth_Cons')
      moreover have "k - Suc (length a) < length c" using k found by simp
      ultimately have "slash \<in> set c" using found by (metis nth_mem)
      with assms show False by simp
    qed
    ultimately show ?thesis using found by simp
  qed simp
  have i: "nat (rfind (a @ slash # c) slash + 1) = Suc (length a)" using r by simp
  have t: "take (Suc (length a)) (a @ slash # c) = a @ [slash]" "drop (Suc (length a)) (a @ slash # c) = c" by simp_all
  have e: "a @ [slash] = replicate (length (a @ [slash])) slash \<longleftrightarrow> set a \<subseteq> {slash}"
  proof -
    have "set a \<subseteq> {slash} \<longleftrightarrow> a = replicate (length a) slash"
    proof
      assume "set a \<subseteq> {slash}"
      then show "a = replicate (length a) slash" by (auto intro: replicate_eqI)
    next
      assume "a = replicate (length a) slash"
      then show "set a \<subseteq> {slash}" by (metis in_set_replicate singletonI subsetI)
    qed
    then show ?thesis by (simp add: replicate_append_same [symmetric])
  qed
  show ?thesis
    unfolding path_split_def Let_def i t using e by auto
qed

section \<open>The invariant of the tree\<close>

text \<open>The names on the way from the root to a node.\<close>

definition fs_names :: "fsys \<Rightarrow> fsid \<Rightarrow> string list" where
  "fs_names s n = map (\<lambda>m. f_name (fsnode_of s m)) (tl (f_elements (fsnode_of s n)))"

definition root_ok :: "fsnode \<Rightarrow> bool" where
  "root_ok x \<longleftrightarrow> f_class x = RootDir \<and> f_name x = '''' \<and> f_labspath x = '''' \<and> f_abspath x = ''/'' \<and>
     f_elements x = [0] \<and> f_dir x = 0"

text \<open>A node under its directory \<open>d\<close>.\<close>

definition child_ok :: "fsnode \<Rightarrow> fsid \<Rightarrow> fsnode \<Rightarrow> bool" where
  "child_ok d n x \<longleftrightarrow> f_class x \<noteq> RootDir \<and> good_name (f_name x) \<and> f_dir x < n \<and> instance_of (f_class d) Dir \<and>
     f_elements x = f_elements d @ [n] \<and> f_labspath x = entry_labspath d (f_name x) \<and>
     f_abspath x = entry_abspath d (f_name x) \<and> map_of (f_entries d) (f_name x) = Some n"

definition entries_ok :: "fsys \<Rightarrow> fsid \<Rightarrow> bool" where
  "entries_ok s n \<longleftrightarrow> map_of (f_entries (fsnode_of s n)) ''.'' = Some n \<and>
     map_of (f_entries (fsnode_of s n)) ''..'' = Some (f_dir (fsnode_of s n)) \<and>
     (\<forall>e m. map_of (f_entries (fsnode_of s n)) e = Some m \<and> e \<noteq> ''.'' \<and> e \<noteq> ''..'' \<longrightarrow>
        0 < m \<and> m < fsize s \<and> f_dir (fsnode_of s m) = n \<and> f_name (fsnode_of s m) = e)"

definition dict_ok :: "fsys \<Rightarrow> bool" where
  "dict_ok s \<longleftrightarrow> fs_lookupDict s '''' = Some 0 \<and> fs_lookupDict s ''/'' = Some 0 \<and>
     (\<forall>n < fsize s. 0 < n \<longrightarrow> fs_lookupDict s (f_labspath (fsnode_of s n)) = Some n) \<and>
     (\<forall>p n. fs_lookupDict s p = Some n \<longrightarrow> n < fsize s \<and> (0 < n \<longrightarrow> p = f_labspath (fsnode_of s n)) \<and>
        (n = 0 \<longrightarrow> p \<in> {'''', ''/'', ''//''}))"

definition dirs_ok :: "fsys \<Rightarrow> bool" where
  "dirs_ok s \<longleftrightarrow> (\<forall>d. fs_Top s = Some d \<or> fs_cwd s = Some d \<longrightarrow> d < fsize s \<and> is_dir s d)"

definition wf_fs :: "fsys \<Rightarrow> bool" where
  "wf_fs s \<longleftrightarrow> 0 < fsize s \<and> fs_Root s = Some 0 \<and> root_ok (fsnode_of s 0) \<and>
     (\<forall>n < fsize s. 0 < n \<longrightarrow> child_ok (fsnode_of s (f_dir (fsnode_of s n))) n (fsnode_of s n)) \<and>
     (\<forall>n < fsize s. is_dir s n \<longrightarrow> entries_ok s n) \<and> dict_ok s \<and> dirs_ok s"

lemma wf_fsD:
  assumes "wf_fs s"
  shows "0 < fsize s" "fs_Root s = Some 0" "root_ok (fsnode_of s 0)" "dict_ok s" "dirs_ok s"
    "\<And>n. n < fsize s \<Longrightarrow> 0 < n \<Longrightarrow> child_ok (fsnode_of s (f_dir (fsnode_of s n))) n (fsnode_of s n)"
    "\<And>n. n < fsize s \<Longrightarrow> is_dir s n \<Longrightarrow> entries_ok s n"
  using assms by (auto simp: wf_fs_def)

lemma wf_get_root [simp]: "wf_fs s \<Longrightarrow> get_root s = (s, 0)"
  by (simp add: get_root_def wf_fsD)

lemma fsnode_upd_fsnode [simp]:
  "n < fsize s \<Longrightarrow> fsnode_of (upd_fsnode n f s) m = (if m = n then f (fsnode_of s n) else fsnode_of s m)"
  by (simp add: upd_fsnode_def)

lemma upd_fsnode_frame [simp, frame_simps]:
  "fsize (upd_fsnode n f s) = fsize s" "fs_lookupDict (upd_fsnode n f s) = fs_lookupDict s"
  "fs_Root (upd_fsnode n f s) = fs_Root s" "fs_Top (upd_fsnode n f s) = fs_Top s"
  "fs_cwd (upd_fsnode n f s) = fs_cwd s" "fs_disk (upd_fsnode n f s) = fs_disk s" "fs_match (upd_fsnode n f s) = fs_match s"
  by (simp_all add: upd_fsnode_def)

text \<open>The directory of a node comes before it, and the path of a node is made of the names above it.\<close>

lemma f_dir_less: "wf_fs s \<Longrightarrow> n < fsize s \<Longrightarrow> 0 < n \<Longrightarrow> f_dir (fsnode_of s n) < n"
  using wf_fsD(6) [of s n] by (simp add: child_ok_def)

lemma f_elements_neq_Nil: "wf_fs s \<Longrightarrow> n < fsize s \<Longrightarrow> f_elements (fsnode_of s n) \<noteq> []"
  using wf_fsD(6) [of s n] wf_fsD(3) [of s] by (cases "n = 0") (auto simp: child_ok_def root_ok_def)

lemma fs_names_root: "wf_fs s \<Longrightarrow> fs_names s 0 = []"
  using wf_fsD(3) [of s] by (simp add: fs_names_def root_ok_def)

lemma fs_names_child:
  assumes "wf_fs s" "n < fsize s" "0 < n"
  shows "fs_names s n = fs_names s (f_dir (fsnode_of s n)) @ [f_name (fsnode_of s n)]"
proof -
  have "f_dir (fsnode_of s n) < fsize s" using f_dir_less [OF assms] assms(2) by simp
  then have "f_elements (fsnode_of s (f_dir (fsnode_of s n))) \<noteq> []" using f_elements_neq_Nil assms(1) by blast
  then show ?thesis using wf_fsD(6) [OF assms] by (simp add: fs_names_def child_ok_def)
qed

lemma labspath_names:
  assumes "wf_fs s" "n < fsize s"
  shows "f_labspath (fsnode_of s n) = abs_path (fs_names s n) \<and> list_all good_name (fs_names s n) \<and>
    (fs_names s n = [] \<longleftrightarrow> n = 0)"
  using assms(2)
proof (induction n rule: less_induct)
  case (less n)
  show ?case
  proof (cases "n = 0")
    case True
    then show ?thesis using wf_fsD(3) [OF assms(1)] fs_names_root [OF assms(1)] by (simp add: root_ok_def)
  next
    case False
    let ?d = "f_dir (fsnode_of s n)"
    have d: "?d < n" using f_dir_less [OF assms(1) less.prems] False by simp
    have c: "child_ok (fsnode_of s ?d) n (fsnode_of s n)" using wf_fsD(6) [OF assms(1) less.prems] False by simp
    have IH: "f_labspath (fsnode_of s ?d) = abs_path (fs_names s ?d)" "list_all good_name (fs_names s ?d)"
      using less.IH [OF d] d less.prems by simp_all
    have r: "f_class (fsnode_of s ?d) = RootDir \<longrightarrow> fs_names s ?d = []"
      using wf_fsD(6) [OF assms(1), of ?d] d less.prems fs_names_root [OF assms(1)] by (cases "?d = 0") (auto simp: child_ok_def)
    show ?thesis
      using c IH r fs_names_child [OF assms(1) less.prems] False by (auto simp: child_ok_def entry_labspath_def)
  qed
qed

text \<open>
  What every operation on the tree keeps: old nodes keep their place, their names and their paths, an entry may
  become a file or a directory, and the table only grows.
\<close>

definition same_place :: "fsnode \<Rightarrow> fsnode \<Rightarrow> bool" where
  "same_place x y \<longleftrightarrow> f_name y = f_name x \<and> f_abspath y = f_abspath x \<and> f_labspath y = f_labspath x \<and>
     f_elements y = f_elements x \<and> f_dir y = f_dir x \<and>
     (f_class y = f_class x \<or> f_class x = Entry \<and> f_class y \<noteq> RootDir)"

text \<open>A directory keeps its links to source directories and repositories.\<close>

definition same_links :: "fsnode \<Rightarrow> fsnode \<Rightarrow> bool" where
  "same_links x y \<longleftrightarrow> f_duplicate y = f_duplicate x \<and> (instance_of (f_class x) Dir \<longrightarrow>
     f_srcdir y = f_srcdir x \<and> f_repositories y = f_repositories x \<and> f_variant_dirs y = f_variant_dirs x)"

definition fs_le :: "fsys \<Rightarrow> fsys \<Rightarrow> bool" where
  "fs_le s t \<longleftrightarrow> fsize s \<le> fsize t \<and> (\<forall>n < fsize s. same_place (fsnode_of s n) (fsnode_of t n)) \<and>
     (\<forall>n < fsize s. same_links (fsnode_of s n) (fsnode_of t n)) \<and>
     fs_lookupDict s \<subseteq>\<^sub>m fs_lookupDict t \<and> fs_Root t = fs_Root s \<and> fs_Top t = fs_Top s \<and> fs_cwd t = fs_cwd s \<and>
     fs_disk t = fs_disk s \<and> fs_match t = fs_match s"

lemma same_place_refl [simp]: "same_place x x"
  by (simp add: same_place_def)

lemma same_links_refl [simp]: "same_links x x"
  by (simp add: same_links_def)

lemma fs_le_refl [simp]: "fs_le s s"
  by (simp add: fs_le_def)

lemma fs_le_trans: "fs_le s t \<Longrightarrow> fs_le t u \<Longrightarrow> fs_le s u"
proof -
  assume a: "fs_le s t" "fs_le t u"
  have "same_place (fsnode_of s n) (fsnode_of u n)" if "n < fsize s" for n
  proof -
    have "same_place (fsnode_of s n) (fsnode_of t n)" "same_place (fsnode_of t n) (fsnode_of u n)"
      using a that by (auto simp: fs_le_def)
    then show ?thesis by (auto simp: same_place_def)
  qed
  moreover have "same_links (fsnode_of s n) (fsnode_of u n)" if "n < fsize s" for n
  proof -
    have "same_links (fsnode_of s n) (fsnode_of t n)" "same_links (fsnode_of t n) (fsnode_of u n)" "same_place (fsnode_of s n) (fsnode_of t n)"
      using a that by (auto simp: fs_le_def)
    then show ?thesis by (auto simp: same_links_def same_place_def)
  qed
  ultimately show ?thesis using a by (auto simp: fs_le_def intro: map_le_trans)
qed

lemma fs_leD:
  assumes "fs_le s t" "n < fsize s"
  shows "n < fsize t" "same_place (fsnode_of s n) (fsnode_of t n)" "same_links (fsnode_of s n) (fsnode_of t n)"
  using assms by (auto simp: fs_le_def)

lemma fs_le_is_dir: "fs_le s t \<Longrightarrow> n < fsize s \<Longrightarrow> is_dir s n \<Longrightarrow> is_dir t n"
  using fs_leD(2) [of s t n] by (auto simp: is_dir_def same_place_def)

lemma fs_le_dict: "fs_le s t \<Longrightarrow> fs_lookupDict s p = Some n \<Longrightarrow> fs_lookupDict t p = Some n"
  by (auto simp: fs_le_def map_le_def dom_def)

lemma fs_le_names:
  assumes "fs_le s t" "wf_fs s" "n < fsize s" shows "fs_names t n = fs_names s n"
  using assms(3)
proof (induction n rule: less_induct)
  case (less n)
  have e: "f_elements (fsnode_of t n) = f_elements (fsnode_of s n)" using fs_leD [OF assms(1) less.prems] by (simp add: same_place_def)
  have "m < fsize s" if "m \<in> set (f_elements (fsnode_of s n))" for m
    using less.prems that
  proof (induction n rule: less_induct)
    case (less n)
    show ?case
    proof (cases "n = 0")
      case True
      then show ?thesis using less.prems wf_fsD(1, 3) [OF assms(2)] by (simp add: root_ok_def)
    next
      case False
      then show ?thesis using less f_dir_less [OF assms(2) less.prems(1)] wf_fsD(6) [OF assms(2) less.prems(1)]
        by (auto simp: child_ok_def)
    qed
  qed
  then have "f_name (fsnode_of t m) = f_name (fsnode_of s m)" if "m \<in> set (tl (f_elements (fsnode_of s n)))" for m
    using fs_leD [OF assms(1), of m] that by (metis list.set_sel(2) same_place_def tl_Nil)
  then show ?case by (simp add: fs_names_def e)
qed

text \<open>Changing one node.\<close>

lemma wf_upd_fsnode:
  assumes wf: "wf_fs s" and n: "n < fsize s" and p: "same_place (fsnode_of s n) (f (fsnode_of s n))"
    and e: "f_entries (f (fsnode_of s n)) = f_entries (fsnode_of s n) \<and> f_class (f (fsnode_of s n)) = f_class (fsnode_of s n) \<or>
      f_class (fsnode_of s n) = Entry \<and> map_of (f_entries (f (fsnode_of s n))) = [''.'' \<mapsto> n, ''..'' \<mapsto> f_dir (fsnode_of s n)] \<or>
      f_class (fsnode_of s n) = Entry \<and> f_class (f (fsnode_of s n)) = File"
  shows "wf_fs (upd_fsnode n f s)"
proof -
  let ?t = "upd_fsnode n f s"
  let ?y = "f (fsnode_of s n)"
  have sp: "same_place (fsnode_of s m) (fsnode_of ?t m)" for m using p n by simp
  have r: "f_class (fsnode_of ?t m) = RootDir \<longleftrightarrow> f_class (fsnode_of s m) = RootDir" for m
    using sp [of m] by (auto simp: same_place_def)
  have paths: "entry_labspath (fsnode_of ?t m) e = entry_labspath (fsnode_of s m) e"
    "entry_abspath (fsnode_of ?t m) e = entry_abspath (fsnode_of s m) e" for m e
    using sp [of m] r [of m] by (auto simp: same_place_def entry_labspath_def entry_abspath_def)
  have dr: "is_dir ?t m" if "is_dir s m" for m using sp [of m] that by (auto simp: is_dir_def same_place_def)
  have ent: "f_entries (fsnode_of ?t m) = f_entries (fsnode_of s m)" if "is_dir s m" for m
    using e that n by (cases "m = n") (auto simp: is_dir_def)
  have root: "root_ok (fsnode_of ?t 0)" using wf_fsD(3) [OF wf] sp [of 0] by (auto simp: root_ok_def same_place_def)
  have ch: "child_ok (fsnode_of ?t (f_dir (fsnode_of ?t m))) m (fsnode_of ?t m)" if "m < fsize s" "0 < m" for m
  proof -
    have c: "child_ok (fsnode_of s (f_dir (fsnode_of s m))) m (fsnode_of s m)" using wf_fsD(6) [OF wf that] .
    have d: "f_dir (fsnode_of ?t m) = f_dir (fsnode_of s m)" using sp [of m] by (simp add: same_place_def)
    have dd: "is_dir s (f_dir (fsnode_of s m))" using c by (simp add: child_ok_def is_dir_def)
    show ?thesis
      using c sp [of m] r [of m] dr [OF dd] ent [OF dd] sp [of "f_dir (fsnode_of s m)"] unfolding d
      by (auto simp: child_ok_def is_dir_def paths same_place_def)
  qed
  have en: "entries_ok ?t m" if "m < fsize s" "is_dir ?t m" for m
  proof (cases "is_dir s m")
    case True
    then show ?thesis using wf_fsD(7) [OF wf that(1)] sp ent [OF True] by (auto simp: entries_ok_def same_place_def)
  next
    case False
    then have mn: "m = n" using that n by (auto simp: is_dir_def split: if_splits)
    have "f_class (fsnode_of s n) = Entry \<and> map_of (f_entries ?y) = [''.'' \<mapsto> n, ''..'' \<mapsto> f_dir (fsnode_of s n)]"
      using e False that n unfolding mn is_dir_def by auto
    then show ?thesis using p n unfolding mn entries_ok_def by (auto simp: same_place_def)
  qed
  have di: "dict_ok ?t" using wf_fsD(4) [OF wf] sp by (simp add: dict_ok_def same_place_def)
  have "dirs_ok ?t" using wf_fsD(5) [OF wf] dr by (simp add: dirs_ok_def)
  with root ch en di wf_fsD(1, 2) [OF wf] show ?thesis by (simp add: wf_fs_def)
qed

lemma fs_le_upd_fsnode:
  "n < fsize s \<Longrightarrow> same_place (fsnode_of s n) (f (fsnode_of s n)) \<Longrightarrow> same_links (fsnode_of s n) (f (fsnode_of s n)) \<Longrightarrow>
    fs_le s (upd_fsnode n f s)"
  by (simp add: fs_le_def)

section \<open>Looking up a path\<close>

text \<open>A node has a class that a look-up accepts.\<close>

definition fits :: "fsclass \<Rightarrow> fsys \<Rightarrow> fsid \<Rightarrow> bool" where
  "fits k s n \<longleftrightarrow> k = Entry \<or> instance_of (f_class (fsnode_of s n)) k"

lemma must_be_same_cases:
  assumes "wf_fs s" "n < fsize s" "k \<noteq> RootDir"
  obtains (same) "must_be_same k n s = (s, Inr ())" "fits k s n"
  | (morphs) t where "must_be_same k n s = (t, Inr ())" "f_class (fsnode_of s n) = Entry" "k = Dir \<or> k = File"
      "wf_fs t" "fs_le s t" "fits k t n" "fsize t = fsize s" "fs_lookupDict t = fs_lookupDict s"
  | (wrong) "must_be_same k n s = (s, Inl TypeError)" "f_class (fsnode_of s n) \<noteq> Entry" "\<not> fits k s n"
proof (cases "f_class (fsnode_of s n) = Entry \<and> k \<noteq> Entry")
  case True
  then have k: "k = Dir \<or> k = File" using assms(3) by (cases k) auto
  let ?f = "\<lambda>x. fs_clear (fs_morph n (x\<lparr>f_class := k\<rparr>))"
  have p: "same_place (fsnode_of s n) (?f (fsnode_of s n))" "f_class (?f (fsnode_of s n)) = k"
    "same_links (fsnode_of s n) (?f (fsnode_of s n))"
    using k True by (auto simp: same_place_def same_links_def fs_clear_def fs_morph_def Dir_morph_def File_morph_def split: if_splits)
  have e: "k = Dir \<Longrightarrow> map_of (f_entries (?f (fsnode_of s n))) = [''.'' \<mapsto> n, ''..'' \<mapsto> f_dir (fsnode_of s n)]"
    by (auto simp: fs_clear_def fs_morph_def Dir_morph_def update_conv')
  have w: "wf_fs (upd_fsnode n ?f s)"
  proof (rule wf_upd_fsnode [where f = ?f, OF assms(1, 2) p(1)])
    show "f_entries (?f (fsnode_of s n)) = f_entries (fsnode_of s n) \<and> f_class (?f (fsnode_of s n)) = f_class (fsnode_of s n) \<or>
      f_class (fsnode_of s n) = Entry \<and> map_of (f_entries (?f (fsnode_of s n))) = [''.'' \<mapsto> n, ''..'' \<mapsto> f_dir (fsnode_of s n)] \<or>
      f_class (fsnode_of s n) = Entry \<and> f_class (?f (fsnode_of s n)) = File"
      using True k e p(2) by blast
  qed
  show ?thesis
  proof (rule morphs [OF _ _ k w fs_le_upd_fsnode [where f = ?f, OF assms(2) p(1, 3)]])
    show "must_be_same k n s = (upd_fsnode n ?f s, Inr ())" using True by (simp add: must_be_same_def)
    show "fits k (upd_fsnode n ?f s) n" using k p(2) assms(2) by (auto simp: fits_def)
  qed (use True in simp_all)
next
  case False
  show ?thesis
  proof (cases "fits k s n")
    case True
    then show ?thesis using False by (intro same) (auto simp: must_be_same_def fits_def split: fsclass.splits)
  next
    case f: False
    then show ?thesis using False by (intro wrong) (auto simp: must_be_same_def fits_def split: fsclass.splits)
  qed
qed

text \<open>A new node passes the check on the disk unless something of the other kind is there.\<close>

definition disk_ok :: "fsys \<Rightarrow> fsclass \<Rightarrow> string \<Rightarrow> bool" where
  "disk_ok s k p \<longleftrightarrow> \<not> (fs_match s \<and> (k = Dir \<and> is_kind SReg (fs_disk s p) \<or> k = File \<and> is_kind SDir (fs_disk s p)))"

lemma new_fsnode_fields:
  assumes "k \<noteq> RootDir"
  shows "f_class (new_fsnode k name d s) = k" "f_name (new_fsnode k name d s) = name"
    "f_abspath (new_fsnode k name d s) = entry_abspath (fsnode_of s d) name"
    "f_labspath (new_fsnode k name d s) = entry_labspath (fsnode_of s d) name"
    "f_elements (new_fsnode k name d s) = f_elements (fsnode_of s d) @ [fsize s]"
    "f_dir (new_fsnode k name d s) = d" "f_memo_stat (new_fsnode k name d s) = None"
    "k = Dir \<Longrightarrow> map_of (f_entries (new_fsnode k name d s)) = [''.'' \<mapsto> fsize s, ''..'' \<mapsto> d]"
  using assms
  by (cases k; auto simp: new_fsnode_def FsBase_init_def fs_morph_def Dir_morph_def File_morph_def Let_def update_conv')+

lemma diskcheck_match_new:
  assumes "k \<noteq> RootDir"
  shows "diskcheck_match s (new_fsnode k name d s) = Inl TypeError \<and> \<not> disk_ok s k (entry_abspath (fsnode_of s d) name) \<or>
    (\<exists>m. diskcheck_match s (new_fsnode k name d s) = Inr ((new_fsnode k name d s)\<lparr>f_memo_stat := m\<rparr>)) \<and>
     disk_ok s k (entry_abspath (fsnode_of s d) name)"
proof -
  define x where "x = new_fsnode k name d s"
  have x: "f_class x = k" "f_abspath x = entry_abspath (fsnode_of s d) name" "f_memo_stat x = None"
    using new_fsnode_fields [OF assms, of name d s] by (simp_all add: x_def)
  have u: "x\<lparr>f_memo_stat := None\<rparr> = x" using x(3) by (cases x) simp
  show ?thesis unfolding x_def [symmetric]
  proof (cases "fs_match s \<and> k \<noteq> Entry")
    case True
    let ?r = "fs_disk s (f_abspath x)"
    let ?k = "if k = File then SDir else SReg"
    have "diskcheck_match s x = (if is_kind ?k ?r then Inl TypeError
        else Inr (x\<lparr>f_memo_stat := (if ?r = None then None else Some ?r)\<rparr>))"
      using True assms x(1, 3)
      by (cases k) (simp_all add: diskcheck_match_def do_diskcheck_match_def fs_stat_def Let_def)
    moreover have "disk_ok s k (entry_abspath (fsnode_of s d) name) \<longleftrightarrow> \<not> is_kind ?k ?r"
      using True assms by (cases k) (simp_all add: disk_ok_def x(2))
    ultimately show "diskcheck_match s x = Inl TypeError \<and> \<not> disk_ok s k (entry_abspath (fsnode_of s d) name) \<or>
      (\<exists>m. diskcheck_match s x = Inr (x\<lparr>f_memo_stat := m\<rparr>)) \<and> disk_ok s k (entry_abspath (fsnode_of s d) name)"
      by metis
  next
    case False
    then have "diskcheck_match s x = Inr x" using assms x(1) by (cases k) (simp_all add: diskcheck_match_def)
    then have "diskcheck_match s x = Inr (x\<lparr>f_memo_stat := None\<rparr>)" unfolding u .
    then show "diskcheck_match s x = Inl TypeError \<and> \<not> disk_ok s k (entry_abspath (fsnode_of s d) name) \<or>
      (\<exists>m. diskcheck_match s x = Inr (x\<lparr>f_memo_stat := m\<rparr>)) \<and> disk_ok s k (entry_abspath (fsnode_of s d) name)"
      using False by (auto simp: disk_ok_def)
  qed
qed

lemma wf_add_fsnode:
  assumes wf: "wf_fs s" and k: "k \<noteq> RootDir" and d: "d < fsize s" "is_dir s d" and g: "good_name name"
    and p: "p = entry_labspath (fsnode_of s d) name" and new: "fs_lookupDict s p = None"
    and x: "x = (new_fsnode k name d s)\<lparr>f_memo_stat := m\<rparr>" and n: "n = fsize s"
    and t: "t = upd_fsnode d (\<lambda>y. y\<lparr>f_entries := AList.update name n (f_entries y), f_implicit := None\<rparr>)
       (s\<lparr>fs_nodes := fs_nodes s @ [x], fs_lookupDict := (fs_lookupDict s)(p \<mapsto> n)\<rparr>)"
  shows "wf_fs t \<and> fs_le s t \<and> f_class (fsnode_of t n) = k \<and> fs_lookupDict t p = Some n \<and> n < fsize t \<and>
    f_labspath (fsnode_of t n) = p"
proof -
  note nf = new_fsnode_fields [OF k, of name d s]
  have xf: "f_class x = k" "f_name x = name" "f_abspath x = entry_abspath (fsnode_of s d) name"
    "f_labspath x = p" "f_elements x = f_elements (fsnode_of s d) @ [n]" "f_dir x = d"
    "k = Dir \<Longrightarrow> map_of (f_entries x) = [''.'' \<mapsto> n, ''..'' \<mapsto> d]"
    unfolding x n p using nf(8) by (simp_all add: nf(1-7))
  have sz: "fsize t = Suc n" by (simp add: t n)
  have nd: "d \<noteq> n" using d n by simp
  have tn: "fsnode_of t n = x" using nd d by (simp add: t n nth_append)
  have td: "fsnode_of t d = (fsnode_of s d)\<lparr>f_entries := AList.update name n (f_entries (fsnode_of s d)), f_implicit := None\<rparr>"
    using d by (simp add: t n nth_append)
  have tm: "fsnode_of t m = fsnode_of s m" if "m < n" "m \<noteq> d" for m using that d by (simp add: t n nth_append)
  have sp: "same_place (fsnode_of s m) (fsnode_of t m)" "f_class (fsnode_of t m) = f_class (fsnode_of s m)" if "m < n" for m
    subgoal using that by (cases "m = d") (simp_all add: td tm same_place_def)
    subgoal using that by (cases "m = d") (simp_all add: td tm)
    done
  have en: "map_of (f_entries (fsnode_of t m)) = (if m = d then (map_of (f_entries (fsnode_of s d)))(name \<mapsto> n) else map_of (f_entries (fsnode_of s m)))"
    if "m < n" for m using that by (cases "m = d") (simp_all add: td tm update_conv')
  have dic: "fs_lookupDict t = (fs_lookupDict s)(p \<mapsto> n)" by (simp add: t)
  have dm: "fs_lookupDict s (f_labspath (fsnode_of s m)) = Some m" if "m < n" "0 < m" for m
    using wf_fsD(4) [OF wf] that n by (simp add: dict_ok_def)
  have pth: "entry_labspath (fsnode_of t m) e = entry_labspath (fsnode_of s m) e"
    "entry_abspath (fsnode_of t m) e = entry_abspath (fsnode_of s m) e" if "m < n" for m e
    using sp [OF that] by (auto simp: same_place_def entry_labspath_def entry_abspath_def)
  have ch: "child_ok (fsnode_of t (f_dir (fsnode_of t m))) m (fsnode_of t m)" if m: "m < fsize t" "0 < m" for m
  proof (cases "m = n")
    case True
    have dn: "d < n" using d n by simp
    have "f_elements (fsnode_of t d) = f_elements (fsnode_of s d)" by (simp add: td)
    then show ?thesis unfolding True tn xf(6) child_ok_def using d g k
      by (simp add: xf(1-5) pth [OF dn] en [OF dn] sp(2) [OF dn] dn p is_dir_def)
  next
    case False
    then have mn: "m < n" using m sz by simp
    let ?e = "f_dir (fsnode_of s m)"
    have c: "child_ok (fsnode_of s ?e) m (fsnode_of s m)" using wf_fsD(6) [OF wf] mn m n by simp
    have ne: "?e < n" using c mn by (simp add: child_ok_def)
    have de: "f_dir (fsnode_of t m) = ?e" using sp [OF mn] by (simp add: same_place_def)
    have nn: "\<not> (?e = d \<and> f_name (fsnode_of s m) = name)"
    proof
      assume "?e = d \<and> f_name (fsnode_of s m) = name"
      then have "f_labspath (fsnode_of s m) = p" using c p by (simp add: child_ok_def)
      then show False using dm [OF mn m(2)] new by simp
    qed
    show ?thesis using c sp [OF mn] sp [OF ne] en [OF ne] pth [OF ne] nn unfolding de
      by (auto simp: child_ok_def same_place_def)
  qed
  have eo: "entries_ok t m" if m: "m < fsize t" "is_dir t m" for m
  proof (cases "m = n")
    case True
    then have "k = Dir" using m(2) tn xf(1) k by (cases k) (auto simp: is_dir_def)
    then show ?thesis using xf tn True by (simp add: entries_ok_def)
  next
    case False
    then have mn: "m < n" using m sz by simp
    have "is_dir s m" using m(2) sp [OF mn] by (simp add: is_dir_def)
    then have e: "entries_ok s m" using wf_fsD(7) [OF wf] mn n by simp
    have ok: "0 < j \<and> j < fsize t \<and> f_dir (fsnode_of t j) = m \<and> f_name (fsnode_of t j) = e"
      if "map_of (f_entries (fsnode_of t m)) e = Some j" "e \<noteq> ''.''" "e \<noteq> ''..''" for e j
    proof (cases "m = d \<and> e = name")
      case True
      then have "j = n" using that en [OF mn] by simp
      then show ?thesis using True xf tn sz wf_fsD(1) [OF wf] n by simp
    next
      case False
      then have "map_of (f_entries (fsnode_of s m)) e = Some j" using that en [OF mn] by (auto split: if_splits)
      then have j: "0 < j \<and> j < n \<and> f_dir (fsnode_of s j) = m \<and> f_name (fsnode_of s j) = e"
        using e that n by (auto simp: entries_ok_def)
      then show ?thesis using sp(1) [of j] sz by (auto simp: same_place_def)
    qed
    have "map_of (f_entries (fsnode_of t m)) ''.'' = Some m" "map_of (f_entries (fsnode_of t m)) ''..'' = Some (f_dir (fsnode_of t m))"
      using e sp(1) [OF mn] g unfolding en [OF mn] by (auto simp: entries_ok_def good_name_def same_place_def)
    then show ?thesis using ok unfolding entries_ok_def by blast
  qed
  have di: "dict_ok t"
    unfolding dict_ok_def
  proof (intro conjI allI impI)
    show "fs_lookupDict t '''' = Some 0" "fs_lookupDict t ''/'' = Some 0"
      using wf_fsD(4) [OF wf] new by (auto simp: dict_ok_def dic)
    show "fs_lookupDict t (f_labspath (fsnode_of t m)) = Some m" if "m < fsize t" "0 < m" for m
    proof (cases "m = n")
      case False
      then have mn: "m < n" using that sz by simp
      have "f_labspath (fsnode_of s m) \<noteq> p" using dm [OF mn that(2)] new by auto
      then show ?thesis using dm [OF mn that(2)] sp(1) [OF mn] by (simp add: dic same_place_def)
    qed (simp add: tn xf dic)
  next
    fix q j assume q: "fs_lookupDict t q = Some j"
    have "j < fsize t \<and> (0 < j \<longrightarrow> q = f_labspath (fsnode_of t j)) \<and> (j = 0 \<longrightarrow> q \<in> {'''', ''/'', ''//''})"
    proof (cases "q = p")
      case True
      then show ?thesis using q sz tn xf wf_fsD(1) [OF wf] n by (simp add: dic)
    next
      case False
      then have "fs_lookupDict s q = Some j" using q by (simp add: dic)
      then have j: "j < n \<and> (0 < j \<longrightarrow> q = f_labspath (fsnode_of s j)) \<and> (j = 0 \<longrightarrow> q \<in> {'''', ''/'', ''//''})"
        using wf_fsD(4) [OF wf] n by (auto simp: dict_ok_def)
      then show ?thesis using sz sp(1) [of j] by (auto simp: same_place_def)
    qed
    then show "j < fsize t" "0 < j \<Longrightarrow> q = f_labspath (fsnode_of t j)" "j = 0 \<Longrightarrow> q \<in> {'''', ''/'', ''//''}" by blast+
  qed
  have sl: "same_links (fsnode_of s m) (fsnode_of t m)" if "m < n" for m
    using that by (cases "m = d") (simp_all add: td tm same_links_def)
  have le: "fs_le s t" using sp sl n sz new by (auto simp: fs_le_def t map_le_def)
  have "dirs_ok t" using wf_fsD(5) [OF wf] fs_le_is_dir [OF le] sz n by (auto simp: dirs_ok_def t)
  moreover have "root_ok (fsnode_of t 0)" using wf_fsD(1, 3) [OF wf] sp [of 0] n by (auto simp: root_ok_def same_place_def)
  ultimately show ?thesis using ch eo di le sz tn xf wf_fsD(2) [OF wf] by (simp add: wf_fs_def t dic)
qed

text \<open>In a consistent state the table is indexed by the names of the nodes.\<close>

lemma abs_path_inject:
  assumes "list_all good_name cs" "list_all good_name ds" shows "abs_path cs = abs_path ds \<longleftrightarrow> cs = ds"
proof
  assume "abs_path cs = abs_path ds"
  moreover have "py_split ''/'' (abs_path cs) = '''' # cs" "py_split ''/'' (abs_path ds) = '''' # ds"
    using py_split_abs_path [of "''''" cs] py_split_abs_path [of "''''" ds] assms by (simp_all add: list_all_iff good_name_def)
  ultimately show "cs = ds" by (metis list.inject)
qed simp

lemma good_name_key: "list_all good_name cs \<Longrightarrow> cs \<noteq> [] \<Longrightarrow> abs_path cs \<notin> {'''', ''/'', ''//''}"
  by (cases cs) (auto simp: good_name_def neq_Nil_conv)

lemma dict_names:
  assumes "wf_fs s" "n < fsize s" shows "fs_lookupDict s (key_path (fs_names s n)) = Some n"
proof (cases "n = 0")
  case True
  then show ?thesis using fs_names_root [OF assms(1)] wf_fsD(4) [OF assms(1)] by (simp add: key_path_def dict_ok_def)
next
  case False
  then have "fs_lookupDict s (f_labspath (fsnode_of s n)) = Some n" using wf_fsD(4) [OF assms(1)] assms(2) by (simp add: dict_ok_def)
  then show ?thesis using labspath_names [OF assms] False by (simp add: key_path_def)
qed

lemma dict_Some:
  assumes "wf_fs s" "list_all good_name cs" "fs_lookupDict s (key_path cs) = Some n"
  shows "n < fsize s" "fs_names s n = cs"
proof -
  have d: "n < fsize s" "0 < n \<longrightarrow> key_path cs = f_labspath (fsnode_of s n)" "n = 0 \<longrightarrow> key_path cs \<in> {'''', ''/'', ''//''}"
    using wf_fsD(4) [OF assms(1)] assms(3) by (simp_all add: dict_ok_def)
  show "n < fsize s" by (rule d)
  show "fs_names s n = cs"
  proof (cases "n = 0")
    case True
    then have "cs = []" using d(3) good_name_key [OF assms(2)] by (cases "cs = []") (simp_all add: key_path_def)
    then show ?thesis using True fs_names_root [OF assms(1)] by simp
  next
    case False
    have l: "f_labspath (fsnode_of s n) = abs_path (fs_names s n)" "list_all good_name (fs_names s n)" "fs_names s n \<noteq> []"
      using labspath_names [OF assms(1) d(1)] False by auto
    have "key_path cs = abs_path (fs_names s n)" using d(2) False l by simp
    moreover have "cs \<noteq> []" using calculation good_name_key [OF l(2, 3)] by (auto simp: key_path_def)
    ultimately show ?thesis using abs_path_inject [OF assms(2) l(2)] by (simp add: key_path_def)
  qed
qed

lemma names_inject: "wf_fs s \<Longrightarrow> n < fsize s \<Longrightarrow> m < fsize s \<Longrightarrow> fs_names s n = fs_names s m \<longleftrightarrow> n = m"
  by (metis dict_names option.inject)

lemma abspath_names:
  assumes "wf_fs s" "n < fsize s" shows "f_abspath (fsnode_of s n) = key_path (fs_names s n)"
  using assms(2)
proof (induction n rule: less_induct)
  case (less n)
  show ?case
  proof (cases "n = 0")
    case True
    then show ?thesis using wf_fsD(3) [OF assms(1)] fs_names_root [OF assms(1)] by (simp add: root_ok_def key_path_def)
  next
    case False
    let ?d = "f_dir (fsnode_of s n)"
    have d: "?d < n" using f_dir_less [OF assms(1) less.prems] False by simp
    have c: "child_ok (fsnode_of s ?d) n (fsnode_of s n)" using wf_fsD(6) [OF assms(1) less.prems] False by simp
    have r: "f_class (fsnode_of s ?d) = RootDir \<longleftrightarrow> ?d = 0"
      using wf_fsD(3) [OF assms(1)] wf_fsD(6) [OF assms(1), of ?d] d less.prems by (cases "?d = 0") (auto simp: child_ok_def root_ok_def)
    have z: "?d = 0 \<longleftrightarrow> fs_names s ?d = []" using labspath_names [OF assms(1), of ?d] d less.prems by auto
    show ?thesis
      using c r z less.IH [OF d] d less.prems fs_names_child [OF assms(1) less.prems] False
      by (auto simp: child_ok_def entry_abspath_def key_path_def)
  qed
qed

lemma entry_path_names:
  assumes "wf_fs s" "d < fsize s"
  shows "entry_labspath (fsnode_of s d) c = abs_path (fs_names s d @ [c])"
    "entry_abspath (fsnode_of s d) c = abs_path (fs_names s d @ [c])"
proof -
  have r: "f_class (fsnode_of s d) = RootDir \<longleftrightarrow> d = 0"
    using wf_fsD(3) [OF assms(1)] wf_fsD(6) [OF assms(1), of d] assms(2) by (cases "d = 0") (auto simp: child_ok_def root_ok_def)
  show "entry_labspath (fsnode_of s d) c = abs_path (fs_names s d @ [c])"
    using r labspath_names [OF assms] by (auto simp: entry_labspath_def)
  show "entry_abspath (fsnode_of s d) c = abs_path (fs_names s d @ [c])"
    using r abspath_names [OF assms] labspath_names [OF assms] by (auto simp: entry_abspath_def key_path_def)
qed

text \<open>Above a node there are directories.\<close>

lemma prefix_is_dir:
  assumes "wf_fs s" "n < fsize s" "i < length (fs_names s n)"
  shows "\<exists>m. fs_lookupDict s (key_path (take i (fs_names s n))) = Some m \<and> is_dir s m"
  using assms(2, 3)
proof (induction n rule: less_induct)
  case (less n)
  have n0: "0 < n" using less.prems labspath_names [OF assms(1) less.prems(1)] by (cases n) auto
  let ?d = "f_dir (fsnode_of s n)"
  have d: "?d < n" "?d < fsize s" using f_dir_less [OF assms(1) less.prems(1) n0] less.prems by simp_all
  have nm: "fs_names s n = fs_names s ?d @ [f_name (fsnode_of s n)]" using fs_names_child [OF assms(1) less.prems(1) n0] .
  show ?case
  proof (cases "i = length (fs_names s ?d)")
    case True
    have "is_dir s ?d" using wf_fsD(6) [OF assms(1) less.prems(1) n0] by (simp add: child_ok_def is_dir_def)
    then show ?thesis using dict_names [OF assms(1) d(2)] True nm by auto
  next
    case False
    then have "i < length (fs_names s ?d)" using nm less.prems by simp
    then show ?thesis using less.IH [OF d(1) d(2)] nm by simp
  qed
qed

lemma path_split_key: "list_all good_name cs \<Longrightarrow> good_name c \<Longrightarrow> path_split (abs_path (cs @ [c])) = (key_path cs, c)"
proof -
  assume g: "list_all good_name cs" "good_name c"
  have e: "path_split (abs_path (cs @ [c])) =
    (if set (abs_path cs) \<subseteq> {slash} then abs_path cs @ [slash] else rev (dropWhile ((=) slash) (rev (abs_path cs))), c)"
    using path_split_snoc [of c "abs_path cs"] g(2) by (simp add: good_name_def)
  show ?thesis
  proof (cases cs rule: rev_cases)
    case Nil
    then show ?thesis unfolding e by (simp add: key_path_def)
  next
    case (snoc ds d)
    then have d: "d \<noteq> ''''" "slash \<notin> set d" using g(1) by (simp_all add: good_name_def)
    then obtain e' x where x: "d = e' @ [x]" by (cases d rule: rev_cases) auto
    have "rev (dropWhile ((=) slash) (rev (abs_path cs))) = abs_path cs" using x d by (auto simp: snoc)
    moreover have "\<not> set (abs_path cs) \<subseteq> {slash}" using x d by (auto simp: snoc)
    ultimately show ?thesis unfolding e by (simp add: key_path_def snoc)
  qed
qed

text \<open>
  The specification of a look-up by names. A path may have the class \<open>k\<close> if its node has it or is an entry, or,
  where there is no node, if the disk does not hold something else.
\<close>

definition class_ok :: "fsys \<Rightarrow> fsclass \<Rightarrow> string list \<Rightarrow> bool" where
  "class_ok s k cs \<longleftrightarrow> (case fs_lookupDict s (key_path cs) of
       Some n \<Rightarrow> f_class (fsnode_of s n) = Entry \<or> fits k s n
     | None \<Rightarrow> disk_ok s k (abs_path cs))"

definition known :: "fsys \<Rightarrow> string list \<Rightarrow> bool" where
  "known s cs \<longleftrightarrow> fs_lookupDict s (key_path cs) \<noteq> None"

definition can_lookup :: "fsys \<Rightarrow> string list \<Rightarrow> fsclass \<Rightarrow> bool \<Rightarrow> bool" where
  "can_lookup s cs k create \<longleftrightarrow> class_ok s k cs \<and> (known s cs \<or> create \<and> (\<forall>i < length cs. class_ok s Dir (take i cs)))"

text \<open>The paths of the directories above a path, and the path itself.\<close>

definition on_path :: "string list \<Rightarrow> string \<Rightarrow> bool" where
  "on_path cs q \<longleftrightarrow> (\<exists>i \<le> length cs. q = key_path (take i cs))"

lemma on_path_snoc: "on_path cs q \<Longrightarrow> on_path (cs @ [c]) q"
  unfolding on_path_def by (metis append_Nil2 diff_is_0_eq le_SucI length_append_singleton take_0 take_append)

lemma on_path_self: "on_path cs (key_path cs)"
  by (auto simp: on_path_def intro: exI [of _ "length cs"])

lemma not_on_path: assumes "list_all good_name (cs @ [c])" shows "\<not> on_path cs (key_path (cs @ [c]))"
proof
  assume "on_path cs (key_path (cs @ [c]))"
  then obtain i where e: "key_path (cs @ [c]) = key_path (take i cs)" by (auto simp: on_path_def)
  have gi: "list_all good_name (take i cs)" using assms by (auto simp: list_all_iff dest: in_set_takeD)
  have "key_path (cs @ [c]) \<noteq> ''/''" using good_name_key [OF assms] by (simp add: key_path_def)
  then have "take i cs \<noteq> []" using e by (metis key_path_def)
  then have "cs @ [c] = take i cs" using e abs_path_inject [OF assms gi] by (simp add: key_path_def)
  then have "length (cs @ [c]) = length (take i cs)" by (rule arg_cong)
  then show False by simp
qed

definition lookup_post :: "fsys \<Rightarrow> string list \<Rightarrow> fsclass \<Rightarrow> bool \<Rightarrow> fsys \<times> fsid res \<Rightarrow> bool" where
  "lookup_post s cs k create tr \<longleftrightarrow> wf_fs (fst tr) \<and> fs_le s (fst tr) \<and>
     (\<forall>q. fs_lookupDict (fst tr) q = fs_lookupDict s q \<or> on_path cs q) \<and> (case snd tr of
       Inl e \<Rightarrow> \<not> can_lookup s cs k create \<and>
         e = (if \<not> known s cs \<and> \<not> create then no_such_node (key_path cs) else TypeError)
     | Inr n \<Rightarrow> can_lookup s cs k create \<and> n < fsize (fst tr) \<and> fits k (fst tr) n \<and> fs_names (fst tr) n = cs \<and>
         (known s cs \<longrightarrow> fs_lookupDict s (key_path cs) = Some n))"

lemma prefix_class_ok:
  assumes "wf_fs s" "list_all good_name cs" "known s cs" "i < length cs"
  shows "class_ok s Dir (take i cs)"
proof -
  obtain n where n: "fs_lookupDict s (key_path cs) = Some n" using assms(3) by (auto simp: known_def)
  note d = dict_Some [OF assms(1, 2) n]
  show ?thesis using prefix_is_dir [OF assms(1) d(1), of i] assms(4) unfolding d(2)
    by (auto simp: class_ok_def fits_def is_dir_def)
qed

lemma lookup_known:
  assumes "wf_fs s" "list_all good_name cs" "k \<noteq> RootDir" "fs_lookupDict s (key_path cs) = Some n"
  shows "lookup_post s cs k create (same_class_node k n s)"
proof -
  note d = dict_Some [OF assms(1, 2, 4)]
  from assms(1) d(1) assms(3) show ?thesis
  proof (cases rule: must_be_same_cases)
    case same
    then show ?thesis using assms(1, 4) d
      by (simp add: lookup_post_def same_class_node_def can_lookup_def class_ok_def known_def)
  next
    case (morphs t)
    then have "fs_names t n = cs" using fs_le_names [OF morphs(5) assms(1) d(1)] d(2) by simp
    then show ?thesis using morphs assms(1, 4) d
      by (simp add: lookup_post_def same_class_node_def can_lookup_def class_ok_def known_def)
  next
    case wrong
    then show ?thesis using assms(1, 4) d
      by (simp add: lookup_post_def same_class_node_def can_lookup_def class_ok_def known_def)
  qed
qed

lemma lookup_new:
  assumes wf: "wf_fs s" and g: "list_all good_name cs" "good_name c" and k: "k \<noteq> RootDir"
    and new: "fs_lookupDict s (key_path (cs @ [c])) = None" and le: "fs_le s0 s"
    and fr: "\<And>q. fs_lookupDict s q = fs_lookupDict s0 q \<or> on_path cs q"
    and d: "d < fsize s" "is_dir s d" "fs_names s d = cs" and kn: "\<not> known s0 (cs @ [c])"
    and ok: "\<forall>i < length (cs @ [c]). class_ok s0 Dir (take i (cs @ [c]))"
  shows "lookup_post s0 (cs @ [c]) k True (add_fsnode (abs_path (cs @ [c])) c d k s)"
proof -
  let ?p = "abs_path (cs @ [c])"
  have p: "?p = entry_labspath (fsnode_of s d) c" "entry_abspath (fsnode_of s d) c = ?p"
    using entry_path_names [OF wf d(1)] d(3) by simp_all
  have nw: "fs_lookupDict s ?p = None" using new by (simp add: key_path_def)
  have dk: "disk_ok s k ?p \<longleftrightarrow> disk_ok s0 k ?p" using le by (simp add: fs_le_def disk_ok_def)
  have fr0: "fs_lookupDict s q = fs_lookupDict s0 q \<or> on_path (cs @ [c]) q" for q
    using fr [of q] on_path_snoc by blast
  have c0: "class_ok s0 k (cs @ [c]) \<longleftrightarrow> disk_ok s0 k ?p" using kn by (simp add: class_ok_def known_def)
  from diskcheck_match_new [OF k, of s c d]
  consider "diskcheck_match s (new_fsnode k c d s) = Inl TypeError" "\<not> disk_ok s k ?p"
    | m where "diskcheck_match s (new_fsnode k c d s) = Inr ((new_fsnode k c d s)\<lparr>f_memo_stat := m\<rparr>)" "disk_ok s k ?p"
    unfolding p(2) by blast
  then show ?thesis
  proof cases
    case 1
    then show ?thesis using wf le k dk c0 kn fr0 by (simp add: lookup_post_def add_fsnode_def can_lookup_def)
  next
    case (2 m)
    obtain t where t: "add_fsnode ?p c d k s = (t, Inr (fsize s))"
      "t = upd_fsnode d (\<lambda>y. y\<lparr>f_entries := AList.update c (fsize s) (f_entries y), f_implicit := None\<rparr>)
         (s\<lparr>fs_nodes := fs_nodes s @ [(new_fsnode k c d s)\<lparr>f_memo_stat := m\<rparr>],
            fs_lookupDict := (fs_lookupDict s)(?p \<mapsto> fsize s)\<rparr>)"
      using 2 k by (simp add: add_fsnode_def Let_def)
    note w = wf_add_fsnode [OF wf k d(1, 2) g(2) p(1) nw refl refl t(2)]
    have "fs_lookupDict t (key_path (cs @ [c])) = Some (fsize s)" using w by (simp add: key_path_def)
    then have "fs_names t (fsize s) = cs @ [c]" using dict_Some(2) [of t "cs @ [c]"] w g by simp
    moreover have "fits k t (fsize s)" using w k by (cases k) (auto simp: fits_def)
    moreover have "fs_lookupDict t q = fs_lookupDict s0 q \<or> on_path (cs @ [c]) q" for q
      using fr0 [of q] on_path_self [of "cs @ [c]"] by (cases "q = ?p") (simp_all add: t(2) key_path_def)
    ultimately show ?thesis using w t(1) 2 dk c0 kn ok fs_le_trans [OF le]
      by (simp add: lookup_post_def can_lookup_def)
  qed
qed

lemma lookup_abs_post:
  assumes "wf_fs s" "list_all good_name cs" "k \<noteq> RootDir"
  shows "lookup_post s cs k create (lookup_abs (key_path cs) k create s)"
  using assms(2, 3)
proof (induction cs arbitrary: k create rule: rev_induct)
  case Nil
  have "fs_lookupDict s (key_path []) = Some 0" using wf_fsD(4) [OF assms(1)] by (simp add: dict_ok_def key_path_def)
  then show ?case using lookup_known [OF assms(1) Nil(1, 2)] by (subst lookup_abs.simps) simp
next
  case (snoc c cs)
  have g: "list_all good_name cs" "good_name c" using snoc.prems by simp_all
  show ?case
  proof (cases "fs_lookupDict s (key_path (cs @ [c]))")
    case (Some n)
    then show ?thesis using lookup_known [OF assms(1) snoc.prems] by (subst lookup_abs.simps) simp
  next
    case None
    have kp: "key_path (cs @ [c]) = abs_path (cs @ [c])" by (simp add: key_path_def)
    have kn: "\<not> known s (cs @ [c])" using None by (simp add: known_def)
    note ps = path_split_key [OF g]
    have ne: "key_path cs \<noteq> abs_path (cs @ [c])" using g(2) by (auto simp: key_path_def good_name_def)
    obtain s1 r where r: "lookup_abs (key_path cs) Dir True s = (s1, r)" by fastforce
    have IH: "lookup_post s cs Dir True (s1, r)" using snoc.IH [OF g(1), of Dir True] r by simp
    have pre: "(\<forall>i < length (cs @ [c]). class_ok s Dir (take i (cs @ [c]))) \<longleftrightarrow> can_lookup s cs Dir True"
      using prefix_class_ok [OF assms(1) g(1)] by (auto simp: can_lookup_def less_Suc_eq)
    show ?thesis
    proof (cases create)
      case False
      then show ?thesis using None kn assms(1) by (subst lookup_abs.simps) (simp add: lookup_post_def can_lookup_def)
    next
      case True
      have l: "lookup_abs (key_path (cs @ [c])) k create s =
        (case r of Inl e \<Rightarrow> (s1, Inl e) | Inr d \<Rightarrow> add_fsnode (abs_path (cs @ [c])) c d k s1)"
        using None True ne r unfolding kp by (subst lookup_abs.simps) (simp add: ps [simplified] split: sum.splits)
      show ?thesis
      proof (cases r)
        case (Inl e)
        have "\<not> can_lookup s (cs @ [c]) k create" using IH Inl kn pre by (simp add: lookup_post_def can_lookup_def)
        then show ?thesis using IH l kn True Inl on_path_snoc [of cs] by (auto simp: lookup_post_def)
      next
        case (Inr d)
        have d: "d < fsize s1" "is_dir s1 d" "fs_names s1 d = cs" "wf_fs s1" "fs_le s s1" "can_lookup s cs Dir True"
          using IH Inr by (simp_all add: lookup_post_def fits_def is_dir_def)
        have fr: "fs_lookupDict s1 q = fs_lookupDict s q \<or> on_path cs q" for q
          using IH by (simp add: lookup_post_def)
        have "fs_lookupDict s1 (key_path (cs @ [c])) = None"
          using fr [of "key_path (cs @ [c])"] None not_on_path [OF snoc.prems(1)] by simp
        then show ?thesis using lookup_new [OF d(4) g snoc.prems(2) _ d(5) fr d(1-3) kn] pre d(6) Inr l True by simp
      qed
    qed
  qed
qed

section \<open>Looking up a string\<close>

lemma split_acc_fields: "slash \<notin> set acc \<Longrightarrow> c \<in> set (split_acc ''/'' acc p) \<Longrightarrow> slash \<notin> set c"
proof (induction p arbitrary: acc)
  case Nil
  then show ?case by (simp add: split_acc.simps)
next
  case (Cons x p)
  show ?case
  proof (cases "x = slash")
    case True
    then have "c = rev acc \<or> c \<in> set (split_acc ''/'' [] p)" using Cons.prems(2) by (subst (asm) split_acc.simps) simp
    then show ?thesis using Cons.IH [of "[]"] Cons.prems(1) by auto
  next
    case False
    then have "\<not> prefix ''/'' (x # p)" by simp
    then have "c \<in> set (split_acc ''/'' (x # acc) p)" using Cons.prems(2) by (subst (asm) split_acc.simps) simp
    then show ?thesis using Cons.IH [of "x # acc"] Cons.prems(1) False by simp
  qed
qed

lemma py_split_fields: "c \<in> set (py_split ''/'' p) \<Longrightarrow> slash \<notin> set c"
  unfolding py_split_def by (rule split_acc_fields [of "[]"]) simp_all

lemma abs_path_split: "abs_path (py_split ''/'' p) = slash # p"
  by (simp add: py_join_slash [symmetric] py_join_split)

text \<open>
  The names of the node a string stands for, looked up in the directory \<open>d\<close>: the components are taken one
  after the other, \<open>..\<close> goes up and stays at the root, and a hash sign starts at the top directory.
\<close>

definition resolve :: "fsys \<Rightarrow> fsid \<Rightarrow> string \<Rightarrow> string list" where
  "resolve s d p =
     (if take 1 p = ''#'' then norm_comps True (fs_names s (the (fs_Top s))) (py_split ''/'' (drop 1 p))
      else norm_comps True (if isabs p then [] else fs_names s d) (py_split ''/'' p))"

text \<open>
  Strings without line breaks that do not start with exactly two slashes; \<open>#/\<close> is not used where the top
  directory is the root.
\<close>

definition plain_path :: "fsys \<Rightarrow> string \<Rightarrow> bool" where
  "plain_path s p \<longleftrightarrow> CHR 0x0A \<notin> set p \<and> initial_slashes p \<noteq> 2 \<and>
     (take 1 p = ''#'' \<longrightarrow> fs_Top s \<noteq> None \<and> (prefix ''#/'' p \<longrightarrow> fs_Top s \<noteq> Some 0))"

lemma needs_normpath_plain: "CHR 0x0A \<notin> set p \<Longrightarrow> needs_normpath p \<longleftrightarrow> slash \<in> set p \<or> p = ''.'' \<or> p = ''..''"
proof -
  assume nl: "CHR 0x0A \<notin> set p"
  then have w: "takeWhile (\<lambda>c. c \<noteq> CHR 0x0A) p = p" by (subst takeWhile_eq_all_conv) blast
  have "p \<noteq> ''.'' @ [CHR 0x0A]" "p \<noteq> ''..'' @ [CHR 0x0A]" using nl by auto
  then show ?thesis unfolding needs_normpath_def w by simp
qed

lemma lookup_path_relative:
  assumes g: "list_all good_name ns" and nl: "CHR 0x0A \<notin> set p" and r: "initial_hash \<or> \<not> isabs p" and h: "isabs p \<longrightarrow> ns \<noteq> []"
    and t: "t = norm_comps True ns (py_split ''/'' p)"
  shows "lookup_path (abs_path ns) initial_hash p = key_path t \<or> t = [] \<and> lookup_path (abs_path ns) initial_hash p = ''''"
proof (cases "needs_normpath p")
  case True
  then have ne: "p \<noteq> ''''" by (auto simp: needs_normpath_def)
  let ?cs = "ns @ py_split ''/'' p"
  have q: "abs_path ns @ ''/'' @ p = abs_path ?cs" by (simp add: abs_path_split)
  have "initial_slashes (abs_path ?cs) = 1"
  proof (cases ns)
    case Nil
    then have "\<not> isabs p" using h by simp
    then obtain x y where "p = x # y" "x \<noteq> slash" using ne by (cases p) (auto simp: isabs_def)
    then show ?thesis by (simp add: Nil abs_path_split initial_slashes_def)
  next
    case (Cons a as)
    then show ?thesis using g initial_slashes_abs_path [of a "as @ py_split ''/'' p"] by (simp add: good_name_def)
  qed
  moreover have "\<forall>c \<in> set ?cs. slash \<notin> set c" using g py_split_fields by (auto simp: list_all_iff good_name_def)
  ultimately have "normpath (abs_path ?cs) = key_path (norm_comps True [] ?cs)" by (rule normpath_abs_path)
  then show ?thesis using True ne r g q by (simp add: lookup_path_def t norm_comps_append norm_comps_good)
next
  case False
  then have p: "slash \<notin> set p" "p \<noteq> ''.''" "p \<noteq> ''..''" using needs_normpath_plain [OF nl] by auto
  have sp: "py_split ''/'' p = [p]" using py_split_no_sep [OF p(1)] .
  show ?thesis
  proof (cases "p = ''''")
    case True
    have "t = ns" unfolding t sp using True by simp
    then show ?thesis using False True by (auto simp: lookup_path_def key_path_def isabs_def)
  next
    case ne: False
    then show ?thesis using False r p by (auto simp: lookup_path_def t sp key_path_def isabs_def)
  qed
qed

lemma lookup_path_absolute:
  assumes nl: "CHR 0x0A \<notin> set p" and a: "isabs p" and i: "initial_slashes p \<noteq> 2"
  shows "lookup_path b False p = key_path (norm_comps True [] (py_split ''/'' p))"
proof -
  obtain r where r: "p = slash # r" using a by (cases p) (auto simp: isabs_def)
  have s: "py_split ''/'' p = '''' # py_split ''/'' r" using py_split_slash [of "''''" r] r by simp
  have q: "abs_path (py_split ''/'' r) = p" using r by (simp add: abs_path_split)
  have "initial_slashes p = 1" using i r by (auto simp: initial_slashes_def split: if_splits)
  then have "normpath p = key_path (norm_comps True [] (py_split ''/'' r))"
    using normpath_abs_path [of "py_split ''/'' r"] py_split_fields [of _ r] q by metis
  then show ?thesis unfolding s using a r needs_normpath_plain [OF nl] by (simp add: lookup_path_def)
qed

lemma lookup_abs_root: "wf_fs s \<Longrightarrow> lookup_abs '''' k create s = lookup_abs (key_path []) k create s"
  using wf_fsD(4) [of s] by (simp add: lookup_abs.simps key_path_def dict_ok_def)

lemma resolve_good:
  assumes "wf_fs s" "d < fsize s" "plain_path s p" shows "list_all good_name (resolve s d p)"
proof -
  have t: "list_all good_name (fs_names s t)" if "fs_Top s = Some t" for t
    using wf_fsD(5) [OF assms(1)] labspath_names [OF assms(1), of t] that by (simp add: dirs_ok_def)
  show ?thesis
    unfolding resolve_def
    using assms(3) t labspath_names [OF assms(1, 2)] py_split_fields by (auto simp: plain_path_def intro!: norm_comps_names)
qed

text \<open>A look-up of a string is the look-up of the names it stands for.\<close>

lemma lookup_in_resolve:
  assumes "wf_fs s" "d < fsize s" "plain_path s p"
    and "dopt = Some d \<or> dopt = None \<and> fs_cwd s = Some d"
  shows "lookup_in (FStr p) dopt k create s = lookup_abs (key_path (resolve s d p)) k create s"
proof -
  have ns: "f_labspath (fsnode_of s n) = abs_path (fs_names s n)" "list_all good_name (fs_names s n)" "fs_names s n = [] \<longleftrightarrow> n = 0"
    if "n < fsize s" for n using labspath_names [OF assms(1) that] by auto
  show ?thesis
  proof (cases "take 1 p = ''#''")
    case True
    then obtain q t where q: "p = CHR ''#'' # q" "fs_Top s = Some t" using assms(3) by (cases p) (auto simp: plain_path_def)
    have t: "t < fsize s" using wf_fsD(5) [OF assms(1)] q by (simp add: dirs_ok_def)
    have "isabs q \<longrightarrow> fs_names s t \<noteq> []" using assms(3) q ns(3) [OF t] by (auto simp: plain_path_def isabs_def)
    then have "lookup_path (abs_path (fs_names s t)) True q = key_path (resolve s d p) \<or>
        resolve s d p = [] \<and> lookup_path (abs_path (fs_names s t)) True q = ''''"
      using assms(3) q by (intro lookup_path_relative [OF ns(2) [OF t]]) (auto simp: plain_path_def resolve_def)
    then show ?thesis using q ns(1) [OF t] assms(1) lookup_abs_root [OF assms(1)]
      by (auto simp: lookup_in_def Let_def)
  next
    case False
    show ?thesis
    proof (cases "isabs p")
      case True
      then show ?thesis using False assms(1, 3) lookup_path_absolute [of p "''''"]
        by (simp add: lookup_in_def Let_def plain_path_def resolve_def)
    next
      case r: False
      have "lookup_path (abs_path (fs_names s d)) False p = key_path (resolve s d p) \<or>
          resolve s d p = [] \<and> lookup_path (abs_path (fs_names s d)) False p = ''''"
        using assms(3) r False by (intro lookup_path_relative [OF ns(2) [OF assms(2)]]) (auto simp: plain_path_def resolve_def)
      then show ?thesis using False r assms(4) ns(1) [OF assms(2)] lookup_abs_root [OF assms(1)]
        by (auto simp: lookup_in_def Let_def)
    qed
  qed
qed

section \<open>The file system at the start\<close>

lemma RootDir_init_ok: "root_ok (RootDir_init 0) \<and> map_of (f_entries (RootDir_init 0)) = [''.'' \<mapsto> 0, ''..'' \<mapsto> 0]"
  by (auto simp: root_ok_def RootDir_init_def Dir_morph_def FsBase_init_def Let_def update_conv')

lemma get_root_wf:
  assumes "fs_nodes s = []" "fs_Root s = None" "fs_Top s = None" "fs_cwd s = None"
  shows "wf_fs (fst (get_root s))" "fs_Top (fst (get_root s)) = None" "fs_cwd (fst (get_root s)) = None" "fsize (fst (get_root s)) = 1"
  using assms RootDir_init_ok
  by (auto simp: get_root_def Let_def wf_fs_def dict_ok_def dirs_ok_def entries_ok_def root_ok_def split: if_splits)

lemma same_place_path [simp]: "same_place x (x\<lparr>f_path := a, f_tpath := b\<rparr>)"
  by (simp add: same_place_def)

lemma same_links_path [simp]: "same_links x (x\<lparr>f_path := a, f_tpath := b\<rparr>)"
  by (simp add: same_links_def)

text \<open>A file system over an absolute path is consistent, and its top directory has that path.\<close>

lemma FS_init_wf:
  assumes p: "isabs p" "CHR 0x0A \<notin> set p" "initial_slashes p \<noteq> 2" and i: "FS_init disk check p = (s, Inr ())"
  shows "wf_fs s \<and> (\<exists>t. fs_Top s = Some t \<and> fs_cwd s = Some t \<and> fs_names s t = norm_comps True [] (py_split ''/'' p))"
proof -
  let ?s0 = "\<lparr>fs_nodes = [], fs_lookupDict = Map.empty, fs_Root = None, fs_Top = None, fs_cwd = None,
          fs_disk = disk, fs_match = check\<rparr>"
  let ?cs = "norm_comps True [] (py_split ''/'' p)"
  define s1 where "s1 = fst (get_root ?s0)"
  have w: "wf_fs s1" unfolding s1_def by (rule get_root_wf) simp_all
  have g: "list_all good_name ?cs" using py_split_fields by (auto intro!: norm_comps_names)
  have nh: "take 1 p \<noteq> ''#''" using p(1) by (cases p) (auto simp: isabs_def)
  have l: "FS_Dir (FStr p) None True ?s0 = lookup_abs (key_path ?cs) Dir True s1"
    using p nh lookup_path_absolute [OF p(2, 1, 3), of "''''"] by (simp add: FS_Dir_def fs_lookup_def lookup_in_def Let_def s1_def)
  have post: "lookup_post s1 ?cs Dir True (lookup_abs (key_path ?cs) Dir True s1)" by (rule lookup_abs_post [OF w g]) simp
  obtain s2 t where t: "lookup_abs (key_path ?cs) Dir True s1 = (s2, Inr t)"
    and s: "s = (upd_fsnode t (\<lambda>x. x\<lparr>f_path := ''.'', f_tpath := ''.''\<rparr>) s2)\<lparr>fs_Top := Some t, fs_cwd := Some t\<rparr>"
    using i by (auto simp: FS_init_def l split: prod.splits sum.splits)
  let ?u = "upd_fsnode t (\<lambda>x. x\<lparr>f_path := ''.'', f_tpath := ''.''\<rparr>) s2"
  have q: "wf_fs s2" "t < fsize s2" "fs_names s2 t = ?cs" "is_dir s2 t"
    using post t by (simp_all add: lookup_post_def fits_def is_dir_def)
  have wu: "wf_fs ?u" by (rule wf_upd_fsnode [OF q(1, 2)]) simp_all
  have le: "fs_le s2 ?u" by (rule fs_le_upd_fsnode [OF q(2)]) simp_all
  have d: "is_dir ?u t" "fs_names ?u t = ?cs" using fs_le_is_dir [OF le q(2, 4)] fs_le_names [OF le q(1, 2)] q(3) by simp_all
  have "wf_fs s" using wu d(1) q(2) unfolding s
    by (simp add: wf_fs_def dict_ok_def dirs_ok_def entries_ok_def is_dir_def)
  moreover have "fs_names s t = fs_names ?u t" by (simp add: s fs_names_def)
  ultimately show ?thesis using d(2) by (simp add: s)
qed

section \<open>Properties\<close>

lemma fs_lookup_dir:
  assumes "d < fsize s" "is_dir s d" "wf_fs s" "plain_path s p"
  shows "fs_lookup (FStr p) (Some (FNode d)) k create s = lookup_abs (key_path (resolve s d p)) k create s"
proof (cases "take 1 p = ''#''")
  case True
  have "lookup_in (FStr p) None k create s = lookup_in (FStr p) (Some d) k create s"
    using True by (simp add: lookup_in_def Let_def)
  then show ?thesis using True lookup_in_resolve [OF assms(3, 1, 4), of "Some d"] by (simp add: fs_lookup_def is_hash_def)
next
  case False
  then show ?thesis using assms(2) lookup_in_resolve [OF assms(3, 1, 4), of "Some d"] by (simp add: fs_lookup_def is_hash_def)
qed

lemma fs_lookup_post:
  assumes "wf_fs s" "d < fsize s" "is_dir s d" "plain_path s p" "k \<noteq> RootDir"
  shows "lookup_post s (resolve s d p) k create (fs_lookup (FStr p) (Some (FNode d)) k create s)"
  unfolding fs_lookup_dir [OF assms(2, 3, 1, 4)]
  by (rule lookup_abs_post [OF assms(1) resolve_good [OF assms(1, 2, 4)] assms(5)])

text \<open>A path that was looked up keeps its node.\<close>

lemma lookup_again:
  assumes "wf_fs s" "n < fsize s" "d < fsize s" "is_dir s d" "plain_path s p" "resolve s d p = fs_names s n"
  shows "fs_lookup (FStr p) (Some (FNode d)) Entry create s = (s, Inr n)"
proof -
  have "fs_lookupDict s (key_path (resolve s d p)) = Some n" using dict_names [OF assms(1, 2)] assms(6) by simp
  then show ?thesis unfolding fs_lookup_dir [OF assms(3, 4, 1, 5)]
    by (subst lookup_abs.simps) (simp add: same_class_node_def must_be_same_def split: fsclass.splits)
qed

text \<open>
  C9: Looking up a string in a directory does what the path says. The components are followed one
  after the other from the directory, from the root for an absolute path and from the top directory after a
  hash sign, and \<open>..\<close> goes up. If the node exists with the class asked for, or as an entry, it
  is returned; otherwise it is created, with the directories above it, where \<open>create\<close> allows it, no file
  stands in the way and the disk holds nothing of another kind. In every other case the error is
  \<open>TypeError\<close>, or \<open>UserError\<close> for a missing node that is not to be created. The tree stays consistent, old nodes
  keep their places, nothing off the path is added, and the same string finds the same node again.\<close>
theorem FS_lookup_correct:
  assumes "wf_fs s" "d < fsize s" "is_dir s d" "plain_path s p" "k \<noteq> RootDir"
    and "fs_lookup (FStr p) (Some (FNode d)) k create s = (t, r)"
  shows "wf_fs t \<and> fs_le s t \<and> (\<forall>q. fs_lookupDict t q = fs_lookupDict s q \<or> on_path (resolve s d p) q) \<and>
    (case r of
       Inl e \<Rightarrow> \<not> can_lookup s (resolve s d p) k create \<and>
         e = (if \<not> known s (resolve s d p) \<and> \<not> create then no_such_node (key_path (resolve s d p)) else TypeError)
     | Inr n \<Rightarrow> can_lookup s (resolve s d p) k create \<and> fits k t n \<and> fs_names t n = resolve s d p \<and>
         fs_lookup (FStr p) (Some (FNode d)) Entry False t = (t, Inr n))"
proof -
  have post: "lookup_post s (resolve s d p) k create (t, r)" using fs_lookup_post [OF assms(1-5), of create] assms(6) by simp
  show ?thesis
  proof (cases r)
    case (Inl e)
    then show ?thesis using post by (simp add: lookup_post_def)
  next
    case (Inr n)
    have q: "wf_fs t" "fs_le s t" "n < fsize t" "fs_names t n = resolve s d p" using post Inr by (simp_all add: lookup_post_def)
    have tp: "plain_path t p" using assms(4) q(2) by (simp add: plain_path_def fs_le_def)
    have "fs_names t x = fs_names s x" if "x < fsize s" for x using fs_le_names [OF q(2) assms(1) that] .
    moreover have "fs_Top t = fs_Top s" "\<And>x. fs_Top s = Some x \<Longrightarrow> x < fsize s"
      using q(2) wf_fsD(5) [OF assms(1)] by (auto simp: fs_le_def dirs_ok_def)
    ultimately have "resolve t d p = fs_names t n"
      using q(4) assms(2, 4) by (auto simp: resolve_def plain_path_def)
    moreover have "d < fsize t" "is_dir t d" using fs_leD [OF q(2) assms(2)] fs_le_is_dir [OF q(2) assms(2, 3)] by simp_all
    ultimately have "fs_lookup (FStr p) (Some (FNode d)) Entry False t = (t, Inr n)"
      using lookup_again [OF q(1, 3) _ _ tp] by blast
    then show ?thesis using post Inr by (simp add: lookup_post_def)
  qed
qed

text \<open>A file system at \<open>/r\<close> with nothing on the disk.\<close>

definition sample_fs :: fsys where
  "sample_fs = fst (FS_init (\<lambda>_. None) True ''/r'')"

lemma sample_fs_wf: "wf_fs sample_fs" "fs_Top sample_fs = Some 1" "1 < fsize sample_fs" "is_dir sample_fs 1" "fs_cwd sample_fs = Some 1"
proof -
  have "snd (FS_init (\<lambda>_. None) True ''/r'') = Inr ()" by code_simp
  then have i: "FS_init (\<lambda>_. None) True ''/r'' = (sample_fs, Inr ())" by (metis prod.collapse sample_fs_def)
  show "wf_fs sample_fs" using FS_init_wf [OF _ _ _ i] by (simp add: isabs_def initial_slashes_def)
  show "fs_Top sample_fs = Some 1" "1 < fsize sample_fs" "is_dir sample_fs 1" "fs_cwd sample_fs = Some 1" by code_simp+
qed

theorem FS_lookup_correct_witness:
  "wf_fs (fst (fs_lookup (FStr ''a/../b/c.h'') (Some (FNode 1)) File True sample_fs)) \<and>
   resolve sample_fs 1 ''a/../b/c.h'' = [''r'', ''b'', ''c.h''] \<and>
   snd (fs_lookup (FStr ''a/../b/c.h'') (Some (FNode 1)) File True sample_fs) = Inr 3"
proof -
  have p: "plain_path sample_fs ''a/../b/c.h''" by code_simp
  have "snd (fs_lookup (FStr ''a/../b/c.h'') (Some (FNode 1)) File True sample_fs) = Inr 3" by code_simp
  moreover have "resolve sample_fs 1 ''a/../b/c.h'' = [''r'', ''b'', ''c.h'']" by code_simp
  moreover have "wf_fs (fst (fs_lookup (FStr ''a/../b/c.h'') (Some (FNode 1)) File True sample_fs))"
    by (rule FS_lookup_correct [OF sample_fs_wf(1, 3, 4) p _ prod.collapse [symmetric], THEN conjunct1]) simp
  ultimately show ?thesis by blast
qed

section \<open>Every path has one node\<close>

text \<open>\<open>FS.chdir\<close> without changing the directory of the process.\<close>

definition FS_chdir :: "fsid \<Rightarrow> fsys \<Rightarrow> fsys" where
  "FS_chdir d s = s\<lparr>fs_cwd := Some d\<rparr>"

text \<open>The states that a program reaches with look-ups of strings and nodes and changes of directory.\<close>

inductive fs_reach :: "fsys \<Rightarrow> bool" where
  reach_init: "FS_init disk check p = (s, Inr ()) \<Longrightarrow> isabs p \<Longrightarrow> CHR 0x0A \<notin> set p \<Longrightarrow> initial_slashes p \<noteq> 2 \<Longrightarrow> fs_reach s"
| reach_lookup: "fs_reach s \<Longrightarrow> d < fsize s \<Longrightarrow> is_dir s d \<Longrightarrow> plain_path s p \<Longrightarrow> k \<noteq> RootDir \<Longrightarrow>
    fs_reach (fst (fs_lookup (FStr p) (Some (FNode d)) k create s))"
| reach_node: "fs_reach s \<Longrightarrow> n < fsize s \<Longrightarrow> k \<noteq> RootDir \<Longrightarrow> fs_reach (fst (fs_lookup (FNode n) None k create s))"
| reach_chdir: "fs_reach s \<Longrightarrow> d < fsize s \<Longrightarrow> is_dir s d \<Longrightarrow> fs_reach (FS_chdir d s)"

lemma fs_lookup_node_wf:
  assumes "wf_fs s" "n < fsize s" "k \<noteq> RootDir" shows "wf_fs (fst (fs_lookup (FNode n) None k create s))"
proof -
  have "fs_lookup (FNode n) None k create s = same_class_node k n s" by (simp add: fs_lookup_def lookup_in_def)
  then show ?thesis
    using lookup_known [OF assms(1) _ assms(3) dict_names [OF assms(1, 2)]] labspath_names [OF assms(1, 2)]
    by (simp add: lookup_post_def)
qed

lemma fs_reach_wf: "fs_reach s \<Longrightarrow> wf_fs s"
proof (induction rule: fs_reach.induct)
  case (reach_init disk check p s)
  then show ?case using FS_init_wf by blast
next
  case (reach_lookup s d p k create)
  then show ?case using fs_lookup_post [of s d p k create] by (simp add: lookup_post_def)
next
  case (reach_node s n k create)
  then show ?case using fs_lookup_node_wf by blast
next
  case (reach_chdir s d)
  then show ?case by (simp add: FS_chdir_def wf_fs_def dict_ok_def dirs_ok_def entries_ok_def is_dir_def)
qed



text \<open>
  The restriction to plain paths is needed: a path with two slashes in front has a node of its own, so two nodes
  stand for \<open>/a\<close>, and where the top directory is the root, \<open>#/a\<close> is such a path although \<open>#a\<close> is not.
\<close>

lemma two_slashes_two_nodes:
  "(let (s1, r1) = FS_Entry (FStr ''/a'') None True sample_fs; (s2, r2) = FS_Entry (FStr ''//a'') None True s1
    in r1 = Inr 2 \<and> r2 = Inr 3 \<and> f_abspath (fsnode_of s2 2) = f_abspath (fsnode_of s2 3))"
  by code_simp

lemma hash_slash_two_nodes:
  "(let (s1, r1) = FS_Entry (FStr ''#a'') None True (fst (FS_init (\<lambda>_. None) True ''/''));
        (s2, r2) = FS_Entry (FStr ''#/a'') None True s1
    in r1 = Inr 1 \<and> r2 = Inr 2 \<and> f_abspath (fsnode_of s2 1) = f_abspath (fsnode_of s2 2))"
  by code_simp

end
