(* ===== verification/FsPath.thy ===== *)
theory FsPath
  imports FsLookup
begin

text \<open>
  Paths of nodes: \<open>is_under\<close>, \<open>get_path\<close> and \<open>rel_path\<close> of \<open>SCons/Node/FS.py\<close> and the attributes
  that \<open>EntryProxy\<close> offers in command lines, with the proof that a path of a node leads back to the node.
\<close>

section \<open>The methods\<close>

text \<open>\<open>is_under\<close> of \<open>Base\<close> and \<open>RootDir\<close>.\<close>

partial_function (option) is_under :: "fsys \<Rightarrow> fsid \<Rightarrow> fsid \<Rightarrow> bool option" where
  "is_under s n d = (if n = d then Some True
     else if f_class (fsnode_of s n) = RootDir then Some False
     else is_under s (f_dir (fsnode_of s n)) d)"

text \<open>\<open>get_path(dir)\<close>; without an argument it takes the current directory, which \<open>FS.__init__\<close> sets.\<close>

definition get_path :: "fsys \<Rightarrow> fsid \<Rightarrow> fsid option \<Rightarrow> string res" where
  "get_path s n dir = (case (case dir of None \<Rightarrow> fs_cwd s | Some d \<Rightarrow> Some d) of
       None \<Rightarrow> Inl AttributeError
     | Some d \<Rightarrow>
         (if n = d then Inr ''.''
          else let es = f_elements (fsnode_of s n);
                   rest = (case find_index ((=) d) es of Some i \<Rightarrow> drop (Suc i) es | None \<Rightarrow> es)
               in Inr (py_join ''/'' (map (\<lambda>m. f_name (fsnode_of s m)) rest))))"

text \<open>
  \<open>Dir.rel_path\<close>. Its memo is left out: the value depends on the place of two nodes in the tree, which never
  changes.
\<close>

partial_function (option) rel_path :: "fsys \<Rightarrow> fsid \<Rightarrow> fsid \<Rightarrow> string option" where
  "rel_path s d n = (if n = d then Some ''.''
     else case find_index ((=) n) (f_elements (fsnode_of s d)) of
         None \<Rightarrow>
           (if f_class (fsnode_of s n) = RootDir then Some (f_name (fsnode_of s n))
            else Option.bind (rel_path s d (f_dir (fsnode_of s n))) (\<lambda>r.
              Some (if r = ''.'' then f_name (fsnode_of s n) else r @ ''/'' @ f_name (fsnode_of s n))))
       | Some j \<Rightarrow>
           (let i = Suc j
            in Some (py_join ''/'' (replicate (length (f_elements (fsnode_of s d)) - i) ''..'' @
                 map (\<lambda>m. f_name (fsnode_of s m)) (drop i (f_elements (fsnode_of s n)))))))"

text \<open>\<open>File.rel_path\<close> starts at the directory of the file.\<close>

definition File_rel_path :: "fsys \<Rightarrow> fsid \<Rightarrow> fsid \<Rightarrow> string option" where
  "File_rel_path s f n = rel_path s (f_dir (fsnode_of s f)) n"

text \<open>\<open>target_from_source\<close>, which looks up a node beside this one with another prefix and suffix.\<close>

definition target_from_source :: "fsid \<Rightarrow> string \<Rightarrow> string \<Rightarrow> fsys \<Rightarrow> fsys \<times> fsid res" where
  "target_from_source n pre suf s =
     Dir_Entry (f_dir (fsnode_of s n)) (pre @ fst (posix_splitext (f_name (fsnode_of s n))) @ suf) s"

section \<open>Places in the tree\<close>

lemma elements_less:
  assumes "wf_fs s" "n < fsize s" "m \<in> set (f_elements (fsnode_of s n))" shows "m \<le> n"
  using assms(2, 3)
proof (induction n rule: less_induct)
  case (less n)
  show ?case
  proof (cases "n = 0")
    case True
    then show ?thesis using less.prems wf_fsD(3) [OF assms(1)] by (simp add: root_ok_def)
  next
    case False
    then show ?thesis using less f_dir_less [OF assms(1) less.prems(1)] wf_fsD(6) [OF assms(1) less.prems(1)]
      by (fastforce simp: child_ok_def)
  qed
qed

lemma is_under_eq:
  assumes "wf_fs s" "n < fsize s"
  shows "is_under s n d = Some (d \<in> set (f_elements (fsnode_of s n)))"
  using assms(2)
proof (induction n rule: less_induct)
  case (less n)
  show ?case
  proof (cases "n = 0")
    case True
    then show ?thesis using wf_fsD(3) [OF assms(1)] by (subst is_under.simps) (auto simp: root_ok_def)
  next
    case False
    have c: "child_ok (fsnode_of s (f_dir (fsnode_of s n))) n (fsnode_of s n)" using wf_fsD(6) [OF assms(1) less.prems] False by simp
    then have d: "f_dir (fsnode_of s n) < n" by (simp add: child_ok_def)
    show ?thesis using c less.IH [OF d] d less.prems by (subst is_under.simps) (auto simp: child_ok_def)
  qed
qed

text \<open>The elements of a path are the places on the way.\<close>

lemma elements_length: "wf_fs s \<Longrightarrow> n < fsize s \<Longrightarrow> length (f_elements (fsnode_of s n)) = Suc (length (fs_names s n))"
  using f_elements_neq_Nil [of s n] by (cases "f_elements (fsnode_of s n)") (simp_all add: fs_names_def)

lemma elements_last: "wf_fs s \<Longrightarrow> n < fsize s \<Longrightarrow> last (f_elements (fsnode_of s n)) = n"
  using wf_fsD(3) [of s] wf_fsD(6) [of s n] by (cases "n = 0") (simp_all add: root_ok_def child_ok_def)

lemma elements_self: "wf_fs s \<Longrightarrow> n < fsize s \<Longrightarrow> n \<in> set (f_elements (fsnode_of s n))"
  using elements_last [of s n] f_elements_neq_Nil [of s n] last_in_set by metis

lemma elements_prefix:
  assumes "wf_fs s" "n < fsize s" "i < length (f_elements (fsnode_of s n))"
  shows "f_elements (fsnode_of s (f_elements (fsnode_of s n) ! i)) = take (Suc i) (f_elements (fsnode_of s n))"
  using assms(2, 3)
proof (induction n rule: less_induct)
  case (less n)
  show ?case
  proof (cases "i = length (f_elements (fsnode_of s n)) - 1")
    case True
    then show ?thesis using elements_last [OF assms(1) less.prems(1)] f_elements_neq_Nil [OF assms(1) less.prems(1)]
      by (simp add: last_conv_nth)
  next
    case False
    have n0: "0 < n" using False less.prems wf_fsD(3) [OF assms(1)] by (cases n) (auto simp: root_ok_def)
    let ?d = "f_dir (fsnode_of s n)"
    have e: "f_elements (fsnode_of s n) = f_elements (fsnode_of s ?d) @ [n]" "?d < n"
      using wf_fsD(6) [OF assms(1) less.prems(1) n0] by (simp_all add: child_ok_def)
    then have "i < length (f_elements (fsnode_of s ?d))" using False less.prems by simp
    then show ?thesis using less.IH [OF e(2)] e less.prems by (simp add: nth_append)
  qed
qed

lemma elements_root: "wf_fs s \<Longrightarrow> n < fsize s \<Longrightarrow> f_elements (fsnode_of s n) ! 0 = 0"
proof (induction n rule: less_induct)
  case (less n)
  show ?case
  proof (cases "n = 0")
    case True
    then show ?thesis using wf_fsD(3) [OF less.prems(1)] by (simp add: root_ok_def)
  next
    case False
    have d: "f_dir (fsnode_of s n) < n" using f_dir_less [OF less.prems] False by simp
    then have "f_elements (fsnode_of s (f_dir (fsnode_of s n))) ! 0 = 0" "f_elements (fsnode_of s (f_dir (fsnode_of s n))) \<noteq> []"
      using less.IH f_elements_neq_Nil [OF less.prems(1)] less.prems by simp_all
    then show ?thesis using wf_fsD(6) [OF less.prems] False by (simp add: child_ok_def nth_append)
  qed
qed

lemma find_index_Some: "find_index P xs = Some i \<Longrightarrow> i < length xs \<and> P (xs ! i)"
  by (induction xs arbitrary: i) (auto split: if_splits)

lemma find_index_None: "find_index P xs = None \<longleftrightarrow> (\<forall>x \<in> set xs. \<not> P x)"
  by (induction xs) auto

lemma names_of_element:
  assumes "wf_fs s" "n < fsize s" "find_index ((=) m) (f_elements (fsnode_of s n)) = Some i"
  shows "f_elements (fsnode_of s m) = take (Suc i) (f_elements (fsnode_of s n))" "fs_names s m = take i (fs_names s n)"
    "i \<le> length (fs_names s n)"
proof -
  have i: "i < length (f_elements (fsnode_of s n))" "f_elements (fsnode_of s n) ! i = m" using find_index_Some [OF assms(3)] by auto
  show e: "f_elements (fsnode_of s m) = take (Suc i) (f_elements (fsnode_of s n))" using elements_prefix [OF assms(1, 2) i(1)] i(2) by simp
  show "fs_names s m = take i (fs_names s n)" unfolding fs_names_def e by (cases "f_elements (fsnode_of s n)") (simp_all add: take_map)
  show "i \<le> length (fs_names s n)" using i(1) elements_length [OF assms(1, 2)] by simp
qed

section \<open>Paths that lead to a node\<close>

text \<open>The path that goes up \<open>k\<close> directories and down the names \<open>ms\<close>.\<close>

definition up_down :: "nat \<Rightarrow> string list \<Rightarrow> string" where
  "up_down k ms = (if k = 0 \<and> ms = [] then ''.'' else py_join ''/'' (replicate k ''..'' @ ms))"

lemma path_split_join:
  "cs \<noteq> [] \<Longrightarrow> \<forall>c \<in> set cs. slash \<notin> set c \<Longrightarrow> py_split ''/'' (py_join ''/'' cs) = cs"
  using py_split_abs_path [of "hd cs" "tl cs"] py_join_slash [of cs] by (cases cs) auto

lemma up_down_split:
  "list_all good_name ms \<Longrightarrow> py_split ''/'' (up_down k ms) = (if k = 0 \<and> ms = [] then [''.''] else replicate k ''..'' @ ms)"
proof (cases "k = 0 \<and> ms = []")
  case True
  then show ?thesis using py_split_no_sep [of slash "''.''"] by (simp add: up_down_def)
next
  case False
  assume "list_all good_name ms"
  then have "\<forall>c \<in> set ms. slash \<notin> set c" by (simp add: list_all_iff good_name_def)
  then have "\<forall>c \<in> set (replicate k ''..'' @ ms). slash \<notin> set c" by (simp add: ball_Un)
  moreover have "replicate k ''..'' @ ms \<noteq> []" using False by simp
  ultimately have "py_split ''/'' (py_join ''/'' (replicate k ''..'' @ ms)) = replicate k ''..'' @ ms" using path_split_join by blast
  then show ?thesis unfolding up_down_def if_not_P [OF False] .
qed

lemma up_down_relative: assumes "list_all good_name ms" shows "\<not> isabs (up_down k ms)"
proof
  assume "isabs (up_down k ms)"
  then obtain r where "up_down k ms = slash # r" by (auto simp: isabs_def prefix_def)
  then have "py_split ''/'' (up_down k ms) = '''' # py_split ''/'' r" using py_split_slash [of "''''" r] by simp
  then show False using up_down_split [OF assms, of k] assms
    by (cases k; cases ms) (auto simp: good_name_def split: if_splits)
qed

lemma up_down_dot: assumes "list_all good_name ms" "up_down k ms = ''.''" shows "k = 0 \<and> ms = []"
  using up_down_split [OF assms(1), of k] assms(1) unfolding assms(2)
  by (cases k; cases ms) (auto simp: py_split_no_sep good_name_def split: if_splits)

lemma py_join_snoc: "xs \<noteq> [] \<Longrightarrow> py_join sep (xs @ [x]) = py_join sep xs @ sep @ x"
proof (induction xs)
  case (Cons y ys)
  then show ?case by (cases "ys = []") (simp_all add: py_join_Cons)
qed simp

lemma up_down_snoc:
  "list_all good_name ms \<Longrightarrow>
    (if up_down k ms = ''.'' then c else up_down k ms @ ''/'' @ c) = up_down k (ms @ [c])"
proof (cases "k = 0 \<and> ms = []")
  case True
  then show ?thesis by (simp add: up_down_def)
next
  case False
  assume "list_all good_name ms"
  then have "up_down k ms \<noteq> ''.''" using up_down_dot [of ms k] False by blast
  moreover have "up_down k (ms @ [c]) = up_down k ms @ ''/'' @ c"
    using False py_join_snoc [of "replicate k ''..'' @ ms" "''/''" c] by (simp add: up_down_def)
  ultimately show ?thesis by simp
qed

text \<open>
  A table of nodes in which strings are looked up from a directory: what a look-up promises to those who
  compute paths.
\<close>

locale path_table =
  fixes ok :: "'s \<Rightarrow> bool"
    and node_in :: "'s \<Rightarrow> 'n \<Rightarrow> bool"
    and dir_in :: "'s \<Rightarrow> 'n \<Rightarrow> bool"
    and names :: "'s \<Rightarrow> 'n \<Rightarrow> string list"
    and find_node :: "'s \<Rightarrow> 'n \<Rightarrow> string \<Rightarrow> 's \<times> 'n res"
  assumes names_good: "ok s \<Longrightarrow> node_in s n \<Longrightarrow> list_all good_name (names s n)"
    and dir_node: "dir_in s d \<Longrightarrow> node_in s d"
    and find_names: "ok s \<Longrightarrow> dir_in s d \<Longrightarrow> node_in s n \<Longrightarrow> CHR 0x0A \<notin> set p \<Longrightarrow> initial_slashes p \<noteq> 2 \<Longrightarrow> take 1 p \<noteq> ''#'' \<Longrightarrow>
      norm_comps True (if isabs p then [] else names s d) (py_split ''/'' p) = names s n \<Longrightarrow> find_node s d p = (s, Inr n)"
begin

lemma find_up_down:
  assumes "ok s" "dir_in s d" "node_in s n" "list_all good_name ms"
    and "names s n = take (length (names s d) - k) (names s d) @ ms"
    and "CHR 0x0A \<notin> set (up_down k ms)" "take 1 (up_down k ms) \<noteq> ''#''"
  shows "find_node s d (up_down k ms) = (s, Inr n)"
proof (rule find_names [OF assms(1-3, 6) _ assms(7)])
  have r: "\<not> isabs (up_down k ms)" by (rule up_down_relative [OF assms(4)])
  then show "initial_slashes (up_down k ms) \<noteq> 2" by (simp add: isabs_def initial_slashes_def)
  have g: "list_all good_name (names s d)" using names_good assms(1, 2) dir_node by blast
  show "norm_comps True (if isabs (up_down k ms) then [] else names s d) (py_split ''/'' (up_down k ms)) = names s n"
    using r assms(4, 5) g by (simp add: up_down_split norm_comps_append norm_comps_up norm_comps_good)
qed

lemma find_abs_path:
  assumes "ok s" "dir_in s d" "node_in s n" "names s n \<noteq> []" "CHR 0x0A \<notin> set (abs_path (names s n))"
  shows "find_node s d (abs_path (names s n)) = (s, Inr n)"
proof -
  have g: "list_all good_name (names s n)" using names_good assms(1, 3) by blast
  obtain c cs where c: "names s n = c # cs" using assms(4) by (cases "names s n") auto
  have i: "initial_slashes (abs_path (names s n)) = 1" using initial_slashes_abs_path [of c cs] g c by (simp add: good_name_def)
  have sp: "py_split ''/'' (abs_path (names s n)) = '''' # names s n"
    using py_split_abs_path [of "''''" "names s n"] g by (simp add: list_all_iff good_name_def)
  have "isabs (abs_path (names s n))" using c by (simp add: isabs_def)
  moreover have "take 1 (abs_path (names s n)) \<noteq> ''#''" using c by simp
  ultimately show ?thesis using find_names [OF assms(1-3, 5)] i sp g by (simp add: norm_comps_good)
qed

end

lemma resolve_no_hash: "take 1 p \<noteq> ''#'' \<Longrightarrow> resolve s d p = norm_comps True (if isabs p then [] else fs_names s d) (py_split ''/'' p)"
  by (simp add: resolve_def)

interpretation pt: path_table wf_fs "\<lambda>s n. n < fsize s" "\<lambda>s d. d < fsize s \<and> is_dir s d" fs_names "\<lambda>s d p. Dir_Entry d p s"
proof
  show "list_all good_name (fs_names s n)" if "wf_fs s" "n < fsize s" for s n using labspath_names [OF that] by simp
  fix s d n p
  assume a: "wf_fs s" "d < fsize s \<and> is_dir s d" "n < fsize s" "CHR 0x0A \<notin> set p" "initial_slashes p \<noteq> 2" "take 1 p \<noteq> ''#''"
    "norm_comps True (if isabs p then [] else fs_names s d) (py_split ''/'' p) = fs_names s n"
  have "plain_path s p" using a by (simp add: plain_path_def)
  then show "Dir_Entry d p s = (s, Inr n)"
    using lookup_again [OF a(1, 3), of d p] a resolve_no_hash [OF a(6), of s d] by (simp add: Dir_Entry_def FS_Entry_def)
qed simp

section \<open>Relative paths\<close>

lemma rel_path_up_down:
  assumes wf: "wf_fs s" and d: "d < fsize s" and n: "n < fsize s"
  shows "\<exists>k ms. rel_path s d n = Some (up_down k ms) \<and> list_all good_name ms \<and>
    fs_names s n = take (length (fs_names s d) - k) (fs_names s d) @ ms"
  using n
proof (induction n rule: less_induct)
  case (less n)
  show ?case
  proof (cases "n = d")
    case True
    then show ?thesis by (subst rel_path.simps) (auto simp: up_down_def intro!: exI [of _ 0] exI [of _ "[]"])
  next
    case nd: False
    show ?thesis
    proof (cases "find_index ((=) n) (f_elements (fsnode_of s d))")
      case (Some j)
      note e = names_of_element [OF wf d Some]
      let ?k = "length (fs_names s d) - j"
      have dr: "drop (Suc j) (f_elements (fsnode_of s n)) = []" unfolding e(1) by simp
      have k0: "?k \<noteq> 0"
      proof
        assume "?k = 0"
        then have "fs_names s n = fs_names s d" using e(2) by simp
        then show False using names_inject [OF wf less.prems d] nd by simp
      qed
      have "rel_path s d n = Some (up_down ?k [])" using nd Some dr k0 elements_length [OF wf d]
        by (subst rel_path.simps) (simp add: up_down_def)
      moreover have "fs_names s n = take (length (fs_names s d) - ?k) (fs_names s d)" using e by simp
      ultimately show ?thesis by (intro exI [of _ ?k] exI [of _ "[]"]) simp
    next
      case None
      have "0 \<in> set (f_elements (fsnode_of s d))"
        using elements_root [OF wf d] f_elements_neq_Nil [OF wf d] by (metis length_greater_0_conv nth_mem)
      then have n0: "0 < n" using None by (cases n) (auto simp: find_index_None)
      let ?e = "f_dir (fsnode_of s n)"
      have c: "child_ok (fsnode_of s ?e) n (fsnode_of s n)" using wf_fsD(6) [OF wf less.prems n0] .
      have lt: "?e < n" using c by (simp add: child_ok_def)
      then obtain k ms where IH: "rel_path s d ?e = Some (up_down k ms)" "list_all good_name ms"
        "fs_names s ?e = take (length (fs_names s d) - k) (fs_names s d) @ ms" using less.IH [OF lt] less.prems by auto
      have "rel_path s d n = Some (up_down k (ms @ [f_name (fsnode_of s n)]))"
        using nd None IH(1) c up_down_snoc [OF IH(2), of k "f_name (fsnode_of s n)"]
        by (subst rel_path.simps) (simp add: child_ok_def)
      then show ?thesis using IH(2, 3) c fs_names_child [OF wf less.prems n0]
        by (intro exI [of _ k] exI [of _ "ms @ [f_name (fsnode_of s n)]"]) (simp add: child_ok_def)
    qed
  qed
qed

lemma get_path_forms:
  assumes wf: "wf_fs s" and n: "n < fsize s" and nd: "n \<noteq> d"
  shows "if d \<in> set (f_elements (fsnode_of s n))
    then (\<exists>ms. get_path s n (Some d) = Inr (up_down 0 ms) \<and> fs_names s n = fs_names s d @ ms \<and> list_all good_name ms)
    else get_path s n (Some d) = Inr (abs_path (fs_names s n))"
proof (cases "find_index ((=) d) (f_elements (fsnode_of s n))")
  case None
  then have "get_path s n (Some d) = Inr (py_join ''/'' (map (\<lambda>m. f_name (fsnode_of s m)) (f_elements (fsnode_of s n))))"
    using nd by (simp add: get_path_def)
  moreover have "map (\<lambda>m. f_name (fsnode_of s m)) (f_elements (fsnode_of s n)) = '''' # fs_names s n"
    using elements_root [OF wf n] f_elements_neq_Nil [OF wf n] wf_fsD(3) [OF wf]
    by (cases "f_elements (fsnode_of s n)") (simp_all add: fs_names_def root_ok_def)
  moreover have "py_join ''/'' ('''' # fs_names s n) = abs_path (fs_names s n)"
    using py_join_slash [of "fs_names s n"] by (cases "fs_names s n = []") (simp_all add: py_join_Cons)
  ultimately show ?thesis using None by (auto simp: find_index_None)
next
  case (Some i)
  note e = names_of_element [OF wf n Some]
  let ?ms = "drop i (fs_names s n)"
  have di: "d \<in> set (f_elements (fsnode_of s n))" using find_index_Some [OF Some] by auto
  have "map (\<lambda>m. f_name (fsnode_of s m)) (drop (Suc i) (f_elements (fsnode_of s n))) = ?ms"
    using f_elements_neq_Nil [OF wf n] by (cases "f_elements (fsnode_of s n)") (simp_all add: fs_names_def drop_map)
  moreover have "?ms \<noteq> []"
  proof
    assume "?ms = []"
    then have "fs_names s d = fs_names s n" using e by simp
    moreover have "d < fsize s" using elements_less [OF wf n di] n by simp
    ultimately show False using names_inject [OF wf _ n] nd by blast
  qed
  ultimately have "get_path s n (Some d) = Inr (up_down 0 ?ms)" using nd Some by (simp add: get_path_def up_down_def)
  moreover have "list_all good_name ?ms" using labspath_names [OF wf n] by (auto simp: list_all_iff dest: in_set_dropD)
  ultimately show ?thesis using di e by (auto intro!: exI [of _ ?ms])
qed

section \<open>Properties\<close>

text \<open>
  C11: The path of a node leads back to the node. \<open>rel_path\<close> ends and gives, for any node and any
  directory, a path that finds the node when it is looked up in the directory; so does \<open>get_path\<close>
  for every node but the root, whether the node is below the directory or not. Only a relative path that starts with
  a hash sign, or one with a line break, is read as something else.\<close>
theorem paths_lead_back:
  assumes "wf_fs s" "d < fsize s" "is_dir s d" "n < fsize s" "0 < n \<or> n = d"
  shows "(\<exists>r. rel_path s d n = Some r \<and> (CHR 0x0A \<in> set r \<or> take 1 r = ''#'' \<or> Dir_Entry d r s = (s, Inr n))) \<and>
    (\<exists>r. get_path s n (Some d) = Inr r \<and> (CHR 0x0A \<in> set r \<or> take 1 r = ''#'' \<or> Dir_Entry d r s = (s, Inr n)))"
proof
  obtain k ms where r: "rel_path s d n = Some (up_down k ms)" "list_all good_name ms"
    "fs_names s n = take (length (fs_names s d) - k) (fs_names s d) @ ms" using rel_path_up_down [OF assms(1, 2, 4)] by blast
  show "\<exists>r. rel_path s d n = Some r \<and> (CHR 0x0A \<in> set r \<or> take 1 r = ''#'' \<or> Dir_Entry d r s = (s, Inr n))"
    using pt.find_up_down [OF assms(1) _ assms(4) r(2, 3)] assms(2, 3) r(1) by blast
  show "\<exists>r. get_path s n (Some d) = Inr r \<and> (CHR 0x0A \<in> set r \<or> take 1 r = ''#'' \<or> Dir_Entry d r s = (s, Inr n))"
  proof (cases "n = d")
    case True
    have "Dir_Entry d (up_down 0 []) s = (s, Inr n)"
      by (rule pt.find_up_down [OF assms(1)]) (simp_all add: assms True up_down_def)
    then show ?thesis using True by (simp add: get_path_def up_down_def)
  next
    case False
    show ?thesis
    proof (cases "d \<in> set (f_elements (fsnode_of s n))")
      case True
      then obtain ms where g: "get_path s n (Some d) = Inr (up_down 0 ms)" "fs_names s n = fs_names s d @ ms" "list_all good_name ms"
        using get_path_forms [OF assms(1, 4) False] by auto
      have "fs_names s n = take (length (fs_names s d) - 0) (fs_names s d) @ ms" using g(2) by simp
      then show ?thesis using pt.find_up_down [OF assms(1) _ assms(4) g(3)] assms(2, 3) g(1) by blast
    next
      case o: False
      then have g: "get_path s n (Some d) = Inr (abs_path (fs_names s n))" using get_path_forms [OF assms(1, 4) False] by simp
      have "fs_names s n \<noteq> []" using labspath_names [OF assms(1, 4)] False assms(5) by auto
      then show ?thesis using pt.find_abs_path [OF assms(1) _ assms(4)] assms(2, 3) g by blast
    qed
  qed
qed

text \<open>A file system with the directories \<open>/r/a\<close> and \<open>/r/b\<close> and a file in the second.\<close>

definition sample_tree :: fsys where
  "sample_tree = fst (fs_lookup (FStr ''b/x.c'') (Some (FNode 1)) File True
     (fst (fs_lookup (FStr ''a'') (Some (FNode 1)) Dir True sample_fs)))"

lemma sample_tree_wf: "wf_fs sample_tree"
proof -
  let ?s = "fst (fs_lookup (FStr ''a'') (Some (FNode 1)) Dir True sample_fs)"
  have p: "plain_path sample_fs ''a''" by code_simp
  have a: "wf_fs ?s" using fs_lookup_post [OF sample_fs_wf(1, 3, 4) p, of Dir True] by (simp add: lookup_post_def)
  have "1 < fsize ?s" "is_dir ?s 1" "plain_path ?s ''b/x.c''" by code_simp+
  then show ?thesis using fs_lookup_post [OF a, of 1 "''b/x.c''" File True] by (simp add: lookup_post_def sample_tree_def)
qed

theorem paths_lead_back_witness:
  "rel_path sample_tree 2 4 = Some ''../b/x.c'' \<and> Dir_Entry 2 ''../b/x.c'' sample_tree = (sample_tree, Inr 4) \<and>
   get_path sample_tree 4 (Some 1) = Inr ''b/x.c'' \<and> Dir_Entry 1 ''b/x.c'' sample_tree = (sample_tree, Inr 4)"
proof -
  have b: "2 < fsize sample_tree" "is_dir sample_tree 2" "4 < fsize sample_tree" "1 < fsize sample_tree" "is_dir sample_tree 1"
    by code_simp+
  have es: "f_elements (fsnode_of sample_tree 2) = [0, 1, 2]" "f_elements (fsnode_of sample_tree 3) = [0, 1, 3]"
    "f_elements (fsnode_of sample_tree 1) = [0, 1]" "f_dir (fsnode_of sample_tree 4) = 3" "f_dir (fsnode_of sample_tree 3) = 1"
    "f_name (fsnode_of sample_tree 4) = ''x.c''" "f_name (fsnode_of sample_tree 3) = ''b''"
    "f_class (fsnode_of sample_tree 4) = File" "f_class (fsnode_of sample_tree 3) = Dir" by code_simp+
  have "rel_path sample_tree 2 1 = Some ''..''" by (subst rel_path.simps) (simp add: es es(3) [unfolded One_nat_def])
  then have "rel_path sample_tree 2 3 = Some ''../b''" by (subst rel_path.simps) (simp add: es)
  then have r: "rel_path sample_tree 2 4 = Some ''../b/x.c''" by (subst rel_path.simps) (simp add: es)
  have g: "get_path sample_tree 4 (Some 1) = Inr ''b/x.c''" by code_simp
  show ?thesis using paths_lead_back [OF sample_tree_wf b(1-3)] paths_lead_back [OF sample_tree_wf b(4, 5, 3)] r g by simp
qed

text \<open>
  The root is the exception: its path from another directory is the empty string, which names that directory.
\<close>

lemma root_path_empty:
  "get_path sample_tree 0 (Some 1) = Inr '''' \<and> Dir_Entry 1 '''' sample_tree = (sample_tree, Inr 1)"
proof
  show "get_path sample_tree 0 (Some 1) = Inr ''''" by code_simp
  have "1 < fsize sample_tree" "is_dir sample_tree 1" "plain_path sample_tree ''''" "resolve sample_tree 1 '''' = fs_names sample_tree 1"
    by code_simp+
  then show "Dir_Entry 1 '''' sample_tree = (sample_tree, Inr 1)"
    using lookup_again [OF sample_tree_wf] by (simp add: Dir_Entry_def FS_Entry_def)
qed

end
