(* ===== verification/FsVariant.thy ===== *)
theory FsVariant
  imports FsPath
begin

text \<open>
  Variant directories and repositories of \<open>SCons/Node/FS.py\<close>: linking a directory to its source directory,
  the directories that stand behind a directory (\<open>get_all_rdirs\<close>, \<open>srcdir_list\<close>), and the source node of a node.
  The attribute \<open>duplicate\<close> is a truth value, and the text of messages is shortened.
\<close>

section \<open>Results with a state\<close>

definition fs_bind :: "fsys \<times> 'a res \<Rightarrow> ('a \<Rightarrow> fsys \<Rightarrow> fsys \<times> 'b res) \<Rightarrow> fsys \<times> 'b res" where
  "fs_bind x f = (case x of (s, Inl e) \<Rightarrow> (s, Inl e) | (s, Inr a) \<Rightarrow> f a s)"

lemma fs_bind_simps [simp]: "fs_bind (s, Inl e) f = (s, Inl e)" "fs_bind (s, Inr a) f = f a s"
  by (simp_all add: fs_bind_def)

section \<open>Clearing caches\<close>

text \<open>
  \<open>Dir.__clearRepositoryCache\<close>. The stack holds the directories the recursion is in, with the values of their
  \<open>entries\<close> that are still to be visited.
\<close>

definition entry_values :: "fsys \<Rightarrow> fsid \<Rightarrow> fsid list" where
  "entry_values s d = (let es = f_entries (fsnode_of s d) in map (\<lambda>k. the (map_of es k)) (remdups (map fst es)))"

definition clear_fsnode :: "bool option \<Rightarrow> fsnode \<Rightarrow> fsnode" where
  "clear_fsnode duplicate x = (let y = fs_clear x in case duplicate of None \<Rightarrow> y | Some b \<Rightarrow> y\<lparr>f_duplicate := b\<rparr>)"

partial_function (option) clear_loop :: "bool option \<Rightarrow> (fsid \<times> fsid list) list \<Rightarrow> fsys \<Rightarrow> fsys option" where
  "clear_loop duplicate st s = (case st of
       [] \<Rightarrow> Some s
     | (d, ms) # rest \<Rightarrow> (case ms of
           [] \<Rightarrow> clear_loop duplicate rest s
         | m # ms1 \<Rightarrow>
             (if m = f_dir (fsnode_of s d) then clear_loop duplicate ((d, ms1) # rest) s
              else if m \<noteq> d \<and> is_dir s m then clear_loop duplicate ((m, entry_values s m) # (d, ms1) # rest) s
              else clear_loop duplicate ((d, ms1) # rest) (upd_fsnode m (clear_fsnode duplicate) s))))"

declare is_under.simps [code] clear_loop.simps [code]

definition clearRepositoryCache :: "bool option \<Rightarrow> fsid \<Rightarrow> fsys \<Rightarrow> fsys option" where
  "clearRepositoryCache duplicate d s = clear_loop duplicate [(d, entry_values s d)] s"

section \<open>Variant directories\<close>

text \<open>\<open>up\<close> of \<open>Dir\<close> and \<open>RootDir\<close>.\<close>

definition dir_up :: "fsys \<Rightarrow> fsid \<Rightarrow> fsid option" where
  "dir_up s d = (if f_class (fsnode_of s d) = RootDir then None else map_of (f_entries (fsnode_of s d)) ''..'')"

text \<open>\<open>Dir.link\<close>; what is no directory has no \<open>variant_dirs\<close>.\<close>

definition dir_link :: "fsid \<Rightarrow> fsid \<Rightarrow> bool \<Rightarrow> fsys \<Rightarrow> (fsys \<times> unit res) option" where
  "dir_link v src dup s = map_option (\<lambda>s1.
       if is_dir s1 src then (upd_fsnode src (\<lambda>x. x\<lparr>f_variant_dirs := f_variant_dirs x @ [v]\<rparr>) s1, Inr ())
       else (s1, Inl AttributeError))
     (clearRepositoryCache (Some dup) v (upd_fsnode v (\<lambda>x. x\<lparr>f_srcdir := Some src, f_duplicate := dup\<rparr>) s))"

text \<open>\<open>FS.VariantDir\<close>. A string is looked up as a directory, a node is taken as it is.\<close>

definition node_or_dir :: "fsarg \<Rightarrow> fsys \<Rightarrow> fsys \<times> fsid res" where
  "node_or_dir a s = (case a of FNode n \<Rightarrow> (s, Inr n) | FStr _ \<Rightarrow> FS_Dir a None True s)"

definition variant_link :: "fsid \<Rightarrow> fsid \<Rightarrow> bool \<Rightarrow> fsys \<Rightarrow> (fsys \<times> unit res) option" where
  "variant_link v src dup s = (case is_under s src v of
       None \<Rightarrow> None
     | Some True \<Rightarrow> Some (s, Inl (UserError ''Source directory cannot be under variant directory.''))
     | Some False \<Rightarrow>
         (if \<not> is_dir s v then Some (s, Inl AttributeError)
          else case f_srcdir (fsnode_of s v) of
              Some old \<Rightarrow> Some (s, if old = src then Inr () else Inl (UserError ''already has a source directory''))
            | None \<Rightarrow> dir_link v src dup s))"

definition VariantDir :: "fsarg \<Rightarrow> fsarg \<Rightarrow> bool \<Rightarrow> fsys \<Rightarrow> (fsys \<times> unit res) option" where
  "VariantDir variant_dir src_dir dup s = (case node_or_dir src_dir s of
       (s1, Inl e) \<Rightarrow> Some (s1, Inl e)
     | (s1, Inr src) \<Rightarrow> (case node_or_dir variant_dir s1 of
           (s2, Inl e) \<Rightarrow> Some (s2, Inl e)
         | (s2, Inr v) \<Rightarrow> variant_link v src dup s2))"

section \<open>Repositories\<close>

definition addRepository :: "fsid \<Rightarrow> fsid \<Rightarrow> fsys \<Rightarrow> fsys option" where
  "addRepository topdir d s =
     (if d \<noteq> topdir \<and> d \<notin> set (f_repositories (fsnode_of s topdir))
      then clearRepositoryCache None topdir
        (upd_fsnode d (\<lambda>x. x\<lparr>f_tpath := ''.''\<rparr>) (upd_fsnode topdir (\<lambda>x. x\<lparr>f_repositories := f_repositories x @ [d]\<rparr>) s))
      else Some s)"

fun Repository :: "fsarg list \<Rightarrow> fsys \<Rightarrow> (fsys \<times> unit res) option" where
  "Repository [] s = Some (s, Inr ())"
| "Repository (a # as) s = (case node_or_dir a s of
       (s1, Inl e) \<Rightarrow> Some (s1, Inl e)
     | (s1, Inr d) \<Rightarrow> (case fs_Top s1 of
           None \<Rightarrow> Some (s1, Inl AttributeError)
         | Some t \<Rightarrow> Option.bind (addRepository t d s1) (Repository as)))"

text \<open>
  \<open>Dir.get_all_rdirs\<close> and \<open>Dir.getRepositories\<close>, which call each other. \<open>rep_dirs\<close> is the inner loop;
  \<open>rdirs_loop\<close> is at the directory \<open>dir\<close> above the directory \<open>d0\<close>, whose memo is set at the end.
\<close>

fun rep_dirs :: "fsid list \<Rightarrow> string \<Rightarrow> fsid list \<Rightarrow> fsys \<Rightarrow> fsys \<times> fsid list res" where
  "rep_dirs [] fname result s = (s, Inr result)"
| "rep_dirs (rep # reps) fname result s =
     fs_bind (Dir_Dir rep fname True s) (\<lambda>m s1. rep_dirs reps fname (result @ [m]) s1)"

partial_function (option) rdirs_loop ::
    "fsid \<Rightarrow> fsid \<Rightarrow> string \<Rightarrow> fsid list \<Rightarrow> fsys \<Rightarrow> (fsys \<times> fsid list res) option" where
  "rdirs_loop d0 dir fname result s =
     Option.bind
       (case f_srcdir (fsnode_of s dir) of
          None \<Rightarrow> Some (s, Inr [])
        | Some src \<Rightarrow>
            (if f_duplicate (fsnode_of s dir) then Some (s, Inr [])
             else case f_memo_rdirs (fsnode_of s src) of
                 Some r \<Rightarrow> Some (s, Inr r)
               | None \<Rightarrow> rdirs_loop src src ''.'' [src] s))
       (\<lambda>sr. case sr of
            (s1, Inl e) \<Rightarrow> Some (s1, Inl e)
          | (s1, Inr from_src) \<Rightarrow> (case rep_dirs (from_src @ f_repositories (fsnode_of s1 dir)) fname result s1 of
                (s2, Inl e) \<Rightarrow> Some (s2, Inl e)
              | (s2, Inr result') \<Rightarrow> (case dir_up s2 dir of
                    None \<Rightarrow> Some (upd_fsnode d0 (\<lambda>x. x\<lparr>f_memo_rdirs := Some result'\<rparr>) s2, Inr result')
                  | Some u \<Rightarrow> rdirs_loop d0 u
                      (if fname = ''.'' then f_name (fsnode_of s2 dir) else f_name (fsnode_of s2 dir) @ ''/'' @ fname) result' s2)))"

declare rdirs_loop.simps [code]

definition get_all_rdirs :: "fsid \<Rightarrow> fsys \<Rightarrow> (fsys \<times> fsid list res) option" where
  "get_all_rdirs d s = (case f_memo_rdirs (fsnode_of s d) of
       Some r \<Rightarrow> Some (s, Inr r)
     | None \<Rightarrow> rdirs_loop d d ''.'' [d] s)"

definition getRepositories :: "fsid \<Rightarrow> fsys \<Rightarrow> (fsys \<times> fsid list res) option" where
  "getRepositories d s = (case f_srcdir (fsnode_of s d) of
       None \<Rightarrow> Some (s, Inr (f_repositories (fsnode_of s d)))
     | Some src \<Rightarrow>
         (if f_duplicate (fsnode_of s d) then Some (s, Inr (f_repositories (fsnode_of s d)))
          else map_option (\<lambda>sr. fs_bind sr (\<lambda>l s1. (s1, Inr (l @ f_repositories (fsnode_of s1 d))))) (get_all_rdirs src s)))"

section \<open>Source nodes\<close>

text \<open>\<open>Dir.srcdir_list\<close>.\<close>

partial_function (option) srcdir_loop ::
    "fsid \<Rightarrow> fsid \<Rightarrow> string \<Rightarrow> fsid list \<Rightarrow> fsys \<Rightarrow> (fsys \<times> fsid list res) option" where
  "srcdir_loop d0 dir dirname result s =
     (case (case f_srcdir (fsnode_of s dir) of
              None \<Rightarrow> (s, Inr result)
            | Some src \<Rightarrow> fs_bind (Dir_Dir src dirname True s) (\<lambda>m s1. (s1, Inr (result @ [m])))) of
        (s1, Inl e) \<Rightarrow> Some (s1, Inl e)
      | (s1, Inr result') \<Rightarrow> (case dir_up s1 dir of
            None \<Rightarrow> Some (upd_fsnode d0 (\<lambda>x. x\<lparr>f_memo_srcdirs := Some result'\<rparr>) s1, Inr result')
          | Some u \<Rightarrow> srcdir_loop d0 u (f_name (fsnode_of s1 dir) @ ''/'' @ dirname) result' s1))"

declare srcdir_loop.simps [code]

definition srcdir_list :: "fsid \<Rightarrow> fsys \<Rightarrow> (fsys \<times> fsid list res) option" where
  "srcdir_list d s = (case f_memo_srcdirs (fsnode_of s d) of
       Some r \<Rightarrow> Some (s, Inr r)
     | None \<Rightarrow> srcdir_loop d d ''.'' [] s)"

text \<open>\<open>srcnode\<close> of \<open>Base\<close> and of \<open>Dir\<close>.\<close>

definition base_srcnode :: "fsid \<Rightarrow> fsys \<Rightarrow> (fsys \<times> fsid res) option" where
  "base_srcnode n s = map_option (\<lambda>sr. fs_bind sr (\<lambda>l s1. case l of
       [] \<Rightarrow> (s1, Inr n)
     | d # _ \<Rightarrow> fs_bind (Dir_Entry d (f_name (fsnode_of s1 n)) s1) (\<lambda>m s2. same_class_node (f_class (fsnode_of s2 n)) m s2)))
     (srcdir_list (f_dir (fsnode_of s n)) s)"

definition srcnode :: "fsid \<Rightarrow> fsys \<Rightarrow> (fsys \<times> fsid res) option" where
  "srcnode n s = (if is_dir s n \<and> f_srcdir (fsnode_of s n) \<noteq> None then Some (s, Inr (the (f_srcdir (fsnode_of s n))))
     else base_srcnode n s)"

section \<open>Targets in variant directories\<close>

text \<open>
  \<open>FS.variant_dir_target_climb\<close>, without its message. The inner loop returns \<open>None\<close> where the code
  returns the original node.
\<close>

fun climb_variants :: "fsid \<Rightarrow> string list \<Rightarrow> fsid list \<Rightarrow> fsid list \<Rightarrow> fsys \<Rightarrow> (fsys \<times> fsid list option res) option" where
  "climb_variants start tail [] targets s = Some (s, Inr (Some targets))"
| "climb_variants start tail (bd # bds) targets s = (case is_under s start bd of
       None \<Rightarrow> None
     | Some True \<Rightarrow> Some (s, Inr None)
     | Some False \<Rightarrow> (case FS_Entry (FStr (foldl path_join (f_path (fsnode_of s bd)) tail)) None True s of
           (s1, Inl e) \<Rightarrow> Some (s1, Inl e)
         | (s1, Inr t) \<Rightarrow> climb_variants start tail bds (targets @ [t]) s1))"

partial_function (option) climb_loop ::
    "fsid \<Rightarrow> fsid \<Rightarrow> fsid \<Rightarrow> string list \<Rightarrow> fsid list \<Rightarrow> fsys \<Rightarrow> (fsys \<times> fsid list res) option" where
  "climb_loop orig start dir tail targets s =
     Option.bind (climb_variants start tail (f_variant_dirs (fsnode_of s dir)) targets s) (\<lambda>sr. case sr of
         (s1, Inl e) \<Rightarrow> Some (s1, Inl e)
       | (s1, Inr None) \<Rightarrow> Some (s1, Inr [orig])
       | (s1, Inr (Some targets')) \<Rightarrow> (case dir_up s1 dir of
             None \<Rightarrow> Some (s1, Inr targets')
           | Some u \<Rightarrow> climb_loop orig start u (f_name (fsnode_of s1 dir) # tail) targets' s1))"

definition variant_dir_target_climb :: "fsid \<Rightarrow> fsid \<Rightarrow> string list \<Rightarrow> fsys \<Rightarrow> (fsys \<times> fsid list res) option" where
  "variant_dir_target_climb orig dir tail s = climb_loop orig dir dir tail [] s"

text \<open>\<open>alter_targets\<close> of \<open>Dir\<close> and \<open>File\<close>.\<close>

definition alter_targets :: "fsid \<Rightarrow> fsys \<Rightarrow> (fsys \<times> fsid list res) option" where
  "alter_targets n s =
     (if is_dir s n then variant_dir_target_climb n n [] s
      else if f_builder (fsnode_of s n) \<noteq> None then Some (s, Inr [])
      else variant_dir_target_climb n (f_dir (fsnode_of s n)) [f_name (fsnode_of s n)] s)"

section \<open>Looking up below a directory\<close>

text \<open>A name that is read as itself wherever it stands in a path.\<close>

definition calm_name :: "string \<Rightarrow> bool" where
  "calm_name c \<longleftrightarrow> good_name c \<and> CHR 0x0A \<notin> set c \<and> take 1 c \<noteq> ''#''"

lemma calm_good: "list_all calm_name ms \<Longrightarrow> list_all good_name ms"
  by (auto simp: list_all_iff calm_name_def)

lemma set_py_join: "set (py_join sep xs) \<subseteq> set sep \<union> \<Union> (set ` set xs)"
  by (induction sep xs rule: py_join.induct) auto

lemma take1_py_join: "x \<noteq> '''' \<Longrightarrow> take 1 (py_join sep (x # xs)) = take 1 x"
  by (cases xs; cases x) simp_all

lemma calm_path:
  assumes "list_all calm_name ms" "ds = [] \<or> ds = [''.'']" "ms @ ds \<noteq> []"
  shows "plain_path s (py_join ''/'' (ms @ ds))" "resolve s d (py_join ''/'' (ms @ ds)) = fs_names s d @ ms \<or> \<not> list_all good_name (fs_names s d)"
proof -
  let ?p = "py_join ''/'' (ms @ ds)"
  have m: "CHR 0x0A \<notin> set c" "slash \<notin> set c" if "c \<in> set ms" for c
    using assms(1) that by (simp_all add: list_all_iff calm_name_def good_name_def)
  have nl: "CHR 0x0A \<notin> set ?p"
  proof
    assume "CHR 0x0A \<in> set ?p"
    then have "CHR 0x0A \<in> set ''/'' \<union> \<Union> (set ` set (ms @ ds))" using set_py_join by blast
    then show False using m(1) assms(2) by auto
  qed
  have sl: "\<forall>c \<in> set (ms @ ds). slash \<notin> set c" using m(2) assms(2) by auto
  have sp: "py_split ''/'' ?p = ms @ ds" using path_split_join [OF assms(3) sl] .
  obtain x xs where x: "ms @ ds = x # xs" using assms(3) by (cases "ms @ ds") auto
  have xc: "x \<noteq> ''''" "take 1 x \<noteq> ''#''" "slash \<notin> set x"
    using x assms(1, 2) sl by (cases ms; auto simp: calm_name_def good_name_def)+
  have h: "take 1 ?p \<noteq> ''#''" unfolding x take1_py_join [OF xc(1)] by (rule xc)
  have a: "\<not> isabs ?p"
  proof
    assume "isabs ?p"
    then have "take 1 ?p = ''/''" by (auto simp: isabs_def prefix_def)
    then show False unfolding x take1_py_join [OF xc(1)] using xc(3) by (cases x) auto
  qed
  then have i: "initial_slashes ?p = 0" by (simp add: isabs_def initial_slashes_def)
  show "plain_path s ?p" using nl h i by (simp add: plain_path_def)
  show "resolve s d ?p = fs_names s d @ ms \<or> \<not> list_all good_name (fs_names s d)"
    using assms(2) calm_good [OF assms(1)] unfolding resolve_no_hash [OF h] sp
    by (auto simp: a norm_comps_append norm_comps_good)
qed

lemma Dir_Dir_below:
  assumes "wf_fs s" "d < fsize s" "is_dir s d" "list_all calm_name ms" "ds = [] \<or> ds = [''.'']" "ms @ ds \<noteq> []"
  shows "lookup_post s (fs_names s d @ ms) Dir True (Dir_Dir d (py_join ''/'' (ms @ ds)) True s)"
proof -
  have "resolve s d (py_join ''/'' (ms @ ds)) = fs_names s d @ ms"
    using calm_path(2) [OF assms(4-6)] labspath_names [OF assms(1, 2)] by blast
  then show ?thesis using fs_lookup_post [OF assms(1-3) calm_path(1) [OF assms(4-6)], of Dir True]
    by (simp add: Dir_Dir_def FS_Dir_def)
qed

lemma Dir_Dir_cases:
  assumes "wf_fs s" "d < fsize s" "is_dir s d" "list_all calm_name ms" "ds = [] \<or> ds = [''.'']" "ms @ ds \<noteq> []"
  obtains t where "Dir_Dir d (py_join ''/'' (ms @ ds)) True s = (t, Inl TypeError)" "wf_fs t" "fs_le s t"
  | t m where "Dir_Dir d (py_join ''/'' (ms @ ds)) True s = (t, Inr m)" "wf_fs t" "fs_le s t" "m < fsize t" "is_dir t m"
      "fs_names t m = fs_names s d @ ms"
proof -
  obtain t r where tr: "Dir_Dir d (py_join ''/'' (ms @ ds)) True s = (t, r)" by fastforce
  have p: "lookup_post s (fs_names s d @ ms) Dir True (t, r)" using Dir_Dir_below [OF assms] tr by simp
  show ?thesis
  proof (cases r)
    case (Inl e)
    then show ?thesis using that(1) tr p by (simp add: lookup_post_def)
  next
    case (Inr m)
    then show ?thesis using that(2) tr p by (simp add: lookup_post_def fits_def is_dir_def)
  qed
qed

lemma dir_up_eq:
  assumes "wf_fs s" "d < fsize s" "is_dir s d" shows "dir_up s d = (if d = 0 then None else Some (f_dir (fsnode_of s d)))"
  using wf_fsD(3) [OF assms(1)] wf_fsD(6) [OF assms(1, 2)] wf_fsD(7) [OF assms]
  by (cases "d = 0") (auto simp: dir_up_def root_ok_def child_ok_def entries_ok_def)

lemma elements_dirs:
  assumes "wf_fs s" "d < fsize s" "is_dir s d" "a \<in> set (f_elements (fsnode_of s d))" shows "a < fsize s \<and> is_dir s a"
  using assms(2-4)
proof (induction d rule: less_induct)
  case (less d)
  show ?case
  proof (cases "d = 0")
    case True
    then show ?thesis using less.prems wf_fsD(3) [OF assms(1)] by (simp add: root_ok_def)
  next
    case False
    have c: "child_ok (fsnode_of s (f_dir (fsnode_of s d))) d (fsnode_of s d)" using wf_fsD(6) [OF assms(1) less.prems(1)] False by simp
    then have "f_dir (fsnode_of s d) < d" "is_dir s (f_dir (fsnode_of s d))" by (simp_all add: child_ok_def is_dir_def)
    then show ?thesis using less c by (auto simp: child_ok_def)
  qed
qed

section \<open>Directories behind a directory\<close>

text \<open>
  \<open>L\<close> gives the directories a directory is linked to: its source directory or its repositories.
  \<open>below_names L\<close> are the names of the directories that stand behind the directory \<open>d\<close> and the names
  \<open>ms\<close> below it: those linked to \<open>d\<close> and to the directories above it, nearest first, each with what is on the way down.
\<close>

definition src_of :: "fsnode \<Rightarrow> fsid list" where
  "src_of x = (case f_srcdir x of None \<Rightarrow> [] | Some src \<Rightarrow> [src])"

definition below_names :: "(fsnode \<Rightarrow> fsid list) \<Rightarrow> fsys \<Rightarrow> fsid \<Rightarrow> string list \<Rightarrow> string list list" where
  "below_names L s d ms = concat (map (\<lambda>a. map (\<lambda>r. fs_names s r @ drop (length (fs_names s a)) (fs_names s d) @ ms) (L (fsnode_of s a)))
     (rev (f_elements (fsnode_of s d))))"

definition links_in :: "(fsnode \<Rightarrow> fsid list) \<Rightarrow> fsys \<Rightarrow> fsid \<Rightarrow> bool" where
  "links_in L s d \<longleftrightarrow> (\<forall>a \<in> set (f_elements (fsnode_of s d)). \<forall>r \<in> set (L (fsnode_of s a)). r < fsize s \<and> is_dir s r)"

text \<open>Directories with the given names.\<close>

definition dirs_named :: "fsys \<Rightarrow> string list list \<Rightarrow> fsid list \<Rightarrow> bool" where
  "dirs_named t css l \<longleftrightarrow> map (fs_names t) l = css \<and> (\<forall>m \<in> set l. m < fsize t \<and> is_dir t m)"

lemma dirs_named_le: "fs_le s t \<Longrightarrow> wf_fs s \<Longrightarrow> dirs_named s css l \<Longrightarrow> dirs_named t css l"
  using fs_le_names [of s t] fs_leD(1) [of s t] fs_le_is_dir [of s t] by (auto simp: dirs_named_def)

lemma below_names_step:
  assumes "wf_fs s" "d < fsize s"
  shows "below_names L s d ms = map (\<lambda>r. fs_names s r @ ms) (L (fsnode_of s d)) @
    (if d = 0 then [] else below_names L s (f_dir (fsnode_of s d)) (f_name (fsnode_of s d) # ms))"
proof (cases "d = 0")
  case True
  then show ?thesis using wf_fsD(3) [OF assms(1)] fs_names_root [OF assms(1)] by (simp add: below_names_def root_ok_def)
next
  case False
  let ?u = "f_dir (fsnode_of s d)"
  have c: "f_elements (fsnode_of s d) = f_elements (fsnode_of s ?u) @ [d]" "?u < d" using wf_fsD(6) [OF assms] False by (simp_all add: child_ok_def)
  have nm: "fs_names s d = fs_names s ?u @ [f_name (fsnode_of s d)]" using fs_names_child [OF assms] False by simp
  have le: "length (fs_names s a) \<le> length (fs_names s ?u)" if a: "a \<in> set (f_elements (fsnode_of s ?u))" for a
  proof -
    have u: "?u < fsize s" using c(2) assms(2) by simp
    obtain i where i: "i < length (f_elements (fsnode_of s ?u))" "f_elements (fsnode_of s ?u) ! i = a" using a by (auto simp: in_set_conv_nth)
    then have "f_elements (fsnode_of s a) = take (Suc i) (f_elements (fsnode_of s ?u))" using elements_prefix [OF assms(1) u i(1)] by simp
    then show ?thesis by (simp add: fs_names_def)
  qed
  let ?F = "\<lambda>a. map (\<lambda>r. fs_names s r @ drop (length (fs_names s a)) (fs_names s d) @ ms) (L (fsnode_of s a))"
  let ?G = "\<lambda>a. map (\<lambda>r. fs_names s r @ drop (length (fs_names s a)) (fs_names s ?u) @ f_name (fsnode_of s d) # ms) (L (fsnode_of s a))"
  have "?F a = ?G a" if "a \<in> set (f_elements (fsnode_of s ?u))" for a using le [OF that] nm by simp
  then have "map ?F (rev (f_elements (fsnode_of s ?u))) = map ?G (rev (f_elements (fsnode_of s ?u)))"
    unfolding map_eq_conv set_rev by (rule ballI)
  then have "concat (map ?F (rev (f_elements (fsnode_of s ?u)))) = below_names L s ?u (f_name (fsnode_of s d) # ms)"
    unfolding below_names_def by (rule arg_cong)
  moreover have "below_names L s d ms = map (\<lambda>r. fs_names s r @ ms) (L (fsnode_of s d)) @ concat (map ?F (rev (f_elements (fsnode_of s ?u))))"
    unfolding below_names_def c(1) by simp
  ultimately show ?thesis using False by (simp only: if_False)
qed

lemma fs_le_fields:
  assumes "fs_le s t" "n < fsize s"
  shows "f_elements (fsnode_of t n) = f_elements (fsnode_of s n)" "f_dir (fsnode_of t n) = f_dir (fsnode_of s n)"
    "f_name (fsnode_of t n) = f_name (fsnode_of s n)"
    "is_dir s n \<Longrightarrow> f_srcdir (fsnode_of t n) = f_srcdir (fsnode_of s n)"
    "is_dir s n \<Longrightarrow> f_repositories (fsnode_of t n) = f_repositories (fsnode_of s n)"
    "f_duplicate (fsnode_of t n) = f_duplicate (fsnode_of s n)"
  using fs_leD(2, 3) [OF assms] by (simp_all add: same_place_def same_links_def is_dir_def)

text \<open>The inner loop over linked directories.\<close>

lemma rep_dirs_Nil: "rep_dirs [] fname acc = (\<lambda>s. (s, Inr acc))"
  by (rule ext) simp

lemma rep_dirs_ok:
  assumes "wf_fs s" "\<forall>r \<in> set reps. r < fsize s \<and> is_dir s r" "list_all calm_name ms" "ds = [] \<or> ds = [''.'']" "ms @ ds \<noteq> []"
    "dirs_named s css acc"
  shows "\<exists>t. wf_fs t \<and> fs_le s t \<and> (rep_dirs reps (py_join ''/'' (ms @ ds)) acc s = (t, Inl TypeError) \<or>
    (\<exists>l. rep_dirs reps (py_join ''/'' (ms @ ds)) acc s = (t, Inr l) \<and> dirs_named t (css @ map (\<lambda>r. fs_names s r @ ms) reps) l))"
  using assms
proof (induction reps arbitrary: s css acc)
  case Nil
  then show ?case by (intro exI [of _ s]) simp
next
  case (Cons r reps)
  have r: "r < fsize s" "is_dir s r" using Cons.prems(2) by simp_all
  from Cons.prems(1) r Cons.prems(3-5) show ?case
  proof (cases rule: Dir_Dir_cases)
    case (1 t)
    then show ?thesis by (intro exI [of _ t]) simp
  next
    case (2 t m)
    have a: "dirs_named t (css @ [fs_names s r @ ms]) (acc @ [m])"
      using dirs_named_le [OF 2(3) Cons.prems(1, 6)] 2(4-6) by (simp add: dirs_named_def)
    have p: "\<forall>r \<in> set reps. r < fsize t \<and> is_dir t r"
      using Cons.prems(2) fs_leD(1) [OF 2(3)] fs_le_is_dir [OF 2(3)] by simp
    have n: "map (\<lambda>r. fs_names t r @ ms) reps = map (\<lambda>r. fs_names s r @ ms) reps"
      using Cons.prems(2) fs_le_names [OF 2(3) Cons.prems(1)] by simp
    obtain u where "wf_fs u" "fs_le t u" "rep_dirs reps (py_join ''/'' (ms @ ds)) (acc @ [m]) t = (u, Inl TypeError) \<or>
      (\<exists>l. rep_dirs reps (py_join ''/'' (ms @ ds)) (acc @ [m]) t = (u, Inr l) \<and>
         dirs_named u ((css @ [fs_names s r @ ms]) @ map (\<lambda>r. fs_names t r @ ms) reps) l)"
      using Cons.IH [OF 2(2) p Cons.prems(3-5) a] by blast
    then show ?thesis using 2(1, 3) fs_le_trans unfolding n by (intro exI [of _ u]) auto
  qed
qed

text \<open>Links that look-ups keep.\<close>

locale dir_links =
  fixes L :: "fsnode \<Rightarrow> fsid list"
  assumes links_kept: "same_links x y \<Longrightarrow> instance_of (f_class x) Dir \<Longrightarrow> L y = L x"
begin

lemma links_le:
  assumes "fs_le s t" "wf_fs s" "d < fsize s" "is_dir s d" "links_in L s d"
  shows "below_names L t d ms = below_names L s d ms" "links_in L t d"
proof -
  have e: "f_elements (fsnode_of t d) = f_elements (fsnode_of s d)" using fs_le_fields(1) [OF assms(1, 3)] .
  have a: "a < fsize s" "L (fsnode_of t a) = L (fsnode_of s a)" if "a \<in> set (f_elements (fsnode_of s d))" for a
    using elements_dirs [OF assms(2-4) that] fs_leD(3) [OF assms(1)] links_kept by (auto simp: is_dir_def)
  have l: "r < fsize s \<and> is_dir s r" if "a \<in> set (f_elements (fsnode_of s d))" "r \<in> set (L (fsnode_of s a))" for a r
    using assms(5) that by (auto simp: links_in_def)
  let ?F = "\<lambda>s a. map (\<lambda>r. fs_names s r @ drop (length (fs_names s a)) (fs_names s d) @ ms) (L (fsnode_of s a))"
  have "?F t x = ?F s x" if x: "x \<in> set (f_elements (fsnode_of s d))" for x
    using a [OF x] l [OF x] fs_le_names [OF assms(1, 2)] assms(3) by simp
  then have "map (?F t) (rev (f_elements (fsnode_of s d))) = map (?F s) (rev (f_elements (fsnode_of s d)))"
    unfolding map_eq_conv set_rev by (rule ballI)
  then show "below_names L t d ms = below_names L s d ms" unfolding below_names_def e by (simp only:)
  show "links_in L t d" unfolding links_in_def e
    using a(2) l fs_leD(1) [OF assms(1)] fs_le_is_dir [OF assms(1)] by auto
qed

text \<open>
  A loop that climbs from a directory to the root and looks up, behind every directory it passes, the path it
  has come: it ends, and finds the directories of \<open>below_names\<close> in this order.
\<close>

lemma climb_ok:
  fixes loop :: "fsid \<Rightarrow> string list \<Rightarrow> fsid list \<Rightarrow> fsys \<Rightarrow> (fsys \<times> fsid list res) option"
  assumes step: "\<And>d ms acc s. wf_fs s \<Longrightarrow> d < fsize s \<Longrightarrow> is_dir s d \<Longrightarrow> I s d \<Longrightarrow> links_in L s d \<Longrightarrow>
      list_all calm_name (fs_names s d) \<Longrightarrow> list_all calm_name ms \<Longrightarrow>
      loop d ms acc s = (case rep_dirs (L (fsnode_of s d)) (py_join ''/'' (ms @ D ms)) acc s of
          (s1, Inl e) \<Rightarrow> Some (s1, Inl e)
        | (s1, Inr l) \<Rightarrow> if d = 0 then Some (fin l s1, Inr l) else loop (f_dir (fsnode_of s d)) (f_name (fsnode_of s d) # ms) l s1)"
    and D: "\<And>ms. D ms = [] \<or> D ms = [''.'']" "\<And>ms. ms @ D ms \<noteq> []"
    and I: "\<And>s t d. I s d \<Longrightarrow> wf_fs s \<Longrightarrow> d < fsize s \<Longrightarrow> is_dir s d \<Longrightarrow> 0 < d \<Longrightarrow> fs_le s t \<Longrightarrow> I t (f_dir (fsnode_of s d))"
    and fin: "\<And>s l. wf_fs s \<Longrightarrow> lim \<le> fsize s \<Longrightarrow> wf_fs (fin l s) \<and> fs_le s (fin l s)"
  shows "wf_fs s \<Longrightarrow> lim \<le> fsize s \<Longrightarrow> d < fsize s \<Longrightarrow> is_dir s d \<Longrightarrow> I s d \<Longrightarrow> links_in L s d \<Longrightarrow> list_all calm_name (fs_names s d) \<Longrightarrow>
    list_all calm_name ms \<Longrightarrow> dirs_named s css acc \<Longrightarrow>
    \<exists>t r. loop d ms acc s = Some (t, r) \<and> wf_fs t \<and> fs_le s t \<and>
      (case r of Inl e \<Rightarrow> e = TypeError | Inr l \<Rightarrow> dirs_named t (css @ below_names L s d ms) l)"
proof (induction d arbitrary: s ms acc css rule: less_induct)
  case (less d)
  note wf = less.prems(1) and d = less.prems(3) and dd = less.prems(4)
  have "d \<in> set (f_elements (fsnode_of s d))" using elements_self [OF wf d] .
  then have reps: "\<forall>r \<in> set (L (fsnode_of s d)). r < fsize s \<and> is_dir s r" using less.prems(6) by (auto simp: links_in_def)
  let ?here = "map (\<lambda>r. fs_names s r @ ms) (L (fsnode_of s d))"
  let ?p = "py_join ''/'' (ms @ D ms)"
  obtain s1 where s1: "wf_fs s1" "fs_le s s1" "rep_dirs (L (fsnode_of s d)) ?p acc s = (s1, Inl TypeError) \<or>
      (\<exists>l. rep_dirs (L (fsnode_of s d)) ?p acc s = (s1, Inr l) \<and> dirs_named s1 (css @ ?here) l)"
    using rep_dirs_ok [OF wf reps less.prems(8) D(1) D(2) less.prems(9)] by blast
  note st = step [OF wf d dd less.prems(5-8), of acc]
  show ?case
  proof (cases "rep_dirs (L (fsnode_of s d)) ?p acc s = (s1, Inl TypeError)")
    case True
    then show ?thesis using s1 st by simp
  next
    case False
    then obtain l where l: "rep_dirs (L (fsnode_of s d)) ?p acc s = (s1, Inr l)" "dirs_named s1 (css @ ?here) l" using s1(3) by blast
    have m1: "lim \<le> fsize s1" using less.prems(2) s1(2) by (simp add: fs_le_def)
    show ?thesis
    proof (cases "d = 0")
      case True
      then have "below_names L s d ms = ?here" using below_names_step [OF wf d, of L ms] by simp
      then show ?thesis using True st l fin [OF s1(1) m1, of l] fs_le_trans [OF s1(2)] dirs_named_le [OF _ s1(1) l(2)] by simp
    next
      case n0: False
      let ?u = "f_dir (fsnode_of s d)" and ?ms = "f_name (fsnode_of s d) # ms"
      have c: "?u < d" "child_ok (fsnode_of s ?u) d (fsnode_of s d)" using wf_fsD(6) [OF wf d] n0 by (simp_all add: child_ok_def)
      have u: "?u < fsize s" "is_dir s ?u" "links_in L s ?u" using c d less.prems(6) by (auto simp: child_ok_def is_dir_def links_in_def)
      have nm: "fs_names s d = fs_names s ?u @ [f_name (fsnode_of s d)]" using fs_names_child [OF wf d] n0 by simp
      have "\<exists>t r. loop ?u ?ms l s1 = Some (t, r) \<and> wf_fs t \<and> fs_le s1 t \<and>
          (case r of Inl e \<Rightarrow> e = TypeError | Inr l' \<Rightarrow> dirs_named t ((css @ ?here) @ below_names L s1 ?u ?ms) l')"
        using less.prems(7, 8) nm u m1 fs_leD(1) [OF s1(2) u(1)] fs_le_is_dir [OF s1(2) u(1, 2)] I [OF less.prems(5) wf d dd _ s1(2)] n0
          fs_le_names [OF s1(2) wf u(1)] links_le(2) [OF s1(2) wf u]
        by (intro less.IH [OF c(1) s1(1)] l(2)) simp_all
      moreover have sb: "below_names L s d ms = ?here @ below_names L s1 ?u ?ms"
        using below_names_step [OF wf d, of L ms] n0 links_le(1) [OF s1(2) wf u] by simp
      moreover have "loop d ms acc s = loop ?u ?ms l s1" using st l(1) n0 by simp
      ultimately show ?thesis using fs_le_trans [OF s1(2)] unfolding sb append_assoc by metis
    qed
  qed
qed

end

interpretation sl: dir_links src_of
  by unfold_locales (simp add: same_links_def src_of_def)

interpretation rl: dir_links f_repositories
  by unfold_locales (simp add: same_links_def)

lemma memo_upd:
  assumes "wf_fs s" "Suc n \<le> fsize s"
  shows "wf_fs (upd_fsnode n (\<lambda>x. x\<lparr>f_memo_srcdirs := r\<rparr>) s) \<and> fs_le s (upd_fsnode n (\<lambda>x. x\<lparr>f_memo_srcdirs := r\<rparr>) s)"
    "wf_fs (upd_fsnode n (\<lambda>x. x\<lparr>f_memo_rdirs := q\<rparr>) s) \<and> fs_le s (upd_fsnode n (\<lambda>x. x\<lparr>f_memo_rdirs := q\<rparr>) s)"
proof -
  have n: "n < fsize s" using assms(2) by simp
  show "wf_fs (upd_fsnode n (\<lambda>x. x\<lparr>f_memo_srcdirs := r\<rparr>) s) \<and> fs_le s (upd_fsnode n (\<lambda>x. x\<lparr>f_memo_srcdirs := r\<rparr>) s)"
    by (intro conjI wf_upd_fsnode fs_le_upd_fsnode n assms(1)) (simp_all add: same_place_def same_links_def)
  show "wf_fs (upd_fsnode n (\<lambda>x. x\<lparr>f_memo_rdirs := q\<rparr>) s) \<and> fs_le s (upd_fsnode n (\<lambda>x. x\<lparr>f_memo_rdirs := q\<rparr>) s)"
    by (intro conjI wf_upd_fsnode fs_le_upd_fsnode n assms(1)) (simp_all add: same_place_def same_links_def)
qed

text \<open>The state after the inner loop still knows the way up.\<close>

lemma rep_dirs_up:
  assumes "wf_fs s" "d < fsize s" "is_dir s d" "\<forall>r \<in> set reps. r < fsize s \<and> is_dir s r" "list_all calm_name ms"
    "ds = [] \<or> ds = [''.'']" "ms @ ds \<noteq> []" "rep_dirs reps (py_join ''/'' (ms @ ds)) acc s = (s1, Inr l)"
  shows "dir_up s1 d = (if d = 0 then None else Some (f_dir (fsnode_of s d)))" "f_name (fsnode_of s1 d) = f_name (fsnode_of s d)"
proof -
  have r: "wf_fs s1 \<and> fs_le s s1" using assms(1, 4-8)
  proof (induction reps arbitrary: s acc)
    case (Cons r reps)
    have r: "r < fsize s" "is_dir s r" using Cons.prems(2) by simp_all
    from Cons.prems(1) r Cons.prems(3-5) show ?case
    proof (cases rule: Dir_Dir_cases)
      case (1 t)
      then show ?thesis using Cons.prems by simp
    next
      case (2 t m)
      have "\<forall>r \<in> set reps. r < fsize t \<and> is_dir t r" using Cons.prems(2) fs_leD(1) [OF 2(3)] fs_le_is_dir [OF 2(3)] by simp
      then show ?thesis using Cons.IH [OF 2(2)] Cons.prems 2 fs_le_trans by auto
    qed
  qed simp
  then show "dir_up s1 d = (if d = 0 then None else Some (f_dir (fsnode_of s d)))"
    using dir_up_eq [of s1 d] fs_leD(1) [of s s1 d] fs_le_is_dir [of s s1 d] fs_le_fields(2) [of s s1 d] assms(2, 3) by simp
  show "f_name (fsnode_of s1 d) = f_name (fsnode_of s d)" using r fs_le_fields(3) [OF _ assms(2)] by blast
qed

lemma links_here:
  assumes "wf_fs s" "d < fsize s" "links_in L s d" shows "\<forall>r \<in> set (L (fsnode_of s d)). r < fsize s \<and> is_dir s r"
proof -
  have "d \<in> set (f_elements (fsnode_of s d))" using elements_self [OF assms(1, 2)] .
  then show ?thesis using assms(3) by (auto simp: links_in_def)
qed

lemma srcdir_loop_ok:
  assumes "wf_fs s" "d0 < fsize s" "d < fsize s" "is_dir s d" "links_in src_of s d" "list_all calm_name (fs_names s d)"
  shows "\<exists>t r. srcdir_loop d0 d ''.'' [] s = Some (t, r) \<and> wf_fs t \<and> fs_le s t \<and>
    (case r of Inl e \<Rightarrow> e = TypeError | Inr l \<Rightarrow> dirs_named t (below_names src_of s d []) l)"
proof -
  let ?loop = "\<lambda>d ms. srcdir_loop d0 d (py_join ''/'' (ms @ [''.'']))"
  have step: "?loop d ms acc s = (case rep_dirs (src_of (fsnode_of s d)) (py_join ''/'' (ms @ [''.''])) acc s of
      (s1, Inl e) \<Rightarrow> Some (s1, Inl e)
    | (s1, Inr l) \<Rightarrow> if d = 0 then Some (upd_fsnode d0 (\<lambda>x. x\<lparr>f_memo_srcdirs := Some l\<rparr>) s1, Inr l)
        else ?loop (f_dir (fsnode_of s d)) (f_name (fsnode_of s d) # ms) l s1)"
    if a: "wf_fs s" "d < fsize s" "is_dir s d" "links_in src_of s d" "list_all calm_name ms" for d ms acc s
  proof -
    have look: "(case f_srcdir (fsnode_of s d) of None \<Rightarrow> (s, Inr acc)
        | Some src \<Rightarrow> fs_bind (Dir_Dir src (py_join ''/'' (ms @ [''.''])) True s) (\<lambda>m s1. (s1, Inr (acc @ [m])))) =
      rep_dirs (src_of (fsnode_of s d)) (py_join ''/'' (ms @ [''.''])) acc s"
      by (simp add: src_of_def rep_dirs_Nil split: option.splits)
    have p: "c @ slash # py_join ''/'' (ms @ [''.'']) = py_join ''/'' (c # ms @ [''.''])" for c by (simp add: py_join_Cons)
    obtain s1 x where x: "rep_dirs (src_of (fsnode_of s d)) (py_join ''/'' (ms @ [''.''])) acc s = (s1, x)" by fastforce
    show ?thesis
    proof (cases x)
      case (Inl e)
      then show ?thesis using x look by (subst srcdir_loop.simps) simp
    next
      case (Inr l)
      have u: "dir_up s1 d = (if d = 0 then None else Some (f_dir (fsnode_of s d)))" "f_name (fsnode_of s1 d) = f_name (fsnode_of s d)"
        using rep_dirs_up [OF a(1-3) links_here [OF a(1, 2, 4)] a(5), of "[''.'']"] x Inr by simp_all
      show ?thesis using x look Inr u p by (subst srcdir_loop.simps) simp
    qed
  qed
  have "\<exists>t r. ?loop d [] [] s = Some (t, r) \<and> wf_fs t \<and> fs_le s t \<and>
      (case r of Inl e \<Rightarrow> e = TypeError | Inr l \<Rightarrow> dirs_named t ([] @ below_names src_of s d []) l)"
  proof (rule sl.climb_ok [where loop = ?loop and I = "\<lambda>s d. True" and D = "\<lambda>ms. [''.'']" and lim = "Suc d0"
        and fin = "\<lambda>l. upd_fsnode d0 (\<lambda>x. x\<lparr>f_memo_srcdirs := Some l\<rparr>)"])
    show "dirs_named s [] []" by (simp add: dirs_named_def)
  qed (use assms step memo_upd(1) in \<open>simp_all\<close>)
  then show ?thesis by (simp cong: sum.case_cong)
qed

text \<open>No variant directory on the way to the root lends its source directory as a repository.\<close>

definition no_lending :: "fsys \<Rightarrow> fsid \<Rightarrow> bool" where
  "no_lending s d \<longleftrightarrow> (\<forall>a \<in> set (f_elements (fsnode_of s d)). f_srcdir (fsnode_of s a) = None \<or> f_duplicate (fsnode_of s a))"

lemma no_lending_up:
  assumes "no_lending s d" "wf_fs s" "d < fsize s" "is_dir s d" "0 < d" "fs_le s t"
  shows "no_lending t (f_dir (fsnode_of s d))"
proof -
  let ?u = "f_dir (fsnode_of s d)"
  have c: "?u < d" "f_elements (fsnode_of s d) = f_elements (fsnode_of s ?u) @ [d]" using wf_fsD(6) [OF assms(2, 3, 5)] by (simp_all add: child_ok_def)
  have e: "f_elements (fsnode_of t ?u) = f_elements (fsnode_of s ?u)" using fs_le_fields(1) [OF assms(6)] c(1) assms(3) by simp
  have "f_srcdir (fsnode_of t a) = f_srcdir (fsnode_of s a)" "f_duplicate (fsnode_of t a) = f_duplicate (fsnode_of s a)"
    if "a \<in> set (f_elements (fsnode_of s ?u))" for a
  proof -
    have "a < fsize s \<and> is_dir s a" using elements_dirs [OF assms(2-4), of a] that c(2) by simp
    then show "f_srcdir (fsnode_of t a) = f_srcdir (fsnode_of s a)" "f_duplicate (fsnode_of t a) = f_duplicate (fsnode_of s a)"
      using fs_le_fields(4, 6) [OF assms(6)] by simp_all
  qed
  then show ?thesis using assms(1) c(2) unfolding no_lending_def e by simp
qed

lemma calm_join_dot:
  assumes "list_all calm_name ms" "ms \<noteq> []" shows "py_join ''/'' ms \<noteq> ''.''"
  using up_down_dot [OF calm_good [OF assms(1)], of 0] assms(2) by (auto simp: up_down_def)

lemma rdirs_loop_ok:
  assumes "wf_fs s" "d0 < fsize s" "d < fsize s" "is_dir s d" "links_in f_repositories s d" "list_all calm_name (fs_names s d)"
    "no_lending s d" "is_dir s d0"
  shows "\<exists>t r. rdirs_loop d0 d ''.'' [d0] s = Some (t, r) \<and> wf_fs t \<and> fs_le s t \<and>
    (case r of Inl e \<Rightarrow> e = TypeError | Inr l \<Rightarrow> dirs_named t (fs_names s d0 # below_names f_repositories s d []) l)"
proof -
  let ?D = "\<lambda>ms :: string list. if ms = [] then [''.''] else []"
  let ?loop = "\<lambda>d ms. rdirs_loop d0 d (py_join ''/'' (ms @ ?D ms))"
  have step: "?loop d ms acc s = (case rep_dirs (f_repositories (fsnode_of s d)) (py_join ''/'' (ms @ ?D ms)) acc s of
      (s1, Inl e) \<Rightarrow> Some (s1, Inl e)
    | (s1, Inr l) \<Rightarrow> if d = 0 then Some (upd_fsnode d0 (\<lambda>x. x\<lparr>f_memo_rdirs := Some l\<rparr>) s1, Inr l)
        else ?loop (f_dir (fsnode_of s d)) (f_name (fsnode_of s d) # ms) l s1)"
    if a: "wf_fs s" "d < fsize s" "is_dir s d" "no_lending s d" "links_in f_repositories s d" "list_all calm_name ms" for d ms acc s
  proof -
    have "d \<in> set (f_elements (fsnode_of s d))" using elements_self [OF a(1, 2)] .
    then have nl: "f_srcdir (fsnode_of s d) = None \<or> f_duplicate (fsnode_of s d)" using a(4) by (auto simp: no_lending_def)
    have p: "(if py_join ''/'' (ms @ ?D ms) = ''.'' then c else c @ ''/'' @ py_join ''/'' (ms @ ?D ms)) = py_join ''/'' ((c # ms) @ ?D (c # ms))" for c
      using calm_join_dot [OF a(6)] by (cases "ms = []") (simp_all add: py_join_Cons)
    obtain s1 x where x: "rep_dirs (f_repositories (fsnode_of s d)) (py_join ''/'' (ms @ ?D ms)) acc s = (s1, x)" by fastforce
    have b: "rdirs_loop d0 d (py_join ''/'' (ms @ ?D ms)) acc s = (case (s1, x) of
        (s2, Inl e) \<Rightarrow> Some (s2, Inl e)
      | (s2, Inr result') \<Rightarrow> (case dir_up s2 d of
            None \<Rightarrow> Some (upd_fsnode d0 (\<lambda>x. x\<lparr>f_memo_rdirs := Some result'\<rparr>) s2, Inr result')
          | Some u \<Rightarrow> rdirs_loop d0 u (py_join ''/'' ((f_name (fsnode_of s2 d) # ms) @ ?D (f_name (fsnode_of s2 d) # ms))) result' s2))"
      unfolding p [symmetric] x [symmetric] using nl by (subst rdirs_loop.simps) (auto split: option.splits)
    show ?thesis
    proof (cases x)
      case (Inl e)
      then show ?thesis using x b by simp
    next
      case (Inr l)
      have u: "dir_up s1 d = (if d = 0 then None else Some (f_dir (fsnode_of s d)))" "f_name (fsnode_of s1 d) = f_name (fsnode_of s d)"
        using rep_dirs_up [OF a(1-3) links_here [OF a(1, 2, 5)] a(6), of "?D ms"] x Inr by simp_all
      show ?thesis using x b Inr u by simp
    qed
  qed
  have "\<exists>t r. ?loop d [] [d0] s = Some (t, r) \<and> wf_fs t \<and> fs_le s t \<and>
      (case r of Inl e \<Rightarrow> e = TypeError | Inr l \<Rightarrow> dirs_named t ([fs_names s d0] @ below_names f_repositories s d []) l)"
  proof (rule rl.climb_ok [where loop = ?loop and I = no_lending and D = ?D and lim = "Suc d0"
        and fin = "\<lambda>l. upd_fsnode d0 (\<lambda>x. x\<lparr>f_memo_rdirs := Some l\<rparr>)"])
    show "dirs_named s [fs_names s d0] [d0]" using assms by (simp add: dirs_named_def)
  qed (use assms step memo_upd(2) no_lending_up in \<open>simp_all\<close>)
  then show ?thesis by (simp cong: sum.case_cong)
qed

section \<open>Clearing what is below a directory\<close>

text \<open>The nodes below a directory, itself included, and the state in which a set of nodes has been cleared.\<close>

definition below_dir :: "fsys \<Rightarrow> fsid \<Rightarrow> fsid set" where
  "below_dir s d = {n. n < fsize s \<and> d \<in> set (f_elements (fsnode_of s n))}"

definition clear_set :: "bool option \<Rightarrow> fsid set \<Rightarrow> fsys \<Rightarrow> fsys" where
  "clear_set dup T s = s\<lparr>fs_nodes := map (\<lambda>n. if n \<in> T then clear_fsnode dup (fsnode_of s n) else fsnode_of s n) [0..<fsize s]\<rparr>"

lemma clear_fsnode_fields [simp]:
  "f_dir (clear_fsnode dup x) = f_dir x" "f_entries (clear_fsnode dup x) = f_entries x" "f_class (clear_fsnode dup x) = f_class x"
  "f_elements (clear_fsnode dup x) = f_elements x" "f_name (clear_fsnode dup x) = f_name x" "f_srcdir (clear_fsnode dup x) = f_srcdir x"
  "f_abspath (clear_fsnode dup x) = f_abspath x" "f_labspath (clear_fsnode dup x) = f_labspath x"
  "clear_fsnode dup (clear_fsnode dup x) = clear_fsnode dup x"
  by (simp_all add: clear_fsnode_def fs_clear_def Let_def split: option.splits)

lemma clear_set_node [simp]:
  "n < fsize s \<Longrightarrow> fsnode_of (clear_set dup T s) n = (if n \<in> T then clear_fsnode dup (fsnode_of s n) else fsnode_of s n)"
  "fsize (clear_set dup T s) = fsize s"
  by (simp_all add: clear_set_def)

lemma clear_set_views:
  assumes "n < fsize s"
  shows "f_dir (fsnode_of (clear_set dup T s) n) = f_dir (fsnode_of s n)" "is_dir (clear_set dup T s) n = is_dir s n"
    "entry_values (clear_set dup T s) n = entry_values s n"
  using assms by (simp_all add: is_dir_def entry_values_def)

lemma clear_set_more:
  assumes "m < fsize s" shows "upd_fsnode m (clear_fsnode dup) (clear_set dup T s) = clear_set dup (insert m T) s"
proof -
  have "(fs_nodes (clear_set dup T s))[m := clear_fsnode dup (fsnode_of (clear_set dup T s) m)] = fs_nodes (clear_set dup (insert m T) s)"
    by (rule nth_equalityI) (use assms in \<open>auto simp: nth_list_update\<close>)
  then show ?thesis by (simp add: upd_fsnode_def clear_set_def)
qed

text \<open>What the visit of one entry of a directory clears.\<close>

definition visit_set :: "fsys \<Rightarrow> fsid \<Rightarrow> fsid \<Rightarrow> fsid set" where
  "visit_set s d m = (if m = f_dir (fsnode_of s d) then {} else if m \<noteq> d \<and> is_dir s m then below_dir s m else {m})"

lemma clear_loop_entries:
  assumes "wf_fs s" "d < fsize s" "\<forall>m \<in> set ms. m < fsize s"
    and IH: "\<And>m T rest. m \<in> set ms \<Longrightarrow> m \<noteq> f_dir (fsnode_of s d) \<Longrightarrow> m \<noteq> d \<Longrightarrow> is_dir s m \<Longrightarrow>
      clear_loop dup ((m, entry_values s m) # rest) (clear_set dup T s) = clear_loop dup rest (clear_set dup (T \<union> below_dir s m) s)"
  shows "clear_loop dup ((d, ms) # rest) (clear_set dup T s) = clear_loop dup rest (clear_set dup (T \<union> (\<Union>m \<in> set ms. visit_set s d m)) s)"
  using assms(3) IH
proof (induction ms arbitrary: T)
  case Nil
  show ?case by (subst clear_loop.simps) simp
next
  case (Cons m ms)
  have m: "m < fsize s" using Cons.prems(1) by simp
  have "clear_loop dup ((d, m # ms) # rest) (clear_set dup T s) = clear_loop dup ((d, ms) # rest) (clear_set dup (T \<union> visit_set s d m) s)"
  proof -
    consider "m = f_dir (fsnode_of s d)" | "m \<noteq> f_dir (fsnode_of s d)" "m \<noteq> d" "is_dir s m"
      | "m \<noteq> f_dir (fsnode_of s d)" "\<not> (m \<noteq> d \<and> is_dir s m)" by blast
    then show ?thesis
    proof cases
      case 1
      then show ?thesis using clear_set_views [OF assms(2)] by (subst clear_loop.simps) (simp add: visit_set_def)
    next
      case 2
      then show ?thesis using clear_set_views [OF assms(2)] clear_set_views [OF m] Cons.prems(2) [of m]
        by (subst clear_loop.simps) (simp add: visit_set_def)
    next
      case 3
      then show ?thesis using clear_set_views [OF assms(2)] clear_set_views [OF m] clear_set_more [OF m, of dup T]
        by (subst clear_loop.simps) (auto simp: visit_set_def)
    qed
  qed
  moreover have "clear_loop dup ((d, ms) # rest) (clear_set dup (T \<union> visit_set s d m) s) =
      clear_loop dup rest (clear_set dup ((T \<union> visit_set s d m) \<union> (\<Union>m \<in> set ms. visit_set s d m)) s)"
    using Cons.prems by (intro Cons.IH) auto
  ultimately show ?case by (simp add: Un_assoc)
qed

lemma set_entry_values: "m \<in> set (entry_values s d) \<longleftrightarrow> (\<exists>k. map_of (f_entries (fsnode_of s d)) k = Some m)"
proof
  assume "m \<in> set (entry_values s d)"
  then obtain k where "k \<in> fst ` set (f_entries (fsnode_of s d))" "m = the (map_of (f_entries (fsnode_of s d)) k)"
    by (auto simp: entry_values_def Let_def)
  then show "\<exists>k. map_of (f_entries (fsnode_of s d)) k = Some m"
    by (metis map_of_eq_None_iff option.collapse)
next
  assume "\<exists>k. map_of (f_entries (fsnode_of s d)) k = Some m"
  then obtain k where k: "map_of (f_entries (fsnode_of s d)) k = Some m" by blast
  then have "k \<in> fst ` set (f_entries (fsnode_of s d))" by (metis map_of_eq_None_iff option.distinct(1))
  then show "m \<in> set (entry_values s d)" using k by (force simp: entry_values_def Let_def)
qed

lemma above_is_dir:
  assumes "wf_fs s" "n < fsize s" "m \<in> set (f_elements (fsnode_of s n))" "m \<noteq> n" shows "is_dir s m"
proof -
  have n0: "0 < n" using assms(3, 4) wf_fsD(3) [OF assms(1)] by (cases n) (auto simp: root_ok_def)
  have c: "child_ok (fsnode_of s (f_dir (fsnode_of s n))) n (fsnode_of s n)" using wf_fsD(6) [OF assms(1, 2) n0] .
  then have "m \<in> set (f_elements (fsnode_of s (f_dir (fsnode_of s n))))" "f_dir (fsnode_of s n) < fsize s" "is_dir s (f_dir (fsnode_of s n))"
    using assms(2-4) by (auto simp: child_ok_def is_dir_def)
  then show ?thesis using elements_dirs [OF assms(1)] by blast
qed

text \<open>The members of a directory: itself, its parent, and the nodes in it.\<close>

lemma entry_values_cases:
  assumes "wf_fs s" "d < fsize s" "is_dir s d" "m \<in> set (entry_values s d)"
  shows "m = d \<or> m = f_dir (fsnode_of s d) \<or> d < m \<and> m < fsize s \<and> f_elements (fsnode_of s m) = f_elements (fsnode_of s d) @ [m]"
proof -
  obtain k where k: "map_of (f_entries (fsnode_of s d)) k = Some m" using assms(4) by (auto simp: set_entry_values)
  have e: "entries_ok s d" using wf_fsD(7) [OF assms(1-3)] .
  consider "k = ''.''" | "k = ''..''" | "k \<noteq> ''.''" "k \<noteq> ''..''" by blast
  then show ?thesis
  proof cases
    case 3
    then have m: "0 < m" "m < fsize s" "f_dir (fsnode_of s m) = d" using e k by (auto simp: entries_ok_def)
    then show ?thesis using wf_fsD(6) [OF assms(1) m(2, 1)] by (simp add: child_ok_def)
  qed (use e k in \<open>auto simp: entries_ok_def\<close>)
qed

lemma below_dir_child:
  assumes "wf_fs s" "n \<in> below_dir s d" "n \<noteq> d" "d < fsize s"
  obtains m where "m \<in> set (entry_values s d)" "m \<noteq> d" "f_dir (fsnode_of s m) = d" "d < m" "m < fsize s" "m \<in> set (f_elements (fsnode_of s n))"
proof -
  have n: "n < fsize s" "d \<in> set (f_elements (fsnode_of s n))" using assms(2) by (auto simp: below_dir_def)
  then obtain i where i: "i < length (f_elements (fsnode_of s n))" "f_elements (fsnode_of s n) ! i = d" by (auto simp: in_set_conv_nth)
  have "i \<noteq> length (f_elements (fsnode_of s n)) - 1"
    using elements_last [OF assms(1) n(1)] f_elements_neq_Nil [OF assms(1) n(1)] i assms(3) by (auto simp: last_conv_nth)
  then have j: "Suc i < length (f_elements (fsnode_of s n))" using i by simp
  define m where "m = f_elements (fsnode_of s n) ! Suc i"
  have mn: "m \<in> set (f_elements (fsnode_of s n))" using j by (simp add: m_def)
  have m: "m < fsize s" using elements_less [OF assms(1) n(1) mn] n(1) by simp
  have em: "f_elements (fsnode_of s m) = take (Suc i) (f_elements (fsnode_of s n)) @ [m]"
    using elements_prefix [OF assms(1) n(1) j] j by (simp add: m_def take_Suc_conv_app_nth)
  have ed: "f_elements (fsnode_of s d) = take (Suc i) (f_elements (fsnode_of s n))" using elements_prefix [OF assms(1) n(1) i(1)] i(2) by simp
  have m0: "0 < m" using em ed f_elements_neq_Nil [OF assms(1, 4)] wf_fsD(3) [OF assms(1)] by (cases m) (auto simp: root_ok_def)
  have c: "child_ok (fsnode_of s (f_dir (fsnode_of s m))) m (fsnode_of s m)" using wf_fsD(6) [OF assms(1) m m0] .
  then have fd: "f_dir (fsnode_of s m) < fsize s" "f_elements (fsnode_of s (f_dir (fsnode_of s m))) = f_elements (fsnode_of s d)"
    using em ed m by (auto simp: child_ok_def)
  have dm: "f_dir (fsnode_of s m) = d" using elements_last [OF assms(1) fd(1)] elements_last [OF assms(1, 4)] unfolding fd(2) by (rule trans [OF sym])
  show ?thesis
  proof (rule that [of m])
    show "m \<in> set (entry_values s d)" using c unfolding dm set_entry_values child_ok_def by blast
    have "f_dir (fsnode_of s m) < m" using c unfolding child_ok_def by blast
    then show "d < m" "m \<noteq> d" unfolding dm by simp_all
  qed (use dm m mn in simp_all)
qed

lemma below_dir_step:
  assumes "wf_fs s" "d < fsize s" "is_dir s d" "0 < d"
  shows "(\<Union>m \<in> set (entry_values s d). visit_set s d m) = below_dir s d"
proof
  have lt: "f_dir (fsnode_of s d) < d" using f_dir_less [OF assms(1, 2, 4)] .
  have self: "d \<in> set (f_elements (fsnode_of s d))" using elements_self [OF assms(1, 2)] .
  show "(\<Union>m \<in> set (entry_values s d). visit_set s d m) \<subseteq> below_dir s d"
  proof
    fix n assume "n \<in> (\<Union>m \<in> set (entry_values s d). visit_set s d m)"
    then obtain m where m: "m \<in> set (entry_values s d)" "n \<in> visit_set s d m" by blast
    from entry_values_cases [OF assms(1-3) m(1)] show "n \<in> below_dir s d"
    proof (elim disjE conjE)
      assume "m = d"
      then show ?thesis using m(2) lt self assms(2) by (auto simp: visit_set_def below_dir_def split: if_splits)
    next
      assume "m = f_dir (fsnode_of s d)"
      then show ?thesis using m(2) by (simp add: visit_set_def)
    next
      assume c: "d < m" "m < fsize s" "f_elements (fsnode_of s m) = f_elements (fsnode_of s d) @ [m]"
      then have dm: "d \<in> set (f_elements (fsnode_of s m))" using self by simp
      show ?thesis
      proof (cases "is_dir s m")
        case True
        then have n: "n < fsize s" "m \<in> set (f_elements (fsnode_of s n))" using m(2) c lt by (auto simp: visit_set_def below_dir_def split: if_splits)
        then obtain i where "i < length (f_elements (fsnode_of s n))" "f_elements (fsnode_of s n) ! i = m" by (auto simp: in_set_conv_nth)
        then have "f_elements (fsnode_of s m) = take (Suc i) (f_elements (fsnode_of s n))" using elements_prefix [OF assms(1) n(1)] by blast
        then have "d \<in> set (f_elements (fsnode_of s n))" using dm by (metis in_set_takeD)
        then show ?thesis using n by (simp add: below_dir_def)
      next
        case False
        then have "n = m" using m(2) c lt by (auto simp: visit_set_def split: if_splits)
        then show ?thesis using dm c by (simp add: below_dir_def)
      qed
    qed
  qed
  show "below_dir s d \<subseteq> (\<Union>m \<in> set (entry_values s d). visit_set s d m)"
  proof
    fix n assume n: "n \<in> below_dir s d"
    show "n \<in> (\<Union>m \<in> set (entry_values s d). visit_set s d m)"
    proof (cases "n = d")
      case True
      have "d \<in> set (entry_values s d)" using wf_fsD(7) [OF assms(1-3)] by (auto simp: set_entry_values entries_ok_def)
      then show ?thesis using True lt by (auto simp: visit_set_def intro!: bexI [of _ d])
    next
      case False
      obtain m where m: "m \<in> set (entry_values s d)" "m \<noteq> d" "d < m" "m < fsize s" "m \<in> set (f_elements (fsnode_of s n))"
        by (rule below_dir_child [OF assms(1) n False assms(2)])
      have "n \<in> visit_set s d m"
        using m lt n above_is_dir [OF assms(1) _ m(5)] by (auto simp: visit_set_def below_dir_def)
      then show ?thesis using m(1) by blast
    qed
  qed
qed

lemma clear_loop_dir:
  assumes "wf_fs s" "d < fsize s" "is_dir s d" "0 < d"
  shows "clear_loop dup ((d, entry_values s d) # rest) (clear_set dup T s) = clear_loop dup rest (clear_set dup (T \<union> below_dir s d) s)"
  using assms(2-4)
proof (induction "fsize s - d" arbitrary: d T rest rule: less_induct)
  case less
  have lt: "f_dir (fsnode_of s d) < d" using f_dir_less [OF assms(1) less.prems(1, 3)] .
  have ev: "m < fsize s \<and> (m \<noteq> f_dir (fsnode_of s d) \<longrightarrow> m \<noteq> d \<longrightarrow> d < m)" if "m \<in> set (entry_values s d)" for m
    using entry_values_cases [OF assms(1) less.prems(1, 2) that] lt less.prems(1) by auto
  have "clear_loop dup ((d, entry_values s d) # rest) (clear_set dup T s) =
      clear_loop dup rest (clear_set dup (T \<union> (\<Union>m \<in> set (entry_values s d). visit_set s d m)) s)"
  proof (rule clear_loop_entries [OF assms(1) less.prems(1)])
    show "\<forall>m \<in> set (entry_values s d). m < fsize s" using ev by blast
    fix m T rest
    assume m: "m \<in> set (entry_values s d)" "m \<noteq> f_dir (fsnode_of s d)" "m \<noteq> d" "is_dir s m"
    then have "m < fsize s" "d < m" using ev by blast+
    then show "clear_loop dup ((m, entry_values s m) # rest) (clear_set dup T s) = clear_loop dup rest (clear_set dup (T \<union> below_dir s m) s)"
      using m(4) less.prems(1) by (intro less.hyps) simp_all
  qed
  then show ?case unfolding below_dir_step [OF assms(1) less.prems] .
qed

text \<open>Clearing the cache of a directory ends and touches exactly what is below it.\<close>

lemma clearRepositoryCache_eq:
  assumes "wf_fs s" "d < fsize s" "is_dir s d" "0 < d"
  shows "clearRepositoryCache dup d s = Some (clear_set dup (below_dir s d) s)"
proof -
  have "clear_set dup {} s = s" by (simp add: clear_set_def map_nth)
  then show ?thesis using clear_loop_dir [OF assms, of dup "[]" "{}"]
    by (simp add: clearRepositoryCache_def clear_loop.simps [of dup "[]"])
qed

section \<open>Properties\<close>

lemma clear_fsnode_place: "same_place x (clear_fsnode dup x)"
  by (simp add: same_place_def)

lemma wf_clear_set:
  assumes "wf_fs s" "finite T" "T \<subseteq> {..<fsize s}" shows "wf_fs (clear_set dup T s)"
  using assms(2, 3)
proof (induction T rule: finite_induct)
  case empty
  have "clear_set dup {} s = s" by (simp add: clear_set_def map_nth)
  then show ?case using assms(1) by simp
next
  case (insert m T)
  have "wf_fs (upd_fsnode m (clear_fsnode dup) (clear_set dup T s))"
    using insert by (intro wf_upd_fsnode) (simp_all add: clear_fsnode_place)
  then show ?case using clear_set_more [of m s dup T] insert.prems by simp
qed

lemma finite_below_dir: "finite (below_dir s d)" "below_dir s d \<subseteq> {..<fsize s}"
  by (auto simp: below_dir_def)

lemma VariantDir_post:
  assumes "wf_fs s" "v < fsize s" "is_dir s v" "src < fsize s" "is_dir s src"
  shows "\<exists>t r. VariantDir (FNode v) (FNode src) dup s = Some (t, r) \<and> wf_fs t \<and>
    (if v \<in> set (f_elements (fsnode_of s src)) then t = s \<and> r = Inl (UserError ''Source directory cannot be under variant directory.'')
     else case f_srcdir (fsnode_of s v) of
       Some old \<Rightarrow> t = s \<and> r = (if old = src then Inr () else Inl (UserError ''already has a source directory''))
     | None \<Rightarrow> r = Inr () \<and> f_srcdir (fsnode_of t v) = Some src \<and> v \<in> set (f_variant_dirs (fsnode_of t src)) \<and>
         (\<forall>n < fsize s. if v \<in> set (f_elements (fsnode_of s n))
            then f_duplicate (fsnode_of t n) = dup \<and> f_memo_stat (fsnode_of t n) = None \<and>
              f_memo_rdirs (fsnode_of t n) = None \<and> f_memo_srcdirs (fsnode_of t n) = None
            else n = src \<or> fsnode_of t n = fsnode_of s n))"
proof -
  have u: "is_under s src v = Some (v \<in> set (f_elements (fsnode_of s src)))" using is_under_eq [OF assms(1, 4)] .
  have V: "VariantDir (FNode v) (FNode src) dup s = variant_link v src dup s" by (simp add: VariantDir_def node_or_dir_def)
  show ?thesis
  proof (cases "v \<in> set (f_elements (fsnode_of s src)) \<or> f_srcdir (fsnode_of s v) \<noteq> None")
    case True
    then show ?thesis using u assms(1, 3) unfolding V variant_link_def by (auto split: option.splits)
  next
    case False
    then have v: "v \<notin> set (f_elements (fsnode_of s src))" "f_srcdir (fsnode_of s v) = None" by simp_all
    have "0 \<in> set (f_elements (fsnode_of s src))"
      using elements_root [OF assms(1, 4)] f_elements_neq_Nil [OF assms(1, 4)] by (metis length_greater_0_conv nth_mem)
    then have v0: "0 < v" using v(1) by (cases v) auto
    have vs: "src \<noteq> v" using v(1) elements_self [OF assms(1, 4)] by blast
    let ?f = "\<lambda>x. x\<lparr>f_srcdir := Some src, f_duplicate := dup\<rparr>"
    let ?s1 = "upd_fsnode v ?f s"
    let ?g = "\<lambda>x. x\<lparr>f_variant_dirs := f_variant_dirs x @ [v]\<rparr>"
    have w1: "wf_fs ?s1" by (rule wf_upd_fsnode [OF assms(1, 2)]) (simp_all add: same_place_def)
    have b: "below_dir ?s1 v = below_dir s v" using assms(2) by (auto simp: below_dir_def split: if_splits)
    have c: "clearRepositoryCache (Some dup) v ?s1 = Some (clear_set (Some dup) (below_dir s v) ?s1)"
      unfolding b [symmetric] using assms v0 by (intro clearRepositoryCache_eq [OF w1]) (simp_all add: is_dir_def)
    define s2 where "s2 = clear_set (Some dup) (below_dir s v) ?s1"
    have w2: "wf_fs s2" unfolding s2_def using finite_below_dir [of s v] by (intro wf_clear_set [OF w1]) simp_all
    have n2: "fsnode_of s2 n = (let x = (if n = v then ?f (fsnode_of s v) else fsnode_of s n)
        in if n \<in> below_dir s v then clear_fsnode (Some dup) x else x)" if "n < fsize s" for n
      unfolding s2_def Let_def using assms(2) that by simp
    have d2: "is_dir s2 src" "src < fsize s2" "fsize s2 = fsize s" using n2 [OF assms(4)] assms(4, 5) vs by (auto simp: is_dir_def s2_def Let_def)
    let ?t = "upd_fsnode src ?g s2"
    have "VariantDir (FNode v) (FNode src) dup s = Some (?t, Inr ())"
      using u v assms(3) d2(1) unfolding V variant_link_def dir_link_def c s2_def [symmetric] by simp
    moreover have "wf_fs ?t" using d2 by (intro wf_upd_fsnode [OF w2]) (simp_all add: same_place_def)
    moreover have nt: "fsnode_of ?t n = (if n = src then ?g (fsnode_of s2 n) else fsnode_of s2 n)" for n using d2 by simp
    moreover have "f_srcdir (fsnode_of ?t v) = Some src" unfolding nt using n2 [OF assms(2)] vs by (simp add: Let_def)
    moreover have "v \<in> set (f_variant_dirs (fsnode_of ?t src))" unfolding nt by simp
    moreover have "if v \<in> set (f_elements (fsnode_of s n))
            then f_duplicate (fsnode_of ?t n) = dup \<and> f_memo_stat (fsnode_of ?t n) = None \<and>
              f_memo_rdirs (fsnode_of ?t n) = None \<and> f_memo_srcdirs (fsnode_of ?t n) = None
            else n = src \<or> fsnode_of ?t n = fsnode_of s n" if "n < fsize s" for n
    proof (cases "v \<in> set (f_elements (fsnode_of s n))")
      case True
      then have "n \<in> below_dir s v" using that by (simp add: below_dir_def)
      then show ?thesis unfolding nt n2 [OF that] using True by (auto simp: clear_fsnode_def fs_clear_def Let_def)
    next
      case False
      then have "n \<notin> below_dir s v" "n \<noteq> v" using elements_self [OF assms(1, 2)] by (auto simp: below_dir_def)
      then show ?thesis unfolding nt n2 [OF that] using False by (simp add: Let_def)
    qed
    ultimately show ?thesis unfolding if_not_P [OF v(1)] v(2) option.case(1) by blast
  qed
qed

text \<open>
  C12: Linking a variant directory to its source directory always ends. It is refused when the source
  is below the variant directory or the variant directory is linked to another source, and then nothing
  changes; linking it to the same source again changes nothing either. Otherwise the variant directory knows its source and the
  source its variant, every node below the variant directory has the new \<open>duplicate\<close> flag and no cached
  result, all other nodes are as before, and the tree stays consistent.\<close>
theorem VariantDir_links:
  assumes "wf_fs s" "v < fsize s" "is_dir s v" "src < fsize s" "is_dir s src"
  shows "\<exists>t r. VariantDir (FNode v) (FNode src) dup s = Some (t, r) \<and> wf_fs t \<and>
    (if v \<in> set (f_elements (fsnode_of s src)) then t = s \<and> r = Inl (UserError ''Source directory cannot be under variant directory.'')
     else case f_srcdir (fsnode_of s v) of
       Some old \<Rightarrow> t = s \<and> r = (if old = src then Inr () else Inl (UserError ''already has a source directory''))
     | None \<Rightarrow> r = Inr () \<and> f_srcdir (fsnode_of t v) = Some src \<and> v \<in> set (f_variant_dirs (fsnode_of t src)) \<and>
         (\<forall>n < fsize s. if v \<in> set (f_elements (fsnode_of s n))
            then f_duplicate (fsnode_of t n) = dup \<and> f_memo_stat (fsnode_of t n) = None \<and>
              f_memo_rdirs (fsnode_of t n) = None \<and> f_memo_srcdirs (fsnode_of t n) = None
            else n = src \<or> fsnode_of t n = fsnode_of s n))"
  by (rule VariantDir_post [OF assms])


text \<open>The directory \<open>/r/a\<close> as a variant of \<open>/r/b\<close>, with copies.\<close>

definition sample_variant :: fsys where
  "sample_variant = fst (the (VariantDir (FNode 2) (FNode 3) True sample_tree))"

lemma sample_variant_wf: "wf_fs sample_variant"
proof -
  have "2 < fsize sample_tree" "is_dir sample_tree 2" "3 < fsize sample_tree" "is_dir sample_tree 3" by code_simp+
  then show ?thesis using VariantDir_post [OF sample_tree_wf, of 2 3 True] unfolding sample_variant_def by (metis fst_conv option.sel)
qed

theorem VariantDir_links_witness:
  "\<exists>t. VariantDir (FNode 2) (FNode 3) True sample_tree = Some (t, Inr ()) \<and> f_srcdir (fsnode_of t 2) = Some 3"
proof -
  have "2 < fsize sample_tree" "is_dir sample_tree 2" "3 < fsize sample_tree" "is_dir sample_tree 3" by code_simp+
  moreover have "2 \<notin> set (f_elements (fsnode_of sample_tree 3))" "f_srcdir (fsnode_of sample_tree 2) = None" by code_simp+
  ultimately show ?thesis using VariantDir_links [OF sample_tree_wf, of 2 3 True] by auto
qed


section \<open>Source nodes\<close>

lemma Dir_Entry_below:
  assumes "wf_fs s" "d < fsize s" "is_dir s d" "calm_name c"
  shows "lookup_post s (fs_names s d @ [c]) Entry True (Dir_Entry d c s)"
proof -
  have c: "list_all calm_name [c]" "[] = [] \<or> [] = [''.'']" "[c] @ [] \<noteq> []" using assms(4) by simp_all
  have "resolve s d c = fs_names s d @ [c]" using calm_path(2) [OF c, of s d] labspath_names [OF assms(1, 2)] by simp
  then show ?thesis using fs_lookup_post [OF assms(1-3), of c Entry True] calm_path(1) [OF c, of s] by (simp add: Dir_Entry_def FS_Entry_def)
qed

text \<open>The rest of \<open>srcnode\<close> once the source directory is known.\<close>

lemma srcnode_in:
  assumes wf: "wf_fs s" and d: "d < fsize s" "is_dir s d" and c: "calm_name c" and n: "n < fsize s" "0 < n"
  shows "\<exists>t r. fs_bind (Dir_Entry d c s) (\<lambda>m s2. same_class_node (f_class (fsnode_of s2 n)) m s2) = (t, r) \<and> wf_fs t \<and> fs_le s t \<and>
    (case r of Inl e \<Rightarrow> e = TypeError | Inr m \<Rightarrow> m < fsize t \<and> fs_names t m = fs_names s d @ [c])"
proof -
  obtain s1 r where r: "Dir_Entry d c s = (s1, r)" by fastforce
  have p: "lookup_post s (fs_names s d @ [c]) Entry True (s1, r)" using Dir_Entry_below [OF wf d c] r by simp
  show ?thesis
  proof (cases r)
    case (Inl e)
    then show ?thesis using p r by (simp add: lookup_post_def)
  next
    case (Inr m)
    have q: "wf_fs s1" "fs_le s s1" "m < fsize s1" "fs_names s1 m = fs_names s d @ [c]" using p Inr by (simp_all add: lookup_post_def)
    have g: "list_all good_name (fs_names s d @ [c])" using labspath_names [OF q(1, 3)] q(4) by simp
    have "fs_lookupDict s1 (key_path (fs_names s d @ [c])) = Some m" using dict_names [OF q(1, 3)] q(4) by simp
    moreover have "f_class (fsnode_of s1 n) \<noteq> RootDir" using wf_fsD(6) [OF q(1) fs_leD(1) [OF q(2) n(1)] n(2)] by (simp add: child_ok_def)
    moreover obtain t x where x: "same_class_node (f_class (fsnode_of s1 n)) m s1 = (t, x)" by fastforce
    ultimately have z: "lookup_post s1 (fs_names s d @ [c]) (f_class (fsnode_of s1 n)) True (t, x)" using lookup_known [OF q(1) g] by metis
    show ?thesis using z r Inr x fs_le_trans [OF q(2)] by (cases x) (simp_all add: lookup_post_def)
  qed
qed

text \<open>
  C14: The source of a file in a variant directory. \<open>srcnode\<close> of a node that is not a directory always
  ends; it is the node itself where no directory above is linked to a source, and otherwise the node with the same
  path below the source directory of the nearest linked directory, created if need be. The only error is \<open>TypeError\<close>.\<close>
theorem srcnode_correct:
  assumes "wf_fs s" "n < fsize s" "0 < n" "\<not> is_dir s n" "list_all calm_name (fs_names s n)"
    and "links_in src_of s (f_dir (fsnode_of s n))" "f_memo_srcdirs (fsnode_of s (f_dir (fsnode_of s n))) = None"
  shows "\<exists>t r. srcnode n s = Some (t, r) \<and> wf_fs t \<and> fs_le s t \<and>
    (case r of
       Inl e \<Rightarrow> e = TypeError
     | Inr m \<Rightarrow> (case below_names src_of s (f_dir (fsnode_of s n)) [] of
           [] \<Rightarrow> m = n
         | cs # _ \<Rightarrow> m < fsize t \<and> fs_names t m = cs @ [f_name (fsnode_of s n)]))"
proof -
  let ?d = "f_dir (fsnode_of s n)"
  have c: "child_ok (fsnode_of s ?d) n (fsnode_of s n)" using wf_fsD(6) [OF assms(1-3)] .
  have d: "?d < fsize s" "is_dir s ?d" using c assms(2) by (auto simp: child_ok_def is_dir_def)
  have nm: "list_all calm_name (fs_names s ?d)" "calm_name (f_name (fsnode_of s n))"
    using assms(5) fs_names_child [OF assms(1-3)] by simp_all
  obtain s1 r where r: "srcdir_list ?d s = Some (s1, r)" "wf_fs s1" "fs_le s s1"
    "case r of Inl e \<Rightarrow> e = TypeError | Inr l \<Rightarrow> dirs_named s1 (below_names src_of s ?d []) l"
    using srcdir_loop_ok [OF assms(1) d(1, 1, 2) assms(6) nm(1)] assms(7) by (auto simp: srcdir_list_def)
  have B: "srcnode n s = Some (fs_bind (s1, r) (\<lambda>l s1. case l of [] \<Rightarrow> (s1, Inr n)
     | d # _ \<Rightarrow> fs_bind (Dir_Entry d (f_name (fsnode_of s1 n)) s1) (\<lambda>m s2. same_class_node (f_class (fsnode_of s2 n)) m s2)))"
    using assms(4) r(1) by (simp add: srcnode_def base_srcnode_def)
  show ?thesis
  proof (cases r)
    case (Inl e)
    then show ?thesis using B r by simp
  next
    case (Inr l)
    then have l: "dirs_named s1 (below_names src_of s ?d []) l" using r(4) by simp
    show ?thesis
    proof (cases l)
      case Nil
      then have "below_names src_of s ?d [] = []" using l by (simp add: dirs_named_def)
      then show ?thesis using B Inr Nil r(2, 3) by simp
    next
      case (Cons sd ds)
      have b: "below_names src_of s ?d [] = fs_names s1 sd # map (fs_names s1) ds" and sd: "sd < fsize s1" "is_dir s1 sd"
        using l by (simp_all add: dirs_named_def Cons)
      have n1: "f_name (fsnode_of s1 n) = f_name (fsnode_of s n)" using fs_le_fields(3) [OF r(3) assms(2)] .
      have "n < fsize s1" using fs_leD(1) [OF r(3) assms(2)] .
      then obtain t x where x: "fs_bind (Dir_Entry sd (f_name (fsnode_of s n)) s1) (\<lambda>m s2. same_class_node (f_class (fsnode_of s2 n)) m s2) = (t, x)"
        "wf_fs t" "fs_le s1 t" "case x of Inl e \<Rightarrow> e = TypeError | Inr m \<Rightarrow> m < fsize t \<and> fs_names t m = fs_names s1 sd @ [f_name (fsnode_of s n)]"
        using srcnode_in [OF r(2) sd nm(2) _ assms(3)] by blast
      have "srcnode n s = Some (t, x)" using B Inr Cons n1 x(1) by simp
      then show ?thesis using x(2-4) fs_le_trans [OF r(3)] unfolding b list.case(2) by blast
    qed
  qed
qed

theorem srcnode_correct_witness:
  "\<exists>t m. srcnode 5 (fst (Dir_File 2 ''x.c'' sample_variant)) = Some (t, Inr m) \<and> fs_names t m = [''r'', ''b'', ''x.c'']"
proof -
  let ?s = "fst (Dir_File 2 ''x.c'' sample_variant)"
  have "2 < fsize sample_variant" "is_dir sample_variant 2" "plain_path sample_variant ''x.c''" by code_simp+
  then have w: "wf_fs ?s" using fs_lookup_post [OF sample_variant_wf, of 2 "''x.c''" File True]
    by (simp add: lookup_post_def Dir_File_def FS_File_def)
  have a: "5 < fsize ?s" "(0::nat) < 5" "\<not> is_dir ?s 5" "list_all calm_name (fs_names ?s 5)" "links_in src_of ?s (f_dir (fsnode_of ?s 5))"
    "f_memo_srcdirs (fsnode_of ?s (f_dir (fsnode_of ?s 5))) = None" by code_simp+
  have b: "below_names src_of ?s (f_dir (fsnode_of ?s 5)) [] = [[''r'', ''b'']]" "f_name (fsnode_of ?s 5) = ''x.c''" by code_simp+
  have "case the (srcnode 5 ?s) of (t, Inl e) \<Rightarrow> False | (t, Inr l) \<Rightarrow> True" by code_simp
  then show ?thesis using srcnode_correct [OF w a] b by (auto split: sum.splits)
qed

section \<open>A cycle of variant directories\<close>

text \<open>
  Two variant directories may be linked to each other: each link is accepted, since neither directory is below the
  other. If files are not duplicated, \<open>get_all_rdirs\<close> of either asks for that of the other and never returns.
\<close>

definition lend_cycle :: "fsid \<Rightarrow> fsid \<Rightarrow> fsys \<Rightarrow> bool" where
  "lend_cycle a b s \<longleftrightarrow> f_srcdir (fsnode_of s a) = Some b \<and> f_srcdir (fsnode_of s b) = Some a \<and>
     \<not> f_duplicate (fsnode_of s a) \<and> \<not> f_duplicate (fsnode_of s b) \<and>
     f_memo_rdirs (fsnode_of s a) = None \<and> f_memo_rdirs (fsnode_of s b) = None"

lemma rdirs_loop_cycle:
  assumes "rdirs_loop d0 dir fname result s = Some y"
  shows "\<not> (lend_cycle a b s \<and> (dir = a \<or> dir = b))"
proof (rule rdirs_loop.raw_induct [OF _ assms, where P = "\<lambda>d0 dir fname result s y. \<not> (lend_cycle a b s \<and> (dir = a \<or> dir = b))"])
  fix loop :: "fsid \<Rightarrow> fsid \<Rightarrow> string \<Rightarrow> fsid list \<Rightarrow> fsys \<Rightarrow> (fsys \<times> fsid list res) option"
  fix d0 dir fname result s y
  assume IH: "\<And>d0 dir fname result s y. loop d0 dir fname result s = Some y \<Longrightarrow> \<not> (lend_cycle a b s \<and> (dir = a \<or> dir = b))"
    and e: "Option.bind
       (case f_srcdir (fsnode_of s dir) of
          None \<Rightarrow> Some (s, Inr [])
        | Some src \<Rightarrow>
            (if f_duplicate (fsnode_of s dir) then Some (s, Inr [])
             else case f_memo_rdirs (fsnode_of s src) of
                 Some r \<Rightarrow> Some (s, Inr r)
               | None \<Rightarrow> loop src src ''.'' [src] s))
       (\<lambda>sr. case sr of
            (s1, Inl e) \<Rightarrow> Some (s1, Inl e)
          | (s1, Inr from_src) \<Rightarrow> (case rep_dirs (from_src @ f_repositories (fsnode_of s1 dir)) fname result s1 of
                (s2, Inl e) \<Rightarrow> Some (s2, Inl e)
              | (s2, Inr result') \<Rightarrow> (case dir_up s2 dir of
                    None \<Rightarrow> Some (upd_fsnode d0 (\<lambda>x. x\<lparr>f_memo_rdirs := Some result'\<rparr>) s2, Inr result')
                  | Some u \<Rightarrow> loop d0 u
                      (if fname = ''.'' then f_name (fsnode_of s2 dir) else f_name (fsnode_of s2 dir) @ ''/'' @ fname) result' s2))) = Some y"
  show "\<not> (lend_cycle a b s \<and> (dir = a \<or> dir = b))"
  proof
    assume c: "lend_cycle a b s \<and> (dir = a \<or> dir = b)"
    let ?o = "if dir = a then b else a"
    have "\<exists>z. loop ?o ?o ''.'' [?o] s = Some z" using e c by (cases "loop ?o ?o ''.'' [?o] s") (auto simp: lend_cycle_def split: if_splits)
    then show False using IH c by fastforce
  qed
qed

lemma mutual_variants_diverge:
  "(case VariantDir (FNode 2) (FNode 3) False sample_tree of Some (s1, Inr _) \<Rightarrow>
     (case VariantDir (FNode 3) (FNode 2) False s1 of Some (s2, Inr _) \<Rightarrow> get_all_rdirs 2 s2 = None | _ \<Rightarrow> False) | _ \<Rightarrow> False)"
proof -
  define s1 where "s1 = fst (the (VariantDir (FNode 2) (FNode 3) False sample_tree))"
  define s2 where "s2 = fst (the (VariantDir (FNode 3) (FNode 2) False s1))"
  have a: "map_option snd (VariantDir (FNode 2) (FNode 3) False sample_tree) = Some (Inr ())" by code_simp
  have b: "map_option snd (VariantDir (FNode 3) (FNode 2) False s1) = Some (Inr ())" unfolding s1_def by code_simp
  have c: "lend_cycle 2 3 s2" unfolding s2_def s1_def by code_simp
  have "get_all_rdirs 2 s2 = None"
    using rdirs_loop_cycle [of 2 2 "''.''" "[2]" s2 _ 2 3] c by (cases "rdirs_loop 2 2 ''.'' [2] s2") (auto simp: get_all_rdirs_def lend_cycle_def)
  then show ?thesis using a b by (auto simp: s1_def s2_def)
qed

end
