(* ===== verification/ScanDir.thy ===== *)
theory ScanDir
  imports Scan FsVariant
begin

text \<open>
  The scanners for directories (\<open>SCons/Scanner/Dir.py\<close>): on the disk, which enters what it finds into the tree of nodes,
  and in memory.
\<close>

section \<open>The scanners\<close>

definition skip_entry_list :: "string list" where
  "skip_entry_list = [''.'', ''..'', ''.sconsign'', ''.sconsign.dblite'', ''.sconsign.dir'', ''.sconsign.pag'',
     ''.sconsign.dat'', ''.sconsign.bak'', ''.sconsign.db'']"

definition do_not_scan :: "string \<Rightarrow> bool" where
  "do_not_scan k \<longleftrightarrow> k \<notin> set skip_entry_list"

text \<open>\<open>scan_in_memory\<close>; only directories have \<open>entries\<close>.\<close>

definition scan_in_memory :: "fsys \<Rightarrow> fsid \<Rightarrow> fsid list" where
  "scan_in_memory s n =
     (if is_dir s n
      then let entries = f_entries (fsnode_of s n); entry_list = filter do_not_scan (remdups (map fst entries))
           in map (\<lambda>k. the (map_of entries k)) (sort entry_list)
      else [])"

text \<open>
  \<open>scan_on_disk\<close>. The method \<open>Entry\<close> of a file is that of its directory; a node of the class \<open>Entry\<close> has none.
  \<open>listdir\<close> is an argument.
\<close>

definition entry_method :: "fsys \<Rightarrow> fsid \<Rightarrow> (string \<Rightarrow> fsys \<Rightarrow> fsys \<times> fsid res) res" where
  "entry_method s n =
     (if is_dir s n then Inr (Dir_Entry n)
      else if f_class (fsnode_of s n) = File then Inr (Dir_Entry (f_dir (fsnode_of s n)))
      else Inl AttributeError)"

fun enter_all :: "(string \<Rightarrow> fsys \<Rightarrow> fsys \<times> fsid res) \<Rightarrow> string list \<Rightarrow> fsys \<Rightarrow> fsys \<times> unit res" where
  "enter_all e [] s = (s, Inr ())"
| "enter_all e (f # fs) s = (case e (''./'' @ f) s of
       (s1, Inl x) \<Rightarrow> (s1, Inl x)
     | (s1, Inr n) \<Rightarrow> enter_all e fs s1)"

definition scan_on_disk :: "(string \<Rightarrow> string list res) \<Rightarrow> fsid \<Rightarrow> fsys \<Rightarrow> fsys \<times> fsid list res" where
  "scan_on_disk listdir n s = (case listdir (f_abspath (fsnode_of s n)) of
       Inl x \<Rightarrow> if is_os_error x then (s, Inr []) else (s, Inl x)
     | Inr flist \<Rightarrow> (case entry_method s n of
           Inl x \<Rightarrow> (s, Inl x)
         | Inr e \<Rightarrow> (case enter_all e (filter do_not_scan flist) s of
               (s1, Inl x) \<Rightarrow> (s1, Inl x)
             | (s1, Inr u) \<Rightarrow> (s1, Inr (scan_in_memory s1 n)))))"

section \<open>The entries of a directory\<close>

text \<open>The names under which a directory has nodes.\<close>

definition child_names :: "fsys \<Rightarrow> fsid \<Rightarrow> string set" where
  "child_names s d = {c. good_name c \<and> known s (fs_names s d @ [c])}"

lemma child_node:
  assumes "wf_fs s" "d < fsize s" "c \<in> child_names s d"
  shows "\<exists>m. 0 < m \<and> m < fsize s \<and> f_dir (fsnode_of s m) = d \<and> f_name (fsnode_of s m) = c \<and> map_of (f_entries (fsnode_of s d)) c = Some m"
proof -
  obtain m where m: "fs_lookupDict s (key_path (fs_names s d @ [c])) = Some m" using assms(3) by (auto simp: child_names_def known_def)
  have g: "list_all good_name (fs_names s d @ [c])" using labspath_names [OF assms(1, 2)] assms(3) by (simp add: child_names_def)
  note n = dict_Some [OF assms(1) g m]
  have p: "0 < m" using labspath_names [OF assms(1) n(1)] n(2) by (cases m) auto
  note ch = fs_names_child [OF assms(1) n(1) p] wf_fsD(6) [OF assms(1) n(1) p]
  have "f_dir (fsnode_of s m) < fsize s" using f_dir_less [OF assms(1) n(1) p] n(1) by simp
  moreover have f: "fs_names s (f_dir (fsnode_of s m)) = fs_names s d" "f_name (fsnode_of s m) = c" using ch(1) n(2) by simp_all
  ultimately have "f_dir (fsnode_of s m) = d" using names_inject [OF assms(1) _ assms(2)] by blast
  then show ?thesis using ch(2) n(1) p f(2) by (auto simp: child_ok_def)
qed

lemma child_entries:
  assumes "wf_fs s" "d < fsize s" "is_dir s d"
  shows "c \<in> child_names s d \<longleftrightarrow> c \<notin> {''.'', ''..''} \<and> map_of (f_entries (fsnode_of s d)) c \<noteq> None"
proof
  assume "c \<in> child_names s d"
  then show "c \<notin> {''.'', ''..''} \<and> map_of (f_entries (fsnode_of s d)) c \<noteq> None"
    using child_node [OF assms(1, 2)] by (auto simp: child_names_def good_name_def)
next
  assume c: "c \<notin> {''.'', ''..''} \<and> map_of (f_entries (fsnode_of s d)) c \<noteq> None"
  then obtain m where m: "map_of (f_entries (fsnode_of s d)) c = Some m" by blast
  have e: "0 < m" "m < fsize s" "f_dir (fsnode_of s m) = d" "f_name (fsnode_of s m) = c"
    using wf_fsD(7) [OF assms] c m by (simp_all add: entries_ok_def)
  have "fs_names s m = fs_names s d @ [c]" using fs_names_child [OF assms(1) e(2, 1)] e(3, 4) by simp
  moreover have "good_name c" using wf_fsD(6) [OF assms(1) e(2, 1)] e(4) by (simp add: child_ok_def)
  ultimately show "c \<in> child_names s d" using dict_names [OF assms(1) e(2)] by (simp add: child_names_def known_def)
qed

lemma scan_in_memory_names:
  assumes "wf_fs s" "d < fsize s" "is_dir s d"
  shows "map (\<lambda>n. f_name (fsnode_of s n)) (scan_in_memory s d) = sorted_list_of_set (child_names s d - set skip_entry_list)"
    "n \<in> set (scan_in_memory s d) \<Longrightarrow> 0 < n \<and> n < fsize s \<and> f_dir (fsnode_of s n) = d"
proof -
  let ?es = "f_entries (fsnode_of s d)"
  let ?ks = "filter do_not_scan (remdups (map fst ?es))"
  have k: "set ?ks = child_names s d - set skip_entry_list"
  proof -
    have d: "c \<notin> {''.'', ''..''}" if "c \<notin> set skip_entry_list" for c
      using that unfolding skip_entry_list_def by auto
    have "c \<in> set ?ks \<longleftrightarrow> c \<notin> set skip_entry_list \<and> map_of ?es c \<noteq> None" for c
      by (simp only: set_filter set_remdups set_map mem_Collect_eq do_not_scan_def map_of_eq_None_iff not_not) blast
    then show ?thesis using child_entries [OF assms] d by (intro set_eqI) (metis Diff_iff)
  qed
  have s: "sort ?ks = sorted_list_of_set (child_names s d - set skip_entry_list)"
    unfolding k [symmetric] by (rule sorted_list_of_set_sort_remdups [THEN trans, symmetric]) (simp add: distinct_remdups_id)
  have n: "0 < the (map_of ?es c) \<and> the (map_of ?es c) < fsize s \<and> f_dir (fsnode_of s (the (map_of ?es c))) = d \<and>
      f_name (fsnode_of s (the (map_of ?es c))) = c" if "c \<in> set ?ks" for c
  proof -
    have "c \<in> child_names s d" using that unfolding k by blast
    from child_node [OF assms(1, 2) this] show ?thesis by auto
  qed
  have "map (\<lambda>n. f_name (fsnode_of s n)) (scan_in_memory s d) = sort ?ks"
    unfolding scan_in_memory_def Let_def if_P [OF assms(3)] map_map by (rule map_idI) (use n in simp)
  then show "map (\<lambda>n. f_name (fsnode_of s n)) (scan_in_memory s d) = sorted_list_of_set (child_names s d - set skip_entry_list)"
    using s by simp
  show "0 < n \<and> n < fsize s \<and> f_dir (fsnode_of s n) = d" if "n \<in> set (scan_in_memory s d)"
    using that n assms(3) by (auto simp: scan_in_memory_def Let_def)
qed

section \<open>Entering what is on the disk\<close>

lemma dot_path:
  assumes "wf_fs s" "d < fsize s" "good_name f" "CHR 0x0A \<notin> set f"
  shows "plain_path s (''./'' @ f)" "resolve s d (''./'' @ f) = fs_names s d @ [f]"
proof -
  have sl: "slash \<notin> set f" using assms(3) by (simp add: good_name_def)
  have sp: "py_split ''/'' (''./'' @ f) = [''.'', f]" using py_split_slash [of "''.''" f] py_split_no_sep [OF sl] by simp
  have h: "take 1 (''./'' @ f) \<noteq> ''#''" "\<not> isabs (''./'' @ f)" by (simp_all add: isabs_def)
  show "plain_path s (''./'' @ f)" using assms(4) by (simp add: plain_path_def initial_slashes_def)
  have "norm_comps True (fs_names s d) ([''.''] @ [f]) = fs_names s d @ [f]"
    unfolding norm_comps_append using norm_comps_good [of "[f]"] assms(3) by simp
  then show "resolve s d (''./'' @ f) = fs_names s d @ [f]" using sp h unfolding resolve_no_hash [OF h(1)] by simp
qed

lemma entry_can_lookup:
  assumes "wf_fs s" "d < fsize s" "is_dir s d"
  shows "can_lookup s (fs_names s d @ [f]) Entry True"
proof -
  have "class_ok s Dir (take i (fs_names s d @ [f]))" if "i \<le> length (fs_names s d)" for i
  proof -
    obtain m where "fs_lookupDict s (key_path (take i (fs_names s d))) = Some m" "is_dir s m"
      using prefix_is_dir [OF assms(1, 2), of i] dict_names [OF assms(1, 2)] assms(3) \<open>i \<le> _\<close> by (cases "i = length (fs_names s d)") auto
    then show ?thesis using that by (simp add: class_ok_def fits_def is_dir_def)
  qed
  then show ?thesis by (auto simp: can_lookup_def class_ok_def fits_def disk_ok_def split: option.split)
qed

lemma on_path_last:
  assumes "list_all good_name (cs @ [f])" "good_name c" "on_path (cs @ [f]) (key_path (cs @ [c]))"
  shows "c = f"
proof -
  have g: "list_all good_name (cs @ [c])" using assms(1, 2) by simp
  obtain i where i: "i \<le> length (cs @ [f])" "key_path (cs @ [c]) = key_path (take i (cs @ [f]))" using assms(3) by (auto simp: on_path_def)
  show ?thesis
  proof (cases "i \<le> length cs")
    case True
    then have "on_path cs (key_path (cs @ [c]))" using i(2) by (auto simp: on_path_def)
    then show ?thesis using not_on_path [OF g] by blast
  next
    case False
    then have "key_path (cs @ [c]) = key_path (cs @ [f])" using i by (simp add: le_Suc_eq)
    then show ?thesis using abs_path_inject [OF g assms(1)] by (simp add: key_path_def)
  qed
qed

lemma Dir_Entry_enters:
  assumes "wf_fs s" "d < fsize s" "is_dir s d" "good_name f" "CHR 0x0A \<notin> set f"
  obtains t n where "Dir_Entry d (''./'' @ f) s = (t, Inr n)" "wf_fs t" "fs_le s t" "child_names t d = insert f (child_names s d)"
proof -
  obtain t r where t: "Dir_Entry d (''./'' @ f) s = (t, r)" by fastforce
  note p = dot_path [OF assms(1, 2, 4, 5)]
  have post: "lookup_post s (fs_names s d @ [f]) Entry True (t, r)"
    using fs_lookup_post [OF assms(1-3) p(1), of Entry True] p(2) t by (simp add: Dir_Entry_def FS_Entry_def)
  then obtain n where r: "r = Inr n" using entry_can_lookup [OF assms(1-3)] by (cases r) (auto simp: lookup_post_def)
  have q: "wf_fs t" "fs_le s t" "n < fsize t" "fs_names t n = fs_names s d @ [f]"
    "\<And>q. fs_lookupDict t q = fs_lookupDict s q \<or> on_path (fs_names s d @ [f]) q"
    using post r by (simp_all add: lookup_post_def)
  have nd: "fs_names t d = fs_names s d" by (rule fs_le_names [OF q(2) assms(1, 2)])
  have g: "list_all good_name (fs_names s d @ [f])" using labspath_names [OF q(1, 3)] q(4) by simp
  have "c \<in> child_names t d \<longleftrightarrow> c = f \<or> c \<in> child_names s d" for c
  proof -
    have "known t (fs_names s d @ [c])" if "known s (fs_names s d @ [c])"
      using that fs_le_dict [OF q(2)] by (auto simp: known_def)
    moreover have "c = f \<or> known s (fs_names s d @ [c])" if "known t (fs_names s d @ [c])" "good_name c"
      using on_path_last [OF g that(2)] q(5) [of "key_path (fs_names s d @ [c])"] that(1) by (auto simp: known_def)
    moreover have "known t (fs_names s d @ [f])" using dict_names [OF q(1, 3)] q(4) by (simp add: known_def)
    ultimately show ?thesis using assms(4) unfolding child_names_def nd by blast
  qed
  then have "child_names t d = insert f (child_names s d)" by blast
  then show ?thesis using that t r q(1, 2) by simp
qed

lemma enter_all_enters:
  assumes "wf_fs s" "d < fsize s" "is_dir s d" "\<forall>f \<in> set fs. good_name f \<and> CHR 0x0A \<notin> set f"
  shows "\<exists>t. enter_all (Dir_Entry d) fs s = (t, Inr ()) \<and> wf_fs t \<and> fs_le s t \<and> child_names t d = set fs \<union> child_names s d"
  using assms
proof (induction fs arbitrary: s)
  case (Cons f fs)
  obtain t n where t: "Dir_Entry d (''./'' @ f) s = (t, Inr n)" "wf_fs t" "fs_le s t" "child_names t d = insert f (child_names s d)"
    using Dir_Entry_enters [OF Cons.prems(1-3), of f] Cons.prems(4) by auto
  have "d < fsize t" "is_dir t d" using fs_leD(1) [OF t(3) Cons.prems(2)] fs_le_is_dir [OF t(3) Cons.prems(2, 3)] by simp_all
  then obtain u where "enter_all (Dir_Entry d) fs t = (u, Inr ())" "wf_fs u" "fs_le t u" "child_names u d = set fs \<union> child_names t d"
    using Cons.IH [OF t(2)] Cons.prems(4) by auto
  then show ?case using t fs_le_trans [OF t(3)] by auto
qed simp

section \<open>Scanning a directory\<close>

text \<open>
  C16: Scanning a directory that can be read never fails. It returns one node for every name that is listed on the disk or
  has a node already, in the order of the names and without the files of the signature database; all are nodes of this directory, and
  the tree of nodes keeps its invariant and everything that was in it. Where the directory cannot be read nothing is returned.
\<close>
theorem dir_scan_complete:
  assumes "wf_fs s" "d < fsize s" "is_dir s d"
    and "\<And>fl f. listdir (f_abspath (fsnode_of s d)) = Inr fl \<Longrightarrow> f \<in> set fl \<Longrightarrow> f \<in> {''.'', ''..''} \<or> good_name f \<and> CHR 0x0A \<notin> set f"
    and "\<And>x. listdir (f_abspath (fsnode_of s d)) = Inl x \<Longrightarrow> is_os_error x"
  shows "\<exists>t ns. scan_on_disk listdir d s = (t, Inr ns) \<and> wf_fs t \<and> fs_le s t \<and>
    (\<forall>n \<in> set ns. 0 < n \<and> n < fsize t \<and> f_dir (fsnode_of t n) = d) \<and>
    (case listdir (f_abspath (fsnode_of s d)) of
       Inl x \<Rightarrow> t = s \<and> ns = []
     | Inr fl \<Rightarrow> map (\<lambda>n. f_name (fsnode_of t n)) ns = sorted_list_of_set (set fl \<union> child_names s d - set skip_entry_list))"
proof (cases "listdir (f_abspath (fsnode_of s d))")
  case (Inl x)
  then show ?thesis using assms(1, 5) by (simp add: scan_on_disk_def)
next
  case (Inr fl)
  let ?fs = "filter do_not_scan fl"
  have d: "\<not> do_not_scan ''.''" "\<not> do_not_scan ''..''" by (simp_all add: do_not_scan_def skip_entry_list_def)
  have "\<forall>f \<in> set ?fs. good_name f \<and> CHR 0x0A \<notin> set f" using assms(4) [OF Inr] d by fastforce
  then obtain t where t: "enter_all (Dir_Entry d) ?fs s = (t, Inr ())" "wf_fs t" "fs_le s t" "child_names t d = set ?fs \<union> child_names s d"
    using enter_all_enters [OF assms(1-3)] by blast
  have td: "d < fsize t" "is_dir t d" using fs_leD(1) [OF t(3) assms(2)] fs_le_is_dir [OF t(3) assms(2, 3)] by simp_all
  have e: "set ?fs \<union> child_names s d - set skip_entry_list = set fl \<union> child_names s d - set skip_entry_list"
    unfolding do_not_scan_def by auto
  have "scan_on_disk listdir d s = (t, Inr (scan_in_memory t d))" using Inr t(1) assms(3) by (simp add: scan_on_disk_def entry_method_def)
  then show ?thesis using scan_in_memory_names [OF t(2) td] t e Inr by auto
qed

theorem dir_scan_complete_witness:
  "\<exists>t ns. scan_on_disk (\<lambda>p. Inr [''z.c'', ''.sconsign'', ''a'']) 1 sample_tree = (t, Inr ns) \<and>
     map (\<lambda>n. f_name (fsnode_of t n)) ns = [''a'', ''b'', ''z.c'']"
proof -
  have d: "1 < fsize sample_tree" "is_dir sample_tree 1" by code_simp+
  have g: "good_name ''z.c'' \<and> good_name ''.sconsign'' \<and> good_name ''a''" by (simp add: good_name_def)
  have c: "c \<in> child_names sample_tree 1 \<longleftrightarrow> c \<in> {''a'', ''b''}" for c
  proof -
    have "f_entries (fsnode_of sample_tree 1) = [(''.'', 1), (''..'', 0), (''a'', 2), (''b'', 3)]" by code_simp
    then show ?thesis using child_entries [OF sample_tree_wf d, of c] by auto
  qed
  have "child_names sample_tree 1 = set [''a'', ''b'']" unfolding set_eq_iff c by simp
  moreover have "sorted_list_of_set (set [''z.c'', ''.sconsign'', ''a''] \<union> set [''a'', ''b''] - set skip_entry_list) = [''a'', ''b'', ''z.c'']"
    by code_simp
  moreover have "f \<in> {''.'', ''..''} \<or> good_name f \<and> CHR 0x0A \<notin> set f" if "f \<in> set [''z.c'', ''.sconsign'', ''a'']" for f
    using that g by fastforce
  ultimately show ?thesis
    using dir_scan_complete [OF sample_tree_wf d, of "\<lambda>p. Inr [''z.c'', ''.sconsign'', ''a'']"] by fastforce
qed

end
