(* ===== verification/Spec2Isabelle.thy ===== *)
theory Spec2Isabelle
  imports Interactive Sets Warnings SConsign CacheDir Vars CppLoop SubstThm EnvFlags EnvVars FsSig ScanPath ScanDir
begin

text \<open>
  A verification of the build engine of DOMQ: SCons 1.3.0, which the repository carries under
  \<open>src/framework/jsoncpp/scons-local-1.3.0/SCons\<close> (below: \<open>SCons/\<close>) and which builds its JSON library.
  The engine keeps a graph of nodes (files, with builders and dependencies). The taskmaster walks
  it, hands out tasks for nodes whose children are ready, and is told what became of them; jobs,
  serial or parallel, fetch the tasks and run them; executors hold the actions for groups of
  targets and find implicit dependencies. Around this core are containers and path functions, the
  warnings, the variables a user can set, and the database in which signatures are kept.

  Theories and what they model:

  \<^item> \<open>Prelude\<close>: exceptions as values (\<open>py_exc\<close>, results \<open>'a res\<close>), Python's lists and strings.
  \<^item> \<open>Errors\<close> (\<open>SCons/Errors.py\<close>): build errors and the conversion of anything a build can raise.
  \<^item> \<open>Util\<close> and \<open>Paths\<close> (\<open>SCons/Util.py\<close>): \<open>unique\<close>, \<open>UniqueList\<close>, \<open>OrderedDict\<close> (through the
    interface \<open>ordered_dict\<close>), \<open>Selector\<close>, \<open>flatten\<close>, \<open>LogicalLines\<close>; file names, references to
    variables, \<open>PrependPath\<close> and \<open>AppendPath\<close>, \<open>CLVar\<close>.
  \<^item> \<open>Sets\<close> (\<open>SCons/compat/_scons_sets.py\<close>): the set classes, refined by mathematical sets.
  \<^item> \<open>Node\<close>, \<open>Executor\<close> (\<open>SCons/Node/__init__.py\<close>, \<open>SCons/Executor.py\<close>): the heap of nodes and
    executors, both named by numbers; every method updates the heap. What subclasses of \<open>Node\<close>,
    scanners and actions do is a record of functions, \<open>hooks\<close>, on which no law is assumed.
  \<^item> \<open>Taskmaster\<close> (\<open>SCons/Taskmaster.py\<close>): the heap extended by the taskmaster's fields, the search
    for the next ready node, the methods of \<open>Task\<close>, \<open>will_not_build\<close>, cycles.
  \<^item> \<open>Graph_Frame\<close>, \<open>Waiting\<close>, \<open>Postprocess\<close>, \<open>Deps\<close>, \<open>Ready\<close>: what each operation leaves alone, the
    reference counts, the dependency relation, and the walk with its invariant \<open>walk_inv\<close>.
  \<^item> \<open>Job\<close> (\<open>SCons/Job.py\<close>): serial jobs as a loop, parallel jobs as a step relation of the main thread,
    the workers and signals, over an interface of task sources: the locale \<open>task_source\<close> (every method
    keeps an invariant) and its extension \<open>finite_task_source\<close> (a measure decreases).
  \<^item> \<open>Build\<close>: the taskmaster implements that interface, for each of its task classes.
  \<^item> \<open>Complete\<close>: what a serial build has done when it ends.
  \<^item> \<open>Walker\<close>, \<open>Interactive\<close> (\<open>Walker\<close> of \<open>SCons/Node/__init__.py\<close>, \<open>SCons/Script/Interactive.py\<close>): the
    depth-first walk over the heap, through the interface \<open>walk_client\<close> of its function arguments, and
    its client, the clearing of nodes between interactive builds.
  \<^item> \<open>Action\<close> (\<open>SCons/Action.py\<close>): the factory and the classes of actions, and what calling them does.
  \<^item> \<open>CacheDir\<close> (\<open>SCons/CacheDir.py\<close>): the cache of derived files, whose functions are such actions.
  \<^item> \<open>Dblite\<close>, \<open>SConsign\<close> (\<open>SCons/dblite.py\<close>, \<open>SCons/SConsign.py\<close>): the database file, and the signatures
    of directories kept in it or in files of their own.
  \<^item> \<open>CppLex\<close>, \<open>Cpp\<close>, \<open>CppCond\<close>, \<open>CppLoop\<close> (\<open>SCons/cpp.py\<close>): the expressions that cut a C file into
    directives, the preprocessor with its dispatch tables, its conditional groups compared with those
    of C, and when it returns.
  \<^item> \<open>Subst\<close>, \<open>SubstThm\<close> (\<open>SCons/Subst.py\<close>): the expansion of construction variables into a string or a
    list of command lines; its two mutually recursive methods take fuel, one unit per nested call.
  \<^item> \<open>Shlex\<close>, \<open>EnvFlags\<close> (\<open>SCons/compat/_scons_shlex.py\<close>, \<open>ParseFlags\<close> of \<open>SCons/Environment.py\<close>): the lexer
    that splits command lines, and the sorting of flags into variables. The repository's copy of \<open>shlex\<close>
    also stands for the interpreter's.
  \<^item> \<open>EnvVars\<close> (\<open>SCons/Environment.py\<close>): environments as dictionaries with stacked overrides, through the
    interface \<open>var_dict\<close>, and the methods that append and prepend without repetitions.
  \<^item> \<open>FsNode\<close>, \<open>FsLookup\<close> (\<open>SCons/Node/FS.py\<close>): the nodes of directories, files and entries whose kind is not
    known yet, on a heap with the tables of \<open>FS\<close> and \<open>RootDir\<close>; \<open>_lookup\<close>, \<open>_lookup_abs\<close>, \<open>must_be_same\<close>,
    the check against the disk, \<open>chdir\<close>; the invariant \<open>wf_fs\<close> and the states that look-ups reach.
  \<^item> \<open>FsPath\<close> (\<open>SCons/Node/FS.py\<close>): \<open>get_path\<close>, \<open>rel_path\<close>, \<open>is_under\<close>, \<open>target_from_source\<close>, over the interface
    \<open>path_table\<close> of a table in which a path leads to one node.
  \<^item> \<open>FsVariant\<close> (\<open>SCons/Node/FS.py\<close>): \<open>VariantDir\<close> and \<open>Repository\<close>, the directories behind a directory and
    \<open>srcnode\<close>; both kinds of links are instances of the interface \<open>dir_links\<close>.
  \<^item> \<open>FsSig\<close> (\<open>SCons/Node/FS.py\<close>, \<open>SCons/Util.py\<close>, \<open>SCons/Environment.py\<close>): content signatures, the information
    kept of a file, and the functions that decide whether it has changed.
  \<^item> \<open>Scan\<close>, \<open>ScanPath\<close>, \<open>ScanDir\<close> (\<open>SCons/Scanner\<close>, \<open>SCons/PathList.py\<close>): include lines, classic scanners through the
    interface \<open>include_scanner\<close> of their sort keys, the selection of scanners, path lists with their cache, libraries, and
    the scanners for directories, which enter what is on the disk into the tree of nodes.
  \<^item> \<open>Warnings\<close>, \<open>Vars\<close> (\<open>SCons/Warnings.py\<close>, \<open>SCons/Variables\<close>).

  What is shown. The search for a ready node ends and returns only nodes whose children are built.
  A serial build ends; a parallel build keeps its counters, never has more tasks than allowed in
  flight, never blocks and has no infinite run. A serial build of an acyclic graph leaves no requested
  target out: at its end each is finished or waits for something that failed. Failures spread to
  exactly the dependents, cycles are found exactly if they exist, parents are released when their last
  child is done. The containers refine lists, maps and sets; the path functions keep order and lose
  nothing; the database returns what was stored and survives a crash, and so do the signatures of a
  whole run; the cache of derived files returns what was pushed and never holds a torn file; variables
  are taken from the right source. The walker returns everything below a node, children first, and
  an interactive build leaves nothing stale. Actions run in order up to the first failure. The preprocessor
  reads back what was written, treats conditional groups as C does where the skipped branches hold only
  includes, and returns on files that do not include each other in a cycle. The expansion of
  variables is that of a reference definition, ends although values refer to themselves, and leaves
  bracketed parts out of signatures. Stacked environments are one dictionary; splitting undoes quoting, and
  flags end in their variables. A path of the file system has one node, which a look-up finds or creates, and the paths
  computed for a node lead back to it; a variant directory is linked only where it may be, and the directories
  behind it and the source of a node in it are the right ones, nearest first; a file counts as changed between
  two runs exactly if its contents differ. Scanning a C file or a directory finds everything that is there, in an order that
  does not depend on where files are found. The
  last section of this theory and the properties of \<open>Warnings\<close>, \<open>Util\<close>, \<open>Action\<close> and \<open>Vars\<close> also state where
  the code does less than it says.

  Loops that may not end in general are \<open>partial_function (option)\<close>; only the expansion of variables has
  fuel, and as many units as there are variables and three more are enough, since every expanded variable
  is blank in its own value. Where a loop is claimed to end this is proved. The completeness theorem excludes side effects and
  executors with several targets; the termination theorems exclude side effects only.

  Not modelled: of \<open>SCons/Node/FS.py\<close> the search for files on the disk (\<open>find_file\<close>, \<open>rfile\<close>, globbing), the
  copying of sources into variant directories and the conversion of old signature files, which consist of calls
  to the operating system and of matching names; the builders (\<open>Builder.py\<close>)
  and the methods of environments that call them: they enter through \<open>hooks\<close> or arguments;
  the tools, platforms and command-line scripts, which call compilers and print; the other compatibility
  modules, which copy the interpreter's library; and the message queue server with its C++ framework,
  which is not Python. The taskmaster's trace output and statistics, and the text of most messages of
  exceptions, are left out.
\<close>

section \<open>Failures\<close>

text \<open>
  C6: \<open>will_not_build\<close> marks exactly the nodes that can no longer be built: the given ones and all
  that wait for them, directly or through others, become failed and nobody waits for them any
  more; every other node keeps its state and its waiting parents; and the nodes that wait for
  the given ones leave the set of pending children, with the given ones themselves.
\<close>

theorem will_not_build_marks:
  fixes s :: taskmaster
  shows "get_state (will_not_build ns (Some failed) s) k =
      (if valid s k \<and> k \<in> (waits s)\<^sup>* `` set ns then failed else get_state s k) \<and>
    waiting_parents (node_at (will_not_build ns (Some failed) s) k) =
      (if k \<in> (waits s)\<^sup>* `` set ns then [] else waiting_parents (node_at s k)) \<and>
    set (pending_children (will_not_build ns (Some failed) s)) = set (pending_children s) - (waits s)\<^sup>* `` set ns"
proof -
  let ?l = "will_not_build_loop (Some failed) (fold set_add ns []) (set_minus (pending_children s) (fold set_add ns [])) s"
  have star: "(waits s)\<^sup>* `` set ns = set ns \<union> (waits s)\<^sup>+ `` set ns" by (auto simp: rtrancl_eq_or_trancl)
  have "pending_children (will_not_build ns (Some failed) s) = fst ?l"
    by (simp add: will_not_build_def Let_def split: prod.split)
  then have "set (pending_children (will_not_build ns (Some failed) s)) = set (pending_children s) - (waits s)\<^sup>* `` set ns"
    unfolding star by (simp add: will_not_build_loop_pending Diff_eq Int_assoc)
  with will_not_build_fields [of ns s k] show ?thesis by simp
qed

text \<open>
  C7: \<open>find_cycle\<close> finds a cycle through a node exactly if there is one: it returns a list if and only
  if the node waits, through others, for itself; and what it returns is a path of waiting parents
  from the node back to it.
\<close>

theorem find_cycle_correct:
  "(find_cycle h n \<noteq> None \<longleftrightarrow> (n, n) \<in> (waits h)\<^sup>+) \<and>
   (case find_cycle h n of None \<Rightarrow> True
    | Some c \<Rightarrow> hd c = n \<and> last c = n \<and> 2 \<le> length c \<and> waits_path h c)"
  using find_cycle_iff [of h n] find_cycle_Some [of h n] by (auto split: option.split)

section \<open>Releasing the parents\<close>

text \<open>
  C8: After a task, the reference counts still say how many nodes each node waits for, and no parent
  is forgotten: every node that waited for a target of the task and now waits for nothing has become
  a candidate.
\<close>

theorem postprocess_releases:
  assumes "ref_inv s" "wp_valid s" "idle_side_effects (t_targets t) s"
  shows "ref_inv (postprocess t s) \<and>
    (\<forall>n p. n \<in> set (t_targets t) \<and> p \<in> set (waiting_parents (node_at s n)) \<and> waiters (postprocess t s) p = {} \<longrightarrow>
       p \<in> set (candidates (postprocess t s)))"
proof -
  let ?s = "postprocess t s" and ?ts = "fold set_add (t_targets t) []"
  note f = postprocess_fields [OF assms(3,2)]
  have ri: "ref_inv ?s" by (rule ref_inv_postprocess [OF assms(1,3,2)])
  have "p \<in> set (candidates ?s)" if n: "n \<in> set (t_targets t)" and p: "p \<in> set (wp s n)" and w: "waiters ?s p = {}" for n p
  proof -
    have "valid ?s p" using assms(2) p by (auto simp: wp_valid_def f)
    with ri w have "rc ?s p = 0" by (simp add: ref_inv_def)
    then have z: "rc s p - cnt (released s ?ts) p = 0" by (simp add: f)
    have "p \<in> fst ` set (released s ?ts)" using n p by (auto simp: keys_released)
    then obtain k where k: "(p, k) \<in> set (released s ?ts)" by auto
    then have "cnt (released s ?ts) p = k"
      using distinct_released [of s ?ts] by (simp add: cnt_def map_of_is_SomeI)
    with z k show ?thesis by (force simp: f ready_parents_def)
  qed
  with ri show ?thesis by blast
qed

definition waiting_heap :: heap where
  "waiting_heap = \<lparr>nodes = [Node_init\<lparr>state := pending, ref_count := 1\<rparr>,
     Node_init\<lparr>state := executed, waiting_parents := [0]\<rparr>], execs = []\<rparr>"

theorem postprocess_releases_witness:
  "0 \<in> set (candidates (postprocess (Task_init [1] False 1) (Taskmaster_init [0] id waiting_heap)))"
proof -
  let ?s = "Taskmaster_init [0] id waiting_heap" and ?t = "Task_init [1] False 1"
  have w: "wp ?s n = (if n = 1 then [0] else [])" for n
    by (auto simp: Taskmaster_init_heap waiting_heap_def node_at_def Node_init_def nth_Cons split: nat.split)
  have r: "rc ?s n = (if n = 0 then 1 else 0)" for n
    by (auto simp: Taskmaster_init_heap waiting_heap_def node_at_def Node_init_def nth_Cons split: nat.split)
  have se: "side_effects (node_at ?s n) = []" for n
    by (auto simp: Taskmaster_init_heap waiting_heap_def node_at_def Node_init_def nth_Cons split: nat.split)
  have wt: "waiters ?s p = (if p = 0 then {1} else {})" for p by (auto simp: waiters_def w)
  have 1: "ref_inv ?s" by (auto simp: ref_inv_def w r wt)
  have "valid ?s 0" by (simp add: Taskmaster_init_heap waiting_heap_def valid_def)
  then have 2: "wp_valid ?s" by (simp add: wp_valid_def w)
  have 3: "idle_side_effects (t_targets ?t) ?s" by (simp add: idle_side_effects_def se)
  have "waiters (postprocess ?t ?s) 0 = {}"
    using postprocess_fields(4) [OF 3 2] by (auto simp: waiters_def w Task_init_def)
  with postprocess_releases [OF 1 2 3] w [of 1] show ?thesis by (auto simp: Task_init_def)
qed

section \<open>Children\<close>

text \<open>The lists of a node have no repetitions and the sets kept beside them have the same elements.\<close>

definition node_lists_ok :: "node \<Rightarrow> bool" where
  "node_lists_ok x \<longleftrightarrow> distinct (sources x) \<and> sources_set x = set (sources x) \<and> distinct (depends x) \<and> depends_set x = set (depends x)
     \<and> distinct (ignore x) \<and> ignore_set x = set (ignore x)"

lemma add_child_ok:
  "add_child ds (l, set l) = ((l', st), added) \<Longrightarrow> distinct l \<Longrightarrow>
     distinct l' \<and> st = set l' \<and> set l' = set l \<union> set ds \<and> added = (\<not> set ds \<subseteq> set l)"
proof (induction ds arbitrary: l added)
  case (Cons c ds)
  show ?case
  proof (cases "c \<in> set l")
    case True
    with Cons.prems Cons.IH [of l added] show ?thesis by auto
  next
    case False
    obtain a where a: "add_child ds (l @ [c], set (l @ [c])) = ((l', st), a)"
      using Cons.prems(1) False by (cases "add_child ds (l @ [c], set (l @ [c]))") auto
    with Cons.IH [OF a] Cons.prems False show ?thesis by auto
  qed
qed simp

lemma node_at_children_reset:
  "node_at (children_reset n h) m = (if m = n \<and> valid h n then (node_at h n)\<lparr>memo_children := None\<rparr> else node_at h m)"
  by (auto simp: children_reset_def clear_memoized_values_def executor_cleanup_def executor_cleanup_at_def node_at_upd_node
      split: option.split)

text \<open>
  Adding dependencies, sources or nodes to ignore keeps the lists of every node free of
  repetitions and in step with their sets, adds exactly the given nodes to the one list, leaves the
  other nodes alone, and forgets the memoized children of the node whenever something was added.
\<close>

lemma add_children_lists:
  assumes "valid h n" "node_lists_ok (node_at h n)"
  shows "node_lists_ok (node_at (add_dependency n ds h) n) \<and> set (depends (node_at (add_dependency n ds h) n)) = set (depends (node_at h n)) \<union> set ds \<and>
    node_lists_ok (node_at (add_ignore n ds h) n) \<and> set (ignore (node_at (add_ignore n ds h) n)) = set (ignore (node_at h n)) \<union> set ds \<and>
    node_lists_ok (node_at (add_source n ds h) n) \<and>
    (m \<noteq> n \<longrightarrow> node_at (add_dependency n ds h) m = node_at h m \<and> node_at (add_ignore n ds h) m = node_at h m \<and> node_at (add_source n ds h) m = node_at h m) \<and>
    (\<not> set ds \<subseteq> set (depends (node_at h n)) \<longrightarrow> memo_children (node_at (add_dependency n ds h) n) = None)"
proof -
  let ?x = "node_at h n"
  have ok: "distinct (sources ?x)" "sources_set ?x = set (sources ?x)" "distinct (depends ?x)" "depends_set ?x = set (depends ?x)"
    "distinct (ignore ?x)" "ignore_set ?x = set (ignore ?x)" using assms(2) by (auto simp: node_lists_ok_def)
  obtain l1 s1 a1 where d: "add_child ds (depends ?x, set (depends ?x)) = ((l1, s1), a1)" by (metis surj_pair)
  obtain l2 s2 a2 where i: "add_child ds (ignore ?x, set (ignore ?x)) = ((l2, s2), a2)" by (metis surj_pair)
  obtain l3 s3 a3 where c: "add_child ds (sources ?x, set (sources ?x)) = ((l3, s3), a3)" by (metis surj_pair)
  note k = add_child_ok [OF d ok(3)] add_child_ok [OF i ok(5)] add_child_ok [OF c ok(1)]
  have dep: "node_at (add_dependency n ds h) m =
      (if m = n then (if a1 then ?x\<lparr>depends := l1, depends_set := s1, memo_children := None\<rparr> else ?x\<lparr>depends := l1, depends_set := s1\<rparr>)
       else node_at h m)" for m
    using assms(1) by (simp add: add_dependency_def ok d Let_def node_at_children_reset node_at_upd_node)
  have ign: "node_at (add_ignore n ds h) m =
      (if m = n then (if a2 then ?x\<lparr>ignore := l2, ignore_set := s2, memo_children := None\<rparr> else ?x\<lparr>ignore := l2, ignore_set := s2\<rparr>)
       else node_at h m)" for m
    using assms(1) by (simp add: add_ignore_def ok i Let_def node_at_children_reset node_at_upd_node)
  have src: "node_at (add_source n ds h) m =
      (if m = n \<and> \<not> specific_sources ?x
       then (if a3 then ?x\<lparr>sources := l3, sources_set := s3, memo_children := None\<rparr> else ?x\<lparr>sources := l3, sources_set := s3\<rparr>)
       else node_at h m)" for m
    using assms(1) by (simp add: add_source_def ok c Let_def node_at_children_reset node_at_upd_node)
  show ?thesis using k ok by (simp add: dep ign src node_lists_ok_def)
qed

section \<open>Limits of the scheduler\<close>

definition side_effect_heap :: heap where
  "side_effect_heap = \<lparr>nodes = [Node_init\<lparr>state := executing, side_effects := [1]\<rparr>,
     Node_init\<lparr>state := executing, waiting_parents := [2]\<rparr>, Node_init\<lparr>state := pending, ref_count := 1\<rparr>], execs = []\<rparr>"

text \<open>
  A node that waits for a side effect of a task is not released when the task succeeds: \<open>executed\<close>
  resets the side effect to no state, so that \<open>postprocess\<close>, which releases the waiting parents of
  side effects that are being executed, passes over it. On a heap where node 2 waits for node 1, the
  side effect of node 0, the reference count of node 2 stays 1 and it becomes no candidate, while
  \<open>postprocess\<close> alone would have released it.
\<close>

lemma side_effect_waiters_stay:
  "let s = Taskmaster_init [2] id side_effect_heap; t = Task_init [0] False 0;
       s1 = postprocess t (executed_with_callbacks base_hooks [0] s); s2 = postprocess t s
   in get_state s1 0 = executed \<and> get_state s1 1 = no_state \<and> waiting_parents (node_at s1 1) = [2] \<and> ref_count (node_at s1 2) = 1
      \<and> candidates s1 = [] \<and> ref_count (node_at s2 2) = 0 \<and> candidates s2 = [2]"
  by code_simp

definition failed_child_heap :: heap where
  "failed_child_heap = \<lparr>nodes = [
     Node_init\<lparr>state := pending, ref_count := 1, node_builder := Some (sample_builder 0), sources := [1], sources_set := {1}\<rparr>,
     Node_init\<lparr>state := pending, node_builder := Some (sample_builder 1), sources := [2], sources_set := {2}, waiting_parents := [0]\<rparr>,
     Node_init\<lparr>state := failed, node_builder := Some (sample_builder 1)\<rparr>], execs = []\<rparr>"

text \<open>
  With \<open>--keep-going\<close>, a node that is skipped because a child of it failed is marked failed, but
  the nodes that wait for it are not told: on a heap where node 0 waits for node 1 and node 2, a child
  of node 1, has failed, considering node 1 leaves node 0 pending, with its reference count and not
  among the candidates.
\<close>

lemma failed_child_leaves_parents:
  "case consider_node base_hooks 1 (Taskmaster_init [0] id failed_child_heap) of
     Continue s \<Rightarrow> get_state s 1 = failed \<and> waiting_parents (node_at s 1) = [0] \<and> get_state s 0 = pending
       \<and> ref_count (node_at s 0) = 1 \<and> candidates s = []
   | _ \<Rightarrow> False"
  by code_simp

definition depends_heap :: heap where
  "depends_heap = \<lparr>nodes = [Node_init\<lparr>depends := [1], depends_set := {1}\<rparr>,
     Node_init\<lparr>node_builder := Some (sample_builder 0)\<rparr>], execs = []\<rparr>"

text \<open>
  The dependencies of a node without a builder are not followed: its executor is a null executor,
  which takes only the sources for its children. On a heap where node 0 has no builder and depends on
  node 1, which has one, node 0 is found ready while node 1 was never visited.
\<close>

lemma null_executor_ignores_depends:
  "case consider_node base_hooks 0 (Taskmaster_init [0] id depends_heap) of
     Found n s \<Rightarrow> n = 0 \<and> get_state s 1 = no_state \<and> candidates s = [] \<and> depends (node_at s 0) = [1] \<and> ready_exc s = None
   | _ \<Rightarrow> False"
  by code_simp

end
